(* ===== verification/Prelude.thy ===== *)
theory Prelude
  imports Main "HOL-Library.Word" "HOL-Library.List_Lexorder"
begin

text \<open>
  Shared vocabulary of the development: the Rust integer types as words, the checked and
  saturating arithmetic of the standard library, the state-and-error monad in which every
  mutating function of the program is written, public keys with their byte order, and the
  lemma collections that the component proofs use.

  The collection \<open>ok_iff\<close> holds, for each monadic combinator and each library
  operation, the equivalence that says when a run succeeds and what it leaves behind.
  Unfolding a handler and simplifying with it turns a successful run into the list of its
  checks and the final state. The collection \<open>arith_iff\<close> moves checked word arithmetic to
  the natural numbers.
\<close>

named_theorems ok_iff \<open>when a computation succeeds, and the state it leaves\<close>
named_theorems arith_iff \<open>checked word arithmetic read in the natural numbers\<close>

section \<open>Machine integers\<close>

type_synonym u8 = "8 word"
type_synonym u16 = "16 word"
type_synonym u32 = "32 word"
type_synonym u64 = "64 word"
type_synonym u128 = "128 word"
type_synonym i64 = "64 word"
type_synonym i128 = "128 word"

definition checked_add :: "'a::len word \<Rightarrow> 'a word \<Rightarrow> 'a word option" where
  "checked_add a b = (if unat a + unat b < 2 ^ LENGTH('a) then Some (a + b) else None)"

definition checked_sub :: "'a::len word \<Rightarrow> 'a word \<Rightarrow> 'a word option" where
  "checked_sub a b = (if unat b \<le> unat a then Some (a - b) else None)"

definition checked_mul :: "'a::len word \<Rightarrow> 'a word \<Rightarrow> 'a word option" where
  "checked_mul a b = (if unat a * unat b < 2 ^ LENGTH('a) then Some (a * b) else None)"

definition checked_div :: "'a::len word \<Rightarrow> 'a word \<Rightarrow> 'a word option" where
  "checked_div a b = (if b = 0 then None else Some (a div b))"

definition saturating_add :: "'a::len word \<Rightarrow> 'a word \<Rightarrow> 'a word" where
  "saturating_add a b = (if unat a + unat b < 2 ^ LENGTH('a) then a + b else -1)"

definition saturating_sub :: "'a::len word \<Rightarrow> 'a word \<Rightarrow> 'a word" where
  "saturating_sub a b = (if unat b \<le> unat a then a - b else 0)"

definition saturating_mul :: "'a::len word \<Rightarrow> 'a word \<Rightarrow> 'a word" where
  "saturating_mul a b = (if unat a * unat b < 2 ^ LENGTH('a) then a * b else -1)"

text \<open>Signed (two's complement) variants, reading the words with \<^const>\<open>sint\<close>.\<close>

definition in_signed_range :: "nat \<Rightarrow> int \<Rightarrow> bool" where
  "in_signed_range n i \<longleftrightarrow> - (2 ^ (n - 1)) \<le> i \<and> i < 2 ^ (n - 1)"

definition checked_signed :: "int \<Rightarrow> 'a::len word option" where
  "checked_signed i = (if in_signed_range LENGTH('a) i then Some (word_of_int i) else None)"

definition saturate_signed :: "int \<Rightarrow> 'a::len word" where
  "saturate_signed i = word_of_int (max (- (2 ^ (LENGTH('a) - 1))) (min (2 ^ (LENGTH('a) - 1) - 1) i))"

definition tdiv :: "int \<Rightarrow> int \<Rightarrow> int" where
  \<comment> \<open>division rounding towards zero, as Rust divides signed integers\<close>
  "tdiv a b = sgn a * sgn b * (\<bar>a\<bar> div \<bar>b\<bar>)"

definition checked_add_s :: "'a::len word \<Rightarrow> 'a word \<Rightarrow> 'a word option" where
  "checked_add_s a b = checked_signed (sint a + sint b)"

definition checked_sub_s :: "'a::len word \<Rightarrow> 'a word \<Rightarrow> 'a word option" where
  "checked_sub_s a b = checked_signed (sint a - sint b)"

definition checked_mul_s :: "'a::len word \<Rightarrow> 'a word \<Rightarrow> 'a word option" where
  "checked_mul_s a b = checked_signed (sint a * sint b)"

definition checked_div_s :: "'a::len word \<Rightarrow> 'a word \<Rightarrow> 'a word option" where
  "checked_div_s a b = (if b = 0 then None else checked_signed (tdiv (sint a) (sint b)))"

definition saturating_add_s :: "'a::len word \<Rightarrow> 'a word \<Rightarrow> 'a word" where
  "saturating_add_s a b = saturate_signed (sint a + sint b)"

definition saturating_sub_s :: "'a::len word \<Rightarrow> 'a word \<Rightarrow> 'a word" where
  "saturating_sub_s a b = saturate_signed (sint a - sint b)"

definition saturating_mul_s :: "'a::len word \<Rightarrow> 'a word \<Rightarrow> 'a word" where
  "saturating_mul_s a b = saturate_signed (sint a * sint b)"

lemma unat_lt2p: "unat w < 2 ^ LENGTH('a)"
  for w :: "'a::len word"
  by (rule unsigned_less)

lemma unat_max_word: "unat (- 1 :: 'a::len word) = 2 ^ LENGTH('a) - 1"
  by (simp add: unsigned_minus_1_eq_mask mask_eq_exp_minus_1)

lemma unat_add_small: "unat a + unat b < 2 ^ LENGTH('a) \<Longrightarrow> unat (a + b) = unat a + unat b"
  for a b :: "'a::len word"
  by (simp add: unat_word_ariths)

lemma unat_mul_small: "unat a * unat b < 2 ^ LENGTH('a) \<Longrightarrow> unat (a * b) = unat a * unat b"
  for a b :: "'a::len word"
  by (simp add: unat_word_ariths)

lemma checked_add_Some [arith_iff]:
  "checked_add a b = Some c \<longleftrightarrow> unat c = unat a + unat b"
  for a b c :: "'a::len word"
proof
  assume "checked_add a b = Some c"
  then show "unat c = unat a + unat b"
    by (auto simp: checked_add_def unat_add_small split: if_splits)
next
  assume h: "unat c = unat a + unat b"
  then have "unat a + unat b < 2 ^ LENGTH('a)"
    using unat_lt2p [of c] by simp
  moreover from this h have "c = a + b"
    by (metis unat_add_small word_unat_eq_iff)
  ultimately show "checked_add a b = Some c" by (simp add: checked_add_def)
qed

lemma checked_sub_Some [arith_iff]:
  "checked_sub a b = Some c \<longleftrightarrow> unat a = unat b + unat c"
  for a b c :: "'a::len word"
proof
  assume "checked_sub a b = Some c"
  then show "unat a = unat b + unat c"
    by (auto simp: checked_sub_def unat_sub word_le_nat_alt split: if_splits)
next
  assume h: "unat a = unat b + unat c"
  then have "a = b + c"
    by (metis unat_add_small unat_lt2p word_unat_eq_iff)
  with h show "checked_sub a b = Some c" by (simp add: checked_sub_def)
qed

lemma checked_mul_Some [arith_iff]:
  "checked_mul a b = Some c \<longleftrightarrow> unat c = unat a * unat b"
  for a b c :: "'a::len word"
proof
  assume "checked_mul a b = Some c"
  then show "unat c = unat a * unat b"
    by (auto simp: checked_mul_def unat_mul_small split: if_splits)
next
  assume h: "unat c = unat a * unat b"
  then have "unat a * unat b < 2 ^ LENGTH('a)"
    using unat_lt2p [of c] by simp
  moreover from this h have "c = a * b"
    by (metis unat_mul_small word_unat_eq_iff)
  ultimately show "checked_mul a b = Some c" by (simp add: checked_mul_def)
qed

lemma checked_div_Some [arith_iff]:
  "checked_div a b = Some c \<longleftrightarrow> b \<noteq> 0 \<and> unat c = unat a div unat b"
  for a b c :: "'a::len word"
  by (auto simp: checked_div_def unat_div word_unat_eq_iff)

lemma unat_saturating_sub: "unat (saturating_sub a b) = unat a - unat b"
  by (auto simp: saturating_sub_def unat_sub word_le_nat_alt)

lemma unat_saturating_add_le: "unat (saturating_add a b) \<le> unat a + unat b"
  for a b :: "'a::len word"
  by (auto simp: saturating_add_def unat_add_small unat_max_word)

lemma unat_saturating_add_mono: "unat a \<le> unat (saturating_add a b)"
  for a b :: "'a::len word"
proof -
  have "unat a \<le> 2 ^ LENGTH('a) - 1" using unat_lt2p [of a] by linarith
  then show ?thesis
    by (auto simp: saturating_add_def unat_add_small unat_max_word)
qed

lemma unat_saturating_mul_small:
  "unat a * unat b < 2 ^ LENGTH('a) \<Longrightarrow> unat (saturating_mul a b) = unat a * unat b"
  for a b :: "'a::len word"
  by (simp add: saturating_mul_def unat_mul_small)

lemma sint_word_of_int_in_range:
  "in_signed_range LENGTH('a) i \<Longrightarrow> sint (word_of_int i :: 'a::len word) = i"
  by (simp add: in_signed_range_def sint_sbintrunc' signed_take_bit_int_eq_self)

lemma checked_signed_Some:
  "checked_signed i = Some (c :: 'a::len word) \<longleftrightarrow> in_signed_range LENGTH('a) i \<and> c = word_of_int i"
  by (auto simp: checked_signed_def)

lemma checked_signed_SomeD:
  "checked_signed i = Some (c :: 'a::len word) \<Longrightarrow> sint c = i"
  by (auto simp: checked_signed_Some sint_word_of_int_in_range)

lemma unat_ucast_up: "LENGTH('a) \<le> LENGTH('b) \<Longrightarrow> unat (ucast w :: 'b::len word) = unat w"
  for w :: "'a::len word"
proof -
  assume h: "LENGTH('a) \<le> LENGTH('b)"
  have "unat w < 2 ^ LENGTH('a)" by (rule unat_lt2p)
  also have "(2::nat) ^ LENGTH('a) \<le> 2 ^ LENGTH('b)" using h by simp
  finally show ?thesis by (simp add: unsigned_ucast_eq take_bit_nat_eq_self)
qed

lemma sint_eq_unat_small: "unat w < 2 ^ (LENGTH('a) - 1) \<Longrightarrow> sint w = int (unat w)"
  for w :: "'a::len word"
proof -
  assume "unat w < 2 ^ (LENGTH('a) - 1)"
  then have "uint w < 2 ^ (LENGTH('a) - 1)"
    by (metis of_nat_less_iff of_nat_numeral of_nat_power uint_nat)
  then have "sint (word_of_int (uint w) :: 'a word) = uint w"
    by (intro sint_word_of_int_in_range)
      (auto simp: in_signed_range_def intro: order_trans [of _ 0])
  then show ?thesis unfolding uint_nat [symmetric] by (simp add: word_of_int_uint)
qed

lemma word_of_sint: "word_of_int (sint w) = (w :: 'a::len word)"
  by (metis scast_eq scast_id)

lemma checked_signed_iff:
  "checked_signed i = Some (c :: 'a::len word) \<longleftrightarrow> in_signed_range LENGTH('a) i \<and> sint c = i"
  by (metis checked_signed_Some sint_word_of_int_in_range word_of_sint)

section \<open>Results and the state-and-error monad\<close>

text \<open>
  \<open>'e + 'a\<close> is a Rust result: \<^const>\<open>Inl\<close> an error, \<^const>\<open>Inr\<close> a value. A function that takes
  a mutable reference is a computation of type \<open>('s, 'e, 'a) sm\<close>: it returns its result
  \<^emph>\<open>and\<close> the state, also when it fails, because a Rust function that returns an error leaves
  the writes it has already made. The runtime discards them only when the whole
  instruction fails.
\<close>

type_synonym ('s, 'e, 'a) sm = "'s \<Rightarrow> ('e + 'a) \<times> 's"

definition ret :: "'a \<Rightarrow> ('s, 'e, 'a) sm" where
  "ret a = (\<lambda>s. (Inr a, s))"

definition fail_with :: "'e \<Rightarrow> ('s, 'e, 'a) sm" where
  "fail_with e = (\<lambda>s. (Inl e, s))"

definition bnd :: "('s, 'e, 'a) sm \<Rightarrow> ('a \<Rightarrow> ('s, 'e, 'b) sm) \<Rightarrow> ('s, 'e, 'b) sm" where
  "bnd m f = (\<lambda>s. case m s of (Inl e, s') \<Rightarrow> (Inl e, s') | (Inr a, s') \<Rightarrow> f a s')"

definition seq :: "('s, 'e, 'a) sm \<Rightarrow> ('s, 'e, 'b) sm \<Rightarrow> ('s, 'e, 'b) sm" where
  "seq m k = bnd m (\<lambda>_. k)"

definition lift :: "'e + 'a \<Rightarrow> ('s, 'e, 'a) sm" where
  "lift r = (\<lambda>s. (r, s))"

definition gets :: "('s \<Rightarrow> 'a) \<Rightarrow> ('s, 'e, 'a) sm" where
  "gets f = (\<lambda>s. (Inr (f s), s))"

definition asks :: "('s \<Rightarrow> 'e + 'a) \<Rightarrow> ('s, 'e, 'a) sm" where
  \<comment> \<open>a fallible read of the state\<close>
  "asks f = (\<lambda>s. (f s, s))"

definition modify :: "('s \<Rightarrow> 's) \<Rightarrow> ('s, 'e, unit) sm" where
  "modify f = (\<lambda>s. (Inr (), f s))"

definition require :: "bool \<Rightarrow> 'e \<Rightarrow> ('s, 'e, unit) sm" where
  "require c e = (if c then ret () else fail_with e)"

definition ok_or :: "'a option \<Rightarrow> 'e \<Rightarrow> 'e + 'a" where
  "ok_or x e = (case x of None \<Rightarrow> Inl e | Some a \<Rightarrow> Inr a)"

definition when_do :: "bool \<Rightarrow> ('s, 'e, unit) sm \<Rightarrow> ('s, 'e, unit) sm" where
  "when_do c m = (if c then m else ret ())"

definition try_res :: "'e + 'a \<Rightarrow> ('a \<Rightarrow> 'e + 'b) \<Rightarrow> 'e + 'b" where
  \<comment> \<open>the question-mark operator on plain results\<close>
  "try_res r f = (case r of Inl e \<Rightarrow> Inl e | Inr a \<Rightarrow> f a)"

text \<open>A computation on a part of the state, in place: the part is written back on success and on failure.\<close>

definition zoom :: "('s \<Rightarrow> 'e + 'r) \<Rightarrow> ('r \<Rightarrow> 's \<Rightarrow> 's) \<Rightarrow> ('r, 'e, 'a) sm \<Rightarrow> ('s, 'e, 'a) sm" where
  "zoom rd wr m = (\<lambda>s. case rd s of Inl e \<Rightarrow> (Inl e, s)
     | Inr r \<Rightarrow> (case m r of (res, r') \<Rightarrow> (res, wr r' s)))"

primrec for_each :: "'a list \<Rightarrow> ('a \<Rightarrow> ('s, 'e, unit) sm) \<Rightarrow> ('s, 'e, unit) sm" where
  "for_each [] f = ret ()"
| "for_each (x # xs) f = seq (f x) (for_each xs f)"

subsection \<open>When a computation succeeds\<close>

lemma ret_ok [ok_iff]: "ret a s = (Inr b, s') \<longleftrightarrow> b = a \<and> s' = s"
  by (auto simp: ret_def)

lemma fail_with_ok [ok_iff]: "fail_with e s = (Inr b, s') \<longleftrightarrow> False"
  by (simp add: fail_with_def)

lemma bnd_ok [ok_iff]:
  "bnd m f s = (Inr b, s') \<longleftrightarrow> (\<exists>a t. m s = (Inr a, t) \<and> f a t = (Inr b, s'))"
  by (auto simp: bnd_def split: prod.splits sum.splits)

lemma seq_ok [ok_iff]:
  "seq m k s = (Inr b, s') \<longleftrightarrow> (\<exists>a t. m s = (Inr a, t) \<and> k t = (Inr b, s'))"
  by (auto simp: seq_def bnd_ok)

lemma lift_ok [ok_iff]: "lift r s = (Inr a, s') \<longleftrightarrow> r = Inr a \<and> s' = s"
  by (auto simp: lift_def)

lemma gets_ok [ok_iff]: "gets f s = (Inr a, s') \<longleftrightarrow> a = f s \<and> s' = s"
  by (auto simp: gets_def)

lemma asks_ok [ok_iff]: "asks f s = (Inr a, s') \<longleftrightarrow> f s = Inr a \<and> s' = s"
  by (auto simp: asks_def)

lemma modify_ok [ok_iff]: "modify f s = (Inr a, s') \<longleftrightarrow> s' = f s"
  by (auto simp: modify_def)

lemma require_ok [ok_iff]: "require c e s = (Inr a, s') \<longleftrightarrow> c \<and> s' = s"
  by (auto simp: require_def ret_def fail_with_def)

lemma ok_or_ok [ok_iff]: "ok_or x e = Inr a \<longleftrightarrow> x = Some a"
  by (auto simp: ok_or_def split: option.splits)

lemma when_do_ok [ok_iff]:
  "when_do c m s = (Inr a, s') \<longleftrightarrow> (if c then m s = (Inr a, s') else s' = s)"
  by (auto simp: when_do_def ret_def)

lemma try_res_ok [ok_iff]: "try_res r f = Inr b \<longleftrightarrow> (\<exists>a. r = Inr a \<and> f a = Inr b)"
  by (auto simp: try_res_def split: sum.splits)

lemma zoom_ok [ok_iff]:
  "zoom rd wr m s = (Inr a, s') \<longleftrightarrow> (\<exists>r r'. rd s = Inr r \<and> m r = (Inr a, r') \<and> s' = wr r' s)"
  by (auto simp: zoom_def split: sum.splits prod.splits)

lemma for_each_Nil_ok [ok_iff]: "for_each [] f s = (Inr a, s') \<longleftrightarrow> s' = s"
  by (auto simp: ret_def)

text \<open>Evaluation of a computation, for the error branches and for concrete runs.\<close>

lemma bnd_run: "m s = (Inr a, t) \<Longrightarrow> bnd m f s = f a t"
  by (simp add: bnd_def)

lemma bnd_err: "m s = (Inl e, t) \<Longrightarrow> bnd m f s = (Inl e, t)"
  by (simp add: bnd_def)

lemma seq_run: "m s = (Inr a, t) \<Longrightarrow> seq m k s = k t"
  by (simp add: seq_def bnd_def)

lemma seq_err: "m s = (Inl e, t) \<Longrightarrow> seq m k s = (Inl e, t)"
  by (simp add: seq_def bnd_def)

lemma bnd_assoc: "bnd (bnd m f) g = bnd m (\<lambda>a. bnd (f a) g)"
  by (auto simp: bnd_def fun_eq_iff split: prod.splits sum.splits)

lemmas run_defs = ret_def fail_with_def bnd_def seq_def lift_def gets_def asks_def modify_def
  require_def ok_or_def when_do_def try_res_def zoom_def

subsection \<open>Computations that only read\<close>

definition reads_only :: "('s, 'e, 'a) sm \<Rightarrow> bool" where
  "reads_only m \<longleftrightarrow> (\<forall>s. snd (m s) = s)"

lemma reads_only_ok: "reads_only m \<Longrightarrow> m s = (r, s') \<Longrightarrow> s' = s"
  unfolding reads_only_def by (metis snd_conv)

lemma reads_only_intros [intro]:
  "reads_only (ret a)" "reads_only (fail_with e)" "reads_only (lift r)"
  "reads_only (gets f)" "reads_only (asks r')" "reads_only (require c e)"
  by (auto simp: reads_only_def run_defs)

lemma reads_only_bnd [intro]:
  "reads_only m \<Longrightarrow> (\<And>a. reads_only (f a)) \<Longrightarrow> reads_only (bnd m f)"
  unfolding reads_only_def bnd_def
  by (auto split: prod.splits sum.splits) (metis snd_conv)+

lemma reads_only_seq [intro]: "reads_only m \<Longrightarrow> reads_only k \<Longrightarrow> reads_only (seq m k)"
  unfolding seq_def by (rule reads_only_bnd)

section \<open>Public keys\<close>

text \<open>
  A public key is its 32 bytes; the program compares keys with the derived order of the
  byte array, which is the lexicographic one.
\<close>

datatype pubkey = Pubkey (key_bytes: "u8 list")

instantiation pubkey :: linorder
begin

definition less_eq_pubkey :: "pubkey \<Rightarrow> pubkey \<Rightarrow> bool" where
  "less_eq_pubkey a b \<longleftrightarrow> key_bytes a \<le> key_bytes b"

definition less_pubkey :: "pubkey \<Rightarrow> pubkey \<Rightarrow> bool" where
  "less_pubkey a b \<longleftrightarrow> key_bytes a < key_bytes b"

instance
  by standard (auto simp: less_eq_pubkey_def less_pubkey_def intro: pubkey.expand)

end

definition default_pubkey :: pubkey where
  "default_pubkey = Pubkey (replicate 32 0)"

section \<open>Little-endian integers\<close>

text \<open>\<open>from_le_bytes\<close> and \<open>to_le_bytes\<close> of the unsigned types; the first byte is the least significant.\<close>

primrec le_nat :: "u8 list \<Rightarrow> nat" where
  "le_nat [] = 0"
| "le_nat (b # bs) = unat b + 256 * le_nat bs"

primrec nat_le :: "nat \<Rightarrow> nat \<Rightarrow> u8 list" where
  "nat_le 0 n = []"
| "nat_le (Suc k) n = word_of_nat (n mod 256) # nat_le k (n div 256)"

definition from_le_bytes :: "u8 list \<Rightarrow> 'a::len word" where
  "from_le_bytes bs = word_of_nat (le_nat bs)"

definition to_le_bytes :: "'a::len word \<Rightarrow> u8 list" where
  "to_le_bytes w = nat_le (LENGTH('a) div 8) (unat w)"

lemma length_nat_le [simp]: "length (nat_le k n) = k"
  by (induction k arbitrary: n) auto

lemma le_nat_nat_le: "le_nat (nat_le k n) = n mod 256 ^ k"
proof (induction k arbitrary: n)
  case 0
  then show ?case by simp
next
  case (Suc k)
  have "n mod 256 + 256 * (n div 256 mod 256 ^ k) = n mod (256 * 256 ^ k)"
    by (simp add: mod_mult2_eq)
  with Suc show ?case by (simp add: unat_of_nat)
qed

lemma le_nat_bound: "le_nat bs < 256 ^ length bs"
proof (induction bs)
  case Nil
  then show ?case by simp
next
  case (Cons b bs)
  have "unat b < 256" using unat_lt2p [of b] by simp
  with Cons show ?case by simp
qed

lemma nat_le_le_nat: "nat_le (length bs) (le_nat bs) = bs"
proof (induction bs)
  case Nil
  then show ?case by simp
next
  case (Cons b bs)
  have "unat b < 256" using unat_lt2p [of b] by simp
  with Cons show ?case by simp
qed

lemma from_le_to_le:
  "LENGTH('a) = 8 * (LENGTH('a) div 8) \<Longrightarrow> from_le_bytes (to_le_bytes w) = (w :: 'a::len word)"
proof -
  assume h: "LENGTH('a) = 8 * (LENGTH('a) div 8)"
  have "(256::nat) ^ (LENGTH('a) div 8) = 2 ^ LENGTH('a)"
    by (subst (2) h) (simp add: power_mult)
  moreover have "unat w < 2 ^ LENGTH('a)" by (rule unat_lt2p)
  ultimately show ?thesis
    by (simp add: from_le_bytes_def to_le_bytes_def le_nat_nat_le)
qed

end
