(* ===== verification/Errors.thy ===== *)
theory Errors
  imports Prelude
begin

text \<open>
  The error values of the program (\<open>src/error.rs\<close>). \<open>error_code\<close> is the numeric value a
  client sees: the code returns \<open>ProgramError::Custom\<close> of it, and since the numbers are pairwise
  different (\<open>error_code_inj\<close>) the model keeps the constructor. The other constructors of
  \<open>program_error\<close> are the runtime errors the program returns itself, a failed call into another
  program, an arithmetic or indexing panic (the crate is built with overflow checks), and an
  exhausted compute budget. The last two abort the whole transaction and cannot be caught.
\<close>

datatype (plugins only: code size) polyleverage_error =
    InvalidProgramConfig
  | InvalidAdminSigner
  | InvalidPda
  | InvalidAccountOwner
  | AlreadyInitialized
  | NotInitialized
  | MissingSigner
  | InvalidMint
  | InvalidVault
  | InvalidTokenAccountOwner
  | AccountDataTooSmall
  | InsufficientFreeCollateral
  | InsufficientReservedCollateral
  | InsufficientLockedCollateral
  | InstrumentPaused
  | GlobalPaused
  | InvalidLeverageBucket
  | InvalidCollateralBucket
  | InvalidPriceRange
  | PriceNotTickAligned
  | IntentExpired
  | IntentNotFound
  | IntentBookFull
  | InvalidContractCount
  | NotOppositeSides
  | InstrumentMismatch
  | NoRangeOverlap
  | ArithmeticOverflow
  | ArithmeticUnderflow
  | DivisionByZero
  | PmlcNotLive
  | NotLiquidatable
  | InvalidPmlcSide
  | MissingEd25519Verify
  | Ed25519PubkeyMismatch
  | Ed25519MessageMismatch
  | AttestationBadMagic
  | AttestationWrongType
  | AttestationWrongMarket
  | AttestationStale
  | AttestationNonceReplayed
  | AttestationWrongPmlc
  | FeeScheduleNotInitialized
  | FeeIncreaseBlocked
  | FeeAccountsRequired
  | TimelockNotExecutable
  | TimelockPayloadMismatch
  | InsufficientMultisigApprovals
  | InvalidMultisigConfig
  | BucketNotInRegistry
  | StablecoinNotAccepted
  | StablecoinDecimalsMismatch
  | InsufficientStablecoinReserve
  | SessionNotActive
  | SessionDelegateMismatch
  | SessionOwnerMismatch
  | SessionInstrumentNotAllowed
  | SessionPerIntentCapExceeded
  | SessionCumulativeCapExceeded
  | UnsupportedInstruction
  | InvalidInstructionData

datatype program_error =
    Custom polyleverage_error
  | InvalidAccountData
  | NotEnoughAccountKeys
  | AccountBorrowFailed
  | CpiFailed nat
  | Panicked
  | ComputeBudgetExceeded

primrec error_code :: "polyleverage_error \<Rightarrow> u32" where
  "error_code InvalidProgramConfig = 0"
| "error_code InvalidAdminSigner = 1"
| "error_code InvalidPda = 2"
| "error_code InvalidAccountOwner = 3"
| "error_code AlreadyInitialized = 4"
| "error_code NotInitialized = 5"
| "error_code MissingSigner = 6"
| "error_code InvalidMint = 7"
| "error_code InvalidVault = 8"
| "error_code InvalidTokenAccountOwner = 9"
| "error_code AccountDataTooSmall = 10"
| "error_code InsufficientFreeCollateral = 100"
| "error_code InsufficientReservedCollateral = 101"
| "error_code InsufficientLockedCollateral = 102"
| "error_code InstrumentPaused = 103"
| "error_code GlobalPaused = 104"
| "error_code InvalidLeverageBucket = 105"
| "error_code InvalidCollateralBucket = 106"
| "error_code InvalidPriceRange = 107"
| "error_code PriceNotTickAligned = 108"
| "error_code IntentExpired = 109"
| "error_code IntentNotFound = 110"
| "error_code IntentBookFull = 111"
| "error_code InvalidContractCount = 112"
| "error_code NotOppositeSides = 200"
| "error_code InstrumentMismatch = 201"
| "error_code NoRangeOverlap = 202"
| "error_code ArithmeticOverflow = 203"
| "error_code ArithmeticUnderflow = 204"
| "error_code DivisionByZero = 205"
| "error_code PmlcNotLive = 300"
| "error_code NotLiquidatable = 301"
| "error_code InvalidPmlcSide = 302"
| "error_code MissingEd25519Verify = 400"
| "error_code Ed25519PubkeyMismatch = 401"
| "error_code Ed25519MessageMismatch = 402"
| "error_code AttestationBadMagic = 403"
| "error_code AttestationWrongType = 404"
| "error_code AttestationWrongMarket = 405"
| "error_code AttestationStale = 406"
| "error_code AttestationNonceReplayed = 407"
| "error_code AttestationWrongPmlc = 408"
| "error_code FeeScheduleNotInitialized = 500"
| "error_code FeeIncreaseBlocked = 501"
| "error_code FeeAccountsRequired = 502"
| "error_code TimelockNotExecutable = 600"
| "error_code TimelockPayloadMismatch = 601"
| "error_code InsufficientMultisigApprovals = 700"
| "error_code InvalidMultisigConfig = 701"
| "error_code BucketNotInRegistry = 710"
| "error_code StablecoinNotAccepted = 720"
| "error_code StablecoinDecimalsMismatch = 721"
| "error_code InsufficientStablecoinReserve = 722"
| "error_code SessionNotActive = 800"
| "error_code SessionDelegateMismatch = 801"
| "error_code SessionOwnerMismatch = 802"
| "error_code SessionInstrumentNotAllowed = 803"
| "error_code SessionPerIntentCapExceeded = 804"
| "error_code SessionCumulativeCapExceeded = 805"
| "error_code UnsupportedInstruction = 900"
| "error_code InvalidInstructionData = 901"

definition all_errors :: "polyleverage_error list" where
  "all_errors = [InvalidProgramConfig, InvalidAdminSigner, InvalidPda, InvalidAccountOwner, AlreadyInitialized, NotInitialized, 
    MissingSigner, InvalidMint, InvalidVault, InvalidTokenAccountOwner, AccountDataTooSmall, InsufficientFreeCollateral, 
    InsufficientReservedCollateral, InsufficientLockedCollateral, InstrumentPaused, GlobalPaused, InvalidLeverageBucket, InvalidCollateralBucket, 
    InvalidPriceRange, PriceNotTickAligned, IntentExpired, IntentNotFound, IntentBookFull, InvalidContractCount, 
    NotOppositeSides, InstrumentMismatch, NoRangeOverlap, ArithmeticOverflow, ArithmeticUnderflow, DivisionByZero, 
    PmlcNotLive, NotLiquidatable, InvalidPmlcSide, MissingEd25519Verify, Ed25519PubkeyMismatch, Ed25519MessageMismatch, 
    AttestationBadMagic, AttestationWrongType, AttestationWrongMarket, AttestationStale, AttestationNonceReplayed, AttestationWrongPmlc, 
    FeeScheduleNotInitialized, FeeIncreaseBlocked, FeeAccountsRequired, TimelockNotExecutable, TimelockPayloadMismatch, InsufficientMultisigApprovals, 
    InvalidMultisigConfig, BucketNotInRegistry, StablecoinNotAccepted, StablecoinDecimalsMismatch, InsufficientStablecoinReserve, SessionNotActive, 
    SessionDelegateMismatch, SessionOwnerMismatch, SessionInstrumentNotAllowed, SessionPerIntentCapExceeded, SessionCumulativeCapExceeded, UnsupportedInstruction, 
    InvalidInstructionData]"

lemma all_errors_complete: "e \<in> set all_errors"
  by (cases e) (simp_all add: all_errors_def)

lemma distinct_error_codes: "distinct (map error_code all_errors)"
  by (simp add: all_errors_def)

lemma error_code_inj_aux: "inj_on error_code (set all_errors)"
  using distinct_error_codes by (simp add: distinct_map)

text \<open>The result type of the program and the two ways it raises its own errors.\<close>

type_synonym 'a result = "program_error + 'a"
type_synonym ('s, 'a) prog = "('s, program_error, 'a) sm"

abbreviation err :: "polyleverage_error \<Rightarrow> 'a result" where
  "err e \<equiv> Inl (Custom e)"

definition ensure :: "bool \<Rightarrow> polyleverage_error \<Rightarrow> ('s, unit) prog" where
  "ensure c e = require c (Custom e)"

definition ok_or_err :: "'a option \<Rightarrow> polyleverage_error \<Rightarrow> 'a result" where
  "ok_or_err x e = ok_or x (Custom e)"

definition check :: "bool \<Rightarrow> polyleverage_error \<Rightarrow> unit result" where
  "check c e = (if c then Inr () else err e)"

text \<open>An unchecked arithmetic operation of the source: it panics where it would overflow.\<close>

definition no_panic :: "'a option \<Rightarrow> 'a result" where
  "no_panic x = ok_or x Panicked"

lemma ensure_ok [ok_iff]: "ensure c e s = (Inr a, s') \<longleftrightarrow> c \<and> s' = s"
  by (simp add: ensure_def require_ok)

lemma ok_or_err_ok [ok_iff]: "ok_or_err x e = Inr a \<longleftrightarrow> x = Some a"
  by (simp add: ok_or_err_def ok_or_ok)

lemma no_panic_ok [ok_iff]: "no_panic x = Inr a \<longleftrightarrow> x = Some a"
  by (simp add: no_panic_def ok_or_ok)

lemma check_ok [ok_iff]: "check c e = Inr u \<longleftrightarrow> c"
  by (simp add: check_def)

lemma reads_only_ensure [intro]: "reads_only (ensure c e)"
  by (auto simp: ensure_def)

lemmas prog_defs = run_defs ensure_def ok_or_err_def no_panic_def check_def

end
