(* ===== verification/Account_Info.thy ===== *)
theory Account_Info
  imports Errors
begin

text \<open>
  What an instruction carries about each account it names, and the checks of
  \<open>src/utils.rs\<close> that read only that. Owner, lamports and data of an account belong to the
  ledger (theory \<open>Runtime\<close>), shared by every occurrence of its key.
\<close>

record account_info =
  ai_key :: pubkey
  is_signer :: bool
  is_writable :: bool

definition assert_signer :: "account_info \<Rightarrow> unit result" where
  "assert_signer account = (if \<not> is_signer account then err MissingSigner else Inr ())"

definition assert_writable :: "account_info \<Rightarrow> unit result" where
  "assert_writable account = (if \<not> is_writable account then Inl InvalidAccountData else Inr ())"

definition assert_key_eq :: "pubkey \<Rightarrow> pubkey \<Rightarrow> polyleverage_error \<Rightarrow> unit result" where
  "assert_key_eq actual expected e = (if actual \<noteq> expected then err e else Inr ())"

lemma assert_signer_ok [ok_iff]: "assert_signer a = Inr u \<longleftrightarrow> is_signer a"
  by (simp add: assert_signer_def)

lemma assert_writable_ok [ok_iff]: "assert_writable a = Inr u \<longleftrightarrow> is_writable a"
  by (simp add: assert_writable_def)

lemma assert_key_eq_ok [ok_iff]: "assert_key_eq a b e = Inr u \<longleftrightarrow> a = b"
  by (simp add: assert_key_eq_def)

end
