(* ===== verification/Balance.thy ===== *)
theory Balance
  imports Errors
begin

text \<open>
  The interface that every checked 64-bit balance of the program offers: a credit that fails
  on overflow, a debit that fails on a shortfall, each changing only its own field. The
  locales \<open>creditable\<close>, \<open>debitable\<close>, \<open>balance\<close> and \<open>balance_pair\<close> state the contract and derive the laws that the
  handlers rely on: conservation of a move, its failure cases, round trips of a credit and a
  debit. They are interpreted on the three buckets of a margin account, on the fee treasury
  and on the stablecoin reserves.
\<close>

text \<open>The shared shape of the code: read a field, compute, fail or write it back.\<close>

definition update_checked ::
  "('s \<Rightarrow> u64) \<Rightarrow> ((u64 \<Rightarrow> u64) \<Rightarrow> 's \<Rightarrow> 's) \<Rightarrow> (u64 \<Rightarrow> u64 option) \<Rightarrow> polyleverage_error \<Rightarrow> ('s, unit) prog" where
  "update_checked rd up f e =
     bnd (gets rd) (\<lambda>v. bnd (lift (ok_or_err (f v) e)) (\<lambda>v'. modify (up (\<lambda>_. v'))))"

lemma update_checked_ok [ok_iff]:
  "update_checked rd up f e s = (Inr u, s') \<longleftrightarrow> (\<exists>v. f (rd s) = Some v \<and> s' = up (\<lambda>_. v) s)"
  by (auto simp: update_checked_def ok_iff)

lemma update_checked_run:
  "update_checked rd up f e s =
     (case f (rd s) of None \<Rightarrow> (Inl (Custom e), s) | Some v \<Rightarrow> (Inr (), up (\<lambda>_. v) s))"
  by (auto simp: update_checked_def prog_defs split: option.splits)

section \<open>A checked balance\<close>

locale balance_field =
  fixes bal :: "'s \<Rightarrow> u64"
    and set_bal :: "u64 \<Rightarrow> 's \<Rightarrow> 's"
  assumes bal_set: "bal (set_bal v s) = v"
    and set_bal_bal: "set_bal (bal s) s = s"
    and set_set: "set_bal v (set_bal w s) = set_bal v s"

locale creditable = balance_field bal set_bal
  for bal :: "'s \<Rightarrow> u64" and set_bal +
  fixes credit :: "u64 \<Rightarrow> ('s, unit) prog"
  assumes credit_run: "credit a s =
      (case checked_add (bal s) a of
         None \<Rightarrow> (Inl (Custom ArithmeticOverflow), s) | Some v \<Rightarrow> (Inr (), set_bal v s))"
begin

lemma credit_ok:
  "credit a s = (Inr u, s') \<longleftrightarrow> (\<exists>v. unat v = unat (bal s) + unat a \<and> s' = set_bal v s)"
  unfolding checked_add_Some [symmetric] by (auto simp: credit_run split: option.splits)

lemma credit_error:
  "credit a s = (Inl x, s') \<longleftrightarrow>
     x = Custom ArithmeticOverflow \<and> s' = s \<and> 2 ^ 64 \<le> unat (bal s) + unat a"
  by (auto simp: credit_run checked_add_def)

lemma credit_succeeds: "unat (bal s) + unat a < 2 ^ 64 \<Longrightarrow> \<exists>t. credit a s = (Inr (), t)"
  by (simp add: credit_run checked_add_def)

end

locale debitable = balance_field bal set_bal
  for bal :: "'s \<Rightarrow> u64" and set_bal +
  fixes debit :: "u64 \<Rightarrow> ('s, unit) prog"
    and short :: polyleverage_error
  assumes debit_run: "debit a s =
      (case checked_sub (bal s) a of
         None \<Rightarrow> (Inl (Custom short), s) | Some v \<Rightarrow> (Inr (), set_bal v s))"
begin

lemma debit_ok:
  "debit a s = (Inr u, s') \<longleftrightarrow> (\<exists>v. unat (bal s) = unat a + unat v \<and> s' = set_bal v s)"
  unfolding checked_sub_Some [symmetric] by (auto simp: debit_run split: option.splits)

lemma debit_error:
  "debit a s = (Inl x, s') \<longleftrightarrow> x = Custom short \<and> s' = s \<and> unat (bal s) < unat a"
  by (auto simp: debit_run checked_sub_def)

lemma debit_succeeds: "unat a \<le> unat (bal s) \<Longrightarrow> \<exists>t. debit a s = (Inr (), t)"
  by (simp add: debit_run checked_sub_def)

end

locale balance = creditable bal set_bal credit + debitable bal set_bal debit short
  for bal :: "'s \<Rightarrow> u64" and set_bal credit debit short
begin

lemma debit_after_credit:
  assumes "credit a s = (Inr u, t)"
  shows "debit a t = (Inr (), s)"
  using assms by (auto simp: credit_ok debit_ok bal_set set_set set_bal_bal intro!: exI [of _ "bal s"])

lemma credit_after_debit:
  assumes "debit a s = (Inr u, t)"
  shows "credit a t = (Inr (), s)"
  using assms by (auto simp: credit_ok debit_ok bal_set set_set set_bal_bal intro!: exI [of _ "bal s"])

end

section \<open>Moving between two balances of one state\<close>

locale balance_pair =
  src: debitable bal1 set1 debit1 short1 + dst: creditable bal2 set2 credit2
  for bal1 :: "'s \<Rightarrow> u64" and set1 debit1 short1 and bal2 :: "'s \<Rightarrow> u64" and set2 credit2 +
  fixes move :: "u64 \<Rightarrow> ('s, unit) prog"
  assumes bal1_set2: "bal1 (set2 v s) = bal1 s"
    and bal2_set1: "bal2 (set1 v s) = bal2 s"
    and move_run: "move a = seq (debit1 a) (credit2 a)"
begin

lemma move_ok:
  "move a s = (Inr u, s') \<longleftrightarrow>
     (\<exists>v w. unat (bal1 s) = unat a + unat v \<and> unat w = unat (bal2 s) + unat a \<and>
            s' = set2 w (set1 v s))"
  unfolding checked_sub_Some [of "bal1 s" a, symmetric] checked_add_Some [of "bal2 s" a, symmetric]
  by (auto simp: move_run seq_def bnd_def src.debit_run dst.credit_run bal2_set1 split: option.splits)

lemma move_conserves:
  assumes "move a s = (Inr u, s')"
  shows "unat (bal1 s') + unat (bal2 s') = unat (bal1 s) + unat (bal2 s)"
  using assms by (auto simp: move_ok bal1_set2 src.bal_set dst.bal_set)

lemma move_error:
  "move a s = (Inl x, s') \<longleftrightarrow>
     (x = Custom short1 \<and> s' = s \<and> unat (bal1 s) < unat a) \<or>
     (x = Custom ArithmeticOverflow \<and> s' = set1 (bal1 s - a) s \<and> unat a \<le> unat (bal1 s) \<and>
      2 ^ 64 \<le> unat (bal2 s) + unat a)"
  by (auto simp: move_run seq_def bnd_def src.debit_run dst.credit_run checked_sub_def
      checked_add_def bal2_set1)

lemma move_succeeds:
  assumes "unat a \<le> unat (bal1 s)" "unat (bal2 s) + unat a < 2 ^ 64"
  shows "\<exists>t. move a s = (Inr (), t)"
  using assms
  by (simp add: move_run seq_def bnd_def src.debit_run dst.credit_run checked_sub_def
      checked_add_def bal2_set1)

end

end
