(* ===== verification/Margin_Account.thy ===== *)
theory Margin_Account
  imports Balance
begin

text \<open>
  The margin account (\<open>src/state/margin_account.rs\<close>): one per user and collateral mint, with
  the free, reserved and locked buckets. The eight helpers are computations over the record;
  the three buckets are instances of the \<open>balance\<close> contract and the four moves of
  \<open>balance_pair\<close>, which gives their exact effect, their failure cases and the conservation of
  \<open>margin_total\<close>.
\<close>

record margin_account =
  ma_bump :: u8
  ma_owner :: pubkey
  ma_mint :: pubkey
  free_collateral :: u64
  reserved_collateral :: u64
  locked_collateral :: u64
  realized_pnl :: i64
  ma_flags :: u64

definition MARGIN_ACCOUNT_LEN :: nat where
  "MARGIN_ACCOUNT_LEN = 1 + 1 + 6 + 32 + 32 + 8 + 8 + 8 + 8 + 8 + 32"

definition new_margin_account :: "pubkey \<Rightarrow> pubkey \<Rightarrow> u8 \<Rightarrow> margin_account" where
  "new_margin_account owner collateral_mint bump =
     \<lparr> ma_bump = bump, ma_owner = owner, ma_mint = collateral_mint,
       free_collateral = 0, reserved_collateral = 0, locked_collateral = 0,
       realized_pnl = 0, ma_flags = 0 \<rparr>"

section \<open>Operations\<close>

definition credit_free :: "u64 \<Rightarrow> (margin_account, unit) prog" where
  "credit_free amount = update_checked free_collateral free_collateral_update
     (\<lambda>v. checked_add v amount) ArithmeticOverflow"

definition debit_free :: "u64 \<Rightarrow> (margin_account, unit) prog" where
  "debit_free amount = update_checked free_collateral free_collateral_update
     (\<lambda>v. checked_sub v amount) InsufficientFreeCollateral"

definition credit_reserved :: "u64 \<Rightarrow> (margin_account, unit) prog" where
  "credit_reserved amount = update_checked reserved_collateral reserved_collateral_update
     (\<lambda>v. checked_add v amount) ArithmeticOverflow"

definition debit_reserved :: "u64 \<Rightarrow> (margin_account, unit) prog" where
  "debit_reserved amount = update_checked reserved_collateral reserved_collateral_update
     (\<lambda>v. checked_sub v amount) InsufficientReservedCollateral"

definition credit_locked :: "u64 \<Rightarrow> (margin_account, unit) prog" where
  "credit_locked amount = update_checked locked_collateral locked_collateral_update
     (\<lambda>v. checked_add v amount) ArithmeticOverflow"

definition debit_locked :: "u64 \<Rightarrow> (margin_account, unit) prog" where
  "debit_locked amount = update_checked locked_collateral locked_collateral_update
     (\<lambda>v. checked_sub v amount) InsufficientLockedCollateral"

definition move_free_to_reserved :: "u64 \<Rightarrow> (margin_account, unit) prog" where
  "move_free_to_reserved amount = seq (debit_free amount) (credit_reserved amount)"

definition move_reserved_to_free :: "u64 \<Rightarrow> (margin_account, unit) prog" where
  "move_reserved_to_free amount = seq (debit_reserved amount) (credit_free amount)"

definition move_reserved_to_locked :: "u64 \<Rightarrow> (margin_account, unit) prog" where
  "move_reserved_to_locked amount = seq (debit_reserved amount) (credit_locked amount)"

definition move_locked_to_free :: "u64 \<Rightarrow> (margin_account, unit) prog" where
  "move_locked_to_free amount = seq (debit_locked amount) (credit_free amount)"

lemmas margin_ops_defs = credit_free_def debit_free_def credit_reserved_def
  debit_reserved_def credit_locked_def debit_locked_def

section \<open>The buckets as balances\<close>

interpretation free: balance free_collateral "\<lambda>v. free_collateral_update (\<lambda>_. v)"
  credit_free debit_free InsufficientFreeCollateral
  by unfold_locales (simp_all add: margin_ops_defs update_checked_run)

interpretation reserved: balance reserved_collateral "\<lambda>v. reserved_collateral_update (\<lambda>_. v)"
  credit_reserved debit_reserved InsufficientReservedCollateral
  by unfold_locales (simp_all add: margin_ops_defs update_checked_run)

interpretation locked: balance locked_collateral "\<lambda>v. locked_collateral_update (\<lambda>_. v)"
  credit_locked debit_locked InsufficientLockedCollateral
  by unfold_locales (simp_all add: margin_ops_defs update_checked_run)

interpretation free_reserved: balance_pair free_collateral "\<lambda>v. free_collateral_update (\<lambda>_. v)"
  debit_free InsufficientFreeCollateral reserved_collateral "\<lambda>v. reserved_collateral_update (\<lambda>_. v)"
  credit_reserved move_free_to_reserved
  by unfold_locales (simp_all add: move_free_to_reserved_def)

interpretation reserved_free: balance_pair reserved_collateral "\<lambda>v. reserved_collateral_update (\<lambda>_. v)"
  debit_reserved InsufficientReservedCollateral free_collateral "\<lambda>v. free_collateral_update (\<lambda>_. v)"
  credit_free move_reserved_to_free
  by unfold_locales (simp_all add: move_reserved_to_free_def)

interpretation reserved_locked: balance_pair reserved_collateral "\<lambda>v. reserved_collateral_update (\<lambda>_. v)"
  debit_reserved InsufficientReservedCollateral locked_collateral "\<lambda>v. locked_collateral_update (\<lambda>_. v)"
  credit_locked move_reserved_to_locked
  by unfold_locales (simp_all add: move_reserved_to_locked_def)

interpretation locked_free: balance_pair locked_collateral "\<lambda>v. locked_collateral_update (\<lambda>_. v)"
  debit_locked InsufficientLockedCollateral free_collateral "\<lambda>v. free_collateral_update (\<lambda>_. v)"
  credit_free move_locked_to_free
  by unfold_locales (simp_all add: move_locked_to_free_def)

section \<open>What each operation does to the account\<close>

definition margin_total :: "margin_account \<Rightarrow> nat" where
  "margin_total m = unat (free_collateral m) + unat (reserved_collateral m) + unat (locked_collateral m)"

definition same_holder :: "margin_account \<Rightarrow> margin_account \<Rightarrow> bool" where
  "same_holder m m' \<longleftrightarrow> ma_bump m' = ma_bump m \<and> ma_owner m' = ma_owner m \<and> ma_mint m' = ma_mint m \<and>
     realized_pnl m' = realized_pnl m \<and> ma_flags m' = ma_flags m"

lemma credit_free_ok [ok_iff]:
  "credit_free a m = (Inr u, m') \<longleftrightarrow>
     (\<exists>v. unat v = unat (free_collateral m) + unat a \<and> m' = m \<lparr> free_collateral := v \<rparr>)"
  by (rule free.credit_ok)

lemma debit_free_ok [ok_iff]:
  "debit_free a m = (Inr u, m') \<longleftrightarrow>
     (\<exists>v. unat (free_collateral m) = unat a + unat v \<and> m' = m \<lparr> free_collateral := v \<rparr>)"
  by (rule free.debit_ok)

lemma credit_reserved_ok [ok_iff]:
  "credit_reserved a m = (Inr u, m') \<longleftrightarrow>
     (\<exists>v. unat v = unat (reserved_collateral m) + unat a \<and> m' = m \<lparr> reserved_collateral := v \<rparr>)"
  by (rule reserved.credit_ok)

lemma debit_reserved_ok [ok_iff]:
  "debit_reserved a m = (Inr u, m') \<longleftrightarrow>
     (\<exists>v. unat (reserved_collateral m) = unat a + unat v \<and> m' = m \<lparr> reserved_collateral := v \<rparr>)"
  by (rule reserved.debit_ok)

lemma credit_locked_ok [ok_iff]:
  "credit_locked a m = (Inr u, m') \<longleftrightarrow>
     (\<exists>v. unat v = unat (locked_collateral m) + unat a \<and> m' = m \<lparr> locked_collateral := v \<rparr>)"
  by (rule locked.credit_ok)

lemma debit_locked_ok [ok_iff]:
  "debit_locked a m = (Inr u, m') \<longleftrightarrow>
     (\<exists>v. unat (locked_collateral m) = unat a + unat v \<and> m' = m \<lparr> locked_collateral := v \<rparr>)"
  by (rule locked.debit_ok)

lemmas move_oks [ok_iff] = free_reserved.move_ok reserved_free.move_ok
  reserved_locked.move_ok locked_free.move_ok

text \<open>Every move keeps the total and the holder of the account.\<close>

definition moves_collateral :: "(u64 \<Rightarrow> (margin_account, unit) prog) \<Rightarrow> bool" where
  "moves_collateral mv \<longleftrightarrow>
     (\<forall>a m u m'. mv a m = (Inr u, m') \<longrightarrow> margin_total m' = margin_total m \<and> same_holder m m')"

lemma moves_collateral_all:
  "moves_collateral move_free_to_reserved" "moves_collateral move_reserved_to_free"
  "moves_collateral move_reserved_to_locked" "moves_collateral move_locked_to_free"
  by (auto simp: moves_collateral_def move_oks margin_total_def same_holder_def)

end
