(* ===== verification/Fee_Schedule.thy ===== *)
theory Fee_Schedule
  imports Errors
begin

text \<open>
  The volume-tiered taker fee table (\<open>src/state/fee_schedule.rs\<close>): the tier record, the
  lookup loop of \<open>fee_for_volume\<close>, the cached maximum and the validation of a new table. The
  lemmas show that validation accepts exactly the sorted tables with fees of at most ten per
  cent, that on a sorted table the lookup returns the fee of the largest threshold not above
  the volume, and that the cached maximum bounds every lookup.
\<close>

record fee_tier =
  volume_threshold :: u64
  tier_fee_bps :: u16

record fee_schedule =
  fs_bump :: u8
  tiers :: "fee_tier list"
  max_tier_fee_bps :: u16
  last_updated_slot :: u64

definition FEE_SCHEDULE_MAX_TIERS :: nat where
  "FEE_SCHEDULE_MAX_TIERS = 8"

definition FEE_TIER_LEN :: nat where
  "FEE_TIER_LEN = 8 + 2 + 6"

definition FEE_SCHEDULE_LEN :: nat where
  "FEE_SCHEDULE_LEN = 1 + 1 + 6 + FEE_SCHEDULE_MAX_TIERS * FEE_TIER_LEN + 2 + 6 + 8 + 32"

section \<open>The code\<close>

primrec max_fee_loop :: "u16 \<Rightarrow> fee_tier list \<Rightarrow> u16" where
  "max_fee_loop mx [] = mx"
| "max_fee_loop mx (t # ts) =
     max_fee_loop (if tier_fee_bps t > mx then tier_fee_bps t else mx) ts"

definition compute_max_fee_bps :: "fee_tier list \<Rightarrow> u16" where
  "compute_max_fee_bps ts = max_fee_loop 0 ts"

definition new_fee_schedule :: "fee_tier list \<Rightarrow> u64 \<Rightarrow> u8 \<Rightarrow> fee_schedule" where
  "new_fee_schedule ts now_slot bump =
     \<lparr> fs_bump = bump, tiers = ts, max_tier_fee_bps = compute_max_fee_bps ts,
       last_updated_slot = now_slot \<rparr>"

primrec fee_loop :: "u64 \<Rightarrow> u16 \<Rightarrow> fee_tier list \<Rightarrow> u16" where
  "fee_loop volume_30d found [] = found"
| "fee_loop volume_30d found (t # ts) =
     fee_loop volume_30d (if volume_30d \<ge> volume_threshold t then tier_fee_bps t else found) ts"

definition fee_for_volume :: "fee_schedule \<Rightarrow> u64 \<Rightarrow> u16" where
  "fee_for_volume s volume_30d = fee_loop volume_30d (tier_fee_bps (tiers s ! 0)) (tiers s)"

primrec validate_loop :: "u64 \<Rightarrow> fee_tier list \<Rightarrow> unit result" where
  "validate_loop prev [] = Inr ()"
| "validate_loop prev (t # ts) =
     (if volume_threshold t < prev then err InvalidInstructionData
      else if tier_fee_bps t > 1000 then err InvalidInstructionData
      else validate_loop (volume_threshold t) ts)"

definition validate_tiers :: "fee_tier list \<Rightarrow> unit result" where
  "validate_tiers ts = validate_loop 0 ts"

section \<open>Validation\<close>

lemma validate_loop_ok:
  "validate_loop p ts = Inr u \<longleftrightarrow>
     sorted (p # map volume_threshold ts) \<and> (\<forall>t\<in>set ts. tier_fee_bps t \<le> 1000)"
  by (induction ts arbitrary: p) (auto simp: not_less intro: order_trans)

lemma validate_loop_error: "validate_loop p ts = Inl x \<Longrightarrow> x = Custom InvalidInstructionData"
  by (induction ts arbitrary: p) (auto split: if_splits)

lemma validate_tiers_ok [ok_iff]:
  "validate_tiers ts = Inr u \<longleftrightarrow>
     sorted (map volume_threshold ts) \<and> (\<forall>t\<in>set ts. tier_fee_bps t \<le> 1000)"
  by (simp add: validate_tiers_def validate_loop_ok)

section \<open>Lookup\<close>

lemma fee_loop_spec:
  "fee_loop v d ts =
     (let ok = filter (\<lambda>t. volume_threshold t \<le> v) ts
      in if ok = [] then d else tier_fee_bps (last ok))"
  by (induction ts arbitrary: d) (auto simp: Let_def)

lemma fee_loop_in: "fee_loop v d ts = d \<or> fee_loop v d ts \<in> tier_fee_bps ` set ts"
  by (induction ts arbitrary: d) auto

lemma last_filter_threshold:
  assumes "sorted (map volume_threshold ts)" "t \<in> set ts" "P t"
  shows "volume_threshold t \<le> volume_threshold (last (filter P ts))"
  using assms
proof (induction ts rule: rev_induct)
  case Nil
  then show ?case by simp
next
  case (snoc x xs)
  then show ?case by (auto simp: sorted_append)
qed

lemma fee_for_volume_largest:
  assumes s: "sorted (map volume_threshold (tiers s))"
    and t: "t \<in> set (tiers s)" "volume_threshold t \<le> v"
  shows "\<exists>t'\<in>set (tiers s). fee_for_volume s v = tier_fee_bps t' \<and> volume_threshold t' \<le> v \<and>
    (\<forall>t''\<in>set (tiers s). volume_threshold t'' \<le> v \<longrightarrow> volume_threshold t'' \<le> volume_threshold t')"
proof -
  let ?ok = "filter (\<lambda>t. volume_threshold t \<le> v) (tiers s)"
  have ne: "?ok \<noteq> []" using t by (auto simp: filter_empty_conv)
  then have "last ?ok \<in> set ?ok" by (rule last_in_set)
  moreover from ne have "fee_for_volume s v = tier_fee_bps (last ?ok)"
    by (simp add: fee_for_volume_def fee_loop_spec Let_def)
  ultimately show ?thesis
    using last_filter_threshold [OF s, where P = "\<lambda>t. volume_threshold t \<le> v"]
    by (intro bexI [of _ "last ?ok"]) auto
qed

lemma max_fee_loop_ge: "mx \<le> max_fee_loop mx ts" "t \<in> set ts \<Longrightarrow> tier_fee_bps t \<le> max_fee_loop mx ts"
proof (induction ts arbitrary: mx)
  case Nil
  { case 1 show ?case by simp next case 2 then show ?case by simp }
next
  case (Cons x xs)
  { case 1
    show ?case using Cons.IH(1) [of "if tier_fee_bps x > mx then tier_fee_bps x else mx"]
      by (auto split: if_splits)
  next
    case 2
    then show ?case using Cons.IH [of "if tier_fee_bps x > mx then tier_fee_bps x else mx"]
      by (auto split: if_splits) }
qed

lemma max_fee_loop_in: "max_fee_loop mx ts \<in> insert mx (tier_fee_bps ` set ts)"
  by (induction ts arbitrary: mx) force+

text \<open>A table as the handlers leave it: non-empty, validated, with its maximum cached.\<close>

definition fee_schedule_wf :: "fee_schedule \<Rightarrow> bool" where
  "fee_schedule_wf s \<longleftrightarrow> tiers s \<noteq> [] \<and> validate_tiers (tiers s) = Inr () \<and>
     max_tier_fee_bps s = compute_max_fee_bps (tiers s)"

lemma fee_for_volume_in: "tiers s \<noteq> [] \<Longrightarrow> fee_for_volume s v \<in> tier_fee_bps ` set (tiers s)"
  using fee_loop_in [of v "tier_fee_bps (tiers s ! 0)" "tiers s"]
  by (auto simp: fee_for_volume_def)

lemma fee_for_volume_le_max:
  assumes "fee_schedule_wf s"
  shows "fee_for_volume s v \<le> max_tier_fee_bps s" "max_tier_fee_bps s \<le> 1000"
proof -
  show "fee_for_volume s v \<le> max_tier_fee_bps s"
    using assms fee_for_volume_in [of s v]
    by (auto simp: fee_schedule_wf_def compute_max_fee_bps_def intro: max_fee_loop_ge)
  show "max_tier_fee_bps s \<le> 1000"
    using assms max_fee_loop_in [of 0 "tiers s"]
    by (auto simp: fee_schedule_wf_def compute_max_fee_bps_def validate_tiers_ok)
qed

end
