(* ===== verification/Fee_Treasury.thy ===== *)
theory Fee_Treasury
  imports Balance
begin

text \<open>
  The fee accrual ledger of a collateral mint (\<open>src/state/fee_treasury.rs\<close>). \<open>accrued_atoms\<close>
  is a checked balance; sweeping moves atoms from it into the running total of swept atoms, so
  the sum of the two is the amount ever accrued.
\<close>

record fee_treasury =
  ft_bump :: u8
  ft_mint :: pubkey
  accrued_atoms :: u64
  total_swept_atoms :: u64

definition FEE_TREASURY_LEN :: nat where
  "FEE_TREASURY_LEN = 1 + 1 + 6 + 32 + 8 + 8 + 32"

definition new_fee_treasury :: "pubkey \<Rightarrow> u8 \<Rightarrow> fee_treasury" where
  "new_fee_treasury collateral_mint bump =
     \<lparr> ft_bump = bump, ft_mint = collateral_mint, accrued_atoms = 0, total_swept_atoms = 0 \<rparr>"

definition accrue :: "u64 \<Rightarrow> (fee_treasury, unit) prog" where
  "accrue amount = update_checked accrued_atoms accrued_atoms_update
     (\<lambda>v. checked_add v amount) ArithmeticOverflow"

definition debit_accrued :: "u64 \<Rightarrow> (fee_treasury, unit) prog" where
  "debit_accrued amount = update_checked accrued_atoms accrued_atoms_update
     (\<lambda>v. checked_sub v amount) ArithmeticOverflow"

definition credit_swept :: "u64 \<Rightarrow> (fee_treasury, unit) prog" where
  "credit_swept amount = update_checked total_swept_atoms total_swept_atoms_update
     (\<lambda>v. checked_add v amount) ArithmeticOverflow"

definition sweep :: "u64 \<Rightarrow> (fee_treasury, unit) prog" where
  "sweep amount = seq (debit_accrued amount) (credit_swept amount)"

interpretation accrued: balance accrued_atoms "\<lambda>v. accrued_atoms_update (\<lambda>_. v)"
  accrue debit_accrued ArithmeticOverflow
  by unfold_locales (simp_all add: accrue_def debit_accrued_def update_checked_run)

interpretation accrued_swept: balance_pair accrued_atoms "\<lambda>v. accrued_atoms_update (\<lambda>_. v)"
  debit_accrued ArithmeticOverflow
  total_swept_atoms "\<lambda>v. total_swept_atoms_update (\<lambda>_. v)"
  credit_swept sweep
  by unfold_locales
    (simp_all add: credit_swept_def sweep_def update_checked_run)

lemma accrue_ok [ok_iff]:
  "accrue a t = (Inr u, t') \<longleftrightarrow>
     (\<exists>v. unat v = unat (accrued_atoms t) + unat a \<and> t' = t \<lparr> accrued_atoms := v \<rparr>)"
  by (rule accrued.credit_ok)

lemma sweep_ok [ok_iff]:
  "sweep a t = (Inr u, t') \<longleftrightarrow>
     (\<exists>v w. unat (accrued_atoms t) = unat a + unat v \<and>
        unat w = unat (total_swept_atoms t) + unat a \<and>
        t' = t \<lparr> accrued_atoms := v, total_swept_atoms := w \<rparr>)"
  by (rule accrued_swept.move_ok)

end
