(* ===== verification/User_Volume.thy ===== *)
theory User_Volume
  imports Errors
begin

text \<open>
  The two-epoch rolling volume counter (\<open>src/state/user_volume.rs\<close>). The specification is a
  log of contributions with their slots; \<open>counts_log\<close> relates an account to a log: the current
  counter is the sum over the epoch that contains now, the previous counter the sum over the
  epoch before it. Adding a contribution implements appending it to the log.
\<close>

record user_volume =
  uv_bump :: u8
  uv_owner :: pubkey
  uv_mint :: pubkey
  volume_current_atoms :: u64
  volume_prev_atoms :: u64
  epoch_start_slot :: u64
  epoch_length_slots :: u64

definition USER_VOLUME_LEN :: nat where
  "USER_VOLUME_LEN = 1 + 1 + 6 + 32 + 32 + 8 + 8 + 8 + 8 + 32"

definition USER_VOLUME_EPOCH_SLOTS :: u64 where
  "USER_VOLUME_EPOCH_SLOTS = 6480000"

definition new_user_volume :: "pubkey \<Rightarrow> pubkey \<Rightarrow> u64 \<Rightarrow> u8 \<Rightarrow> user_volume" where
  "new_user_volume owner collateral_mint now_slot bump =
     \<lparr> uv_bump = bump, uv_owner = owner, uv_mint = collateral_mint, volume_current_atoms = 0,
       volume_prev_atoms = 0, epoch_start_slot = now_slot,
       epoch_length_slots = USER_VOLUME_EPOCH_SLOTS \<rparr>"

section \<open>The code\<close>

definition maybe_roll_epoch :: "u64 \<Rightarrow> (user_volume, unit) prog" where
  "maybe_roll_epoch now_slot = bnd (gets (\<lambda>v. v)) (\<lambda>v.
     let len = max (epoch_length_slots v) 1 in
     if now_slot < epoch_start_slot v then ret ()
     else let elapsed = now_slot - epoch_start_slot v in
       if elapsed < len then ret ()
       else let epochs_elapsed = elapsed div len in
         seq (modify (if epochs_elapsed = 1
                then (\<lambda>v. v\<lparr> volume_prev_atoms := volume_current_atoms v, volume_current_atoms := 0 \<rparr>)
                else (\<lambda>v. v\<lparr> volume_prev_atoms := 0, volume_current_atoms := 0 \<rparr>)))
         (bnd (lift (ok_or_err (checked_mul epochs_elapsed len) ArithmeticOverflow)) (\<lambda>step.
          bnd (lift (ok_or_err (checked_add (epoch_start_slot v) step) ArithmeticOverflow)) (\<lambda>start.
          modify (\<lambda>v. v\<lparr> epoch_start_slot := start \<rparr>)))))"

definition add_volume :: "u64 \<Rightarrow> u64 \<Rightarrow> (user_volume, unit) prog" where
  "add_volume amount now_slot =
     seq (maybe_roll_epoch now_slot)
     (bnd (gets volume_current_atoms) (\<lambda>c.
      bnd (lift (ok_or_err (checked_add c amount) ArithmeticOverflow)) (\<lambda>c'.
      modify (\<lambda>v. v\<lparr> volume_current_atoms := c' \<rparr>))))"

definition effective_30d_volume :: "user_volume \<Rightarrow> u64 \<Rightarrow> u64" where
  "effective_30d_volume self now_slot =
     (let v = snd (maybe_roll_epoch now_slot self)
      in max (volume_current_atoms v) (volume_prev_atoms v))"

section \<open>Rolling is total\<close>

definition epoch_len :: "user_volume \<Rightarrow> nat" where
  "epoch_len v = unat (max (epoch_length_slots v) 1)"

definition epochs_since :: "user_volume \<Rightarrow> nat \<Rightarrow> nat" where
  "epochs_since v now = (now - unat (epoch_start_slot v)) div epoch_len v"

lemma epoch_len_pos [simp]: "0 < epoch_len v"
  by (auto simp: epoch_len_def unat_gt_0 max_def)

text \<open>What a roll leaves behind, over the natural numbers.\<close>

definition rolled :: "user_volume \<Rightarrow> nat \<Rightarrow> user_volume \<Rightarrow> bool" where
  "rolled v now v' \<longleftrightarrow>
     uv_bump v' = uv_bump v \<and> uv_owner v' = uv_owner v \<and> uv_mint v' = uv_mint v \<and>
     epoch_length_slots v' = epoch_length_slots v \<and>
     unat (epoch_start_slot v') = unat (epoch_start_slot v) + epochs_since v now * epoch_len v \<and>
     (if epochs_since v now = 0
      then volume_current_atoms v' = volume_current_atoms v \<and> volume_prev_atoms v' = volume_prev_atoms v
      else volume_current_atoms v' = 0 \<and>
        volume_prev_atoms v' = (if epochs_since v now = 1 then volume_current_atoms v else 0))"

lemma maybe_roll_epoch_total:
  "\<exists>v'. maybe_roll_epoch now v = (Inr (), v') \<and> rolled v (unat now) v'"
proof -
  let ?len = "max (epoch_length_slots v) 1" and ?s = "epoch_start_slot v"
  consider "now < ?s" | "?s \<le> now" "now - ?s < ?len" | "?s \<le> now" "?len \<le> now - ?s"
    by (meson not_le)
  then show ?thesis
  proof cases
    case 1
    then have "epochs_since v (unat now) = 0" by (simp add: epochs_since_def word_less_nat_alt)
    with 1 show ?thesis by (simp add: maybe_roll_epoch_def run_defs Let_def rolled_def)
  next
    case 2
    then have "unat now - unat ?s < epoch_len v"
      by (simp add: epoch_len_def word_less_nat_alt unat_sub)
    then have "epochs_since v (unat now) = 0" by (simp add: epochs_since_def)
    with 2 show ?thesis by (auto simp: maybe_roll_epoch_def run_defs Let_def rolled_def)
  next
    case 3
    let ?e = "(now - ?s) div ?len"
    have e: "unat ?e = epochs_since v (unat now)"
      using 3 by (simp add: epochs_since_def epoch_len_def unat_div unat_sub)
    have el: "unat now - unat ?s < 2 ^ 64" using unat_lt2p [of now] by simp
    have le: "epochs_since v (unat now) * epoch_len v \<le> unat now - unat ?s"
      by (simp add: epochs_since_def)
    then have m: "checked_mul ?e ?len = Some (?e * ?len)" "unat (?e * ?len) = epochs_since v (unat now) * epoch_len v"
      using el e by (simp_all add: checked_mul_def unat_mul_small epoch_len_def [symmetric])
    have s: "unat ?s + unat (?e * ?len) < 2 ^ 64"
      using m le 3 unat_lt2p [of now] by (simp add: word_le_nat_alt)
    then have a: "checked_add ?s (?e * ?len) = Some (?s + ?e * ?len)"
      "unat (?s + ?e * ?len) = unat ?s + unat (?e * ?len)"
      by (simp_all add: checked_add_def unat_add_small)
    have pos: "epochs_since v (unat now) \<noteq> 0"
      using 3 epoch_len_pos [of v]
      by (simp add: epochs_since_def epoch_len_def div_eq_0_iff not_less word_le_nat_alt unat_sub)
    have one: "?e = 1 \<longleftrightarrow> epochs_since v (unat now) = 1"
      using e by (metis unat_1 word_unat_eq_iff)
    have c: "\<not> now < ?s" "\<not> now - ?s < ?len" using 3 by (simp_all only: not_less)
    show ?thesis
    proof (cases "?e = 1")
      case True
      with c pos one m a show ?thesis
        by (simp add: maybe_roll_epoch_def prog_defs Let_def rolled_def)
    next
      case False
      with c pos one m a show ?thesis
        by (simp add: maybe_roll_epoch_def prog_defs Let_def rolled_def)
    qed
  qed
qed


lemma rolled_window:
  assumes "rolled v now v'" "unat (epoch_start_slot v) \<le> now"
  shows "unat (epoch_start_slot v') \<le> now" "now < unat (epoch_start_slot v') + epoch_len v'"
proof -
  have l: "epoch_len v' = epoch_len v" using assms by (simp add: rolled_def epoch_len_def)
  let ?d = "now - unat (epoch_start_slot v)"
  have "?d = ?d div epoch_len v * epoch_len v + ?d mod epoch_len v" by simp
  moreover have "?d mod epoch_len v < epoch_len v" by simp
  ultimately have "epochs_since v now * epoch_len v \<le> ?d"
    "?d < epochs_since v now * epoch_len v + epoch_len v"
    unfolding epochs_since_def by linarith+
  with assms l show "unat (epoch_start_slot v') \<le> now"
    "now < unat (epoch_start_slot v') + epoch_len v'"
    by (auto simp: rolled_def)
qed

lemma add_volume_ok [ok_iff]:
  "add_volume a now v = (Inr u, v') \<longleftrightarrow>
     (\<exists>r c. maybe_roll_epoch now v = (Inr (), r) \<and>
        unat c = unat (volume_current_atoms r) + unat a \<and> v' = r \<lparr> volume_current_atoms := c \<rparr>)"
  by (auto simp: add_volume_def ok_iff arith_iff)

section \<open>Refinement of a contribution log\<close>

type_synonym volume_log = "(nat \<times> nat) list" \<comment> \<open>slot and amount\<close>

definition volume_window :: "volume_log \<Rightarrow> nat \<Rightarrow> nat \<Rightarrow> nat" where
  \<comment> \<open>the sum over the \<open>n\<close> slots before \<open>hi\<close>\<close>
  "volume_window l hi n = sum_list (map snd (filter (\<lambda>(t, _). hi \<le> t + n \<and> t < hi) l))"

definition counts_log :: "user_volume \<Rightarrow> volume_log \<Rightarrow> bool" where
  "counts_log v l \<longleftrightarrow>
     (let s = unat (epoch_start_slot v); n = epoch_len v in
      (\<forall>(t, _)\<in>set l. t < s + n) \<and>
      unat (volume_current_atoms v) = volume_window l (s + n) n \<and>
      unat (volume_prev_atoms v) = volume_window l s n)"

lemma volume_window_append [simp]:
  "volume_window (l @ l') hi n = volume_window l hi n + volume_window l' hi n"
  by (simp add: volume_window_def)

lemma volume_window_outside:
  "\<forall>(t, _)\<in>set l. t + n < hi \<Longrightarrow> volume_window l hi n = 0"
  by (induction l) (auto simp: volume_window_def)

lemma counts_log_roll:
  assumes "counts_log v l" "rolled v now v'"
  shows "counts_log v' l"
proof -
  let ?s = "unat (epoch_start_slot v)" and ?n = "epoch_len v" and ?e = "epochs_since v now"
  have len: "epoch_len v' = ?n" using assms(2) by (simp add: rolled_def epoch_len_def)
  have start: "unat (epoch_start_slot v') = ?s + ?e * ?n"
    using assms(2) by (simp add: rolled_def)
  have old: "\<forall>(t, _)\<in>set l. t < ?s + ?n" using assms(1) by (simp add: counts_log_def Let_def)
  consider "?e = 0" | "?e = 1" | "2 \<le> ?e" by linarith
  then show ?thesis
  proof cases
    case 1
    with assms show ?thesis by (simp add: counts_log_def rolled_def epoch_len_def Let_def)
  next
    case 2
    with assms(2) have "volume_current_atoms v' = 0" "volume_prev_atoms v' = volume_current_atoms v"
      by (simp_all add: rolled_def)
    moreover have "volume_window l (?s + ?n + ?n) ?n = 0"
      by (rule volume_window_outside) (use old in auto)
    ultimately show ?thesis
      using assms(1) old start len 2 by (auto simp: counts_log_def Let_def)
  next
    case 3
    let ?s' = "unat (epoch_start_slot v')"
    have far: "?s + 2 * ?n \<le> ?s'" using 3 by (simp add: start)
    have z: "volume_window l ?s' ?n = 0" "volume_window l (?s' + ?n) ?n = 0"
      by - (rule volume_window_outside, use old far in fastforce)+
    from 3 assms(2) have "volume_current_atoms v' = 0" "volume_prev_atoms v' = 0"
      by (auto simp: rolled_def)
    with z old far show ?thesis by (fastforce simp: counts_log_def Let_def len)
  qed
qed

lemma add_volume_refines:
  assumes "counts_log v l" "add_volume a now v = (Inr u, v')" "epoch_start_slot v \<le> now"
  shows "counts_log v' (l @ [(unat now, unat a)])"
proof -
  from assms(2) obtain r c where r: "maybe_roll_epoch now v = (Inr (), r)"
    and c: "unat c = unat (volume_current_atoms r) + unat a" and v': "v' = r \<lparr> volume_current_atoms := c \<rparr>"
    by (auto simp: add_volume_ok)
  have ro: "rolled v (unat now) r" using maybe_roll_epoch_total [of now v] r by auto
  then have l: "counts_log r l" by (rule counts_log_roll [OF assms(1)])
  have w: "unat (epoch_start_slot r) \<le> unat now" "unat now < unat (epoch_start_slot r) + epoch_len r"
    using rolled_window [OF ro] assms(3) by (simp_all add: word_le_nat_alt)
  have "epoch_len v' = epoch_len r" by (simp add: v' epoch_len_def)
  then show ?thesis
    using l w by (auto simp: counts_log_def Let_def v' c volume_window_def)
qed

lemma effective_volume_of_log:
  fixes now :: u64
  assumes "counts_log v l"
  obtains s n where "n = epoch_len v"
    and "unat (epoch_start_slot v) \<le> unat now \<Longrightarrow> s \<le> unat now \<and> unat now < s + n"
    and "unat (effective_30d_volume v now) =
      max (volume_window l (s + n) n) (volume_window l s n)"
proof -
  obtain r where r: "maybe_roll_epoch now v = (Inr (), r)" "rolled v (unat now) r"
    using maybe_roll_epoch_total by blast
  have l: "counts_log r l" by (rule counts_log_roll [OF assms r(2)])
  have n: "epoch_len r = epoch_len v" using r(2) by (simp add: rolled_def epoch_len_def)
  have "unat (effective_30d_volume v now) = max (unat (volume_current_atoms r)) (unat (volume_prev_atoms r))"
    using r(1) by (simp add: effective_30d_volume_def max_def word_le_nat_alt)
  with l n rolled_window [OF r(2)] show ?thesis
    by (intro that [of "epoch_len v" "unat (epoch_start_slot r)"]) (auto simp: counts_log_def Let_def)
qed

end
