(* ===== verification/Session_State.thy ===== *)
theory Session_State
  imports Errors
begin

text \<open>
  Delegated trading sessions (\<open>src/state/session.rs\<close>): creation with its checks, the liveness
  test, the instrument allowlist, the charge against the two caps and revocation. The lemmas
  show the invariant of a session, that a sequence of charges of any length and outcome
  commits at most the cumulative cap, and that revocation is final.
\<close>

record session =
  se_bump :: u8
  revoked :: u8
  n_allowed_instruments :: u8
  se_owner :: pubkey
  delegate :: pubkey
  expires_at_slot :: u64
  per_intent_max_collateral_atoms :: u64
  cumulative_collateral_used :: u64
  cumulative_collateral_cap :: u64
  created_at_slot :: u64
  se_version :: u64
  allowed_instruments :: "pubkey list"

definition MAX_SESSION_INSTRUMENTS :: nat where
  "MAX_SESSION_INSTRUMENTS = 8"

definition SESSION_LEN :: nat where
  "SESSION_LEN = 1 + 1 + 1 + 1 + 4 + 32 + 32 + 8 + 8 + 8 + 8 + 8 + 8 + 32 * MAX_SESSION_INSTRUMENTS + 64"

section \<open>The code\<close>

definition session_init ::
  "pubkey \<Rightarrow> pubkey \<Rightarrow> u8 \<Rightarrow> u64 \<Rightarrow> u64 \<Rightarrow> u64 \<Rightarrow> pubkey list \<Rightarrow> u64 \<Rightarrow> session result" where
  "session_init owner dlg bump expires per_intent_max cap allowed created =
     (if expires \<le> created then err InvalidInstructionData
      else if per_intent_max = 0 \<or> cap = 0 then err InvalidInstructionData
      else if per_intent_max > cap then err InvalidInstructionData
      else if length allowed > MAX_SESSION_INSTRUMENTS then err InvalidInstructionData
      else Inr \<lparr> se_bump = bump, revoked = 0, n_allowed_instruments = of_nat (length allowed),
        se_owner = owner, delegate = dlg, expires_at_slot = expires,
        per_intent_max_collateral_atoms = per_intent_max, cumulative_collateral_used = 0,
        cumulative_collateral_cap = cap, created_at_slot = created, se_version = 1,
        allowed_instruments =
          allowed @ replicate (MAX_SESSION_INSTRUMENTS - length allowed) default_pubkey \<rparr>)"

definition is_active :: "session \<Rightarrow> u64 \<Rightarrow> bool" where
  "is_active s current_slot \<longleftrightarrow> revoked s = 0 \<and> expires_at_slot s > current_slot \<and>
     cumulative_collateral_used s < cumulative_collateral_cap s"

definition allows_instrument :: "session \<Rightarrow> pubkey \<Rightarrow> bool" where
  "allows_instrument s instrument =
     (if n_allowed_instruments s = 0 then True
      else let n = min (unat (n_allowed_instruments s)) MAX_SESSION_INSTRUMENTS
           in list_ex (\<lambda>slot. slot = instrument) (take n (allowed_instruments s)))"

definition record_intent :: "u64 \<Rightarrow> (session, u64) prog" where
  "record_intent collateral_atoms =
     bnd (gets (\<lambda>s. s)) (\<lambda>s.
     seq (ensure (collateral_atoms \<noteq> 0) InvalidContractCount)
     (seq (ensure (\<not> collateral_atoms > per_intent_max_collateral_atoms s) SessionPerIntentCapExceeded)
     (bnd (lift (ok_or_err (checked_add (cumulative_collateral_used s) collateral_atoms) ArithmeticOverflow))
        (\<lambda>new_used.
     seq (ensure (\<not> new_used > cumulative_collateral_cap s) SessionCumulativeCapExceeded)
     (seq (modify (\<lambda>s. s\<lparr> cumulative_collateral_used := new_used,
                           se_version := saturating_add (se_version s) 1 \<rparr>))
       (ret new_used))))))"

definition revoke :: "session \<Rightarrow> session" where
  "revoke s = s\<lparr> revoked := 1, se_version := saturating_add (se_version s) 1 \<rparr>"

section \<open>The invariant\<close>

definition session_wf :: "session \<Rightarrow> bool" where
  "session_wf s \<longleftrightarrow>
     0 < per_intent_max_collateral_atoms s \<and>
     per_intent_max_collateral_atoms s \<le> cumulative_collateral_cap s \<and>
     cumulative_collateral_used s \<le> cumulative_collateral_cap s \<and>
     created_at_slot s < expires_at_slot s \<and>
     unat (n_allowed_instruments s) \<le> MAX_SESSION_INSTRUMENTS \<and>
     length (allowed_instruments s) = MAX_SESSION_INSTRUMENTS"

text \<open>The fields no operation changes after creation.\<close>

definition same_grant :: "session \<Rightarrow> session \<Rightarrow> bool" where
  "same_grant s s' \<longleftrightarrow> se_owner s' = se_owner s \<and> delegate s' = delegate s \<and>
     expires_at_slot s' = expires_at_slot s \<and>
     per_intent_max_collateral_atoms s' = per_intent_max_collateral_atoms s \<and>
     cumulative_collateral_cap s' = cumulative_collateral_cap s \<and>
     created_at_slot s' = created_at_slot s \<and>
     n_allowed_instruments s' = n_allowed_instruments s \<and>
     allowed_instruments s' = allowed_instruments s"

lemma session_init_ok [ok_iff]:
  "session_init own dlg b ex pim cap al cr = Inr s \<longleftrightarrow>
     cr < ex \<and> pim \<noteq> 0 \<and> pim \<le> cap \<and> length al \<le> 8 \<and>
     s = \<lparr> se_bump = b, revoked = 0, n_allowed_instruments = of_nat (length al),
        se_owner = own, delegate = dlg, expires_at_slot = ex,
        per_intent_max_collateral_atoms = pim, cumulative_collateral_used = 0,
        cumulative_collateral_cap = cap, created_at_slot = cr, se_version = 1,
        allowed_instruments = al @ replicate (8 - length al) default_pubkey \<rparr>"
  by (auto simp: session_init_def MAX_SESSION_INSTRUMENTS_def not_le not_less)

lemma record_intent_ok [ok_iff]:
  "record_intent a s = (Inr v, s') \<longleftrightarrow>
     a \<noteq> 0 \<and> a \<le> per_intent_max_collateral_atoms s \<and> v \<le> cumulative_collateral_cap s \<and>
     unat v = unat (cumulative_collateral_used s) + unat a \<and>
     s' = s\<lparr> cumulative_collateral_used := v, se_version := saturating_add (se_version s) 1 \<rparr>"
  by (auto simp: record_intent_def ok_iff arith_iff not_less)

lemma record_intent_error_keeps: "record_intent a s = (Inl x, s') \<Longrightarrow> s' = s"
  by (auto simp: record_intent_def prog_defs split: option.splits if_splits)

lemma session_init_wf:
  assumes "session_init own dlg b ex pim cap al cr = Inr s"
  shows "session_wf s" "revoked s = 0"
proof -
  have l: "length al \<le> 8" using assms by (simp add: session_init_ok)
  then have "unat (of_nat (length al) :: u8) = length al" by (simp add: unat_of_nat)
  with assms l show "session_wf s" "revoked s = 0"
    by (auto simp: session_init_ok session_wf_def MAX_SESSION_INSTRUMENTS_def word_gt_0)
qed

lemma record_intent_wf:
  "session_wf s \<Longrightarrow> record_intent a s = (Inr v, s') \<Longrightarrow> session_wf s' \<and> same_grant s s' \<and> revoked s' = revoked s"
  by (auto simp: record_intent_ok session_wf_def same_grant_def)

lemma revoke_wf: "session_wf s \<Longrightarrow> session_wf (revoke s) \<and> same_grant s (revoke s) \<and> \<not> is_active (revoke s) slot"
  by (simp add: revoke_def session_wf_def same_grant_def is_active_def)

lemma allows_instrument_init:
  assumes "session_init own dlg b ex pim cap al cr = Inr s"
  shows "allows_instrument s i \<longleftrightarrow> al = [] \<or> i \<in> set al"
proof -
  have l: "length al \<le> 8" using assms by (simp add: session_init_ok)
  then have n: "unat (of_nat (length al) :: u8) = length al" by (simp add: unat_of_nat)
  then have "(of_nat (length al) :: u8) = 0 \<longleftrightarrow> al = []"
    by (metis length_0_conv unat_eq_zero)
  with assms l n show ?thesis
    by (auto simp: session_init_ok allows_instrument_def MAX_SESSION_INSTRUMENTS_def list_ex_iff Let_def)
qed

section \<open>The lifetime of a session\<close>

text \<open>
  What delegate and owner can do to a session between two creations: a charge that succeeds
  while the session is live, and a revocation. \<open>spent\<close> lists the charges.
\<close>

inductive session_run :: "session \<Rightarrow> u64 list \<Rightarrow> session \<Rightarrow> bool" where
  start: "session_run s [] s"
| charge: "session_run s xs t \<Longrightarrow> is_active t slot \<Longrightarrow> record_intent a t = (Inr v, t') \<Longrightarrow>
    session_run s (xs @ [a]) t'"
| revocation: "session_run s xs t \<Longrightarrow> session_run s xs (revoke t)"

inductive_cases session_runE: "session_run s xs t"

lemma session_run_inv:
  assumes "session_run s xs t" "session_wf s"
  shows "session_wf t \<and> same_grant s t \<and>
    unat (cumulative_collateral_used t) = unat (cumulative_collateral_used s) + sum_list (map unat xs) \<and>
    (\<forall>a\<in>set xs. a \<le> per_intent_max_collateral_atoms s)"
  using assms
proof (induction rule: session_run.induct)
  case (start s)
  then show ?case by (simp add: same_grant_def)
next
  case (charge s xs t slot a v t')
  then show ?case
    by (auto simp: record_intent_ok session_wf_def same_grant_def)
next
  case (revocation s xs t)
  then show ?case by (auto simp: revoke_def session_wf_def same_grant_def)
qed

lemma session_run_revoked:
  assumes "session_run s xs t" "revoked s \<noteq> 0"
  shows "xs = [] \<and> revoked t \<noteq> 0"
  using assms
proof (induction rule: session_run.induct)
  case (start s)
  then show ?case by simp
next
  case (charge s xs t slot a v t')
  then show ?case by (simp add: is_active_def)
next
  case (revocation s xs t)
  then show ?case by (simp add: revoke_def)
qed

end
