(* ===== verification/Prefix_Array.thy ===== *)
theory Prefix_Array
  imports Errors
begin

text \<open>
  Five accounts of the program keep a set of keys the same way: a fixed array whose first
  \<open>n\<close> entries are authoritative and whose other entries are zero. This theory has the shared
  code shapes (filling the array from a slice, rejecting bad or duplicate entries) and the
  locale \<open>prefix_array\<close> with the contract of the membership test: after a fill it decides
  membership in the slice. It is interpreted on the leverages and buckets of the bucket
  registry, the mints of the stablecoin registry, the multisig signers and the instruments
  of a session.
\<close>

text \<open>\<open>[z; n]\<close> overwritten through \<open>zip\<close> with the entries of a slice.\<close>

definition fill_array :: "nat \<Rightarrow> 'k \<Rightarrow> 'k list \<Rightarrow> 'k list" where
  "fill_array n z xs = take n xs @ replicate (n - length xs) z"

text \<open>The double loop that rejects a bad entry, or one that appears again later.\<close>

primrec check_entries :: "('k \<Rightarrow> bool) \<Rightarrow> polyleverage_error \<Rightarrow> 'k list \<Rightarrow> unit result" where
  "check_entries bad e [] = Inr ()"
| "check_entries bad e (x # xs) =
     (if bad x then err e
      else if list_ex (\<lambda>y. y = x) xs then err e
      else check_entries bad e xs)"

lemma check_entries_ok [ok_iff]:
  "check_entries bad e xs = Inr u \<longleftrightarrow> distinct xs \<and> (\<forall>x\<in>set xs. \<not> bad x)"
  by (induction xs) (auto simp: list_ex_iff)

lemma check_entries_error: "check_entries bad e xs = Inl x \<Longrightarrow> x = Custom e"
  by (induction xs) (auto split: if_splits)

lemma length_fill_array [simp]: "length (fill_array n z xs) = n"
  by (simp add: fill_array_def)

lemma take_fill_array: "length xs \<le> n \<Longrightarrow> take (length xs) (fill_array n z xs) = xs"
  by (simp add: fill_array_def)

section \<open>The contract\<close>

locale prefix_array =
  fixes arr :: "'s \<Rightarrow> 'k list"
    and cnt :: "'s \<Rightarrow> u8"
    and cap :: nat
    and mem :: "'s \<Rightarrow> 'k \<Rightarrow> bool"
  assumes mem_iff: "mem s k \<longleftrightarrow> k \<in> set (take (min (unat (cnt s)) cap) (arr s))"
    and cap_small: "cap < 256"
begin

lemma count_of_nat: "n \<le> cap \<Longrightarrow> unat (of_nat n :: u8) = n"
  using cap_small by (simp add: unat_of_nat)

lemma mem_filled:
  assumes "arr s = fill_array cap z xs" "cnt s = of_nat (length xs)" "length xs \<le> cap"
  shows "mem s k \<longleftrightarrow> k \<in> set xs"
  using assms count_of_nat [of "length xs"] by (simp add: mem_iff take_fill_array min_def)

lemma mem_bounded: "card {k. mem s k} \<le> min (unat (cnt s)) cap"
proof -
  have "{k. mem s k} = set (take (min (unat (cnt s)) cap) (arr s))" by (auto simp: mem_iff)
  then show ?thesis by (metis card_length length_take min.bounded_iff)
qed

end

end
