(* ===== verification/Bucket_Registry.thy ===== *)
theory Bucket_Registry
  imports Prefix_Array
begin

text \<open>
  The allowlists of leverages and collateral bucket sizes (\<open>src/state/bucket_registry.rs\<close>).
\<close>

record bucket_registry =
  br_bump :: u8
  n_leverage :: u8
  n_collateral :: u8
  br_version :: u64
  br_leverage_bps :: "u32 list"
  collateral_buckets :: "u64 list"

definition MAX_LEVERAGE_SLOTS :: nat where "MAX_LEVERAGE_SLOTS = 16"
definition MAX_COLLATERAL_SLOTS :: nat where "MAX_COLLATERAL_SLOTS = 16"

definition DEFAULT_LEVERAGE_BPS :: "u32 list" where
  "DEFAULT_LEVERAGE_BPS = [20000, 50000, 100000, 200000, 400000]"

definition DEFAULT_COLLATERAL_BUCKETS :: "u64 list" where
  "DEFAULT_COLLATERAL_BUCKETS = [100000000, 1000000000]"

definition BUCKET_REGISTRY_LEN :: nat where
  "BUCKET_REGISTRY_LEN = 1 + 1 + 1 + 1 + 4 + 8 + 4 * MAX_LEVERAGE_SLOTS + 8 * MAX_COLLATERAL_SLOTS + 64"

definition validate_inputs :: "u32 list \<Rightarrow> u64 list \<Rightarrow> unit result" where
  "validate_inputs leverages buckets =
     (if leverages = [] \<or> length leverages > MAX_LEVERAGE_SLOTS then err InvalidInstructionData
      else if buckets = [] \<or> length buckets > MAX_COLLATERAL_SLOTS then err InvalidInstructionData
      else try_res (check_entries (\<lambda>l. l = 0 \<or> l > 10000000) InvalidLeverageBucket leverages) (\<lambda>_.
             check_entries (\<lambda>b. b = 0) InvalidCollateralBucket buckets))"

definition new_bucket_registry :: "u32 list \<Rightarrow> u64 list \<Rightarrow> u8 \<Rightarrow> bucket_registry" where
  "new_bucket_registry leverages buckets bump =
     \<lparr> br_bump = bump, n_leverage = of_nat (length leverages), n_collateral = of_nat (length buckets),
       br_version = 1, br_leverage_bps = fill_array MAX_LEVERAGE_SLOTS 0 leverages,
       collateral_buckets = fill_array MAX_COLLATERAL_SLOTS 0 buckets \<rparr>"

definition set_buckets :: "u32 list \<Rightarrow> u64 list \<Rightarrow> (bucket_registry, unit) prog" where
  "set_buckets leverages buckets =
     seq (lift (validate_inputs leverages buckets))
     (modify (\<lambda>r. r\<lparr> br_leverage_bps := fill_array MAX_LEVERAGE_SLOTS 0 leverages,
        collateral_buckets := fill_array MAX_COLLATERAL_SLOTS 0 buckets,
        n_leverage := of_nat (length leverages), n_collateral := of_nat (length buckets),
        br_version := saturating_add (br_version r) 1 \<rparr>))"

definition allows_leverage :: "bucket_registry \<Rightarrow> u32 \<Rightarrow> bool" where
  "allows_leverage r bps =
     (let n = min (unat (n_leverage r)) MAX_LEVERAGE_SLOTS
      in list_ex (\<lambda>v. v = bps) (take n (br_leverage_bps r)))"

definition allows_bucket :: "bucket_registry \<Rightarrow> u64 \<Rightarrow> bool" where
  "allows_bucket r atoms =
     (let n = min (unat (n_collateral r)) MAX_COLLATERAL_SLOTS
      in list_ex (\<lambda>v. v = atoms) (take n (collateral_buckets r)))"

interpretation leverages: prefix_array br_leverage_bps n_leverage MAX_LEVERAGE_SLOTS allows_leverage
  by unfold_locales (auto simp: allows_leverage_def list_ex_iff Let_def MAX_LEVERAGE_SLOTS_def)

interpretation buckets: prefix_array collateral_buckets n_collateral MAX_COLLATERAL_SLOTS allows_bucket
  by unfold_locales (auto simp: allows_bucket_def list_ex_iff Let_def MAX_COLLATERAL_SLOTS_def)

lemma validate_inputs_ok [ok_iff]:
  "validate_inputs ls bs = Inr u \<longleftrightarrow>
     ls \<noteq> [] \<and> length ls \<le> 16 \<and> bs \<noteq> [] \<and> length bs \<le> 16 \<and>
     distinct ls \<and> (\<forall>l\<in>set ls. l \<noteq> 0 \<and> l \<le> 10000000) \<and> distinct bs \<and> 0 \<notin> set bs"
  by (auto simp: validate_inputs_def ok_iff MAX_LEVERAGE_SLOTS_def MAX_COLLATERAL_SLOTS_def
      not_less not_le)

lemma set_buckets_ok [ok_iff]:
  "set_buckets ls bs r = (Inr u, r') \<longleftrightarrow>
     validate_inputs ls bs = Inr () \<and>
     r' = r\<lparr> br_leverage_bps := fill_array 16 0 ls, collateral_buckets := fill_array 16 0 bs,
        n_leverage := of_nat (length ls), n_collateral := of_nat (length bs),
        br_version := saturating_add (br_version r) 1 \<rparr>"
  by (auto simp: set_buckets_def ok_iff MAX_LEVERAGE_SLOTS_def MAX_COLLATERAL_SLOTS_def)

text \<open>A registry that holds exactly the two given slices.\<close>

definition holds_buckets :: "bucket_registry \<Rightarrow> u32 list \<Rightarrow> u64 list \<Rightarrow> bool" where
  "holds_buckets r ls bs \<longleftrightarrow> (\<forall>l. allows_leverage r l \<longleftrightarrow> l \<in> set ls) \<and> (\<forall>b. allows_bucket r b \<longleftrightarrow> b \<in> set bs)"

lemma new_registry_holds:
  "validate_inputs ls bs = Inr () \<Longrightarrow> holds_buckets (new_bucket_registry ls bs bump) ls bs"
  by (simp add: holds_buckets_def validate_inputs_ok new_bucket_registry_def
      leverages.mem_filled buckets.mem_filled MAX_LEVERAGE_SLOTS_def MAX_COLLATERAL_SLOTS_def)

lemma set_buckets_holds:
  assumes "set_buckets ls bs r = (Inr u, r')"
  shows "holds_buckets r' ls bs"
  using assms
  by (simp add: holds_buckets_def validate_inputs_ok set_buckets_ok
      leverages.mem_filled [where z = 0 and xs = ls] buckets.mem_filled [where z = 0 and xs = bs]
      MAX_LEVERAGE_SLOTS_def MAX_COLLATERAL_SLOTS_def)

end
