(* ===== verification/Stablecoin_Registry.thy ===== *)
theory Stablecoin_Registry
  imports Prefix_Array
begin

text \<open>
  The allowlist of stablecoin mints that wrap into wUSD (\<open>src/state/stablecoin_registry.rs\<close>):
  creation, membership, insertion at the end and deletion by moving the last entry into the
  gap. The specification is the set of accepted mints; insertion and deletion implement the
  set operations and keep the prefix dense and free of duplicates.
\<close>

record stablecoin_registry =
  sr_bump :: u8
  n_mints :: u8
  wusd_decimals :: u8
  wusd_mint :: pubkey
  sr_version :: u64
  mints :: "pubkey list"

definition MAX_STABLECOIN_SLOTS :: nat where "MAX_STABLECOIN_SLOTS = 16"

definition STABLECOIN_REGISTRY_LEN :: nat where
  "STABLECOIN_REGISTRY_LEN = 1 + 1 + 1 + 1 + 4 + 32 + 8 + 32 * MAX_STABLECOIN_SLOTS + 64"

section \<open>The code\<close>

definition check_initial_mints :: "pubkey list \<Rightarrow> unit result" where
  "check_initial_mints initial_mints =
     (if length initial_mints > MAX_STABLECOIN_SLOTS then err InvalidInstructionData
      else check_entries (\<lambda>m. m = default_pubkey) InvalidMint initial_mints)"

definition new_stablecoin_registry :: "pubkey \<Rightarrow> u8 \<Rightarrow> pubkey list \<Rightarrow> u8 \<Rightarrow> stablecoin_registry" where
  "new_stablecoin_registry wusd decimals initial_mints bump =
     \<lparr> sr_bump = bump, n_mints = of_nat (length initial_mints), wusd_decimals = decimals,
       wusd_mint = wusd, sr_version = 1,
       mints = fill_array MAX_STABLECOIN_SLOTS default_pubkey initial_mints \<rparr>"

definition is_accepted :: "stablecoin_registry \<Rightarrow> pubkey \<Rightarrow> bool" where
  "is_accepted r mint =
     (let n = min (unat (n_mints r)) MAX_STABLECOIN_SLOTS
      in list_ex (\<lambda>m. m = mint) (take n (mints r)))"

definition add_mint :: "pubkey \<Rightarrow> (stablecoin_registry, unit) prog" where
  "add_mint mint = bnd (gets (\<lambda>r. r)) (\<lambda>r.
     seq (ensure (\<not> is_accepted r mint) AlreadyInitialized)
     (let n = unat (n_mints r) in
      seq (ensure (\<not> n \<ge> MAX_STABLECOIN_SLOTS) InvalidInstructionData)
      (modify (\<lambda>r. r\<lparr> mints := (mints r)[n := mint], n_mints := of_nat (n + 1),
                      sr_version := saturating_add (sr_version r) 1 \<rparr>))))"

text \<open>The search loop over \<open>0..n\<close>; indexing past the array panics.\<close>

primrec mint_scan :: "pubkey list \<Rightarrow> pubkey \<Rightarrow> nat list \<Rightarrow> nat option result" where
  "mint_scan ms mint [] = Inr None"
| "mint_scan ms mint (i # is) =
     (if length ms \<le> i then Inl Panicked
      else if ms ! i = mint then Inr (Some i)
      else mint_scan ms mint is)"

definition remove_mint :: "pubkey \<Rightarrow> (stablecoin_registry, unit) prog" where
  "remove_mint mint = bnd (gets (\<lambda>r. r)) (\<lambda>r.
     let n = unat (n_mints r) in
     bnd (lift (mint_scan (mints r) mint [0..<n])) (\<lambda>idx.
     bnd (lift (ok_or_err idx NotInitialized)) (\<lambda>i.
     seq (require (n - 1 < length (mints r)) Panicked)
     (seq (modify (\<lambda>r. if i + 1 < n then r\<lparr> mints := (mints r)[i := mints r ! (n - 1)] \<rparr> else r))
     (modify (\<lambda>r. r\<lparr> mints := (mints r)[n - 1 := default_pubkey], n_mints := of_nat (n - 1),
                      sr_version := saturating_add (sr_version r) 1 \<rparr>))))))"

interpretation mints: prefix_array mints n_mints MAX_STABLECOIN_SLOTS is_accepted
  by unfold_locales (auto simp: is_accepted_def list_ex_iff Let_def MAX_STABLECOIN_SLOTS_def)

section \<open>The registry as a set\<close>

definition registry_wf :: "stablecoin_registry \<Rightarrow> bool" where
  "registry_wf r \<longleftrightarrow>
     length (mints r) = MAX_STABLECOIN_SLOTS \<and> unat (n_mints r) \<le> MAX_STABLECOIN_SLOTS \<and>
     distinct (take (unat (n_mints r)) (mints r)) \<and>
     (\<forall>m \<in> set (drop (unat (n_mints r)) (mints r)). m = default_pubkey)"

definition accepted :: "stablecoin_registry \<Rightarrow> pubkey set" where
  "accepted r = {m. is_accepted r m}"

lemma accepted_prefix: "registry_wf r \<Longrightarrow> accepted r = set (take (unat (n_mints r)) (mints r))"
  by (auto simp: accepted_def mints.mem_iff registry_wf_def min_def)

lemma check_initial_mints_ok [ok_iff]:
  "check_initial_mints ms = Inr u \<longleftrightarrow> length ms \<le> 16 \<and> distinct ms \<and> default_pubkey \<notin> set ms"
  by (auto simp: check_initial_mints_def ok_iff MAX_STABLECOIN_SLOTS_def)

lemma new_registry_wf:
  assumes "check_initial_mints ms = Inr ()"
  shows "registry_wf (new_stablecoin_registry w d ms b)"
    and "accepted (new_stablecoin_registry w d ms b) = set ms"
proof -
  have l: "length ms \<le> 16" "distinct ms" using assms by (simp_all add: check_initial_mints_ok)
  then have n: "unat (of_nat (length ms) :: u8) = length ms" by (simp add: unat_of_nat)
  show wf: "registry_wf (new_stablecoin_registry w d ms b)"
    using l n by (simp add: registry_wf_def new_stablecoin_registry_def MAX_STABLECOIN_SLOTS_def
        fill_array_def)
  show "accepted (new_stablecoin_registry w d ms b) = set ms"
    using l n by (simp add: accepted_prefix [OF wf]) (simp add: new_stablecoin_registry_def
        MAX_STABLECOIN_SLOTS_def fill_array_def)
qed

subsection \<open>Insertion\<close>

lemma add_mint_ok [ok_iff]:
  "add_mint m r = (Inr u, r') \<longleftrightarrow>
     \<not> is_accepted r m \<and> unat (n_mints r) < 16 \<and>
     r' = r\<lparr> mints := (mints r)[unat (n_mints r) := m], n_mints := of_nat (unat (n_mints r) + 1),
             sr_version := saturating_add (sr_version r) 1 \<rparr>"
  by (auto simp: add_mint_def ok_iff Let_def MAX_STABLECOIN_SLOTS_def not_le)

lemma add_mint_set:
  assumes wf: "registry_wf r" and add: "add_mint m r = (Inr u, r')"
  shows "registry_wf r'" "accepted r' = insert m (accepted r)"
proof -
  let ?n = "unat (n_mints r)"
  from add have n: "?n < 16" and r': "r' = r\<lparr> mints := (mints r)[?n := m],
      n_mints := of_nat (?n + 1), sr_version := saturating_add (sr_version r) 1 \<rparr>"
    and new: "m \<notin> accepted r"
    by (simp_all add: add_mint_ok accepted_def)
  have len: "length (mints r) = 16" using wf by (simp add: registry_wf_def MAX_STABLECOIN_SLOTS_def)
  have c: "unat (n_mints r') = Suc ?n"
    using n by (simp add: r' unat_of_nat del: of_nat_Suc flip: of_nat_Suc)
  have t: "take (Suc ?n) (mints r') = take ?n (mints r) @ [m]"
    using n len by (simp add: r' take_Suc_conv_app_nth)
  have d: "drop (Suc ?n) (mints r') = drop (Suc ?n) (mints r)" by (simp add: r')
  have sub: "set (drop (Suc ?n) (mints r)) \<subseteq> set (drop ?n (mints r))"
    by (rule set_drop_subset_set_drop) simp
  show wf': "registry_wf r'"
    using wf n new sub unfolding registry_wf_def c t d accepted_prefix [OF wf]
    by (auto simp: r' MAX_STABLECOIN_SLOTS_def)
  show "accepted r' = insert m (accepted r)"
    unfolding accepted_prefix [OF wf] accepted_prefix [OF wf'] c t by simp
qed

subsection \<open>Deletion\<close>

lemma mint_scan_found:
  "\<forall>i\<in>set is. i < length ms \<Longrightarrow>
   mint_scan ms m is = Inr (List.find (\<lambda>i. ms ! i = m) is)"
  by (induction "is") auto

lemma remove_mint_ok:
  assumes "registry_wf r"
  shows "remove_mint m r = (Inr u, r') \<longleftrightarrow>
    (\<exists>i. i < unat (n_mints r) \<and> mints r ! i = m \<and>
       r' = r\<lparr> mints := ((mints r)[i := mints r ! (unat (n_mints r) - 1)])
                          [unat (n_mints r) - 1 := default_pubkey],
               n_mints := of_nat (unat (n_mints r) - 1),
               sr_version := saturating_add (sr_version r) 1 \<rparr>)"
proof -
  let ?n = "unat (n_mints r)"
  have len: "length (mints r) = 16" "?n \<le> 16" and dis: "distinct (take ?n (mints r))"
    using assms by (simp_all add: registry_wf_def MAX_STABLECOIN_SLOTS_def)
  have sc: "mint_scan (mints r) m [0..<?n] = Inr (List.find (\<lambda>i. mints r ! i = m) [0..<?n])"
    by (rule mint_scan_found) (use len in auto)
  have fi: "List.find (\<lambda>i. mints r ! i = m) [0..<?n] = Some i \<longleftrightarrow> i < ?n \<and> mints r ! i = m" for i
  proof
    assume "List.find (\<lambda>i. mints r ! i = m) [0..<?n] = Some i"
    then show "i < ?n \<and> mints r ! i = m" by (auto simp: find_Some_iff)
  next
    assume i: "i < ?n \<and> mints r ! i = m"
    have "mints r ! j \<noteq> m" if "j < i" for j
    proof
      assume "mints r ! j = m"
      then show False using nth_eq_iff_index_eq [OF dis, of j i] i that len by simp
    qed
    with i show "List.find (\<lambda>i. mints r ! i = m) [0..<?n] = Some i"
      by (auto simp: find_Some_iff intro!: exI [of _ i])
  qed
  have last: "(mints r)[i := mints r ! (?n - 1)] = mints r" if "i < ?n" "\<not> i + 1 < ?n" for i
  proof -
    have "i = ?n - 1" using that by simp
    then show ?thesis by simp
  qed
  show ?thesis
    by (simp add: remove_mint_def ok_iff Let_def sc fi ex_simps [symmetric] del: ex_simps,
        intro iff_exI) (use len last in auto)
qed

text \<open>Removing by swapping the last element into the gap.\<close>

lemma swap_remove:
  assumes "distinct (xs @ [x])" "i < Suc (length xs)"
  shows "distinct (xs[i := x])" "set (xs[i := x]) = set (xs @ [x]) - {(xs @ [x]) ! i}"
proof -
  show "distinct (xs[i := x])" using assms by (auto intro: distinct_list_update)
  show "set (xs[i := x]) = set (xs @ [x]) - {(xs @ [x]) ! i}"
  proof (cases "i < length xs")
    case True
    then have "xs ! i \<noteq> x" using assms by auto
    with True assms show ?thesis by (auto simp: set_update_distinct nth_append)
  next
    case False
    then have "i = length xs" "xs[i := x] = xs" using assms by (simp_all add: list_update_beyond)
    with assms show ?thesis by simp
  qed
qed

lemma remove_mint_set:
  assumes wf: "registry_wf r" and rem: "remove_mint m r = (Inr u, r')"
  shows "m \<in> accepted r" "registry_wf r'" "accepted r' = accepted r - {m}"
proof -
  let ?n = "unat (n_mints r)"
  obtain i where i: "i < ?n" "mints r ! i = m"
    and r': "r' = r\<lparr> mints := ((mints r)[i := mints r ! (?n - 1)])[?n - 1 := default_pubkey],
      n_mints := of_nat (?n - 1), sr_version := saturating_add (sr_version r) 1 \<rparr>"
    using rem by (auto simp: remove_mint_ok [OF wf])
  have len: "length (mints r) = 16" "?n \<le> 16" and dis: "distinct (take ?n (mints r))"
    using wf by (simp_all add: registry_wf_def MAX_STABLECOIN_SLOTS_def)
  obtain k where k: "?n = Suc k" using i by (cases ?n) auto
  let ?xs = "take k (mints r)" and ?x = "mints r ! k"
  have tk: "take ?n (mints r) = ?xs @ [?x]" using k len by (simp add: take_Suc_conv_app_nth)
  have lx: "length ?xs = k" using k len by simp
  have at: "(?xs @ [?x]) ! i = m"
  proof -
    have "(?xs @ [?x]) ! i = take ?n (mints r) ! i" by (simp only: tk)
    then show ?thesis using i by simp
  qed
  have c: "unat (n_mints r') = k" using k len by (simp add: r' unat_of_nat)
  have t: "take k (mints r') = ?xs[i := ?x]"
    using k lx by (simp add: r' take_update_swap list_update_beyond)
  have dr: "\<forall>y\<in>set (drop k (mints r')). y = default_pubkey"
  proof
    fix y assume "y \<in> set (drop k (mints r'))"
    then obtain j where j: "j < length (drop k (mints r'))" "y = drop k (mints r') ! j"
      by (auto simp: in_set_conv_nth)
    show "y = default_pubkey"
    proof (cases j)
      case 0
      with j k len show ?thesis by (simp add: r')
    next
      case (Suc j')
      then have "y = drop ?n (mints r) ! j'" using j k len i by (simp add: r')
      then have "y \<in> set (drop ?n (mints r))"
        using j Suc k len nth_mem [of j' "drop ?n (mints r)"] by (simp add: r')
      then show ?thesis using wf by (simp add: registry_wf_def)
    qed
  qed
  note sw = swap_remove [of ?xs ?x i]
  show "m \<in> accepted r" using i len by (auto simp: accepted_prefix [OF wf] in_set_conv_nth)
  show wf': "registry_wf r'"
    using sw(1) dis i k len dr
    unfolding registry_wf_def c t tk by (simp add: r' lx MAX_STABLECOIN_SLOTS_def)
  show "accepted r' = accepted r - {m}"
    using sw(2) dis i k len
    unfolding accepted_prefix [OF wf] accepted_prefix [OF wf'] c t tk by (simp add: lx at)
qed

end
