(* ===== verification/Admin_Multisig.thy ===== *)
theory Admin_Multisig
  imports Prefix_Array Account_Info
begin

text \<open>
  The N-of-M admin multisignature (\<open>src/state/admin_multisig.rs\<close>). The main lemma says that the
  nested counting loop computes the number of different members that signed, however often
  an account is repeated, so a threshold that passes names that many different signers.
\<close>

record admin_multisig =
  ms_bump :: u8
  threshold :: u8
  n_signers :: u8
  bootstrap_admin :: pubkey
  ms_version :: u64
  signers :: "pubkey list"

definition MAX_MULTISIG_SIGNERS :: nat where "MAX_MULTISIG_SIGNERS = 16"

definition ADMIN_MULTISIG_LEN :: nat where
  "ADMIN_MULTISIG_LEN = 1 + 1 + 1 + 1 + 4 + 32 + 8 + 32 * MAX_MULTISIG_SIGNERS + 64"

section \<open>The code\<close>

definition check_multisig_config :: "pubkey list \<Rightarrow> u8 \<Rightarrow> unit result" where
  "check_multisig_config sgs thr =
     (if sgs = [] \<or> length sgs > MAX_MULTISIG_SIGNERS then err InvalidInstructionData
      else if thr = 0 \<or> unat thr > length sgs then err InvalidInstructionData
      else check_entries (\<lambda>_. False) InvalidInstructionData sgs)"

definition new_admin_multisig :: "pubkey \<Rightarrow> pubkey list \<Rightarrow> u8 \<Rightarrow> u8 \<Rightarrow> admin_multisig" where
  "new_admin_multisig bootstrap sgs thr bump =
     \<lparr> ms_bump = bump, threshold = thr, n_signers = of_nat (length sgs),
       bootstrap_admin = bootstrap, ms_version = 1,
       signers = fill_array MAX_MULTISIG_SIGNERS default_pubkey sgs \<rparr>"

definition is_member :: "admin_multisig \<Rightarrow> pubkey \<Rightarrow> bool" where
  "is_member ms k =
     (let n = min (unat (n_signers ms)) MAX_MULTISIG_SIGNERS
      in list_ex (\<lambda>s. s = k) (take n (signers ms)))"

primrec approval_loop :: "account_info list \<Rightarrow> pubkey list \<Rightarrow> u8 \<Rightarrow> u8" where
  "approval_loop accounts [] matched = matched"
| "approval_loop accounts (s # ss) matched =
     approval_loop accounts ss
       (if list_ex (\<lambda>ai. is_signer ai \<and> ai_key ai = s) accounts
        then saturating_add matched 1 else matched)"

definition count_approvals :: "admin_multisig \<Rightarrow> account_info list \<Rightarrow> u8" where
  "count_approvals ms accounts =
     (let n = min (unat (n_signers ms)) MAX_MULTISIG_SIGNERS
      in approval_loop accounts (take n (signers ms)) 0)"

definition check_threshold :: "admin_multisig \<Rightarrow> account_info list \<Rightarrow> unit result" where
  "check_threshold ms accounts =
     (if count_approvals ms accounts \<ge> threshold ms then Inr ()
      else err InsufficientMultisigApprovals)"

definition rotate :: "pubkey list \<Rightarrow> u8 \<Rightarrow> (admin_multisig, unit) prog" where
  "rotate sgs thr =
     seq (lift (check_multisig_config sgs thr))
     (modify (\<lambda>ms. ms\<lparr> signers := fill_array MAX_MULTISIG_SIGNERS default_pubkey sgs,
        n_signers := of_nat (length sgs), threshold := thr,
        ms_version := saturating_add (ms_version ms) 1 \<rparr>))"

interpretation signers: prefix_array signers n_signers MAX_MULTISIG_SIGNERS is_member
  by unfold_locales (auto simp: is_member_def list_ex_iff Let_def MAX_MULTISIG_SIGNERS_def)

section \<open>Configurations\<close>

definition multisig_wf :: "admin_multisig \<Rightarrow> bool" where
  "multisig_wf ms \<longleftrightarrow>
     (let n = unat (n_signers ms) in
      1 \<le> unat (threshold ms) \<and> unat (threshold ms) \<le> n \<and> n \<le> MAX_MULTISIG_SIGNERS \<and>
      length (signers ms) = MAX_MULTISIG_SIGNERS \<and> distinct (take n (signers ms)))"

lemma check_multisig_config_ok [ok_iff]:
  "check_multisig_config sgs thr = Inr u \<longleftrightarrow>
     length sgs \<le> 16 \<and> 1 \<le> unat thr \<and> unat thr \<le> length sgs \<and> distinct sgs"
  by (auto simp: check_multisig_config_def ok_iff MAX_MULTISIG_SIGNERS_def not_less unat_gt_0
      Suc_le_eq)

lemma rotate_ok [ok_iff]:
  "rotate sgs thr ms = (Inr u, ms') \<longleftrightarrow>
     check_multisig_config sgs thr = Inr () \<and>
     ms' = ms\<lparr> signers := fill_array 16 default_pubkey sgs, n_signers := of_nat (length sgs),
       threshold := thr, ms_version := saturating_add (ms_version ms) 1 \<rparr>"
  by (auto simp: rotate_def ok_iff MAX_MULTISIG_SIGNERS_def)

lemma unat_of_nat_u8: "n \<le> 16 \<Longrightarrow> unat (of_nat n :: u8) = n"
  by (simp add: unat_of_nat)

lemma new_multisig_wf:
  assumes "check_multisig_config sgs thr = Inr ()"
  shows "multisig_wf (new_admin_multisig b sgs thr bump)"
    and "is_member (new_admin_multisig b sgs thr bump) k \<longleftrightarrow> k \<in> set sgs"
proof -
  have l: "length sgs \<le> 16" and o: "1 \<le> unat thr" "unat thr \<le> length sgs" "distinct sgs"
    using assms by (simp_all add: check_multisig_config_ok)
  show "multisig_wf (new_admin_multisig b sgs thr bump)"
    using l o by (simp add: multisig_wf_def new_admin_multisig_def Let_def MAX_MULTISIG_SIGNERS_def
        unat_of_nat_u8 take_fill_array)
  show "is_member (new_admin_multisig b sgs thr bump) k \<longleftrightarrow> k \<in> set sgs"
    using l by (simp add: new_admin_multisig_def signers.mem_filled MAX_MULTISIG_SIGNERS_def)
qed

lemma rotate_wf:
  assumes "rotate sgs thr ms = (Inr u, ms')"
  shows "multisig_wf ms'" "threshold ms' = thr" "is_member ms' k \<longleftrightarrow> k \<in> set sgs"
proof -
  have l: "length sgs \<le> 16" and o: "1 \<le> unat thr" "unat thr \<le> length sgs" "distinct sgs"
    using assms by (simp_all add: rotate_ok check_multisig_config_ok)
  show "multisig_wf ms'" "threshold ms' = thr"
    using l o assms by (auto simp: multisig_wf_def rotate_ok Let_def MAX_MULTISIG_SIGNERS_def
        unat_of_nat_u8 take_fill_array)
  show "is_member ms' k \<longleftrightarrow> k \<in> set sgs"
    using l assms by (auto simp: rotate_ok signers.mem_filled [where xs = sgs] MAX_MULTISIG_SIGNERS_def)
qed

section \<open>Counting approvals\<close>

definition signed_by :: "account_info list \<Rightarrow> pubkey set" where
  "signed_by accounts = {k. \<exists>ai\<in>set accounts. is_signer ai \<and> ai_key ai = k}"

lemma approval_loop_count:
  "unat matched + length ss < 256 \<Longrightarrow>
   unat (approval_loop accounts ss matched) =
     unat matched + length (filter (\<lambda>s. s \<in> signed_by accounts) ss)"
proof (induction ss arbitrary: matched)
  case Nil
  then show ?case by simp
next
  case (Cons s ss)
  have hit: "list_ex (\<lambda>ai. is_signer ai \<and> ai_key ai = s) accounts \<longleftrightarrow> s \<in> signed_by accounts"
    by (auto simp: list_ex_iff signed_by_def)
  have "unat (saturating_add matched 1) = Suc (unat matched)"
    using Cons.prems by (simp add: saturating_add_def unat_add_small)
  with Cons show ?case by (simp add: hit)
qed

lemma count_approvals_card:
  assumes "multisig_wf ms"
  shows "unat (count_approvals ms accounts) = card {k. is_member ms k \<and> k \<in> signed_by accounts}"
proof -
  let ?n = "min (unat (n_signers ms)) MAX_MULTISIG_SIGNERS"
  let ?ks = "take ?n (signers ms)"
  have d: "distinct ?ks" using assms by (simp add: multisig_wf_def Let_def min_def)
  have "unat (count_approvals ms accounts) = length (filter (\<lambda>s. s \<in> signed_by accounts) ?ks)"
    unfolding count_approvals_def Let_def
    by (subst approval_loop_count) (simp_all add: MAX_MULTISIG_SIGNERS_def)
  also have "\<dots> = card (set (filter (\<lambda>s. s \<in> signed_by accounts) ?ks))"
    by (rule distinct_card [symmetric]) (rule distinct_filter [OF d])
  also have "set (filter (\<lambda>s. s \<in> signed_by accounts) ?ks) =
      {k. is_member ms k \<and> k \<in> signed_by accounts}"
    by (auto simp: signers.mem_iff)
  finally show ?thesis .
qed

lemma check_threshold_card:
  assumes "multisig_wf ms"
  shows "check_threshold ms accounts = Inr u \<longleftrightarrow>
    unat (threshold ms) \<le> card {k. is_member ms k \<and> k \<in> signed_by accounts}"
  by (simp add: check_threshold_def word_le_nat_alt count_approvals_card [OF assms])

end
