(* ===== verification/Config_State.thy ===== *)
theory Config_State
  imports Errors
begin

text \<open>
  The small configuration records: the program configuration, the attestation nonce of a
  market and the timelock proposal (\<open>program_config.rs\<close>, \<open>market_nonce.rs\<close> and
  \<open>timelock.rs\<close> under \<open>src/state\<close>).
\<close>

section \<open>Program configuration\<close>

record program_config =
  global_pause :: u8
  pc_bump :: u8
  admin :: pubkey
  fee_treasury_authority :: pubkey
  attestation_signer :: pubkey
  default_max_staleness_secs :: u64

definition PROGRAM_CONFIG_LEN :: nat where
  "PROGRAM_CONFIG_LEN = 1 + 1 + 1 + 5 + 32 + 32 + 32 + 8 + 64"

definition new_program_config :: "pubkey \<Rightarrow> pubkey \<Rightarrow> pubkey \<Rightarrow> u64 \<Rightarrow> u8 \<Rightarrow> program_config" where
  "new_program_config adm signer treasury_authority staleness bump =
     \<lparr> global_pause = 0, pc_bump = bump, admin = adm, fee_treasury_authority = treasury_authority,
       attestation_signer = signer, default_max_staleness_secs = staleness \<rparr>"

section \<open>Market nonce\<close>

record market_nonce =
  is_resolved :: u8
  mn_bump :: u8
  mn_market_id :: "u8 list"
  last_accepted_cre_nonce :: u64
  last_accepted_twap_fp :: u64
  last_accepted_ts :: u64
  final_outcome_bps :: u16

definition MARKET_NONCE_LEN :: nat where
  "MARKET_NONCE_LEN = 1 + 1 + 1 + 5 + 32 + 8 + 8 + 8 + 2 + 6 + 32"

definition new_market_nonce :: "u8 list \<Rightarrow> u8 \<Rightarrow> market_nonce" where
  "new_market_nonce market bump =
     \<lparr> is_resolved = 0, mn_bump = bump, mn_market_id = market, last_accepted_cre_nonce = 0,
       last_accepted_twap_fp = 0, last_accepted_ts = 0, final_outcome_bps = 0 \<rparr>"

section \<open>Timelock proposal\<close>

record timelock_proposal =
  tl_kind :: u8
  tl_status :: u8
  tl_bump :: u8
  proposal_id :: u64
  proposer :: pubkey
  tl_payload :: "u8 list"
  proposed_slot :: u64
  proposed_unix_ts :: i64
  executable_after_unix_ts :: i64

definition TL_KIND_SET_ATTESTATION_SIGNER :: u8 where "TL_KIND_SET_ATTESTATION_SIGNER = 1"
definition TL_STATUS_PENDING :: u8 where "TL_STATUS_PENDING = 0"
definition TL_STATUS_EXECUTED :: u8 where "TL_STATUS_EXECUTED = 1"
definition TL_STATUS_CANCELLED :: u8 where "TL_STATUS_CANCELLED = 2"

definition TIMELOCK_DELAY_SECS :: i64 where "TIMELOCK_DELAY_SECS = 24 * 60 * 60"

definition TIMELOCK_PROPOSAL_LEN :: nat where
  "TIMELOCK_PROPOSAL_LEN = 1 + 1 + 1 + 1 + 4 + 8 + 32 + 64 + 8 + 8 + 8 + 32"

definition new_signer :: "timelock_proposal \<Rightarrow> u8 list" where
  "new_signer p = take 32 (tl_payload p)"

definition set_new_signer :: "u8 list \<Rightarrow> timelock_proposal \<Rightarrow> timelock_proposal" where
  "set_new_signer v p = p\<lparr> tl_payload := v @ drop 32 (tl_payload p) \<rparr>"

lemmas tl_consts = TL_KIND_SET_ATTESTATION_SIGNER_def TL_STATUS_PENDING_def
  TL_STATUS_EXECUTED_def TL_STATUS_CANCELLED_def

lemma new_signer_set: "length v = 32 \<Longrightarrow> new_signer (set_new_signer v p) = v"
  by (simp add: new_signer_def set_new_signer_def)

end
