(* ===== verification/Instrument_Config.thy ===== *)
theory Instrument_Config
  imports Errors
begin

text \<open>
  The configuration of a tradable instrument (\<open>src/state/instrument_config.rs\<close>): its record,
  the status check, the validation of a bucket configuration and of the market-data source.
\<close>

record instrument_config =
  ic_status :: u8
  ic_bump :: u8
  ic_source :: u8
  ic_market_id :: "u8 list"
  source_token_id_a :: "u8 list"
  source_token_id_b :: "u8 list"
  ic_mint :: pubkey
  ic_book :: pubkey
  ic_leverage_bps :: u32
  collateral_bucket :: u64
  twap_window_slots :: u64
  tick_fp :: u64
  liquidation_bps :: u32
  liquidation_bounty_bps :: u16
  max_staleness_secs :: u64
  reference_usd :: u64

definition STATUS_ACTIVE :: u8 where "STATUS_ACTIVE = 0"
definition STATUS_PAUSED :: u8 where "STATUS_PAUSED = 1"
definition STATUS_CLOSED :: u8 where "STATUS_CLOSED = 2"

definition ALLOWED_LEVERAGE_BPS :: "u32 list" where
  "ALLOWED_LEVERAGE_BPS = [20000, 50000, 100000, 200000, 400000, 1000000, 2500000, 10000000]"

definition POLYMARKET :: u8 where "POLYMARKET = 0"
definition PYTH :: u8 where "PYTH = 3"

definition is_known :: "u8 \<Rightarrow> bool" where
  "is_known s \<longleftrightarrow> s = POLYMARKET \<or> s = PYTH"

definition INSTRUMENT_CONFIG_LEN :: nat where
  "INSTRUMENT_CONFIG_LEN =
     1 + 1 + 1 + 1 + 4 + 32 + 32 + 32 + 32 + 32 + 4 + 4 + 8 + 8 + 8 + 4 + 2 + 2 + 8 + 8 + 40"

definition require_active :: "instrument_config \<Rightarrow> unit result" where
  "require_active c = (if ic_status c \<noteq> STATUS_ACTIVE then err InstrumentPaused else Inr ())"

definition validate_bucket_config :: "u32 \<Rightarrow> u64 \<Rightarrow> u64 \<Rightarrow> unit result" where
  "validate_bucket_config leverage bucket tick =
     (if \<not> list_ex (\<lambda>l. l = leverage) ALLOWED_LEVERAGE_BPS then err InvalidLeverageBucket
      else if bucket = 0 then err InvalidCollateralBucket
      else if tick = 0 then err PriceNotTickAligned
      else Inr ())"

definition instrument_init ::
  "u8 \<Rightarrow> u8 list \<Rightarrow> u8 list \<Rightarrow> u8 list \<Rightarrow> pubkey \<Rightarrow> pubkey \<Rightarrow> u32 \<Rightarrow> u64 \<Rightarrow> u64 \<Rightarrow> u64 \<Rightarrow> u32 \<Rightarrow> u16 \<Rightarrow>
   u64 \<Rightarrow> u64 \<Rightarrow> u8 \<Rightarrow> instrument_config result" where
  "instrument_init src market tok_a tok_b mint book leverage bucket window tick liq_bps bounty_bps
       staleness reference bump =
     (if \<not> is_known src then err InvalidInstructionData
      else if src = PYTH \<and> reference = 0 then err InvalidInstructionData
      else if src = POLYMARKET \<and> reference \<noteq> 0 then err InvalidInstructionData
      else try_res (validate_bucket_config leverage bucket tick) (\<lambda>_. Inr
        \<lparr> ic_status = STATUS_ACTIVE, ic_bump = bump, ic_source = src, ic_market_id = market,
          source_token_id_a = tok_a, source_token_id_b = tok_b, ic_mint = mint, ic_book = book,
          ic_leverage_bps = leverage, collateral_bucket = bucket, twap_window_slots = window,
          tick_fp = tick, liquidation_bps = liq_bps, liquidation_bounty_bps = bounty_bps,
          max_staleness_secs = staleness, reference_usd = reference \<rparr>))"

lemma require_active_ok [ok_iff]: "require_active c = Inr u \<longleftrightarrow> ic_status c = STATUS_ACTIVE"
  by (simp add: require_active_def)

lemma validate_bucket_config_ok [ok_iff]:
  "validate_bucket_config l b t = Inr u \<longleftrightarrow> l \<in> set ALLOWED_LEVERAGE_BPS \<and> b \<noteq> 0 \<and> t \<noteq> 0"
  by (auto simp: validate_bucket_config_def list_ex_iff)

text \<open>What every initialized instrument satisfies.\<close>

definition instrument_wf :: "instrument_config \<Rightarrow> bool" where
  "instrument_wf c \<longleftrightarrow> ic_leverage_bps c \<in> set ALLOWED_LEVERAGE_BPS \<and> collateral_bucket c \<noteq> 0 \<and>
     tick_fp c \<noteq> 0 \<and> is_known (ic_source c) \<and> (reference_usd c = 0 \<longleftrightarrow> ic_source c = POLYMARKET)"

lemma instrument_init_wf:
  "instrument_init src mk ta tb mi bo lev buck win ti lb bb st rf bump = Inr c \<Longrightarrow>
   instrument_wf c \<and> ic_status c = STATUS_ACTIVE"
  by (auto simp: instrument_init_def instrument_wf_def is_known_def PYTH_def POLYMARKET_def
      ok_iff split: if_splits)

end
