(* ===== verification/Pmlc_State.thy ===== *)
theory Pmlc_State
  imports Errors
begin

text \<open>
  A pairwise matched leverage contract (\<open>src/state/pmlc.rs\<close>): the record, the status and
  close-reason codes, and the split of the 128-bit position size into two 64-bit halves.
\<close>

unbundle bit_operations_syntax

record pmlc =
  pm_status :: u8
  close_reason :: u8
  pm_flags :: u8
  pm_bump :: u8
  pm_id :: u64
  pm_instrument :: pubkey
  pm_mint :: pubkey
  pm_market_id :: "u8 list"
  long_owner :: pubkey
  short_owner :: pubkey
  collateral_per_side :: u64
  pm_leverage_bps :: u32
  entry_price_fp :: u64
  pm_notional_atoms :: u64
  size_fp_lo :: u64
  size_fp_hi :: u64
  opened_slot :: u64
  last_mark_slot :: u64
  long_reentry_price_fp :: u64
  short_reentry_price_fp :: u64

definition PMLC_STATUS_LIVE :: u8 where "PMLC_STATUS_LIVE = 0"
definition PMLC_STATUS_CLOSED :: u8 where "PMLC_STATUS_CLOSED = 1"
definition PMLC_STATUS_LIQUIDATED :: u8 where "PMLC_STATUS_LIQUIDATED = 2"
definition PMLC_STATUS_RESOLVED :: u8 where "PMLC_STATUS_RESOLVED = 3"

definition CLOSE_REASON_NONE :: u8 where "CLOSE_REASON_NONE = 0"
definition CLOSE_REASON_LIQUIDATED :: u8 where "CLOSE_REASON_LIQUIDATED = 1"
definition CLOSE_REASON_RESOLVED :: u8 where "CLOSE_REASON_RESOLVED = 2"
definition CLOSE_REASON_MUTUAL :: u8 where "CLOSE_REASON_MUTUAL = 3"

definition PMLC_FLAG_LONG_REENTRY :: u8 where "PMLC_FLAG_LONG_REENTRY = 1"
definition PMLC_FLAG_SHORT_REENTRY :: u8 where "PMLC_FLAG_SHORT_REENTRY = 2"

definition PMLC_LEN :: nat where
  "PMLC_LEN = 1 + 1 + 1 + 1 + 1 + 3 + 8 + 32 + 32 + 32 + 32 + 32 + 8 + 4 + 4 + 8 + 8 + 8 + 8 + 8 +
     8 + 8 + 8 + 48"

lemmas pmlc_consts = PMLC_STATUS_LIVE_def PMLC_STATUS_CLOSED_def PMLC_STATUS_LIQUIDATED_def
  PMLC_STATUS_RESOLVED_def CLOSE_REASON_NONE_def CLOSE_REASON_LIQUIDATED_def
  CLOSE_REASON_RESOLVED_def CLOSE_REASON_MUTUAL_def PMLC_FLAG_LONG_REENTRY_def
  PMLC_FLAG_SHORT_REENTRY_def

definition size_fp :: "pmlc \<Rightarrow> u128" where
  "size_fp p = push_bit 64 (ucast (size_fp_hi p)) OR ucast (size_fp_lo p)"

definition set_size_fp :: "u128 \<Rightarrow> pmlc \<Rightarrow> pmlc" where
  "set_size_fp value p = p\<lparr> size_fp_lo := ucast value, size_fp_hi := ucast (drop_bit 64 value) \<rparr>"

definition require_live :: "pmlc \<Rightarrow> unit result" where
  "require_live p = (if pm_status p \<noteq> PMLC_STATUS_LIVE then err PmlcNotLive else Inr ())"

lemma require_live_ok [ok_iff]: "require_live p = Inr u \<longleftrightarrow> pm_status p = PMLC_STATUS_LIVE"
  by (simp add: require_live_def)

lemma size_fp_set: "size_fp (set_size_fp v p) = v"
  unfolding size_fp_def set_size_fp_def
  by (rule bit_word_eqI) (auto simp: bit_simps)

end
