(* ===== verification/Intent_Book.thy ===== *)
theory Intent_Book
  imports Errors
begin

text \<open>
  The intent book account (\<open>src/state/intent_book.rs\<close>): header, node pool, allocator and typed
  node access. A slot of the pool is 96 bytes whose first byte selects its view; the model
  has one constructor per view. Reading the \<open>next_free\<close> word of a slot that holds an intent or
  a seat reads bytes 4 to 8 of it, which is its left child, as the code would.
\<close>

section \<open>Data\<close>

definition NODE_SIZE :: nat where "NODE_SIZE = 96"
definition RB_RED :: u8 where "RB_RED = 0"
definition RB_BLACK :: u8 where "RB_BLACK = 1"
definition INTENT_FLAG_REENTRY :: u8 where "INTENT_FLAG_REENTRY = 1"
definition SIDE_LONG :: u8 where "SIDE_LONG = 0"
definition SIDE_SHORT :: u8 where "SIDE_SHORT = 1"
definition NULL_IDX :: u32 where "NULL_IDX = 0"

record intent_node =
  in_side :: u8
  in_color :: u8
  in_flags :: u8
  in_left :: u32
  in_right :: u32
  in_parent :: u32
  price_limit_fp :: u64
  intent_id :: u64
  owner_seat :: u32
  contracts_total :: u16
  contracts_remaining :: u16
  expiration_slot :: u64
  post_seq :: u64
  intent_reserved :: u64
  fee_buffer :: u64

record seat_node =
  sn_color :: u8
  sn_left :: u32
  sn_right :: u32
  sn_parent :: u32
  trader :: pubkey
  active_intent_count :: u32
  sn_flags :: u32

datatype node = NFree u32 | NIntent intent_node | NSeat seat_node

record book =
  bk_bump :: u8
  bk_instrument :: pubkey
  long_tree_root :: u32
  short_tree_root :: u32
  seat_tree_root :: u32
  freelist_head :: u32
  node_count :: u32
  bk_capacity :: u32
  bk_next_intent_id :: u64
  bk_next_seq :: u64
  cached_max_fee_bps :: u16
  bk_nodes :: "node list"

definition INTENT_BOOK_HEADER_LEN :: nat where
  "INTENT_BOOK_HEADER_LEN = 1 + 1 + 6 + 32 + 4 + 4 + 4 + 4 + 4 + 4 + 8 + 8 + 2 + 6 + 32"

definition intent_book_byte_size :: "u32 \<Rightarrow> nat" where
  "intent_book_byte_size capacity = INTENT_BOOK_HEADER_LEN + unat capacity * NODE_SIZE"

definition new_intent_book :: "pubkey \<Rightarrow> u32 \<Rightarrow> u8 \<Rightarrow> u16 \<Rightarrow> book" where
  "new_intent_book instrument capacity bump max_fee =
     \<lparr> bk_bump = bump, bk_instrument = instrument, long_tree_root = NULL_IDX,
       short_tree_root = NULL_IDX, seat_tree_root = NULL_IDX, freelist_head = NULL_IDX,
       node_count = 1, bk_capacity = capacity, bk_next_intent_id = 1, bk_next_seq = 1,
       cached_max_fee_bps = max_fee, bk_nodes = replicate (unat capacity) (NFree 0) \<rparr>"

section \<open>The node allocator\<close>

text \<open>Bytes 4 to 8 of a slot, seen as a free node.\<close>

primrec next_free :: "node \<Rightarrow> u32" where
  "next_free (NFree n) = n"
| "next_free (NIntent i) = in_left i"
| "next_free (NSeat s) = sn_left s"

definition alloc_node :: "(book, u32) prog" where
  "alloc_node = bnd (gets (\<lambda>b. b)) (\<lambda>b.
     if freelist_head b \<noteq> NULL_IDX then
       let idx = freelist_head b in
       seq (require (unat idx < length (bk_nodes b)) Panicked)
       (seq (modify (\<lambda>b. b\<lparr> freelist_head := next_free (bk_nodes b ! unat idx) \<rparr>))
       (ret idx))
     else
       seq (ensure (\<not> node_count b \<ge> bk_capacity b) IntentBookFull)
       (let idx = node_count b in
        bnd (lift (ok_or_err (checked_add (node_count b) 1) ArithmeticOverflow)) (\<lambda>n.
        seq (modify (\<lambda>b. b\<lparr> node_count := n \<rparr>)) (ret idx))))"

definition free_node :: "u32 \<Rightarrow> (book, unit) prog" where
  "free_node idx = bnd (gets (\<lambda>b. b)) (\<lambda>b.
     seq (require (\<not> (idx = NULL_IDX \<or> unat idx \<ge> length (bk_nodes b))) InvalidAccountData)
     (modify (\<lambda>b. b\<lparr> bk_nodes := (bk_nodes b)[unat idx := NFree (freelist_head b)],
                     freelist_head := idx \<rparr>)))"

section \<open>Typed node access\<close>

primrec as_intent :: "node \<Rightarrow> intent_node option" where
  "as_intent (NFree n) = None"
| "as_intent (NIntent i) = Some i"
| "as_intent (NSeat s) = None"

primrec as_seat :: "node \<Rightarrow> seat_node option" where
  "as_seat (NFree n) = None"
| "as_seat (NIntent i) = None"
| "as_seat (NSeat s) = Some s"

definition intent :: "book \<Rightarrow> u32 \<Rightarrow> intent_node result" where
  "intent b idx =
     (if unat idx < length (bk_nodes b)
      then ok_or_err (as_intent (bk_nodes b ! unat idx)) IntentNotFound
      else Inl InvalidAccountData)"

definition seat :: "book \<Rightarrow> u32 \<Rightarrow> seat_node result" where
  "seat b idx =
     (if unat idx < length (bk_nodes b)
      then ok_or_err (as_seat (bk_nodes b ! unat idx)) IntentNotFound
      else Inl InvalidAccountData)"

definition put_node :: "u32 \<Rightarrow> node \<Rightarrow> book \<Rightarrow> book" where
  "put_node idx n b = b\<lparr> bk_nodes := (bk_nodes b)[unat idx := n] \<rparr>"

text \<open>\<open>intent_mut\<close> and \<open>seat_mut\<close>: the caller's write through the reference is the function argument.\<close>

definition intent_mut :: "u32 \<Rightarrow> (intent_node \<Rightarrow> intent_node) \<Rightarrow> (book, unit) prog" where
  "intent_mut idx f = bnd (gets (\<lambda>b. intent b idx)) (\<lambda>r. bnd (lift r) (\<lambda>i.
     modify (put_node idx (NIntent (f i)))))"

definition seat_mut :: "u32 \<Rightarrow> (seat_node \<Rightarrow> seat_node) \<Rightarrow> (book, unit) prog" where
  "seat_mut idx f = bnd (gets (\<lambda>b. seat b idx)) (\<lambda>r. bnd (lift r) (\<lambda>i.
     modify (put_node idx (NSeat (f i)))))"

definition write_intent :: "u32 \<Rightarrow> intent_node \<Rightarrow> (book, unit) prog" where
  "write_intent idx n = bnd (gets (\<lambda>b. length (bk_nodes b))) (\<lambda>len.
     seq (require (unat idx < len) InvalidAccountData) (modify (put_node idx (NIntent n))))"

definition write_seat :: "u32 \<Rightarrow> seat_node \<Rightarrow> (book, unit) prog" where
  "write_seat idx n = bnd (gets (\<lambda>b. length (bk_nodes b))) (\<lambda>len.
     seq (require (unat idx < len) InvalidAccountData) (modify (put_node idx (NSeat n))))"

definition next_seq :: "(book, u64) prog" where
  "next_seq = bnd (gets bk_next_seq) (\<lambda>s.
     bnd (lift (ok_or_err (checked_add s 1) ArithmeticOverflow)) (\<lambda>n.
     seq (modify (\<lambda>b. b\<lparr> bk_next_seq := n \<rparr>)) (ret s)))"

definition next_intent_id :: "(book, u64) prog" where
  "next_intent_id = bnd (gets bk_next_intent_id) (\<lambda>i.
     bnd (lift (ok_or_err (checked_add i 1) ArithmeticOverflow)) (\<lambda>n.
     seq (modify (\<lambda>b. b\<lparr> bk_next_intent_id := n \<rparr>)) (ret i)))"

section \<open>Effects of the operations\<close>

lemma alloc_node_ok [ok_iff]:
  "alloc_node b = (Inr i, b') \<longleftrightarrow>
     (if freelist_head b \<noteq> 0
      then i = freelist_head b \<and> unat i < length (bk_nodes b) \<and>
           b' = b\<lparr> freelist_head := next_free (bk_nodes b ! unat i) \<rparr>
      else i = node_count b \<and> node_count b < bk_capacity b \<and>
           (\<exists>n. unat n = Suc (unat (node_count b)) \<and> b' = b\<lparr> node_count := n \<rparr>))"
  by (auto simp: alloc_node_def ok_iff arith_iff NULL_IDX_def Let_def not_le)

lemma free_node_ok [ok_iff]:
  "free_node i b = (Inr u, b') \<longleftrightarrow>
     i \<noteq> 0 \<and> unat i < length (bk_nodes b) \<and>
     b' = b\<lparr> bk_nodes := (bk_nodes b)[unat i := NFree (freelist_head b)], freelist_head := i \<rparr>"
  by (auto simp: free_node_def ok_iff NULL_IDX_def)

lemma as_intent_Some [simp]: "as_intent n = Some i \<longleftrightarrow> n = NIntent i"
  by (cases n) auto

lemma as_seat_Some [simp]: "as_seat n = Some i \<longleftrightarrow> n = NSeat i"
  by (cases n) auto

lemma intent_ok [ok_iff]:
  "intent b i = Inr n \<longleftrightarrow> unat i < length (bk_nodes b) \<and> bk_nodes b ! unat i = NIntent n"
  by (auto simp: intent_def ok_iff)

lemma seat_ok [ok_iff]:
  "seat b i = Inr n \<longleftrightarrow> unat i < length (bk_nodes b) \<and> bk_nodes b ! unat i = NSeat n"
  by (auto simp: seat_def ok_iff)

lemma intent_mut_ok [ok_iff]:
  "intent_mut i f b = (Inr u, b') \<longleftrightarrow> (\<exists>n. intent b i = Inr n \<and> b' = put_node i (NIntent (f n)) b)"
  by (auto simp: intent_mut_def ok_iff)

lemma seat_mut_ok [ok_iff]:
  "seat_mut i f b = (Inr u, b') \<longleftrightarrow> (\<exists>n. seat b i = Inr n \<and> b' = put_node i (NSeat (f n)) b)"
  by (auto simp: seat_mut_def ok_iff)

lemma write_intent_ok [ok_iff]:
  "write_intent i n b = (Inr u, b') \<longleftrightarrow> unat i < length (bk_nodes b) \<and> b' = put_node i (NIntent n) b"
  by (auto simp: write_intent_def ok_iff)

lemma write_seat_ok [ok_iff]:
  "write_seat i n b = (Inr u, b') \<longleftrightarrow> unat i < length (bk_nodes b) \<and> b' = put_node i (NSeat n) b"
  by (auto simp: write_seat_def ok_iff)

lemma next_seq_ok [ok_iff]:
  "next_seq b = (Inr s, b') \<longleftrightarrow>
     s = bk_next_seq b \<and> (\<exists>n. unat n = Suc (unat s) \<and> b' = b\<lparr> bk_next_seq := n \<rparr>)"
  by (auto simp: next_seq_def ok_iff arith_iff)

lemma next_intent_id_ok [ok_iff]:
  "next_intent_id b = (Inr s, b') \<longleftrightarrow>
     s = bk_next_intent_id b \<and> (\<exists>n. unat n = Suc (unat s) \<and> b' = b\<lparr> bk_next_intent_id := n \<rparr>)"
  by (auto simp: next_intent_id_def ok_iff arith_iff)

end
