(* ===== verification/Runtime.thy ===== *)
theory Runtime
  imports Account_Info Margin_Account Fee_Schedule Fee_Treasury User_Volume Session_State
    Bucket_Registry Stablecoin_Registry Admin_Multisig Config_State Instrument_Config
    Pmlc_State Intent_Book
begin

text \<open>
  The world the handlers run in. The ledger maps a key to an account: its owner program, its
  lamports and its data. Account data is one constructor per structure of the program
  (\<open>src/state\<close>), or the raw bytes of anything else: a byte image whose length and first byte are
  those of a program structure is always written with that structure's constructor, so that
  \<open>DRaw\<close> stands for an empty account, a freshly allocated (zeroed) one, and foreign data. The
  loaders of the state files (\<open>load\<close>, \<open>load_mut\<close> over \<open>pod::try_cast_ref\<close>) compare the length
  first and the discriminator second.

  What is not under \<open>src/\<close> is the record \<open>env\<close>: the program's own id, the clock, address
  derivation, the associated token address, unpacking of token accounts and mints, rent, the
  instructions sysvar, and the calls into the system and token programs. A handler is a
  computation over the ledger; \<open>run_instruction\<close> restores the ledger when it fails, as the
  runtime does. The checks the runtime makes after an instruction (only writable accounts of
  the program changed, lamports balanced) are not modelled: they can only turn a success into
  a failure.
\<close>

section \<open>Account data\<close>

datatype (plugins only: code size) acct_data =
    DRaw "u8 list"
  | DConfig program_config
  | DMargin margin_account
  | DInstrument instrument_config
  | DBook book
  | DPmlc pmlc
  | DNonce market_nonce
  | DFeeSchedule fee_schedule
  | DUserVolume user_volume
  | DTreasury fee_treasury
  | DTimelock timelock_proposal
  | DMultisig admin_multisig
  | DBuckets bucket_registry
  | DStablecoins stablecoin_registry
  | DSession session

primrec data_len :: "acct_data \<Rightarrow> nat" where
  "data_len (DRaw bs) = length bs"
| "data_len (DConfig x) = PROGRAM_CONFIG_LEN"
| "data_len (DMargin x) = MARGIN_ACCOUNT_LEN"
| "data_len (DInstrument x) = INSTRUMENT_CONFIG_LEN"
| "data_len (DBook b) = INTENT_BOOK_HEADER_LEN + NODE_SIZE * length (bk_nodes b)"
| "data_len (DPmlc x) = PMLC_LEN"
| "data_len (DNonce x) = MARKET_NONCE_LEN"
| "data_len (DFeeSchedule x) = FEE_SCHEDULE_LEN"
| "data_len (DUserVolume x) = USER_VOLUME_LEN"
| "data_len (DTreasury x) = FEE_TREASURY_LEN"
| "data_len (DTimelock x) = TIMELOCK_PROPOSAL_LEN"
| "data_len (DMultisig x) = ADMIN_MULTISIG_LEN"
| "data_len (DBuckets x) = BUCKET_REGISTRY_LEN"
| "data_len (DStablecoins x) = STABLECOIN_REGISTRY_LEN"
| "data_len (DSession x) = SESSION_LEN"

text \<open>The discriminators (\<open>src/state/mod.rs\<close> and the state files); the first byte of the data.\<close>

definition first_byte :: "u8 list \<Rightarrow> u8" where
  "first_byte bs = (case bs of [] \<Rightarrow> 0 | b # _ \<Rightarrow> b)"

primrec discriminator :: "acct_data \<Rightarrow> u8" where
  "discriminator (DRaw bs) = first_byte bs"
| "discriminator (DConfig x) = 1"
| "discriminator (DMargin x) = 2"
| "discriminator (DInstrument x) = 3"
| "discriminator (DBook x) = 4"
| "discriminator (DPmlc x) = 5"
| "discriminator (DNonce x) = 8"
| "discriminator (DFeeSchedule x) = 10"
| "discriminator (DUserVolume x) = 11"
| "discriminator (DTreasury x) = 12"
| "discriminator (DTimelock x) = 13"
| "discriminator (DMultisig x) = 14"
| "discriminator (DBuckets x) = 15"
| "discriminator (DStablecoins x) = 16"
| "discriminator (DSession x) = 17"

section \<open>Loading and initialising\<close>

definition cast_check :: "nat \<Rightarrow> acct_data \<Rightarrow> unit result" where
  "cast_check len d = check (data_len d = len) AccountDataTooSmall"

definition load_config :: "acct_data \<Rightarrow> program_config result" where
  "load_config d = try_res (cast_check PROGRAM_CONFIG_LEN d) (\<lambda>_.
     case d of DConfig x \<Rightarrow> Inr x | _ \<Rightarrow> err InvalidProgramConfig)"

definition load_margin :: "acct_data \<Rightarrow> margin_account result" where
  "load_margin d = try_res (cast_check MARGIN_ACCOUNT_LEN d) (\<lambda>_.
     case d of DMargin x \<Rightarrow> Inr x | _ \<Rightarrow> err NotInitialized)"

definition load_instrument :: "acct_data \<Rightarrow> instrument_config result" where
  "load_instrument d = try_res (cast_check INSTRUMENT_CONFIG_LEN d) (\<lambda>_.
     case d of DInstrument x \<Rightarrow> Inr x | _ \<Rightarrow> err NotInitialized)"

definition load_book :: "acct_data \<Rightarrow> book result" where
  "load_book d = try_res (check (\<not> data_len d < INTENT_BOOK_HEADER_LEN) AccountDataTooSmall) (\<lambda>_.
     case d of DBook x \<Rightarrow> Inr x
     | DRaw bs \<Rightarrow> if first_byte bs = 4 then err AccountDataTooSmall else err NotInitialized
     | _ \<Rightarrow> err NotInitialized)"

definition load_pmlc :: "acct_data \<Rightarrow> pmlc result" where
  "load_pmlc d = try_res (cast_check PMLC_LEN d) (\<lambda>_.
     case d of DPmlc x \<Rightarrow> Inr x | _ \<Rightarrow> err NotInitialized)"

definition load_nonce :: "acct_data \<Rightarrow> market_nonce result" where
  "load_nonce d = try_res (cast_check MARKET_NONCE_LEN d) (\<lambda>_.
     case d of DNonce x \<Rightarrow> Inr x | _ \<Rightarrow> err NotInitialized)"

definition load_fee_schedule :: "acct_data \<Rightarrow> fee_schedule result" where
  "load_fee_schedule d = try_res (cast_check FEE_SCHEDULE_LEN d) (\<lambda>_.
     case d of DFeeSchedule x \<Rightarrow> Inr x | _ \<Rightarrow> err FeeScheduleNotInitialized)"

definition load_user_volume :: "acct_data \<Rightarrow> user_volume result" where
  "load_user_volume d = try_res (cast_check USER_VOLUME_LEN d) (\<lambda>_.
     case d of DUserVolume x \<Rightarrow> Inr x | _ \<Rightarrow> err NotInitialized)"

definition load_treasury :: "acct_data \<Rightarrow> fee_treasury result" where
  "load_treasury d = try_res (cast_check FEE_TREASURY_LEN d) (\<lambda>_.
     case d of DTreasury x \<Rightarrow> Inr x | _ \<Rightarrow> err NotInitialized)"

definition load_timelock :: "acct_data \<Rightarrow> timelock_proposal result" where
  "load_timelock d = try_res (cast_check TIMELOCK_PROPOSAL_LEN d) (\<lambda>_.
     case d of DTimelock x \<Rightarrow> Inr x | _ \<Rightarrow> err NotInitialized)"

definition load_multisig :: "acct_data \<Rightarrow> admin_multisig result" where
  "load_multisig d = try_res (cast_check ADMIN_MULTISIG_LEN d) (\<lambda>_.
     case d of DMultisig x \<Rightarrow> Inr x | _ \<Rightarrow> err NotInitialized)"

definition load_buckets :: "acct_data \<Rightarrow> bucket_registry result" where
  "load_buckets d = try_res (cast_check BUCKET_REGISTRY_LEN d) (\<lambda>_.
     case d of DBuckets x \<Rightarrow> Inr x | _ \<Rightarrow> err NotInitialized)"

definition load_stablecoins :: "acct_data \<Rightarrow> stablecoin_registry result" where
  "load_stablecoins d = try_res (cast_check STABLECOIN_REGISTRY_LEN d) (\<lambda>_.
     case d of DStablecoins x \<Rightarrow> Inr x | _ \<Rightarrow> err NotInitialized)"

definition load_session :: "acct_data \<Rightarrow> session result" where
  "load_session d = try_res (cast_check SESSION_LEN d) (\<lambda>_.
     case d of DSession x \<Rightarrow> Inr x | _ \<Rightarrow> err NotInitialized)"

text \<open>The common head of the \<open>init\<close> functions: exact length, and a zero discriminator.\<close>

definition blank_check :: "nat \<Rightarrow> acct_data \<Rightarrow> unit result" where
  "blank_check len d = try_res (cast_check len d) (\<lambda>_. check (discriminator d = 0) AlreadyInitialized)"

lemma load_oks [ok_iff]:
  "load_config d = Inr c1 \<longleftrightarrow> d = DConfig c1"
  "load_margin d = Inr c2 \<longleftrightarrow> d = DMargin c2"
  "load_instrument d = Inr c3 \<longleftrightarrow> d = DInstrument c3"
  "load_book d = Inr c4 \<longleftrightarrow> d = DBook c4"
  "load_pmlc d = Inr c5 \<longleftrightarrow> d = DPmlc c5"
  "load_nonce d = Inr c6 \<longleftrightarrow> d = DNonce c6"
  "load_fee_schedule d = Inr c7 \<longleftrightarrow> d = DFeeSchedule c7"
  "load_user_volume d = Inr c8 \<longleftrightarrow> d = DUserVolume c8"
  "load_treasury d = Inr c9 \<longleftrightarrow> d = DTreasury c9"
  "load_timelock d = Inr c10 \<longleftrightarrow> d = DTimelock c10"
  "load_multisig d = Inr c11 \<longleftrightarrow> d = DMultisig c11"
  "load_buckets d = Inr c12 \<longleftrightarrow> d = DBuckets c12"
  "load_stablecoins d = Inr c13 \<longleftrightarrow> d = DStablecoins c13"
  "load_session d = Inr c14 \<longleftrightarrow> d = DSession c14"
  by (cases d; auto simp: load_config_def load_margin_def load_instrument_def load_book_def
      load_pmlc_def load_nonce_def load_fee_schedule_def load_user_volume_def load_treasury_def
      load_timelock_def load_multisig_def load_buckets_def load_stablecoins_def load_session_def
      cast_check_def check_def try_res_def)+

section \<open>The ledger and the environment\<close>

record account =
  acc_owner :: pubkey
  acc_lamports :: u64
  acc_data :: acct_data

type_synonym world = "pubkey \<Rightarrow> account"
type_synonym 'a handler = "(world, 'a) prog"

text \<open>The calls the program makes into the system and the token program, with their arguments.\<close>

datatype cpi_call =
    CreateAccount pubkey pubkey u64 nat pubkey   \<comment> \<open>payer, new account, lamports, space, owner\<close>
  | SystemTransfer pubkey pubkey u64             \<comment> \<open>from, to, lamports\<close>
  | TokenTransfer pubkey pubkey pubkey u64       \<comment> \<open>source, destination, authority, amount\<close>
  | TokenMintTo pubkey pubkey pubkey u64         \<comment> \<open>mint, destination, authority, amount\<close>
  | TokenBurn pubkey pubkey pubkey u64           \<comment> \<open>account, mint, authority, amount\<close>
  | InitializeMint2 pubkey pubkey u8             \<comment> \<open>mint, authority, decimals\<close>

record token_account =
  token_mint :: pubkey
  token_owner :: pubkey
  token_amount :: u64

type_synonym seeds = "u8 list list"

record env =
  program_id :: pubkey
  system_program_id :: pubkey
  token_program_id :: pubkey
  sysvar_instructions_id :: pubkey
  clock_slot :: u64
  clock_unix_timestamp :: i64
  find_program_address :: "seeds \<Rightarrow> pubkey \<times> u8"
  get_associated_token_address :: "pubkey \<Rightarrow> pubkey \<Rightarrow> pubkey"
  unpack_token_account :: "acct_data \<Rightarrow> token_account result"
  unpack_mint_decimals :: "acct_data \<Rightarrow> u8 result"
  minimum_balance :: "nat \<Rightarrow> u64"
  load_instruction_at :: "pubkey \<Rightarrow> nat \<Rightarrow> (pubkey \<times> u8 list) option"
  realloc :: "pubkey \<Rightarrow> nat \<Rightarrow> unit handler"
  invoke :: "cpi_call \<Rightarrow> pubkey list \<Rightarrow> seeds list \<Rightarrow> unit handler"

section \<open>Seeds\<close>

text \<open>The seed strings of \<open>src/seeds.rs\<close>, as their ASCII bytes.\<close>

definition ascii :: "string \<Rightarrow> u8 list" where
  "ascii cs = map (\<lambda>c. of_nat (of_char c)) cs"

definition SEED_CONFIG :: "u8 list" where "SEED_CONFIG = ascii ''config''"
definition SEED_MARGIN :: "u8 list" where "SEED_MARGIN = ascii ''margin''"
definition SEED_VAULT :: "u8 list" where "SEED_VAULT = ascii ''vault''"
definition SEED_INSTRUMENT :: "u8 list" where "SEED_INSTRUMENT = ascii ''instr''"
definition SEED_BOOK :: "u8 list" where "SEED_BOOK = ascii ''book''"
definition SEED_PMLC :: "u8 list" where "SEED_PMLC = ascii ''pmlc''"
definition SEED_FEE_SCHEDULE :: "u8 list" where "SEED_FEE_SCHEDULE = ascii ''fee_schedule''"
definition SEED_USER_VOLUME :: "u8 list" where "SEED_USER_VOLUME = ascii ''volume''"
definition SEED_TREASURY :: "u8 list" where "SEED_TREASURY = ascii ''treasury''"
definition SEED_MARKET_NONCE :: "u8 list" where "SEED_MARKET_NONCE = ascii ''nonce''"
definition SEED_TIMELOCK :: "u8 list" where "SEED_TIMELOCK = ascii ''timelock''"
definition SEED_ADMIN_MULTISIG :: "u8 list" where "SEED_ADMIN_MULTISIG = ascii ''admin_multisig''"
definition SEED_BUCKET_REGISTRY :: "u8 list" where "SEED_BUCKET_REGISTRY = ascii ''bucket_registry''"
definition SEED_STABLECOIN_REGISTRY :: "u8 list" where
  "SEED_STABLECOIN_REGISTRY = ascii ''stablecoin_registry''"
definition SEED_WUSD_MINT :: "u8 list" where "SEED_WUSD_MINT = ascii ''wusd_mint''"
definition SEED_WUSD_AUTHORITY :: "u8 list" where "SEED_WUSD_AUTHORITY = ascii ''wusd_authority''"
definition SEED_SESSION :: "u8 list" where "SEED_SESSION = ascii ''session''"

definition margin_seeds :: "pubkey \<Rightarrow> pubkey \<Rightarrow> seeds" where
  "margin_seeds owner mint = [SEED_MARGIN, key_bytes owner, key_bytes mint]"

section \<open>Reading and writing accounts\<close>

definition owner_is :: "pubkey \<Rightarrow> account_info \<Rightarrow> world \<Rightarrow> bool" where
  "owner_is p ai w \<longleftrightarrow> acc_owner (w (ai_key ai)) = p"

definition acct_len :: "account_info \<Rightarrow> world \<Rightarrow> nat" where
  "acct_len ai w = data_len (acc_data (w (ai_key ai)))"

definition set_data :: "pubkey \<Rightarrow> acct_data \<Rightarrow> world \<Rightarrow> world" where
  "set_data k d w = w(k := (w k)\<lparr> acc_data := d \<rparr>)"

definition check_world :: "(world \<Rightarrow> bool) \<Rightarrow> program_error \<Rightarrow> unit handler" where
  "check_world P e = bnd (gets P) (\<lambda>c. require c e)"

definition assert_owner :: "pubkey \<Rightarrow> account_info \<Rightarrow> unit handler" where
  "assert_owner expected ai = check_world (owner_is expected ai) (Custom InvalidAccountOwner)"

text \<open>One test of the form \<open>a.owner != program_id || b.owner != program_id || ...\<close>.\<close>

definition assert_owners :: "pubkey \<Rightarrow> account_info list \<Rightarrow> unit handler" where
  "assert_owners expected ais =
     check_world (\<lambda>w. list_all (\<lambda>ai. owner_is expected ai w) ais) (Custom InvalidAccountOwner)"

definition assert_pda :: "env \<Rightarrow> seeds \<Rightarrow> pubkey \<Rightarrow> u8 result" where
  "assert_pda e sds expected =
     (case find_program_address e sds of (derived, bump) \<Rightarrow>
        if derived \<noteq> expected then err InvalidPda else Inr bump)"

text \<open>An immutable borrow: read a structure of an account.\<close>

definition read_acct :: "(acct_data \<Rightarrow> 'r result) \<Rightarrow> account_info \<Rightarrow> 'r handler" where
  "read_acct ld ai = asks (\<lambda>w. ld (acc_data (w (ai_key ai))))"

text \<open>A mutable borrow: run a computation on the structure in place.\<close>

definition edit_acct ::
  "(acct_data \<Rightarrow> 'r result) \<Rightarrow> ('r \<Rightarrow> acct_data) \<Rightarrow> account_info \<Rightarrow> ('r, 'a) prog \<Rightarrow> 'a handler" where
  "edit_acct ld mk ai m =
     zoom (\<lambda>w. ld (acc_data (w (ai_key ai)))) (\<lambda>r. set_data (ai_key ai) (mk r)) m"

definition init_acct :: "nat \<Rightarrow> account_info \<Rightarrow> acct_data \<Rightarrow> unit handler" where
  \<comment> \<open>\<open>try_cast_mut\<close>, the zero-discriminator test, and the write of the whole structure\<close>
  "init_acct len ai d =
     seq (asks (\<lambda>w. blank_check len (acc_data (w (ai_key ai)))))
     (modify (set_data (ai_key ai) d))"

definition create_account ::
  "env \<Rightarrow> account_info \<Rightarrow> account_info \<Rightarrow> account_info \<Rightarrow> nat \<Rightarrow> pubkey \<Rightarrow> seeds \<Rightarrow> unit handler" where
  \<comment> \<open>\<open>invoke_signed\<close> of \<open>system_instruction::create_account\<close> at the rent-exempt minimum\<close>
  "create_account e payer new sys space owner signer_seeds =
     invoke e (CreateAccount (ai_key payer) (ai_key new) (minimum_balance e space) space owner)
       [ai_key payer, ai_key new, ai_key sys] [signer_seeds]"

text \<open>The \<open>next_account_info\<close> calls at the head of a handler.\<close>

definition need_accounts :: "nat \<Rightarrow> account_info list \<Rightarrow> unit handler" where
  "need_accounts n accounts = require (n \<le> length accounts) NotEnoughAccountKeys"

definition assert_signers :: "account_info list \<Rightarrow> unit handler" where
  "assert_signers ais = for_each ais (\<lambda>ai. lift (assert_signer ai))"

definition assert_writables :: "account_info list \<Rightarrow> unit handler" where
  "assert_writables ais = for_each ais (\<lambda>ai. lift (assert_writable ai))"

definition pda :: "env \<Rightarrow> seeds \<Rightarrow> account_info \<Rightarrow> u8 handler" where
  "pda e sds ai = lift (assert_pda e sds (ai_key ai))"

text \<open>The runtime commits the ledger of a successful instruction and discards a failed one.\<close>

definition run_instruction :: "unit handler \<Rightarrow> world \<Rightarrow> unit result \<times> world" where
  "run_instruction h w = (case h w of (Inl e, w') \<Rightarrow> (Inl e, w) | (Inr u, w') \<Rightarrow> (Inr u, w'))"

section \<open>When the checks pass\<close>

lemma check_world_ok [ok_iff]: "check_world P e w = (Inr u, w') \<longleftrightarrow> P w \<and> w' = w"
  by (auto simp: check_world_def ok_iff)

lemma assert_owner_ok [ok_iff]:
  "assert_owner p ai w = (Inr u, w') \<longleftrightarrow> acc_owner (w (ai_key ai)) = p \<and> w' = w"
  by (auto simp: assert_owner_def owner_is_def ok_iff)

lemma assert_owners_ok [ok_iff]:
  "assert_owners p ais w = (Inr u, w') \<longleftrightarrow>
     list_all (\<lambda>ai. acc_owner (w (ai_key ai)) = p) ais \<and> w' = w"
  by (auto simp: assert_owners_def owner_is_def ok_iff)

lemma assert_pda_ok [ok_iff]: "assert_pda e s k = Inr b \<longleftrightarrow> find_program_address e s = (k, b)"
  by (auto simp: assert_pda_def split: prod.splits)

lemma pda_ok [ok_iff]:
  "pda e s ai w = (Inr b, w') \<longleftrightarrow> find_program_address e s = (ai_key ai, b) \<and> w' = w"
  by (auto simp: pda_def ok_iff)

lemma read_acct_ok [ok_iff]:
  "read_acct ld ai w = (Inr r, w') \<longleftrightarrow> ld (acc_data (w (ai_key ai))) = Inr r \<and> w' = w"
  by (auto simp: read_acct_def ok_iff)

lemma edit_acct_ok [ok_iff]:
  "edit_acct ld mk ai m w = (Inr a, w') \<longleftrightarrow>
     (\<exists>r r'. ld (acc_data (w (ai_key ai))) = Inr r \<and> m r = (Inr a, r') \<and>
        w' = set_data (ai_key ai) (mk r') w)"
  by (auto simp: edit_acct_def ok_iff)

lemma init_acct_ok [ok_iff]:
  "init_acct len ai d w = (Inr u, w') \<longleftrightarrow>
     data_len (acc_data (w (ai_key ai))) = len \<and> discriminator (acc_data (w (ai_key ai))) = 0 \<and>
     w' = set_data (ai_key ai) d w"
  by (auto simp: init_acct_def blank_check_def cast_check_def ok_iff)

lemma need_accounts_ok [ok_iff]: "need_accounts n as w = (Inr u, w') \<longleftrightarrow> n \<le> length as \<and> w' = w"
  by (simp add: need_accounts_def ok_iff)

lemma assert_signers_ok [ok_iff]:
  "assert_signers as w = (Inr u, w') \<longleftrightarrow> list_all is_signer as \<and> w' = w"
  unfolding assert_signers_def by (induction as) (auto simp: ok_iff ret_def)

lemma assert_writables_ok [ok_iff]:
  "assert_writables as w = (Inr u, w') \<longleftrightarrow> list_all is_writable as \<and> w' = w"
  unfolding assert_writables_def by (induction as) (auto simp: ok_iff ret_def)

lemma run_instruction_ok:
  "run_instruction h w = (Inr u, w') \<longleftrightarrow> h w = (Inr u, w')"
  by (auto simp: run_instruction_def split: prod.splits sum.splits)

lemma run_instruction_error: "run_instruction h w = (Inl x, w') \<Longrightarrow> w' = w"
  by (auto simp: run_instruction_def split: prod.splits sum.splits)

lemma acc_data_set [simp]: "acc_data (set_data k d w j) = (if j = k then d else acc_data (w j))"
  by (simp add: set_data_def)

lemma acc_owner_set [simp]: "acc_owner (set_data k d w j) = acc_owner (w j)"
  by (simp add: set_data_def)

lemma acc_lamports_set [simp]: "acc_lamports (set_data k d w j) = acc_lamports (w j)"
  by (simp add: set_data_def)

lemma set_data_same: "set_data k (acc_data (w k)) w = w"
  by (simp add: set_data_def)

lemma set_data_twice [simp]: "set_data k d (set_data k d' w) = set_data k d w"
  by (simp add: set_data_def)

section \<open>What the program relies on in the runtime\<close>

text \<open>
  Four documented rules. The data of an account is changed only by the program that owns it, so
  a call into another program leaves the accounts of this program alone. Creating an account
  gives it the requested owner and zeroed data of the requested size, and changes the data of
  no other account. Only the creation of an account gives an account to this program. Resizing
  an account to a positive length keeps its first byte, its owner and every other account.
\<close>

definition owned_frame :: "env \<Rightarrow> bool" where
  "owned_frame e \<longleftrightarrow> (\<forall>c ks sds w u w' k. invoke e c ks sds w = (Inr u, w') \<longrightarrow>
     acc_owner (w k) = program_id e \<longrightarrow>
     acc_owner (w' k) = program_id e \<and> acc_data (w' k) = acc_data (w k))"

definition creates_zeroed :: "env \<Rightarrow> bool" where
  "creates_zeroed e \<longleftrightarrow> (\<forall>p k l n own ks sds w u w'.
     invoke e (CreateAccount p k l n own) ks sds w = (Inr u, w') \<longrightarrow>
     acc_owner (w' k) = own \<and> acc_data (w' k) = DRaw (replicate n 0) \<and>
     (\<forall>j. j \<noteq> k \<longrightarrow> acc_owner (w' j) = acc_owner (w j) \<and> acc_data (w' j) = acc_data (w j)))"

definition owners_frame :: "env \<Rightarrow> bool" where
  "owners_frame e \<longleftrightarrow> (\<forall>c ks sds w u w' k. invoke e c ks sds w = (Inr u, w') \<longrightarrow>
     (\<forall>p j l n own. c \<noteq> CreateAccount p j l n own) \<longrightarrow>
     acc_owner (w' k) = program_id e \<longrightarrow> acc_owner (w k) = program_id e)"

definition realloc_extends :: "env \<Rightarrow> bool" where
  "realloc_extends e \<longleftrightarrow> (\<forall>k n w u w'. realloc e k n w = (Inr u, w') \<longrightarrow> 0 < n \<longrightarrow>
     (\<forall>j. acc_owner (w' j) = acc_owner (w j)) \<and>
     (\<forall>j. j \<noteq> k \<longrightarrow> acc_data (w' j) = acc_data (w j)) \<and>
     discriminator (acc_data (w' k)) = discriminator (acc_data (w k)))"

lemma owned_frameD:
  "owned_frame e \<Longrightarrow> invoke e c ks sds w = (Inr u, w') \<Longrightarrow> acc_owner (w k) = program_id e \<Longrightarrow>
     acc_owner (w' k) = program_id e \<and> acc_data (w' k) = acc_data (w k)"
  by (simp add: owned_frame_def)

lemma create_accountD:
  assumes "creates_zeroed e" "create_account e p new sys n own s w = (Inr u, w')"
  shows "acc_owner (w' (ai_key new)) = own"
    and "acc_data (w' (ai_key new)) = DRaw (replicate n 0)"
    and "j \<noteq> ai_key new \<Longrightarrow> acc_owner (w' j) = acc_owner (w j)"
    and "j \<noteq> ai_key new \<Longrightarrow> acc_data (w' j) = acc_data (w j)"
  using assms unfolding creates_zeroed_def create_account_def by blast+

end
