(* ===== verification/Admin_Ix.thy ===== *)
theory Admin_Ix
  imports Runtime
begin

text \<open>
  The administrative handlers: configuration and global pause (\<open>processor/admin.rs\<close>), the
  multisig and the authorization gate (\<open>processor/multisig.rs\<close>), and the timelocked rotation of
  the attestation signer (\<open>processor/timelock.rs\<close>).
\<close>

section \<open>Configuration\<close>

definition create_if_empty ::
  "env \<Rightarrow> account_info \<Rightarrow> account_info \<Rightarrow> account_info \<Rightarrow> nat \<Rightarrow> seeds \<Rightarrow> unit handler" where
  "create_if_empty e payer ai sys space signer_seeds =
     bnd (gets (acct_len ai)) (\<lambda>n.
     if n = 0 then create_account e payer ai sys space (program_id e) signer_seeds
     else assert_owner (program_id e) ai)"

record init_program_config_args =
  ipc_attestation_signer :: "u8 list"
  ipc_default_max_staleness_secs :: u64

definition process_init_program_config ::
  "env \<Rightarrow> account_info list \<Rightarrow> init_program_config_args \<Rightarrow> unit handler" where
  "process_init_program_config e accounts args =
     seq (need_accounts 4 accounts)
     (let adm = accounts ! 0; config_ai = accounts ! 1; fee_treasury_authority = accounts ! 2;
          system_program = accounts ! 3 in
      seq (assert_signers [adm])
      (seq (assert_writables [adm, config_ai])
      (seq (require (ai_key system_program = system_program_id e) InvalidAccountData)
      (bnd (pda e [SEED_CONFIG] config_ai) (\<lambda>bump.
       seq (create_if_empty e adm config_ai system_program PROGRAM_CONFIG_LEN [SEED_CONFIG, [bump]])
       (init_acct PROGRAM_CONFIG_LEN config_ai (DConfig (new_program_config (ai_key adm)
          (Pubkey (ipc_attestation_signer args)) (ai_key fee_treasury_authority)
          (ipc_default_max_staleness_secs args) bump))))))))"

section \<open>Authorization\<close>

primrec scan_multisig ::
  "env \<Rightarrow> world \<Rightarrow> account_info list \<Rightarrow> account_info list \<Rightarrow> unit result option" where
  "scan_multisig e w accounts [] = None"
| "scan_multisig e w accounts (ai # ais) =
     (if \<not> owner_is (program_id e) ai w \<or> acct_len ai w < ADMIN_MULTISIG_LEN
      then scan_multisig e w accounts ais
      else if discriminator (acc_data (w (ai_key ai))) \<noteq> 14 then scan_multisig e w accounts ais
      else if ai_key ai \<noteq> fst (find_program_address e [SEED_ADMIN_MULTISIG])
      then scan_multisig e w accounts ais
      else Some (try_res (load_multisig (acc_data (w (ai_key ai)))) (\<lambda>ms.
             check_threshold ms accounts)))"

definition authorize_admin_or_multisig ::
  "env \<Rightarrow> program_config \<Rightarrow> account_info list \<Rightarrow> unit handler" where
  "authorize_admin_or_multisig e config accounts = asks (\<lambda>w.
     case scan_multisig e w accounts accounts of
       Some r \<Rightarrow> r
     | None \<Rightarrow> check (list_ex (\<lambda>ai. is_signer ai \<and> ai_key ai = admin config) accounts)
                 InvalidAdminSigner)"

text \<open>The block that loads the configuration and authorizes, at the head of most admin handlers.\<close>

definition authorize_with :: "env \<Rightarrow> account_info \<Rightarrow> account_info list \<Rightarrow> unit handler" where
  "authorize_with e config_ai accounts =
     bnd (read_acct load_config config_ai) (\<lambda>cfg. authorize_admin_or_multisig e cfg accounts)"

definition process_set_global_pause :: "env \<Rightarrow> account_info list \<Rightarrow> bool \<Rightarrow> unit handler" where
  "process_set_global_pause e accounts paused =
     seq (need_accounts 2 accounts)
     (let config_ai = accounts ! 1 in
      seq (assert_writables [config_ai])
      (seq (assert_owner (program_id e) config_ai)
      (seq (authorize_with e config_ai accounts)
      (edit_acct load_config DConfig config_ai
         (modify (\<lambda>cfg. cfg\<lparr> global_pause := (if paused then 1 else 0) \<rparr>))))))"

text \<open>The single-admin gate: \<open>cfg.admin\<close> must be the first account, which must have signed.\<close>

definition require_admin :: "account_info \<Rightarrow> account_info \<Rightarrow> unit handler" where
  "require_admin config_ai adm =
     bnd (read_acct load_config config_ai) (\<lambda>cfg.
     ensure (admin cfg = ai_key adm) InvalidAdminSigner)"

section \<open>Multisig\<close>

record multisig_args =
  ms_args_threshold :: u8
  ms_args_signers :: "u8 list list"

definition process_init_admin_multisig ::
  "env \<Rightarrow> account_info list \<Rightarrow> multisig_args \<Rightarrow> unit handler" where
  "process_init_admin_multisig e accounts args =
     seq (need_accounts 4 accounts)
     (let adm = accounts ! 0; config_ai = accounts ! 1; ms_ai = accounts ! 2;
          system_program = accounts ! 3 in
      seq (assert_signers [adm])
      (seq (assert_writables [adm, ms_ai])
      (seq (assert_owner (program_id e) config_ai)
      (seq (require (ai_key system_program = system_program_id e) InvalidAccountData)
      (seq (require_admin config_ai adm)
      (bnd (pda e [SEED_ADMIN_MULTISIG] ms_ai) (\<lambda>bump.
       seq (create_if_empty e adm ms_ai system_program ADMIN_MULTISIG_LEN [SEED_ADMIN_MULTISIG, [bump]])
       (let sgs = map Pubkey (ms_args_signers args) in
        seq (lift (check_multisig_config sgs (ms_args_threshold args)))
        (init_acct ADMIN_MULTISIG_LEN ms_ai
           (DMultisig (new_admin_multisig (ai_key adm) sgs (ms_args_threshold args) bump)))))))))))"

definition process_rotate_admin_multisig ::
  "env \<Rightarrow> account_info list \<Rightarrow> multisig_args \<Rightarrow> unit handler" where
  "process_rotate_admin_multisig e accounts args =
     seq (need_accounts 2 accounts)
     (let config_ai = accounts ! 0; ms_ai = accounts ! 1 in
      seq (assert_writables [ms_ai])
      (seq (assert_owners (program_id e) [config_ai, ms_ai])
      (seq (bnd (read_acct load_multisig ms_ai) (\<lambda>ms. lift (check_threshold ms accounts)))
      (edit_acct load_multisig DMultisig ms_ai
         (rotate (map Pubkey (ms_args_signers args)) (ms_args_threshold args))))))"

section \<open>Timelock\<close>

record propose_args =
  pr_proposal_id :: u64
  pr_new_signer :: "u8 list"

definition timelock_seeds :: "u64 \<Rightarrow> seeds" where
  "timelock_seeds proposal = [SEED_TIMELOCK, to_le_bytes proposal]"

definition write_proposal ::
  "env \<Rightarrow> account_info \<Rightarrow> account_info \<Rightarrow> propose_args \<Rightarrow> u8 \<Rightarrow> unit handler" where
  \<comment> \<open>the write through \<open>from_bytes_mut(&mut data[..TIMELOCK_PROPOSAL_LEN])\<close>\<close>
  "write_proposal e adm tl_ai args bump =
     seq (check_world (\<lambda>w. TIMELOCK_PROPOSAL_LEN \<le> acct_len tl_ai w) Panicked)
     (bnd (lift (ok_or_err (checked_add_s (clock_unix_timestamp e) TIMELOCK_DELAY_SECS)
             ArithmeticOverflow)) (\<lambda>after.
      modify (set_data (ai_key tl_ai) (DTimelock (set_new_signer (pr_new_signer args)
        \<lparr> tl_kind = TL_KIND_SET_ATTESTATION_SIGNER, tl_status = TL_STATUS_PENDING, tl_bump = bump,
          proposal_id = pr_proposal_id args, proposer = ai_key adm, tl_payload = replicate 64 0,
          proposed_slot = clock_slot e, proposed_unix_ts = clock_unix_timestamp e,
          executable_after_unix_ts = after \<rparr>)))))"

definition process_propose_set_attestation_signer ::
  "env \<Rightarrow> account_info list \<Rightarrow> propose_args \<Rightarrow> unit handler" where
  "process_propose_set_attestation_signer e accounts args =
     seq (need_accounts 4 accounts)
     (let adm = accounts ! 0; program_config_ai = accounts ! 1; tl_ai = accounts ! 2;
          system_program = accounts ! 3 in
      seq (assert_signers [adm])
      (seq (assert_writables [adm, tl_ai])
      (seq (assert_owner (program_id e) program_config_ai)
      (seq (require (ai_key system_program = system_program_id e) InvalidAccountData)
      (seq (authorize_with e program_config_ai accounts)
      (bnd (pda e (timelock_seeds (pr_proposal_id args)) tl_ai) (\<lambda>bump.
       seq (check_world (\<lambda>w. acct_len tl_ai w = 0) (Custom AlreadyInitialized))
       (seq (create_account e adm tl_ai system_program TIMELOCK_PROPOSAL_LEN (program_id e)
               (timelock_seeds (pr_proposal_id args) @ [[bump]]))
       (write_proposal e adm tl_ai args bump)))))))))"

definition process_execute_set_attestation_signer ::
  "env \<Rightarrow> account_info list \<Rightarrow> u64 \<Rightarrow> unit handler" where
  "process_execute_set_attestation_signer e accounts args_proposal_id =
     seq (need_accounts 3 accounts)
     (let adm = accounts ! 0; program_config_ai = accounts ! 1; tl_ai = accounts ! 2 in
      seq (assert_signers [adm])
      (seq (assert_writables [program_config_ai, tl_ai])
      (seq (assert_owners (program_id e) [program_config_ai, tl_ai])
      (bnd (pda e (timelock_seeds args_proposal_id) tl_ai) (\<lambda>_.
       bnd (read_acct load_timelock tl_ai) (\<lambda>tl.
       seq (ensure (tl_status tl = TL_STATUS_PENDING) TimelockNotExecutable)
       (seq (ensure (tl_kind tl = TL_KIND_SET_ATTESTATION_SIGNER) TimelockNotExecutable)
       (seq (ensure (\<not> sint (clock_unix_timestamp e) < sint (executable_after_unix_ts tl))
               TimelockNotExecutable)
       (seq (authorize_with e program_config_ai accounts)
       (seq (edit_acct load_config DConfig program_config_ai
               (modify (\<lambda>cfg. cfg\<lparr> attestation_signer := Pubkey (new_signer tl) \<rparr>)))
       (edit_acct load_timelock DTimelock tl_ai
          (modify (\<lambda>tl. tl\<lparr> tl_status := TL_STATUS_EXECUTED \<rparr>)))))))))))))"

definition process_cancel_timelock :: "env \<Rightarrow> account_info list \<Rightarrow> u64 \<Rightarrow> unit handler" where
  "process_cancel_timelock e accounts args_proposal_id =
     seq (need_accounts 2 accounts)
     (let adm = accounts ! 0; tl_ai = accounts ! 1 in
      seq (assert_signers [adm])
      (seq (assert_writables [tl_ai])
      (seq (assert_owner (program_id e) tl_ai)
      (bnd (pda e (timelock_seeds args_proposal_id) tl_ai) (\<lambda>_.
       seq (bnd (read_acct load_timelock tl_ai) (\<lambda>tl.
              seq (ensure (proposer tl = ai_key adm) InvalidAdminSigner)
              (ensure (tl_status tl = TL_STATUS_PENDING) TimelockNotExecutable)))
       (edit_acct load_timelock DTimelock tl_ai
          (modify (\<lambda>tl. tl\<lparr> tl_status := TL_STATUS_CANCELLED \<rparr>))))))))"

end
