(* ===== verification/Fees_Ix.thy ===== *)
theory Fees_Ix
  imports Admin_Ix
begin

text \<open>
  The fee schedule, the sweep of accrued fees and the lazy creation of a fee treasury
  (\<open>processor/fees.rs\<close>).
\<close>

definition to_raw_tiers :: "fee_tier list \<Rightarrow> fee_tier list" where
  "to_raw_tiers ts =
     map (\<lambda>t. \<lparr> volume_threshold = volume_threshold t, tier_fee_bps = tier_fee_bps t \<rparr>) ts"

definition process_init_fee_schedule ::
  "env \<Rightarrow> account_info list \<Rightarrow> fee_tier list \<Rightarrow> unit handler" where
  "process_init_fee_schedule e accounts args_tiers =
     seq (need_accounts 4 accounts)
     (let adm = accounts ! 0; program_config_ai = accounts ! 1; fee_schedule_ai = accounts ! 2;
          system_program = accounts ! 3 in
      seq (assert_signers [adm])
      (seq (assert_writables [adm, fee_schedule_ai])
      (seq (assert_owner (program_id e) program_config_ai)
      (seq (require (ai_key system_program = system_program_id e) InvalidAccountData)
      (seq (require_admin program_config_ai adm)
      (let ts = to_raw_tiers args_tiers in
       seq (lift (validate_tiers ts))
       (bnd (pda e [SEED_FEE_SCHEDULE] fee_schedule_ai) (\<lambda>bump.
        seq (check_world (\<lambda>w. acct_len fee_schedule_ai w = 0) (Custom AlreadyInitialized))
        (seq (create_account e adm fee_schedule_ai system_program FEE_SCHEDULE_LEN (program_id e)
                [SEED_FEE_SCHEDULE, [bump]])
        (init_acct FEE_SCHEDULE_LEN fee_schedule_ai
           (DFeeSchedule (new_fee_schedule ts (clock_slot e) bump))))))))))))"

definition process_set_fee_schedule ::
  "env \<Rightarrow> account_info list \<Rightarrow> fee_tier list \<Rightarrow> unit handler" where
  "process_set_fee_schedule e accounts args_tiers =
     seq (need_accounts 3 accounts)
     (let adm = accounts ! 0; program_config_ai = accounts ! 1; fee_schedule_ai = accounts ! 2 in
      seq (assert_signers [adm])
      (seq (assert_writables [fee_schedule_ai])
      (seq (assert_owners (program_id e) [program_config_ai, fee_schedule_ai])
      (seq (require_admin program_config_ai adm)
      (let new_tiers = to_raw_tiers args_tiers in
       seq (lift (validate_tiers new_tiers))
       (let new_max = compute_max_fee_bps new_tiers in
        edit_acct load_fee_schedule DFeeSchedule fee_schedule_ai
          (bnd (gets max_tier_fee_bps) (\<lambda>old_max.
           seq (ensure (\<not> new_max > old_max) FeeIncreaseBlocked)
           (modify (\<lambda>s. s\<lparr> tiers := new_tiers, max_tier_fee_bps := new_max,
                           last_updated_slot := clock_slot e \<rparr>))))))))))"

definition process_sweep_fees :: "env \<Rightarrow> account_info list \<Rightarrow> u64 \<Rightarrow> unit handler" where
  "process_sweep_fees e accounts amount =
     seq (ensure (amount \<noteq> 0) InvalidInstructionData)
     (seq (need_accounts 8 accounts)
     (let adm = accounts ! 0; program_config_ai = accounts ! 1; treasury_ai = accounts ! 2;
          vault_ata = accounts ! 3; dest_ata = accounts ! 4; mint = accounts ! 5;
          vault_authority_ai = accounts ! 6; token_program = accounts ! 7;
          vault_seeds = [SEED_VAULT, key_bytes (ai_key mint)] in
      seq (assert_signers [adm])
      (seq (assert_writables [treasury_ai, vault_ata, dest_ata])
      (seq (assert_owners (program_id e) [program_config_ai, treasury_ai])
      (seq (require (ai_key token_program = token_program_id e) InvalidAccountData)
      (seq (require_admin program_config_ai adm)
      (bnd (pda e vault_seeds vault_authority_ai) (\<lambda>vault_auth_bump.
       bnd (pda e [SEED_TREASURY, key_bytes (ai_key mint)] treasury_ai) (\<lambda>_.
       seq (bnd (read_acct (unpack_token_account e) vault_ata) (\<lambda>acc.
              ensure (\<not> (token_owner acc \<noteq> ai_key vault_authority_ai \<or> token_mint acc \<noteq> ai_key mint))
                InvalidTokenAccountOwner))
       (seq (edit_acct load_treasury DTreasury treasury_ai
               (seq (bnd (gets ft_mint) (\<lambda>m. ensure (m = ai_key mint) InvalidPda))
                (sweep amount)))
       (invoke e (TokenTransfer (ai_key vault_ata) (ai_key dest_ata) (ai_key vault_authority_ai) amount)
          [ai_key vault_ata, ai_key dest_ata, ai_key vault_authority_ai, ai_key token_program]
          [vault_seeds @ [[vault_auth_bump]]])))))))))))"

definition ensure_fee_treasury ::
  "env \<Rightarrow> account_info \<Rightarrow> account_info \<Rightarrow> pubkey \<Rightarrow> account_info \<Rightarrow> unit handler" where
  "ensure_fee_treasury e payer treasury_ai mint system_program =
     bnd (pda e [SEED_TREASURY, key_bytes mint] treasury_ai) (\<lambda>bump.
     bnd (gets (acct_len treasury_ai)) (\<lambda>len.
     if len \<noteq> 0 then
       seq (assert_owner (program_id e) treasury_ai)
       (bnd (read_acct load_treasury treasury_ai) (\<lambda>t.
        ensure (\<not> (ft_mint t \<noteq> mint \<or> ft_bump t \<noteq> bump)) InvalidPda))
     else
       seq (create_account e payer treasury_ai system_program FEE_TREASURY_LEN (program_id e)
              [SEED_TREASURY, key_bytes mint, [bump]])
       (init_acct FEE_TREASURY_LEN treasury_ai (DTreasury (new_fee_treasury mint bump)))))"

end
