(* ===== verification/Margin_Ix.thy ===== *)
theory Margin_Ix
  imports Runtime
begin

text \<open>
  Margin accounts: create, deposit, withdraw (\<open>processor/margin.rs\<close>), and the margin address
  check shared by the settlement handlers (\<open>processor/settlement.rs\<close>, \<open>processor/close_prune.rs\<close>).
\<close>

definition validate_vault_token_account_data ::
  "env \<Rightarrow> pubkey \<Rightarrow> pubkey \<Rightarrow> pubkey \<Rightarrow> acct_data \<Rightarrow> unit result" where
  "validate_vault_token_account_data e vault_key vault_authority mint token_data =
     (if vault_key \<noteq> get_associated_token_address e vault_authority mint then err InvalidVault
      else try_res (unpack_token_account e token_data) (\<lambda>token.
        if token_owner token \<noteq> vault_authority then err InvalidTokenAccountOwner
        else if token_mint token \<noteq> mint then err InvalidMint
        else Inr ()))"

definition process_create_margin_account :: "env \<Rightarrow> account_info list \<Rightarrow> unit handler" where
  "process_create_margin_account e accounts =
     seq (need_accounts 4 accounts)
     (let owner = accounts ! 0; margin_ai = accounts ! 1; mint = accounts ! 2;
          system_program = accounts ! 3 in
      seq (assert_signers [owner])
      (seq (assert_writables [owner, margin_ai])
      (seq (require (ai_key system_program = system_program_id e) InvalidAccountData)
      (seq (check_world (owner_is (token_program_id e) mint) (Custom InvalidMint))
      (bnd (pda e (margin_seeds (ai_key owner) (ai_key mint)) margin_ai) (\<lambda>bump.
       seq (check_world (\<lambda>w. acct_len margin_ai w = 0) (Custom AlreadyInitialized))
       (seq (create_account e owner margin_ai system_program MARGIN_ACCOUNT_LEN (program_id e)
               (margin_seeds (ai_key owner) (ai_key mint) @ [[bump]]))
       (init_acct MARGIN_ACCOUNT_LEN margin_ai
          (DMargin (new_margin_account (ai_key owner) (ai_key mint) bump))))))))))"

text \<open>The test that a margin account is the one its address was derived for.\<close>

definition is_margin_of :: "margin_account \<Rightarrow> pubkey \<Rightarrow> pubkey \<Rightarrow> u8 \<Rightarrow> bool" where
  "is_margin_of m owner mint bump \<longleftrightarrow>
     \<not> (ma_owner m \<noteq> owner \<or> ma_mint m \<noteq> mint \<or> ma_bump m \<noteq> bump)"

definition process_deposit :: "env \<Rightarrow> account_info list \<Rightarrow> u64 \<Rightarrow> unit handler" where
  "process_deposit e accounts amount =
     seq (ensure (amount \<noteq> 0) InvalidInstructionData)
     (seq (need_accounts 6 accounts)
     (let owner = accounts ! 0; margin_ai = accounts ! 1; mint = accounts ! 2;
          user_ata = accounts ! 3; vault_ata = accounts ! 4; token_program = accounts ! 5 in
      seq (assert_signers [owner])
      (seq (assert_writables [margin_ai, user_ata, vault_ata])
      (seq (assert_owner (program_id e) margin_ai)
      (seq (require (ai_key token_program = token_program_id e) InvalidAccountData)
      (bnd (pda e (margin_seeds (ai_key owner) (ai_key mint)) margin_ai) (\<lambda>bump.
       seq (bnd (read_acct load_margin margin_ai) (\<lambda>m.
              ensure (is_margin_of m (ai_key owner) (ai_key mint) bump) InvalidPda))
       (let vault_authority = fst (find_program_address e [SEED_VAULT, key_bytes (ai_key mint)]) in
        seq (asks (\<lambda>w. validate_vault_token_account_data e (ai_key vault_ata) vault_authority
               (ai_key mint) (acc_data (w (ai_key vault_ata)))))
        (seq (invoke e (TokenTransfer (ai_key user_ata) (ai_key vault_ata) (ai_key owner) amount)
               [ai_key user_ata, ai_key vault_ata, ai_key owner, ai_key token_program] [])
        (edit_acct load_margin DMargin margin_ai (credit_free amount)))))))))))"

definition process_withdraw :: "env \<Rightarrow> account_info list \<Rightarrow> u64 \<Rightarrow> unit handler" where
  "process_withdraw e accounts amount =
     seq (ensure (amount \<noteq> 0) InvalidInstructionData)
     (seq (need_accounts 7 accounts)
     (let owner = accounts ! 0; margin_ai = accounts ! 1; mint = accounts ! 2;
          user_ata = accounts ! 3; vault_ata = accounts ! 4; vault_authority = accounts ! 5;
          token_program = accounts ! 6;
          vault_seeds = [SEED_VAULT, key_bytes (ai_key mint)] in
      seq (assert_signers [owner])
      (seq (assert_writables [margin_ai, user_ata, vault_ata])
      (seq (assert_owner (program_id e) margin_ai)
      (seq (require (ai_key token_program = token_program_id e) InvalidAccountData)
      (bnd (pda e (margin_seeds (ai_key owner) (ai_key mint)) margin_ai) (\<lambda>margin_bump.
       bnd (pda e vault_seeds vault_authority) (\<lambda>vault_auth_bump.
       seq (asks (\<lambda>w. validate_vault_token_account_data e (ai_key vault_ata) (ai_key vault_authority)
              (ai_key mint) (acc_data (w (ai_key vault_ata)))))
       (seq (edit_acct load_margin DMargin margin_ai
               (seq (bnd (gets (\<lambda>m. m)) (\<lambda>m.
                       ensure (is_margin_of m (ai_key owner) (ai_key mint) margin_bump) InvalidPda))
                (debit_free amount)))
       (invoke e (TokenTransfer (ai_key vault_ata) (ai_key user_ata) (ai_key vault_authority) amount)
          [ai_key vault_ata, ai_key user_ata, ai_key vault_authority, ai_key token_program]
          [vault_seeds @ [[vault_auth_bump]]]))))))))))"

definition validate_margin_pda ::
  "env \<Rightarrow> account_info \<Rightarrow> pubkey \<Rightarrow> pubkey \<Rightarrow> unit handler" where
  "validate_margin_pda e margin_ai owner collateral_mint =
     bnd (pda e (margin_seeds owner collateral_mint) margin_ai) (\<lambda>bump.
     bnd (read_acct load_margin margin_ai) (\<lambda>m.
     ensure (is_margin_of m owner collateral_mint bump) InvalidPda))"

lemma is_margin_of_iff [simp]:
  "is_margin_of m k c b \<longleftrightarrow> ma_owner m = k \<and> ma_mint m = c \<and> ma_bump m = b"
  by (auto simp: is_margin_of_def)

lemma validate_margin_pda_ok [ok_iff]:
  "validate_margin_pda e ai k c w = (Inr u, w') \<longleftrightarrow>
     (\<exists>m. find_program_address e (margin_seeds k c) = (ai_key ai, ma_bump m) \<and>
        acc_data (w (ai_key ai)) = DMargin m \<and> ma_owner m = k \<and> ma_mint m = c) \<and> w' = w"
  by (auto simp: validate_margin_pda_def ok_iff)

section \<open>Deposit and withdrawal\<close>

lemma deposit_run:
  assumes "process_deposit e accounts amount w = (Inr u, w')"
  obtains m m' v w1 bump where
    "amount \<noteq> 0" "6 \<le> length accounts" "is_signer (accounts ! 0)"
    "acc_owner (w (ai_key (accounts ! 1))) = program_id e"
    "acc_data (w (ai_key (accounts ! 1))) = DMargin m"
    "ma_owner m = ai_key (accounts ! 0)" "ma_mint m = ai_key (accounts ! 2)"
    "validate_vault_token_account_data e (ai_key (accounts ! 4))
       (fst (find_program_address e [SEED_VAULT, key_bytes (ai_key (accounts ! 2))]))
       (ai_key (accounts ! 2)) (acc_data (w (ai_key (accounts ! 4)))) = Inr ()"
    "invoke e (TokenTransfer (ai_key (accounts ! 3)) (ai_key (accounts ! 4)) (ai_key (accounts ! 0)) amount)
       [ai_key (accounts ! 3), ai_key (accounts ! 4), ai_key (accounts ! 0), ai_key (accounts ! 5)] []
       w = (Inr (), w1)"
    "acc_data (w1 (ai_key (accounts ! 1))) = DMargin m'"
    "unat v = unat (free_collateral m') + unat amount"
    "w' = set_data (ai_key (accounts ! 1)) (DMargin (m'\<lparr> free_collateral := v \<rparr>)) w1"
  using assms
  by (auto simp: process_deposit_def Let_def ok_iff)

end
