(* ===== verification/Fixed_Math.thy ===== *)
theory Fixed_Math
  imports Errors
begin

text \<open>
  Fixed-point prices, notional and size conversion, profit and loss, and the bounded equity
  of a position (\<open>src/math/fixed.rs\<close>). Prices are 64-bit words with 18 decimals; the
  intermediate products are 128-bit words, read with \<^const>\<open>sint\<close> where the code uses the
  signed type. The lemmas give each function's exact value over the integers, the clamp of
  the equity to \<open>[0, 2c]\<close> and the conservation of the two equities' sum.
\<close>

unbundle bit_operations_syntax

section \<open>Constants and price validation\<close>

definition PRICE_ONE :: u64 where
  "PRICE_ONE = 1000000000000000000"

definition PRICE_ONE_U128 :: u128 where
  "PRICE_ONE_U128 = ucast PRICE_ONE"

definition BPS_DENOM :: u64 where
  "BPS_DENOM = 10000"

definition validate_price :: "u64 \<Rightarrow> unit result" where
  "validate_price price_fp =
     (if price_fp = 0 \<or> price_fp \<ge> PRICE_ONE then err InvalidPriceRange else Inr ())"

definition validate_price_ticked :: "u64 \<Rightarrow> u64 \<Rightarrow> unit result" where
  "validate_price_ticked price_fp tick_fp =
     try_res (validate_price price_fp) (\<lambda>_.
       if tick_fp = 0 \<or> price_fp mod tick_fp \<noteq> 0 then err PriceNotTickAligned else Inr ())"

section \<open>Matching price, notional and size\<close>

definition price_midpoint :: "u64 \<Rightarrow> u64 \<Rightarrow> u64" where
  "price_midpoint a b = (a div 2) + (b div 2) + ((a AND 1) AND (b AND 1))"

definition notional_atoms :: "u64 \<Rightarrow> u32 \<Rightarrow> u128 result" where
  "notional_atoms collateral_bucket leverage_bps =
     ok_or_err
       (Option.bind (checked_mul (ucast collateral_bucket) (ucast leverage_bps)) (\<lambda>v.
          checked_div v (ucast BPS_DENOM)))
       ArithmeticOverflow"

definition position_size_fp :: "u128 \<Rightarrow> u64 \<Rightarrow> u128 result" where
  "position_size_fp notional entry_price_fp =
     (if entry_price_fp = 0 then err DivisionByZero
      else ok_or_err
        (Option.bind (checked_mul notional PRICE_ONE_U128) (\<lambda>v.
           checked_div v (ucast entry_price_fp)))
        ArithmeticOverflow)"

section \<open>Profit and loss, bounded equity\<close>

definition pnl_long_atoms :: "u64 \<Rightarrow> u64 \<Rightarrow> u128 \<Rightarrow> i128 result" where
  "pnl_long_atoms entry_fp mark_fp size_fp =
     (let delta_fp = (ucast mark_fp :: i128) - ucast entry_fp;
          size_i = (size_fp :: i128)
      in ok_or_err
        (Option.bind (checked_mul_s delta_fp size_i) (\<lambda>v.
           checked_div_s v PRICE_ONE_U128))
        ArithmeticOverflow)"

definition clamp_s :: "'a::len word \<Rightarrow> 'a word \<Rightarrow> 'a word \<Rightarrow> 'a word" where
  "clamp_s lo hi x = (if sint x < sint lo then lo else if sint hi < sint x then hi else x)"

definition bounded_equity :: "u64 \<Rightarrow> i128 \<Rightarrow> u64" where
  "bounded_equity collateral_atoms pnl =
     (let eq = saturating_add_s (ucast collateral_atoms) pnl;
          mx = saturating_mul_s (ucast collateral_atoms) 2
      in ucast (clamp_s 0 mx eq))"

section \<open>Exact values\<close>

lemma unat_PRICE_ONE [simp]: "unat PRICE_ONE = 10 ^ 18"
  by (simp add: PRICE_ONE_def)

lemma unat_BPS_DENOM [simp]: "unat BPS_DENOM = 10000"
  by (simp add: BPS_DENOM_def)

lemma unat_PRICE_ONE_U128 [simp]: "unat PRICE_ONE_U128 = 10 ^ 18"
  by (simp add: PRICE_ONE_U128_def PRICE_ONE_def)

lemma validate_price_ok [ok_iff]:
  "validate_price p = Inr u \<longleftrightarrow> 0 < unat p \<and> unat p < 10 ^ 18"
  by (auto simp: validate_price_def word_le_nat_alt unat_gt_0)

lemma validate_price_ticked_ok [ok_iff]:
  "validate_price_ticked p t = Inr u \<longleftrightarrow>
     0 < unat p \<and> unat p < 10 ^ 18 \<and> 0 < unat t \<and> unat t dvd unat p"
  by (auto simp: validate_price_ticked_def ok_iff unat_gt_0 word_unat_eq_iff unat_mod
      mod_eq_0_iff_dvd simp del: unat_gt_0)


lemma neg_numeral_le_uint [simp]: "- numeral k \<le> uint w"
  by (rule order_trans [of _ 0]) simp_all

lemma uint_lt2p: "uint w < 2 ^ LENGTH('a)"
  for w :: "'a::len word"
  by (rule uint_bounded)

lemma unat_ucast_64_128 [simp]: "unat (ucast w :: u128) = unat w"
  for w :: u64
  by (rule unat_ucast_up) simp

lemma unat_ucast_32_128 [simp]: "unat (ucast w :: u128) = unat w"
  for w :: u32
  by (rule unat_ucast_up) simp

lemma sint_ucast_64_128 [simp]: "sint (ucast w :: i128) = int (unat w)"
  for w :: u64
proof -
  have "unat w < 2 ^ 64" using unat_lt2p [of w] by simp
  then have "unat (ucast w :: i128) < 2 ^ (LENGTH(128) - 1)" by simp
  then show ?thesis by (simp add: sint_eq_unat_small)
qed

lemma midpoint_nat: "a div 2 + b div 2 + (a mod 2) * (b mod 2) = (a + b) div (2::nat)"
proof -
  have "a mod 2 = 0 \<or> a mod 2 = 1" "b mod 2 = 0 \<or> b mod 2 = 1" by auto
  then show ?thesis
    unfolding div_add1_eq [of a b 2] by (elim disjE) simp_all
qed

lemma unat_and_1: "unat (w AND 1) = unat w mod 2"
  for w :: u64
  by (simp add: and_one_eq unat_mod)

lemma unat_price_midpoint: "unat (price_midpoint a b) = (unat a + unat b) div 2"
proof -
  have l: "unat ((a AND 1) AND (b AND 1)) = (unat a mod 2) * (unat b mod 2)"
  proof -
    have "unat a mod 2 = 0 \<or> unat a mod 2 = 1" "unat b mod 2 = 0 \<or> unat b mod 2 = 1" by auto
    then show ?thesis
      by (elim disjE) (simp_all add: unsigned_and_eq [of "a AND 1"] unat_and_1)
  qed
  have a: "unat (a div 2) = unat a div 2" and b: "unat (b div 2) = unat b div 2"
    by (simp_all add: unat_div)
  have "unat a < 2 ^ 64" "unat b < 2 ^ 64"
    using unat_lt2p [of a] unat_lt2p [of b] by simp_all
  then have t: "(unat a + unat b) div 2 < 2 ^ 64" by simp
  have s: "unat (a div 2 + b div 2) = unat a div 2 + unat b div 2"
    using t unfolding midpoint_nat [symmetric] a [symmetric] b [symmetric]
    by (intro unat_add_small) simp
  have "unat (price_midpoint a b) = unat (a div 2 + b div 2) + unat ((a AND 1) AND (b AND 1))"
    unfolding price_midpoint_def
    by (rule unat_add_small) (use t in \<open>simp add: s l midpoint_nat\<close>)
  then show ?thesis by (simp add: s l midpoint_nat)
qed

lemma notional_atoms_total:
  "\<exists>n. notional_atoms c lev = Inr n \<and> unat n = unat c * unat lev div 10000"
proof -
  have "unat c * unat lev < 2 ^ 64 * 2 ^ 32"
    using unat_lt2p [of c] unat_lt2p [of lev] by (intro mult_strict_mono) auto
  then have m: "checked_mul (ucast c) (ucast lev) = Some (ucast c * ucast lev :: u128)"
    "unat (ucast c * ucast lev :: u128) = unat c * unat lev"
    by (simp_all add: checked_mul_def unat_mul_small)
  have "BPS_DENOM \<noteq> 0" by (simp add: BPS_DENOM_def)
  then have "(ucast BPS_DENOM :: u128) \<noteq> 0" by (metis unat_ucast_64_128 unat_BPS_DENOM unat_0 zero_neq_numeral)
  then show ?thesis
    by (simp add: notional_atoms_def m checked_div_def ok_or_err_def ok_or_def unat_div)
qed

lemma position_size_fp_ok [ok_iff]:
  "position_size_fp n p = Inr s \<longleftrightarrow>
     p \<noteq> 0 \<and> unat n * 10 ^ 18 < 2 ^ 128 \<and> unat s = unat n * 10 ^ 18 div unat p"
proof (cases "p = 0")
  case True
  then show ?thesis by (simp add: position_size_fp_def)
next
  case False
  then have z: "(ucast p :: u128) \<noteq> 0"
    by (metis unat_ucast_64_128 unat_0 unat_eq_zero)
  show ?thesis
  proof (cases "unat n * 10 ^ 18 < 2 ^ 128")
    case True
    then have m: "checked_mul n PRICE_ONE_U128 = Some (n * PRICE_ONE_U128)"
      "unat (n * PRICE_ONE_U128) = unat n * 10 ^ 18"
      by (simp_all add: checked_mul_def unat_mul_small)
    show ?thesis using False True z
      by (simp add: position_size_fp_def ok_or_err_ok m(1) checked_div_Some)
        (simp add: m(2))
  next
    case h: False
    then show ?thesis using False
      by (simp add: position_size_fp_def ok_or_err_ok checked_mul_def)
  qed
qed


text \<open>The division towards zero and the exact profit and loss.\<close>

lemma abs_tdiv_le: "\<bar>tdiv a b\<bar> \<le> \<bar>a\<bar>"
proof -
  have "\<bar>a\<bar> div \<bar>b\<bar> \<le> \<bar>a\<bar>"
    by (metis abs_ge_zero div_by_0 int_one_le_iff_zero_less le_less zdiv_mono2 div_by_1)
  moreover have "0 \<le> \<bar>a\<bar> div \<bar>b\<bar>" by (simp add: div_int_pos_iff)
  ultimately show ?thesis
    by (auto simp: tdiv_def abs_mult sgn_if)
qed

lemma sint_PRICE_ONE_U128 [simp]: "sint PRICE_ONE_U128 = 10 ^ 18"
  by (simp add: PRICE_ONE_U128_def)

lemma in_signed_range_diff:
  "0 \<le> x \<Longrightarrow> x < 2 ^ 64 \<Longrightarrow> 0 \<le> y \<Longrightarrow> y < 2 ^ 64 \<Longrightarrow> in_signed_range 128 (x - y)"
  by (simp add: in_signed_range_def)

lemma sint_sub_64_128: "sint ((ucast m :: i128) - ucast e) = int (unat m) - int (unat e)"
  for m e :: u64
proof -
  have "unat m < 2 ^ 64" "unat e < 2 ^ 64"
    using unat_lt2p [of m] unat_lt2p [of e] by simp_all
  then have b: "int (unat m) < 2 ^ 64" "int (unat e) < 2 ^ 64"
    by (metis of_nat_less_numeral_power_cancel_iff)+
  have "in_signed_range LENGTH(128) (int (unat m) - int (unat e))"
    by (simp only: len_num1 len_bit0)
      (use in_signed_range_diff [OF of_nat_0_le_iff b(1) of_nat_0_le_iff b(2)] in simp)
  then have "sint (word_of_int (int (unat m) - int (unat e)) :: i128) = int (unat m) - int (unat e)"
    by (rule sint_word_of_int_in_range)
  moreover have "(word_of_int (int (unat m) - int (unat e)) :: i128) = ucast m - ucast e"
    by (simp only: wi_hom_sub [symmetric] ucast_eq uint_nat)
  ultimately show ?thesis by simp
qed

lemma pnl_long_atoms_ok [ok_iff]:
  "pnl_long_atoms e m s = Inr v \<longleftrightarrow>
     in_signed_range 128 ((int (unat m) - int (unat e)) * sint s) \<and>
     sint v = tdiv ((int (unat m) - int (unat e)) * sint s) (10 ^ 18)"
proof -
  let ?d = "(int (unat m) - int (unat e)) * sint s"
  have z: "PRICE_ONE_U128 \<noteq> 0" by (metis unat_PRICE_ONE_U128 unat_0 zero_neq_numeral power_eq_0_iff)
  have "pnl_long_atoms e m s = Inr v \<longleftrightarrow>
    (\<exists>w. checked_mul_s (ucast m - ucast e) s = Some w \<and> checked_div_s w PRICE_ONE_U128 = Some v)"
    by (auto simp: pnl_long_atoms_def Let_def ok_or_err_ok bind_eq_Some_conv)
  also have "\<dots> \<longleftrightarrow> in_signed_range 128 ?d \<and> sint v = tdiv ?d (10 ^ 18)"
  proof (cases "in_signed_range 128 ?d")
    case True
    have t: "in_signed_range 128 (tdiv ?d (10 ^ 18))"
    proof (cases "?d = - (2 ^ 127)")
      case True
      show ?thesis unfolding True by (simp add: in_signed_range_def tdiv_def)
    next
      case False
      with True abs_tdiv_le [of ?d "10 ^ 18"] show ?thesis
        by (simp add: in_signed_range_def) linarith
    qed
    have w: "sint (word_of_int ?d :: i128) = ?d"
      by (rule sint_word_of_int_in_range) (use True in simp)
    show ?thesis using True t w z
      by (simp add: checked_mul_s_def sint_sub_64_128 checked_signed_iff checked_div_s_def
          cong: conj_cong) metis
  next
    case False
    then show ?thesis
      by (simp add: checked_mul_s_def sint_sub_64_128 checked_signed_def)
  qed
  finally show ?thesis .
qed


text \<open>The clamp of the equity, over the integers.\<close>

lemma sint_saturate_signed:
  "sint (saturate_signed i :: 'a::len word) = max (- (2 ^ (LENGTH('a) - 1))) (min (2 ^ (LENGTH('a) - 1) - 1) i)"
  unfolding saturate_signed_def
  by (rule sint_word_of_int_in_range) (auto simp: in_signed_range_def max_def min_def)

lemma sint_clamp_s: "sint lo \<le> sint hi \<Longrightarrow> sint (clamp_s lo hi x) = max (sint lo) (min (sint hi) (sint x))"
  by (auto simp: clamp_s_def)

lemma sint_range_128: "- (2 ^ 127) \<le> sint w" "sint w < 2 ^ 127" for w :: i128
  using sint_ge [of w] sint_lt [of w] by simp_all

lemma unat_ucast_128_64: "0 \<le> sint w \<Longrightarrow> unat (ucast w :: u64) = nat (sint w) mod 2 ^ 64" for w :: i128
proof -
  assume "0 \<le> sint w"
  then have s: "w = word_of_nat (nat (sint w))"
    by (metis of_int_of_nat_eq int_nat_eq word_of_sint)
  have "unat w = nat (sint w)"
  proof -
    have "nat (sint w) < 2 ^ LENGTH(128)" using sint_range_128 [of w] by simp
    then show ?thesis by (subst s) (simp add: unat_of_nat)
  qed
  then show ?thesis by (simp add: unsigned_ucast_eq take_bit_eq_mod)
qed

definition equity_value :: "nat \<Rightarrow> int \<Rightarrow> nat" where
  \<comment> \<open>the specification: collateral plus profit, clamped to \<open>[0, 2c]\<close>\<close>
  "equity_value c pnl = nat (max 0 (min (2 * int c) (int c + pnl)))"

lemma equity_value_le: "equity_value c pnl \<le> 2 * c"
  by (simp add: equity_value_def)

lemma equity_value_sum: "equity_value c pnl + equity_value c (- pnl) = 2 * c"
  by (simp add: equity_value_def max_def min_def nat_eq_iff2) arith

lemma unat_bounded_equity: "unat (bounded_equity c pnl) = equity_value (unat c) (sint pnl) mod 2 ^ 64"
proof -
  have c: "unat c < 2 ^ 64" using unat_lt2p [of c] by simp
  then have ci: "int (unat c) < 2 ^ 64" by (metis of_nat_less_numeral_power_cancel_iff)
  let ?mx = "saturating_mul_s (ucast c) 2 :: i128"
  have m: "sint ?mx = 2 * int (unat c)"
    using ci by (simp add: saturating_mul_s_def sint_saturate_signed max_def min_def)
  let ?eq = "saturating_add_s (ucast c) pnl :: i128"
  have e: "sint ?eq = min (2 ^ 127 - 1) (int (unat c) + sint pnl)"
  proof -
    have "0 \<le> uint c" by simp
    then have "- (2 ^ 127) \<le> uint c + sint pnl" using sint_range_128(1) [of pnl] by linarith
    then show ?thesis by (simp add: saturating_add_s_def sint_saturate_signed max_def)
  qed
  have k: "sint (clamp_s 0 ?mx ?eq) = max 0 (min (2 * int (unat c)) (int (unat c) + sint pnl))"
    using ci by (simp add: sint_clamp_s m e)
  show ?thesis
    unfolding bounded_equity_def Let_def equity_value_def
    by (subst unat_ucast_128_64) (simp_all add: k)
qed

end
