(* ===== verification/Rb_Tree.thy ===== *)
theory Rb_Tree
  imports Intent_Book
begin

text \<open>
  The red-black tree algorithm shared by the intent trees and the seat tree. The code has it
  twice (\<open>src/state/intent_tree.rs\<close> and \<open>src/state/seat_tree.rs\<close>), over different node views; here
  it is written once over a record of the accessors, and the two tree theories supply theirs.
  The record also says whether a rotation checks for a missing child, which only the intent
  tree does. Loops take fuel: the callers give one unit for each slot of the node pool and
  one more, which a loop over an acyclic structure cannot exceed; a loop that runs out would
  not end, and the runtime stops it at the compute budget.
\<close>

datatype ordering = Less | Equal | Greater

definition cmp_of :: "'a::linorder \<Rightarrow> 'a \<Rightarrow> ordering" where
  "cmp_of a b = (if a < b then Less else if a = b then Equal else Greater)"

record 's rb_ops =
  op_root :: "('s, u32) prog"
  op_set_root :: "u32 \<Rightarrow> ('s, unit) prog"
  op_left :: "u32 \<Rightarrow> ('s, u32) prog"
  op_right :: "u32 \<Rightarrow> ('s, u32) prog"
  op_parent :: "u32 \<Rightarrow> ('s, u32) prog"
  op_color :: "u32 \<Rightarrow> ('s, u8) prog"
  op_set_left :: "u32 \<Rightarrow> u32 \<Rightarrow> ('s, unit) prog"
  op_set_right :: "u32 \<Rightarrow> u32 \<Rightarrow> ('s, unit) prog"
  op_set_parent :: "u32 \<Rightarrow> u32 \<Rightarrow> ('s, unit) prog"
  op_set_color :: "u32 \<Rightarrow> u8 \<Rightarrow> ('s, unit) prog"
  op_checked :: bool

section \<open>Rotations\<close>

definition rb_rotate_left :: "'s rb_ops \<Rightarrow> u32 \<Rightarrow> ('s, unit) prog" where
  "rb_rotate_left t x =
     bnd (op_right t x) (\<lambda>y.
     seq (require (\<not> (op_checked t \<and> y = NULL_IDX)) InvalidAccountData)
     (bnd (op_left t y) (\<lambda>y_left.
     seq (op_set_right t x y_left)
     (seq (when_do (y_left \<noteq> NULL_IDX) (op_set_parent t y_left x))
     (bnd (op_parent t x) (\<lambda>x_parent.
     seq (op_set_parent t y x_parent)
     (seq (if x_parent = NULL_IDX then op_set_root t y
           else bnd (op_left t x_parent) (\<lambda>l.
             if l = x then op_set_left t x_parent y else op_set_right t x_parent y))
     (seq (op_set_left t y x)
     (op_set_parent t x y)))))))))"

definition rb_rotate_right :: "'s rb_ops \<Rightarrow> u32 \<Rightarrow> ('s, unit) prog" where
  "rb_rotate_right t x =
     bnd (op_left t x) (\<lambda>y.
     seq (require (\<not> (op_checked t \<and> y = NULL_IDX)) InvalidAccountData)
     (bnd (op_right t y) (\<lambda>y_right.
     seq (op_set_left t x y_right)
     (seq (when_do (y_right \<noteq> NULL_IDX) (op_set_parent t y_right x))
     (bnd (op_parent t x) (\<lambda>x_parent.
     seq (op_set_parent t y x_parent)
     (seq (if x_parent = NULL_IDX then op_set_root t y
           else bnd (op_right t x_parent) (\<lambda>r.
             if r = x then op_set_right t x_parent y else op_set_left t x_parent y))
     (seq (op_set_right t y x)
     (op_set_parent t x y)))))))))"

section \<open>Insertion\<close>

text \<open>The descent to the parent of the new node; \<open>on_equal\<close> is the error for an equal key, if any.\<close>

primrec rb_descend ::
  "'s rb_ops \<Rightarrow> (u32 \<Rightarrow> ('s, ordering) prog) \<Rightarrow> polyleverage_error option \<Rightarrow> nat \<Rightarrow> u32 \<Rightarrow>
   ('s, u32 \<times> bool) prog" where
  "rb_descend t cmp on_equal 0 r = fail_with ComputeBudgetExceeded"
| "rb_descend t cmp on_equal (Suc fuel) r =
     bnd (cmp r) (\<lambda>ord.
     if ord = Less then
       bnd (op_left t r) (\<lambda>l.
         if l = NULL_IDX then ret (r, True) else rb_descend t cmp on_equal fuel l)
     else if ord = Equal \<and> on_equal \<noteq> None then fail_with (Custom (the on_equal))
     else
       bnd (op_right t r) (\<lambda>x.
         if x = NULL_IDX then ret (r, False) else rb_descend t cmp on_equal fuel x))"

definition rb_red_parent :: "'s rb_ops \<Rightarrow> u32 \<Rightarrow> ('s, bool) prog" where
  "rb_red_parent t z =
     bnd (op_parent t z) (\<lambda>p.
     if p = NULL_IDX then ret False else bnd (op_color t p) (\<lambda>c. ret (c = RB_RED)))"

text \<open>One pass of the fixup loop; the result is the next \<open>z\<close>.\<close>

definition rb_fix_recolor :: "'s rb_ops \<Rightarrow> u32 \<Rightarrow> u32 \<Rightarrow> u32 \<Rightarrow> ('s, u32) prog" where
  "rb_fix_recolor t p y gp =
     seq (op_set_color t p RB_BLACK)
     (seq (op_set_color t y RB_BLACK)
     (seq (op_set_color t gp RB_RED)
     (ret gp)))"

definition rb_insert_step :: "'s rb_ops \<Rightarrow> u32 \<Rightarrow> ('s, u32) prog" where
  "rb_insert_step t z =
     bnd (op_parent t z) (\<lambda>p.
     bnd (op_parent t p) (\<lambda>gp.
     bnd (op_left t gp) (\<lambda>gl.
     if p = gl then
       bnd (op_right t gp) (\<lambda>y.
       bnd (op_color t y) (\<lambda>yc.
       if y \<noteq> NULL_IDX \<and> yc = RB_RED then rb_fix_recolor t p y gp
       else
         bnd (op_right t p) (\<lambda>pr.
         bnd (if z = pr then seq (rb_rotate_left t p) (ret p) else ret z) (\<lambda>z.
         bnd (op_parent t z) (\<lambda>p.
         bnd (op_parent t p) (\<lambda>gp.
         seq (op_set_color t p RB_BLACK)
         (seq (op_set_color t gp RB_RED)
         (seq (rb_rotate_right t gp)
         (ret z)))))))))
     else
       bnd (op_left t gp) (\<lambda>y.
       bnd (op_color t y) (\<lambda>yc.
       if y \<noteq> NULL_IDX \<and> yc = RB_RED then rb_fix_recolor t p y gp
       else
         bnd (op_left t p) (\<lambda>pl.
         bnd (if z = pl then seq (rb_rotate_right t p) (ret p) else ret z) (\<lambda>z.
         bnd (op_parent t z) (\<lambda>p.
         bnd (op_parent t p) (\<lambda>gp.
         seq (op_set_color t p RB_BLACK)
         (seq (op_set_color t gp RB_RED)
         (seq (rb_rotate_left t gp)
         (ret z))))))))))))"

primrec rb_insert_loop :: "'s rb_ops \<Rightarrow> nat \<Rightarrow> u32 \<Rightarrow> ('s, unit) prog" where
  "rb_insert_loop t 0 z = fail_with ComputeBudgetExceeded"
| "rb_insert_loop t (Suc fuel) z =
     bnd (rb_red_parent t z) (\<lambda>go.
     if go then bnd (rb_insert_step t z) (\<lambda>z. rb_insert_loop t fuel z) else ret ())"

definition rb_insert_fixup :: "'s rb_ops \<Rightarrow> nat \<Rightarrow> u32 \<Rightarrow> ('s, unit) prog" where
  "rb_insert_fixup t fuel z =
     seq (rb_insert_loop t fuel z)
     (bnd (op_root t) (\<lambda>root. when_do (root \<noteq> NULL_IDX) (op_set_color t root RB_BLACK)))"

text \<open>Linking a prepared node below the root, and repairing the colors.\<close>

definition rb_link :: "'s rb_ops \<Rightarrow> (u32 \<Rightarrow> ('s, ordering) prog) \<Rightarrow> polyleverage_error option \<Rightarrow> nat \<Rightarrow> u32 \<Rightarrow>
   ('s, unit) prog" where
  "rb_link t cmp on_equal fuel idx =
     bnd (op_root t) (\<lambda>root.
     if root = NULL_IDX then seq (op_set_color t idx RB_BLACK) (op_set_root t idx)
     else
       bnd (rb_descend t cmp on_equal fuel root) (\<lambda>(parent, go_left).
       seq (op_set_parent t idx parent)
       (seq (if go_left then op_set_left t parent idx else op_set_right t parent idx)
       (rb_insert_fixup t fuel idx))))"

section \<open>Removal\<close>

primrec rb_minimum :: "'s rb_ops \<Rightarrow> nat \<Rightarrow> u32 \<Rightarrow> ('s, u32) prog" where
  "rb_minimum t 0 idx = fail_with ComputeBudgetExceeded"
| "rb_minimum t (Suc fuel) idx =
     (if idx = NULL_IDX then ret NULL_IDX
      else bnd (op_left t idx) (\<lambda>l. if l = NULL_IDX then ret idx else rb_minimum t fuel l))"

definition rb_transplant :: "'s rb_ops \<Rightarrow> u32 \<Rightarrow> u32 \<Rightarrow> ('s, unit) prog" where
  "rb_transplant t u v =
     bnd (op_parent t u) (\<lambda>up.
     seq (if up = NULL_IDX then op_set_root t v
          else bnd (op_left t up) (\<lambda>l.
            if u = l then op_set_left t up v else op_set_right t up v))
     (when_do (v \<noteq> NULL_IDX) (op_set_parent t v up)))"

text \<open>One pass of the removal fixup; \<open>None\<close> is the \<open>break\<close> with \<open>x\<close> the root.\<close>

definition rb_remove_step_left :: "'s rb_ops \<Rightarrow> u32 \<Rightarrow> ('s, (u32 \<times> u32) option) prog" where
  "rb_remove_step_left t x_parent =
     bnd (op_right t x_parent) (\<lambda>w.
     bnd (op_color t w) (\<lambda>wc.
     bnd (if wc = RB_RED then
            seq (op_set_color t w RB_BLACK)
            (seq (op_set_color t x_parent RB_RED)
            (seq (rb_rotate_left t x_parent)
            (op_right t x_parent)))
          else ret w) (\<lambda>w.
     bnd (op_left t w) (\<lambda>wl.
     bnd (op_color t wl) (\<lambda>wlc.
     bnd (op_right t w) (\<lambda>wr.
     bnd (op_color t wr) (\<lambda>wrc.
     if wlc = RB_BLACK \<and> wrc = RB_BLACK then
       seq (op_set_color t w RB_RED)
       (bnd (op_parent t x_parent) (\<lambda>pp. ret (Some (x_parent, pp))))
     else
       bnd (if wrc = RB_BLACK then
              bnd (op_left t w) (\<lambda>wl.
              seq (op_set_color t wl RB_BLACK)
              (seq (op_set_color t w RB_RED)
              (seq (rb_rotate_right t w)
              (op_right t x_parent))))
            else ret w) (\<lambda>w.
       bnd (op_color t x_parent) (\<lambda>xp_color.
       seq (op_set_color t w xp_color)
       (seq (op_set_color t x_parent RB_BLACK)
       (bnd (op_right t w) (\<lambda>wr.
       seq (op_set_color t wr RB_BLACK)
       (seq (rb_rotate_left t x_parent)
       (ret None))))))))))))))"

definition rb_remove_step_right :: "'s rb_ops \<Rightarrow> u32 \<Rightarrow> ('s, (u32 \<times> u32) option) prog" where
  "rb_remove_step_right t x_parent =
     bnd (op_left t x_parent) (\<lambda>w.
     bnd (op_color t w) (\<lambda>wc.
     bnd (if wc = RB_RED then
            seq (op_set_color t w RB_BLACK)
            (seq (op_set_color t x_parent RB_RED)
            (seq (rb_rotate_right t x_parent)
            (op_left t x_parent)))
          else ret w) (\<lambda>w.
     bnd (op_right t w) (\<lambda>wr.
     bnd (op_color t wr) (\<lambda>wrc.
     bnd (op_left t w) (\<lambda>wl.
     bnd (op_color t wl) (\<lambda>wlc.
     if wrc = RB_BLACK \<and> wlc = RB_BLACK then
       seq (op_set_color t w RB_RED)
       (bnd (op_parent t x_parent) (\<lambda>pp. ret (Some (x_parent, pp))))
     else
       bnd (if wlc = RB_BLACK then
              bnd (op_right t w) (\<lambda>wr.
              seq (op_set_color t wr RB_BLACK)
              (seq (op_set_color t w RB_RED)
              (seq (rb_rotate_left t w)
              (op_left t x_parent))))
            else ret w) (\<lambda>w.
       bnd (op_color t x_parent) (\<lambda>xp_color.
       seq (op_set_color t w xp_color)
       (seq (op_set_color t x_parent RB_BLACK)
       (bnd (op_left t w) (\<lambda>wl.
       seq (op_set_color t wl RB_BLACK)
       (seq (rb_rotate_right t x_parent)
       (ret None))))))))))))))"

primrec rb_remove_loop :: "'s rb_ops \<Rightarrow> nat \<Rightarrow> u32 \<Rightarrow> u32 \<Rightarrow> ('s, u32) prog" where
  "rb_remove_loop t 0 x x_parent = fail_with ComputeBudgetExceeded"
| "rb_remove_loop t (Suc fuel) x x_parent =
     bnd (op_root t) (\<lambda>root.
     if x = root then ret x
     else bnd (op_color t x) (\<lambda>xc.
     if xc \<noteq> RB_BLACK then ret x
     else bnd (op_left t x_parent) (\<lambda>l.
     bnd (if x = l then rb_remove_step_left t x_parent else rb_remove_step_right t x_parent) (\<lambda>r.
     case r of None \<Rightarrow> op_root t
     | Some (x', x_parent') \<Rightarrow> rb_remove_loop t fuel x' x_parent'))))"

definition rb_remove_fixup :: "'s rb_ops \<Rightarrow> nat \<Rightarrow> u32 \<Rightarrow> u32 \<Rightarrow> ('s, unit) prog" where
  "rb_remove_fixup t fuel x x_parent =
     bnd (rb_remove_loop t fuel x x_parent) (\<lambda>x.
     when_do (x \<noteq> NULL_IDX) (op_set_color t x RB_BLACK))"

text \<open>The three shapes of the removed node: no left child, no right child, both.\<close>

definition rb_splice :: "'s rb_ops \<Rightarrow> u32 \<Rightarrow> u32 \<Rightarrow> ('s, u32 \<times> u32) prog" where
  "rb_splice t z x =
     bnd (op_parent t z) (\<lambda>zp.
     seq (rb_transplant t z x)
     (bnd (if x = NULL_IDX then ret zp else op_parent t x) (\<lambda>x_parent.
     ret (x, x_parent))))"

definition rb_splice_both :: "'s rb_ops \<Rightarrow> nat \<Rightarrow> u32 \<Rightarrow> u32 \<Rightarrow> u32 \<Rightarrow> ('s, u8 \<times> u32 \<times> u32) prog" where
  "rb_splice_both t fuel z z_left z_right =
     bnd (rb_minimum t fuel z_right) (\<lambda>y.
     bnd (op_color t y) (\<lambda>y_color.
     bnd (op_right t y) (\<lambda>x.
     bnd (op_parent t y) (\<lambda>yp.
     bnd (if yp = z then
            seq (when_do (x \<noteq> NULL_IDX) (op_set_parent t x y)) (ret y)
          else
            bnd (op_parent t y) (\<lambda>yp.
            bnd (op_right t y) (\<lambda>yr.
            seq (rb_transplant t y yr)
            (seq (op_set_right t y z_right)
            (seq (op_set_parent t z_right y)
            (ret yp)))))) (\<lambda>x_parent.
     seq (rb_transplant t z y)
     (seq (op_set_left t y z_left)
     (seq (op_set_parent t z_left y)
     (bnd (op_color t z) (\<lambda>z_color.
     seq (op_set_color t y z_color)
     (ret (y_color, x, x_parent)))))))))))"

definition rb_remove :: "'s rb_ops \<Rightarrow> nat \<Rightarrow> u32 \<Rightarrow> ('s, unit) prog" where
  "rb_remove t fuel z =
     seq (require (z \<noteq> NULL_IDX) (Custom IntentNotFound))
     (bnd (op_color t z) (\<lambda>z_color.
     bnd (op_left t z) (\<lambda>z_left.
     bnd (op_right t z) (\<lambda>z_right.
     bnd (if z_left = NULL_IDX then
            bnd (rb_splice t z z_right) (\<lambda>(x, x_parent). ret (z_color, x, x_parent))
          else if z_right = NULL_IDX then
            bnd (rb_splice t z z_left) (\<lambda>(x, x_parent). ret (z_color, x, x_parent))
          else rb_splice_both t fuel z z_left z_right) (\<lambda>(y_original_color, x, x_parent).
     when_do (y_original_color = RB_BLACK) (rb_remove_fixup t fuel x x_parent))))))"

end
