(* ===== verification/Intent_Tree.thy ===== *)
theory Intent_Tree
  imports Rb_Tree
begin

text \<open>
  The two price-ordered trees of intents (\<open>src/state/intent_tree.rs\<close>): the side-aware key, the
  accessors that instantiate the red-black tree algorithm, insertion and removal, and the
  best-first traversal with its bounded stack.
\<close>

section \<open>The key\<close>

definition cmp_key :: "u8 \<Rightarrow> intent_node \<Rightarrow> intent_node \<Rightarrow> ordering" where
  "cmp_key side a b =
     (let price = (if side = SIDE_LONG then cmp_of (price_limit_fp b) (price_limit_fp a)
                   else cmp_of (price_limit_fp a) (price_limit_fp b))
      in if price = Equal then
           (let s = cmp_of (post_seq a) (post_seq b)
            in if s = Equal then cmp_of (intent_id a) (intent_id b) else s)
         else price)"

section \<open>Accessors\<close>

definition tree_root :: "book \<Rightarrow> u8 \<Rightarrow> u32 result" where
  "tree_root b side =
     (if side = SIDE_LONG then Inr (long_tree_root b)
      else if side = SIDE_SHORT then Inr (short_tree_root b)
      else err InvalidInstructionData)"

definition set_tree_root :: "u8 \<Rightarrow> u32 \<Rightarrow> (book, unit) prog" where
  "set_tree_root side r =
     (if side = SIDE_LONG then modify (\<lambda>b. b\<lparr> long_tree_root := r \<rparr>)
      else if side = SIDE_SHORT then modify (\<lambda>b. b\<lparr> short_tree_root := r \<rparr>)
      else fail_with (Custom InvalidInstructionData))"

definition itree_left :: "book \<Rightarrow> u32 \<Rightarrow> u32 result" where
  "itree_left b idx =
     (if idx = NULL_IDX then Inr NULL_IDX else try_res (intent b idx) (\<lambda>n. Inr (in_left n)))"

definition itree_right :: "book \<Rightarrow> u32 \<Rightarrow> u32 result" where
  "itree_right b idx =
     (if idx = NULL_IDX then Inr NULL_IDX else try_res (intent b idx) (\<lambda>n. Inr (in_right n)))"

definition itree_parent :: "book \<Rightarrow> u32 \<Rightarrow> u32 result" where
  "itree_parent b idx =
     (if idx = NULL_IDX then Inr NULL_IDX else try_res (intent b idx) (\<lambda>n. Inr (in_parent n)))"

definition itree_color :: "book \<Rightarrow> u32 \<Rightarrow> u8 result" where
  "itree_color b idx =
     (if idx = NULL_IDX then Inr RB_BLACK else try_res (intent b idx) (\<lambda>n. Inr (in_color n)))"

definition itree_set_left :: "u32 \<Rightarrow> u32 \<Rightarrow> (book, unit) prog" where
  "itree_set_left idx v =
     (if idx = NULL_IDX then ret () else intent_mut idx (\<lambda>n. n\<lparr> in_left := v \<rparr>))"

definition itree_set_right :: "u32 \<Rightarrow> u32 \<Rightarrow> (book, unit) prog" where
  "itree_set_right idx v =
     (if idx = NULL_IDX then ret () else intent_mut idx (\<lambda>n. n\<lparr> in_right := v \<rparr>))"

definition itree_set_parent :: "u32 \<Rightarrow> u32 \<Rightarrow> (book, unit) prog" where
  "itree_set_parent idx v =
     (if idx = NULL_IDX then ret () else intent_mut idx (\<lambda>n. n\<lparr> in_parent := v \<rparr>))"

definition itree_set_color :: "u32 \<Rightarrow> u8 \<Rightarrow> (book, unit) prog" where
  "itree_set_color idx c =
     (if idx = NULL_IDX then ret () else intent_mut idx (\<lambda>n. n\<lparr> in_color := c \<rparr>))"

definition intent_ops :: "u8 \<Rightarrow> book rb_ops" where
  "intent_ops side =
     \<lparr> op_root = asks (\<lambda>b. tree_root b side), op_set_root = set_tree_root side,
       op_left = (\<lambda>i. asks (\<lambda>b. itree_left b i)), op_right = (\<lambda>i. asks (\<lambda>b. itree_right b i)),
       op_parent = (\<lambda>i. asks (\<lambda>b. itree_parent b i)), op_color = (\<lambda>i. asks (\<lambda>b. itree_color b i)),
       op_set_left = itree_set_left, op_set_right = itree_set_right,
       op_set_parent = itree_set_parent, op_set_color = itree_set_color, op_checked = True \<rparr>"

text \<open>Fuel for a loop over the tree: no acyclic walk visits more than every slot of the pool.\<close>

definition pool_fuel :: "book \<Rightarrow> nat" where
  "pool_fuel b = Suc (length (bk_nodes b))"

section \<open>Insertion and removal\<close>

definition itree_insert :: "u8 \<Rightarrow> u32 \<Rightarrow> (book, unit) prog" where
  "itree_insert side idx =
     seq (require (idx \<noteq> NULL_IDX) InvalidAccountData)
     (seq (intent_mut idx (\<lambda>n. n\<lparr> in_left := NULL_IDX, in_right := NULL_IDX,
                                   in_parent := NULL_IDX, in_color := RB_RED \<rparr>))
     (bnd (gets pool_fuel) (\<lambda>fuel.
      rb_link (intent_ops side)
        (\<lambda>r. asks (\<lambda>b. try_res (intent b idx) (\<lambda>x. try_res (intent b r) (\<lambda>y. Inr (cmp_key side x y)))))
        None fuel idx)))"

definition itree_remove :: "u8 \<Rightarrow> u32 \<Rightarrow> (book, unit) prog" where
  "itree_remove side z = bnd (gets pool_fuel) (\<lambda>fuel. rb_remove (intent_ops side) fuel z)"

section \<open>Best-first traversal\<close>

definition STACK_CAP :: nat where "STACK_CAP = 64"

text \<open>The inner loop: push \<open>cur\<close> and its left spine. The head of the list is the top of the stack.\<close>

primrec push_left_spine :: "nat \<Rightarrow> book \<Rightarrow> u32 list \<Rightarrow> u32 \<Rightarrow> u32 list result" where
  "push_left_spine 0 b stack cur = Inl ComputeBudgetExceeded"
| "push_left_spine (Suc fuel) b stack cur =
     (if cur = NULL_IDX then Inr stack
      else if length stack \<ge> STACK_CAP then err ArithmeticOverflow
      else try_res (itree_left b cur) (\<lambda>l. push_left_spine fuel b (cur # stack) l))"

text \<open>The outer loop; the visitor threads its captured variables and says whether to continue.\<close>

primrec visit_best_first ::
  "nat \<Rightarrow> book \<Rightarrow> (u32 \<Rightarrow> intent_node \<Rightarrow> 'a \<Rightarrow> bool \<times> 'a) \<Rightarrow> u32 list \<Rightarrow> u32 \<Rightarrow> 'a \<Rightarrow> 'a result" where
  "visit_best_first 0 b visitor stack cur acc = Inl ComputeBudgetExceeded"
| "visit_best_first (Suc fuel) b visitor stack cur acc =
     try_res (push_left_spine (pool_fuel b) b stack cur) (\<lambda>stack.
     case stack of [] \<Rightarrow> Inr acc
     | i # rest \<Rightarrow>
         try_res (intent b i) (\<lambda>node.
         case visitor i node acc of (continue, acc) \<Rightarrow>
           if continue then visit_best_first fuel b visitor rest (in_right node) acc
           else Inr acc))"

definition for_each_best_first ::
  "book \<Rightarrow> u8 \<Rightarrow> (u32 \<Rightarrow> intent_node \<Rightarrow> 'a \<Rightarrow> bool \<times> 'a) \<Rightarrow> 'a \<Rightarrow> 'a result" where
  "for_each_best_first b side visitor acc =
     try_res (tree_root b side) (\<lambda>root.
     if root = NULL_IDX then Inr acc
     else visit_best_first (pool_fuel b) b visitor [] root acc)"

definition is_live_intent :: "u64 \<Rightarrow> intent_node \<Rightarrow> bool" where
  "is_live_intent now_slot node \<longleftrightarrow> contracts_remaining node > 0 \<and> expiration_slot node > now_slot"

definition first_live :: "book \<Rightarrow> u8 \<Rightarrow> u64 \<Rightarrow> (u32 \<times> intent_node) option result" where
  "first_live b side now_slot =
     for_each_best_first b side
       (\<lambda>idx node found. if is_live_intent now_slot node then (False, Some (idx, node))
                         else (True, found))
       None"

end
