(* ===== verification/Seat_Tree.thy ===== *)
theory Seat_Tree
  imports Rb_Tree
begin

text \<open>
  The tree of seats ordered by trader key (\<open>src/state/seat_tree.rs\<close>): accessors, lookup,
  insertion and find-or-create.
\<close>

definition stree_left :: "book \<Rightarrow> u32 \<Rightarrow> u32 result" where
  "stree_left b idx =
     (if idx = NULL_IDX then Inr NULL_IDX else try_res (seat b idx) (\<lambda>n. Inr (sn_left n)))"

definition stree_right :: "book \<Rightarrow> u32 \<Rightarrow> u32 result" where
  "stree_right b idx =
     (if idx = NULL_IDX then Inr NULL_IDX else try_res (seat b idx) (\<lambda>n. Inr (sn_right n)))"

definition stree_parent :: "book \<Rightarrow> u32 \<Rightarrow> u32 result" where
  "stree_parent b idx =
     (if idx = NULL_IDX then Inr NULL_IDX else try_res (seat b idx) (\<lambda>n. Inr (sn_parent n)))"

definition stree_color :: "book \<Rightarrow> u32 \<Rightarrow> u8 result" where
  "stree_color b idx =
     (if idx = NULL_IDX then Inr RB_BLACK else try_res (seat b idx) (\<lambda>n. Inr (sn_color n)))"

definition stree_set_left :: "u32 \<Rightarrow> u32 \<Rightarrow> (book, unit) prog" where
  "stree_set_left idx v =
     (if idx = NULL_IDX then ret () else seat_mut idx (\<lambda>n. n\<lparr> sn_left := v \<rparr>))"

definition stree_set_right :: "u32 \<Rightarrow> u32 \<Rightarrow> (book, unit) prog" where
  "stree_set_right idx v =
     (if idx = NULL_IDX then ret () else seat_mut idx (\<lambda>n. n\<lparr> sn_right := v \<rparr>))"

definition stree_set_parent :: "u32 \<Rightarrow> u32 \<Rightarrow> (book, unit) prog" where
  "stree_set_parent idx v =
     (if idx = NULL_IDX then ret () else seat_mut idx (\<lambda>n. n\<lparr> sn_parent := v \<rparr>))"

definition stree_set_color :: "u32 \<Rightarrow> u8 \<Rightarrow> (book, unit) prog" where
  "stree_set_color idx c =
     (if idx = NULL_IDX then ret () else seat_mut idx (\<lambda>n. n\<lparr> sn_color := c \<rparr>))"

definition seat_ops :: "book rb_ops" where
  "seat_ops =
     \<lparr> op_root = gets seat_tree_root, op_set_root = (\<lambda>r. modify (\<lambda>b. b\<lparr> seat_tree_root := r \<rparr>)),
       op_left = (\<lambda>i. asks (\<lambda>b. stree_left b i)), op_right = (\<lambda>i. asks (\<lambda>b. stree_right b i)),
       op_parent = (\<lambda>i. asks (\<lambda>b. stree_parent b i)), op_color = (\<lambda>i. asks (\<lambda>b. stree_color b i)),
       op_set_left = stree_set_left, op_set_right = stree_set_right,
       op_set_parent = stree_set_parent, op_set_color = stree_set_color, op_checked = False \<rparr>"

definition seat_fuel :: "book \<Rightarrow> nat" where
  "seat_fuel b = Suc (length (bk_nodes b))"

section \<open>Lookup\<close>

primrec seat_find_loop :: "nat \<Rightarrow> book \<Rightarrow> pubkey \<Rightarrow> u32 \<Rightarrow> u32 result" where
  "seat_find_loop 0 b k cur = Inl ComputeBudgetExceeded"
| "seat_find_loop (Suc fuel) b k cur =
     (if cur = NULL_IDX then Inr NULL_IDX
      else try_res (seat b cur) (\<lambda>node.
        case cmp_of k (trader node) of
          Less \<Rightarrow> seat_find_loop fuel b k (sn_left node)
        | Greater \<Rightarrow> seat_find_loop fuel b k (sn_right node)
        | Equal \<Rightarrow> Inr cur))"

definition seat_find :: "book \<Rightarrow> pubkey \<Rightarrow> u32 result" where
  "seat_find b k = seat_find_loop (seat_fuel b) b k (seat_tree_root b)"

section \<open>Insertion\<close>

definition stree_insert :: "u32 \<Rightarrow> (book, unit) prog" where
  "stree_insert idx =
     seq (require (idx \<noteq> NULL_IDX) InvalidAccountData)
     (seq (seat_mut idx (\<lambda>n. n\<lparr> sn_left := NULL_IDX, sn_right := NULL_IDX,
                                 sn_parent := NULL_IDX, sn_color := RB_RED \<rparr>))
     (bnd (asks (\<lambda>b. seat b idx)) (\<lambda>n.
      bnd (gets seat_fuel) (\<lambda>fuel.
      rb_link seat_ops
        (\<lambda>r. asks (\<lambda>b. try_res (seat b r) (\<lambda>y. Inr (cmp_of (trader n) (trader y)))))
        (Some AlreadyInitialized) fuel idx))))"

definition seat_find_or_create :: "pubkey \<Rightarrow> (book, u32) prog" where
  "seat_find_or_create k =
     bnd (asks (\<lambda>b. seat_find b k)) (\<lambda>existing.
     if existing \<noteq> NULL_IDX then ret existing
     else bnd alloc_node (\<lambda>idx.
       seq (write_seat idx
         \<lparr> sn_color = RB_RED, sn_left = NULL_IDX, sn_right = NULL_IDX, sn_parent = NULL_IDX,
           trader = k, active_intent_count = 0, sn_flags = 0 \<rparr>)
       (seq (stree_insert idx)
       (ret idx))))"

end
