(* ===== verification/Match_Ix.thy ===== *)
theory Match_Ix
  imports Fees_Ix Margin_Ix Fixed_Math Intent_Tree Seat_Tree
begin

text \<open>
  Matching (\<open>processor/match_ix.rs\<close>): discovery of a crossing pair, and \<open>match_pair_core\<close> in its
  stages: resolve the two intents and take one contract of each inside the book, validate the
  margin accounts, charge the taker and count both volumes, settle the two margins, open the
  position.
\<close>

section \<open>Discovery\<close>

primrec find_intent_loop :: "u64 \<Rightarrow> nat \<Rightarrow> node list \<Rightarrow> (u32 \<times> u8) result" where
  "find_intent_loop nid i [] = err IntentNotFound"
| "find_intent_loop nid i (slot # rest) =
     (case slot of
        NIntent node \<Rightarrow> if intent_id node = nid then Inr (of_nat i, in_side node)
                        else find_intent_loop nid (Suc i) rest
      | _ \<Rightarrow> find_intent_loop nid (Suc i) rest)"

definition find_intent_by_id :: "book \<Rightarrow> u64 \<Rightarrow> (u32 \<times> u8) result" where
  "find_intent_by_id b nid = find_intent_loop nid 0 (bk_nodes b)"

definition find_overlap_on_side ::
  "book \<Rightarrow> u8 \<Rightarrow> u64 \<Rightarrow> u64 \<Rightarrow> u64 \<Rightarrow> u64 option result" where
  "find_overlap_on_side b opposite_side taker_price now_slot skip_id =
     for_each_best_first b opposite_side
       (\<lambda>idx node found.
          if contracts_remaining node = 0 \<or> expiration_slot node \<le> now_slot \<or> intent_id node = skip_id
          then (True, found)
          else let crosses = (if opposite_side = SIDE_SHORT then taker_price \<ge> price_limit_fp node
                              else price_limit_fp node \<ge> taker_price)
               in (False, if crosses then Some (intent_id node) else found))
       None"

definition scan_for_first_valid_pair :: "book \<Rightarrow> u64 \<Rightarrow> (u64 \<times> u64) option result" where
  "scan_for_first_valid_pair b now_slot =
     try_res (first_live b SIDE_LONG now_slot) (\<lambda>best_long.
     try_res (first_live b SIDE_SHORT now_slot) (\<lambda>best_short.
     Inr (case (best_long, best_short) of
            (Some (_, long), Some (_, short)) \<Rightarrow>
              if price_limit_fp long \<ge> price_limit_fp short
              then Some (intent_id long, intent_id short) else None
          | _ \<Rightarrow> None)))"

section \<open>One contract of each side\<close>

definition release_fee_buffer_for_fill :: "u64 \<Rightarrow> u16 \<Rightarrow> u16 \<Rightarrow> u64 result" where
  "release_fee_buffer_for_fill buffer contracts_remaining_before fill_contracts =
     (if fill_contracts = 0 \<or> contracts_remaining_before = 0 \<or>
         fill_contracts > contracts_remaining_before then err InvalidContractCount
      else if fill_contracts = contracts_remaining_before then Inr buffer
      else try_res (no_panic (checked_mul (ucast buffer :: u128) (ucast fill_contracts))) (\<lambda>product.
        let released = product div ucast contracts_remaining_before in
        if unat released < 2 ^ 64 then Inr (ucast released) else err ArithmeticOverflow))"

text \<open>The checks on the two intents, up to the crossing test.\<close>

definition resolve_pair ::
  "env \<Rightarrow> book \<Rightarrow> u64 \<Rightarrow> u64 \<Rightarrow> (u32 \<times> u32 \<times> intent_node \<times> intent_node) result" where
  "resolve_pair e b long_intent_id short_intent_id =
     try_res (find_intent_by_id b long_intent_id) (\<lambda>(long_idx, long_side).
     try_res (find_intent_by_id b short_intent_id) (\<lambda>(short_idx, short_side).
     try_res (check (\<not> (long_side \<noteq> SIDE_LONG \<or> short_side \<noteq> SIDE_SHORT)) NotOppositeSides) (\<lambda>_.
     try_res (intent b long_idx) (\<lambda>long.
     try_res (intent b short_idx) (\<lambda>short.
     try_res (check (\<not> (expiration_slot long \<le> clock_slot e \<or> expiration_slot short \<le> clock_slot e))
               IntentExpired) (\<lambda>_.
     try_res (check (\<not> (contracts_remaining long = 0 \<or> contracts_remaining short = 0)) IntentNotFound) (\<lambda>_.
     try_res (check (\<not> price_limit_fp long < price_limit_fp short) NoRangeOverlap) (\<lambda>_.
     Inr (long_idx, short_idx, long, short)))))))))"

text \<open>The new counters and reservations of both nodes, in the order the code checks them.\<close>

definition fee_release_of :: "intent_node \<Rightarrow> u64 result" where
  "fee_release_of n = (if contracts_remaining n = 1 then Inr (fee_buffer n)
     else release_fee_buffer_for_fill (fee_buffer n) (contracts_remaining n) 1)"

definition consume_pair ::
  "u64 \<Rightarrow> u16 \<Rightarrow> u16 \<Rightarrow> intent_node \<Rightarrow> intent_node \<Rightarrow> (intent_node \<times> intent_node \<times> u64 \<times> u64) result" where
  "consume_pair bucket long_left short_left long short =
     try_res (ok_or_err (checked_sub (intent_reserved long) bucket) InsufficientReservedCollateral) (\<lambda>lr.
     try_res (ok_or_err (checked_sub (intent_reserved short) bucket) InsufficientReservedCollateral) (\<lambda>sr.
     try_res (fee_release_of long) (\<lambda>release_long.
     try_res (fee_release_of short) (\<lambda>release_short.
     try_res (ok_or_err (checked_sub (fee_buffer long) release_long) ArithmeticUnderflow) (\<lambda>lb.
     try_res (ok_or_err (checked_sub (fee_buffer short) release_short) ArithmeticUnderflow) (\<lambda>sb.
     Inr (long\<lparr> contracts_remaining := long_left, intent_reserved := lr, fee_buffer := lb \<rparr>,
          short\<lparr> contracts_remaining := short_left, intent_reserved := sr, fee_buffer := sb \<rparr>,
          release_long, release_short)))))))"

definition remove_if_filled :: "u8 \<Rightarrow> u32 \<Rightarrow> intent_node \<Rightarrow> (book, unit) prog" where
  "remove_if_filled side idx n =
     when_do (contracts_remaining n = 0) (seq (itree_remove side idx) (free_node idx))"

definition consume_in_book ::
  "u64 \<Rightarrow> u16 \<Rightarrow> u16 \<Rightarrow> u32 \<Rightarrow> u32 \<Rightarrow> intent_node \<Rightarrow> intent_node \<Rightarrow>
   (book, intent_node \<times> intent_node \<times> u64 \<times> u64) prog" where
  "consume_in_book bucket long_left short_left long_idx short_idx long0 short0 =
     bnd (lift (consume_pair bucket long_left short_left long0 short0)) (\<lambda>(long, short, rl, rs).
     seq (intent_mut long_idx (\<lambda>_. long))
     (seq (intent_mut short_idx (\<lambda>_. short))
     (seq (remove_if_filled SIDE_LONG long_idx long)
     (seq (remove_if_filled SIDE_SHORT short_idx short)
     (ret (long, short, rl, rs))))))"

section \<open>The book stage\<close>

record match_result =
  mr_long_trader :: pubkey
  mr_short_trader :: pubkey
  mr_entry_fp :: u64
  mr_release_long :: u64
  mr_release_short :: u64
  mr_taker_is_long :: bool
  mr_long_reentry :: bool
  mr_short_reentry :: bool
  mr_long_price :: u64
  mr_short_price :: u64

definition pmlc_seeds :: "pubkey \<Rightarrow> u64 \<Rightarrow> seeds" where
  "pmlc_seeds instrument nid = [SEED_PMLC, key_bytes instrument, to_le_bytes nid]"

definition seat_trader :: "book \<Rightarrow> u32 \<Rightarrow> pubkey result" where
  "seat_trader b idx = try_res (seat b idx) (\<lambda>s. Inr (trader s))"

definition match_in_book ::
  "env \<Rightarrow> pubkey \<Rightarrow> pubkey \<Rightarrow> u64 \<Rightarrow> u64 \<Rightarrow> u64 \<Rightarrow> (book, match_result \<times> u64 \<times> u8) prog" where
  "match_in_book e instrument_key pmlc_key bucket long_intent_id short_intent_id =
     bnd (asks (\<lambda>b. resolve_pair e b long_intent_id short_intent_id)) (\<lambda>(long_idx, short_idx, long0, short0).
     bnd (lift (no_panic (checked_sub (contracts_remaining long0) 1))) (\<lambda>long_left.
     bnd (lift (no_panic (checked_sub (contracts_remaining short0) 1))) (\<lambda>short_left.
     bnd (consume_in_book bucket long_left short_left long_idx short_idx long0 short0)
       (\<lambda>(long, short, release_long, release_short).
     bnd next_intent_id (\<lambda>pmlc_id.
     bnd (lift (assert_pda e (pmlc_seeds instrument_key pmlc_id) pmlc_key)) (\<lambda>bump.
     bnd (asks (\<lambda>b. seat_trader b (owner_seat long))) (\<lambda>long_trader.
     bnd (asks (\<lambda>b. seat_trader b (owner_seat short))) (\<lambda>short_trader.
     ret (\<lparr> mr_long_trader = long_trader, mr_short_trader = short_trader,
            mr_entry_fp = price_midpoint (price_limit_fp long) (price_limit_fp short),
            mr_release_long = release_long, mr_release_short = release_short,
            mr_taker_is_long = (post_seq long > post_seq short),
            mr_long_reentry = (in_flags long AND INTENT_FLAG_REENTRY \<noteq> 0),
            mr_short_reentry = (in_flags short AND INTENT_FLAG_REENTRY \<noteq> 0),
            mr_long_price = price_limit_fp long, mr_short_price = price_limit_fp short \<rparr>,
          pmlc_id, bump)))))))))"

section \<open>Fees and volumes\<close>

definition ensure_user_volume ::
  "env \<Rightarrow> account_info \<Rightarrow> account_info \<Rightarrow> pubkey \<Rightarrow> pubkey \<Rightarrow> account_info \<Rightarrow> unit handler" where
  "ensure_user_volume e payer volume_ai owner mint system_program =
     bnd (pda e [SEED_USER_VOLUME, key_bytes owner, key_bytes mint] volume_ai) (\<lambda>bump.
     bnd (gets (acct_len volume_ai)) (\<lambda>len.
     if len \<noteq> 0 then
       seq (assert_owner (program_id e) volume_ai)
       (bnd (read_acct load_user_volume volume_ai) (\<lambda>v.
        ensure (\<not> (uv_owner v \<noteq> owner \<or> uv_mint v \<noteq> mint \<or> uv_bump v \<noteq> bump)) InvalidPda))
     else
       seq (create_account e payer volume_ai system_program USER_VOLUME_LEN (program_id e)
              [SEED_USER_VOLUME, key_bytes owner, key_bytes mint, [bump]])
       (init_acct USER_VOLUME_LEN volume_ai
          (DUserVolume (new_user_volume owner mint (clock_slot e) bump)))))"

record fee_ctx =
  fc_fee_schedule_ai :: account_info
  fc_taker_volume_ai :: account_info
  fc_maker_volume_ai :: account_info
  fc_fee_treasury_ai :: account_info

record match_ctx =
  mc_payer :: account_info
  mc_instrument_ai :: account_info
  mc_book_ai :: account_info
  mc_long_margin_ai :: account_info
  mc_short_margin_ai :: account_info
  mc_pmlc_ai :: account_info
  mc_system_program :: account_info
  mc_fee_ctx :: "fee_ctx option"

definition fee_atoms_of :: "u64 \<Rightarrow> u16 \<Rightarrow> u64 result" where
  "fee_atoms_of per_side_collateral fee_bps =
     try_res (no_panic (checked_mul (ucast per_side_collateral :: u128) (ucast fee_bps))) (\<lambda>v.
     Inr (ucast (v div ucast BPS_DENOM)))"

definition charge_taker ::
  "env \<Rightarrow> match_ctx \<Rightarrow> fee_ctx \<Rightarrow> pubkey \<Rightarrow> pubkey \<Rightarrow> pubkey \<Rightarrow> u64 \<Rightarrow> u64 handler" where
  "charge_taker e ctx fc taker_key maker_key mint per_side_collateral =
     seq (ensure_fee_treasury e (mc_payer ctx) (fc_fee_treasury_ai fc) mint (mc_system_program ctx))
     (seq (ensure_user_volume e (mc_payer ctx) (fc_taker_volume_ai fc) taker_key mint (mc_system_program ctx))
     (seq (ensure_user_volume e (mc_payer ctx) (fc_maker_volume_ai fc) maker_key mint (mc_system_program ctx))
     (bnd (read_acct load_fee_schedule (fc_fee_schedule_ai fc)) (\<lambda>sched.
      bnd (read_acct load_user_volume (fc_taker_volume_ai fc)) (\<lambda>vol.
      bnd (lift (fee_atoms_of per_side_collateral
             (fee_for_volume sched (effective_30d_volume vol (clock_slot e))))) (\<lambda>fee_atoms.
      seq (edit_acct load_user_volume DUserVolume (fc_taker_volume_ai fc)
             (add_volume per_side_collateral (clock_slot e)))
      (seq (edit_acct load_user_volume DUserVolume (fc_maker_volume_ai fc)
             (add_volume per_side_collateral (clock_slot e)))
      (seq (when_do (fee_atoms > 0)
             (edit_acct load_treasury DTreasury (fc_fee_treasury_ai fc) (accrue fee_atoms)))
      (ret fee_atoms)))))))))"

section \<open>Settlement of a fill and the position\<close>

definition settle_fill :: "u64 \<Rightarrow> u64 \<Rightarrow> bool \<Rightarrow> u64 \<Rightarrow> (margin_account, unit) prog" where
  "settle_fill per_side_collateral released is_taker fee =
     seq (move_reserved_to_locked per_side_collateral)
     (seq (when_do (released > 0) (move_reserved_to_free released))
     (when_do (is_taker \<and> fee > 0) (debit_free fee)))"

definition reentry_flags :: "match_result \<Rightarrow> u8" where
  "reentry_flags r =
     (if mr_long_reentry r then PMLC_FLAG_LONG_REENTRY else 0) OR
     (if mr_short_reentry r then PMLC_FLAG_SHORT_REENTRY else 0)"

definition new_pmlc ::
  "env \<Rightarrow> pubkey \<Rightarrow> instrument_config \<Rightarrow> match_result \<Rightarrow> u64 \<Rightarrow> u8 \<Rightarrow> u128 \<Rightarrow> u128 \<Rightarrow> pmlc" where
  "new_pmlc e instrument_key inst r nid bump notional sz =
     \<lparr> pm_status = PMLC_STATUS_LIVE, close_reason = 0, pm_flags = reentry_flags r, pm_bump = bump,
       pm_id = nid, pm_instrument = instrument_key, pm_mint = ic_mint inst,
       pm_market_id = ic_market_id inst, long_owner = mr_long_trader r,
       short_owner = mr_short_trader r, collateral_per_side = collateral_bucket inst,
       pm_leverage_bps = ic_leverage_bps inst, entry_price_fp = mr_entry_fp r,
       pm_notional_atoms = (if unat notional < 2 ^ 64 then ucast notional else - 1),
       size_fp_lo = ucast sz, size_fp_hi = ucast (drop_bit 64 sz),
       opened_slot = clock_slot e, last_mark_slot = clock_slot e,
       long_reentry_price_fp = mr_long_price r, short_reentry_price_fp = mr_short_price r \<rparr>"

definition open_pmlc ::
  "env \<Rightarrow> match_ctx \<Rightarrow> instrument_config \<Rightarrow> match_result \<Rightarrow> u64 \<Rightarrow> u8 \<Rightarrow> unit handler" where
  "open_pmlc e ctx inst r nid bump =
     (let instrument_key = ai_key (mc_instrument_ai ctx) in
      seq (create_account e (mc_payer ctx) (mc_pmlc_ai ctx) (mc_system_program ctx) PMLC_LEN
             (program_id e) (pmlc_seeds instrument_key nid @ [[bump]]))
      (bnd (lift (notional_atoms (collateral_bucket inst) (ic_leverage_bps inst))) (\<lambda>notional.
       bnd (lift (position_size_fp notional (mr_entry_fp r))) (\<lambda>sz.
       seq (check_world (\<lambda>w. PMLC_LEN \<le> acct_len (mc_pmlc_ai ctx) w) Panicked)
       (modify (set_data (ai_key (mc_pmlc_ai ctx))
          (DPmlc (new_pmlc e instrument_key inst r nid bump notional sz))))))))"

section \<open>The core\<close>

definition settle_match ::
  "env \<Rightarrow> match_ctx \<Rightarrow> instrument_config \<Rightarrow> match_result \<Rightarrow> unit handler" where
  "settle_match e ctx inst r =
     (let mint = ic_mint inst; bucket = collateral_bucket inst in
      seq (validate_margin_pda e (mc_long_margin_ai ctx) (mr_long_trader r) mint)
      (seq (validate_margin_pda e (mc_short_margin_ai ctx) (mr_short_trader r) mint)
      (bnd (lift (ok_or_err (mc_fee_ctx ctx) FeeAccountsRequired)) (\<lambda>fc.
       bnd (charge_taker e ctx fc
              (if mr_taker_is_long r then mr_long_trader r else mr_short_trader r)
              (if mr_taker_is_long r then mr_short_trader r else mr_long_trader r) mint bucket) (\<lambda>fee.
       seq (edit_acct load_margin DMargin (mc_long_margin_ai ctx)
              (settle_fill bucket (mr_release_long r) (mr_taker_is_long r) fee))
       (edit_acct load_margin DMargin (mc_short_margin_ai ctx)
          (settle_fill bucket (mr_release_short r) (\<not> mr_taker_is_long r) fee)))))))"

definition match_pair_core ::
  "env \<Rightarrow> match_ctx \<Rightarrow> u64 \<Rightarrow> u64 \<Rightarrow> u16 \<Rightarrow> unit handler" where
  "match_pair_core e ctx long_intent_id short_intent_id max_contracts =
     bnd (read_acct load_instrument (mc_instrument_ai ctx)) (\<lambda>inst.
     seq (lift (require_active inst))
     (seq (ensure (ic_book inst = ai_key (mc_book_ai ctx)) InvalidPda)
     (bnd (edit_acct load_book DBook (mc_book_ai ctx)
             (match_in_book e (ai_key (mc_instrument_ai ctx)) (ai_key (mc_pmlc_ai ctx))
                (collateral_bucket inst) long_intent_id short_intent_id)) (\<lambda>(r, nid, bump).
      seq (settle_match e ctx inst r)
      (open_pmlc e ctx inst r nid bump)))))"

section \<open>Entry points\<close>

definition unpack_accounts :: "env \<Rightarrow> account_info list \<Rightarrow> match_ctx handler" where
  "unpack_accounts e accounts =
     seq (need_accounts 7 accounts)
     (let payer = accounts ! 0; instrument_ai = accounts ! 1; book_ai = accounts ! 2;
          long_margin_ai = accounts ! 3; short_margin_ai = accounts ! 4; pmlc_ai = accounts ! 5;
          system_program = accounts ! 6 in
      seq (assert_signers [payer])
      (seq (assert_writables [book_ai, long_margin_ai, short_margin_ai, pmlc_ai])
      (seq (assert_owners (program_id e) [instrument_ai, book_ai, long_margin_ai, short_margin_ai])
      (seq (require (ai_key system_program = system_program_id e) InvalidAccountData)
      (seq (ensure (\<not> length accounts < 11) FeeAccountsRequired)
      (let fee_schedule_ai = accounts ! 7; taker_volume_ai = accounts ! 8;
           maker_volume_ai = accounts ! 9; fee_treasury_ai = accounts ! 10 in
       seq (assert_writables [taker_volume_ai, maker_volume_ai, fee_treasury_ai])
       (seq (assert_owner (program_id e) fee_schedule_ai)
       (bnd (pda e [SEED_FEE_SCHEDULE] fee_schedule_ai) (\<lambda>_.
        ret \<lparr> mc_payer = payer, mc_instrument_ai = instrument_ai, mc_book_ai = book_ai,
              mc_long_margin_ai = long_margin_ai, mc_short_margin_ai = short_margin_ai,
              mc_pmlc_ai = pmlc_ai, mc_system_program = system_program,
              mc_fee_ctx = Some \<lparr> fc_fee_schedule_ai = fee_schedule_ai,
                fc_taker_volume_ai = taker_volume_ai, fc_maker_volume_ai = maker_volume_ai,
                fc_fee_treasury_ai = fee_treasury_ai \<rparr> \<rparr>)))))))))"

record match_pair_args =
  mpa_long_intent_id :: u64
  mpa_short_intent_id :: u64
  mpa_max_contracts :: u16

definition process_match_pair :: "env \<Rightarrow> account_info list \<Rightarrow> match_pair_args \<Rightarrow> unit handler" where
  "process_match_pair e accounts args =
     bnd (unpack_accounts e accounts) (\<lambda>ctx.
     match_pair_core e ctx (mpa_long_intent_id args) (mpa_short_intent_id args) (mpa_max_contracts args))"

definition process_match_best_available :: "env \<Rightarrow> account_info list \<Rightarrow> unit handler" where
  "process_match_best_available e accounts =
     bnd (unpack_accounts e accounts) (\<lambda>ctx.
     bnd (read_acct load_book (mc_book_ai ctx)) (\<lambda>b.
     bnd (lift (scan_for_first_valid_pair b (clock_slot e))) (\<lambda>pair.
     bnd (lift (ok_or_err pair IntentNotFound)) (\<lambda>(long_id, short_id).
     match_pair_core e ctx long_id short_id 1))))"

end
