(* ===== verification/Intent_Ix.thy ===== *)
theory Intent_Ix
  imports Match_Ix
begin

text \<open>
  Posting and cancelling intents, directly and through a session (\<open>processor/intent.rs\<close>).
  \<open>do_post_intent_inner\<close> is split into the blocks of the source: the checks, the reservation,
  the session charge, the pruning of the poster's expired intents, the margin update, the
  placement of the node, and the best-effort inline match, whose errors are swallowed with the
  writes made so far kept.
\<close>

section \<open>Reservation\<close>

definition fee_buffer_for :: "u16 \<Rightarrow> u64 \<Rightarrow> u16 \<Rightarrow> u64 result" where
  "fee_buffer_for contracts bucket max_tier_fee =
     ok_or_err
       (Option.bind (checked_mul (ucast contracts :: u128) (ucast bucket)) (\<lambda>v.
        Option.bind (checked_mul v (ucast max_tier_fee)) (\<lambda>v.
        Option.bind (checked_div v (ucast BPS_DENOM)) (\<lambda>v.
        if unat v < 2 ^ 64 then Some (ucast v) else None))))
       ArithmeticOverflow"

record post_intent_args =
  pia_side :: u8
  pia_price_fp :: u64
  pia_contracts :: u16
  pia_expiration_slot :: u64
  pia_reentry_enabled :: u8
  pia_try_match :: u8
  pia_max_pairs :: u8

definition check_post_args :: "env \<Rightarrow> instrument_config \<Rightarrow> post_intent_args \<Rightarrow> unit result" where
  "check_post_args e inst args =
     (if pia_side args \<noteq> SIDE_LONG \<and> pia_side args \<noteq> SIDE_SHORT then err InvalidInstructionData
      else if pia_contracts args = 0 then err InvalidContractCount
      else try_res (validate_price_ticked (pia_price_fp args) (tick_fp inst)) (\<lambda>_.
        check (\<not> pia_expiration_slot args \<le> clock_slot e) IntentExpired))"

definition reservation :: "u16 \<Rightarrow> u64 \<Rightarrow> u16 \<Rightarrow> (u64 \<times> u64 \<times> u64) result" where
  \<comment> \<open>collateral, fee buffer, and their sum\<close>
  "reservation contracts bucket max_fee =
     try_res (ok_or_err (checked_mul (ucast contracts) bucket) ArithmeticOverflow) (\<lambda>collateral_reserve.
     try_res (fee_buffer_for contracts bucket max_fee) (\<lambda>buffer.
     try_res (ok_or_err (checked_add collateral_reserve buffer) ArithmeticOverflow) (\<lambda>amt.
     Inr (collateral_reserve, buffer, amt))))"

section \<open>Pruning on post\<close>

definition MAX_PRUNES_PER_POST :: nat where "MAX_PRUNES_PER_POST = 4"

primrec collect_own_expired ::
  "u32 \<Rightarrow> u64 \<Rightarrow> nat \<Rightarrow> node list \<Rightarrow> (u8 \<times> u32 \<times> u64) list \<Rightarrow> (u8 \<times> u32 \<times> u64) list result" where
  "collect_own_expired seat_idx now i [] buf = Inr buf"
| "collect_own_expired seat_idx now i (slot # rest) buf =
     (if length buf \<ge> MAX_PRUNES_PER_POST then Inr buf
      else case slot of
        NIntent node \<Rightarrow>
          if owner_seat node \<noteq> seat_idx \<or> expiration_slot node > now \<or> contracts_remaining node = 0
          then collect_own_expired seat_idx now (Suc i) rest buf
          else try_res (ok_or_err (checked_add (intent_reserved node) (fee_buffer node)) ArithmeticOverflow)
            (\<lambda>amt. collect_own_expired seat_idx now (Suc i) rest
                       (buf @ [(in_side node, of_nat i, amt)]))
      | _ \<Rightarrow> collect_own_expired seat_idx now (Suc i) rest buf)"

primrec prune_each :: "(u8 \<times> u32 \<times> u64) list \<Rightarrow> u64 \<Rightarrow> (book, u64) prog" where
  "prune_each [] refund = ret refund"
| "prune_each (x # xs) refund = (case x of (side, idx, amt) \<Rightarrow>
     seq (itree_remove side idx)
     (seq (free_node idx)
     (bnd (lift (ok_or_err (checked_add refund amt) ArithmeticOverflow)) (\<lambda>refund.
      prune_each xs refund))))"

definition prune_own :: "pubkey \<Rightarrow> u64 \<Rightarrow> (book, u64) prog" where
  "prune_own owner now =
     bnd (asks (\<lambda>b. seat_find b owner)) (\<lambda>seat_idx.
     if seat_idx = NULL_IDX then ret 0
     else bnd (asks (\<lambda>b. collect_own_expired seat_idx now 0 (bk_nodes b) [])) (\<lambda>buf.
       bnd (prune_each buf 0) (\<lambda>refund.
       seq (when_do (length buf > 0)
              (seat_mut seat_idx (\<lambda>s. s\<lparr> active_intent_count :=
                 saturating_sub (active_intent_count s) (of_nat (length buf)) \<rparr>)))
       (ret refund))))"

section \<open>Placing the node\<close>

definition new_intent ::
  "u8 \<Rightarrow> u8 \<Rightarrow> u64 \<Rightarrow> u64 \<Rightarrow> u32 \<Rightarrow> u16 \<Rightarrow> u64 \<Rightarrow> u64 \<Rightarrow> u64 \<Rightarrow> u64 \<Rightarrow> intent_node" where
  "new_intent side flags price nid seat_idx contracts expiration seq_no collateral buffer =
     \<lparr> in_side = side, in_color = RB_RED, in_flags = flags, in_left = NULL_IDX, in_right = NULL_IDX,
       in_parent = NULL_IDX, price_limit_fp = price, intent_id = nid, owner_seat = seat_idx,
       contracts_total = contracts, contracts_remaining = contracts, expiration_slot = expiration,
       post_seq = seq_no, intent_reserved = collateral, fee_buffer = buffer \<rparr>"

definition count_new_intent :: "u32 \<Rightarrow> (book, unit) prog" where
  "count_new_intent seat_idx =
     bnd (asks (\<lambda>b. seat b seat_idx)) (\<lambda>s.
     bnd (lift (ok_or_err (checked_add (active_intent_count s) 1) ArithmeticOverflow)) (\<lambda>n.
     seat_mut seat_idx (\<lambda>s. s\<lparr> active_intent_count := n \<rparr>)))"

definition place_intent ::
  "pubkey \<Rightarrow> u8 \<Rightarrow> u8 \<Rightarrow> u64 \<Rightarrow> u16 \<Rightarrow> u64 \<Rightarrow> u64 \<Rightarrow> u64 \<Rightarrow> (book, u64) prog" where
  "place_intent owner side flags price contracts expiration collateral buffer =
     bnd (seat_find_or_create owner) (\<lambda>seat_idx.
     seq (count_new_intent seat_idx)
     (bnd next_intent_id (\<lambda>nid.
      bnd next_seq (\<lambda>seq_no.
      bnd alloc_node (\<lambda>node_idx.
      seq (write_intent node_idx
             (new_intent side flags price nid seat_idx contracts expiration seq_no collateral buffer))
      (seq (itree_insert side node_idx)
      (ret nid)))))))"

section \<open>Posting\<close>

definition post_checks ::
  "env \<Rightarrow> pubkey \<Rightarrow> account_info \<Rightarrow> account_info \<Rightarrow> account_info \<Rightarrow> account_info \<Rightarrow> post_intent_args \<Rightarrow>
   (instrument_config \<times> u8) handler" where
  "post_checks e effective_owner program_config_ai instrument_ai book_ai margin_ai args =
     seq (assert_writables [book_ai, margin_ai])
     (seq (assert_owners (program_id e) [program_config_ai, instrument_ai, book_ai, margin_ai])
     (seq (bnd (read_acct load_config program_config_ai) (\<lambda>cfg.
             ensure (global_pause cfg = 0) GlobalPaused))
     (bnd (read_acct load_instrument instrument_ai) (\<lambda>inst.
      seq (lift (require_active inst))
      (seq (ensure (ic_book inst = ai_key book_ai) InvalidPda)
      (bnd (pda e (margin_seeds effective_owner (ic_mint inst)) margin_ai) (\<lambda>margin_bump.
       seq (lift (check_post_args e inst args))
       (ret (inst, margin_bump)))))))))"

definition charge_session :: "account_info option \<Rightarrow> u64 \<Rightarrow> unit handler" where
  "charge_session session_ai total_reserve =
     (case session_ai of None \<Rightarrow> ret ()
      | Some ai \<Rightarrow> bnd (edit_acct load_session DSession ai (record_intent total_reserve)) (\<lambda>_. ret ()))"

definition reserve_margin ::
  "pubkey \<Rightarrow> pubkey \<Rightarrow> u8 \<Rightarrow> u64 \<Rightarrow> u64 \<Rightarrow> (margin_account, unit) prog" where
  "reserve_margin effective_owner collateral_mint margin_bump pruned_refund total_reserve =
     seq (bnd (gets (\<lambda>m. m)) (\<lambda>m.
            ensure (is_margin_of m effective_owner collateral_mint margin_bump) InvalidPda))
     (seq (when_do (pruned_refund > 0) (move_reserved_to_free pruned_refund))
     (move_free_to_reserved total_reserve))"

text \<open>
  The errors a caller cannot catch: a panic, an exhausted budget and a failed call into
  another program abort the transaction.
\<close>

primrec is_fatal :: "program_error \<Rightarrow> bool" where
  "is_fatal (Custom x) = False"
| "is_fatal InvalidAccountData = False"
| "is_fatal NotEnoughAccountKeys = False"
| "is_fatal AccountBorrowFailed = False"
| "is_fatal (CpiFailed n) = True"
| "is_fatal Panicked = True"
| "is_fatal ComputeBudgetExceeded = True"

definition swallow_errors :: "unit handler \<Rightarrow> unit handler" where
  "swallow_errors h = (\<lambda>w. case h w of
     (Inr u, w') \<Rightarrow> (Inr u, w')
   | (Inl x, w') \<Rightarrow> if is_fatal x then (Inl x, w') else (Inr (), w'))"

definition inline_match ::
  "env \<Rightarrow> account_info \<Rightarrow> account_info \<Rightarrow> account_info \<Rightarrow> account_info \<Rightarrow> account_info list \<Rightarrow> nat \<Rightarrow>
   post_intent_args \<Rightarrow> u64 \<Rightarrow> unit handler" where
  "inline_match e payer instrument_ai book_ai margin_ai full_accounts offset args nid =
     when_do (pia_try_match args \<noteq> 0 \<and> \<not> length full_accounts < offset + 7)
       (let counterparty_margin_ai = full_accounts ! offset;
            opposite_side = (if pia_side args = SIDE_LONG then SIDE_SHORT else SIDE_LONG) in
        bnd (read_acct load_book book_ai) (\<lambda>b.
        bnd (lift (find_overlap_on_side b opposite_side (pia_price_fp args) (clock_slot e) nid)) (\<lambda>found.
        case found of None \<Rightarrow> ret ()
        | Some cp_id \<Rightarrow>
            let (long_id, short_id, long_margin_ai, short_margin_ai) =
                  (if pia_side args = SIDE_LONG then (nid, cp_id, margin_ai, counterparty_margin_ai)
                   else (cp_id, nid, counterparty_margin_ai, margin_ai)) in
            swallow_errors (match_pair_core e
              \<lparr> mc_payer = payer, mc_instrument_ai = instrument_ai, mc_book_ai = book_ai,
                mc_long_margin_ai = long_margin_ai, mc_short_margin_ai = short_margin_ai,
                mc_pmlc_ai = full_accounts ! (offset + 1),
                mc_system_program = full_accounts ! (offset + 2),
                mc_fee_ctx = Some \<lparr> fc_fee_schedule_ai = full_accounts ! (offset + 3),
                  fc_taker_volume_ai = full_accounts ! (offset + 4),
                  fc_maker_volume_ai = full_accounts ! (offset + 5),
                  fc_fee_treasury_ai = full_accounts ! (offset + 6) \<rparr> \<rparr>
              long_id short_id 1))))"

definition do_post_intent_inner ::
  "env \<Rightarrow> pubkey \<Rightarrow> account_info \<Rightarrow> account_info \<Rightarrow> account_info \<Rightarrow> account_info \<Rightarrow> account_info \<Rightarrow>
   account_info option \<Rightarrow> account_info list \<Rightarrow> nat \<Rightarrow> post_intent_args \<Rightarrow> unit handler" where
  "do_post_intent_inner e effective_owner payer program_config_ai instrument_ai book_ai margin_ai
       session_ai full_accounts inline_match_offset args =
     bnd (post_checks e effective_owner program_config_ai instrument_ai book_ai margin_ai args)
       (\<lambda>(inst, margin_bump).
     bnd (read_acct load_book book_ai) (\<lambda>b0.
     bnd (lift (reservation (pia_contracts args) (collateral_bucket inst) (cached_max_fee_bps b0)))
       (\<lambda>(collateral_reserve, buffer, total_reserve).
     seq (charge_session session_ai total_reserve)
     (bnd (edit_acct load_book DBook book_ai (prune_own effective_owner (clock_slot e))) (\<lambda>refund.
      seq (edit_acct load_margin DMargin margin_ai
             (reserve_margin effective_owner (ic_mint inst) margin_bump refund total_reserve))
      (bnd (edit_acct load_book DBook book_ai
              (place_intent effective_owner (pia_side args)
                 (if pia_reentry_enabled args \<noteq> 0 then INTENT_FLAG_REENTRY else 0)
                 (pia_price_fp args) (pia_contracts args) (pia_expiration_slot args)
                 collateral_reserve buffer)) (\<lambda>nid.
       inline_match e payer instrument_ai book_ai margin_ai full_accounts inline_match_offset args
         nid)))))))"

definition process_post_intent ::
  "env \<Rightarrow> account_info list \<Rightarrow> post_intent_args \<Rightarrow> unit handler" where
  "process_post_intent e accounts args =
     seq (need_accounts 5 accounts)
     (let owner = accounts ! 0 in
      seq (assert_signers [owner])
      (do_post_intent_inner e (ai_key owner) owner (accounts ! 1) (accounts ! 2) (accounts ! 3)
         (accounts ! 4) None accounts 5 args))"

section \<open>The delegated path\<close>

definition check_session ::
  "env \<Rightarrow> account_info \<Rightarrow> account_info \<Rightarrow> account_info \<Rightarrow> pubkey handler" where
  "check_session e dlg instrument_ai session_ai =
     bnd (read_acct load_session session_ai) (\<lambda>s.
     seq (ensure (delegate s = ai_key dlg) SessionDelegateMismatch)
     (seq (ensure (is_active s (clock_slot e)) SessionNotActive)
     (seq (ensure (allows_instrument s (ai_key instrument_ai)) SessionInstrumentNotAllowed)
     (bnd (pda e [SEED_SESSION, key_bytes (se_owner s)] session_ai) (\<lambda>_.
      ret (se_owner s))))))"

definition process_post_intent_delegated ::
  "env \<Rightarrow> account_info list \<Rightarrow> post_intent_args \<Rightarrow> unit handler" where
  "process_post_intent_delegated e accounts args =
     seq (need_accounts 7 accounts)
     (let fee_payer = accounts ! 0; dlg = accounts ! 1; instrument_ai = accounts ! 3;
          session_ai = accounts ! 6 in
      seq (assert_signers [fee_payer])
      (seq (assert_writables [fee_payer])
      (seq (assert_signers [dlg])
      (seq (assert_writables [session_ai])
      (seq (assert_owner (program_id e) session_ai)
      (bnd (check_session e dlg instrument_ai session_ai) (\<lambda>effective_owner.
       do_post_intent_inner e effective_owner fee_payer (accounts ! 2) instrument_ai (accounts ! 4)
         (accounts ! 5) (Some session_ai) accounts 7 args)))))))"

section \<open>Cancelling\<close>

definition lookup_for_cancel ::
  "book \<Rightarrow> u64 \<Rightarrow> (u32 \<times> u8 \<times> intent_node \<times> pubkey) result" where
  "lookup_for_cancel b wanted =
     try_res (find_intent_by_id b wanted) (\<lambda>(node_idx, side).
     try_res (intent b node_idx) (\<lambda>node.
     try_res (seat_trader b (owner_seat node)) (\<lambda>original_owner.
     Inr (node_idx, side, node, original_owner))))"

definition remove_intent :: "u8 \<Rightarrow> u32 \<Rightarrow> u32 \<Rightarrow> (book, unit) prog" where
  "remove_intent side node_idx seat_idx =
     seq (itree_remove side node_idx)
     (seq (free_node node_idx)
     (seat_mut seat_idx (\<lambda>s. s\<lparr> active_intent_count := saturating_sub (active_intent_count s) 1 \<rparr>)))"

definition release_margin :: "pubkey \<Rightarrow> pubkey \<Rightarrow> u8 \<Rightarrow> u64 \<Rightarrow> (margin_account, unit) prog" where
  "release_margin original_owner collateral_mint margin_bump amt =
     seq (bnd (gets (\<lambda>m. m)) (\<lambda>m.
            ensure (is_margin_of m original_owner collateral_mint margin_bump) InvalidPda))
     (move_reserved_to_free amt)"

definition finish_cancel ::
  "env \<Rightarrow> pubkey \<Rightarrow> account_info \<Rightarrow> account_info \<Rightarrow> u8 \<Rightarrow> u32 \<Rightarrow> intent_node \<Rightarrow> pubkey \<Rightarrow> unit handler" where
  "finish_cancel e collateral_mint book_ai margin_ai side node_idx node original_owner =
     bnd (pda e (margin_seeds original_owner collateral_mint) margin_ai) (\<lambda>margin_bump.
     seq (edit_acct load_book DBook book_ai (remove_intent side node_idx (owner_seat node)))
     (bnd (lift (ok_or_err (checked_add (intent_reserved node) (fee_buffer node)) ArithmeticOverflow))
        (\<lambda>amt.
      edit_acct load_margin DMargin margin_ai
        (release_margin original_owner collateral_mint margin_bump amt))))"

definition process_cancel_intent :: "env \<Rightarrow> account_info list \<Rightarrow> u64 \<Rightarrow> unit handler" where
  "process_cancel_intent e accounts args_intent_id =
     seq (need_accounts 4 accounts)
     (let caller = accounts ! 0; instrument_ai = accounts ! 1; book_ai = accounts ! 2;
          margin_ai = accounts ! 3 in
      seq (assert_signers [caller])
      (seq (assert_writables [book_ai, margin_ai])
      (seq (assert_owners (program_id e) [instrument_ai, book_ai, margin_ai])
      (bnd (read_acct load_instrument instrument_ai) (\<lambda>inst.
       seq (ensure (ic_book inst = ai_key book_ai) InvalidPda)
       (bnd (read_acct load_book book_ai) (\<lambda>b.
        bnd (lift (lookup_for_cancel b args_intent_id)) (\<lambda>(node_idx, side, node, original_owner).
        let is_expired = (expiration_slot node \<le> clock_slot e) in
        seq (ensure (\<not> (ai_key caller \<noteq> original_owner \<and> \<not> is_expired)) MissingSigner)
        (finish_cancel e (ic_mint inst) book_ai margin_ai side node_idx node original_owner)))))))))"

definition process_cancel_intent_delegated :: "env \<Rightarrow> account_info list \<Rightarrow> u64 \<Rightarrow> unit handler" where
  "process_cancel_intent_delegated e accounts args_intent_id =
     seq (need_accounts 6 accounts)
     (let fee_payer = accounts ! 0; dlg = accounts ! 1; instrument_ai = accounts ! 2;
          book_ai = accounts ! 3; margin_ai = accounts ! 4; session_ai = accounts ! 5 in
      seq (assert_signers [fee_payer])
      (seq (assert_writables [fee_payer])
      (seq (assert_signers [dlg])
      (seq (assert_writables [book_ai, margin_ai])
      (seq (assert_owners (program_id e) [instrument_ai, book_ai, margin_ai, session_ai])
      (bnd (check_session e dlg instrument_ai session_ai) (\<lambda>session_owner.
       bnd (read_acct load_instrument instrument_ai) (\<lambda>inst.
       seq (ensure (ic_book inst = ai_key book_ai) InvalidPda)
       (bnd (read_acct load_book book_ai) (\<lambda>b.
        bnd (lift (lookup_for_cancel b args_intent_id)) (\<lambda>(node_idx, side, node, original_owner).
        seq (ensure (original_owner = session_owner) SessionOwnerMismatch)
        (finish_cancel e (ic_mint inst) book_ai margin_ai side node_idx node original_owner))))))))))))"

end
