(* ===== verification/Prune_Ix.thy ===== *)
theory Prune_Ix
  imports Intent_Ix
begin

text \<open>
  Permissionless pruning of expired intents (second half of \<open>processor/close_prune.rs\<close>): one pass
  collects the expired intents, at most one per supplied margin account, then each is paired
  with a margin account by a forward cursor, refunded and removed.
\<close>

type_synonym prune_item = "u8 \<times> u32 \<times> pubkey \<times> u64"

primrec collect_expired ::
  "book \<Rightarrow> u64 \<Rightarrow> nat \<Rightarrow> nat \<Rightarrow> node list \<Rightarrow> prune_item list \<Rightarrow> prune_item list result" where
  "collect_expired b now limit i [] work = Inr work"
| "collect_expired b now limit i (slot # rest) work =
     (case slot of
        NIntent node \<Rightarrow>
          if length work \<ge> limit then Inr work
          else if contracts_remaining node = 0 \<or> expiration_slot node > now
          then collect_expired b now limit (Suc i) rest work
          else try_res (seat_trader b (owner_seat node)) (\<lambda>owner.
            try_res (ok_or_err (checked_add (intent_reserved node) (fee_buffer node)) ArithmeticOverflow)
              (\<lambda>release. collect_expired b now limit (Suc i) rest
                          (work @ [(in_side node, of_nat i, owner, release)])))
      | _ \<Rightarrow> collect_expired b now limit (Suc i) rest work)"

text \<open>The first margin account of the trader at or after the cursor, with its position.\<close>

primrec find_margin_for ::
  "env \<Rightarrow> world \<Rightarrow> pubkey \<Rightarrow> pubkey \<Rightarrow> nat \<Rightarrow> account_info list \<Rightarrow> (nat \<times> account_info) result" where
  "find_margin_for e w owner mint j [] = err InvalidPda"
| "find_margin_for e w owner mint j (m_ai # rest) =
     (if \<not> owner_is (program_id e) m_ai w then err InvalidAccountOwner
      else try_res (load_margin (acc_data (w (ai_key m_ai)))) (\<lambda>m.
        if ma_owner m = owner \<and> ma_mint m = mint
        then try_res (assert_pda e (margin_seeds owner mint) (ai_key m_ai)) (\<lambda>_. Inr (j, m_ai))
        else find_margin_for e w owner mint (Suc j) rest))"

primrec prune_items ::
  "env \<Rightarrow> account_info \<Rightarrow> pubkey \<Rightarrow> account_info list \<Rightarrow> prune_item list \<Rightarrow> nat \<Rightarrow> unit handler" where
  "prune_items e book_ai mint margins [] cursor = ret ()"
| "prune_items e book_ai mint margins (item # items) cursor = (case item of (side, idx, owner, release) \<Rightarrow>
     bnd (asks (\<lambda>w. find_margin_for e w owner mint cursor (drop cursor margins))) (\<lambda>(midx, m_ai).
     seq (edit_acct load_margin DMargin m_ai (move_reserved_to_free release))
     (seq (edit_acct load_book DBook book_ai
             (bnd (asks (\<lambda>b. intent b idx)) (\<lambda>node. remove_intent side idx (owner_seat node))))
     (prune_items e book_ai mint margins items (midx + 1)))))"

definition process_prune_expired :: "env \<Rightarrow> account_info list \<Rightarrow> unit handler" where
  "process_prune_expired e accounts =
     seq (need_accounts 3 accounts)
     (let caller = accounts ! 0; instrument_ai = accounts ! 1; book_ai = accounts ! 2;
          remaining_margins = drop 3 accounts in
      seq (assert_signers [caller])
      (seq (assert_writables [book_ai])
      (seq (assert_owners (program_id e) [instrument_ai, book_ai])
      (bnd (read_acct load_instrument instrument_ai) (\<lambda>inst.
       seq (ensure (ic_book inst = ai_key book_ai) InvalidPda)
       (bnd (read_acct load_book book_ai) (\<lambda>b.
        bnd (lift (collect_expired b (clock_slot e) (length remaining_margins) 0 (bk_nodes b) [])) (\<lambda>work.
        prune_items e book_ai (ic_mint inst) remaining_margins work 0))))))))"

end
