(* ===== verification/Attestation.thy ===== *)
theory Attestation
  imports Errors
begin

text \<open>
  Oracle attestations (\<open>src/attestation.rs\<close>): the fixed 104-byte layout and its accessors, the
  extraction of the message that the Ed25519 precompile verified, and the freshness and
  replay checks. The layout lemma says that the accessors read back exactly what an encoder
  of the documented layout wrote. Loading an instruction of the transaction through the
  sysvar is the runtime's, so it is an argument of \<open>verify_via_ed25519_sysvar\<close>.
\<close>

definition ATTESTATION_MAGIC :: "u8 list" where
  "ATTESTATION_MAGIC = [0x41, 0x54, 0x54, 0x31]"

definition ATTESTATION_LEN :: nat where
  "ATTESTATION_LEN = 4 + 1 + 3 + 32 + 8 + 8 + 48"

definition ATTESTATION_PAYLOAD_OFFSET :: nat where
  "ATTESTATION_PAYLOAD_OFFSET = 4 + 1 + 3 + 32 + 8 + 8"

definition ATT_TYPE_PRICE_TWAP :: u8 where "ATT_TYPE_PRICE_TWAP = 1"
definition ATT_TYPE_RESOLUTION :: u8 where "ATT_TYPE_RESOLUTION = 2"
definition ATT_TYPE_HISTORICAL_LIQUIDATION :: u8 where "ATT_TYPE_HISTORICAL_LIQUIDATION = 3"

definition ED25519_PROGRAM_ID :: pubkey where
  "ED25519_PROGRAM_ID = Pubkey
     [3, 125, 70, 214, 124, 147, 251, 190, 18, 249, 66, 143, 131, 141, 64, 255,
      5, 112, 116, 73, 39, 244, 138, 100, 252, 202, 112, 68, 128, 0, 0, 0]"

lemmas att_consts = ATTESTATION_MAGIC_def ATTESTATION_LEN_def ATTESTATION_PAYLOAD_OFFSET_def
  ATT_TYPE_PRICE_TWAP_def ATT_TYPE_RESOLUTION_def ATT_TYPE_HISTORICAL_LIQUIDATION_def

section \<open>Parsing and accessors\<close>

definition array_ref :: "u8 list \<Rightarrow> nat \<Rightarrow> nat \<Rightarrow> u8 list" where
  "array_ref bytes off len = take len (drop off bytes)"

datatype attestation = Attestation (att_bytes: "u8 list")

definition parse :: "u8 list \<Rightarrow> attestation result" where
  "parse bytes =
     (if length bytes \<noteq> ATTESTATION_LEN then err InvalidInstructionData
      else if array_ref bytes 0 4 \<noteq> ATTESTATION_MAGIC then err AttestationBadMagic
      else Inr (Attestation bytes))"

definition attestation_type :: "attestation \<Rightarrow> u8" where
  "attestation_type a = att_bytes a ! 4"

definition att_market_id :: "attestation \<Rightarrow> u8 list" where
  "att_market_id a = array_ref (att_bytes a) 8 32"

definition timestamp :: "attestation \<Rightarrow> u64" where
  "timestamp a = from_le_bytes (array_ref (att_bytes a) 40 8)"

definition nonce :: "attestation \<Rightarrow> u64" where
  "nonce a = from_le_bytes (array_ref (att_bytes a) 48 8)"

definition require_type :: "attestation \<Rightarrow> u8 \<Rightarrow> unit result" where
  "require_type a t = (if attestation_type a \<noteq> t then err AttestationWrongType else Inr ())"

definition price_fp :: "attestation \<Rightarrow> u64 result" where
  "price_fp a = try_res (require_type a ATT_TYPE_PRICE_TWAP) (\<lambda>_.
     Inr (from_le_bytes (array_ref (att_bytes a) ATTESTATION_PAYLOAD_OFFSET 8)))"

definition att_twap_window_slots :: "attestation \<Rightarrow> u64 result" where
  "att_twap_window_slots a = try_res (require_type a ATT_TYPE_PRICE_TWAP) (\<lambda>_.
     Inr (from_le_bytes (array_ref (att_bytes a) (ATTESTATION_PAYLOAD_OFFSET + 8) 8)))"

definition att_final_outcome_bps :: "attestation \<Rightarrow> u16 result" where
  "att_final_outcome_bps a = try_res (require_type a ATT_TYPE_RESOLUTION) (\<lambda>_.
     Inr (from_le_bytes (array_ref (att_bytes a) ATTESTATION_PAYLOAD_OFFSET 2)))"

definition breach_pmlc_pubkey :: "attestation \<Rightarrow> u8 list result" where
  "breach_pmlc_pubkey a = try_res (require_type a ATT_TYPE_HISTORICAL_LIQUIDATION) (\<lambda>_.
     Inr (array_ref (att_bytes a) ATTESTATION_PAYLOAD_OFFSET 32))"

definition breach_mark_fp :: "attestation \<Rightarrow> u64 result" where
  "breach_mark_fp a = try_res (require_type a ATT_TYPE_HISTORICAL_LIQUIDATION) (\<lambda>_.
     Inr (from_le_bytes (array_ref (att_bytes a) (ATTESTATION_PAYLOAD_OFFSET + 32) 8)))"

definition breach_unix_ts :: "attestation \<Rightarrow> i64 result" where
  "breach_unix_ts a = try_res (require_type a ATT_TYPE_HISTORICAL_LIQUIDATION) (\<lambda>_.
     Inr (from_le_bytes (array_ref (att_bytes a) (ATTESTATION_PAYLOAD_OFFSET + 40) 8)))"

section \<open>The Ed25519 precompile instruction\<close>

definition get_range :: "u8 list \<Rightarrow> nat \<Rightarrow> nat \<Rightarrow> u8 list option" where
  \<comment> \<open>\<open>data.get(off..off + len)\<close>\<close>
  "get_range data off len = (if off + len \<le> length data then Some (take len (drop off data)) else None)"

definition read_u16 :: "u8 list \<Rightarrow> nat \<Rightarrow> u16" where
  "read_u16 data off = from_le_bytes [data ! off, data ! (off + 1)]"

definition extract_verified_ed25519_message :: "u8 list \<Rightarrow> pubkey \<Rightarrow> u8 list result" where
  "extract_verified_ed25519_message data expected_pubkey =
     (if length data < 16 then err MissingEd25519Verify
      else if data ! 0 \<noteq> 1 \<or> data ! 1 \<noteq> 0 then err MissingEd25519Verify
      else let
        signature_offset = unat (read_u16 data 2);
        signature_ix_index = read_u16 data 4;
        public_key_offset = unat (read_u16 data 6);
        public_key_ix_index = read_u16 data 8;
        message_offset = unat (read_u16 data 10);
        message_size = unat (read_u16 data 12);
        message_ix_index = read_u16 data 14
      in if signature_ix_index \<noteq> -1 \<or> public_key_ix_index \<noteq> -1 \<or> message_ix_index \<noteq> -1
         then err MissingEd25519Verify
      else try_res (ok_or_err (get_range data public_key_offset 32) MissingEd25519Verify) (\<lambda>pk_bytes.
           try_res (ok_or_err (get_range data signature_offset 64) MissingEd25519Verify) (\<lambda>sig_bytes.
           try_res (ok_or_err (get_range data message_offset message_size) MissingEd25519Verify) (\<lambda>msg_bytes.
           if pk_bytes \<noteq> key_bytes expected_pubkey then err Ed25519PubkeyMismatch
           else if length msg_bytes \<noteq> ATTESTATION_LEN then err Ed25519MessageMismatch
           else Inr msg_bytes))))"

text \<open>\<open>load_ix i\<close>: program id and data of the \<open>i\<close>-th instruction of the transaction, if any.\<close>

definition verify_via_ed25519_sysvar ::
  "(nat \<Rightarrow> (pubkey \<times> u8 list) option) \<Rightarrow> pubkey \<Rightarrow> nat \<Rightarrow> u8 list result" where
  "verify_via_ed25519_sysvar load_ix expected_pubkey ix_index =
     try_res (ok_or_err (load_ix ix_index) MissingEd25519Verify) (\<lambda>(ix_program, ix_data).
     if ix_program \<noteq> ED25519_PROGRAM_ID then err MissingEd25519Verify
     else extract_verified_ed25519_message ix_data expected_pubkey)"

section \<open>Freshness and replay\<close>

definition validate_freshness_and_nonce ::
  "attestation \<Rightarrow> u8 list \<Rightarrow> u64 \<Rightarrow> u64 \<Rightarrow> u64 \<Rightarrow> unit result" where
  "validate_freshness_and_nonce att expected_market_id last_accepted_nonce now_unix_secs staleness =
     (if att_market_id att \<noteq> expected_market_id then err AttestationWrongMarket
      else let ts = timestamp att in
        if ts > now_unix_secs then err AttestationStale
        else if now_unix_secs - ts > staleness then err AttestationStale
        else if nonce att \<le> last_accepted_nonce then err AttestationNonceReplayed
        else Inr ())"

section \<open>Lemmas\<close>

lemma parse_ok [ok_iff]:
  "parse bs = Inr a \<longleftrightarrow> length bs = 104 \<and> take 4 bs = ATTESTATION_MAGIC \<and> a = Attestation bs"
  by (auto simp: parse_def ATTESTATION_LEN_def array_ref_def)

lemma require_type_ok [ok_iff]: "require_type a t = Inr u \<longleftrightarrow> attestation_type a = t"
  by (simp add: require_type_def)

lemma validate_freshness_and_nonce_ok [ok_iff]:
  "validate_freshness_and_nonce att mid prev now st = Inr u \<longleftrightarrow>
     att_market_id att = mid \<and> timestamp att \<le> now \<and> unat now - unat (timestamp att) \<le> unat st \<and>
     prev < nonce att"
  by (auto simp: validate_freshness_and_nonce_def Let_def not_less not_le word_le_nat_alt unat_sub
      word_less_nat_alt)

text \<open>The documented layout as an encoder.\<close>

definition encode_attestation :: "u8 \<Rightarrow> u8 list \<Rightarrow> u8 list \<Rightarrow> u64 \<Rightarrow> u64 \<Rightarrow> u8 list \<Rightarrow> u8 list" where
  "encode_attestation ty pad market ts n payload =
     ATTESTATION_MAGIC @ [ty] @ pad @ market @ to_le_bytes ts @ to_le_bytes n @ payload"

lemma length_to_le_bytes [simp]: "length (to_le_bytes (w :: 'a::len word)) = LENGTH('a) div 8"
  by (simp add: to_le_bytes_def)

lemma from_to_le_64 [simp]: "from_le_bytes (to_le_bytes w) = (w :: u64)"
  by (rule from_le_to_le) simp

lemma array_ref_skip: "length xs \<le> off \<Longrightarrow> array_ref (xs @ ys) off n = array_ref ys (off - length xs) n"
  by (simp add: array_ref_def)

lemma array_ref_Cons: "0 < off \<Longrightarrow> array_ref (x # xs) off n = array_ref xs (off - 1) n"
  by (cases off) (simp_all add: array_ref_def)

lemma array_ref_hit: "length xs = n \<Longrightarrow> array_ref (xs @ ys) 0 n = xs"
  by (simp add: array_ref_def)

lemma encode_attestation_fields:
  assumes "length pad = 3" "length market = 32" "length payload = 48"
    and bs: "bs = encode_attestation ty pad market ts n payload"
  shows "parse bs = Inr (Attestation bs)" "attestation_type (Attestation bs) = ty"
    "att_market_id (Attestation bs) = market" "timestamp (Attestation bs) = ts"
    "nonce (Attestation bs) = n" "drop ATTESTATION_PAYLOAD_OFFSET bs = payload"
  using assms(1-3) unfolding bs
  by (simp_all add: encode_attestation_def att_consts parse_ok attestation_type_def
      att_market_id_def timestamp_def nonce_def array_ref_skip array_ref_hit array_ref_Cons
      nth_append)

text \<open>What an accepted precompile instruction looks like.\<close>

lemma extract_ok [ok_iff]:
  "extract_verified_ed25519_message data pk = Inr msg \<longleftrightarrow>
     16 \<le> length data \<and> data ! 0 = 1 \<and> data ! 1 = 0 \<and>
     read_u16 data 4 = -1 \<and> read_u16 data 8 = -1 \<and> read_u16 data 14 = -1 \<and>
     get_range data (unat (read_u16 data 6)) 32 = Some (key_bytes pk) \<and>
     (\<exists>sig. get_range data (unat (read_u16 data 2)) 64 = Some sig) \<and>
     get_range data (unat (read_u16 data 10)) (unat (read_u16 data 12)) = Some msg \<and>
     length msg = 104"
  by (auto simp: extract_verified_ed25519_message_def ok_iff Let_def ATTESTATION_LEN_def not_less
      split: if_splits)

end
