(* ===== verification/Settlement_Ix.thy ===== *)
theory Settlement_Ix
  imports Margin_Ix Fixed_Math Attestation
begin

text \<open>
  Settlement of a position: liquidation and resolution (\<open>processor/settlement.rs\<close>), mutual close
  (first half of \<open>processor/close_prune.rs\<close>) and the closing of the account of a settled position
  (\<open>processor/close_pmlc.rs\<close>).
\<close>

section \<open>Attestations in a handler\<close>

definition now_unix :: "env \<Rightarrow> u64" where
  "now_unix e = (if sint (clock_unix_timestamp e) < 0 then 0 else clock_unix_timestamp e)"

definition fetch_attestation :: "env \<Rightarrow> account_info \<Rightarrow> pubkey \<Rightarrow> u8 \<Rightarrow> attestation result" where
  "fetch_attestation e sysvar_ix_ai signer ix_offset =
     try_res (verify_via_ed25519_sysvar (load_instruction_at e (ai_key sysvar_ix_ai)) signer
                (unat ix_offset)) parse"

definition unpaused_config :: "account_info \<Rightarrow> program_config handler" where
  "unpaused_config program_config_ai =
     bnd (read_acct load_config program_config_ai) (\<lambda>cfg.
     seq (ensure (global_pause cfg = 0) GlobalPaused) (ret cfg))"

definition accept_nonce :: "env \<Rightarrow> attestation \<Rightarrow> instrument_config \<Rightarrow> (market_nonce, unit) prog" where
  "accept_nonce e att inst =
     bnd (gets last_accepted_cre_nonce) (\<lambda>prev.
     lift (validate_freshness_and_nonce att (ic_market_id inst) prev (now_unix e)
             (max_staleness_secs inst)))"

section \<open>The position and its equity\<close>

definition live_pmlc ::
  "account_info \<Rightarrow> account_info \<Rightarrow> instrument_config \<Rightarrow> pmlc handler" where
  "live_pmlc pmlc_ai instrument_ai inst =
     bnd (read_acct load_pmlc pmlc_ai) (\<lambda>p.
     seq (lift (require_live p))
     (seq (ensure (\<not> (pm_instrument p \<noteq> ai_key instrument_ai \<or> pm_market_id p \<noteq> ic_market_id inst \<or>
                      pm_mint p \<noteq> ic_mint inst)) InvalidPda)
     (ret p)))"

definition two_sided :: "u64 \<Rightarrow> i128 \<Rightarrow> u64 \<times> u64" where
  \<comment> \<open>\<open>eq_long\<close> and \<open>eq_short\<close>: the second is what the first leaves of \<open>2c\<close>\<close>
  "two_sided c pnl_long =
     (let eq_long = bounded_equity c pnl_long; two_c = saturating_mul c 2
      in (eq_long, saturating_sub two_c eq_long))"

definition bps_share :: "u64 \<Rightarrow> 'a::len word \<Rightarrow> u64 result" where
  "bps_share c bps =
     try_res (no_panic (checked_mul (ucast c :: u128) (ucast bps))) (\<lambda>v.
     Inr (ucast (v div ucast BPS_DENOM)))"

definition close_position :: "env \<Rightarrow> u8 \<Rightarrow> u8 \<Rightarrow> (pmlc, unit) prog" where
  "close_position e status reason =
     modify (\<lambda>p. p\<lparr> pm_status := status, close_reason := reason, last_mark_slot := clock_slot e \<rparr>)"

section \<open>Liquidation\<close>

definition on_long :: "(margin_account, unit) prog \<Rightarrow> (margin_account \<times> margin_account, unit) prog" where
  "on_long = zoom (\<lambda>p. Inr (fst p)) (\<lambda>m p. (m, snd p))"

definition on_short :: "(margin_account, unit) prog \<Rightarrow> (margin_account \<times> margin_account, unit) prog" where
  "on_short = zoom (\<lambda>p. Inr (snd p)) (\<lambda>m p. (fst p, m))"

text \<open>Both margin accounts borrowed mutably at the same time: the same account twice fails.\<close>

definition edit_margins ::
  "account_info \<Rightarrow> account_info \<Rightarrow> (margin_account \<times> margin_account, unit) prog \<Rightarrow> unit handler" where
  "edit_margins long_ai short_ai m =
     bnd (read_acct load_margin long_ai) (\<lambda>_.
     seq (require (ai_key short_ai \<noteq> ai_key long_ai) AccountBorrowFailed)
     (zoom (\<lambda>w. try_res (load_margin (acc_data (w (ai_key long_ai)))) (\<lambda>l.
                try_res (load_margin (acc_data (w (ai_key short_ai)))) (\<lambda>s. Inr (l, s))))
           (\<lambda>(l, s) w. set_data (ai_key short_ai) (DMargin s) (set_data (ai_key long_ai) (DMargin l) w))
           m))"

definition add_pnl :: "i64 \<Rightarrow> (margin_account, unit) prog" where
  "add_pnl a = modify (\<lambda>m. m\<lparr> realized_pnl := saturating_add_s (realized_pnl m) a \<rparr>)"

definition sub_pnl :: "i64 \<Rightarrow> (margin_account, unit) prog" where
  "sub_pnl a = modify (\<lambda>m. m\<lparr> realized_pnl := saturating_sub_s (realized_pnl m) a \<rparr>)"

definition liquidation_transfer ::
  "bool \<Rightarrow> u64 \<Rightarrow> u64 \<Rightarrow> (margin_account \<times> margin_account, unit) prog" where
  "liquidation_transfer long_wins c bounty =
     (let payout = saturating_sub (saturating_mul c 2) bounty in
      seq (on_long (debit_locked c))
      (seq (on_short (debit_locked c))
      (if long_wins then
         seq (on_long (credit_free payout))
         (seq (on_short (sub_pnl c)) (on_long (add_pnl (saturating_sub c bounty))))
       else
         seq (on_short (credit_free payout))
         (seq (on_long (sub_pnl c)) (on_short (add_pnl (saturating_sub c bounty)))))))"

definition accept_breach ::
  "env \<Rightarrow> attestation \<Rightarrow> instrument_config \<Rightarrow> (market_nonce, unit) prog" where
  "accept_breach e att inst =
     seq (accept_nonce e att inst)
     (seq (modify (\<lambda>n. n\<lparr> last_accepted_cre_nonce := nonce att, last_accepted_ts := now_unix e \<rparr>))
     (bnd (lift (breach_mark_fp att)) (\<lambda>mark.
      modify (\<lambda>n. n\<lparr> last_accepted_twap_fp := mark \<rparr>))))"

definition check_breach :: "env \<Rightarrow> attestation \<Rightarrow> pubkey \<Rightarrow> unit result" where
  "check_breach e att pmlc_key =
     (if attestation_type att \<noteq> ATT_TYPE_HISTORICAL_LIQUIDATION then err AttestationWrongType
      else try_res (breach_pmlc_pubkey att) (\<lambda>k.
        if k \<noteq> key_bytes pmlc_key then err AttestationWrongPmlc
        else try_res (breach_unix_ts att) (\<lambda>breach_ts.
          check (\<not> (sint breach_ts < 0 \<or> breach_ts > now_unix e)) AttestationStale)))"

definition liquidation_outcome ::
  "pmlc \<Rightarrow> instrument_config \<Rightarrow> u64 \<Rightarrow> (bool \<times> u64) result" where
  \<comment> \<open>who wins and the bounty, when the position is liquidatable at the mark\<close>
  "liquidation_outcome p inst mark_fp =
     try_res (pnl_long_atoms (entry_price_fp p) mark_fp (size_fp p)) (\<lambda>pnl_long.
     case two_sided (collateral_per_side p) pnl_long of (eq_long, eq_short) \<Rightarrow>
     try_res (bps_share (collateral_per_side p) (liquidation_bps inst)) (\<lambda>threshold.
     try_res (check (\<not> min eq_long eq_short > threshold) NotLiquidatable) (\<lambda>_.
     try_res (bps_share (collateral_per_side p) (liquidation_bounty_bps inst)) (\<lambda>bounty.
     Inr (eq_long > eq_short, bounty)))))"

definition liquidate_settle ::
  "env \<Rightarrow> instrument_config \<Rightarrow> account_info \<Rightarrow> account_info \<Rightarrow> account_info \<Rightarrow> account_info \<Rightarrow>
   account_info \<Rightarrow> u64 \<Rightarrow> unit handler" where
  "liquidate_settle e inst instrument_ai pmlc_ai long_margin_ai short_margin_ai keeper_margin_ai mark_fp =
     bnd (live_pmlc pmlc_ai instrument_ai inst) (\<lambda>p.
     bnd (lift (liquidation_outcome p inst mark_fp)) (\<lambda>(long_wins, bounty).
     seq (validate_margin_pda e long_margin_ai (long_owner p) (ic_mint inst))
     (seq (validate_margin_pda e short_margin_ai (short_owner p) (ic_mint inst))
     (seq (edit_margins long_margin_ai short_margin_ai
             (liquidation_transfer long_wins (collateral_per_side p) bounty))
     (seq (edit_acct load_pmlc DPmlc pmlc_ai
             (close_position e PMLC_STATUS_LIQUIDATED CLOSE_REASON_LIQUIDATED))
     (when_do (bounty > 0) (edit_acct load_margin DMargin keeper_margin_ai (credit_free bounty))))))))"

definition process_liquidate :: "env \<Rightarrow> account_info list \<Rightarrow> u8 \<Rightarrow> unit handler" where
  "process_liquidate e accounts attestation_ix_offset =
     seq (need_accounts 9 accounts)
     (let keeper = accounts ! 0; program_config_ai = accounts ! 1; sysvar_ix_ai = accounts ! 2;
          instrument_ai = accounts ! 3; pmlc_ai = accounts ! 4; market_nonce_ai = accounts ! 5;
          long_margin_ai = accounts ! 6; short_margin_ai = accounts ! 7;
          keeper_margin_ai = accounts ! 8 in
      seq (assert_signers [keeper])
      (seq (assert_writables [pmlc_ai, market_nonce_ai, long_margin_ai, short_margin_ai, keeper_margin_ai])
      (seq (assert_owners (program_id e) [program_config_ai, instrument_ai, pmlc_ai, market_nonce_ai,
              long_margin_ai, short_margin_ai, keeper_margin_ai])
      (seq (require (ai_key sysvar_ix_ai = sysvar_instructions_id e) InvalidAccountData)
      (bnd (unpaused_config program_config_ai) (\<lambda>cfg.
       bnd (read_acct load_instrument instrument_ai) (\<lambda>inst.
       seq (validate_margin_pda e keeper_margin_ai (ai_key keeper) (ic_mint inst))
       (bnd (lift (fetch_attestation e sysvar_ix_ai (attestation_signer cfg) attestation_ix_offset)) (\<lambda>att.
        seq (lift (check_breach e att (ai_key pmlc_ai)))
        (bnd (pda e [SEED_MARKET_NONCE, ic_market_id inst] market_nonce_ai) (\<lambda>_.
         seq (edit_acct load_nonce DNonce market_nonce_ai (accept_breach e att inst))
         (bnd (lift (breach_mark_fp att)) (\<lambda>mark_fp.
          liquidate_settle e inst instrument_ai pmlc_ai long_margin_ai short_margin_ai
            keeper_margin_ai mark_fp)))))))))))))"

section \<open>Resolution and mutual close\<close>

text \<open>\<open>debit_locked(c)\<close>, \<open>credit_free(eq)\<close> and the realized profit of one side.\<close>

definition settle_side :: "u64 \<Rightarrow> u64 \<Rightarrow> (margin_account, unit) prog" where
  "settle_side c eq =
     seq (debit_locked c)
     (seq (credit_free eq)
     (bnd (lift (no_panic (checked_sub_s eq c))) (\<lambda>d. add_pnl d)))"

definition settle_sides ::
  "account_info \<Rightarrow> account_info \<Rightarrow> u64 \<Rightarrow> u64 \<times> u64 \<Rightarrow> unit handler" where
  \<comment> \<open>the first borrow is still alive when the second is taken\<close>
  "settle_sides long_margin_ai short_margin_ai c eqs =
     seq (edit_acct load_margin DMargin long_margin_ai (settle_side c (fst eqs)))
     (seq (require (ai_key short_margin_ai \<noteq> ai_key long_margin_ai) AccountBorrowFailed)
     (edit_acct load_margin DMargin short_margin_ai (settle_side c (snd eqs))))"

definition accept_resolution ::
  "env \<Rightarrow> attestation \<Rightarrow> instrument_config \<Rightarrow> (market_nonce, unit) prog" where
  "accept_resolution e att inst =
     seq (accept_nonce e att inst)
     (seq (modify (\<lambda>n. n\<lparr> last_accepted_cre_nonce := nonce att, last_accepted_ts := now_unix e \<rparr>))
     (bnd (lift (att_final_outcome_bps att)) (\<lambda>outcome.
      modify (\<lambda>n. n\<lparr> final_outcome_bps := outcome, is_resolved := 1 \<rparr>))))"

definition resolution_mark :: "u16 \<Rightarrow> u64 result" where
  "resolution_mark outcome =
     (if outcome = 0 then Inr 0
      else if outcome = 5000 then Inr (PRICE_ONE div 2)
      else if outcome = 10000 then Inr (saturating_sub PRICE_ONE 1)
      else err InvalidInstructionData)"

definition resolution_pnl :: "pmlc \<Rightarrow> u16 \<Rightarrow> u64 \<Rightarrow> i128 result" where
  "resolution_pnl p outcome final_fp =
     (if outcome = 0 then Inr (- saturating_mul_s (ucast (collateral_per_side p)) 2)
      else if outcome = 10000 then Inr (saturating_mul_s (ucast (collateral_per_side p)) 2)
      else pnl_long_atoms (entry_price_fp p) final_fp (size_fp p))"

definition resolve_settle ::
  "env \<Rightarrow> instrument_config \<Rightarrow> account_info \<Rightarrow> account_info \<Rightarrow> account_info \<Rightarrow> account_info \<Rightarrow>
   u16 \<Rightarrow> unit handler" where
  "resolve_settle e inst instrument_ai pmlc_ai long_margin_ai short_margin_ai outcome =
     bnd (lift (resolution_mark outcome)) (\<lambda>final_fp.
     bnd (live_pmlc pmlc_ai instrument_ai inst) (\<lambda>p.
     bnd (lift (resolution_pnl p outcome final_fp)) (\<lambda>pnl_long.
     seq (validate_margin_pda e long_margin_ai (long_owner p) (ic_mint inst))
     (seq (validate_margin_pda e short_margin_ai (short_owner p) (ic_mint inst))
     (seq (settle_sides long_margin_ai short_margin_ai (collateral_per_side p)
             (two_sided (collateral_per_side p) pnl_long))
     (edit_acct load_pmlc DPmlc pmlc_ai
        (close_position e PMLC_STATUS_RESOLVED CLOSE_REASON_RESOLVED)))))))"

definition process_resolve :: "env \<Rightarrow> account_info list \<Rightarrow> u8 \<Rightarrow> unit handler" where
  "process_resolve e accounts attestation_ix_offset =
     seq (need_accounts 8 accounts)
     (let caller = accounts ! 0; program_config_ai = accounts ! 1; sysvar_ix_ai = accounts ! 2;
          instrument_ai = accounts ! 3; pmlc_ai = accounts ! 4; market_nonce_ai = accounts ! 5;
          long_margin_ai = accounts ! 6; short_margin_ai = accounts ! 7 in
      seq (assert_signers [caller])
      (seq (assert_writables [pmlc_ai, market_nonce_ai, long_margin_ai, short_margin_ai])
      (seq (assert_owners (program_id e) [program_config_ai, instrument_ai, pmlc_ai, market_nonce_ai,
              long_margin_ai, short_margin_ai])
      (bnd (unpaused_config program_config_ai) (\<lambda>cfg.
       bnd (read_acct load_instrument instrument_ai) (\<lambda>inst.
       bnd (lift (fetch_attestation e sysvar_ix_ai (attestation_signer cfg) attestation_ix_offset)) (\<lambda>att.
       seq (ensure (attestation_type att = ATT_TYPE_RESOLUTION) AttestationWrongType)
       (bnd (pda e [SEED_MARKET_NONCE, ic_market_id inst] market_nonce_ai) (\<lambda>_.
        seq (edit_acct load_nonce DNonce market_nonce_ai (accept_resolution e att inst))
        (bnd (lift (att_final_outcome_bps att)) (\<lambda>outcome.
         resolve_settle e inst instrument_ai pmlc_ai long_margin_ai short_margin_ai outcome)))))))))))"

definition accept_twap :: "env \<Rightarrow> attestation \<Rightarrow> instrument_config \<Rightarrow> (market_nonce, unit) prog" where
  "accept_twap e att inst =
     seq (accept_nonce e att inst)
     (seq (modify (\<lambda>n. n\<lparr> last_accepted_cre_nonce := nonce att \<rparr>))
     (bnd (lift (price_fp att)) (\<lambda>price.
      modify (\<lambda>n. n\<lparr> last_accepted_twap_fp := price, last_accepted_ts := now_unix e \<rparr>))))"

definition close_mutual_settle ::
  "env \<Rightarrow> instrument_config \<Rightarrow> account_info list \<Rightarrow> u64 \<Rightarrow> unit handler" where
  "close_mutual_settle e inst accounts mark_fp =
     (let long_ow = accounts ! 0; short_ow = accounts ! 1; instrument_ai = accounts ! 4;
          pmlc_ai = accounts ! 5; long_margin_ai = accounts ! 7; short_margin_ai = accounts ! 8 in
      bnd (live_pmlc pmlc_ai instrument_ai inst) (\<lambda>p.
      seq (ensure (\<not> (long_owner p \<noteq> ai_key long_ow \<or> short_owner p \<noteq> ai_key short_ow)) InvalidPmlcSide)
      (bnd (lift (pnl_long_atoms (entry_price_fp p) mark_fp (size_fp p))) (\<lambda>pnl_long.
       seq (validate_margin_pda e long_margin_ai (ai_key long_ow) (ic_mint inst))
       (seq (validate_margin_pda e short_margin_ai (ai_key short_ow) (ic_mint inst))
       (seq (settle_sides long_margin_ai short_margin_ai (collateral_per_side p)
               (two_sided (collateral_per_side p) pnl_long))
       (edit_acct load_pmlc DPmlc pmlc_ai
          (close_position e PMLC_STATUS_CLOSED CLOSE_REASON_MUTUAL))))))))"

definition process_close_mutual :: "env \<Rightarrow> account_info list \<Rightarrow> u8 \<Rightarrow> unit handler" where
  "process_close_mutual e accounts attestation_ix_offset =
     seq (need_accounts 9 accounts)
     (let long_ow = accounts ! 0; short_ow = accounts ! 1; program_config_ai = accounts ! 2;
          sysvar_ix_ai = accounts ! 3; instrument_ai = accounts ! 4; pmlc_ai = accounts ! 5;
          market_nonce_ai = accounts ! 6; long_margin_ai = accounts ! 7;
          short_margin_ai = accounts ! 8 in
      seq (assert_signers [long_ow, short_ow])
      (seq (assert_writables [pmlc_ai, market_nonce_ai, long_margin_ai, short_margin_ai])
      (seq (assert_owners (program_id e) [program_config_ai, instrument_ai, pmlc_ai, market_nonce_ai,
              long_margin_ai, short_margin_ai])
      (seq (require (ai_key sysvar_ix_ai = sysvar_instructions_id e) InvalidAccountData)
      (bnd (unpaused_config program_config_ai) (\<lambda>cfg.
       bnd (read_acct load_instrument instrument_ai) (\<lambda>inst.
       bnd (lift (fetch_attestation e sysvar_ix_ai (attestation_signer cfg) attestation_ix_offset)) (\<lambda>att.
       seq (ensure (attestation_type att = ATT_TYPE_PRICE_TWAP) AttestationWrongType)
       (bnd (lift (att_twap_window_slots att)) (\<lambda>window.
        seq (ensure (window = twap_window_slots inst) AttestationWrongType)
        (bnd (pda e [SEED_MARKET_NONCE, ic_market_id inst] market_nonce_ai) (\<lambda>_.
         seq (edit_acct load_nonce DNonce market_nonce_ai (accept_twap e att inst))
         (bnd (lift (price_fp att)) (\<lambda>mark_fp.
          close_mutual_settle e inst accounts mark_fp))))))))))))))"

section \<open>Closing the account\<close>

definition close_pmlc_account :: "env \<Rightarrow> account_info \<Rightarrow> account_info \<Rightarrow> unit handler" where
  "close_pmlc_account e recipient pmlc_ai =
     bnd (gets (\<lambda>w. acc_lamports (w (ai_key pmlc_ai)))) (\<lambda>pmlc_lamports.
     seq (modify (\<lambda>w. w(ai_key pmlc_ai := (w (ai_key pmlc_ai))\<lparr> acc_lamports := 0 \<rparr>)))
     (bnd (gets (\<lambda>w. acc_lamports (w (ai_key recipient)))) (\<lambda>l.
      bnd (lift (ok_or_err (checked_add l pmlc_lamports) ArithmeticOverflow)) (\<lambda>l'.
      seq (modify (\<lambda>w. w(ai_key recipient := (w (ai_key recipient))\<lparr> acc_lamports := l' \<rparr>)))
      (modify (\<lambda>w. w(ai_key pmlc_ai := (w (ai_key pmlc_ai))
         \<lparr> acc_data := DRaw (replicate (acct_len pmlc_ai w) 0), acc_owner := system_program_id e \<rparr>)))))))"

definition process_close_pmlc :: "env \<Rightarrow> account_info list \<Rightarrow> unit handler" where
  "process_close_pmlc e accounts =
     seq (need_accounts 2 accounts)
     (let recipient = accounts ! 0; pmlc_ai = accounts ! 1 in
      seq (assert_signers [recipient])
      (seq (assert_writables [recipient, pmlc_ai])
      (seq (assert_owner (program_id e) pmlc_ai)
      (seq (bnd (read_acct load_pmlc pmlc_ai) (\<lambda>p.
              ensure (pm_status p = PMLC_STATUS_CLOSED \<or> pm_status p = PMLC_STATUS_LIQUIDATED \<or>
                      pm_status p = PMLC_STATUS_RESOLVED) PmlcNotLive))
      (close_pmlc_account e recipient pmlc_ai)))))"

end
