(* ===== verification/Position_Ix.thy ===== *)
theory Position_Ix
  imports Intent_Ix Settlement_Ix
begin

text \<open>
  Operations on the sides of a position: novation (\<open>processor/novate.rs\<close>), substitution with
  and without settlement (\<open>processor/substitute.rs\<close>), and re-entry after a close
  (\<open>processor/reentry.rs\<close>).
\<close>

section \<open>Novation\<close>

definition side_owner :: "u8 \<Rightarrow> pmlc \<Rightarrow> pubkey result" where
  "side_owner side p =
     (if side = SIDE_LONG then Inr (long_owner p)
      else if side = SIDE_SHORT then Inr (short_owner p)
      else err InvalidPmlcSide)"

definition hand_over :: "env \<Rightarrow> u8 \<Rightarrow> pubkey \<Rightarrow> (pmlc, unit) prog" where
  "hand_over e side new_owner_key =
     seq (if side = SIDE_LONG then modify (\<lambda>p. p\<lparr> long_owner := new_owner_key \<rparr>)
          else if side = SIDE_SHORT then modify (\<lambda>p. p\<lparr> short_owner := new_owner_key \<rparr>)
          else fail_with (Custom InvalidPmlcSide))
     (modify (\<lambda>p. p\<lparr> last_mark_slot := clock_slot e \<rparr>))"

definition check_holder :: "pubkey \<Rightarrow> pubkey \<Rightarrow> (margin_account, unit) prog" where
  "check_holder owner mint =
     bnd (gets (\<lambda>m. m)) (\<lambda>m. ensure (\<not> (ma_owner m \<noteq> owner \<or> ma_mint m \<noteq> mint)) InvalidPda)"

definition novate_transfer ::
  "env \<Rightarrow> account_info list \<Rightarrow> u8 \<Rightarrow> pmlc \<Rightarrow> unit handler" where
  "novate_transfer e accounts side p =
     (let current_owner = accounts ! 0; new_owner = accounts ! 1; pmlc_ai = accounts ! 4;
          current_margin_ai = accounts ! 5; new_margin_ai = accounts ! 6;
          c = collateral_per_side p in
      bnd (pda e (margin_seeds (ai_key current_owner) (pm_mint p)) current_margin_ai) (\<lambda>_.
      bnd (pda e (margin_seeds (ai_key new_owner) (pm_mint p)) new_margin_ai) (\<lambda>_.
      seq (edit_acct load_margin DMargin current_margin_ai
             (seq (check_holder (ai_key current_owner) (pm_mint p)) (move_locked_to_free c)))
      (seq (edit_acct load_margin DMargin new_margin_ai
             (seq (check_holder (ai_key new_owner) (pm_mint p))
             (seq (debit_free c) (credit_locked c))))
      (edit_acct load_pmlc DPmlc pmlc_ai (hand_over e side (ai_key new_owner)))))))"

definition process_novate :: "env \<Rightarrow> account_info list \<Rightarrow> u8 \<Rightarrow> unit handler" where
  "process_novate e accounts side =
     seq (need_accounts 7 accounts)
     (let current_owner = accounts ! 0; new_owner = accounts ! 1; program_config_ai = accounts ! 2;
          instrument_ai = accounts ! 3; pmlc_ai = accounts ! 4; current_margin_ai = accounts ! 5;
          new_margin_ai = accounts ! 6 in
      seq (assert_signers [current_owner, new_owner])
      (seq (assert_writables [pmlc_ai, current_margin_ai, new_margin_ai])
      (seq (assert_owners (program_id e)
              [program_config_ai, instrument_ai, pmlc_ai, current_margin_ai, new_margin_ai])
      (bnd (unpaused_config program_config_ai) (\<lambda>_.
       seq (ensure (\<not> (side \<noteq> SIDE_LONG \<and> side \<noteq> SIDE_SHORT)) InvalidPmlcSide)
       (bnd (read_acct load_pmlc pmlc_ai) (\<lambda>p.
        seq (lift (require_live p))
        (bnd (lift (side_owner side p)) (\<lambda>expected_current_owner.
         seq (ensure (expected_current_owner = ai_key current_owner) InvalidPmlcSide)
         (bnd (read_acct load_instrument instrument_ai) (\<lambda>inst.
          seq (ensure (ic_mint inst = pm_mint p) InvalidPda)
          (seq (ensure (ai_key instrument_ai = pm_instrument p) InvalidPda)
          (novate_transfer e accounts side p)))))))))))))"

section \<open>Substitution\<close>

record substitution =
  su_pmlc_side :: u8
  su_new_owner :: pubkey
  su_release_long :: u64
  su_release_short :: u64
  su_substitutor_is_long :: bool
  su_match_midpoint :: u64

definition substitute_in_book ::
  "env \<Rightarrow> pmlc \<Rightarrow> u64 \<Rightarrow> pubkey \<Rightarrow> match_pair_args \<Rightarrow> (book, substitution) prog" where
  "substitute_in_book e p bucket substitutor args =
     bnd (asks (\<lambda>b. resolve_pair e b (mpa_long_intent_id args) (mpa_short_intent_id args)))
       (\<lambda>(long_idx, short_idx, long0, short0).
     seq (ensure (\<not> (entry_price_fp p < price_limit_fp short0 \<or> entry_price_fp p > price_limit_fp long0))
            NoRangeOverlap)
     (bnd (asks (\<lambda>b. seat_trader b (owner_seat long0))) (\<lambda>long_trader.
      bnd (asks (\<lambda>b. seat_trader b (owner_seat short0))) (\<lambda>short_trader.
      let substitutor_is_long = (long_trader = substitutor);
          substitutor_is_short = (short_trader = substitutor);
          pmlc_side = (if substitutor_is_short then SIDE_LONG else SIDE_SHORT) in
      seq (ensure (\<not> (\<not> substitutor_is_long \<and> \<not> substitutor_is_short)) MissingSigner)
      (bnd (lift (side_owner pmlc_side p)) (\<lambda>expected_pmlc_owner.
       seq (ensure (expected_pmlc_owner = substitutor) InvalidPmlcSide)
       (bnd (consume_in_book bucket (saturating_sub (contracts_remaining long0) 1)
               (saturating_sub (contracts_remaining short0) 1) long_idx short_idx long0 short0)
          (\<lambda>(_, _, release_long, release_short).
        ret \<lparr> su_pmlc_side = pmlc_side,
              su_new_owner = (if substitutor_is_long then short_trader else long_trader),
              su_release_long = release_long, su_release_short = release_short,
              su_substitutor_is_long = substitutor_is_long,
              su_match_midpoint = price_midpoint (price_limit_fp long0) (price_limit_fp short0) \<rparr>))))))))"

definition checked_neg_s :: "'a::len word \<Rightarrow> 'a word option" where
  "checked_neg_s a = checked_signed (- sint a)"

definition substitution_delta :: "bool \<Rightarrow> pmlc \<Rightarrow> substitution \<Rightarrow> i128 result" where
  "substitution_delta with_settle p su =
     (if \<not> with_settle then Inr 0
      else try_res (pnl_long_atoms (entry_price_fp p) (su_match_midpoint su) (size_fp p)) (\<lambda>pnl_long.
        if su_pmlc_side su = SIDE_LONG then Inr pnl_long
        else if su_pmlc_side su = SIDE_SHORT then no_panic (checked_neg_s pnl_long)
        else err InvalidPmlcSide))"

definition check_delta :: "bool \<Rightarrow> i128 \<Rightarrow> u64 \<Rightarrow> unit result" where
  "check_delta with_settle delta bucket =
     (if with_settle then check (\<not> nat \<bar>sint delta\<bar> > unat bucket) NotLiquidatable else Inr ())"

definition pay_substitutor ::
  "u64 \<Rightarrow> u64 \<Rightarrow> i128 \<Rightarrow> (margin_account, unit) prog" where
  "pay_substitutor c released delta =
     seq (move_reserved_to_free c)
     (seq (when_do (released > 0) (move_reserved_to_free released))
     (seq (move_locked_to_free c)
     (if sint delta > 0 then
        seq (credit_free (ucast delta)) (add_pnl (ucast delta))
      else if sint delta < 0 then
        bnd (lift (no_panic (checked_neg_s delta))) (\<lambda>neg.
        seq (debit_free (ucast neg)) (sub_pnl (ucast neg)))
      else ret ())))"

definition charge_counterparty ::
  "u64 \<Rightarrow> u64 \<Rightarrow> i128 \<Rightarrow> (margin_account, unit) prog" where
  "charge_counterparty c released delta =
     seq (move_reserved_to_locked c)
     (seq (when_do (released > 0) (move_reserved_to_free released))
     (if sint delta > 0 then debit_free (ucast delta)
      else if sint delta < 0 then
        bnd (lift (no_panic (checked_neg_s delta))) (\<lambda>neg. credit_free (ucast neg))
      else ret ()))"

definition substitute_settle ::
  "env \<Rightarrow> account_info list \<Rightarrow> pubkey \<Rightarrow> u64 \<Rightarrow> substitution \<Rightarrow> i128 \<Rightarrow> unit handler" where
  "substitute_settle e accounts mint bucket su delta =
     (let substitutor = accounts ! 0; pmlc_ai = accounts ! 3; substitutor_margin_ai = accounts ! 4;
          counterparty_margin_ai = accounts ! 5;
          own = (if su_substitutor_is_long su then su_release_long su else su_release_short su);
          other = (if su_substitutor_is_long su then su_release_short su else su_release_long su) in
      bnd (pda e (margin_seeds (ai_key substitutor) mint) substitutor_margin_ai) (\<lambda>_.
      bnd (pda e (margin_seeds (su_new_owner su) mint) counterparty_margin_ai) (\<lambda>_.
      seq (edit_acct load_margin DMargin substitutor_margin_ai
             (seq (check_holder (ai_key substitutor) mint) (pay_substitutor bucket own delta)))
      (seq (edit_acct load_margin DMargin counterparty_margin_ai
              (seq (check_holder (su_new_owner su) mint) (charge_counterparty bucket other delta)))
      (edit_acct load_pmlc DPmlc pmlc_ai (hand_over e (su_pmlc_side su) (su_new_owner su)))))))"

definition do_substitute ::
  "env \<Rightarrow> account_info list \<Rightarrow> match_pair_args \<Rightarrow> bool \<Rightarrow> unit handler" where
  "do_substitute e accounts args with_settle =
     seq (need_accounts 6 accounts)
     (let substitutor = accounts ! 0; instrument_ai = accounts ! 1; book_ai = accounts ! 2;
          pmlc_ai = accounts ! 3; substitutor_margin_ai = accounts ! 4;
          counterparty_margin_ai = accounts ! 5 in
      seq (assert_signers [substitutor])
      (seq (assert_writables [book_ai, pmlc_ai, substitutor_margin_ai, counterparty_margin_ai])
      (seq (assert_owners (program_id e)
              [instrument_ai, book_ai, pmlc_ai, substitutor_margin_ai, counterparty_margin_ai])
      (bnd (read_acct load_instrument instrument_ai) (\<lambda>inst.
       seq (lift (require_active inst))
       (seq (ensure (ic_book inst = ai_key book_ai) InvalidPda)
       (bnd (read_acct load_pmlc pmlc_ai) (\<lambda>p.
        seq (lift (require_live p))
        (seq (ensure (pm_instrument p = ai_key instrument_ai) InvalidPda)
        (seq (ensure (collateral_per_side p = collateral_bucket inst) InvalidPda)
        (bnd (edit_acct load_book DBook book_ai
                (substitute_in_book e p (collateral_bucket inst) (ai_key substitutor) args)) (\<lambda>su.
         bnd (lift (substitution_delta with_settle p su)) (\<lambda>delta.
         seq (lift (check_delta with_settle delta (collateral_bucket inst)))
         (substitute_settle e accounts (ic_mint inst) (collateral_bucket inst) su delta))))))))))))))"

definition process_match_substitute ::
  "env \<Rightarrow> account_info list \<Rightarrow> match_pair_args \<Rightarrow> unit handler" where
  "process_match_substitute e accounts args = do_substitute e accounts args False"

definition process_match_substitute_with_settle ::
  "env \<Rightarrow> account_info list \<Rightarrow> match_pair_args \<Rightarrow> unit handler" where
  "process_match_substitute_with_settle e accounts args = do_substitute e accounts args True"

section \<open>Re-entry\<close>

record claim_reentry_args =
  cra_side :: u8
  cra_expiration_slot :: u64

definition reentry_side :: "u8 \<Rightarrow> pmlc \<Rightarrow> (pubkey \<times> u64 \<times> u8) result" where
  \<comment> \<open>the owner, the price and the flag of the claimed side\<close>
  "reentry_side side p =
     (if side = SIDE_LONG then Inr (long_owner p, long_reentry_price_fp p, PMLC_FLAG_LONG_REENTRY)
      else if side = SIDE_SHORT
      then Inr (short_owner p, short_reentry_price_fp p, PMLC_FLAG_SHORT_REENTRY)
      else err InvalidPmlcSide)"

definition clear_flag :: "u8 \<Rightarrow> (pmlc, unit) prog" where
  "clear_flag flag_mask = modify (\<lambda>p. p\<lparr> pm_flags := pm_flags p AND NOT flag_mask \<rparr>)"

text \<open>The trimming loop: the largest count that the free collateral pays for. It counts down from \<open>n\<close>.\<close>

primrec trim_contracts :: "nat \<Rightarrow> u64 \<Rightarrow> u64 \<Rightarrow> u16 \<Rightarrow> nat result" where
  "trim_contracts 0 free bucket max_fee = Inr 0"
| "trim_contracts (Suc n) free bucket max_fee =
     try_res (no_panic (checked_mul (of_nat (Suc n)) bucket)) (\<lambda>c.
     try_res (fee_buffer_for (of_nat (Suc n)) bucket max_fee) (\<lambda>f.
     try_res (no_panic (checked_add c f)) (\<lambda>need.
     if free \<ge> need then Inr (Suc n) else trim_contracts n free bucket max_fee)))"

definition affordable :: "u64 \<Rightarrow> u64 \<Rightarrow> u64 \<Rightarrow> u16 \<Rightarrow> (u16 \<times> u64 \<times> u64 \<times> u64) result" where
  \<comment> \<open>contracts, collateral, fee buffer and their sum; no contracts when nothing fits\<close>
  "affordable n64 free bucket max_fee =
     (let n = (ucast (min n64 65535) :: u16) in
      try_res (reservation n bucket max_fee) (\<lambda>(c, f, need).
      if \<not> free < need then Inr (n, c, f, need)
      else try_res (trim_contracts (unat n) free bucket max_fee) (\<lambda>k.
        if k = 0 then Inr (0, 0, 0, 0)
        else try_res (reservation (of_nat k) bucket max_fee) (\<lambda>(c, f, need).
          Inr (of_nat k, c, f, need)))))"

definition claim_checks ::
  "env \<Rightarrow> account_info list \<Rightarrow> claim_reentry_args \<Rightarrow> (instrument_config \<times> u64 \<times> u8) handler" where
  "claim_checks e accounts args =
     (let owner = accounts ! 0; program_config_ai = accounts ! 1; pmlc_ai = accounts ! 2;
          instrument_ai = accounts ! 3; book_ai = accounts ! 4; margin_ai = accounts ! 5 in
      bnd (unpaused_config program_config_ai) (\<lambda>_.
      seq (ensure (\<not> (cra_side args \<noteq> SIDE_LONG \<and> cra_side args \<noteq> SIDE_SHORT)) InvalidInstructionData)
      (bnd (read_acct load_pmlc pmlc_ai) (\<lambda>p.
       seq (ensure (pm_status p \<noteq> PMLC_STATUS_LIVE) PmlcNotLive)
       (bnd (lift (reentry_side (cra_side args) p)) (\<lambda>(required_owner, price, flag_mask).
        seq (ensure (pm_flags p AND flag_mask \<noteq> 0) InvalidPmlcSide)
        (seq (ensure (required_owner = ai_key owner) MissingSigner)
        (seq (ensure (ai_key instrument_ai = pm_instrument p) InvalidPda)
        (bnd (read_acct load_instrument instrument_ai) (\<lambda>inst.
         seq (lift (require_active inst))
         (seq (ensure (ic_mint inst = pm_mint p) InvalidPda)
         (seq (ensure (ic_book inst = ai_key book_ai) InvalidPda)
         (seq (lift (validate_price_ticked price (tick_fp inst)))
         (seq (ensure (\<not> cra_expiration_slot args \<le> clock_slot e) IntentExpired)
         (ret (inst, price, flag_mask))))))))))))))))"

definition process_claim_reentry ::
  "env \<Rightarrow> account_info list \<Rightarrow> claim_reentry_args \<Rightarrow> unit handler" where
  "process_claim_reentry e accounts args =
     seq (need_accounts 6 accounts)
     (let owner = accounts ! 0; pmlc_ai = accounts ! 2; book_ai = accounts ! 4;
          margin_ai = accounts ! 5 in
      seq (assert_signers [owner])
      (seq (assert_writables [pmlc_ai, book_ai, margin_ai])
      (seq (assert_owners (program_id e)
              [accounts ! 1, pmlc_ai, accounts ! 3, book_ai, margin_ai])
      (bnd (claim_checks e accounts args) (\<lambda>(inst, price, flag_mask).
       bnd (pda e (margin_seeds (ai_key owner) (ic_mint inst)) margin_ai) (\<lambda>_.
       bnd (read_acct load_margin margin_ai) (\<lambda>m.
       seq (ensure (\<not> (ma_owner m \<noteq> ai_key owner \<or> ma_mint m \<noteq> ic_mint inst)) InvalidPda)
       (bnd (lift (no_panic (checked_div (free_collateral m) (collateral_bucket inst)))) (\<lambda>n64.
        if n64 = 0 then edit_acct load_pmlc DPmlc pmlc_ai (clear_flag flag_mask)
        else bnd (read_acct load_book book_ai) (\<lambda>b0.
          bnd (lift (affordable n64 (free_collateral m) (collateral_bucket inst) (cached_max_fee_bps b0)))
            (\<lambda>(n, collateral, buffer, need).
          if n = 0 then edit_acct load_pmlc DPmlc pmlc_ai (clear_flag flag_mask)
          else
            seq (edit_acct load_margin DMargin margin_ai (move_free_to_reserved need))
            (bnd (edit_acct load_book DBook book_ai
                    (place_intent (ai_key owner) (cra_side args) INTENT_FLAG_REENTRY price n
                       (cra_expiration_slot args) collateral buffer)) (\<lambda>_.
             edit_acct load_pmlc DPmlc pmlc_ai (clear_flag flag_mask))))))))))))))"

end
