(* ===== verification/Registries_Ix.thy ===== *)
theory Registries_Ix
  imports Admin_Ix
begin

text \<open>The bucket and stablecoin registries (\<open>processor/registries.rs\<close>).\<close>

section \<open>Bucket registry\<close>

record bucket_registry_args =
  bra_leverage_bps :: "u32 list"
  bra_collateral_buckets :: "u64 list"

definition process_init_bucket_registry ::
  "env \<Rightarrow> account_info list \<Rightarrow> bucket_registry_args \<Rightarrow> unit handler" where
  "process_init_bucket_registry e accounts args =
     seq (need_accounts 4 accounts)
     (let adm = accounts ! 0; config_ai = accounts ! 1; registry_ai = accounts ! 2;
          system_program = accounts ! 3 in
      seq (assert_signers [adm])
      (seq (assert_writables [adm, registry_ai])
      (seq (assert_owner (program_id e) config_ai)
      (seq (require (ai_key system_program = system_program_id e) InvalidAccountData)
      (seq (authorize_with e config_ai accounts)
      (bnd (pda e [SEED_BUCKET_REGISTRY] registry_ai) (\<lambda>bump.
       seq (create_if_empty e adm registry_ai system_program BUCKET_REGISTRY_LEN
              [SEED_BUCKET_REGISTRY, [bump]])
       (let leverages = (if bra_leverage_bps args = [] then DEFAULT_LEVERAGE_BPS
                         else bra_leverage_bps args);
            buckets = (if bra_collateral_buckets args = [] then DEFAULT_COLLATERAL_BUCKETS
                       else bra_collateral_buckets args) in
        seq (lift (validate_inputs leverages buckets))
        (init_acct BUCKET_REGISTRY_LEN registry_ai
           (DBuckets (new_bucket_registry leverages buckets bump)))))))))))"

definition process_set_bucket_registry ::
  "env \<Rightarrow> account_info list \<Rightarrow> bucket_registry_args \<Rightarrow> unit handler" where
  "process_set_bucket_registry e accounts args =
     seq (need_accounts 2 accounts)
     (let config_ai = accounts ! 0; registry_ai = accounts ! 1 in
      seq (assert_writables [registry_ai])
      (seq (assert_owners (program_id e) [config_ai, registry_ai])
      (seq (authorize_with e config_ai accounts)
      (edit_acct load_buckets DBuckets registry_ai
         (set_buckets (bra_leverage_bps args) (bra_collateral_buckets args))))))"

section \<open>Stablecoin registry\<close>

definition MINT_LEN :: nat where
  \<comment> \<open>\<open>spl_token::state::Mint::LEN\<close>\<close>
  "MINT_LEN = 82"

record stablecoin_registry_args =
  sra_wusd_decimals :: u8
  sra_initial_mints :: "u8 list list"

definition create_wusd_mint ::
  "env \<Rightarrow> account_info \<Rightarrow> account_info \<Rightarrow> account_info \<Rightarrow> account_info \<Rightarrow> account_info \<Rightarrow>
   account_info \<Rightarrow> u8 \<Rightarrow> u8 \<Rightarrow> unit handler" where
  "create_wusd_mint e adm wusd_mint_ai wusd_authority_ai token_program system_program rent_sysvar
       mint_bump decimals =
     seq (create_account e adm wusd_mint_ai system_program MINT_LEN (token_program_id e)
            [SEED_WUSD_MINT, [mint_bump]])
     (invoke e (InitializeMint2 (ai_key wusd_mint_ai) (ai_key wusd_authority_ai) decimals)
        [ai_key wusd_mint_ai, ai_key token_program, ai_key rent_sysvar] [])"

definition process_init_stablecoin_registry ::
  "env \<Rightarrow> account_info list \<Rightarrow> stablecoin_registry_args \<Rightarrow> unit handler" where
  "process_init_stablecoin_registry e accounts args =
     seq (need_accounts 8 accounts)
     (let adm = accounts ! 0; config_ai = accounts ! 1; registry_ai = accounts ! 2;
          wusd_mint_ai = accounts ! 3; wusd_authority_ai = accounts ! 4;
          token_program = accounts ! 5; system_program = accounts ! 6; rent_sysvar = accounts ! 7 in
      seq (assert_signers [adm])
      (seq (assert_writables [adm, registry_ai, wusd_mint_ai])
      (seq (assert_owner (program_id e) config_ai)
      (seq (require (\<not> (ai_key token_program \<noteq> token_program_id e \<or>
                        ai_key system_program \<noteq> system_program_id e)) InvalidAccountData)
      (seq (authorize_with e config_ai accounts)
      (bnd (pda e [SEED_STABLECOIN_REGISTRY] registry_ai) (\<lambda>reg_bump.
       bnd (pda e [SEED_WUSD_MINT] wusd_mint_ai) (\<lambda>mint_bump.
       bnd (pda e [SEED_WUSD_AUTHORITY] wusd_authority_ai) (\<lambda>auth_bump.
       seq (create_if_empty e adm registry_ai system_program STABLECOIN_REGISTRY_LEN
              [SEED_STABLECOIN_REGISTRY, [reg_bump]])
       (seq (bnd (gets (acct_len wusd_mint_ai)) (\<lambda>len.
              when_do (len = 0)
                (create_wusd_mint e adm wusd_mint_ai wusd_authority_ai token_program
                   system_program rent_sysvar mint_bump (sra_wusd_decimals args))))
       (let initial_mints = map Pubkey (sra_initial_mints args) in
        seq (lift (check_initial_mints initial_mints))
        (init_acct STABLECOIN_REGISTRY_LEN registry_ai
           (DStablecoins (new_stablecoin_registry (ai_key wusd_mint_ai) (sra_wusd_decimals args)
              initial_mints reg_bump))))))))))))))"

definition process_add_stablecoin_mint :: "env \<Rightarrow> account_info list \<Rightarrow> unit handler" where
  "process_add_stablecoin_mint e accounts =
     seq (need_accounts 3 accounts)
     (let config_ai = accounts ! 0; registry_ai = accounts ! 1; new_mint_ai = accounts ! 2 in
      seq (assert_writables [registry_ai])
      (seq (assert_owners (program_id e) [config_ai, registry_ai])
      (seq (check_world (owner_is (token_program_id e) new_mint_ai) (Custom InvalidMint))
      (seq (authorize_with e config_ai accounts)
      (seq (bnd (read_acct (unpack_mint_decimals e) new_mint_ai) (\<lambda>decimals.
            bnd (read_acct load_stablecoins registry_ai) (\<lambda>reg.
            ensure (decimals = wusd_decimals reg) StablecoinDecimalsMismatch)))
      (edit_acct load_stablecoins DStablecoins registry_ai (add_mint (ai_key new_mint_ai))))))))"

definition process_remove_stablecoin_mint :: "env \<Rightarrow> account_info list \<Rightarrow> unit handler" where
  "process_remove_stablecoin_mint e accounts =
     seq (need_accounts 3 accounts)
     (let config_ai = accounts ! 0; registry_ai = accounts ! 1; mint_ai = accounts ! 2 in
      seq (assert_writables [registry_ai])
      (seq (assert_owners (program_id e) [config_ai, registry_ai])
      (seq (authorize_with e config_ai accounts)
      (edit_acct load_stablecoins DStablecoins registry_ai (remove_mint (ai_key mint_ai))))))"

end
