(* ===== verification/Wusd_Ix.thy ===== *)
theory Wusd_Ix
  imports Runtime
begin

text \<open>
  Wrapping and unwrapping of stablecoins (\<open>processor/wusd.rs\<close>). The token movements are calls
  into the token program; what the program itself checks is the registry, the addresses and
  the reserve account.
\<close>

definition check_wusd_registry ::
  "account_info \<Rightarrow> account_info \<Rightarrow> account_info \<Rightarrow> unit handler" where
  "check_wusd_registry registry_ai wusd_mint_ai mint =
     bnd (read_acct load_stablecoins registry_ai) (\<lambda>reg.
     seq (ensure (wusd_mint reg = ai_key wusd_mint_ai) InvalidMint)
     (ensure (is_accepted reg (ai_key mint)) StablecoinNotAccepted))"

definition process_wrap_stablecoin :: "env \<Rightarrow> account_info list \<Rightarrow> u64 \<Rightarrow> unit handler" where
  "process_wrap_stablecoin e accounts amount =
     seq (ensure (amount \<noteq> 0) InvalidInstructionData)
     (seq (need_accounts 9 accounts)
     (let user = accounts ! 0; registry_ai = accounts ! 1; source_mint = accounts ! 2;
          wusd_mint_ai = accounts ! 3; wusd_authority_ai = accounts ! 4;
          user_source_ata = accounts ! 5; reserve_ata = accounts ! 6; user_wusd_ata = accounts ! 7;
          token_program = accounts ! 8 in
      seq (assert_signers [user])
      (seq (assert_writables [wusd_mint_ai, user_source_ata, reserve_ata, user_wusd_ata])
      (seq (assert_owner (program_id e) registry_ai)
      (seq (require (ai_key token_program = token_program_id e) InvalidAccountData)
      (bnd (pda e [SEED_WUSD_MINT] wusd_mint_ai) (\<lambda>_.
       bnd (pda e [SEED_WUSD_AUTHORITY] wusd_authority_ai) (\<lambda>auth_bump.
       seq (check_wusd_registry registry_ai wusd_mint_ai source_mint)
       (seq (bnd (read_acct (unpack_token_account e) reserve_ata) (\<lambda>token.
              seq (ensure (token_owner token = ai_key wusd_authority_ai) InvalidTokenAccountOwner)
              (ensure (token_mint token = ai_key source_mint) InvalidMint)))
       (seq (invoke e (TokenTransfer (ai_key user_source_ata) (ai_key reserve_ata) (ai_key user) amount)
               [ai_key user_source_ata, ai_key reserve_ata, ai_key user, ai_key token_program] [])
       (invoke e (TokenMintTo (ai_key wusd_mint_ai) (ai_key user_wusd_ata) (ai_key wusd_authority_ai)
                    amount)
          [ai_key wusd_mint_ai, ai_key user_wusd_ata, ai_key wusd_authority_ai, ai_key token_program]
          [[SEED_WUSD_AUTHORITY, [auth_bump]]])))))))))))"

definition process_unwrap_stablecoin :: "env \<Rightarrow> account_info list \<Rightarrow> u64 \<Rightarrow> unit handler" where
  "process_unwrap_stablecoin e accounts amount =
     seq (ensure (amount \<noteq> 0) InvalidInstructionData)
     (seq (need_accounts 9 accounts)
     (let user = accounts ! 0; registry_ai = accounts ! 1; target_mint = accounts ! 2;
          wusd_mint_ai = accounts ! 3; wusd_authority_ai = accounts ! 4;
          user_wusd_ata = accounts ! 5; reserve_ata = accounts ! 6; user_target_ata = accounts ! 7;
          token_program = accounts ! 8 in
      seq (assert_signers [user])
      (seq (assert_writables [wusd_mint_ai, user_wusd_ata, reserve_ata, user_target_ata])
      (seq (assert_owner (program_id e) registry_ai)
      (seq (require (ai_key token_program = token_program_id e) InvalidAccountData)
      (bnd (pda e [SEED_WUSD_MINT] wusd_mint_ai) (\<lambda>_.
       bnd (pda e [SEED_WUSD_AUTHORITY] wusd_authority_ai) (\<lambda>auth_bump.
       seq (check_wusd_registry registry_ai wusd_mint_ai target_mint)
       (seq (bnd (read_acct (unpack_token_account e) reserve_ata) (\<lambda>token.
              seq (ensure (token_owner token = ai_key wusd_authority_ai) InvalidTokenAccountOwner)
              (seq (ensure (token_mint token = ai_key target_mint) InvalidMint)
              (ensure (\<not> token_amount token < amount) InsufficientStablecoinReserve))))
       (seq (invoke e (TokenBurn (ai_key user_wusd_ata) (ai_key wusd_mint_ai) (ai_key user) amount)
               [ai_key user_wusd_ata, ai_key wusd_mint_ai, ai_key user, ai_key token_program] [])
       (invoke e (TokenTransfer (ai_key reserve_ata) (ai_key user_target_ata)
                    (ai_key wusd_authority_ai) amount)
          [ai_key reserve_ata, ai_key user_target_ata, ai_key wusd_authority_ai, ai_key token_program]
          [[SEED_WUSD_AUTHORITY, [auth_bump]]])))))))))))"

end
