(* ===== verification/Session_Ix.thy ===== *)
theory Session_Ix
  imports Runtime
begin

text \<open>Creating and revoking a trading session (\<open>processor/session.rs\<close>).\<close>

record create_session_args =
  csa_delegate :: "u8 list"
  csa_expires_at_slot :: u64
  csa_per_intent_max :: u64
  csa_cumulative_cap :: u64
  csa_allowed_instruments :: "u8 list list"

definition check_session_args :: "u64 \<Rightarrow> create_session_args \<Rightarrow> unit result" where
  "check_session_args now_slot args =
     (if length (csa_allowed_instruments args) > MAX_SESSION_INSTRUMENTS then err InvalidInstructionData
      else if csa_expires_at_slot args \<le> now_slot then err InvalidInstructionData
      else if csa_per_intent_max args = 0 \<or> csa_cumulative_cap args = 0 then err InvalidInstructionData
      else if csa_per_intent_max args > csa_cumulative_cap args then err InvalidInstructionData
      else Inr ())"

definition alloc_or_check_session ::
  "env \<Rightarrow> account_info \<Rightarrow> account_info \<Rightarrow> account_info \<Rightarrow> u8 \<Rightarrow> unit handler" where
  "alloc_or_check_session e owner session_ai system_program bump =
     bnd (gets (acct_len session_ai)) (\<lambda>len.
     if len = 0 then
       create_account e owner session_ai system_program SESSION_LEN (program_id e)
         [SEED_SESSION, key_bytes (ai_key owner), [bump]]
     else
       bnd (read_acct load_session session_ai) (\<lambda>existing.
       seq (ensure (se_owner existing = ai_key owner) SessionOwnerMismatch)
       (ensure (\<not> is_active existing (clock_slot e)) AlreadyInitialized)))"

definition process_create_session ::
  "env \<Rightarrow> account_info list \<Rightarrow> create_session_args \<Rightarrow> unit handler" where
  "process_create_session e accounts args =
     seq (need_accounts 4 accounts)
     (let owner = accounts ! 0; program_config_ai = accounts ! 1; session_ai = accounts ! 2;
          system_program = accounts ! 3; now_slot = clock_slot e in
      seq (assert_signers [owner])
      (seq (assert_writables [owner, session_ai])
      (seq (assert_owner (program_id e) program_config_ai)
      (seq (require (ai_key system_program = system_program_id e) InvalidAccountData)
      (seq (bnd (read_acct load_config program_config_ai) (\<lambda>cfg.
              ensure (global_pause cfg = 0) GlobalPaused))
      (bnd (pda e [SEED_SESSION, key_bytes (ai_key owner)] session_ai) (\<lambda>bump.
       seq (lift (check_session_args now_slot args))
       (seq (alloc_or_check_session e owner session_ai system_program bump)
       (bnd (lift (session_init (ai_key owner) (Pubkey (csa_delegate args)) bump
               (csa_expires_at_slot args) (csa_per_intent_max args) (csa_cumulative_cap args)
               (map Pubkey (csa_allowed_instruments args)) now_slot)) (\<lambda>s.
        seq (asks (\<lambda>w. cast_check SESSION_LEN (acc_data (w (ai_key session_ai)))))
        (modify (set_data (ai_key session_ai) (DSession s)))))))))))))"

definition process_revoke_session :: "env \<Rightarrow> account_info list \<Rightarrow> unit handler" where
  "process_revoke_session e accounts =
     seq (need_accounts 2 accounts)
     (let owner = accounts ! 0; session_ai = accounts ! 1 in
      seq (assert_signers [owner])
      (seq (assert_writables [session_ai])
      (seq (assert_owner (program_id e) session_ai)
      (bnd (pda e [SEED_SESSION, key_bytes (ai_key owner)] session_ai) (\<lambda>_.
       edit_acct load_session DSession session_ai
         (seq (bnd (gets se_owner) (\<lambda>k. ensure (k = ai_key owner) SessionOwnerMismatch))
          (modify revoke)))))))"

end
