(* ===== verification/Instrument_Ix.thy ===== *)
theory Instrument_Ix
  imports Admin_Ix
begin

text \<open>
  Instruments and their books: creation, pause and resume, expansion of the intent book
  (\<open>processor/instrument.rs\<close>).
\<close>

record create_instrument_args =
  cia_source :: u8
  cia_market_id :: "u8 list"
  cia_token_a :: "u8 list"
  cia_token_b :: "u8 list"
  cia_leverage_bps :: u32
  cia_collateral_bucket :: u64
  cia_twap_window_slots :: u64
  cia_tick_fp :: u64
  cia_liquidation_bps :: u32
  cia_liquidation_bounty_bps :: u16
  cia_max_staleness_secs :: u64
  cia_initial_book_capacity :: u32
  cia_reference_usd :: u64

section \<open>Creation\<close>

definition check_instrument_args :: "create_instrument_args \<Rightarrow> unit result" where
  "check_instrument_args args =
     (if cia_initial_book_capacity args < 16 then err InvalidInstructionData
      else if cia_twap_window_slots args = 0 then err InvalidInstructionData
      else if cia_collateral_bucket args = 0 \<or> cia_tick_fp args = 0 then err InvalidCollateralBucket
      else Inr ())"

text \<open>The optional trailing account: consulted only when it looks like a bucket registry.\<close>

definition looks_like_registry :: "env \<Rightarrow> account_info \<Rightarrow> world \<Rightarrow> bool" where
  "looks_like_registry e ai w \<longleftrightarrow>
     owner_is (program_id e) ai w \<and> acct_len ai w > 0 \<and> discriminator (acc_data (w (ai_key ai))) = 15"

definition check_trailing_registry ::
  "env \<Rightarrow> account_info list \<Rightarrow> create_instrument_args \<Rightarrow> unit handler" where
  "check_trailing_registry e trailing args =
     (case trailing of [] \<Rightarrow> ret ()
      | registry_ai # _ \<Rightarrow>
          bnd (gets (looks_like_registry e registry_ai)) (\<lambda>looks.
          when_do looks
            (seq (ensure (ai_key registry_ai = fst (find_program_address e [SEED_BUCKET_REGISTRY]))
                    InvalidPda)
            (bnd (read_acct load_buckets registry_ai) (\<lambda>reg.
             seq (ensure (allows_leverage reg (cia_leverage_bps args)) BucketNotInRegistry)
             (ensure (allows_bucket reg (cia_collateral_bucket args)) BucketNotInRegistry))))))"

definition instrument_seeds :: "create_instrument_args \<Rightarrow> seeds" where
  "instrument_seeds args =
     [SEED_INSTRUMENT, [cia_source args], cia_market_id args, to_le_bytes (cia_leverage_bps args),
      to_le_bytes (cia_collateral_bucket args), to_le_bytes (cia_twap_window_slots args)]"

definition allocate_instrument ::
  "env \<Rightarrow> account_info \<Rightarrow> account_info \<Rightarrow> account_info \<Rightarrow> create_instrument_args \<Rightarrow> u8 handler" where
  "allocate_instrument e adm instrument_ai system_program args =
     bnd (pda e (instrument_seeds args) instrument_ai) (\<lambda>instrument_bump.
     seq (check_world (\<lambda>w. acct_len instrument_ai w = 0) (Custom AlreadyInitialized))
     (seq (create_account e adm instrument_ai system_program INSTRUMENT_CONFIG_LEN (program_id e)
             (instrument_seeds args @ [[instrument_bump]]))
     (ret instrument_bump)))"

definition allocate_book ::
  "env \<Rightarrow> account_info \<Rightarrow> account_info \<Rightarrow> account_info \<Rightarrow> account_info \<Rightarrow> u32 \<Rightarrow> u8 handler" where
  "allocate_book e adm instrument_ai book_ai system_program capacity =
     bnd (pda e [SEED_BOOK, key_bytes (ai_key instrument_ai)] book_ai) (\<lambda>book_bump.
     seq (check_world (\<lambda>w. acct_len book_ai w = 0) (Custom AlreadyInitialized))
     (seq (create_account e adm book_ai system_program (intent_book_byte_size capacity) (program_id e)
             [SEED_BOOK, key_bytes (ai_key instrument_ai), [book_bump]])
     (ret book_bump)))"

definition init_instrument_account ::
  "account_info \<Rightarrow> account_info \<Rightarrow> account_info \<Rightarrow> create_instrument_args \<Rightarrow> u8 \<Rightarrow> unit handler" where
  "init_instrument_account instrument_ai mint book_ai args bump =
     seq (asks (\<lambda>w. blank_check INSTRUMENT_CONFIG_LEN (acc_data (w (ai_key instrument_ai)))))
     (bnd (lift (instrument_init (cia_source args) (cia_market_id args) (cia_token_a args)
             (cia_token_b args) (ai_key mint) (ai_key book_ai) (cia_leverage_bps args)
             (cia_collateral_bucket args) (cia_twap_window_slots args) (cia_tick_fp args)
             (cia_liquidation_bps args) (cia_liquidation_bounty_bps args)
             (cia_max_staleness_secs args) (cia_reference_usd args) bump)) (\<lambda>c.
      modify (set_data (ai_key instrument_ai) (DInstrument c))))"

definition init_book_account ::
  "account_info \<Rightarrow> account_info \<Rightarrow> u32 \<Rightarrow> u8 \<Rightarrow> u16 \<Rightarrow> unit handler" where
  "init_book_account instrument_ai book_ai capacity bump max_fee =
     seq (check_world (\<lambda>w. acct_len book_ai w = intent_book_byte_size capacity)
            (Custom AccountDataTooSmall))
     (modify (set_data (ai_key book_ai) (DBook (new_intent_book (ai_key instrument_ai) capacity bump
        max_fee))))"

definition ensure_market_nonce ::
  "env \<Rightarrow> account_info \<Rightarrow> account_info \<Rightarrow> account_info \<Rightarrow> u8 list \<Rightarrow> unit handler" where
  "ensure_market_nonce e adm market_nonce_ai system_program market =
     bnd (pda e [SEED_MARKET_NONCE, market] market_nonce_ai) (\<lambda>nonce_bump.
     bnd (gets (acct_len market_nonce_ai)) (\<lambda>len.
     if len = 0 then
       seq (create_account e adm market_nonce_ai system_program MARKET_NONCE_LEN (program_id e)
              [SEED_MARKET_NONCE, market, [nonce_bump]])
       (init_acct MARKET_NONCE_LEN market_nonce_ai (DNonce (new_market_nonce market nonce_bump)))
     else assert_owner (program_id e) market_nonce_ai))"

definition process_create_instrument ::
  "env \<Rightarrow> account_info list \<Rightarrow> create_instrument_args \<Rightarrow> unit handler" where
  "process_create_instrument e accounts args =
     seq (need_accounts 7 accounts)
     (let adm = accounts ! 0; config_ai = accounts ! 1; instrument_ai = accounts ! 2;
          book_ai = accounts ! 3; mint = accounts ! 4; system_program = accounts ! 5;
          market_nonce_ai = accounts ! 6 in
      seq (assert_signers [adm])
      (seq (assert_writables [adm, instrument_ai, book_ai, market_nonce_ai])
      (seq (require (ai_key system_program = system_program_id e) InvalidAccountData)
      (seq (check_world (owner_is (token_program_id e) mint) (Custom InvalidMint))
      (seq (assert_owner (program_id e) config_ai)
      (seq (require_admin config_ai adm)
      (seq (lift (check_instrument_args args))
      (seq (check_trailing_registry e (drop 7 accounts) args)
      (bnd (allocate_instrument e adm instrument_ai system_program args) (\<lambda>instrument_bump.
       bnd (allocate_book e adm instrument_ai book_ai system_program (cia_initial_book_capacity args))
         (\<lambda>book_bump.
       seq (init_instrument_account instrument_ai mint book_ai args instrument_bump)
       (seq (init_book_account instrument_ai book_ai (cia_initial_book_capacity args) book_bump 0)
       (ensure_market_nonce e adm market_nonce_ai system_program (cia_market_id args))))))))))))))"

section \<open>Pause and resume\<close>

definition process_set_instrument_status :: "env \<Rightarrow> account_info list \<Rightarrow> bool \<Rightarrow> unit handler" where
  "process_set_instrument_status e accounts pause =
     seq (need_accounts 3 accounts)
     (let adm = accounts ! 0; config_ai = accounts ! 1; instrument_ai = accounts ! 2 in
      seq (assert_signers [adm])
      (seq (assert_writables [instrument_ai])
      (seq (assert_owners (program_id e) [config_ai, instrument_ai])
      (seq (require_admin config_ai adm)
      (edit_acct load_instrument DInstrument instrument_ai
         (modify (\<lambda>c. c\<lparr> ic_status := (if pause then STATUS_PAUSED else STATUS_ACTIVE) \<rparr>)))))))"

section \<open>Expansion of the book\<close>

primrec link_new_nodes :: "nat list \<Rightarrow> (book, unit) prog" where
  "link_new_nodes [] = ret ()"
| "link_new_nodes (idx # rest) =
     seq (bnd (gets (\<lambda>b. length (bk_nodes b))) (\<lambda>len. require (idx < len) Panicked))
     (seq (modify (\<lambda>b. b\<lparr> bk_nodes := (bk_nodes b)[idx := NFree (freelist_head b)],
                          freelist_head := of_nat idx \<rparr>))
     (link_new_nodes rest))"

definition expand_book :: "u32 \<Rightarrow> (book, unit) prog" where
  "expand_book additional_nodes =
     bnd (gets bk_capacity) (\<lambda>old_capacity.
     bnd (lift (ok_or_err (checked_add old_capacity additional_nodes) ArithmeticOverflow)) (\<lambda>capacity.
     seq (modify (\<lambda>b. b\<lparr> bk_capacity := capacity \<rparr>))
     (link_new_nodes [unat old_capacity..<unat capacity])))"

definition top_up_rent ::
  "env \<Rightarrow> account_info \<Rightarrow> account_info \<Rightarrow> account_info \<Rightarrow> nat \<Rightarrow> unit handler" where
  "top_up_rent e payer book_ai system_program new_len =
     bnd (gets (\<lambda>w. acc_lamports (w (ai_key book_ai)))) (\<lambda>current_lamports.
     let required_lamports = minimum_balance e new_len in
     when_do (required_lamports > current_lamports)
       (invoke e (SystemTransfer (ai_key payer) (ai_key book_ai) (required_lamports - current_lamports))
          [ai_key payer, ai_key book_ai, ai_key system_program] []))"

definition process_expand_intent_book :: "env \<Rightarrow> account_info list \<Rightarrow> u32 \<Rightarrow> unit handler" where
  "process_expand_intent_book e accounts additional_nodes =
     seq (ensure (additional_nodes \<noteq> 0) InvalidInstructionData)
     (seq (need_accounts 5 accounts)
     (let payer = accounts ! 0; program_config_ai = accounts ! 1; instrument_ai = accounts ! 2;
          book_ai = accounts ! 3; system_program = accounts ! 4 in
      seq (assert_signers [payer])
      (seq (assert_writables [payer, book_ai])
      (seq (assert_owners (program_id e) [program_config_ai, instrument_ai, book_ai])
      (seq (require (ai_key system_program = system_program_id e) InvalidAccountData)
      (seq (bnd (read_acct load_instrument instrument_ai) (\<lambda>inst.
             ensure (ic_book inst = ai_key book_ai) InvalidPda))
      (bnd (gets (acct_len book_ai)) (\<lambda>len.
       let new_len = len + unat additional_nodes * NODE_SIZE in
       seq (top_up_rent e payer book_ai system_program new_len)
       (seq (realloc e (ai_key book_ai) new_len)
       (edit_acct load_book DBook book_ai (expand_book additional_nodes)))))))))))"

end
