(* ===== verification/Dispatch.thy ===== *)
theory Dispatch
  imports Prune_Ix Position_Ix Registries_Ix Wusd_Ix Session_Ix Instrument_Ix
begin

text \<open>
  The instruction tags (\<open>src/instruction.rs\<close>) and the dispatcher (\<open>processor/mod.rs\<close>). The Borsh
  decoders of the argument structures are generated by a derive macro of another crate; they
  are the fields of the record \<open>borsh\<close>, one per wire shape (the shapes of a single integer are
  shared by the argument structures that hold just that integer).
\<close>

section \<open>Tags\<close>

datatype (plugins only: code size) instruction_tag =
    Tag_InitProgramConfig
  | Tag_SetGlobalPause
  | Tag_CreateInstrument
  | Tag_PauseInstrument
  | Tag_ResumeInstrument
  | Tag_ExpandIntentBook
  | Tag_CreateMarginAccount
  | Tag_Deposit
  | Tag_Withdraw
  | Tag_PostIntent
  | Tag_CancelIntent
  | Tag_MatchPair
  | Tag_MatchBestAvailable
  | Tag_PruneExpired
  | Tag_CreateSession
  | Tag_RevokeSession
  | Tag_PostIntentDelegated
  | Tag_CancelIntentDelegated
  | Tag_Liquidate
  | Tag_Resolve
  | Tag_CloseMutual
  | Tag_ClaimReentry
  | Tag_Novate
  | Tag_MatchSubstitute
  | Tag_MatchSubstituteWithSettle
  | Tag_ClosePmlc
  | Tag_InitFeeSchedule
  | Tag_SetFeeSchedule
  | Tag_SweepFees
  | Tag_ProposeSetAttestationSigner
  | Tag_ExecuteSetAttestationSigner
  | Tag_CancelTimelockProposal
  | Tag_InitAdminMultisig
  | Tag_RotateAdminMultisig
  | Tag_InitBucketRegistry
  | Tag_SetBucketRegistry
  | Tag_InitStablecoinRegistry
  | Tag_AddStablecoinMint
  | Tag_RemoveStablecoinMint
  | Tag_WrapStablecoin
  | Tag_UnwrapStablecoin

primrec tag_byte :: "instruction_tag \<Rightarrow> u8" where
  "tag_byte Tag_InitProgramConfig = 0"
| "tag_byte Tag_SetGlobalPause = 1"
| "tag_byte Tag_CreateInstrument = 10"
| "tag_byte Tag_PauseInstrument = 11"
| "tag_byte Tag_ResumeInstrument = 12"
| "tag_byte Tag_ExpandIntentBook = 13"
| "tag_byte Tag_CreateMarginAccount = 20"
| "tag_byte Tag_Deposit = 21"
| "tag_byte Tag_Withdraw = 22"
| "tag_byte Tag_PostIntent = 30"
| "tag_byte Tag_CancelIntent = 31"
| "tag_byte Tag_MatchPair = 32"
| "tag_byte Tag_MatchBestAvailable = 33"
| "tag_byte Tag_PruneExpired = 34"
| "tag_byte Tag_CreateSession = 35"
| "tag_byte Tag_RevokeSession = 36"
| "tag_byte Tag_PostIntentDelegated = 37"
| "tag_byte Tag_CancelIntentDelegated = 38"
| "tag_byte Tag_Liquidate = 40"
| "tag_byte Tag_Resolve = 41"
| "tag_byte Tag_CloseMutual = 42"
| "tag_byte Tag_ClaimReentry = 43"
| "tag_byte Tag_Novate = 44"
| "tag_byte Tag_MatchSubstitute = 45"
| "tag_byte Tag_MatchSubstituteWithSettle = 46"
| "tag_byte Tag_ClosePmlc = 47"
| "tag_byte Tag_InitFeeSchedule = 50"
| "tag_byte Tag_SetFeeSchedule = 51"
| "tag_byte Tag_SweepFees = 52"
| "tag_byte Tag_ProposeSetAttestationSigner = 60"
| "tag_byte Tag_ExecuteSetAttestationSigner = 61"
| "tag_byte Tag_CancelTimelockProposal = 62"
| "tag_byte Tag_InitAdminMultisig = 70"
| "tag_byte Tag_RotateAdminMultisig = 71"
| "tag_byte Tag_InitBucketRegistry = 80"
| "tag_byte Tag_SetBucketRegistry = 81"
| "tag_byte Tag_InitStablecoinRegistry = 90"
| "tag_byte Tag_AddStablecoinMint = 91"
| "tag_byte Tag_RemoveStablecoinMint = 92"
| "tag_byte Tag_WrapStablecoin = 93"
| "tag_byte Tag_UnwrapStablecoin = 94"

definition all_tags :: "instruction_tag list" where
  "all_tags = [Tag_InitProgramConfig,
     Tag_SetGlobalPause,
     Tag_CreateInstrument,
     Tag_PauseInstrument,
     Tag_ResumeInstrument,
     Tag_ExpandIntentBook,
     Tag_CreateMarginAccount,
     Tag_Deposit,
     Tag_Withdraw,
     Tag_PostIntent,
     Tag_CancelIntent,
     Tag_MatchPair,
     Tag_MatchBestAvailable,
     Tag_PruneExpired,
     Tag_CreateSession,
     Tag_RevokeSession,
     Tag_PostIntentDelegated,
     Tag_CancelIntentDelegated,
     Tag_Liquidate,
     Tag_Resolve,
     Tag_CloseMutual,
     Tag_ClaimReentry,
     Tag_Novate,
     Tag_MatchSubstitute,
     Tag_MatchSubstituteWithSettle,
     Tag_ClosePmlc,
     Tag_InitFeeSchedule,
     Tag_SetFeeSchedule,
     Tag_SweepFees,
     Tag_ProposeSetAttestationSigner,
     Tag_ExecuteSetAttestationSigner,
     Tag_CancelTimelockProposal,
     Tag_InitAdminMultisig,
     Tag_RotateAdminMultisig,
     Tag_InitBucketRegistry,
     Tag_SetBucketRegistry,
     Tag_InitStablecoinRegistry,
     Tag_AddStablecoinMint,
     Tag_RemoveStablecoinMint,
     Tag_WrapStablecoin,
     Tag_UnwrapStablecoin]"

definition tag_of_byte :: "u8 \<Rightarrow> instruction_tag result" where
  "tag_of_byte v =
     (if v = 0 then Inr Tag_InitProgramConfig
      else if v = 1 then Inr Tag_SetGlobalPause
      else if v = 10 then Inr Tag_CreateInstrument
      else if v = 11 then Inr Tag_PauseInstrument
      else if v = 12 then Inr Tag_ResumeInstrument
      else if v = 13 then Inr Tag_ExpandIntentBook
      else if v = 20 then Inr Tag_CreateMarginAccount
      else if v = 21 then Inr Tag_Deposit
      else if v = 22 then Inr Tag_Withdraw
      else if v = 30 then Inr Tag_PostIntent
      else if v = 31 then Inr Tag_CancelIntent
      else if v = 32 then Inr Tag_MatchPair
      else if v = 33 then Inr Tag_MatchBestAvailable
      else if v = 34 then Inr Tag_PruneExpired
      else if v = 35 then Inr Tag_CreateSession
      else if v = 36 then Inr Tag_RevokeSession
      else if v = 37 then Inr Tag_PostIntentDelegated
      else if v = 38 then Inr Tag_CancelIntentDelegated
      else if v = 40 then Inr Tag_Liquidate
      else if v = 41 then Inr Tag_Resolve
      else if v = 42 then Inr Tag_CloseMutual
      else if v = 43 then Inr Tag_ClaimReentry
      else if v = 44 then Inr Tag_Novate
      else if v = 45 then Inr Tag_MatchSubstitute
      else if v = 46 then Inr Tag_MatchSubstituteWithSettle
      else if v = 47 then Inr Tag_ClosePmlc
      else if v = 50 then Inr Tag_InitFeeSchedule
      else if v = 51 then Inr Tag_SetFeeSchedule
      else if v = 52 then Inr Tag_SweepFees
      else if v = 60 then Inr Tag_ProposeSetAttestationSigner
      else if v = 61 then Inr Tag_ExecuteSetAttestationSigner
      else if v = 62 then Inr Tag_CancelTimelockProposal
      else if v = 70 then Inr Tag_InitAdminMultisig
      else if v = 71 then Inr Tag_RotateAdminMultisig
      else if v = 80 then Inr Tag_InitBucketRegistry
      else if v = 81 then Inr Tag_SetBucketRegistry
      else if v = 90 then Inr Tag_InitStablecoinRegistry
      else if v = 91 then Inr Tag_AddStablecoinMint
      else if v = 92 then Inr Tag_RemoveStablecoinMint
      else if v = 93 then Inr Tag_WrapStablecoin
      else if v = 94 then Inr Tag_UnwrapStablecoin
      else err UnsupportedInstruction)"

section \<open>Dispatch\<close>

record borsh =
  d_u8 :: "u8 list \<Rightarrow> u8 option"
  d_u32 :: "u8 list \<Rightarrow> u32 option"
  d_u64 :: "u8 list \<Rightarrow> u64 option"
  d_init_program_config :: "u8 list \<Rightarrow> init_program_config_args option"
  d_create_instrument :: "u8 list \<Rightarrow> create_instrument_args option"
  d_post_intent :: "u8 list \<Rightarrow> post_intent_args option"
  d_match_pair :: "u8 list \<Rightarrow> match_pair_args option"
  d_create_session :: "u8 list \<Rightarrow> create_session_args option"
  d_claim_reentry :: "u8 list \<Rightarrow> claim_reentry_args option"
  d_tiers :: "u8 list \<Rightarrow> fee_tier list option"
  d_propose :: "u8 list \<Rightarrow> propose_args option"
  d_multisig :: "u8 list \<Rightarrow> multisig_args option"
  d_buckets :: "u8 list \<Rightarrow> bucket_registry_args option"
  d_stablecoins :: "u8 list \<Rightarrow> stablecoin_registry_args option"

definition with_args :: "'a option \<Rightarrow> ('a \<Rightarrow> unit handler) \<Rightarrow> unit handler" where
  "with_args decoded k =
     (case decoded of None \<Rightarrow> fail_with (Custom InvalidInstructionData) | Some a \<Rightarrow> k a)"

primrec run_tag ::
  "instruction_tag \<Rightarrow> env \<Rightarrow> borsh \<Rightarrow> account_info list \<Rightarrow> u8 list \<Rightarrow> unit handler" where
  "run_tag Tag_InitProgramConfig e d accounts payload =
     with_args (d_init_program_config d payload) (process_init_program_config e accounts)"
| "run_tag Tag_SetGlobalPause e d accounts payload =
     seq (ensure (length payload = 1) InvalidInstructionData)
     (process_set_global_pause e accounts (payload ! 0 \<noteq> 0))"
| "run_tag Tag_CreateInstrument e d accounts payload =
     with_args (d_create_instrument d payload) (process_create_instrument e accounts)"
| "run_tag Tag_PauseInstrument e d accounts payload = process_set_instrument_status e accounts True"
| "run_tag Tag_ResumeInstrument e d accounts payload = process_set_instrument_status e accounts False"
| "run_tag Tag_ExpandIntentBook e d accounts payload =
     with_args (d_u32 d payload) (process_expand_intent_book e accounts)"
| "run_tag Tag_CreateMarginAccount e d accounts payload = process_create_margin_account e accounts"
| "run_tag Tag_Deposit e d accounts payload =
     with_args (d_u64 d payload) (process_deposit e accounts)"
| "run_tag Tag_Withdraw e d accounts payload =
     with_args (d_u64 d payload) (process_withdraw e accounts)"
| "run_tag Tag_PostIntent e d accounts payload =
     with_args (d_post_intent d payload) (process_post_intent e accounts)"
| "run_tag Tag_CancelIntent e d accounts payload =
     with_args (d_u64 d payload) (process_cancel_intent e accounts)"
| "run_tag Tag_MatchPair e d accounts payload =
     with_args (d_match_pair d payload) (process_match_pair e accounts)"
| "run_tag Tag_MatchBestAvailable e d accounts payload =
     with_args (d_u8 d payload) (\<lambda>_. process_match_best_available e accounts)"
| "run_tag Tag_PruneExpired e d accounts payload = process_prune_expired e accounts"
| "run_tag Tag_CreateSession e d accounts payload =
     with_args (d_create_session d payload) (process_create_session e accounts)"
| "run_tag Tag_RevokeSession e d accounts payload = process_revoke_session e accounts"
| "run_tag Tag_PostIntentDelegated e d accounts payload =
     with_args (d_post_intent d payload) (process_post_intent_delegated e accounts)"
| "run_tag Tag_CancelIntentDelegated e d accounts payload =
     with_args (d_u64 d payload) (process_cancel_intent_delegated e accounts)"
| "run_tag Tag_Liquidate e d accounts payload =
     with_args (d_u8 d payload) (process_liquidate e accounts)"
| "run_tag Tag_Resolve e d accounts payload =
     with_args (d_u8 d payload) (process_resolve e accounts)"
| "run_tag Tag_CloseMutual e d accounts payload =
     with_args (d_u8 d payload) (process_close_mutual e accounts)"
| "run_tag Tag_ClaimReentry e d accounts payload =
     with_args (d_claim_reentry d payload) (process_claim_reentry e accounts)"
| "run_tag Tag_Novate e d accounts payload =
     with_args (d_u8 d payload) (process_novate e accounts)"
| "run_tag Tag_MatchSubstitute e d accounts payload =
     with_args (d_match_pair d payload) (process_match_substitute e accounts)"
| "run_tag Tag_MatchSubstituteWithSettle e d accounts payload =
     with_args (d_match_pair d payload) (process_match_substitute_with_settle e accounts)"
| "run_tag Tag_ClosePmlc e d accounts payload = process_close_pmlc e accounts"
| "run_tag Tag_InitFeeSchedule e d accounts payload =
     with_args (d_tiers d payload) (process_init_fee_schedule e accounts)"
| "run_tag Tag_SetFeeSchedule e d accounts payload =
     with_args (d_tiers d payload) (process_set_fee_schedule e accounts)"
| "run_tag Tag_SweepFees e d accounts payload =
     with_args (d_u64 d payload) (process_sweep_fees e accounts)"
| "run_tag Tag_ProposeSetAttestationSigner e d accounts payload =
     with_args (d_propose d payload) (process_propose_set_attestation_signer e accounts)"
| "run_tag Tag_ExecuteSetAttestationSigner e d accounts payload =
     with_args (d_u64 d payload) (process_execute_set_attestation_signer e accounts)"
| "run_tag Tag_CancelTimelockProposal e d accounts payload =
     with_args (d_u64 d payload) (process_cancel_timelock e accounts)"
| "run_tag Tag_InitAdminMultisig e d accounts payload =
     with_args (d_multisig d payload) (process_init_admin_multisig e accounts)"
| "run_tag Tag_RotateAdminMultisig e d accounts payload =
     with_args (d_multisig d payload) (process_rotate_admin_multisig e accounts)"
| "run_tag Tag_InitBucketRegistry e d accounts payload =
     with_args (d_buckets d payload) (process_init_bucket_registry e accounts)"
| "run_tag Tag_SetBucketRegistry e d accounts payload =
     with_args (d_buckets d payload) (process_set_bucket_registry e accounts)"
| "run_tag Tag_InitStablecoinRegistry e d accounts payload =
     with_args (d_stablecoins d payload) (process_init_stablecoin_registry e accounts)"
| "run_tag Tag_AddStablecoinMint e d accounts payload = process_add_stablecoin_mint e accounts"
| "run_tag Tag_RemoveStablecoinMint e d accounts payload = process_remove_stablecoin_mint e accounts"
| "run_tag Tag_WrapStablecoin e d accounts payload =
     with_args (d_u64 d payload) (process_wrap_stablecoin e accounts)"
| "run_tag Tag_UnwrapStablecoin e d accounts payload =
     with_args (d_u64 d payload) (process_unwrap_stablecoin e accounts)"

definition process :: "env \<Rightarrow> borsh \<Rightarrow> account_info list \<Rightarrow> u8 list \<Rightarrow> unit handler" where
  "process e d accounts data =
     (case data of [] \<Rightarrow> fail_with (Custom InvalidInstructionData)
      | tag # payload \<Rightarrow> bnd (lift (tag_of_byte tag)) (\<lambda>t. run_tag t e d accounts payload))"

lemma tag_of_byte_tag: "tag_of_byte (tag_byte t) = Inr t"
  by (cases t) (simp_all add: tag_of_byte_def)

lemma tag_byte_of_byte: "tag_of_byte v = Inr t \<Longrightarrow> tag_byte t = v"
  by (auto simp: tag_of_byte_def split: if_splits)

end
