(* ===== verification/Allocator.thy ===== *)
theory Allocator
  imports Intent_Book
begin

text \<open>
  Correctness of the node allocator. The abstract contract is the locale \<open>allocator\<close>: a set
  of live indices; claiming a slot adds an index that was not live and changes no live
  node, releasing a live slot removes it. The intent book implements it: a slot is live when it is
  below \<open>node_count\<close>, is not the sentinel and is not on the freelist.
\<close>

section \<open>The contract\<close>

locale allocator =
  fixes inv :: "'s \<Rightarrow> bool"
    and live :: "'s \<Rightarrow> nat set"
    and content :: "'s \<Rightarrow> nat \<Rightarrow> 'n"
    and claim :: "'n \<Rightarrow> ('s, u32) prog"
    and release :: "u32 \<Rightarrow> ('s, unit) prog"
    and is_node :: "'n \<Rightarrow> bool"
  assumes claim_inv: "inv s \<Longrightarrow> is_node n \<Longrightarrow> claim n s = (Inr i, s') \<Longrightarrow> inv s'"
    and claim_fresh: "inv s \<Longrightarrow> is_node n \<Longrightarrow> claim n s = (Inr i, s') \<Longrightarrow> unat i \<notin> live s"
    and claim_live: "inv s \<Longrightarrow> is_node n \<Longrightarrow> claim n s = (Inr i, s') \<Longrightarrow> live s' = insert (unat i) (live s)"
    and claim_content: "inv s \<Longrightarrow> is_node n \<Longrightarrow> claim n s = (Inr i, s') \<Longrightarrow> content s' (unat i) = n"
    and claim_frame: "inv s \<Longrightarrow> is_node n \<Longrightarrow> claim n s = (Inr i, s') \<Longrightarrow> j \<in> live s \<Longrightarrow>
      content s' j = content s j"
    and release_inv: "inv s \<Longrightarrow> unat i \<in> live s \<Longrightarrow> release i s = (Inr u, s') \<Longrightarrow> inv s'"
    and release_live: "inv s \<Longrightarrow> unat i \<in> live s \<Longrightarrow> release i s = (Inr u, s') \<Longrightarrow>
      live s' = live s - {unat i}"
    and release_frame: "inv s \<Longrightarrow> unat i \<in> live s \<Longrightarrow> release i s = (Inr u, s') \<Longrightarrow> j \<in> live s' \<Longrightarrow>
      content s' j = content s j"
begin

text \<open>A run of claims: the indices handed out, in order.\<close>

primrec claims :: "'n list \<Rightarrow> ('s, u32 list) prog" where
  "claims [] = ret []"
| "claims (n # ns) = bnd (claim n) (\<lambda>i. bnd (claims ns) (\<lambda>is. ret (i # is)))"

lemma claims_distinct:
  assumes "inv s" "\<forall>n\<in>set ns. is_node n" "claims ns s = (Inr is, s')"
  shows "inv s' \<and> distinct is \<and> (\<forall>i\<in>set is. unat i \<notin> live s) \<and>
    live s' = live s \<union> (unat ` set is) \<and> (\<forall>j\<in>live s. content s' j = content s j)"
  using assms
proof (induction ns arbitrary: s "is")
  case Nil
  then show ?case by (simp add: ret_ok)
next
  case (Cons n ns)
  then obtain i t rest where c: "claim n s = (Inr i, t)" and r: "claims ns t = (Inr rest, s')"
    and i_is: "is = i # rest"
    by (auto simp: bnd_ok ret_ok)
  have n: "is_node n" and ns: "\<forall>m\<in>set ns. is_node m" using Cons.prems(2) by simp_all
  note t = claim_inv [OF Cons.prems(1) n c] claim_fresh [OF Cons.prems(1) n c]
    claim_live [OF Cons.prems(1) n c]
  have f: "\<forall>j\<in>live s. content t j = content s j"
    using claim_frame [OF Cons.prems(1) n c] by blast
  from Cons.IH [OF t(1) ns r] t f show ?case by (auto simp: i_is)
qed

lemma release_claim:
  assumes "inv s" "unat i \<in> live s" "release i s = (Inr u, t)" "is_node n" "claim n t = (Inr k, s')"
  shows "live s' = insert (unat k) (live s - {unat i})"
    and "j \<in> live s \<Longrightarrow> j \<noteq> unat i \<Longrightarrow> content s' j = content s j"
proof -
  note t = release_inv [OF assms(1-3)] release_live [OF assms(1-3)]
  show "live s' = insert (unat k) (live s - {unat i})"
    using claim_live [OF t(1) assms(4,5)] t(2) by simp
  assume j: "j \<in> live s" "j \<noteq> unat i"
  then have "j \<in> live t" using t(2) by simp
  then show "content s' j = content s j"
    using claim_frame [OF t(1) assms(4,5)] release_frame [OF assms(1-3)] by simp
qed

end

section \<open>The freelist of a book\<close>

fun free_chain :: "node list \<Rightarrow> u32 \<Rightarrow> u32 list \<Rightarrow> bool" where
  "free_chain ns h [] \<longleftrightarrow> h = 0"
| "free_chain ns h (x # xs) \<longleftrightarrow>
     h = x \<and> x \<noteq> 0 \<and> unat x < length ns \<and>
     (case ns ! unat x of NFree n \<Rightarrow> free_chain ns n xs | _ \<Rightarrow> False)"

primrec is_used :: "node \<Rightarrow> bool" where
  "is_used (NFree n) = False"
| "is_used (NIntent i) = True"
| "is_used (NSeat s) = True"

definition book_free :: "book \<Rightarrow> u32 list \<Rightarrow> bool" where
  "book_free b xs \<longleftrightarrow>
     free_chain (bk_nodes b) (freelist_head b) xs \<and> distinct xs \<and>
     (\<forall>x\<in>set xs. unat x < unat (node_count b)) \<and>
     1 \<le> unat (node_count b) \<and> unat (node_count b) \<le> length (bk_nodes b) \<and>
     length (bk_nodes b) = unat (bk_capacity b) \<and> \<not> is_used (bk_nodes b ! 0) \<and>
     (\<forall>i < length (bk_nodes b). is_used (bk_nodes b ! i) \<longrightarrow> i < unat (node_count b)) \<and>
     (\<forall>i. 0 < i \<longrightarrow> i < unat (node_count b) \<longrightarrow> i \<notin> unat ` set xs \<longrightarrow> is_used (bk_nodes b ! i))"

lemma book_freeD:
  assumes "book_free b xs"
  shows "free_chain (bk_nodes b) (freelist_head b) xs" "distinct xs"
    "x \<in> set xs \<Longrightarrow> unat x < unat (node_count b)" "1 \<le> unat (node_count b)"
    "unat (node_count b) \<le> length (bk_nodes b)" "length (bk_nodes b) = unat (bk_capacity b)"
    "\<not> is_used (bk_nodes b ! 0)"
    "i < length (bk_nodes b) \<Longrightarrow> is_used (bk_nodes b ! i) \<Longrightarrow> i < unat (node_count b)"
    "0 < i \<Longrightarrow> i < unat (node_count b) \<Longrightarrow> i \<notin> unat ` set xs \<Longrightarrow> is_used (bk_nodes b ! i)"
  using assms unfolding book_free_def by blast+

lemma book_freeI:
  assumes "free_chain (bk_nodes b) (freelist_head b) xs" "distinct xs"
    "\<And>x. x \<in> set xs \<Longrightarrow> unat x < unat (node_count b)" "1 \<le> unat (node_count b)"
    "unat (node_count b) \<le> length (bk_nodes b)" "length (bk_nodes b) = unat (bk_capacity b)"
    "\<not> is_used (bk_nodes b ! 0)"
    "\<And>i. i < length (bk_nodes b) \<Longrightarrow> is_used (bk_nodes b ! i) \<Longrightarrow> i < unat (node_count b)"
    "\<And>i. 0 < i \<Longrightarrow> i < unat (node_count b) \<Longrightarrow> i \<notin> unat ` set xs \<Longrightarrow> is_used (bk_nodes b ! i)"
  shows "book_free b xs"
  using assms unfolding book_free_def by blast

definition book_inv :: "book \<Rightarrow> bool" where
  "book_inv b \<longleftrightarrow> (\<exists>xs. book_free b xs)"

definition live_nodes :: "book \<Rightarrow> nat set" where
  "live_nodes b = {i. i < length (bk_nodes b) \<and> is_used (bk_nodes b ! i)}"

definition node_at :: "book \<Rightarrow> nat \<Rightarrow> node" where
  "node_at b i = bk_nodes b ! i"

text \<open>Allocating and filling a slot, as both callers of \<open>alloc_node\<close> do.\<close>

definition claim_node :: "node \<Rightarrow> (book, u32) prog" where
  "claim_node n = bnd alloc_node (\<lambda>i. seq (modify (put_node i n)) (ret i))"

lemma claim_node_ok [ok_iff]:
  "claim_node n b = (Inr i, b') \<longleftrightarrow> (\<exists>c. alloc_node b = (Inr i, c) \<and> b' = put_node i n c)"
  by (auto simp: claim_node_def ok_iff)

lemma unat_mem_image [simp]: "unat x \<in> unat ` A \<longleftrightarrow> x \<in> A"
  by (auto dest: word_unat_eq_iff [THEN iffD2])

lemma free_chain_not_used: "free_chain ns h xs \<Longrightarrow> x \<in> set xs \<Longrightarrow> \<not> is_used (ns ! unat x) \<and> unat x < length ns \<and> x \<noteq> 0"
  by (induction ns h xs rule: free_chain.induct) (auto split: node.splits)

lemma free_chain_update:
  "unat i \<notin> unat ` set xs \<Longrightarrow> free_chain (ns[unat i := n]) h xs = free_chain ns h xs"
  for i :: u32
  by (induction ns h xs rule: free_chain.induct) (auto split: node.splits simp: nth_list_update)

lemma new_book_free: "0 < unat cap \<Longrightarrow> book_free (new_intent_book ins cap bump fee) []"
  by (simp add: book_free_def new_intent_book_def NULL_IDX_def)

subsection \<open>Claiming\<close>

lemma claim_from_freelist:
  assumes inv: "book_free b (x # xs)" and n: "is_used n" and c: "claim_node n b = (Inr i, b')"
  shows "i = x" "book_free b' xs" "bk_nodes b' = (bk_nodes b)[unat x := n]"
proof -
  note d = book_freeD [OF inv]
  have h: "freelist_head b = x" "x \<noteq> 0" "unat x < length (bk_nodes b)"
    using d(1) by simp_all
  obtain m where m: "bk_nodes b ! unat x = NFree m" "free_chain (bk_nodes b) m xs"
    using d(1) by (auto split: node.splits)
  have b': "i = x" "b' = put_node x n (b\<lparr> freelist_head := m \<rparr>)"
    using c h m by (auto simp: claim_node_ok alloc_node_ok)
  show "i = x" by (rule b'(1))
  show nodes: "bk_nodes b' = (bk_nodes b)[unat x := n]" by (simp add: b' put_node_def)
  have fields: "freelist_head b' = m" "node_count b' = node_count b" "bk_capacity b' = bk_capacity b"
    by (simp_all add: b' put_node_def)
  have nx: "unat x \<notin> unat ` set xs" using d(2) by simp
  have x0: "0 < unat x" using h(2) by (simp add: unat_gt_0)
  have xn: "unat x < unat (node_count b)" by (rule d(3)) simp
  show "book_free b' xs"
  proof (rule book_freeI, unfold nodes fields length_list_update)
    show "free_chain ((bk_nodes b)[unat x := n]) m xs" using m(2) free_chain_update [OF nx] by simp
    show "distinct xs" using d(2) by simp
    show "unat y < unat (node_count b)" if "y \<in> set xs" for y by (rule d(3)) (simp add: that)
    show "\<not> is_used ((bk_nodes b)[unat x := n] ! 0)" using d(7) x0 by simp
    show "j < unat (node_count b)" if "j < length (bk_nodes b)" "is_used ((bk_nodes b)[unat x := n] ! j)" for j
      using that d(8) [of j] xn by (cases "j = unat x") auto
    show "is_used ((bk_nodes b)[unat x := n] ! j)"
      if "0 < j" "j < unat (node_count b)" "j \<notin> unat ` set xs" for j
      using that d(9) [of j] n h(3) by (cases "j = unat x") auto
  qed (use d(4-6) in simp_all)
qed

lemma claim_from_fresh:
  assumes inv: "book_free b []" and n: "is_used n" and c: "claim_node n b = (Inr i, b')"
  shows "i = node_count b" "book_free b' []" "\<not> is_used (bk_nodes b ! unat i)"
    "bk_nodes b' = (bk_nodes b)[unat i := n]" "unat i < length (bk_nodes b)"
proof -
  note d = book_freeD [OF inv]
  have h: "freelist_head b = 0" using d(1) by simp
  from c h obtain k where k: "i = node_count b" "node_count b < bk_capacity b"
      "unat k = Suc (unat (node_count b))" "b' = put_node i n (b\<lparr> node_count := k \<rparr>)"
    by (auto simp: claim_node_ok alloc_node_ok)
  have lt: "unat i < length (bk_nodes b)"
    using d(6) k(1,2) by (simp add: word_less_nat_alt)
  show "i = node_count b" "unat i < length (bk_nodes b)" by (rule k(1), rule lt)
  show "\<not> is_used (bk_nodes b ! unat i)" using d(8) [OF lt] k(1) by auto
  show nodes: "bk_nodes b' = (bk_nodes b)[unat i := n]" by (simp add: k(4) put_node_def)
  have fields: "freelist_head b' = 0" "node_count b' = k" "bk_capacity b' = bk_capacity b"
    by (simp_all add: k(4) put_node_def h)
  have i0: "0 < unat i" using d(4) k(1) by simp
  show "book_free b' []"
  proof (rule book_freeI, unfold nodes fields length_list_update)
    show "unat k \<le> length (bk_nodes b)" using k(1,3) lt by simp
    show "1 \<le> unat k" using k(3) by simp
    show "\<not> is_used ((bk_nodes b)[unat i := n] ! 0)" using d(7) i0 by simp
    show "j < unat k" if "j < length (bk_nodes b)" "is_used ((bk_nodes b)[unat i := n] ! j)" for j
      using that d(8) [of j] k(1,3) by (cases "j = unat i") auto
    show "is_used ((bk_nodes b)[unat i := n] ! j)" if "0 < j" "j < unat k" for j
      using that d(9) [of j] n lt k(1,3) by (cases "j = unat i") auto
  qed (use d(6) in simp_all)
qed

lemma claim_node_inv:
  assumes "book_inv b" "is_used n" "claim_node n b = (Inr i, b')"
  shows "book_inv b'" "\<not> is_used (bk_nodes b ! unat i)" "unat i < length (bk_nodes b)"
    "bk_nodes b' = (bk_nodes b)[unat i := n]"
proof -
  obtain xs where xs: "book_free b xs" using assms(1) by (auto simp: book_inv_def)
  have "book_inv b' \<and> \<not> is_used (bk_nodes b ! unat i) \<and> unat i < length (bk_nodes b) \<and>
      bk_nodes b' = (bk_nodes b)[unat i := n]"
  proof (cases xs)
    case Nil
    note f = claim_from_fresh [OF xs [unfolded Nil] assms(2,3)]
    from f show ?thesis by (auto simp: book_inv_def)
  next
    case (Cons x ys)
    note f = claim_from_freelist [OF xs [unfolded Cons] assms(2,3)]
    have "\<not> is_used (bk_nodes b ! unat x) \<and> unat x < length (bk_nodes b)"
      using free_chain_not_used [OF book_freeD(1) [OF xs], of x] Cons by simp
    then show ?thesis using f by (auto simp: book_inv_def)
  qed
  then show "book_inv b'" "\<not> is_used (bk_nodes b ! unat i)" "unat i < length (bk_nodes b)"
    "bk_nodes b' = (bk_nodes b)[unat i := n]" by simp_all
qed

subsection \<open>Releasing\<close>

lemma free_node_inv:
  assumes inv: "book_inv b" and i: "unat i \<in> live_nodes b" and f: "free_node i b = (Inr u, b')"
  shows "book_inv b'" "bk_nodes b' = (bk_nodes b)[unat i := NFree (freelist_head b)]"
proof -
  obtain xs where xs: "book_free b xs" using inv by (auto simp: book_inv_def)
  from f have i0: "i \<noteq> 0" "unat i < length (bk_nodes b)"
    and b': "b' = b\<lparr> bk_nodes := (bk_nodes b)[unat i := NFree (freelist_head b)], freelist_head := i \<rparr>"
    by (auto simp: free_node_ok)
  have used: "is_used (bk_nodes b ! unat i)" using i by (simp add: live_nodes_def)
  then have nx: "unat i \<notin> unat ` set xs"
    using free_chain_not_used [OF book_freeD(1) [OF xs]] by auto
  have ic: "unat i < unat (node_count b)" by (rule book_freeD(8) [OF xs i0(2) used])
  have ip: "0 < unat i" using i0(1) by (simp add: unat_gt_0)
  note d = book_freeD [OF xs]
  have nodes: "bk_nodes b' = (bk_nodes b)[unat i := NFree (freelist_head b)]"
    and fields: "freelist_head b' = i" "node_count b' = node_count b" "bk_capacity b' = bk_capacity b"
    by (simp_all add: b')
  have "book_free b' (i # xs)"
  proof (rule book_freeI, unfold nodes fields length_list_update)
    show "free_chain ((bk_nodes b)[unat i := NFree (freelist_head b)]) i (i # xs)"
      using d(1) i0 free_chain_update [OF nx] by simp
    show "distinct (i # xs)" using d(2) nx by simp
    show "unat y < unat (node_count b)" if "y \<in> set (i # xs)" for y
      using that ic d(3) by auto
    show "\<not> is_used ((bk_nodes b)[unat i := NFree (freelist_head b)] ! 0)" using d(7) ip by simp
    show "j < unat (node_count b)"
      if "j < length (bk_nodes b)" "is_used ((bk_nodes b)[unat i := NFree (freelist_head b)] ! j)" for j
      using that d(8) [of j] ic by (cases "j = unat i") auto
    show "is_used ((bk_nodes b)[unat i := NFree (freelist_head b)] ! j)"
      if "0 < j" "j < unat (node_count b)" "j \<notin> unat ` set (i # xs)" for j
      using that d(9) [of j] by auto
  qed (use d(4-6) in simp_all)
  then show "book_inv b'" by (auto simp: book_inv_def)
  show "bk_nodes b' = (bk_nodes b)[unat i := NFree (freelist_head b)]" by (simp add: b')
qed

interpretation nodes: allocator book_inv live_nodes node_at claim_node free_node is_used
proof unfold_locales
  fix b n i b' j
  assume h: "book_inv b" "is_used n" "claim_node n b = (Inr i, b')"
  note c = claim_node_inv [OF h]
  show "book_inv b'" by (rule c(1))
  show "unat i \<notin> live_nodes b" using c by (simp add: live_nodes_def)
  show "live_nodes b' = insert (unat i) (live_nodes b)"
    using c h(2) by (auto simp: live_nodes_def nth_list_update split: if_splits)
  show "node_at b' (unat i) = n" using c by (simp add: node_at_def)
  show "node_at b' j = node_at b j" if "j \<in> live_nodes b"
    using c that by (auto simp: node_at_def live_nodes_def nth_list_update)
next
  fix b i u b' j
  assume h: "book_inv b" "unat i \<in> live_nodes b" "free_node i b = (Inr u, b')"
  note c = free_node_inv [OF h]
  show "book_inv b'" by (rule c(1))
  show l: "live_nodes b' = live_nodes b - {unat i}"
    using c h(2) by (auto simp: live_nodes_def nth_list_update split: if_splits)
  show "node_at b' j = node_at b j" if "j \<in> live_nodes b'"
    using c that unfolding l by (auto simp: node_at_def live_nodes_def nth_list_update)
qed

end
