(* ===== verification/Ledger_View.thy ===== *)
theory Ledger_View
  imports Runtime
begin

text \<open>
  The vocabulary of the ledger properties: the margin account at a key, the collateral held at
  a set of keys, and the frame of the other accounts of the program.
\<close>

primrec as_margin :: "acct_data \<Rightarrow> margin_account option" where
  "as_margin (DRaw x) = None" | "as_margin (DConfig x) = None"
| "as_margin (DMargin x) = Some x" | "as_margin (DInstrument x) = None"
| "as_margin (DBook x) = None" | "as_margin (DPmlc x) = None" | "as_margin (DNonce x) = None"
| "as_margin (DFeeSchedule x) = None" | "as_margin (DUserVolume x) = None"
| "as_margin (DTreasury x) = None" | "as_margin (DTimelock x) = None"
| "as_margin (DMultisig x) = None" | "as_margin (DBuckets x) = None"
| "as_margin (DStablecoins x) = None" | "as_margin (DSession x) = None"

definition margin_at :: "world \<Rightarrow> pubkey \<Rightarrow> margin_account option" where
  "margin_at w k = as_margin (acc_data (w k))"

definition collateral_at :: "world \<Rightarrow> pubkey \<Rightarrow> nat" where
  "collateral_at w k = (case margin_at w k of None \<Rightarrow> 0 | Some m \<Rightarrow> margin_total m)"

definition collateral_of :: "world \<Rightarrow> pubkey set \<Rightarrow> nat" where
  "collateral_of w ks = (\<Sum>k\<in>ks. collateral_at w k)"

text \<open>No account of the program outside \<open>ks\<close> changed its data.\<close>

definition only_changes :: "env \<Rightarrow> pubkey set \<Rightarrow> world \<Rightarrow> world \<Rightarrow> bool" where
  "only_changes e ks w w' \<longleftrightarrow>
     (\<forall>k. k \<notin> ks \<longrightarrow> acc_owner (w k) = program_id e \<longrightarrow>
        acc_owner (w' k) = program_id e \<and> acc_data (w' k) = acc_data (w k))"

lemma as_margin_Some [simp]: "as_margin d = Some m \<longleftrightarrow> d = DMargin m"
  by (cases d) auto

lemma margin_at_Some: "margin_at w k = Some m \<longleftrightarrow> acc_data (w k) = DMargin m"
  by (simp add: margin_at_def)

lemma margin_at_set: "margin_at (set_data j d w) k = (if k = j then as_margin d else margin_at w k)"
  by (simp add: margin_at_def)

lemma collateral_at_DMargin: "acc_data (w k) = DMargin m \<Longrightarrow> collateral_at w k = margin_total m"
  by (simp add: collateral_at_def margin_at_def)

lemma only_changes_invoke:
  "owned_frame e \<Longrightarrow> invoke e c ks sds w = (Inr u, w') \<Longrightarrow> only_changes e js w w'"
  by (auto simp: only_changes_def owned_frame_def)

lemma only_changes_set: "k \<in> ks \<Longrightarrow> only_changes e ks w (set_data k d w)"
  by (auto simp: only_changes_def)

lemma only_changes_trans:
  "only_changes e ks w w' \<Longrightarrow> only_changes e ks w' w'' \<Longrightarrow> only_changes e ks w w''"
  by (auto simp: only_changes_def)

lemma only_changes_mono: "only_changes e ks w w' \<Longrightarrow> ks \<subseteq> js \<Longrightarrow> only_changes e js w w'"
  by (auto simp: only_changes_def)

end
