(* ===== verification/Scenario.thy ===== *)
theory Scenario
  imports Dispatch
begin

text \<open>
  A concrete environment and ledger for the witnesses of the properties: addresses are derived
  by concatenating the seeds, creating an account gives it zeroed data, a token call changes
  nothing the model tracks. It satisfies the rules of the runtime.
\<close>

definition sk :: "u8 \<Rightarrow> pubkey" where
  "sk n = Pubkey [n]"

definition ex_find :: "seeds \<Rightarrow> pubkey \<times> u8" where
  "ex_find sds = (Pubkey (concat sds), 255)"

definition ex_create :: "pubkey \<Rightarrow> nat \<Rightarrow> pubkey \<Rightarrow> unit handler" where
  "ex_create k n own = modify (\<lambda>w. w(k := \<lparr> acc_owner = own, acc_lamports = acc_lamports (w k),
     acc_data = DRaw (replicate n 0) \<rparr>))"

primrec ex_invoke :: "cpi_call \<Rightarrow> pubkey list \<Rightarrow> seeds list \<Rightarrow> unit handler" where
  "ex_invoke (CreateAccount p k l n own) ks sds =
     bnd (gets (\<lambda>w. acc_owner (w k) = sk 0 \<and> own \<noteq> sk 0)) (\<lambda>free.
     seq (require free (CpiFailed 0)) (ex_create k n own))"
| "ex_invoke (SystemTransfer p k l) ks sds = ret ()"
| "ex_invoke (TokenTransfer a b c n) ks sds = ret ()"
| "ex_invoke (TokenMintTo a b c n) ks sds = ret ()"
| "ex_invoke (TokenBurn a b c n) ks sds = ret ()"
| "ex_invoke (InitializeMint2 a b n) ks sds = ret ()"

text \<open>A token account is its mint and its owner, 32 bytes each; the amount is fixed.\<close>

definition ex_unpack :: "acct_data \<Rightarrow> token_account result" where
  "ex_unpack d = (case d of DRaw bs \<Rightarrow>
       if length bs < 2 then Inl InvalidAccountData
       else Inr \<lparr> token_mint = Pubkey (take 1 bs), token_owner = Pubkey (drop 1 bs), token_amount = 1000 \<rparr>
     | _ \<Rightarrow> Inl InvalidAccountData)"

definition ex_realloc :: "pubkey \<Rightarrow> nat \<Rightarrow> unit handler" where
  \<comment> \<open>the nodes of a book are cut or extended by zeroed ones\<close>
  "ex_realloc k n = modify (\<lambda>w. case acc_data (w k) of
     DBook b \<Rightarrow> (let m = (n - INTENT_BOOK_HEADER_LEN) div NODE_SIZE in
       set_data k (DBook (b\<lparr> bk_nodes := take m (bk_nodes b) @ replicate (m - length (bk_nodes b)) (NFree 0) \<rparr>)) w)
   | _ \<Rightarrow> w)"

definition ex_env :: env where
  "ex_env = \<lparr> program_id = sk 9, system_program_id = sk 0, token_program_id = sk 6,
     sysvar_instructions_id = sk 5, clock_slot = 100, clock_unix_timestamp = 1000000,
     find_program_address = ex_find,
     get_associated_token_address = (\<lambda>a b. Pubkey (key_bytes a @ key_bytes b)),
     unpack_token_account = ex_unpack, unpack_mint_decimals = (\<lambda>_. Inr 6),
     minimum_balance = (\<lambda>n. of_nat n), load_instruction_at = (\<lambda>_ _. None),
     realloc = ex_realloc, invoke = ex_invoke \<rparr>"

definition ai_of :: "pubkey \<Rightarrow> account_info" where
  "ai_of k = \<lparr> ai_key = k, is_signer = True, is_writable = True \<rparr>"

definition owned_by :: "pubkey \<Rightarrow> acct_data \<Rightarrow> account" where
  "owned_by p d = \<lparr> acc_owner = p, acc_lamports = 1000, acc_data = d \<rparr>"

definition ex_empty :: world where
  "ex_empty = (\<lambda>_. owned_by (sk 0) (DRaw []))"

definition ex_margin_key :: "pubkey \<Rightarrow> pubkey" where
  "ex_margin_key own = Pubkey (SEED_MARGIN @ key_bytes own @ key_bytes (sk 7))"

definition ex_margin :: "pubkey \<Rightarrow> u64 \<Rightarrow> u64 \<Rightarrow> u64 \<Rightarrow> margin_account" where
  "ex_margin own f r l = (new_margin_account own (sk 7) 255)
     \<lparr> free_collateral := f, reserved_collateral := r, locked_collateral := l \<rparr>"

definition ex_vault_authority :: pubkey where
  "ex_vault_authority = Pubkey (SEED_VAULT @ key_bytes (sk 7))"

definition ex_vault :: pubkey where
  "ex_vault = Pubkey (key_bytes ex_vault_authority @ key_bytes (sk 7))"

lemma seed_bytes [simp]:
  "SEED_CONFIG = [99, 111, 110, 102, 105, 103]"
  "SEED_MARGIN = [109, 97, 114, 103, 105, 110]"
  "SEED_VAULT = [118, 97, 117, 108, 116]"
  by code_simp+

lemmas exec_defs = prog_defs need_accounts_def assert_signers_def assert_writables_def
  assert_signer_def assert_writable_def assert_owner_def assert_owners_def check_world_def
  owner_is_def acct_len_def pda_def assert_pda_def read_acct_def edit_acct_def init_acct_def
  set_data_def create_account_def cast_check_def blank_check_def Let_def

lemmas load_defs = load_config_def load_margin_def load_instrument_def load_book_def
  load_pmlc_def load_nonce_def load_fee_schedule_def load_user_volume_def load_treasury_def
  load_timelock_def load_multisig_def load_buckets_def load_stablecoins_def load_session_def

lemmas ex_defs = sk_def ex_find_def ex_create_def ex_unpack_def ex_env_def ai_of_def owned_by_def
  ex_empty_def ex_margin_key_def ex_margin_def ex_vault_authority_def ex_vault_def

lemma ex_owned_frame: "owned_frame ex_env"
  unfolding owned_frame_def
proof (intro allI impI)
  fix c ks sds w u w' k
  assume "invoke ex_env c ks sds w = (Inr u, w')" "acc_owner (w k) = program_id ex_env"
  then show "acc_owner (w' k) = program_id ex_env \<and> acc_data (w' k) = acc_data (w k)"
    by (cases c) (auto simp: ex_env_def ex_create_def sk_def ok_iff split: if_splits)
qed

lemma ex_creates_zeroed: "creates_zeroed ex_env"
  by (auto simp: creates_zeroed_def ex_env_def ex_create_def ok_iff)

lemma ex_owners_frame: "owners_frame ex_env"
  unfolding owners_frame_def
proof (intro allI impI)
  fix c ks sds w u w' k
  assume "invoke ex_env c ks sds w = (Inr u, w')" "\<forall>p j l n own. c \<noteq> CreateAccount p j l n own"
    "acc_owner (w' k) = program_id ex_env"
  then show "acc_owner (w k) = program_id ex_env"
    by (cases c) (auto simp: ex_env_def ok_iff)
qed

lemma ex_realloc_extends: "realloc_extends ex_env"
  by (auto simp: realloc_extends_def ex_env_def ex_realloc_def Let_def ok_iff split: acct_data.splits)

text \<open>A decoder of the instruction arguments the runs use.\<close>

definition ex_borsh :: borsh where
  \<comment> \<open>an unsigned integer is its little-endian bytes; the argument structures are not needed\<close>
  "ex_borsh = \<lparr> d_u8 = (\<lambda>bs. if length bs = 1 then Some (hd bs) else None),
     d_u32 = (\<lambda>bs. if length bs = 4 then Some (from_le_bytes bs) else None),
     d_u64 = (\<lambda>bs. if length bs = 8 then Some (from_le_bytes bs) else None),
     d_init_program_config = Map.empty, d_create_instrument = Map.empty, d_post_intent = Map.empty,
     d_match_pair = Map.empty, d_create_session = Map.empty, d_claim_reentry = Map.empty,
     d_tiers = Map.empty, d_propose = Map.empty, d_multisig = Map.empty, d_buckets = Map.empty,
     d_stablecoins = Map.empty \<rparr>"

lemma ex_borsh_u8 [simp]: "d_u8 ex_borsh [b] = Some b"
  by (simp add: ex_borsh_def)

lemma sk_eq [simp]: "sk m = sk n \<longleftrightarrow> m = n"
  by (simp add: sk_def)

lemma sk_not_default [simp]: "sk n \<noteq> default_pubkey" "default_pubkey \<noteq> sk n"
proof -
  have "length (key_bytes (sk n)) \<noteq> length (key_bytes default_pubkey)" by (simp add: sk_def default_pubkey_def)
  then show "sk n \<noteq> default_pubkey" "default_pubkey \<noteq> sk n" by auto
qed

end
