(* ===== verification/Ledger_Properties.thy ===== *)
theory Ledger_Properties
  imports Ledger_View Scenario
begin

text \<open>Deposits and withdrawals: what they require and exactly what they change.\<close>

definition ex_w_deposit :: world where
  "ex_w_deposit = ex_empty(ex_margin_key (sk 1) := owned_by (sk 9) (DMargin (ex_margin (sk 1) 10 0 0)),
     ex_vault := owned_by (sk 6) (DRaw (key_bytes (sk 7) @ key_bytes ex_vault_authority)))"

definition ex_deposit_accounts :: "account_info list" where
  "ex_deposit_accounts = map ai_of [sk 1, ex_margin_key (sk 1), sk 7, sk 11, ex_vault, sk 6]"

lemma ex_deposit_runs: "fst (process_deposit ex_env ex_deposit_accounts 5 ex_w_deposit) = Inr ()"
  by (simp add: process_deposit_def exec_defs load_defs ex_defs ex_deposit_accounts_def
      ex_w_deposit_def margin_seeds_def validate_vault_token_account_data_def new_margin_account_def
      credit_free_def update_checked_def checked_add_def)

section \<open>Deposit\<close>

text \<open>
  C1. A deposit that succeeds was signed by the holder of the margin account, transferred exactly
  \<open>amount\<close> to the canonical vault of the mint, credited exactly \<open>amount\<close> to the holder's free
  collateral (without wrapping), and changed no other account of the program.
\<close>

theorem deposit_credits_exactly:
  assumes "owned_frame e"
    and "process_deposit e accounts amount w = (Inr u, w')"
  shows "\<exists>m v vault_authority.
     is_signer (accounts ! 0) \<and>
     margin_at w (ai_key (accounts ! 1)) = Some m \<and>
     ma_owner m = ai_key (accounts ! 0) \<and> ma_mint m = ai_key (accounts ! 2) \<and>
     ai_key (accounts ! 4) = get_associated_token_address e vault_authority (ai_key (accounts ! 2)) \<and>
     vault_authority = fst (find_program_address e [SEED_VAULT, key_bytes (ai_key (accounts ! 2))]) \<and>
     fst (invoke e (TokenTransfer (ai_key (accounts ! 3)) (ai_key (accounts ! 4)) (ai_key (accounts ! 0)) amount)
       [ai_key (accounts ! 3), ai_key (accounts ! 4), ai_key (accounts ! 0), ai_key (accounts ! 5)] [] w)
       = Inr () \<and>
     unat v = unat (free_collateral m) + unat amount \<and>
     margin_at w' (ai_key (accounts ! 1)) = Some (m\<lparr> free_collateral := v \<rparr>) \<and>
     only_changes e {ai_key (accounts ! 1)} w w'"
proof -
  from assms(2) obtain m m' v w1 where
    run: "is_signer (accounts ! 0)" "acc_owner (w (ai_key (accounts ! 1))) = program_id e"
      "acc_data (w (ai_key (accounts ! 1))) = DMargin m"
      "ma_owner m = ai_key (accounts ! 0)" "ma_mint m = ai_key (accounts ! 2)"
      "validate_vault_token_account_data e (ai_key (accounts ! 4))
       (fst (find_program_address e [SEED_VAULT, key_bytes (ai_key (accounts ! 2))]))
       (ai_key (accounts ! 2)) (acc_data (w (ai_key (accounts ! 4)))) = Inr ()"
    and cpi: "invoke e (TokenTransfer (ai_key (accounts ! 3)) (ai_key (accounts ! 4)) (ai_key (accounts ! 0)) amount)
       [ai_key (accounts ! 3), ai_key (accounts ! 4), ai_key (accounts ! 0), ai_key (accounts ! 5)] []
       w = (Inr (), w1)"
    and m': "acc_data (w1 (ai_key (accounts ! 1))) = DMargin m'"
    and v: "unat v = unat (free_collateral m') + unat amount"
    and w': "w' = set_data (ai_key (accounts ! 1)) (DMargin (m'\<lparr> free_collateral := v \<rparr>)) w1"
    by (rule deposit_run)
  have "m' = m" using owned_frameD [OF assms(1) cpi run(2)] m' run(3) by simp
  moreover have "only_changes e {ai_key (accounts ! 1)} w w'"
    unfolding w' by (intro only_changes_trans [OF only_changes_invoke [OF assms(1) cpi]] only_changes_set) simp
  ultimately show ?thesis
    using run cpi v by (auto simp: w' margin_at_def validate_vault_token_account_data_def split: if_splits)
qed

lemma deposit_credits_exactly_witness:
  "\<exists>v. unat v = (15::nat) \<and> margin_at (snd (process_deposit ex_env ex_deposit_accounts 5 ex_w_deposit))
     (ex_margin_key (sk 1)) = Some ((ex_margin (sk 1) 10 0 0)\<lparr> free_collateral := v \<rparr>)"
proof -
  have "process_deposit ex_env ex_deposit_accounts 5 ex_w_deposit =
      (Inr (), snd (process_deposit ex_env ex_deposit_accounts 5 ex_w_deposit))"
    using ex_deposit_runs by (metis prod.collapse)
  from deposit_credits_exactly [OF ex_owned_frame this] show ?thesis
    by (auto simp: ex_deposit_accounts_def ai_of_def margin_at_def ex_w_deposit_def ex_vault_def
        ex_vault_authority_def ex_margin_key_def owned_by_def ex_margin_def)
qed

section \<open>Withdrawal\<close>

definition ex_withdraw_accounts :: "account_info list" where
  "ex_withdraw_accounts =
     map ai_of [sk 1, ex_margin_key (sk 1), sk 7, sk 11, ex_vault, ex_vault_authority, sk 6]"

lemma ex_withdraw_runs: "fst (process_withdraw ex_env ex_withdraw_accounts 4 ex_w_deposit) = Inr ()"
  by (simp add: process_withdraw_def exec_defs load_defs ex_defs ex_withdraw_accounts_def
      ex_w_deposit_def margin_seeds_def validate_vault_token_account_data_def new_margin_account_def
      debit_free_def update_checked_def checked_sub_def)

lemma withdraw_run:
  assumes "process_withdraw e accounts amount w = (Inr u, w')"
  obtains m v bump where
    "amount \<noteq> 0" "is_signer (accounts ! 0)" "acc_owner (w (ai_key (accounts ! 1))) = program_id e"
    "acc_data (w (ai_key (accounts ! 1))) = DMargin m"
    "ma_owner m = ai_key (accounts ! 0)" "ma_mint m = ai_key (accounts ! 2)"
    "find_program_address e [SEED_VAULT, key_bytes (ai_key (accounts ! 2))] = (ai_key (accounts ! 5), bump)"
    "unat (free_collateral m) = unat amount + unat v"
    "invoke e (TokenTransfer (ai_key (accounts ! 4)) (ai_key (accounts ! 3)) (ai_key (accounts ! 5)) amount)
       [ai_key (accounts ! 4), ai_key (accounts ! 3), ai_key (accounts ! 5), ai_key (accounts ! 6)]
       [[SEED_VAULT, key_bytes (ai_key (accounts ! 2)), [bump]]]
       (set_data (ai_key (accounts ! 1)) (DMargin (m\<lparr> free_collateral := v \<rparr>)) w) = (Inr (), w')"
  using assms
  by (auto simp: process_withdraw_def Let_def ok_iff)

text \<open>
  C2. A withdrawal that succeeds was signed by the holder of the margin account, is covered by the
  holder's free collateral (reserved and locked collateral cannot be withdrawn), debits
  exactly \<open>amount\<close>, transfers exactly \<open>amount\<close> out of the vault under the signature of the
  vault authority, and changes no other account of the program.
\<close>

theorem withdraw_debits_exactly:
  assumes "owned_frame e"
    and "process_withdraw e accounts amount w = (Inr u, w')"
  shows "\<exists>m v bump w1.
     is_signer (accounts ! 0) \<and>
     margin_at w (ai_key (accounts ! 1)) = Some m \<and>
     ma_owner m = ai_key (accounts ! 0) \<and> ma_mint m = ai_key (accounts ! 2) \<and>
     unat (free_collateral m) = unat amount + unat v \<and>
     margin_at w' (ai_key (accounts ! 1)) = Some (m\<lparr> free_collateral := v \<rparr>) \<and>
     find_program_address e [SEED_VAULT, key_bytes (ai_key (accounts ! 2))] = (ai_key (accounts ! 5), bump) \<and>
     invoke e (TokenTransfer (ai_key (accounts ! 4)) (ai_key (accounts ! 3)) (ai_key (accounts ! 5)) amount)
       [ai_key (accounts ! 4), ai_key (accounts ! 3), ai_key (accounts ! 5), ai_key (accounts ! 6)]
       [[SEED_VAULT, key_bytes (ai_key (accounts ! 2)), [bump]]] w1 = (Inr (), w') \<and>
     only_changes e {ai_key (accounts ! 1)} w w'"
proof -
  from assms(2) obtain m v bump where
    run: "is_signer (accounts ! 0)" "acc_owner (w (ai_key (accounts ! 1))) = program_id e"
      "acc_data (w (ai_key (accounts ! 1))) = DMargin m"
      "ma_owner m = ai_key (accounts ! 0)" "ma_mint m = ai_key (accounts ! 2)"
      "find_program_address e [SEED_VAULT, key_bytes (ai_key (accounts ! 2))] = (ai_key (accounts ! 5), bump)"
      "unat (free_collateral m) = unat amount + unat v"
    and cpi: "invoke e (TokenTransfer (ai_key (accounts ! 4)) (ai_key (accounts ! 3)) (ai_key (accounts ! 5)) amount)
       [ai_key (accounts ! 4), ai_key (accounts ! 3), ai_key (accounts ! 5), ai_key (accounts ! 6)]
       [[SEED_VAULT, key_bytes (ai_key (accounts ! 2)), [bump]]]
       (set_data (ai_key (accounts ! 1)) (DMargin (m\<lparr> free_collateral := v \<rparr>)) w) = (Inr (), w')"
    by (rule withdraw_run)
  have "acc_data (w' (ai_key (accounts ! 1))) = DMargin (m\<lparr> free_collateral := v \<rparr>)"
    using owned_frameD [OF assms(1) cpi, of "ai_key (accounts ! 1)"] run(2) by simp
  moreover have "only_changes e {ai_key (accounts ! 1)} w w'"
    by (intro only_changes_trans [OF only_changes_set only_changes_invoke [OF assms(1) cpi]]) simp
  ultimately show ?thesis
    using run cpi by (auto simp: margin_at_def)
qed

lemma withdraw_debits_exactly_witness:
  "\<exists>v. unat v = (6::nat) \<and> margin_at (snd (process_withdraw ex_env ex_withdraw_accounts 4 ex_w_deposit))
     (ex_margin_key (sk 1)) = Some ((ex_margin (sk 1) 10 0 0)\<lparr> free_collateral := v \<rparr>)"
proof -
  have "process_withdraw ex_env ex_withdraw_accounts 4 ex_w_deposit =
      (Inr (), snd (process_withdraw ex_env ex_withdraw_accounts 4 ex_w_deposit))"
    using ex_withdraw_runs by (metis prod.collapse)
  from withdraw_debits_exactly [OF ex_owned_frame this] show ?thesis
    by (auto simp: ex_withdraw_accounts_def ai_of_def margin_at_def ex_w_deposit_def ex_vault_def
        ex_vault_authority_def ex_margin_key_def owned_by_def ex_margin_def)
qed

end
