(* ===== verification/Settlement_Facts.thy ===== *)
theory Settlement_Facts
  imports Ledger_View Settlement_Ix
begin

text \<open>
  What a successful settlement leaves behind: the inversion of its stages, and the effect of
  each on the collateral of a set of accounts.
\<close>

section \<open>Collateral of a set of accounts\<close>

lemma collateral_of_set_margin:
  assumes "finite K" "k \<in> K" "acc_data (w k) = DMargin m"
  shows "collateral_of (set_data k (DMargin m') w) K + margin_total m = collateral_of w K + margin_total m'"
proof -
  have "collateral_of w K = margin_total m + (\<Sum>j\<in>K - {k}. collateral_at w j)"
    using assms by (simp add: collateral_of_def sum.remove collateral_at_DMargin)
  moreover have "collateral_of (set_data k (DMargin m') w) K =
      margin_total m' + (\<Sum>j\<in>K - {k}. collateral_at w j)"
    using assms by (simp add: collateral_of_def sum.remove collateral_at_def margin_at_def)
  ultimately show ?thesis by simp
qed

lemma collateral_of_set_other:
  "margin_at w k = None \<Longrightarrow> as_margin d = None \<Longrightarrow> collateral_of (set_data k d w) K = collateral_of w K"
  unfolding collateral_of_def by (intro sum.cong) (auto simp: collateral_at_def margin_at_def)

section \<open>Inversion of the stages\<close>

lemma on_long_ok [ok_iff]:
  "on_long m p = (Inr a, p') \<longleftrightarrow> (\<exists>l'. m (fst p) = (Inr a, l') \<and> p' = (l', snd p))"
  by (auto simp: on_long_def ok_iff)

lemma on_short_ok [ok_iff]:
  "on_short m p = (Inr a, p') \<longleftrightarrow> (\<exists>s'. m (snd p) = (Inr a, s') \<and> p' = (fst p, s'))"
  by (auto simp: on_short_def ok_iff)

lemma add_pnl_ok [ok_iff]:
  "add_pnl a m = (Inr u, m') \<longleftrightarrow> m' = m\<lparr> realized_pnl := saturating_add_s (realized_pnl m) a \<rparr>"
  by (auto simp: add_pnl_def ok_iff)

lemma sub_pnl_ok [ok_iff]:
  "sub_pnl a m = (Inr u, m') \<longleftrightarrow> m' = m\<lparr> realized_pnl := saturating_sub_s (realized_pnl m) a \<rparr>"
  by (auto simp: sub_pnl_def ok_iff)

lemma edit_margins_ok [ok_iff]:
  "edit_margins la sa m w = (Inr a, w') \<longleftrightarrow>
     (\<exists>l s l' s'. acc_data (w (ai_key la)) = DMargin l \<and> acc_data (w (ai_key sa)) = DMargin s \<and>
        ai_key sa \<noteq> ai_key la \<and> m (l, s) = (Inr a, (l', s')) \<and>
        w' = set_data (ai_key sa) (DMargin s') (set_data (ai_key la) (DMargin l') w))"
  by (auto simp: edit_margins_def ok_iff)

lemma live_pmlc_ok [ok_iff]:
  "live_pmlc pa ia inst w = (Inr p, w') \<longleftrightarrow>
     acc_data (w (ai_key pa)) = DPmlc p \<and> pm_status p = PMLC_STATUS_LIVE \<and>
     pm_instrument p = ai_key ia \<and> pm_market_id p = ic_market_id inst \<and> pm_mint p = ic_mint inst \<and> w' = w"
  by (auto simp: live_pmlc_def ok_iff)

lemma unpaused_config_ok [ok_iff]:
  "unpaused_config ai w = (Inr c, w') \<longleftrightarrow> acc_data (w (ai_key ai)) = DConfig c \<and> global_pause c = 0 \<and> w' = w"
  by (auto simp: unpaused_config_def ok_iff)

lemma close_position_ok [ok_iff]:
  "close_position e st r p = (Inr u, p') \<longleftrightarrow>
     p' = p\<lparr> pm_status := st, close_reason := r, last_mark_slot := clock_slot e \<rparr>"
  by (auto simp: close_position_def ok_iff)

section \<open>Arithmetic of a settlement\<close>

lemma saturating_mul_2: "unat c < 2 ^ 63 \<Longrightarrow> unat (saturating_mul c 2) = 2 * unat (c :: u64)"
  by (subst unat_saturating_mul_small) simp_all

lemma two_sided_spec:
  assumes "unat c < 2 ^ 63"
  shows "unat (fst (two_sided c pnl)) = equity_value (unat c) (sint pnl)"
    and "unat (snd (two_sided c pnl)) = equity_value (unat c) (- sint pnl)"
    and "unat (fst (two_sided c pnl)) + unat (snd (two_sided c pnl)) = 2 * unat c"
proof -
  have "equity_value (unat c) (sint pnl) < 2 ^ 64"
    using equity_value_le [of "unat c" "sint pnl"] assms by simp
  then show l: "unat (fst (two_sided c pnl)) = equity_value (unat c) (sint pnl)"
    by (simp add: two_sided_def Let_def unat_bounded_equity)
  have s: "unat (snd (two_sided c pnl)) = 2 * unat c - unat (fst (two_sided c pnl))"
    using assms by (simp add: two_sided_def Let_def unat_saturating_sub saturating_mul_2)
  show "unat (snd (two_sided c pnl)) = equity_value (unat c) (- sint pnl)"
    using equity_value_sum [of "unat c" "sint pnl"] by (simp add: s l)
  show "unat (fst (two_sided c pnl)) + unat (snd (two_sided c pnl)) = 2 * unat c"
    using equity_value_le [of "unat c" "sint pnl"] by (simp add: s l)
qed

lemma bps_share_ok [ok_iff]:
  fixes bps :: "'a::len word"
  assumes "LENGTH('a) \<le> 64"
  shows "bps_share c bps = Inr v \<longleftrightarrow> v = word_of_nat (unat c * unat bps div 10000)"
proof -
  have b: "unat (ucast bps :: u128) = unat bps" using assms by (simp add: unat_ucast_up)
  have c: "unat (ucast c :: u128) = unat c" by (simp add: unat_ucast_up)
  have "unat bps < 2 ^ 64"
    by (rule order_less_le_trans [OF unat_lt2p power_increasing [OF assms]]) simp
  then have "unat c * unat bps < 2 ^ 64 * 2 ^ 64"
    using unat_lt2p [of c] by (intro mult_strict_mono') simp_all
  then have fits: "unat c * unat bps < 2 ^ LENGTH(128)" by simp
  have "unat ((ucast c :: u128) * ucast bps div ucast BPS_DENOM) = unat c * unat bps div 10000"
    using fits by (simp add: unat_div unat_mul_small b c BPS_DENOM_def unat_ucast_up)
  then have "(ucast ((ucast c :: u128) * ucast bps div ucast BPS_DENOM) :: u64) =
      word_of_nat (unat c * unat bps div 10000)"
    by (simp add: word_unat_eq_iff unsigned_ucast_eq unat_of_nat take_bit_eq_mod)
  then show ?thesis
    using fits by (auto simp: bps_share_def ok_iff checked_mul_def b c)
qed


section \<open>Liquidation\<close>
lemma liquidation_transfer_effect:
  assumes "liquidation_transfer lw c b (l, s) = (Inr u, (l', s'))"
  shows "unat (locked_collateral l) = unat c + unat (locked_collateral l')"
    and "unat (locked_collateral s) = unat c + unat (locked_collateral s')"
    and "unat (free_collateral l') = unat (free_collateral l) +
           (if lw then unat (saturating_mul c 2) - unat b else 0)"
    and "unat (free_collateral s') = unat (free_collateral s) +
           (if lw then 0 else unat (saturating_mul c 2) - unat b)"
    and "reserved_collateral l' = reserved_collateral l" "reserved_collateral s' = reserved_collateral s"
    and "ma_owner l' = ma_owner l" "ma_owner s' = ma_owner s"
  using assms unfolding liquidation_transfer_def Let_def
  by (cases lw; auto simp: ok_iff unat_saturating_sub)+

lemma liquidate_settle_run:
  assumes "liquidate_settle e inst ia pa la sa ka mark w = (Inr u, w')"
  obtains p lw b l s l' s' where
    "acc_data (w (ai_key pa)) = DPmlc p" "pm_status p = PMLC_STATUS_LIVE"
    "pm_instrument p = ai_key ia"
    "liquidation_outcome p inst mark = Inr (lw, b)"
    "acc_data (w (ai_key la)) = DMargin l" "ma_owner l = long_owner p" "ma_mint l = ic_mint inst"
    "acc_data (w (ai_key sa)) = DMargin s" "ma_owner s = short_owner p" "ma_mint s = ic_mint inst"
    "ai_key sa \<noteq> ai_key la"
    "liquidation_transfer lw (collateral_per_side p) b (l, s) = (Inr (), (l', s'))"
    "when_do (b > 0) (edit_acct load_margin DMargin ka (credit_free b))
      (set_data (ai_key pa) (DPmlc (p\<lparr> pm_status := PMLC_STATUS_LIQUIDATED,
        close_reason := CLOSE_REASON_LIQUIDATED, last_mark_slot := clock_slot e \<rparr>))
      (set_data (ai_key sa) (DMargin s') (set_data (ai_key la) (DMargin l') w))) = (Inr u, w')"
proof -
  from assms obtain p lw b where
    p: "acc_data (w (ai_key pa)) = DPmlc p" "pm_status p = PMLC_STATUS_LIVE" "pm_instrument p = ai_key ia"
    and out: "liquidation_outcome p inst mark = Inr (lw, b)"
    and rest: "seq (validate_margin_pda e la (long_owner p) (ic_mint inst))
     (seq (validate_margin_pda e sa (short_owner p) (ic_mint inst))
     (seq (edit_margins la sa
             (liquidation_transfer lw (collateral_per_side p) b))
     (seq (edit_acct load_pmlc DPmlc pa
             (close_position e PMLC_STATUS_LIQUIDATED CLOSE_REASON_LIQUIDATED))
     (when_do (b > 0) (edit_acct load_margin DMargin ka (credit_free b)))))) w = (Inr u, w')"
    unfolding liquidate_settle_def
    by (simp only: bnd_ok lift_ok live_pmlc_ok) (auto split: prod.splits)
  let ?w2 = "\<lambda>l' s'. set_data (ai_key pa) (DPmlc (p\<lparr> pm_status := PMLC_STATUS_LIQUIDATED,
        close_reason := CLOSE_REASON_LIQUIDATED, last_mark_slot := clock_slot e \<rparr>))
      (set_data (ai_key sa) (DMargin s') (set_data (ai_key la) (DMargin l') w))"
  from rest p(1) obtain l s l' s' where
    m: "acc_data (w (ai_key la)) = DMargin l" "ma_owner l = long_owner p" "ma_mint l = ic_mint inst"
    "acc_data (w (ai_key sa)) = DMargin s" "ma_owner s = short_owner p" "ma_mint s = ic_mint inst"
    "ai_key sa \<noteq> ai_key la"
    and t: "liquidation_transfer lw (collateral_per_side p) b (l, s) = (Inr (), (l', s'))"
    and k: "when_do (b > 0) (edit_acct load_margin DMargin ka (credit_free b)) (?w2 l' s') = (Inr u, w')"
    by (auto simp: seq_ok validate_margin_pda_ok edit_margins_ok edit_acct_ok load_oks close_position_ok split: if_splits)
  from that [OF p out m t k] show thesis .
qed

lemma liquidate_checks:
  assumes "process_liquidate e accounts off w = (Inr u, w')"
  obtains cfg inst att n n' mark where
    "is_signer (accounts ! 0)"
    "acc_data (w (ai_key (accounts ! 1))) = DConfig cfg" "global_pause cfg = 0"
    "acc_data (w (ai_key (accounts ! 3))) = DInstrument inst"
    "fetch_attestation e (accounts ! 2) (attestation_signer cfg) off = Inr att"
    "check_breach e att (ai_key (accounts ! 4)) = Inr ()"
    "acc_data (w (ai_key (accounts ! 5))) = DNonce n" "accept_breach e att inst n = (Inr (), n')"
    "breach_mark_fp att = Inr mark"
    "liquidate_settle e inst (accounts ! 3) (accounts ! 4) (accounts ! 6) (accounts ! 7) (accounts ! 8) mark
       (set_data (ai_key (accounts ! 5)) (DNonce n') w) = (Inr u, w')"
  using assms
  by (auto simp: process_liquidate_def Let_def seq_ok bnd_ok lift_ok read_acct_ok edit_acct_ok load_oks
      unpaused_config_ok need_accounts_ok assert_signers_ok assert_writables_ok assert_owners_ok require_ok
      validate_margin_pda_ok pda_ok)

lemma collateral_of_replace:
  assumes "finite K" "k \<in> K" "acc_data (w k) = DMargin m" "margin_total m' = margin_total m + n"
  shows "collateral_of (set_data k (DMargin m') w) K = collateral_of w K + n"
  using collateral_of_set_margin [OF assms(1,2), of w m m'] assms(3,4) by simp

lemma keeper_credit:
  assumes "when_do (b > 0) (edit_acct load_margin DMargin ka (credit_free b)) w = (Inr u, w')"
    and "finite K" "ai_key ka \<in> K"
  shows "collateral_of w' K = collateral_of w K + unat b"
    and "only_changes e {ai_key ka} w w'"
    and "acc_data (w k) = DPmlc p \<Longrightarrow> acc_data (w' k) = DPmlc p"
proof -
  show "collateral_of w' K = collateral_of w K + unat b"
  proof (cases "b = 0")
    case False
    with assms(1) obtain m v where "acc_data (w (ai_key ka)) = DMargin m"
      "unat v = unat (free_collateral m) + unat b"
      "w' = set_data (ai_key ka) (DMargin (m\<lparr> free_collateral := v \<rparr>)) w"
      by (auto simp: when_do_ok edit_acct_ok load_oks credit_free_ok word_gt_0)
    with assms(2,3) show ?thesis by (auto intro!: collateral_of_replace simp: margin_total_def)
  qed (use assms(1) in \<open>simp add: when_do_ok\<close>)
qed (use assms(1) in \<open>auto simp: when_do_ok edit_acct_ok load_oks credit_free_ok only_changes_def
      split: if_splits\<close>)

text \<open>The pot of the two margin accounts when one pair is replaced by another.\<close>

lemma collateral_of_pair:
  assumes "finite K" "j \<in> K" "k \<in> K" "k \<noteq> j" "acc_data (w j) = DMargin l" "acc_data (w k) = DMargin s"
  shows "collateral_of (set_data k (DMargin s') (set_data j (DMargin l') w)) K + margin_total l + margin_total s =
    collateral_of w K + margin_total l' + margin_total s'"
proof -
  have "collateral_of (set_data k (DMargin s') (set_data j (DMargin l') w)) K + margin_total s =
      collateral_of (set_data j (DMargin l') w) K + margin_total s'"
    using assms by (intro collateral_of_set_margin) auto
  moreover have "collateral_of (set_data j (DMargin l') w) K + margin_total l = collateral_of w K + margin_total l'"
    using assms by (intro collateral_of_set_margin) auto
  ultimately show ?thesis by simp
qed

lemma liquidation_transfer_total:
  assumes "liquidation_transfer lw c b (l, s) = (Inr u, (l', s'))" "unat c < 2 ^ 63"
  shows "margin_total l' + margin_total s' + min (unat b) (2 * unat c) = margin_total l + margin_total s"
  using liquidation_transfer_effect [OF assms(1)] assms(2)
  by (cases lw) (simp_all add: margin_total_def saturating_mul_2 min_def)

lemma liquidation_outcome_iff:
  "liquidation_outcome p inst mark = Inr (lw, b) \<longleftrightarrow>
    (\<exists>pnl t. pnl_long_atoms (entry_price_fp p) mark (size_fp p) = Inr pnl \<and>
       bps_share (collateral_per_side p) (liquidation_bps inst) = Inr t \<and>
       bps_share (collateral_per_side p) (liquidation_bounty_bps inst) = Inr b \<and>
       min (fst (two_sided (collateral_per_side p) pnl)) (snd (two_sided (collateral_per_side p) pnl)) \<le> t \<and>
       lw = (fst (two_sided (collateral_per_side p) pnl) > snd (two_sided (collateral_per_side p) pnl)))"
  by (auto simp: liquidation_outcome_def try_res_ok check_ok split_def not_less)

lemma bps_share_exact:
  fixes bps :: "'a::len word"
  assumes "bps_share c bps = Inr v" "unat bps \<le> 20000" "unat c < 2 ^ 63" "LENGTH('a) \<le> 64"
  shows "unat v = unat c * unat bps div 10000" "unat v \<le> 2 * unat c"
proof -
  have "unat c * unat bps \<le> unat c * 20000" using assms(2) by simp
  then have "unat c * unat bps div 10000 \<le> unat c * 20000 div 10000" by (rule div_le_mono)
  then have le: "unat c * unat bps div 10000 \<le> 2 * unat c" by simp
  with assms(1,3) show "unat v = unat c * unat bps div 10000"
    by (simp add: bps_share_ok [OF assms(4)] unat_of_nat)
  with le show "unat v \<le> 2 * unat c" by simp
qed

lemma liquidate_settle_conserves:
  assumes run: "liquidate_settle e inst ia pa la sa ka mark w = (Inr u, w')"
    and p: "acc_data (w (ai_key pa)) = DPmlc p"
    and c: "unat (collateral_per_side p) < 2 ^ 63" and bps: "unat (liquidation_bounty_bps inst) \<le> 20000"
    and K: "finite K" "ai_key la \<in> K" "ai_key sa \<in> K" "ai_key ka \<in> K"
  shows "collateral_of w' K = collateral_of w K"
    and "only_changes e {ai_key pa, ai_key la, ai_key sa, ai_key ka} w w'"
    and "acc_data (w' (ai_key pa)) = DPmlc (p\<lparr> pm_status := PMLC_STATUS_LIQUIDATED,
        close_reason := CLOSE_REASON_LIQUIDATED, last_mark_slot := clock_slot e \<rparr>)"
proof -
  from run obtain p' lw b l s l' s' where
    p': "acc_data (w (ai_key pa)) = DPmlc p'"
    and out: "liquidation_outcome p' inst mark = Inr (lw, b)"
    and m: "acc_data (w (ai_key la)) = DMargin l" "acc_data (w (ai_key sa)) = DMargin s"
      "ai_key sa \<noteq> ai_key la"
    and t: "liquidation_transfer lw (collateral_per_side p') b (l, s) = (Inr (), (l', s'))"
    and k: "when_do (b > 0) (edit_acct load_margin DMargin ka (credit_free b))
      (set_data (ai_key pa) (DPmlc (p'\<lparr> pm_status := PMLC_STATUS_LIQUIDATED,
        close_reason := CLOSE_REASON_LIQUIDATED, last_mark_slot := clock_slot e \<rparr>))
      (set_data (ai_key sa) (DMargin s') (set_data (ai_key la) (DMargin l') w))) = (Inr u, w')"
      (is "_ (set_data _ (DPmlc ?p) ?w2) = _")
    by (rule liquidate_settle_run)
  have pp: "p' = p" using p' p by simp
  have b: "unat b \<le> 2 * unat (collateral_per_side p)"
    using out bps_share_exact(2) [OF _ bps c, simplified] by (auto simp: liquidation_outcome_iff pp)
  have "collateral_of ?w2 K + margin_total l + margin_total s = collateral_of w K + margin_total l' + margin_total s'"
    by (rule collateral_of_pair [where l=l and s=s]) (use K m in auto)
  moreover have "margin_total l' + margin_total s' + unat b = margin_total l + margin_total s"
    using liquidation_transfer_total [OF t [unfolded pp] c] b by (simp add: min_def)
  moreover have "collateral_of (set_data (ai_key pa) (DPmlc ?p) ?w2) K = collateral_of ?w2 K"
    by (rule collateral_of_set_other) (use p' m in \<open>auto simp: margin_at_set margin_at_def\<close>)
  ultimately show "collateral_of w' K = collateral_of w K"
    using keeper_credit(1) [OF k K(1,4)] by simp
  show "only_changes e {ai_key pa, ai_key la, ai_key sa, ai_key ka} w w'"
    by (intro only_changes_trans [OF _ only_changes_mono [OF keeper_credit(2) [OF k K(1,4)]]])
      (auto simp: only_changes_def)
  show "acc_data (w' (ai_key pa)) = DPmlc (p\<lparr> pm_status := PMLC_STATUS_LIQUIDATED,
        close_reason := CLOSE_REASON_LIQUIDATED, last_mark_slot := clock_slot e \<rparr>)"
    using pp by (intro keeper_credit(3) [OF k K(1,4)]) simp
qed

section \<open>Resolution and mutual close\<close>

lemma settle_side_effect:
  assumes "settle_side c eq m = (Inr u, m')"
  shows "unat (locked_collateral m) = unat c + unat (locked_collateral m')"
    and "unat (free_collateral m') = unat (free_collateral m) + unat eq"
    and "reserved_collateral m' = reserved_collateral m" "ma_owner m' = ma_owner m" "ma_mint m' = ma_mint m"
  using assms by (auto simp: settle_side_def ok_iff)

lemma settle_sides_run:
  assumes "settle_sides la sa c eqs w = (Inr u, w')"
  obtains l s l' s' where
    "acc_data (w (ai_key la)) = DMargin l" "acc_data (w (ai_key sa)) = DMargin s" "ai_key sa \<noteq> ai_key la"
    "settle_side c (fst eqs) l = (Inr (), l')" "settle_side c (snd eqs) s = (Inr (), s')"
    "w' = set_data (ai_key sa) (DMargin s') (set_data (ai_key la) (DMargin l') w)"
  using assms by (auto simp: settle_sides_def seq_ok edit_acct_ok load_oks require_ok)

lemma settle_sides_total:
  assumes run: "settle_sides la sa c (two_sided c pnl) w = (Inr u, w')" and c: "unat c < 2 ^ 63"
    and K: "finite K" "ai_key la \<in> K" "ai_key sa \<in> K"
  shows "collateral_of w' K = collateral_of w K"
proof -
  from run obtain l s l' s' where
    m: "acc_data (w (ai_key la)) = DMargin l" "acc_data (w (ai_key sa)) = DMargin s" "ai_key sa \<noteq> ai_key la"
    and l: "settle_side c (fst (two_sided c pnl)) l = (Inr (), l')"
    and s: "settle_side c (snd (two_sided c pnl)) s = (Inr (), s')"
    and w': "w' = set_data (ai_key sa) (DMargin s') (set_data (ai_key la) (DMargin l') w)"
    by (rule settle_sides_run)
  have "collateral_of w' K + margin_total l + margin_total s = collateral_of w K + margin_total l' + margin_total s'"
    unfolding w' by (rule collateral_of_pair) (use K m in auto)
  moreover have "margin_total l' + margin_total s' = margin_total l + margin_total s"
    using settle_side_effect [OF l] settle_side_effect [OF s] two_sided_spec(3) [OF c, of pnl]
    by (simp add: margin_total_def)
  ultimately show ?thesis by simp
qed

text \<open>Settling both sides and then closing the position.\<close>

lemma settle_and_close:
  assumes s: "settle_sides la sa c (two_sided c pnl) w = (Inr u, w1)"
    and k: "edit_acct load_pmlc DPmlc pa (close_position e st r) w1 = (Inr u', w')"
    and p: "acc_data (w (ai_key pa)) = DPmlc p" and c: "unat c < 2 ^ 63"
    and K: "finite K" "ai_key la \<in> K" "ai_key sa \<in> K"
  shows "collateral_of w' K = collateral_of w K"
    and "only_changes e' {ai_key pa, ai_key la, ai_key sa} w w'"
    and "acc_data (w' (ai_key pa)) = DPmlc (p\<lparr> pm_status := st, close_reason := r, last_mark_slot := clock_slot e \<rparr>)"
proof -
  from s obtain l s l' s' where
    m: "acc_data (w (ai_key la)) = DMargin l" "acc_data (w (ai_key sa)) = DMargin s" "ai_key sa \<noteq> ai_key la"
    and w1: "w1 = set_data (ai_key sa) (DMargin s') (set_data (ai_key la) (DMargin l') w)"
    by (rule settle_sides_run)
  have "acc_data (w1 (ai_key pa)) = DPmlc p" using p m w1 by auto
  then have w': "w' = set_data (ai_key pa)
      (DPmlc (p\<lparr> pm_status := st, close_reason := r, last_mark_slot := clock_slot e \<rparr>)) w1"
    using k by (auto simp: edit_acct_ok load_oks close_position_ok)
  have "collateral_of w' K = collateral_of w1 K"
    unfolding w' by (rule collateral_of_set_other)
      (use p m in \<open>auto simp: w1 margin_at_def\<close>)
  then show "collateral_of w' K = collateral_of w K" using settle_sides_total [OF assms(1) c K] by simp
  show "only_changes e' {ai_key pa, ai_key la, ai_key sa} w w'"
    by (auto simp: w' w1 only_changes_def)
  show "acc_data (w' (ai_key pa)) = DPmlc (p\<lparr> pm_status := st, close_reason := r, last_mark_slot := clock_slot e \<rparr>)"
    by (simp add: w')
qed

lemma resolve_settle_run:
  assumes "resolve_settle e inst ia pa la sa outcome w = (Inr u, w')"
  obtains p pnl w1 final where
    "resolution_mark outcome = Inr final"
    "acc_data (w (ai_key pa)) = DPmlc p" "pm_status p = PMLC_STATUS_LIVE" "pm_instrument p = ai_key ia"
    "resolution_pnl p outcome final = Inr pnl"
    "validate_margin_pda e la (long_owner p) (ic_mint inst) w = (Inr (), w)"
    "validate_margin_pda e sa (short_owner p) (ic_mint inst) w = (Inr (), w)"
    "settle_sides la sa (collateral_per_side p) (two_sided (collateral_per_side p) pnl) w = (Inr (), w1)"
    "edit_acct load_pmlc DPmlc pa (close_position e PMLC_STATUS_RESOLVED CLOSE_REASON_RESOLVED) w1 = (Inr u, w')"
  using assms unfolding resolve_settle_def
  by (auto simp: bnd_ok lift_ok live_pmlc_ok seq_ok validate_margin_pda_ok)

lemma resolve_checks:
  assumes "process_resolve e accounts off w = (Inr u, w')"
  obtains cfg inst att n n' outcome where
    "is_signer (accounts ! 0)"
    "acc_data (w (ai_key (accounts ! 1))) = DConfig cfg" "global_pause cfg = 0"
    "acc_data (w (ai_key (accounts ! 3))) = DInstrument inst"
    "fetch_attestation e (accounts ! 2) (attestation_signer cfg) off = Inr att"
    "attestation_type att = ATT_TYPE_RESOLUTION"
    "acc_data (w (ai_key (accounts ! 5))) = DNonce n" "accept_resolution e att inst n = (Inr (), n')"
    "att_final_outcome_bps att = Inr outcome"
    "resolve_settle e inst (accounts ! 3) (accounts ! 4) (accounts ! 6) (accounts ! 7) outcome
       (set_data (ai_key (accounts ! 5)) (DNonce n') w) = (Inr u, w')"
  using assms
  by (auto simp: process_resolve_def Let_def seq_ok bnd_ok lift_ok read_acct_ok edit_acct_ok load_oks
      unpaused_config_ok need_accounts_ok assert_signers_ok assert_writables_ok assert_owners_ok require_ok
      pda_ok ensure_ok)

lemma close_mutual_settle_run:
  assumes "close_mutual_settle e inst accounts mark w = (Inr u, w')"
  obtains p pnl w1 where
    "acc_data (w (ai_key (accounts ! 5))) = DPmlc p" "pm_status p = PMLC_STATUS_LIVE"
    "pm_instrument p = ai_key (accounts ! 4)"
    "long_owner p = ai_key (accounts ! 0)" "short_owner p = ai_key (accounts ! 1)"
    "pnl_long_atoms (entry_price_fp p) mark (size_fp p) = Inr pnl"
    "validate_margin_pda e (accounts ! 7) (ai_key (accounts ! 0)) (ic_mint inst) w = (Inr (), w)"
    "validate_margin_pda e (accounts ! 8) (ai_key (accounts ! 1)) (ic_mint inst) w = (Inr (), w)"
    "settle_sides (accounts ! 7) (accounts ! 8) (collateral_per_side p) (two_sided (collateral_per_side p) pnl) w = (Inr (), w1)"
    "edit_acct load_pmlc DPmlc (accounts ! 5) (close_position e PMLC_STATUS_CLOSED CLOSE_REASON_MUTUAL) w1 = (Inr u, w')"
  using assms unfolding close_mutual_settle_def Let_def
  by (auto simp: bnd_ok lift_ok live_pmlc_ok seq_ok validate_margin_pda_ok ensure_ok)

lemma close_mutual_checks:
  assumes "process_close_mutual e accounts off w = (Inr u, w')"
  obtains cfg inst att n n' mark where
    "is_signer (accounts ! 0)" "is_signer (accounts ! 1)"
    "acc_data (w (ai_key (accounts ! 2))) = DConfig cfg" "global_pause cfg = 0"
    "acc_data (w (ai_key (accounts ! 4))) = DInstrument inst"
    "fetch_attestation e (accounts ! 3) (attestation_signer cfg) off = Inr att"
    "attestation_type att = ATT_TYPE_PRICE_TWAP"
    "acc_data (w (ai_key (accounts ! 6))) = DNonce n" "accept_twap e att inst n = (Inr (), n')"
    "price_fp att = Inr mark"
    "close_mutual_settle e inst accounts mark
       (set_data (ai_key (accounts ! 6)) (DNonce n') w) = (Inr u, w')"
  using assms
  by (auto simp: process_close_mutual_def Let_def seq_ok bnd_ok lift_ok read_acct_ok edit_acct_ok load_oks
      unpaused_config_ok need_accounts_ok assert_signers_ok assert_writables_ok assert_owners_ok require_ok
      pda_ok ensure_ok)


section \<open>What each side receives\<close>

definition side_settled :: "world \<Rightarrow> world \<Rightarrow> pubkey \<Rightarrow> pubkey \<Rightarrow> nat \<Rightarrow> nat \<Rightarrow> bool" where
  \<comment> \<open>the margin account at \<open>k\<close> of \<open>own\<close> gave up \<open>c\<close> of its locked collateral and received \<open>amt\<close> free\<close>
  "side_settled w w' k own c amt \<longleftrightarrow> (\<exists>m m'.
     margin_at w k = Some m \<and> margin_at w' k = Some m' \<and> ma_owner m = own \<and> ma_owner m' = own \<and>
     unat (locked_collateral m) = c + unat (locked_collateral m') \<and>
     unat (free_collateral m') = unat (free_collateral m) + amt \<and>
     reserved_collateral m' = reserved_collateral m)"

definition free_credited :: "world \<Rightarrow> world \<Rightarrow> pubkey \<Rightarrow> nat \<Rightarrow> bool" where
  "free_credited w w' k amt \<longleftrightarrow> (\<exists>m m'.
     margin_at w k = Some m \<and> margin_at w' k = Some m' \<and>
     unat (free_collateral m') = unat (free_collateral m) + amt)"

lemma settle_sides_settled:
  assumes run: "settle_sides la sa c eqs w = (Inr u, w')"
    and v: "validate_margin_pda e la lo mint w = (Inr u1, w1)" "validate_margin_pda e sa so mint w = (Inr u2, w2)"
  shows "side_settled w w' (ai_key la) lo (unat c) (unat (fst eqs))"
    and "side_settled w w' (ai_key sa) so (unat c) (unat (snd eqs))"
proof -
  from run obtain l s l' s' where
    m: "acc_data (w (ai_key la)) = DMargin l" "acc_data (w (ai_key sa)) = DMargin s" "ai_key sa \<noteq> ai_key la"
    and l: "settle_side c (fst eqs) l = (Inr (), l')" and s: "settle_side c (snd eqs) s = (Inr (), s')"
    and w': "w' = set_data (ai_key sa) (DMargin s') (set_data (ai_key la) (DMargin l') w)"
    by (rule settle_sides_run)
  have "margin_at w' (ai_key la) = Some l'" "margin_at w' (ai_key sa) = Some s'"
    using m(3) by (simp_all add: w' margin_at_def)
  then show "side_settled w w' (ai_key la) lo (unat c) (unat (fst eqs))"
    "side_settled w w' (ai_key sa) so (unat c) (unat (snd eqs))"
    using m v settle_side_effect [OF l] settle_side_effect [OF s]
    by (auto simp: side_settled_def margin_at_def validate_margin_pda_ok)
qed

lemma side_settled_cong:
  assumes "side_settled w1 w2 k own c amt" "acc_data (w1 k) = acc_data (w k)" "acc_data (w2 k) = acc_data (w' k)"
  shows "side_settled w w' k own c amt"
  using assms by (simp add: side_settled_def margin_at_def)

lemma side_settled_from:
  assumes "\<And>m. margin_at w1 k = Some m \<Longrightarrow> margin_at w k = Some m" "side_settled w1 w' k own c amt"
  shows "side_settled w w' k own c amt"
  using assms unfolding side_settled_def by blast

lemma free_credited_from:
  assumes "\<And>m. margin_at w1 k = Some m \<Longrightarrow> margin_at w k = Some m" "free_credited w1 w' k amt"
  shows "free_credited w w' k amt"
  using assms unfolding free_credited_def by blast

lemma settle_and_close_sides:
  assumes s: "settle_sides la sa c eqs w = (Inr u, w1)"
    and k: "edit_acct load_pmlc DPmlc pa (close_position e st r) w1 = (Inr u', w')"
    and p: "acc_data (w (ai_key pa)) = DPmlc p"
    and v: "validate_margin_pda e la lo mint w = (Inr u1, w2)" "validate_margin_pda e sa so mint w = (Inr u2, w3)"
  shows "side_settled w w' (ai_key la) lo (unat c) (unat (fst eqs))"
    and "side_settled w w' (ai_key sa) so (unat c) (unat (snd eqs))"
proof -
  have "ai_key pa \<noteq> ai_key la" "ai_key pa \<noteq> ai_key sa"
    using p v by (auto simp: validate_margin_pda_ok)
  then have "acc_data (w' (ai_key la)) = acc_data (w1 (ai_key la))" "acc_data (w' (ai_key sa)) = acc_data (w1 (ai_key sa))"
    using k by (auto simp: edit_acct_ok)
  then show "side_settled w w' (ai_key la) lo (unat c) (unat (fst eqs))"
    "side_settled w w' (ai_key sa) so (unat c) (unat (snd eqs))"
    using settle_sides_settled [OF s v] by (auto intro: side_settled_cong)
qed

lemma liquidate_settle_pays:
  assumes run: "liquidate_settle e inst ia pa la sa ka mark w = (Inr u, w')"
    and p: "acc_data (w (ai_key pa)) = DPmlc p"
    and c: "unat (collateral_per_side p) < 2 ^ 63" and bps: "unat (liquidation_bounty_bps inst) \<le> 20000"
    and keeper: "ai_key ka \<noteq> ai_key la" "ai_key ka \<noteq> ai_key sa"
  obtains lw b where "liquidation_outcome p inst mark = Inr (lw, b)"
    "side_settled w w' (ai_key la) (long_owner p) (unat (collateral_per_side p))
       (if lw then 2 * unat (collateral_per_side p) - unat b else 0)"
    "side_settled w w' (ai_key sa) (short_owner p) (unat (collateral_per_side p))
       (if lw then 0 else 2 * unat (collateral_per_side p) - unat b)"
    "0 < b \<longrightarrow> free_credited w w' (ai_key ka) (unat b)"
proof -
  from run obtain p' lw b l s l' s' where
    p': "acc_data (w (ai_key pa)) = DPmlc p'"
    and out: "liquidation_outcome p' inst mark = Inr (lw, b)"
    and l: "acc_data (w (ai_key la)) = DMargin l" "ma_owner l = long_owner p'"
    and s: "acc_data (w (ai_key sa)) = DMargin s" "ma_owner s = short_owner p'"
    and ne: "ai_key sa \<noteq> ai_key la"
    and t: "liquidation_transfer lw (collateral_per_side p') b (l, s) = (Inr (), (l', s'))"
    and k: "when_do (b > 0) (edit_acct load_margin DMargin ka (credit_free b))
      (set_data (ai_key pa) (DPmlc (p'\<lparr> pm_status := PMLC_STATUS_LIQUIDATED,
        close_reason := CLOSE_REASON_LIQUIDATED, last_mark_slot := clock_slot e \<rparr>))
      (set_data (ai_key sa) (DMargin s') (set_data (ai_key la) (DMargin l') w))) = (Inr u, w')"
      (is "when_do _ _ ?w2 = _")
    by (rule liquidate_settle_run)
  have [simp]: "p' = p" using p' p by simp
  have keys: "ai_key pa \<noteq> ai_key la" "ai_key pa \<noteq> ai_key sa" using p l(1) s(1) by auto
  have fin: "acc_data (w' (ai_key la)) = DMargin l'" "acc_data (w' (ai_key sa)) = DMargin s'"
    using k keys ne keeper by (auto simp: when_do_ok edit_acct_ok load_oks split: if_splits)
  note eff = liquidation_transfer_effect [OF t]
  show thesis
  proof (rule that)
    show "liquidation_outcome p inst mark = Inr (lw, b)" using out by simp
    show "side_settled w w' (ai_key la) (long_owner p) (unat (collateral_per_side p))
       (if lw then 2 * unat (collateral_per_side p) - unat b else 0)"
      using eff l fin c by (auto simp: side_settled_def margin_at_def saturating_mul_2)
    show "side_settled w w' (ai_key sa) (short_owner p) (unat (collateral_per_side p))
       (if lw then 0 else 2 * unat (collateral_per_side p) - unat b)"
      using eff s fin c by (auto simp: side_settled_def margin_at_def saturating_mul_2)
    show "0 < b \<longrightarrow> free_credited w w' (ai_key ka) (unat b)"
      using k keeper by (auto simp: when_do_ok edit_acct_ok load_oks credit_free_ok free_credited_def margin_at_def
        split: if_splits)
  qed
qed

end
