(* ===== verification/Oracle_Scenario.thy ===== *)
theory Oracle_Scenario
  imports Scenario Settlement_Facts
begin

text \<open>
  Attestations for the concrete runs: the transaction carries one Ed25519 precompile
  instruction with a single signature record over a 104-byte message, so that the checks of
  the oracle pass for any message of the documented layout, and a position that such an
  attestation settles.
\<close>

section \<open>The precompile instruction\<close>

definition ex_signer :: pubkey where
  "ex_signer = Pubkey (replicate 32 7)"

definition ex_market :: "u8 list" where
  "ex_market = replicate 32 3"

definition ex_ix :: "u8 list \<Rightarrow> u8 list" where
  \<comment> \<open>public key at 16, signature at 48, message at 112 of length 104\<close>
  "ex_ix msg = [1, 0, 48, 0, 255, 255, 16, 0, 255, 255, 112, 0, 104, 0, 255, 255] @
     replicate 32 7 @ replicate 64 0 @ msg"

definition ex_oracle :: "u8 list \<Rightarrow> env" where
  "ex_oracle msg = ex_env\<lparr> load_instruction_at := (\<lambda>_ _. Some (ED25519_PROGRAM_ID, ex_ix msg)) \<rparr>"

lemma ex_ix_accepted:
  assumes "length msg = 104"
  shows "extract_verified_ed25519_message (ex_ix msg) ex_signer = Inr msg"
  using assms
  by (simp add: extract_ok ex_ix_def ex_signer_def read_u16_def get_range_def from_le_bytes_def)

lemma ex_fetch:
  assumes "length msg = 104" "take 4 msg = ATTESTATION_MAGIC"
  shows "fetch_attestation (ex_oracle msg) ai ex_signer off = Inr (Attestation msg)"
  using assms ex_ix_accepted [OF assms(1)]
  by (simp add: fetch_attestation_def verify_via_ed25519_sysvar_def ex_oracle_def try_res_def
      ok_or_err_def ok_or_def parse_def ATTESTATION_LEN_def array_ref_def)

definition ex_att :: "u8 \<Rightarrow> u8 list \<Rightarrow> u8 list" where
  "ex_att ty payload = encode_attestation ty [0, 0, 0] ex_market 999900 5 payload"

lemma ex_att_fields:
  assumes "length payload = 48"
  shows "fetch_attestation (ex_oracle (ex_att ty payload)) ai ex_signer off = Inr (Attestation (ex_att ty payload))"
    and "attestation_type (Attestation (ex_att ty payload)) = ty"
    and "att_market_id (Attestation (ex_att ty payload)) = ex_market"
    and "timestamp (Attestation (ex_att ty payload)) = 999900"
    and "nonce (Attestation (ex_att ty payload)) = 5"
    and "array_ref (ex_att ty payload) (ATTESTATION_PAYLOAD_OFFSET + k) n = array_ref payload k n"
proof -
  have m: "length ex_market = 32" by (simp add: ex_market_def)
  note f = encode_attestation_fields [OF _ m assms ex_att_def]
  have d: "drop ATTESTATION_PAYLOAD_OFFSET (ex_att ty payload) = payload" using f(6) by simp
  have "parse (ex_att ty payload) = Inr (Attestation (ex_att ty payload))" using f by simp
  then show "fetch_attestation (ex_oracle (ex_att ty payload)) ai ex_signer off = Inr (Attestation (ex_att ty payload))"
    by (intro ex_fetch) (simp_all add: parse_ok)
  show "array_ref (ex_att ty payload) (ATTESTATION_PAYLOAD_OFFSET + k) n = array_ref payload k n"
    by (simp only: array_ref_def add.commute [of _ k] drop_drop [symmetric] d)
  show "attestation_type (Attestation (ex_att ty payload)) = ty" using f by simp
  show "att_market_id (Attestation (ex_att ty payload)) = ex_market" using f by simp
  show "timestamp (Attestation (ex_att ty payload)) = 999900" using f by simp
  show "nonce (Attestation (ex_att ty payload)) = 5" using f by simp
qed

section \<open>A position to settle\<close>

definition ex_config :: program_config where
  "ex_config = new_program_config (sk 1) ex_signer (sk 2) 300 255"

definition ex_instrument :: instrument_config where
  "ex_instrument = \<lparr> ic_status = 0, ic_bump = 255, ic_source = 3, ic_market_id = ex_market,
     source_token_id_a = [], source_token_id_b = [], ic_mint = sk 7, ic_book = sk 23,
     ic_leverage_bps = 100000, collateral_bucket = 1000, twap_window_slots = 150,
     tick_fp = 1000000000000000, liquidation_bps = 500, liquidation_bounty_bps = 100,
     max_staleness_secs = 300, reference_usd = 1 \<rparr>"

definition ex_pmlc_key :: pubkey where
  "ex_pmlc_key = Pubkey (replicate 32 4)"

definition ex_nonce_key :: pubkey where
  "ex_nonce_key = Pubkey (SEED_MARKET_NONCE @ ex_market)"

definition ex_pmlc :: pmlc where
  \<comment> \<open>1000 per side, ten times leverage, entered at 0.5: one point of price moves 200\<close>
  "ex_pmlc = \<lparr> pm_status = 0, close_reason = 0, pm_flags = 0, pm_bump = 255, pm_id = 1,
     pm_instrument = sk 21, pm_mint = sk 7, pm_market_id = ex_market, long_owner = sk 1,
     short_owner = sk 2, collateral_per_side = 1000, pm_leverage_bps = 100000,
     entry_price_fp = 500000000000000000, pm_notional_atoms = 10000, size_fp_lo = 20000,
     size_fp_hi = 0, opened_slot = 0, last_mark_slot = 0, long_reentry_price_fp = 0,
     short_reentry_price_fp = 0 \<rparr>"

definition ex_w_settle :: world where
  "ex_w_settle = ex_empty(
     sk 20 := owned_by (sk 9) (DConfig ex_config),
     sk 21 := owned_by (sk 9) (DInstrument ex_instrument),
     ex_pmlc_key := owned_by (sk 9) (DPmlc ex_pmlc),
     ex_nonce_key := owned_by (sk 9) (DNonce (new_market_nonce ex_market 255)),
     ex_margin_key (sk 1) := owned_by (sk 9) (DMargin (ex_margin (sk 1) 10 0 1000)),
     ex_margin_key (sk 2) := owned_by (sk 9) (DMargin (ex_margin (sk 2) 20 0 1500)),
     ex_margin_key (sk 3) := owned_by (sk 9) (DMargin (ex_margin (sk 3) 30 0 0)))"

lemma seed_nonce_bytes [simp]: "SEED_MARKET_NONCE = [110, 111, 110, 99, 101]"
  by code_simp

lemma ex_keys [simp]:
  "length ex_market = 32"
  "ex_pmlc_key \<noteq> sk n" "ex_nonce_key \<noteq> sk n" "ex_margin_key k \<noteq> sk n"
  "ex_margin_key k \<noteq> ex_nonce_key" "ex_nonce_key \<noteq> ex_pmlc_key" "ex_margin_key k \<noteq> ex_pmlc_key"
  "sk n \<noteq> ex_pmlc_key" "sk n \<noteq> ex_nonce_key" "sk n \<noteq> ex_margin_key k"
  "ex_nonce_key \<noteq> ex_margin_key k" "ex_pmlc_key \<noteq> ex_nonce_key" "ex_pmlc_key \<noteq> ex_margin_key k"
  "sk m = sk n \<longleftrightarrow> m = n" "ex_margin_key (sk m) = ex_margin_key (sk n) \<longleftrightarrow> m = n"
  by (auto simp: ex_market_def ex_pmlc_key_def ex_nonce_key_def ex_margin_key_def sk_def
      dest: arg_cong [where f=length] arg_cong [where f=hd])

lemma ex_oracle_simps [simp]:
  "program_id (ex_oracle m) = sk 9" "sysvar_instructions_id (ex_oracle m) = sk 5"
  "clock_slot (ex_oracle m) = 100" "clock_unix_timestamp (ex_oracle m) = 1000000"
  "now_unix (ex_oracle m) = 1000000"
  "find_program_address (ex_oracle m) (margin_seeds k (sk 7)) = (ex_margin_key k, 255)"
  "find_program_address (ex_oracle m) [SEED_MARKET_NONCE, ex_market] = (ex_nonce_key, 255)"
  by (simp_all add: ex_oracle_def ex_env_def now_unix_def ex_find_def margin_seeds_def ex_margin_key_def
      ex_nonce_key_def)

lemma ex_world_settle [simp]:
  "ex_w_settle (sk 20) = owned_by (sk 9) (DConfig ex_config)"
  "ex_w_settle (sk 21) = owned_by (sk 9) (DInstrument ex_instrument)"
  "ex_w_settle ex_pmlc_key = owned_by (sk 9) (DPmlc ex_pmlc)"
  "ex_w_settle ex_nonce_key = owned_by (sk 9) (DNonce (new_market_nonce ex_market 255))"
  "ex_w_settle (ex_margin_key (sk 1)) = owned_by (sk 9) (DMargin (ex_margin (sk 1) 10 0 1000))"
  "ex_w_settle (ex_margin_key (sk 2)) = owned_by (sk 9) (DMargin (ex_margin (sk 2) 20 0 1500))"
  "ex_w_settle (ex_margin_key (sk 3)) = owned_by (sk 9) (DMargin (ex_margin (sk 3) 30 0 0))"
  by (simp_all add: ex_w_settle_def)

lemma ex_pmlc_fields [simp]:
  "pm_status ex_pmlc = 0" "pm_instrument ex_pmlc = sk 21" "pm_mint ex_pmlc = sk 7"
  "pm_market_id ex_pmlc = ex_market" "long_owner ex_pmlc = sk 1" "short_owner ex_pmlc = sk 2"
  "collateral_per_side ex_pmlc = 1000" "pm_flags ex_pmlc = 0"
  by (simp_all add: ex_pmlc_def)

lemma ex_instrument_fields [simp]:
  "ic_status ex_instrument = 0" "ic_market_id ex_instrument = ex_market" "ic_mint ex_instrument = sk 7"
  "ic_book ex_instrument = sk 23" "ic_leverage_bps ex_instrument = 100000"
  "collateral_bucket ex_instrument = 1000" "twap_window_slots ex_instrument = 150"
  "tick_fp ex_instrument = 1000000000000000" "liquidation_bps ex_instrument = 500"
  "liquidation_bounty_bps ex_instrument = 100" "max_staleness_secs ex_instrument = 300"
  by (simp_all add: ex_instrument_def)

end
