(* ===== verification/Settlement_Properties.thy ===== *)
theory Settlement_Properties
  imports Oracle_Scenario
begin

text \<open>
  Settlement: liquidation, resolution and mutual close move collateral between the two sides
  of a live position (and the keeper) without creating or destroying any, and close it.
\<close>

section \<open>Liquidation\<close>

definition ex_breach :: "u8 list" where
  "ex_breach = ex_att 3 (key_bytes ex_pmlc_key @ to_le_bytes (450000000000000000 :: u64) @ to_le_bytes (999950 :: u64))"

definition ex_liquidate_accounts :: "account_info list" where
  "ex_liquidate_accounts = map ai_of [sk 3, sk 20, sk 5, sk 21, ex_pmlc_key, ex_nonce_key,
     ex_margin_key (sk 1), ex_margin_key (sk 2), ex_margin_key (sk 3)]"

lemma ex_breach_fields:
  "fetch_attestation (ex_oracle ex_breach) ai ex_signer off = Inr (Attestation ex_breach)"
  "attestation_type (Attestation ex_breach) = 3"
  "att_market_id (Attestation ex_breach) = ex_market"
  "timestamp (Attestation ex_breach) = 999900"
  "nonce (Attestation ex_breach) = 5"
  "breach_pmlc_pubkey (Attestation ex_breach) = Inr (key_bytes ex_pmlc_key)"
  "breach_mark_fp (Attestation ex_breach) = Inr 450000000000000000"
  "breach_unix_ts (Attestation ex_breach) = Inr 999950"
  unfolding ex_breach_def
proof -
  let ?p = "key_bytes ex_pmlc_key @ to_le_bytes (450000000000000000 :: u64) @ to_le_bytes (999950 :: u64)"
  have k: "length (key_bytes ex_pmlc_key) = 32" by (simp add: ex_pmlc_key_def)
  then have "length ?p = 48" by simp
  note f = ex_att_fields [OF this, of 3]
  show "fetch_attestation (ex_oracle (ex_att 3 ?p)) ai ex_signer off = Inr (Attestation (ex_att 3 ?p))"
    "attestation_type (Attestation (ex_att 3 ?p)) = 3" "att_market_id (Attestation (ex_att 3 ?p)) = ex_market"
    "timestamp (Attestation (ex_att 3 ?p)) = 999900" "nonce (Attestation (ex_att 3 ?p)) = 5"
    by (rule f)+
  show "breach_pmlc_pubkey (Attestation (ex_att 3 ?p)) = Inr (key_bytes ex_pmlc_key)"
    "breach_mark_fp (Attestation (ex_att 3 ?p)) = Inr 450000000000000000"
    "breach_unix_ts (Attestation (ex_att 3 ?p)) = Inr 999950"
    using f(2) f(6) [of 0 32] f(6) [of 32 8] f(6) [of 40 8] k
    by (simp_all add: breach_pmlc_pubkey_def breach_mark_fp_def breach_unix_ts_def try_res_def require_type_def
      ATT_TYPE_HISTORICAL_LIQUIDATION_def array_ref_skip array_ref_hit)
      (simp_all add: array_ref_def)
qed

lemma ex_liquidation_outcome: "liquidation_outcome ex_pmlc ex_instrument 450000000000000000 = Inr (False, 10)"
  by (simp add: liquidation_outcome_def ex_pmlc_def ex_instrument_def pnl_long_atoms_def size_fp_def
    checked_mul_s_def checked_div_s_def checked_signed_def in_signed_range_def tdiv_def PRICE_ONE_U128_def PRICE_ONE_def Let_def
    bps_share_def BPS_DENOM_def two_sided_def bounded_equity_def run_defs ok_or_err_def no_panic_def checked_mul_def
   saturating_mul_def saturating_sub_def saturating_add_s_def saturating_mul_s_def saturate_signed_def clamp_s_def check_def)

lemma ex_liquidate_runs: "fst (process_liquidate (ex_oracle ex_breach) ex_liquidate_accounts 0 ex_w_settle) = Inr ()"
  by (simp add: process_liquidate_def att_consts ex_liquidation_outcome pmlc_consts
   live_pmlc_def edit_margins_def close_position_def liquidation_transfer_def on_long_def on_short_def require_live_def is_margin_of_def liquidate_settle_def exec_defs load_defs ex_liquidate_accounts_def ai_of_def ex_breach_fields
   unpaused_config_def owned_by_def ex_config_def new_program_config_def validate_margin_pda_def check_breach_def
   accept_breach_def accept_nonce_def validate_freshness_and_nonce_def ex_margin_def new_margin_account_def
   debit_locked_def credit_free_def update_checked_def checked_sub_def checked_add_def saturating_mul_def saturating_sub_def add_pnl_def sub_pnl_def
   new_market_nonce_def del: seed_nonce_bytes)

text \<open>
  C4. A successful liquidation conserves collateral: over any set of accounts that contains the
  margin accounts of both sides and of the keeper the total of free, reserved and locked
  collateral is unchanged, provided the bounty is at most the whole pot (20000 bps of one
  side). The position was live and ends liquidated, and apart from it, the market nonce
  and the three margin accounts no account of the program changes.
\<close>

theorem liquidate_conserves:
  assumes run: "process_liquidate e accounts off w = (Inr u, w')"
    and inst: "acc_data (w (ai_key (accounts ! 3))) = DInstrument inst"
    and p: "acc_data (w (ai_key (accounts ! 4))) = DPmlc p"
    and c: "unat (collateral_per_side p) < 2 ^ 63" and bps: "unat (liquidation_bounty_bps inst) \<le> 20000"
    and K: "finite K" "ai_key (accounts ! 6) \<in> K" "ai_key (accounts ! 7) \<in> K" "ai_key (accounts ! 8) \<in> K"
  shows "collateral_of w' K = collateral_of w K \<and>
    pm_status p = PMLC_STATUS_LIVE \<and>
    acc_data (w' (ai_key (accounts ! 4))) = DPmlc (p\<lparr> pm_status := PMLC_STATUS_LIQUIDATED,
      close_reason := CLOSE_REASON_LIQUIDATED, last_mark_slot := clock_slot e \<rparr>) \<and>
    only_changes e (ai_key ` set [accounts ! 4, accounts ! 5, accounts ! 6, accounts ! 7, accounts ! 8]) w w'"
proof -
  from run obtain n n' inst' mark where n: "acc_data (w (ai_key (accounts ! 5))) = DNonce n"
    and inst': "acc_data (w (ai_key (accounts ! 3))) = DInstrument inst'"
    and settle: "liquidate_settle e inst' (accounts ! 3) (accounts ! 4) (accounts ! 6) (accounts ! 7) (accounts ! 8) mark
       (set_data (ai_key (accounts ! 5)) (DNonce n') w) = (Inr u, w')" (is "_ (set_data ?k ?d w) = _")
    by (rule liquidate_checks)
  from inst inst' have [simp]: "inst' = inst" by simp
  let ?w1 = "set_data ?k ?d w"
  have p1: "acc_data (?w1 (ai_key (accounts ! 4))) = DPmlc p" using p n by auto
  note facts = liquidate_settle_conserves [OF settle p1 c _ K]
  have "pm_status p = PMLC_STATUS_LIVE"
    by (rule liquidate_settle_run [OF settle]) (use p1 in simp)
  moreover have "collateral_of ?w1 K = collateral_of w K"
    by (rule collateral_of_set_other) (use n in \<open>simp_all add: margin_at_def\<close>)
  moreover have "only_changes e (ai_key ` set [accounts ! 4, accounts ! 5, accounts ! 6, accounts ! 7, accounts ! 8]) w w'"
    by (rule only_changes_trans [OF only_changes_set only_changes_mono [OF facts(2)]])
      (use bps in auto)
  ultimately show ?thesis using facts(1,3) bps by simp
qed

lemma liquidate_conserves_witness:
  "collateral_of (snd (process_liquidate (ex_oracle ex_breach) ex_liquidate_accounts 0 ex_w_settle))
     {ex_margin_key (sk 1), ex_margin_key (sk 2), ex_margin_key (sk 3)} = 2560"
proof -
  let ?K = "{ex_margin_key (sk 1), ex_margin_key (sk 2), ex_margin_key (sk 3)}"
  have run: "process_liquidate (ex_oracle ex_breach) ex_liquidate_accounts 0 ex_w_settle =
      (Inr (), snd (process_liquidate (ex_oracle ex_breach) ex_liquidate_accounts 0 ex_w_settle))"
    using ex_liquidate_runs by (metis prod.collapse)
  have "collateral_of (snd (process_liquidate (ex_oracle ex_breach) ex_liquidate_accounts 0 ex_w_settle)) ?K =
      collateral_of ex_w_settle ?K"
    by (rule liquidate_conserves [OF run, of ex_instrument ex_pmlc, THEN conjunct1])
      (simp_all add: ex_liquidate_accounts_def ai_of_def owned_by_def)
  also have "\<dots> = 2560"
    by (simp add: collateral_of_def collateral_at_def margin_at_def owned_by_def margin_total_def
        ex_margin_def new_margin_account_def)
  finally show ?thesis .
qed


lemma equity_less_iff:
  assumes "unat c < 2 ^ 63"
  shows "fst (two_sided c pnl) > snd (two_sided c pnl) \<longleftrightarrow>
     equity_value (unat c) (sint pnl) > equity_value (unat c) (- sint pnl)"
  using two_sided_spec [OF assms, of pnl] by (simp add: word_less_nat_alt)

lemma equity_min_le:
  assumes "unat c < 2 ^ 63"
    and "min (fst (two_sided c pnl)) (snd (two_sided c pnl)) \<le> t"
  shows "min (equity_value (unat c) (sint pnl)) (equity_value (unat c) (- sint pnl)) \<le> unat t"
  using two_sided_spec [OF assms(1), of pnl] assms(2) by (simp add: word_le_nat_alt min_def split: if_splits)

text \<open>The outcome of a liquidation in integers.\<close>

lemma liquidation_outcome_spec:
  assumes "liquidation_outcome p inst mark = Inr (lw, b)"
    and c: "unat (collateral_per_side p) < 2 ^ 63"
    and bps: "unat (liquidation_bounty_bps inst) \<le> 20000" "unat (liquidation_bps inst) \<le> 20000"
  defines "c \<equiv> unat (collateral_per_side p)"
    and "pnl \<equiv> tdiv ((int (unat mark) - int (unat (entry_price_fp p))) * sint (size_fp p)) (10 ^ 18)"
  shows "min (equity_value c pnl) (equity_value c (- pnl)) \<le> c * unat (liquidation_bps inst) div 10000"
    and "lw \<longleftrightarrow> equity_value c pnl > equity_value c (- pnl)"
    and "unat b = c * unat (liquidation_bounty_bps inst) div 10000"
proof -
  from assms(1) obtain x t where
    x: "pnl_long_atoms (entry_price_fp p) mark (size_fp p) = Inr x"
    and t: "bps_share (collateral_per_side p) (liquidation_bps inst) = Inr t"
      "min (fst (two_sided (collateral_per_side p) x)) (snd (two_sided (collateral_per_side p) x)) \<le> t"
    and b: "bps_share (collateral_per_side p) (liquidation_bounty_bps inst) = Inr b"
    and lw: "lw = (fst (two_sided (collateral_per_side p) x) > snd (two_sided (collateral_per_side p) x))"
    by (auto simp: liquidation_outcome_iff)
  have [simp]: "sint x = pnl" using x by (simp add: pnl_long_atoms_ok pnl_def)
  show "min (equity_value c pnl) (equity_value c (- pnl)) \<le> c * unat (liquidation_bps inst) div 10000"
    using equity_min_le [OF c t(2)] bps_share_exact(1) [OF t(1) bps(2) c] by (simp add: c_def)
  show "lw \<longleftrightarrow> equity_value c pnl > equity_value c (- pnl)"
    using equity_less_iff [OF c, of x] lw by (simp add: c_def)
  show "unat b = c * unat (liquidation_bounty_bps inst) div 10000"
    using bps_share_exact(1) [OF b bps(1) c] by (simp add: c_def)
qed

text \<open>
  C5. A successful liquidation was authorised by a fresh breach attestation of the configured signer
  about exactly this position and market, with a nonce above the last accepted one; at its mark the
  smaller of the two bounded equities was at most the liquidation threshold. Both sides lose their
  locked collateral \<open>c\<close>, the side with the larger equity receives \<open>2c\<close> less the bounty, and the
  keeper's account receives the bounty.
\<close>

theorem liquidate_pays_winner:
  assumes run: "process_liquidate e accounts off w = (Inr u, w')"
    and inst: "acc_data (w (ai_key (accounts ! 3))) = DInstrument inst"
    and p: "acc_data (w (ai_key (accounts ! 4))) = DPmlc p"
    and c: "unat (collateral_per_side p) < 2 ^ 63"
    and bps: "unat (liquidation_bounty_bps inst) \<le> 20000" "unat (liquidation_bps inst) \<le> 20000"
    and keeper: "ai_key (accounts ! 8) \<noteq> ai_key (accounts ! 6)" "ai_key (accounts ! 8) \<noteq> ai_key (accounts ! 7)"
  shows "\<exists>cfg n att mark c pnl long_wins bounty.
    acc_data (w (ai_key (accounts ! 1))) = DConfig cfg \<and> acc_data (w (ai_key (accounts ! 5))) = DNonce n \<and>
    fetch_attestation e (accounts ! 2) (attestation_signer cfg) off = Inr att \<and>
    att_market_id att = ic_market_id inst \<and> last_accepted_cre_nonce n < nonce att \<and>
    breach_pmlc_pubkey att = Inr (key_bytes (ai_key (accounts ! 4))) \<and> breach_mark_fp att = Inr mark \<and>
    c = unat (collateral_per_side p) \<and>
    pnl = tdiv ((int (unat mark) - int (unat (entry_price_fp p))) * sint (size_fp p)) (10 ^ 18) \<and>
    min (equity_value c pnl) (equity_value c (- pnl)) \<le> c * unat (liquidation_bps inst) div 10000 \<and>
    long_wins = (equity_value c pnl > equity_value c (- pnl)) \<and>
    bounty = c * unat (liquidation_bounty_bps inst) div 10000 \<and>
    side_settled w w' (ai_key (accounts ! 6)) (long_owner p) c (if long_wins then 2 * c - bounty else 0) \<and>
    side_settled w w' (ai_key (accounts ! 7)) (short_owner p) c (if long_wins then 0 else 2 * c - bounty) \<and>
    (0 < bounty \<longrightarrow> free_credited w w' (ai_key (accounts ! 8)) bounty)"
proof -
  from run obtain cfg inst' att n n' mark where
    cfg: "acc_data (w (ai_key (accounts ! 1))) = DConfig cfg"
    and inst': "acc_data (w (ai_key (accounts ! 3))) = DInstrument inst'"
    and att: "fetch_attestation e (accounts ! 2) (attestation_signer cfg) off = Inr att"
      "check_breach e att (ai_key (accounts ! 4)) = Inr ()" "breach_mark_fp att = Inr mark"
    and n: "acc_data (w (ai_key (accounts ! 5))) = DNonce n" "accept_breach e att inst' n = (Inr (), n')"
    and settle: "liquidate_settle e inst' (accounts ! 3) (accounts ! 4) (accounts ! 6) (accounts ! 7) (accounts ! 8) mark
       (set_data (ai_key (accounts ! 5)) (DNonce n') w) = (Inr u, w')" (is "_ (set_data ?k ?d w) = _")
    by (rule liquidate_checks)
  let ?w1 = "set_data ?k ?d w" and ?c = "unat (collateral_per_side p)"
  from inst inst' have [simp]: "inst' = inst" by simp
  have "acc_data (?w1 (ai_key (accounts ! 4))) = DPmlc p" using p n by auto
  from liquidate_settle_pays [OF settle this c _ keeper] bps obtain lw b where
    out: "liquidation_outcome p inst mark = Inr (lw, b)"
    and l: "side_settled ?w1 w' (ai_key (accounts ! 6)) (long_owner p) (unat (collateral_per_side p))
       (if lw then 2 * unat (collateral_per_side p) - unat b else 0)"
    and s: "side_settled ?w1 w' (ai_key (accounts ! 7)) (short_owner p) (unat (collateral_per_side p))
       (if lw then 0 else 2 * unat (collateral_per_side p) - unat b)"
    and k: "0 < b \<longrightarrow> free_credited ?w1 w' (ai_key (accounts ! 8)) (unat b)"
    by auto
  have same: "margin_at ?w1 j = Some m \<Longrightarrow> margin_at w j = Some m" for j m
    by (auto simp: margin_at_def split: if_splits)
  note spec = liquidation_outcome_spec [OF out c bps]
  have "att_market_id att = ic_market_id inst" "last_accepted_cre_nonce n < nonce att"
    using n(2) by (auto simp: accept_breach_def accept_nonce_def ok_iff)
  moreover have "breach_pmlc_pubkey att = Inr (key_bytes (ai_key (accounts ! 4)))"
    using att(2) by (auto simp: check_breach_def ok_iff split: if_splits)
  moreover have "side_settled w w' (ai_key (accounts ! 6)) (long_owner p) (unat (collateral_per_side p))
       (if lw then 2 * unat (collateral_per_side p) - unat b else 0)"
    "side_settled w w' (ai_key (accounts ! 7)) (short_owner p) (unat (collateral_per_side p))
       (if lw then 0 else 2 * unat (collateral_per_side p) - unat b)"
    "0 < unat b \<longrightarrow> free_credited w w' (ai_key (accounts ! 8)) (unat b)"
    using side_settled_from [OF same l] side_settled_from [OF same s] k free_credited_from [OF same]
    by (simp_all add: word_less_nat_alt)
  ultimately show ?thesis
    using cfg n(1) att(1,3) spec
    by (intro exI [of _ cfg] exI [of _ n] exI [of _ att] exI [of _ mark] exI [of _ lw])
      (simp only: simp_thms ex_simps)
qed

lemma ex_pmlc_size: "size_fp ex_pmlc = 20000" "entry_price_fp ex_pmlc = 500000000000000000"
  by (simp_all add: ex_pmlc_def size_fp_def)

lemma liquidate_pays_winner_witness:
  "let w' = snd (process_liquidate (ex_oracle ex_breach) ex_liquidate_accounts 0 ex_w_settle) in
     side_settled ex_w_settle w' (ex_margin_key (sk 1)) (sk 1) 1000 0 \<and>
     side_settled ex_w_settle w' (ex_margin_key (sk 2)) (sk 2) 1000 1990 \<and>
     free_credited ex_w_settle w' (ex_margin_key (sk 3)) 10"
proof -
  obtain w' where run: "process_liquidate (ex_oracle ex_breach) ex_liquidate_accounts 0 ex_w_settle = (Inr (), w')"
    using ex_liquidate_runs by (metis prod.collapse)
  have pnl: "tdiv (- 1000000000000000000000) 1000000000000000000 = - 1000"
    by (simp add: tdiv_def)
  have eq: "equity_value 1000 (- 1000) = 0" "equity_value 1000 1000 = 2000"
    by (simp_all add: equity_value_def)
  have keys: "ai_key (ex_liquidate_accounts ! 1) = sk 20" "ai_key (ex_liquidate_accounts ! 3) = sk 21"
    "ai_key (ex_liquidate_accounts ! 4) = ex_pmlc_key" "ai_key (ex_liquidate_accounts ! 5) = ex_nonce_key"
    "ai_key (ex_liquidate_accounts ! 6) = ex_margin_key (sk 1)"
    "ai_key (ex_liquidate_accounts ! 7) = ex_margin_key (sk 2)"
    "ai_key (ex_liquidate_accounts ! 8) = ex_margin_key (sk 3)"
    by (simp_all add: ex_liquidate_accounts_def ai_of_def)
  have "acc_data (ex_w_settle (ai_key (ex_liquidate_accounts ! 3))) = DInstrument ex_instrument"
    "acc_data (ex_w_settle (ai_key (ex_liquidate_accounts ! 4))) = DPmlc ex_pmlc"
    by (simp_all add: keys owned_by_def)
  from liquidate_pays_winner [OF run this] show ?thesis
    unfolding run snd_conv Let_def
    by (simp only: keys ex_pmlc_fields ex_instrument_fields ex_keys ex_world_settle ex_breach_fields ex_pmlc_size)
      (simp add: owned_by_def ex_config_def new_program_config_def ex_breach_fields pnl eq)
qed

section \<open>Resolution\<close>

definition ex_resolution :: "u8 list" where
  "ex_resolution = ex_att 2 ([16, 39] @ replicate 46 0)"

definition ex_resolve_accounts :: "account_info list" where
  "ex_resolve_accounts = map ai_of [sk 3, sk 20, sk 5, sk 21, ex_pmlc_key, ex_nonce_key,
     ex_margin_key (sk 1), ex_margin_key (sk 2)]"

lemma ex_resolution_fields:
  "fetch_attestation (ex_oracle ex_resolution) ai ex_signer off = Inr (Attestation ex_resolution)"
  "attestation_type (Attestation ex_resolution) = 2"
  "att_market_id (Attestation ex_resolution) = ex_market"
  "timestamp (Attestation ex_resolution) = 999900"
  "nonce (Attestation ex_resolution) = 5"
  "att_final_outcome_bps (Attestation ex_resolution) = Inr 10000"
proof -
  have "length ([16, 39 :: u8] @ replicate 46 0) = 48" by simp
  note f = ex_att_fields [OF this, of 2, folded ex_resolution_def]
  show "fetch_attestation (ex_oracle ex_resolution) ai ex_signer off = Inr (Attestation ex_resolution)"
    "attestation_type (Attestation ex_resolution) = 2" "att_market_id (Attestation ex_resolution) = ex_market"
    "timestamp (Attestation ex_resolution) = 999900" "nonce (Attestation ex_resolution) = 5"
    by (rule f)+
  show "att_final_outcome_bps (Attestation ex_resolution) = Inr 10000"
    using f(2) f(6) [of 0 2]
    by (simp add: att_final_outcome_bps_def try_res_def require_type_def ATT_TYPE_RESOLUTION_def
      array_ref_def from_le_bytes_def)
qed

lemma ex_resolve_runs: "fst (process_resolve (ex_oracle ex_resolution) ex_resolve_accounts 0 ex_w_settle) = Inr ()"
  by (simp add: process_resolve_def resolve_settle_def exec_defs load_defs ex_resolve_accounts_def ai_of_def
    ex_resolution_fields att_consts unpaused_config_def owned_by_def ex_config_def new_program_config_def
    validate_margin_pda_def is_margin_of_def accept_resolution_def accept_nonce_def
    validate_freshness_and_nonce_def ex_margin_def new_margin_account_def resolution_mark_def resolution_pnl_def
    live_pmlc_def require_live_def pmlc_consts settle_sides_def settle_side_def close_position_def two_sided_def
    bounded_equity_def saturating_add_s_def saturating_mul_s_def saturate_signed_def clamp_s_def saturating_mul_def
    saturating_sub_def debit_locked_def credit_free_def update_checked_def checked_sub_def checked_add_def
    checked_sub_s_def checked_signed_def in_signed_range_def add_pnl_def new_market_nonce_def
    del: seed_nonce_bytes)

text \<open>The long side's share of the pot at a final outcome: nothing at 0, everything at 10000, else the
  bounded equity at one half.\<close>

definition resolution_share :: "pmlc \<Rightarrow> u16 \<Rightarrow> nat" where
  "resolution_share p outcome =
     (let c = unat (collateral_per_side p) in
      if outcome = 0 then 0 else if outcome = 10000 then 2 * c
      else equity_value c (tdiv ((5 * 10 ^ 17 - int (unat (entry_price_fp p))) * sint (size_fp p)) (10 ^ 18)))"

lemma resolution_pnl_share:
  assumes "resolution_mark outcome = Inr final" "resolution_pnl p outcome final = Inr pnl"
    and c: "unat (collateral_per_side p) < 2 ^ 63"
  shows "equity_value (unat (collateral_per_side p)) (sint pnl) = resolution_share p outcome"
proof -
  let ?c = "collateral_per_side p"
  have "int (unat ?c) < 2 ^ 63" using c by (metis of_nat_less_numeral_power_cancel_iff)
  then have two: "sint (saturating_mul_s (ucast ?c) 2 :: i128) = 2 * int (unat ?c)"
    by (simp add: saturating_mul_s_def sint_saturate_signed max_def min_def)
  have neg: "sint (- saturating_mul_s (ucast ?c) 2 :: i128) = - (2 * int (unat ?c))"
  proof -
    have "in_signed_range LENGTH(128) (- (2 * int (unat ?c)))"
      using \<open>int (unat ?c) < 2 ^ 63\<close> by (auto simp: in_signed_range_def intro: le_less_trans [of _ 0])
    from sint_word_of_int_in_range [OF this] show ?thesis
      by (metis two wi_hom_neg word_of_sint)
  qed
  have half: "int (unat (PRICE_ONE div 2)) = 5 * 10 ^ 17" by (simp add: PRICE_ONE_def)
  have "equity_value n (- (2 * int n)) = 0" "equity_value n (2 * int n) = 2 * n" for n
    by (simp_all add: equity_value_def)
  note ends = this [of "unat ?c"]
  consider "outcome = 0" "pnl = - saturating_mul_s (ucast ?c) 2"
    | "outcome = 10000" "pnl = saturating_mul_s (ucast ?c) 2"
    | "outcome \<noteq> 0" "outcome \<noteq> 10000" "pnl_long_atoms (entry_price_fp p) (PRICE_ONE div 2) (size_fp p) = Inr pnl"
    using assms(1,2) by (auto simp: resolution_mark_def resolution_pnl_def split: if_splits)
  then show ?thesis
  proof cases
    case 1
    then show ?thesis by (simp only: neg ends resolution_share_def Let_def simp_thms if_True)
  next
    case 2
    then show ?thesis by (simp only: two ends resolution_share_def Let_def) simp
  next
    case 3
    from 3(3) have "sint pnl = tdiv ((5 * 10 ^ 17 - int (unat (entry_price_fp p))) * sint (size_fp p)) (10 ^ 18)"
      by (simp only: pnl_long_atoms_ok half)
    with 3(1,2) show ?thesis by (simp only: resolution_share_def Let_def if_False)
  qed
qed

text \<open>
  C6. A successful resolution was authorised by a fresh resolution attestation of the configured
  signer for the instrument's market with an unused nonce. It closes a live position as resolved:
  each side gives up its locked collateral \<open>c\<close>, the long side receives the share its outcome
  prescribes and the short side the rest of the \<open>2c\<close>, so that the collateral of any set of
  accounts holding both is unchanged.
\<close>

theorem resolve_settles:
  assumes run: "process_resolve e accounts off w = (Inr u, w')"
    and p: "acc_data (w (ai_key (accounts ! 4))) = DPmlc p"
    and c: "unat (collateral_per_side p) < 2 ^ 63"
    and K: "finite K" "ai_key (accounts ! 6) \<in> K" "ai_key (accounts ! 7) \<in> K"
  shows "\<exists>cfg n inst att outcome c share.
    acc_data (w (ai_key (accounts ! 1))) = DConfig cfg \<and> acc_data (w (ai_key (accounts ! 5))) = DNonce n \<and>
    acc_data (w (ai_key (accounts ! 3))) = DInstrument inst \<and>
    fetch_attestation e (accounts ! 2) (attestation_signer cfg) off = Inr att \<and>
    att_market_id att = ic_market_id inst \<and> last_accepted_cre_nonce n < nonce att \<and>
    att_final_outcome_bps att = Inr outcome \<and> pm_status p = PMLC_STATUS_LIVE \<and>
    c = unat (collateral_per_side p) \<and> share = resolution_share p outcome \<and> share \<le> 2 * c \<and>
    side_settled w w' (ai_key (accounts ! 6)) (long_owner p) c share \<and>
    side_settled w w' (ai_key (accounts ! 7)) (short_owner p) c (2 * c - share) \<and>
    collateral_of w' K = collateral_of w K \<and>
    acc_data (w' (ai_key (accounts ! 4))) = DPmlc (p\<lparr> pm_status := PMLC_STATUS_RESOLVED,
      close_reason := CLOSE_REASON_RESOLVED, last_mark_slot := clock_slot e \<rparr>)"
proof -
  let ?c = "unat (collateral_per_side p)"
  from run obtain cfg inst att n n' outcome where
    cfg: "acc_data (w (ai_key (accounts ! 1))) = DConfig cfg"
    and inst: "acc_data (w (ai_key (accounts ! 3))) = DInstrument inst"
    and att: "fetch_attestation e (accounts ! 2) (attestation_signer cfg) off = Inr att"
      "att_final_outcome_bps att = Inr outcome"
    and n: "acc_data (w (ai_key (accounts ! 5))) = DNonce n" "accept_resolution e att inst n = (Inr (), n')"
    and settle: "resolve_settle e inst (accounts ! 3) (accounts ! 4) (accounts ! 6) (accounts ! 7) outcome
       (set_data (ai_key (accounts ! 5)) (DNonce n') w) = (Inr u, w')" (is "_ (set_data ?k ?d w) = _")
    by (rule resolve_checks)
  let ?w1 = "set_data ?k ?d w"
  have p1: "acc_data (?w1 (ai_key (accounts ! 4))) = DPmlc p" using p n by auto
  with settle obtain pnl w2 final where
    mark: "resolution_mark outcome = Inr final" "resolution_pnl p outcome final = Inr pnl"
    and live: "pm_status p = PMLC_STATUS_LIVE"
    and v: "validate_margin_pda e (accounts ! 6) (long_owner p) (ic_mint inst) ?w1 = (Inr (), ?w1)"
      "validate_margin_pda e (accounts ! 7) (short_owner p) (ic_mint inst) ?w1 = (Inr (), ?w1)"
    and s: "settle_sides (accounts ! 6) (accounts ! 7) (collateral_per_side p)
      (two_sided (collateral_per_side p) pnl) ?w1 = (Inr (), w2)"
    and k: "edit_acct load_pmlc DPmlc (accounts ! 4) (close_position e PMLC_STATUS_RESOLVED CLOSE_REASON_RESOLVED) w2
      = (Inr u, w')"
    by (auto elim!: resolve_settle_run)
  note share = resolution_pnl_share [OF mark c]
  note close = settle_and_close [OF s k p1 c K]
  have same: "margin_at ?w1 j = Some m \<Longrightarrow> margin_at w j = Some m" for j m
    by (auto simp: margin_at_def split: if_splits)
  note sides = settle_and_close_sides [OF s k p1 v, THEN side_settled_from [OF same, rotated], simplified]
  have "att_market_id att = ic_market_id inst" "last_accepted_cre_nonce n < nonce att"
    using n(2) by (auto simp: accept_resolution_def accept_nonce_def ok_iff)
  moreover have "collateral_of ?w1 K = collateral_of w K"
    by (rule collateral_of_set_other) (use n in \<open>simp_all add: margin_at_def\<close>)
  moreover have "unat (fst (two_sided (collateral_per_side p) pnl)) = resolution_share p outcome"
    "unat (snd (two_sided (collateral_per_side p) pnl)) = 2 * ?c - resolution_share p outcome"
    "resolution_share p outcome \<le> 2 * ?c"
    using two_sided_spec [OF c, of pnl] share by simp_all
  ultimately show ?thesis
    using cfg inst n(1) att live sides close
    by (intro exI [of _ cfg] exI [of _ n] exI [of _ inst] exI [of _ att] exI [of _ outcome])
      (simp only: simp_thms ex_simps)
qed

lemma resolve_settles_witness:
  "let w' = snd (process_resolve (ex_oracle ex_resolution) ex_resolve_accounts 0 ex_w_settle) in
     side_settled ex_w_settle w' (ex_margin_key (sk 1)) (sk 1) 1000 2000 \<and>
     side_settled ex_w_settle w' (ex_margin_key (sk 2)) (sk 2) 1000 0"
proof -
  obtain w' where run: "process_resolve (ex_oracle ex_resolution) ex_resolve_accounts 0 ex_w_settle = (Inr (), w')"
    using ex_resolve_runs by (metis prod.collapse)
  have keys: "ai_key (ex_resolve_accounts ! 1) = sk 20" "ai_key (ex_resolve_accounts ! 3) = sk 21"
    "ai_key (ex_resolve_accounts ! 4) = ex_pmlc_key" "ai_key (ex_resolve_accounts ! 5) = ex_nonce_key"
    "ai_key (ex_resolve_accounts ! 6) = ex_margin_key (sk 1)"
    "ai_key (ex_resolve_accounts ! 7) = ex_margin_key (sk 2)"
    by (simp_all add: ex_resolve_accounts_def ai_of_def)
  have share: "resolution_share ex_pmlc 10000 = 2000" by (simp add: resolution_share_def)
  have p: "acc_data (ex_w_settle (ai_key (ex_resolve_accounts ! 4))) = DPmlc ex_pmlc"
    by (simp add: keys owned_by_def)
  from resolve_settles [OF run p, of "{ex_margin_key (sk 1), ex_margin_key (sk 2)}"] show ?thesis
    unfolding run snd_conv Let_def
    by (simp only: keys ex_pmlc_fields ex_keys ex_world_settle)
      (auto simp: owned_by_def ex_config_def new_program_config_def ex_resolution_fields share)
qed

section \<open>Mutual close\<close>

definition ex_twap :: "u8 list" where
  "ex_twap = ex_att 1 (to_le_bytes (501000000000000000 :: u64) @ to_le_bytes (150 :: u64) @ replicate 32 0)"

definition ex_mutual_accounts :: "account_info list" where
  "ex_mutual_accounts = map ai_of [sk 1, sk 2, sk 20, sk 5, sk 21, ex_pmlc_key, ex_nonce_key,
     ex_margin_key (sk 1), ex_margin_key (sk 2)]"

lemma ex_twap_fields:
  "fetch_attestation (ex_oracle ex_twap) ai ex_signer off = Inr (Attestation ex_twap)"
  "attestation_type (Attestation ex_twap) = 1"
  "att_market_id (Attestation ex_twap) = ex_market"
  "timestamp (Attestation ex_twap) = 999900"
  "nonce (Attestation ex_twap) = 5"
  "price_fp (Attestation ex_twap) = Inr 501000000000000000"
  "att_twap_window_slots (Attestation ex_twap) = Inr 150"
proof -
  let ?p = "to_le_bytes (501000000000000000 :: u64) @ to_le_bytes (150 :: u64) @ replicate 32 0"
  have "length ?p = 48" by simp
  note f = ex_att_fields [OF this, of 1, folded ex_twap_def]
  show "fetch_attestation (ex_oracle ex_twap) ai ex_signer off = Inr (Attestation ex_twap)"
    "attestation_type (Attestation ex_twap) = 1" "att_market_id (Attestation ex_twap) = ex_market"
    "timestamp (Attestation ex_twap) = 999900" "nonce (Attestation ex_twap) = 5"
    by (rule f)+
  show "price_fp (Attestation ex_twap) = Inr 501000000000000000"
    "att_twap_window_slots (Attestation ex_twap) = Inr 150"
    using f(2) f(6) [of 0 8] f(6) [of 8 8]
    by (simp_all add: price_fp_def att_twap_window_slots_def try_res_def require_type_def ATT_TYPE_PRICE_TWAP_def
      array_ref_skip array_ref_hit)
qed

lemma ex_mutual_runs: "fst (process_close_mutual (ex_oracle ex_twap) ex_mutual_accounts 0 ex_w_settle) = Inr ()"
proof -
  have "pnl_long_atoms (entry_price_fp ex_pmlc) 501000000000000000 (size_fp ex_pmlc) = Inr 20"
    by (simp add: ex_pmlc_size pnl_long_atoms_def checked_mul_s_def checked_div_s_def checked_signed_def
      in_signed_range_def tdiv_def PRICE_ONE_U128_def PRICE_ONE_def Let_def run_defs ok_or_err_def)
  then show ?thesis
  by (simp add: process_close_mutual_def close_mutual_settle_def exec_defs load_defs ex_mutual_accounts_def ai_of_def
    ex_twap_fields att_consts unpaused_config_def owned_by_def ex_config_def new_program_config_def
    validate_margin_pda_def is_margin_of_def accept_twap_def accept_nonce_def
    validate_freshness_and_nonce_def ex_margin_def new_margin_account_def
    live_pmlc_def require_live_def pmlc_consts settle_sides_def settle_side_def close_position_def two_sided_def
    bounded_equity_def saturating_add_s_def saturating_mul_s_def saturate_signed_def clamp_s_def saturating_mul_def
    saturating_sub_def debit_locked_def credit_free_def update_checked_def checked_sub_def checked_add_def
    checked_sub_s_def checked_signed_def in_signed_range_def add_pnl_def new_market_nonce_def
    del: seed_nonce_bytes)
qed

text \<open>
  C7. A successful mutual close was signed by both owners of the live position and authorised by a
  fresh price attestation of the configured signer for the instrument's market with an unused
  nonce and the instrument's window. Each side gives up its locked collateral \<open>c\<close> and receives its
  bounded equity at the attested mark, the two equities add up to \<open>2c\<close>, the collateral of any set
  of accounts holding both is unchanged, and the position ends closed.
\<close>

theorem close_mutual_settles:
  assumes run: "process_close_mutual e accounts off w = (Inr u, w')"
    and p: "acc_data (w (ai_key (accounts ! 5))) = DPmlc p"
    and c: "unat (collateral_per_side p) < 2 ^ 63"
    and K: "finite K" "ai_key (accounts ! 7) \<in> K" "ai_key (accounts ! 8) \<in> K"
  shows "\<exists>cfg n inst att mark c pnl.
    is_signer (accounts ! 0) \<and> ai_key (accounts ! 0) = long_owner p \<and>
    is_signer (accounts ! 1) \<and> ai_key (accounts ! 1) = short_owner p \<and>
    acc_data (w (ai_key (accounts ! 2))) = DConfig cfg \<and> acc_data (w (ai_key (accounts ! 6))) = DNonce n \<and>
    acc_data (w (ai_key (accounts ! 4))) = DInstrument inst \<and>
    fetch_attestation e (accounts ! 3) (attestation_signer cfg) off = Inr att \<and>
    att_market_id att = ic_market_id inst \<and> last_accepted_cre_nonce n < nonce att \<and>
    price_fp att = Inr mark \<and> pm_status p = PMLC_STATUS_LIVE \<and>
    c = unat (collateral_per_side p) \<and>
    pnl = tdiv ((int (unat mark) - int (unat (entry_price_fp p))) * sint (size_fp p)) (10 ^ 18) \<and>
    side_settled w w' (ai_key (accounts ! 7)) (long_owner p) c (equity_value c pnl) \<and>
    side_settled w w' (ai_key (accounts ! 8)) (short_owner p) c (equity_value c (- pnl)) \<and>
    equity_value c pnl + equity_value c (- pnl) = 2 * c \<and>
    collateral_of w' K = collateral_of w K \<and>
    acc_data (w' (ai_key (accounts ! 5))) = DPmlc (p\<lparr> pm_status := PMLC_STATUS_CLOSED,
      close_reason := CLOSE_REASON_MUTUAL, last_mark_slot := clock_slot e \<rparr>)"
proof -
  let ?c = "unat (collateral_per_side p)"
  from run obtain cfg inst att n n' mark where
    sig: "is_signer (accounts ! 0)" "is_signer (accounts ! 1)"
    and cfg: "acc_data (w (ai_key (accounts ! 2))) = DConfig cfg"
    and inst: "acc_data (w (ai_key (accounts ! 4))) = DInstrument inst"
    and att: "fetch_attestation e (accounts ! 3) (attestation_signer cfg) off = Inr att" "price_fp att = Inr mark"
    and n: "acc_data (w (ai_key (accounts ! 6))) = DNonce n" "accept_twap e att inst n = (Inr (), n')"
    and settle: "close_mutual_settle e inst accounts mark
       (set_data (ai_key (accounts ! 6)) (DNonce n') w) = (Inr u, w')" (is "_ (set_data ?k ?d w) = _")
    by (rule close_mutual_checks)
  let ?w1 = "set_data ?k ?d w"
  have p1: "acc_data (?w1 (ai_key (accounts ! 5))) = DPmlc p" using p n by auto
  with settle obtain x w2 where
    live: "pm_status p = PMLC_STATUS_LIVE"
    and own: "long_owner p = ai_key (accounts ! 0)" "short_owner p = ai_key (accounts ! 1)"
    and x: "pnl_long_atoms (entry_price_fp p) mark (size_fp p) = Inr x"
    and v: "validate_margin_pda e (accounts ! 7) (long_owner p) (ic_mint inst) ?w1 = (Inr (), ?w1)"
      "validate_margin_pda e (accounts ! 8) (short_owner p) (ic_mint inst) ?w1 = (Inr (), ?w1)"
    and s: "settle_sides (accounts ! 7) (accounts ! 8) (collateral_per_side p)
      (two_sided (collateral_per_side p) x) ?w1 = (Inr (), w2)"
    and k: "edit_acct load_pmlc DPmlc (accounts ! 5) (close_position e PMLC_STATUS_CLOSED CLOSE_REASON_MUTUAL) w2
      = (Inr u, w')"
    by (auto elim!: close_mutual_settle_run)
  have same: "margin_at ?w1 j = Some m \<Longrightarrow> margin_at w j = Some m" for j m
    by (auto simp: margin_at_def split: if_splits)
  note close = settle_and_close [OF s k p1 c K]
  note sides = settle_and_close_sides [OF s k p1 v, THEN side_settled_from [OF same, rotated], simplified]
  have "att_market_id att = ic_market_id inst" "last_accepted_cre_nonce n < nonce att"
    using n(2) by (auto simp: accept_twap_def accept_nonce_def ok_iff)
  moreover have "collateral_of ?w1 K = collateral_of w K"
    by (rule collateral_of_set_other) (use n in \<open>simp_all add: margin_at_def\<close>)
  moreover have pnl: "sint x = tdiv ((int (unat mark) - int (unat (entry_price_fp p))) * sint (size_fp p)) (10 ^ 18)"
    using x by (simp only: pnl_long_atoms_ok)
  note amounts = two_sided_spec(1,2) [OF c, of x] equity_value_sum [of ?c "sint x"]
  ultimately show ?thesis
    using sig own [symmetric] cfg inst n(1) att live sides close amounts unfolding pnl
    by (intro exI [of _ cfg] exI [of _ n] exI [of _ inst] exI [of _ att] exI [of _ mark])
      (simp only: simp_thms ex_simps)
qed

lemma close_mutual_settles_witness:
  "let w' = snd (process_close_mutual (ex_oracle ex_twap) ex_mutual_accounts 0 ex_w_settle) in
     side_settled ex_w_settle w' (ex_margin_key (sk 1)) (sk 1) 1000 1020 \<and>
     side_settled ex_w_settle w' (ex_margin_key (sk 2)) (sk 2) 1000 980"
proof -
  obtain w' where run: "process_close_mutual (ex_oracle ex_twap) ex_mutual_accounts 0 ex_w_settle = (Inr (), w')"
    using ex_mutual_runs by (metis prod.collapse)
  have keys: "ai_key (ex_mutual_accounts ! 0) = sk 1" "ai_key (ex_mutual_accounts ! 1) = sk 2"
    "ai_key (ex_mutual_accounts ! 2) = sk 20" "ai_key (ex_mutual_accounts ! 4) = sk 21"
    "ai_key (ex_mutual_accounts ! 5) = ex_pmlc_key" "ai_key (ex_mutual_accounts ! 6) = ex_nonce_key"
    "ai_key (ex_mutual_accounts ! 7) = ex_margin_key (sk 1)"
    "ai_key (ex_mutual_accounts ! 8) = ex_margin_key (sk 2)"
    by (simp_all add: ex_mutual_accounts_def ai_of_def)
  have pnl: "tdiv 20000000000000000000 1000000000000000000 = 20" by (simp add: tdiv_def)
  have eq: "equity_value 1000 20 = 1020" "equity_value 1000 (- 20) = 980"
    by (simp_all add: equity_value_def)
  have p: "acc_data (ex_w_settle (ai_key (ex_mutual_accounts ! 5))) = DPmlc ex_pmlc"
    by (simp add: keys owned_by_def)
  from close_mutual_settles [OF run p, of "{ex_margin_key (sk 1), ex_margin_key (sk 2)}"] show ?thesis
    unfolding run snd_conv Let_def
    by (simp only: keys ex_pmlc_fields ex_keys ex_world_settle ex_pmlc_size)
      (auto simp: owned_by_def ex_config_def new_program_config_def ex_twap_fields pnl eq)
qed

section \<open>An unbounded bounty\<close>

definition ex_generous :: instrument_config where
  "ex_generous = ex_instrument\<lparr> liquidation_bounty_bps := 30000 \<rparr>"

definition ex_w_generous :: world where
  "ex_w_generous = ex_w_settle(sk 21 := owned_by (sk 9) (DInstrument ex_generous))"

lemma ex_generous_outcome: "liquidation_outcome ex_pmlc ex_generous 450000000000000000 = Inr (False, 3000)"
  by (simp add: ex_generous_def liquidation_outcome_def ex_pmlc_def ex_instrument_def pnl_long_atoms_def size_fp_def
    checked_mul_s_def checked_div_s_def checked_signed_def in_signed_range_def tdiv_def PRICE_ONE_U128_def PRICE_ONE_def Let_def
    bps_share_def BPS_DENOM_def two_sided_def bounded_equity_def run_defs ok_or_err_def no_panic_def checked_mul_def
   saturating_mul_def saturating_sub_def saturating_add_s_def saturating_mul_s_def saturate_signed_def clamp_s_def check_def)

lemma ex_generous_fields [simp]:
  "ic_market_id ex_generous = ex_market" "ic_mint ex_generous = sk 7" "max_staleness_secs ex_generous = 300"
  by (simp_all add: ex_generous_def)

lemma ex_generous_runs:
  "\<exists>w'. process_liquidate (ex_oracle ex_breach) ex_liquidate_accounts 0 ex_w_generous = (Inr (), w') \<and>
     collateral_of w' {ex_margin_key (sk 1), ex_margin_key (sk 2), ex_margin_key (sk 3)} = 3560"
  by (simp add: process_liquidate_def att_consts ex_generous_outcome pmlc_consts ex_w_generous_def
   live_pmlc_def edit_margins_def close_position_def liquidation_transfer_def on_long_def on_short_def require_live_def is_margin_of_def liquidate_settle_def exec_defs load_defs ex_liquidate_accounts_def ai_of_def ex_breach_fields
   unpaused_config_def owned_by_def ex_config_def new_program_config_def validate_margin_pda_def check_breach_def
   accept_breach_def accept_nonce_def validate_freshness_and_nonce_def ex_margin_def new_margin_account_def
   debit_locked_def credit_free_def update_checked_def checked_sub_def checked_add_def saturating_mul_def saturating_sub_def add_pnl_def sub_pnl_def
   new_market_nonce_def del: seed_nonce_bytes)
    (simp add: collateral_of_def collateral_at_def margin_at_def margin_total_def)
text \<open>
  C9. Nothing bounds the bounty an instrument can be created with: there is an instrument that
  \<open>init\<close> accepts and a successful liquidation under it after which the accounts involved hold more
  collateral than before, at the expense of the vault.
\<close>

theorem liquidation_can_create_collateral:
  "\<exists>src mk ta tb mint book lev bucket window tick liq bounty stale reference bump inst e accounts off w w' K.
     instrument_init src mk ta tb mint book lev bucket window tick liq bounty stale reference bump = Inr inst \<and>
     acc_data (w (ai_key (accounts ! 3))) = DInstrument inst \<and>
     process_liquidate e accounts off w = (Inr (), w') \<and> owned_frame e \<and>
     K = ai_key ` set [accounts ! 6, accounts ! 7, accounts ! 8] \<and>
     collateral_of w K < collateral_of w' K"
proof -
  have init: "instrument_init 3 ex_market [] [] (sk 7) (sk 23) 100000 1000 150 1000000000000000 500 30000 300 1 255 =
      Inr ex_generous"
    by (simp add: instrument_init_def ex_generous_def ex_instrument_def validate_bucket_config_def
      ALLOWED_LEVERAGE_BPS_def is_known_def PYTH_def POLYMARKET_def STATUS_ACTIVE_def try_res_def)
  let ?K = "{ex_margin_key (sk 1), ex_margin_key (sk 2), ex_margin_key (sk 3)}"
  obtain w' where run: "process_liquidate (ex_oracle ex_breach) ex_liquidate_accounts 0 ex_w_generous = (Inr (), w')"
    and after: "collateral_of w' ?K = 3560"
    using ex_generous_runs by blast
  have "collateral_of ex_w_generous ?K = 2560"
    by (simp add: collateral_of_def collateral_at_def margin_at_def owned_by_def margin_total_def
        ex_margin_def new_margin_account_def ex_w_generous_def)
  moreover have "owned_frame (ex_oracle ex_breach)"
    using ex_owned_frame by (simp add: owned_frame_def ex_oracle_def)
  moreover have "acc_data (ex_w_generous (ai_key (ex_liquidate_accounts ! 3))) = DInstrument ex_generous"
    "?K = ai_key ` set [ex_liquidate_accounts ! 6, ex_liquidate_accounts ! 7, ex_liquidate_accounts ! 8]"
    by (auto simp: ex_liquidate_accounts_def ai_of_def ex_w_generous_def owned_by_def)
  ultimately show ?thesis using init run after
    by (intro exI conjI) (assumption | simp)+
qed

end
