(* ===== verification/Conservation.thy ===== *)
theory Conservation
  imports Ledger_View Dispatch
begin

text \<open>
  Conservation of what the program owes. \<open>held\<close> is what an account of the program stands for:
  the three buckets of a margin account, or the unswept fees of a treasury. \<open>transfers e K d w w'\<close>
  says that the total held over the keys \<open>K\<close> changed by exactly \<open>d\<close> and that no account left the
  program. It composes, so a handler conserves what it holds when each of its steps does; the
  rules for the combinators and the account operations are in the collection \<open>conserving\<close>.
\<close>

named_theorems conserving \<open>introduction rules for conserves\<close>

section \<open>What an account holds\<close>

primrec held :: "acct_data \<Rightarrow> nat" where
  "held (DRaw x) = 0" | "held (DConfig x) = 0" | "held (DMargin x) = margin_total x"
| "held (DInstrument x) = 0" | "held (DBook x) = 0" | "held (DPmlc x) = 0" | "held (DNonce x) = 0"
| "held (DFeeSchedule x) = 0" | "held (DUserVolume x) = 0"
| "held (DTreasury x) = unat (accrued_atoms x)" | "held (DTimelock x) = 0"
| "held (DMultisig x) = 0" | "held (DBuckets x) = 0" | "held (DStablecoins x) = 0"
| "held (DSession x) = 0"

definition held_at :: "env \<Rightarrow> world \<Rightarrow> pubkey \<Rightarrow> nat" where
  "held_at e w k = (if acc_owner (w k) = program_id e then held (acc_data (w k)) else 0)"

definition held_by :: "env \<Rightarrow> world \<Rightarrow> pubkey set \<Rightarrow> nat" where
  "held_by e w K = (\<Sum>k\<in>K. held_at e w k)"

definition transfers :: "env \<Rightarrow> pubkey set \<Rightarrow> int \<Rightarrow> world \<Rightarrow> world \<Rightarrow> bool" where
  "transfers e K d w w' \<longleftrightarrow>
     (\<forall>k. acc_owner (w k) = program_id e \<longrightarrow> acc_owner (w' k) = program_id e) \<and>
     int (held_by e w' K) = int (held_by e w K) + d"

lemma transfers_refl [simp]: "transfers e K 0 w w"
  by (simp add: transfers_def)

lemma transfers_trans [trans]:
  "transfers e K d w w1 \<Longrightarrow> transfers e K d' w1 w2 \<Longrightarrow> transfers e K (d + d') w w2"
  by (auto simp: transfers_def)

lemma transfers_owner: "transfers e K d w w' \<Longrightarrow> acc_owner (w k) = program_id e \<Longrightarrow> acc_owner (w' k) = program_id e"
  by (simp add: transfers_def)

lemma transfers_0: "transfers e K 0 w w' \<Longrightarrow> held_by e w' K = held_by e w K"
  by (simp add: transfers_def)

lemma transfers_pointwise:
  assumes "\<And>k. acc_owner (w k) = program_id e \<Longrightarrow> acc_owner (w' k) = program_id e"
    and "\<And>k. held_at e w' k = held_at e w k"
  shows "transfers e K 0 w w'"
  using assms by (simp add: transfers_def held_by_def)

lemma held_at_set:
  "held_at e (set_data j d w) k = (if k = j \<and> acc_owner (w k) = program_id e then held d else held_at e w k)"
  by (simp add: held_at_def)

lemma transfers_set_same:
  "held d = held (acc_data (w k)) \<Longrightarrow> transfers e K 0 w (set_data k d w)"
  by (rule transfers_pointwise) (simp_all add: held_at_set held_at_def)

lemma transfers_set:
  assumes "finite K" "k \<in> K" "acc_owner (w k) = program_id e"
    and "int (held d) = int (held (acc_data (w k))) + n"
  shows "transfers e K n w (set_data k d w)"
proof -
  have "held_by e w K = held_at e w k + (\<Sum>j\<in>K - {k}. held_at e w j)"
    using assms by (simp add: held_by_def sum.remove)
  moreover have "held_by e (set_data k d w) K = held_at e (set_data k d w) k + (\<Sum>j\<in>K - {k}. held_at e w j)"
    using assms by (simp add: held_by_def sum.remove held_at_set)
  ultimately show ?thesis
    using assms by (simp add: transfers_def held_at_set held_at_def)
qed

lemma held_disc_0: "discriminator d = 0 \<Longrightarrow> held d = 0"
  by (cases d) auto

lemma transfers_create:
  assumes "owned_frame e" "creates_zeroed e"
    and run: "invoke e (CreateAccount p k l n own) ks sds w = (Inr u, w')"
  shows "transfers e K 0 w w'"
proof (rule transfers_pointwise)
  show "acc_owner (w' j) = program_id e" if "acc_owner (w j) = program_id e" for j
    using owned_frameD [OF assms(1) run that] by simp
next
  fix j
  from assms(2) run have c: "acc_data (w' k) = DRaw (replicate n 0)"
    "\<And>j. j \<noteq> k \<Longrightarrow> acc_owner (w' j) = acc_owner (w j) \<and> acc_data (w' j) = acc_data (w j)"
    unfolding creates_zeroed_def by blast+
  show "held_at e w' j = held_at e w j"
  proof (cases "j = k")
    case True
    then show ?thesis using c(1) owned_frameD [OF assms(1) run, of k] by (auto simp: held_at_def)
  qed (use c(2) in \<open>simp add: held_at_def\<close>)
qed

lemma held_disc: "discriminator d \<noteq> 2 \<Longrightarrow> discriminator d \<noteq> 12 \<Longrightarrow> held d = 0"
  by (cases d) auto

section \<open>Computations that conserve\<close>

definition conserves :: "env \<Rightarrow> pubkey set \<Rightarrow> 'a handler \<Rightarrow> bool" where
  "conserves e K m \<longleftrightarrow> (\<forall>w a w'. m w = (Inr a, w') \<longrightarrow> transfers e K 0 w w')"

lemma conservesD: "conserves e K m \<Longrightarrow> m w = (Inr a, w') \<Longrightarrow> transfers e K 0 w w'"
  by (simp add: conserves_def)

lemma conserves_reads: "reads_only m \<Longrightarrow> conserves e K m"
  unfolding conserves_def by (metis reads_only_ok transfers_refl)

lemma conserves_bnd [conserving]:
  "conserves e K m \<Longrightarrow> (\<And>a. conserves e K (f a)) \<Longrightarrow> conserves e K (bnd m f)"
  unfolding conserves_def by (fastforce simp: bnd_ok dest: transfers_trans)

lemma conserves_seq [conserving]: "conserves e K m \<Longrightarrow> conserves e K k \<Longrightarrow> conserves e K (seq m k)"
  unfolding seq_def by (rule conserves_bnd)

lemma conserves_basic [conserving]:
  "conserves e K (ret a)" "conserves e K (lift r)" "conserves e K (gets g)" "conserves e K (asks h)"
  "conserves e K (require c x)" "conserves e K (fail_with x)"
  by (auto intro!: conserves_reads)

lemma conserves_checks [conserving]:
  "conserves e K (ensure c pe)" "conserves e K (need_accounts n as)" "conserves e K (assert_signers as)"
  "conserves e K (assert_writables as)" "conserves e K (assert_owner p ai)" "conserves e K (assert_owners p as)"
  "conserves e K (check_world P x)" "conserves e K (pda e' s ai)" "conserves e K (read_acct ld ai)"
  by (auto simp: conserves_def ok_iff)

lemma conserves_when [conserving]: "conserves e K m \<Longrightarrow> conserves e K (when_do c m)"
  by (auto simp: conserves_def when_do_ok)

lemma conserves_if [conserving]:
  "conserves e K m \<Longrightarrow> conserves e K k \<Longrightarrow> conserves e K (if c then m else k)"
  by simp

lemma conserves_case_prod [conserving]:
  "(\<And>a b. conserves e K (f a b)) \<Longrightarrow> conserves e K (case p of (a, b) \<Rightarrow> f a b)"
  by (simp split: prod.split)

lemma conserves_option [conserving]:
  "conserves e K m \<Longrightarrow> (\<And>a. conserves e K (f a)) \<Longrightarrow> conserves e K (case x of None \<Rightarrow> m | Some a \<Rightarrow> f a)"
  by (simp split: option.split)

lemma conserves_edit:
  assumes "\<And>r a r'. m r = (Inr a, r') \<Longrightarrow> held (mk r') = held (mk r)"
    and "\<And>d r. ld d = Inr r \<Longrightarrow> d = mk r"
  shows "conserves e K (edit_acct ld mk ai m)"
  unfolding conserves_def edit_acct_ok
proof (intro allI impI, elim exE conjE)
  fix w a w' r r'
  assume "ld (acc_data (w (ai_key ai))) = Inr r" "m r = (Inr a, r')" "w' = set_data (ai_key ai) (mk r') w"
  with assms show "transfers e K 0 w w'" by (metis transfers_set_same)
qed

lemma conserves_edits [conserving]:
  "conserves e K (edit_acct load_config DConfig ai m1)" "conserves e K (edit_acct load_instrument DInstrument ai m2)"
  "conserves e K (edit_acct load_book DBook ai m3)" "conserves e K (edit_acct load_pmlc DPmlc ai m4)"
  "conserves e K (edit_acct load_nonce DNonce ai m5)" "conserves e K (edit_acct load_fee_schedule DFeeSchedule ai m6)"
  "conserves e K (edit_acct load_user_volume DUserVolume ai m7)" "conserves e K (edit_acct load_timelock DTimelock ai m8)"
  "conserves e K (edit_acct load_multisig DMultisig ai m9)" "conserves e K (edit_acct load_buckets DBuckets ai m10)"
  "conserves e K (edit_acct load_stablecoins DStablecoins ai m11)" "conserves e K (edit_acct load_session DSession ai m12)"
  by (rule conserves_edit; simp add: load_oks)+

lemma conserves_margin:
  "(\<And>r a r'. m r = (Inr a, r') \<Longrightarrow> margin_total r' = margin_total r) \<Longrightarrow>
    conserves e K (edit_acct load_margin DMargin ai m)"
  by (rule conserves_edit) (simp_all add: load_oks)

lemma conserves_init:
  "held d = 0 \<Longrightarrow> conserves e K (init_acct len ai d)"
  by (auto simp: conserves_def init_acct_ok held_disc_0 intro!: transfers_set_same)

lemma conserves_create:
  "owned_frame e \<Longrightarrow> creates_zeroed e \<Longrightarrow> conserves e K (create_account e p new sys n own s)"
  unfolding conserves_def create_account_def by (blast intro: transfers_create)

end
