(* ===== verification/Conserving_Handlers.thy ===== *)
theory Conserving_Handlers
  imports Conservation
begin

text \<open>
  The handlers of administration, fees, registries, sessions, margin creation, instruments and
  the stablecoin wrapper conserve what the program holds, each by the introduction rules of
  \<open>conserving\<close>. The second half does the same for the matching core: the taker and the
  maker are debited exactly what the treasury accrues, and what leaves the reserved bucket is
  locked, refunded or charged.
\<close>

lemma conserves_with [conserving]: "(\<And>a. conserves e K (k a)) \<Longrightarrow> conserves e K (with_args d k)"
  by (simp add: with_args_def conserves_basic split: option.split)

lemma conserves_world_bnd [conserving]:
  "conserves e K (authorize_admin_or_multisig e cfg accounts)"
  by (auto simp: authorize_admin_or_multisig_def intro: conserving)

lemma conserves_authorize [conserving]: "conserves e K (authorize_with e ai accounts)"
  unfolding authorize_with_def by (intro conserving)

lemma conserves_require_admin [conserving]: "conserves e K (require_admin ai adm)"
  unfolding require_admin_def by (intro conserving)

lemma conserves_inits [conserving]:
  "conserves e K (init_acct len ai (DConfig x1))" "conserves e K (init_acct len ai (DInstrument x2))"
  "conserves e K (init_acct len ai (DNonce x3))" "conserves e K (init_acct len ai (DFeeSchedule x4))"
  "conserves e K (init_acct len ai (DUserVolume x5))" "conserves e K (init_acct len ai (DMultisig x6))"
  "conserves e K (init_acct len ai (DBuckets x7))" "conserves e K (init_acct len ai (DStablecoins x8))"
  "conserves e K (init_acct len ai (DMargin (new_margin_account k c b)))"
  "conserves e K (init_acct len ai (DTreasury (new_fee_treasury c b)))"
  by (auto intro!: conserves_init simp: margin_total_def new_margin_account_def new_fee_treasury_def)

lemma conserves_admin:
  assumes [conserving]: "\<And>p new sys n own s. conserves e K (create_account e p new sys n own s)"
  shows "conserves e K (process_init_program_config e accounts a1)"
  and "conserves e K (process_set_global_pause e accounts a2)"
  and "conserves e K (process_init_admin_multisig e accounts a3)"
  and "conserves e K (process_rotate_admin_multisig e accounts a3)"
  and "conserves e K (process_execute_set_attestation_signer e accounts a4)"
  and "conserves e K (process_cancel_timelock e accounts a5)"
  and "conserves e K (process_init_fee_schedule e accounts a6)"
  and "conserves e K (process_set_fee_schedule e accounts a6)"
  and "conserves e K (process_init_bucket_registry e accounts a7)"
  and "conserves e K (process_set_bucket_registry e accounts a7)"
  and "conserves e K (process_add_stablecoin_mint e accounts)"
  and "conserves e K (process_remove_stablecoin_mint e accounts)"
  and "conserves e K (process_revoke_session e accounts)"
  and "conserves e K (process_create_margin_account e accounts)"
  and "conserves e K (process_set_instrument_status e accounts p)"
  unfolding process_init_program_config_def process_set_global_pause_def process_init_admin_multisig_def
   process_rotate_admin_multisig_def process_execute_set_attestation_signer_def process_cancel_timelock_def
   process_init_fee_schedule_def process_set_fee_schedule_def process_init_bucket_registry_def process_set_bucket_registry_def
   process_add_stablecoin_mint_def process_remove_stablecoin_mint_def process_revoke_session_def
   process_create_margin_account_def process_set_instrument_status_def create_if_empty_def Let_def
  by (intro conserving)+

section \<open>Handlers that overwrite a fresh account\<close>

lemma transfers_set_zero:
  "held d = 0 \<Longrightarrow> held (acc_data (w k)) = 0 \<Longrightarrow> transfers e K 0 w (set_data k d w)"
  by (simp add: transfers_set_same)

lemma create_zero:
  "creates_zeroed e \<Longrightarrow> create_account e p new sys n own s w = (Inr u, w') \<Longrightarrow> held (acc_data (w' (ai_key new))) = 0"
  by (drule (1) create_accountD(2)) simp

lemma conserves_create_seq:
  assumes "owned_frame e" "creates_zeroed e"
    and m: "\<And>w a w'. held (acc_data (w (ai_key new))) = 0 \<Longrightarrow> m w = (Inr a, w') \<Longrightarrow> transfers e K 0 w w'"
  shows "conserves e K (seq (create_account e p new sys n own s) m)"
  unfolding conserves_def seq_ok
proof (intro allI impI, elim exE conjE)
  fix w a w' u w1
  assume c: "create_account e p new sys n own s w = (Inr u, w1)" and "m w1 = (Inr a, w')"
  then have "transfers e K 0 w1 w'" using m create_zero [OF assms(2) c] by blast
  with conservesD [OF conserves_create [OF assms(1,2)] c, of K] show "transfers e K 0 w w'"
    using transfers_trans [of e K 0 w w1 0 w'] by simp
qed

lemma conserves_propose:
  assumes fr: "owned_frame e" "creates_zeroed e"
  shows "conserves e K (process_propose_set_attestation_signer e accounts args)"
  unfolding process_propose_set_attestation_signer_def Let_def
  by (intro conserving conserves_create_seq [OF fr])
    (auto simp: write_proposal_def ok_iff intro!: transfers_set_zero)

lemma conserves_create_session:
  assumes fr: "owned_frame e" "creates_zeroed e"
  shows "conserves e K (process_create_session e accounts args)"
proof -
  note c [conserving] = conserves_create [OF fr]
  have a: "conserves e K (alloc_or_check_session e owner ai sys b)" for owner ai sys b
    unfolding alloc_or_check_session_def by (intro conserving)
  have z: "held (acc_data (w' (ai_key ai))) = 0"
    if "alloc_or_check_session e owner ai sys b w = (Inr u, w')" for owner ai sys b w u w'
    using that create_zero [OF fr(2)]
    by (auto simp: alloc_or_check_session_def bnd_ok gets_ok read_acct_ok load_oks seq_ok ensure_ok split: if_splits)
  show ?thesis
    unfolding conserves_def
  proof (intro allI impI)
    fix w u w' assume "process_create_session e accounts args w = (Inr u, w')"
    then obtain b w1 s where "alloc_or_check_session e (accounts ! 0) (accounts ! 2) (accounts ! 3) b w = (Inr (), w1)"
      "w' = set_data (ai_key (accounts ! 2)) (DSession s) w1"
      by (auto simp: process_create_session_def Let_def ok_iff)
    with conservesD [OF a] z transfers_trans [of e K 0 w w1 0 w'] show "transfers e K 0 w w'"
      by (simp add: transfers_set_zero)
  qed
qed

lemma conserves_ensure_nonce:
  assumes "owned_frame e" "creates_zeroed e"
  shows "conserves e K (ensure_market_nonce e adm ai sys market)"
  unfolding ensure_market_nonce_def
  by (intro conserving conserves_create [OF assms])

lemma conserves_init_instrument: "conserves e K (init_instrument_account ia mi ba args b)"
  by (auto simp: conserves_def init_instrument_account_def blank_check_def ok_iff held_disc_0
      intro!: transfers_set_zero)

lemma check_trailing_same: "check_trailing_registry e tr args w = (Inr u, w') \<Longrightarrow> w' = w"
  by (auto simp: check_trailing_registry_def ok_iff split: list.splits if_splits)

lemma conserves_create_instrument:
  assumes fr: "owned_frame e" "creates_zeroed e"
  shows "conserves e K (process_create_instrument e accounts args)"
proof -
  note c [conserving] = conserves_create [OF fr]
  have ai: "conserves e K (allocate_instrument e adm i sys args)" for adm i sys
    unfolding allocate_instrument_def by (intro conserving)
  have ab: "conserves e K (allocate_book e adm i b sys cap)" for adm i b sys cap
    unfolding allocate_book_def by (intro conserving)
  have z: "held (acc_data (w' (ai_key b))) = 0" if "allocate_book e adm i b sys cap w = (Inr x, w')"
    for adm i b sys cap w x w'
    using that create_zero [OF fr(2)] by (auto simp: allocate_book_def ok_iff)
  show ?thesis
    unfolding conserves_def
  proof (intro allI impI)
    fix w u w' assume "process_create_instrument e accounts args w = (Inr u, w')"
    then obtain ib bb w1 w2 w3 w4 where r:
      "allocate_instrument e (accounts ! 0) (accounts ! 2) (accounts ! 5) args w = (Inr ib, w1)"
      "allocate_book e (accounts ! 0) (accounts ! 2) (accounts ! 3) (accounts ! 5) (cia_initial_book_capacity args) w1 = (Inr bb, w2)"
      "init_instrument_account (accounts ! 2) (accounts ! 4) (accounts ! 3) args ib w2 = (Inr (), w3)"
      "init_book_account (accounts ! 2) (accounts ! 3) (cia_initial_book_capacity args) bb 0 w3 = (Inr (), w4)"
      "ensure_market_nonce e (accounts ! 0) (accounts ! 6) (accounts ! 5) (cia_market_id args) w4 = (Inr u, w')"
      by (simp only: process_create_instrument_def Let_def seq_ok bnd_ok need_accounts_ok assert_signers_ok
          assert_writables_ok require_ok check_world_ok assert_owner_ok lift_ok)
        (auto simp: require_admin_def ok_iff dest!: check_trailing_same)
    have "held (acc_data (w3 (ai_key (accounts ! 3)))) = 0"
      using r(3) z [OF r(2)] by (auto simp: init_instrument_account_def ok_iff)
    then have "transfers e K 0 w3 w4"
      using r(4) by (auto simp: init_book_account_def ok_iff intro!: transfers_set_zero)
    with conservesD [OF ai r(1)] conservesD [OF ab r(2)] conservesD [OF conserves_init_instrument [of e K] r(3)]
      conservesD [OF conserves_ensure_nonce [OF fr] r(5), of K]
    show "transfers e K 0 w w'" unfolding transfers_def by auto
  qed
qed

section \<open>Handlers that call the token program or resize an account\<close>

lemma conserves_invoke:
  assumes "owned_frame e" "owners_frame e" "\<And>p k l n own. c \<noteq> CreateAccount p k l n own"
  shows "conserves e K (invoke e c ks sds)"
proof (unfold conserves_def, intro allI impI, rule transfers_pointwise)
  fix w u w' k assume run: "invoke e c ks sds w = (Inr u, w')"
  { assume "acc_owner (w k) = program_id e"
    then show "acc_owner (w' k) = program_id e" using owned_frameD [OF assms(1) run] by simp }
  show "held_at e w' k = held_at e w k"
    using owned_frameD [OF assms(1) run] assms(2,3) run unfolding held_at_def owners_frame_def by metis
qed

lemma conserves_wusd:
  assumes fr: "owned_frame e" "creates_zeroed e" "owners_frame e"
  shows "conserves e K (process_wrap_stablecoin e accounts amount)"
    "conserves e K (process_unwrap_stablecoin e accounts amount)"
    "conserves e K (process_init_stablecoin_registry e accounts args)"
  unfolding process_wrap_stablecoin_def process_unwrap_stablecoin_def process_init_stablecoin_registry_def
    check_wusd_registry_def create_if_empty_def create_wusd_mint_def Let_def
  by (intro conserving conserves_create [OF fr(1,2)] conserves_invoke [OF fr(1,3)]; simp)+

lemma conserves_expand:
  assumes fr: "owned_frame e" "owners_frame e" "realloc_extends e"
  shows "conserves e K (process_expand_intent_book e accounts n)"
proof -
  have t: "conserves e K (top_up_rent e p b s l)" for p b s l
    unfolding top_up_rent_def Let_def by (intro conserving conserves_invoke [OF fr(1,2)]) simp
  show ?thesis
    unfolding conserves_def
  proof (intro allI impI)
    fix w u w' assume "process_expand_intent_book e accounts n w = (Inr u, w')"
    then obtain l w1 w2 where pos: "n \<noteq> 0" "l = acct_len (accounts ! 3) w + unat n * NODE_SIZE"
      and r: "top_up_rent e (accounts ! 0) (accounts ! 3) (accounts ! 4) l w = (Inr (), w1)"
      "realloc e (ai_key (accounts ! 3)) l w1 = (Inr (), w2)"
      "edit_acct load_book DBook (accounts ! 3) (expand_book n) w2 = (Inr u, w')"
      by (auto simp: process_expand_intent_book_def Let_def ok_iff simp del: edit_acct_ok)
    from r(3) obtain b b' where b: "acc_data (w2 (ai_key (accounts ! 3))) = DBook b"
      "w' = set_data (ai_key (accounts ! 3)) (DBook b') w2"
      by (auto simp: edit_acct_ok load_oks)
    have "0 < l" using pos by (simp add: NODE_SIZE_def unat_gt_0)
    with r(2) fr(3) have re: "\<forall>j. acc_owner (w2 j) = acc_owner (w1 j)"
      "\<forall>j. j \<noteq> ai_key (accounts ! 3) \<longrightarrow> acc_data (w2 j) = acc_data (w1 j)"
      "discriminator (acc_data (w2 (ai_key (accounts ! 3)))) = discriminator (acc_data (w1 (ai_key (accounts ! 3))))"
      unfolding realloc_extends_def by blast+
    have "transfers e K 0 w1 w2"
      using re b(1) held_disc [of "acc_data (w1 (ai_key (accounts ! 3)))"]
      by (intro transfers_pointwise) (auto simp: held_at_def, metis held.simps(5))
    moreover have "transfers e K 0 w2 w'" using b by (simp add: transfers_set_same)
    ultimately show "transfers e K 0 w w'" using conservesD [OF t r(1)] by (simp add: transfers_def)
  qed
qed


section \<open>Matching\<close>

lemma edit_transfers:
  assumes "edit_acct ld mk ai m w = (Inr a, w')" "finite K" "ai_key ai \<in> K"
    and "acc_owner (w (ai_key ai)) = program_id e"
    and "\<And>d r. ld d = Inr r \<Longrightarrow> d = mk r"
    and "\<And>r r'. m r = (Inr a, r') \<Longrightarrow> int (held (mk r')) = int (held (mk r)) + n"
  shows "transfers e K n w w'"
proof -
  from assms(1) obtain r r' where r: "ld (acc_data (w (ai_key ai))) = Inr r" "m r = (Inr a, r')"
    "w' = set_data (ai_key ai) (mk r') w" by (auto simp: edit_acct_ok)
  show ?thesis unfolding r(3)
    by (rule transfers_set) (use assms(2,3,4) assms(5) [OF r(1)] assms(6) [OF r(2)] in simp_all)
qed

lemma settle_fill_total:
  "settle_fill b rel taker fee m = (Inr u, m') \<Longrightarrow>
     margin_total m = margin_total m' + (if taker then unat fee else 0)"
  by (cases taker; cases "rel = 0"; cases "fee = 0")
    (auto simp: settle_fill_def seq_ok when_do_ok move_oks debit_free_ok margin_total_def word_gt_0)

lemma ensure_fee_treasury_conserves:
  assumes fr: "owned_frame e" "creates_zeroed e"
  shows "conserves e K (ensure_fee_treasury e payer ai mint sys)"
    and "ensure_fee_treasury e payer ai mint sys w = (Inr u, w') \<Longrightarrow> acc_owner (w' (ai_key ai)) = program_id e"
proof -
  note c [conserving] = conserves_create [OF fr]
  show "conserves e K (ensure_fee_treasury e payer ai mint sys)"
    unfolding ensure_fee_treasury_def by (intro conserving)
  show "ensure_fee_treasury e payer ai mint sys w = (Inr u, w') \<Longrightarrow> acc_owner (w' (ai_key ai)) = program_id e"
    using create_accountD(1) [OF fr(2)]
    by (auto simp: ensure_fee_treasury_def bnd_ok pda_ok gets_ok seq_ok assert_owner_ok read_acct_ok ensure_ok
        init_acct_ok split: if_splits)
qed

lemma ensure_user_volume_conserves:
  assumes fr: "owned_frame e" "creates_zeroed e"
  shows "conserves e K (ensure_user_volume e payer ai own mint sys)"
proof -
  note c [conserving] = conserves_create [OF fr]
  show ?thesis unfolding ensure_user_volume_def by (intro conserving)
qed

lemma accrue_held: "accrue a t = (Inr u, t') \<Longrightarrow> held (DTreasury t') = held (DTreasury t) + unat a"
  by (auto simp: accrue_ok)

lemma charge_taker_transfers:
  assumes fr: "owned_frame e" "creates_zeroed e" and K: "finite K" "ai_key (fc_fee_treasury_ai fc) \<in> K"
    and run: "charge_taker e ctx fc tk mk mint c w = (Inr fee, w')"
  shows "transfers e K (int (unat fee)) w w'"
proof -
  let ?t = "fc_fee_treasury_ai fc"
  from run obtain w1 v1 v2 v3 w2 where
    r1: "ensure_fee_treasury e (mc_payer ctx) ?t mint (mc_system_program ctx) w = (Inr (), w1)"
    and r2: "ensure_user_volume e (mc_payer ctx) (fc_taker_volume_ai fc) tk mint (mc_system_program ctx) w1 = (Inr (), v1)"
      "ensure_user_volume e (mc_payer ctx) (fc_maker_volume_ai fc) mk mint (mc_system_program ctx) v1 = (Inr (), v2)"
      "edit_acct load_user_volume DUserVolume (fc_taker_volume_ai fc) (add_volume c (clock_slot e)) v2 = (Inr (), v3)"
      "edit_acct load_user_volume DUserVolume (fc_maker_volume_ai fc) (add_volume c (clock_slot e)) v3 = (Inr (), w2)"
    and r3: "when_do (fee > 0) (edit_acct load_treasury DTreasury ?t (accrue fee)) w2 = (Inr (), w')"
    unfolding charge_taker_def by (auto simp: bnd_ok seq_ok ret_ok lift_ok read_acct_ok)
  have t1: "transfers e K 0 w w1" using conservesD [OF ensure_fee_treasury_conserves(1) [OF fr] r1] .
  have t2: "transfers e K 0 w1 w2"
    using conservesD [OF ensure_user_volume_conserves [OF fr] r2(1), of K]
      conservesD [OF ensure_user_volume_conserves [OF fr] r2(2), of K]
      conservesD [OF conserves_edits(7) r2(3), of e K] conservesD [OF conserves_edits(7) r2(4), of e K]
    by (auto simp: transfers_def)
  have own: "acc_owner (w2 (ai_key ?t)) = program_id e"
    using transfers_owner [OF t2] ensure_fee_treasury_conserves(2) [OF fr r1] by simp
  have t3: "transfers e K (int (unat fee)) w2 w'"
  proof (cases "fee = 0")
    case False
    then have "edit_acct load_treasury DTreasury ?t (accrue fee) w2 = (Inr (), w')" using r3 by (simp add: when_do_ok word_gt_0)
    then show ?thesis
      by (rule edit_transfers) (use K own in \<open>auto simp: load_oks simp del: held.simps dest: accrue_held\<close>)
  qed (use r3 in \<open>simp add: when_do_ok\<close>)
  show ?thesis using transfers_trans [OF transfers_trans [OF t1 t2] t3] by simp
qed

lemma edit_fill:
  assumes "edit_acct load_margin DMargin ai (settle_fill b rel tk fee) w = (Inr u, w')"
    "finite K" "ai_key ai \<in> K" "acc_owner (w (ai_key ai)) = program_id e"
  shows "transfers e K (- (if tk then int (unat fee) else 0)) w w'"
  by (rule edit_transfers [OF assms(1)])
    (use assms(2-4) in \<open>auto simp: load_oks dest: settle_fill_total\<close>)

lemma settle_match_conserves:
  assumes fr: "owned_frame e" "creates_zeroed e" and K: "finite K"
    and keys: "ai_key (mc_long_margin_ai ctx) \<in> K" "ai_key (mc_short_margin_ai ctx) \<in> K"
      "\<And>fc. mc_fee_ctx ctx = Some fc \<Longrightarrow> ai_key (fc_fee_treasury_ai fc) \<in> K"
    and own: "acc_owner (w (ai_key (mc_long_margin_ai ctx))) = program_id e"
      "acc_owner (w (ai_key (mc_short_margin_ai ctx))) = program_id e"
    and run: "settle_match e ctx inst r w = (Inr u, w')"
  shows "transfers e K 0 w w'"
proof -
  from run obtain fc fee w1 w2 where fc: "mc_fee_ctx ctx = Some fc"
    and r1: "charge_taker e ctx fc
              (if mr_taker_is_long r then mr_long_trader r else mr_short_trader r)
              (if mr_taker_is_long r then mr_short_trader r else mr_long_trader r) (ic_mint inst)
              (collateral_bucket inst) w = (Inr fee, w1)"
    and r2: "edit_acct load_margin DMargin (mc_long_margin_ai ctx)
              (settle_fill (collateral_bucket inst) (mr_release_long r) (mr_taker_is_long r) fee) w1 = (Inr (), w2)"
    and r3: "edit_acct load_margin DMargin (mc_short_margin_ai ctx)
              (settle_fill (collateral_bucket inst) (mr_release_short r) (\<not> mr_taker_is_long r) fee) w2 = (Inr u, w')"
    unfolding settle_match_def Let_def
    by (auto simp: bnd_ok seq_ok lift_ok validate_margin_pda_ok ok_or_err_ok)
  note t1 = charge_taker_transfers [OF fr K keys(3) [OF fc] r1]
  note t2 = edit_fill [OF r2 K keys(1) transfers_owner [OF t1 own(1)]]
  note t3 = edit_fill [OF r3 K keys(2) transfers_owner [OF t2 transfers_owner [OF t1 own(2)]]]
  show ?thesis using t1 t2 t3 by (auto simp: transfers_def)
qed

lemma open_pmlc_conserves:
  assumes fr: "owned_frame e" "creates_zeroed e"
  shows "conserves e K (open_pmlc e ctx inst r nid bump)"
  unfolding open_pmlc_def Let_def
  by (rule conserves_create_seq [OF fr]) (auto simp: ok_iff intro!: transfers_set_zero)

lemma match_pair_core_conserves:
  assumes fr: "owned_frame e" "creates_zeroed e" and K: "finite K"
    and keys: "ai_key (mc_long_margin_ai ctx) \<in> K" "ai_key (mc_short_margin_ai ctx) \<in> K"
      "\<And>fc. mc_fee_ctx ctx = Some fc \<Longrightarrow> ai_key (fc_fee_treasury_ai fc) \<in> K"
    and own: "acc_owner (w (ai_key (mc_long_margin_ai ctx))) = program_id e"
      "acc_owner (w (ai_key (mc_short_margin_ai ctx))) = program_id e"
    and run: "match_pair_core e ctx l s n w = (Inr u, w')"
  shows "transfers e K 0 w w'"
proof -
  from run obtain inst r nid bump w1 w2 where
    r1: "edit_acct load_book DBook (mc_book_ai ctx)
             (match_in_book e (ai_key (mc_instrument_ai ctx)) (ai_key (mc_pmlc_ai ctx))
                (collateral_bucket inst) l s) w = (Inr (r, nid, bump), w1)"
    and r2: "settle_match e ctx inst r w1 = (Inr (), w2)"
    and r3: "open_pmlc e ctx inst r nid bump w2 = (Inr u, w')"
    unfolding match_pair_core_def
    by (auto simp: bnd_ok seq_ok lift_ok ensure_ok read_acct_ok)
  note t1 = conservesD [OF conserves_edits(3) r1, of e K]
  note t2 = settle_match_conserves [OF fr K keys transfers_owner [OF t1 own(1)] transfers_owner [OF t1 own(2)] r2]
  note t3 = conservesD [OF open_pmlc_conserves [OF fr] r3, of K]
  show ?thesis using t1 t2 t3 by (auto simp: transfers_def)
qed

end
