(* ===== verification/Conserving_Instructions.thy ===== *)
theory Conserving_Instructions
  imports Conserving_Handlers Settlement_Facts
begin

text \<open>
  The instructions over a pair of accounts conserve what the program holds: matching, posting
  (without an inline match), cancelling, pruning, re-entry, novation and substitution. The
  settlement of both sides and of a liquidation are stated as transfers of zero.
\<close>

lemma nth_key: "ai_key ` set accounts \<subseteq> K \<Longrightarrow> i < length accounts \<Longrightarrow> ai_key (accounts ! i) \<in> K"
  by auto

lemma unpack_accounts_run:
  assumes "unpack_accounts e accounts w = (Inr ctx, w')"
  shows "w' = w" "11 \<le> length accounts" "mc_long_margin_ai ctx = accounts ! 3" "mc_short_margin_ai ctx = accounts ! 4"
    "mc_book_ai ctx = accounts ! 2" "mc_instrument_ai ctx = accounts ! 1" "mc_pmlc_ai ctx = accounts ! 5"
    "mc_fee_ctx ctx = Some \<lparr> fc_fee_schedule_ai = accounts ! 7,
                fc_taker_volume_ai = accounts ! 8, fc_maker_volume_ai = accounts ! 9,
                fc_fee_treasury_ai = accounts ! 10 \<rparr>"
    "acc_owner (w (ai_key (accounts ! 3))) = program_id e" "acc_owner (w (ai_key (accounts ! 4))) = program_id e"
    "fst (find_program_address e [SEED_FEE_SCHEDULE]) = ai_key (accounts ! 7)"
  using assms by (auto simp: unpack_accounts_def Let_def ok_iff)

lemma match_pair_conserves:
  assumes fr: "owned_frame e" "creates_zeroed e" and K: "finite K" "ai_key ` set accounts \<subseteq> K"
    and run: "process_match_pair e accounts args w = (Inr u, w')"
  shows "transfers e K 0 w w'"
proof -
  from run obtain ctx w1 where r: "unpack_accounts e accounts w = (Inr ctx, w1)"
    "match_pair_core e ctx (mpa_long_intent_id args) (mpa_short_intent_id args) (mpa_max_contracts args) w1 = (Inr u, w')"
    by (auto simp: process_match_pair_def bnd_ok)
  note a = unpack_accounts_run [OF r(1)]
  show ?thesis
    by (rule match_pair_core_conserves [OF fr K(1) _ _ _ _ _ r(2) [unfolded a(1)]])
      (use a K(2) nth_key in auto)
qed

lemma match_best_conserves:
  assumes fr: "owned_frame e" "creates_zeroed e" and K: "finite K" "ai_key ` set accounts \<subseteq> K"
    and run: "process_match_best_available e accounts w = (Inr u, w')"
  shows "transfers e K 0 w w'"
proof -
  from run obtain ctx w1 l s where r: "unpack_accounts e accounts w = (Inr ctx, w1)"
    "match_pair_core e ctx l s 1 w1 = (Inr u, w')"
    by (auto simp: process_match_best_available_def ok_iff)
  note a = unpack_accounts_run [OF r(1)]
  show ?thesis
    by (rule match_pair_core_conserves [OF fr K(1) _ _ _ _ _ r(2) [unfolded a(1)]])
      (use a K(2) nth_key in auto)
qed

section \<open>Posting, cancelling, pruning\<close>

lemma reserve_margin_total: "reserve_margin k c b r t m = (Inr u, m') \<Longrightarrow> margin_total m' = margin_total m"
  by (cases "r = 0") (auto simp: reserve_margin_def ok_iff word_gt_0 margin_total_def)

lemma release_margin_total: "release_margin k c b r m = (Inr u, m') \<Longrightarrow> margin_total m' = margin_total m"
  by (auto simp: release_margin_def ok_iff margin_total_def)

lemma conserves_charge_session: "conserves e K (charge_session ai t)"
  unfolding charge_session_def by (intro conserving)

lemma post_checks_same: "post_checks e k c i b m args w = (Inr x, w') \<Longrightarrow> w' = w"
  by (auto simp: post_checks_def ok_iff)

lemma inline_match_off: "pia_try_match args = 0 \<Longrightarrow> inline_match e p i b m as off args nid = ret ()"
  by (simp add: inline_match_def when_do_def)

lemma do_post_conserves:
  assumes "pia_try_match args = 0"
  shows "conserves e K (do_post_intent_inner e k p c i b m s as off args)"
  unfolding do_post_intent_inner_def inline_match_off [OF assms] post_checks_def
  by (intro conserving conserves_charge_session conserves_margin reserve_margin_total)

lemma conserves_post:
  assumes "pia_try_match args = 0"
  shows "conserves e K (process_post_intent e accounts args)"
    and "conserves e K (process_post_intent_delegated e accounts args)"
  unfolding process_post_intent_def process_post_intent_delegated_def check_session_def Let_def
  by (intro conserving do_post_conserves assms)+

lemma conserves_finish_cancel: "conserves e K (finish_cancel e c b m s i n k)"
  unfolding finish_cancel_def
  by (intro conserving conserves_margin release_margin_total)

lemma conserves_cancel:
  "conserves e K (process_cancel_intent e accounts i)"
  "conserves e K (process_cancel_intent_delegated e accounts i)"
  unfolding process_cancel_intent_def process_cancel_intent_delegated_def check_session_def Let_def
  by (intro conserving conserves_finish_cancel)+

lemma move_reserved_to_free_total: "move_reserved_to_free a m = (Inr u, m') \<Longrightarrow> margin_total m' = margin_total m"
  by (auto simp: move_oks margin_total_def)

lemma conserves_prune_items: "conserves e K (prune_items e b mint ms items c)"
proof (induction items arbitrary: c)
  case Nil
  show ?case by (simp add: conserving)
next
  case (Cons item items)
  show ?case
    by (cases item) (simp only: prune_items.simps prod.case, intro conserving conserves_margin move_reserved_to_free_total Cons)
qed

lemma conserves_prune: "conserves e K (process_prune_expired e accounts)"
  unfolding process_prune_expired_def Let_def
  by (intro conserving conserves_prune_items)

section \<open>Changes of a position's sides\<close>

lemma conserves_claim_reentry: "conserves e K (process_claim_reentry e accounts args)"
proof -
  have "margin_total m' = margin_total m" if "move_free_to_reserved a m = (Inr u, m')" for a m u m'
    using that by (auto simp: move_oks margin_total_def)
  then show ?thesis
    unfolding process_claim_reentry_def claim_checks_def unpaused_config_def Let_def
    by (intro conserving conserves_margin)
qed

lemma edit_margin_transfers:
  assumes "edit_acct load_margin DMargin ai m w = (Inr a, w')" "finite K" "ai_key ai \<in> K"
    and "acc_owner (w (ai_key ai)) = program_id e"
    and "\<And>r r'. m r = (Inr a, r') \<Longrightarrow> int (margin_total r') = int (margin_total r) + n"
  shows "transfers e K n w w'"
  by (rule edit_transfers [OF assms(1)]) (use assms(2-) in \<open>auto simp: load_oks\<close>)

lemma novate_conserves:
  assumes K: "finite K" "ai_key ` set accounts \<subseteq> K"
    and run: "process_novate e accounts side w = (Inr u, w')"
  shows "transfers e K 0 w w'"
proof -
  from run obtain p where len: "7 \<le> length accounts"
    and own: "acc_owner (w (ai_key (accounts ! 5))) = program_id e" "acc_owner (w (ai_key (accounts ! 6))) = program_id e"
    and r: "novate_transfer e accounts side p w = (Inr u, w')"
    by (auto simp: process_novate_def unpaused_config_def Let_def ok_iff)
  let ?c = "collateral_per_side p"
  from r obtain w1 w2 where
    r1: "edit_acct load_margin DMargin (accounts ! 5)
             (seq (check_holder (ai_key (accounts ! 0)) (pm_mint p)) (move_locked_to_free ?c)) w = (Inr (), w1)"
    and r2: "edit_acct load_margin DMargin (accounts ! 6)
             (seq (check_holder (ai_key (accounts ! 1)) (pm_mint p)) (seq (debit_free ?c) (credit_locked ?c))) w1 = (Inr (), w2)"
    and r3: "edit_acct load_pmlc DPmlc (accounts ! 4) (hand_over e side (ai_key (accounts ! 1))) w2 = (Inr u, w')"
    unfolding novate_transfer_def Let_def by (auto simp: bnd_ok seq_ok pda_ok)
  have t1: "transfers e K 0 w w1"
    by (rule conservesD [OF conserves_margin r1])
      (auto simp: seq_ok check_holder_def bnd_ok gets_ok ensure_ok move_oks margin_total_def)
  have t2: "transfers e K 0 w1 w2"
    by (rule conservesD [OF conserves_margin r2])
      (auto simp: seq_ok check_holder_def bnd_ok gets_ok ensure_ok debit_free_ok credit_locked_ok margin_total_def)
  show ?thesis using t1 t2 conservesD [OF conserves_edits(4) r3, of e K] by (auto simp: transfers_def)
qed

section \<open>Substitution\<close>

lemma sint_to_u64:
  fixes d :: i128
  assumes "0 < sint d" "nat \<bar>sint d\<bar> \<le> unat (b :: u64)"
  shows "int (unat (ucast d :: u64)) = sint d"
proof -
  have "unat b < 2 ^ 64" using unat_lt2p [of b] by simp
  then have "nat (sint d) < 2 ^ 64" using assms by linarith
  then show ?thesis using unat_ucast_128_64 [of d] assms(1) by simp
qed

lemma neg_to_u64:
  fixes d :: i128
  assumes "sint d < 0" "nat \<bar>sint d\<bar> \<le> unat (b :: u64)" "checked_neg_s d = Some n"
  shows "int (unat (ucast n :: u64)) = - sint d"
proof -
  have "sint n = - sint d" using assms(3) by (simp add: checked_neg_s_def checked_signed_SomeD)
  then show ?thesis using sint_to_u64 [of n b] assms(1,2) by simp
qed

lemma int_shift: "n = m + k \<Longrightarrow> int n = int m + int k" "m = n + k \<Longrightarrow> int n = int m - int k"
  by simp_all

lemma credit_free_total: "credit_free a m = (Inr u, m') \<Longrightarrow> margin_total m' = margin_total m + unat a"
  and debit_free_total: "debit_free a m = (Inr u, m') \<Longrightarrow> margin_total m = margin_total m' + unat a"
  by (auto simp: credit_free_ok debit_free_ok margin_total_def)

lemma moves_total:
  "move_reserved_to_locked a m = (Inr u, m') \<Longrightarrow> margin_total m' = margin_total m"
  "move_locked_to_free a m = (Inr u, m') \<Longrightarrow> margin_total m' = margin_total m"
  "when_do c (move_reserved_to_free a) m = (Inr u, m') \<Longrightarrow> margin_total m' = margin_total m"
  by (auto simp: move_oks margin_total_def when_do_ok split: if_splits)

lemma pay_substitutor_total:
  assumes "pay_substitutor c rel d m = (Inr u, m')" and b: "sint d = 0 \<or> nat \<bar>sint d\<bar> \<le> unat (b :: u64)"
  shows "int (margin_total m') = int (margin_total m) + sint d"
proof -
  from assms(1) obtain m1 m2 m3 where mv: "move_reserved_to_free c m = (Inr (), m1)"
    "when_do (rel > 0) (move_reserved_to_free rel) m1 = (Inr (), m2)" "move_locked_to_free c m2 = (Inr (), m3)"
    and x: "(if sint d > 0 then seq (credit_free (ucast d)) (add_pnl (ucast d))
      else if sint d < 0 then bnd (lift (no_panic (checked_neg_s d))) (\<lambda>neg. seq (debit_free (ucast neg)) (sub_pnl (ucast neg)))
      else ret ()) m3 = (Inr u, m')"
    unfolding pay_substitutor_def by (auto simp: seq_ok)
  have "margin_total m3 = margin_total m"
    using mv moves_total move_reserved_to_free_total by simp
  moreover consider "sint d > 0" | "sint d < 0" | "sint d = 0" by linarith
  then have "int (margin_total m') = int (margin_total m3) + sint d"
  proof cases
    case 1
    with x obtain m4 where "credit_free (ucast d) m3 = (Inr (), m4)" "margin_total m' = margin_total m4"
      by (auto simp: seq_ok add_pnl_ok margin_total_def)
    with credit_free_total have "margin_total m' = margin_total m3 + unat (ucast d :: u64)" by metis
    from int_shift(1) [OF this] show ?thesis using sint_to_u64 [OF 1, of b] b 1 by simp
  next
    case 2
    with x obtain n m4 where n: "checked_neg_s d = Some n" "debit_free (ucast n) m3 = (Inr (), m4)" "margin_total m' = margin_total m4"
      by (auto simp: seq_ok bnd_ok lift_ok no_panic_ok sub_pnl_ok margin_total_def)
    with debit_free_total have "margin_total m3 = margin_total m' + unat (ucast n :: u64)" by metis
    from int_shift(2) [OF this] show ?thesis using neg_to_u64 [OF 2 _ n(1), of b] b 2 by simp
  next
    case 3
    then show ?thesis using x by (simp add: ret_ok)
  qed
  ultimately show ?thesis by simp
qed

lemma charge_counterparty_total:
  assumes "charge_counterparty c rel d m = (Inr u, m')" and b: "sint d = 0 \<or> nat \<bar>sint d\<bar> \<le> unat (b :: u64)"
  shows "int (margin_total m') = int (margin_total m) + - sint d"
proof -
  from assms(1) obtain m1 m2 where mv: "move_reserved_to_locked c m = (Inr (), m1)"
    "when_do (rel > 0) (move_reserved_to_free rel) m1 = (Inr (), m2)"
    and x: "(if sint d > 0 then debit_free (ucast d)
      else if sint d < 0 then bnd (lift (no_panic (checked_neg_s d))) (\<lambda>neg. credit_free (ucast neg))
      else ret ()) m2 = (Inr u, m')"
    unfolding charge_counterparty_def by (auto simp: seq_ok)
  have "margin_total m2 = margin_total m" using mv moves_total by simp
  moreover consider "sint d > 0" | "sint d < 0" | "sint d = 0" by linarith
  then have "int (margin_total m') = int (margin_total m2) + - sint d"
  proof cases
    case 1
    with x debit_free_total have "margin_total m2 = margin_total m' + unat (ucast d :: u64)" by simp
    from int_shift(2) [OF this] show ?thesis using sint_to_u64 [OF 1, of b] b 1 by simp
  next
    case 2
    with x obtain n where n: "checked_neg_s d = Some n" "credit_free (ucast n) m2 = (Inr (), m')"
      by (auto simp: bnd_ok lift_ok no_panic_ok)
    with credit_free_total have "margin_total m' = margin_total m2 + unat (ucast n :: u64)" by simp
    from int_shift(1) [OF this] show ?thesis using neg_to_u64 [OF 2 _ n(1), of b] b 2 by simp
  next
    case 3
    then show ?thesis using x by (simp add: ret_ok)
  qed
  ultimately show ?thesis by simp
qed

lemma substitute_settle_run:
  assumes "substitute_settle e accounts mint b su d w = (Inr u, w')"
  obtains own other w1 w2 where
    "own = (if su_substitutor_is_long su then su_release_long su else su_release_short su)"
    "other = (if su_substitutor_is_long su then su_release_short su else su_release_long su)"
    "edit_acct load_margin DMargin (accounts ! 4)
       (seq (check_holder (ai_key (accounts ! 0)) mint) (pay_substitutor b own d)) w = (Inr (), w1)"
    "edit_acct load_margin DMargin (accounts ! 5)
       (seq (check_holder (su_new_owner su) mint) (charge_counterparty b other d)) w1 = (Inr (), w2)"
    "edit_acct load_pmlc DPmlc (accounts ! 3) (hand_over e (su_pmlc_side su) (su_new_owner su)) w2 = (Inr u, w')"
  using assms unfolding substitute_settle_def Let_def by (auto simp: bnd_ok seq_ok pda_ok)

lemma substitute_conserves:
  assumes K: "finite K" "ai_key ` set accounts \<subseteq> K"
    and run: "do_substitute e accounts args with_settle w = (Inr u, w')"
  shows "transfers e K 0 w w'"
proof -
  from run obtain inst p su d w0 where len: "6 \<le> length accounts"
    and inst: "load_instrument (acc_data (w (ai_key (accounts ! 1)))) = Inr inst"
    and own: "acc_owner (w (ai_key (accounts ! 4))) = program_id e" "acc_owner (w (ai_key (accounts ! 5))) = program_id e"
    and r0: "edit_acct load_book DBook (accounts ! 2)
                (substitute_in_book e p (collateral_bucket inst) (ai_key (accounts ! 0)) args) w = (Inr su, w0)"
    and d: "substitution_delta with_settle p su = Inr d" "check_delta with_settle d (collateral_bucket inst) = Inr ()"
    and r: "substitute_settle e accounts (ic_mint inst) (collateral_bucket inst) su d w0 = (Inr u, w')"
    by (auto simp: do_substitute_def Let_def seq_ok bnd_ok need_accounts_ok assert_signers_ok assert_writables_ok
        assert_owners_ok lift_ok ensure_ok read_acct_ok)
  have small: "sint d = 0 \<or> nat \<bar>sint d\<bar> \<le> unat (collateral_bucket inst)"
    using d by (auto simp: substitution_delta_def check_delta_def check_ok split: if_splits)
  from r obtain own' other w1 w2 where
    r1: "edit_acct load_margin DMargin (accounts ! 4)
       (seq (check_holder (ai_key (accounts ! 0)) (ic_mint inst)) (pay_substitutor (collateral_bucket inst) own' d)) w0 = (Inr (), w1)"
    and r2: "edit_acct load_margin DMargin (accounts ! 5)
       (seq (check_holder (su_new_owner su) (ic_mint inst)) (charge_counterparty (collateral_bucket inst) other d)) w1 = (Inr (), w2)"
    and r3: "edit_acct load_pmlc DPmlc (accounts ! 3) (hand_over e (su_pmlc_side su) (su_new_owner su)) w2 = (Inr u, w')"
    by (rule substitute_settle_run)
  note t0 = conservesD [OF conserves_edits(3) r0, of e K]
  have t1: "transfers e K (sint d) w0 w1"
    by (rule edit_margin_transfers [OF r1])
      (use K len nth_key transfers_owner [OF t0 own(1)] in
        \<open>auto simp: seq_ok check_holder_def bnd_ok gets_ok ensure_ok dest: pay_substitutor_total [OF _ small]\<close>)
  have t2: "transfers e K (- sint d) w1 w2"
    by (rule edit_margin_transfers [OF r2])
      (use K len nth_key transfers_owner [OF t1 transfers_owner [OF t0 own(2)]] in
        \<open>auto simp: seq_ok check_holder_def bnd_ok gets_ok ensure_ok dest: charge_counterparty_total [OF _ small]\<close>)
  show ?thesis using t0 t1 t2 conservesD [OF conserves_edits(4) r3, of e K] by (auto simp: transfers_def)
qed

section \<open>Settlement and closing\<close>

lemma transfers_pair:
  assumes "finite K" "j \<in> K" "k \<in> K" "k \<noteq> j" "acc_data (w j) = DMargin l" "acc_data (w k) = DMargin s"
    and "acc_owner (w j) = program_id e" "acc_owner (w k) = program_id e"
    and "int (margin_total l') + int (margin_total s') = int (margin_total l) + int (margin_total s) + n"
  shows "transfers e K n w (set_data k (DMargin s') (set_data j (DMargin l') w))"
proof -
  have t1: "transfers e K (int (margin_total l') - int (margin_total l)) w (set_data j (DMargin l') w)" (is "transfers _ _ _ w ?w1")
    using assms by (intro transfers_set) simp_all
  have t2: "transfers e K (int (margin_total s') - int (margin_total s)) ?w1 (set_data k (DMargin s') ?w1)"
    using assms by (intro transfers_set) simp_all
  have "int (margin_total l') - int (margin_total l) + (int (margin_total s') - int (margin_total s)) = n"
    using assms(9) by simp
  with transfers_trans [OF t1 t2] show ?thesis by simp
qed

lemma liquidate_settle_transfers:
  assumes run: "liquidate_settle e inst ia pa la sa ka mark w = (Inr u, w')"
    and p: "acc_data (w (ai_key pa)) = DPmlc p"
    and c: "unat (collateral_per_side p) < 2 ^ 63" and bps: "unat (liquidation_bounty_bps inst) \<le> 20000"
    and K: "finite K" "ai_key la \<in> K" "ai_key sa \<in> K" "ai_key ka \<in> K"
    and own: "acc_owner (w (ai_key la)) = program_id e" "acc_owner (w (ai_key sa)) = program_id e" "acc_owner (w (ai_key ka)) = program_id e"
  shows "transfers e K 0 w w'"
proof -
  from run obtain p' lw b l s l' s' where
    p': "acc_data (w (ai_key pa)) = DPmlc p'"
    and out: "liquidation_outcome p' inst mark = Inr (lw, b)"
    and m: "acc_data (w (ai_key la)) = DMargin l" "acc_data (w (ai_key sa)) = DMargin s"
      "ai_key sa \<noteq> ai_key la"
    and t: "liquidation_transfer lw (collateral_per_side p') b (l, s) = (Inr (), (l', s'))"
    and k: "when_do (b > 0) (edit_acct load_margin DMargin ka (credit_free b))
      (set_data (ai_key pa) (DPmlc (p'\<lparr> pm_status := PMLC_STATUS_LIQUIDATED,
        close_reason := CLOSE_REASON_LIQUIDATED, last_mark_slot := clock_slot e \<rparr>))
      (set_data (ai_key sa) (DMargin s') (set_data (ai_key la) (DMargin l') w))) = (Inr u, w')"
      (is "_ (set_data _ (DPmlc ?p) ?w2) = _")
    by (rule liquidate_settle_run)
  have [simp]: "p' = p" using p' p by simp
  have b: "unat b \<le> 2 * unat (collateral_per_side p)"
    using out bps_share_exact(2) [OF _ bps c, simplified] by (auto simp: liquidation_outcome_iff)
  have "margin_total l' + margin_total s' + unat b = margin_total l + margin_total s"
    using liquidation_transfer_total [of lw "collateral_per_side p" b l s "()" l' s'] t c b by (simp add: min_def)
  then have "int (margin_total l') + int (margin_total s') = int (margin_total l) + int (margin_total s) + - int (unat b)"
    by linarith
  then have t1: "transfers e K (- int (unat b)) w ?w2"
    by (intro transfers_pair) (use K m own in auto)
  have t2: "transfers e K 0 ?w2 (set_data (ai_key pa) (DPmlc ?p) ?w2)"
    by (rule transfers_set_same) (use p m in auto)
  have t3: "transfers e K (int (unat b)) (set_data (ai_key pa) (DPmlc ?p) ?w2) w'"
  proof (cases "b = 0")
    case False
    then have "edit_acct load_margin DMargin ka (credit_free b) (set_data (ai_key pa) (DPmlc ?p) ?w2) = (Inr u, w')"
      using k by (simp add: when_do_ok word_gt_0)
    then show ?thesis
      by (rule edit_margin_transfers) (use K own in \<open>auto dest: credit_free_total\<close>)
  qed (use k in \<open>simp add: when_do_ok\<close>)
  show ?thesis using t1 t2 t3 by (auto simp: transfers_def)
qed

lemma settle_and_close_transfers:
  assumes s: "settle_sides la sa c (two_sided c pnl) w = (Inr u, w1)"
    and k: "edit_acct load_pmlc DPmlc pa (close_position e' st r) w1 = (Inr u', w')"
    and c: "unat c < 2 ^ 63"
    and K: "finite K" "ai_key la \<in> K" "ai_key sa \<in> K"
    and own: "acc_owner (w (ai_key la)) = program_id e" "acc_owner (w (ai_key sa)) = program_id e"
  shows "transfers e K 0 w w'"
proof -
  from s obtain l s l' s' where
    m: "acc_data (w (ai_key la)) = DMargin l" "acc_data (w (ai_key sa)) = DMargin s" "ai_key sa \<noteq> ai_key la"
    and l: "settle_side c (fst (two_sided c pnl)) l = (Inr (), l')"
    and s: "settle_side c (snd (two_sided c pnl)) s = (Inr (), s')"
    and w1: "w1 = set_data (ai_key sa) (DMargin s') (set_data (ai_key la) (DMargin l') w)"
    by (rule settle_sides_run)
  have "margin_total l' + margin_total s' = margin_total l + margin_total s"
    using settle_side_effect [OF l] settle_side_effect [OF s] two_sided_spec(3) [OF c, of pnl]
    by (simp add: margin_total_def)
  then have "int (margin_total l') + int (margin_total s') = int (margin_total l) + int (margin_total s) + 0"
    by linarith
  then have "transfers e K 0 w w1" unfolding w1
    by (intro transfers_pair) (use K m own in auto)
  with conservesD [OF conserves_edits(4) k, of e K] show ?thesis by (simp add: transfers_def)
qed

end
