(* ===== verification/Flow_Properties.thy ===== *)
theory Flow_Properties
  imports Conserving_Instructions Ledger_Properties
begin

text \<open>
  What every instruction does to the total the program holds: settlement transfers nothing while
  no bounty exceeds the pot, a deposit brings in exactly its amount, a withdrawal and a sweep take
  out exactly theirs, and every other instruction conserves.
\<close>

section \<open>Bounds under which settlement conserves\<close>

definition settlement_bounds :: "world \<Rightarrow> bool" where
  \<comment> \<open>no pot of two sides exceeds 64 bits, no bounty exceeds the pot\<close>
  "settlement_bounds w \<longleftrightarrow>
     (\<forall>k p. acc_data (w k) = DPmlc p \<longrightarrow> unat (collateral_per_side p) < 2 ^ 63) \<and>
     (\<forall>k i. acc_data (w k) = DInstrument i \<longrightarrow> unat (liquidation_bounty_bps i) \<le> 20000)"

lemma settlement_boundsD:
  "settlement_bounds w \<Longrightarrow> acc_data (w k) = DPmlc p \<Longrightarrow> unat (collateral_per_side p) < 2 ^ 63"
  "settlement_bounds w \<Longrightarrow> acc_data (w k) = DInstrument i \<Longrightarrow> unat (liquidation_bounty_bps i) \<le> 20000"
  by (auto simp: settlement_bounds_def)

lemma assert_owners_in:
  "assert_owners p as w = (Inr u, w') \<Longrightarrow> a \<in> set as \<Longrightarrow> acc_owner (w (ai_key a)) = p"
  by (auto simp: assert_owners_ok list_all_iff)

lemma liquidate_owned:
  assumes "process_liquidate e accounts off w = (Inr u, w')"
  shows "9 \<le> length accounts"
    and "\<And>i. i \<in> {1, 3, 4, 5, 6, 7, 8} \<Longrightarrow> acc_owner (w (ai_key (accounts ! i))) = program_id e"
  using assms by (auto simp: process_liquidate_def Let_def seq_ok need_accounts_ok assert_signers_ok
      assert_writables_ok assert_owners_ok)

lemma resolve_owned:
  assumes "process_resolve e accounts off w = (Inr u, w')"
  shows "8 \<le> length accounts"
    and "\<And>i. i \<in> {1, 3, 4, 5, 6, 7} \<Longrightarrow> acc_owner (w (ai_key (accounts ! i))) = program_id e"
  using assms by (auto simp: process_resolve_def Let_def seq_ok need_accounts_ok assert_signers_ok
      assert_writables_ok assert_owners_ok)

lemma close_mutual_owned:
  assumes "process_close_mutual e accounts off w = (Inr u, w')"
  shows "9 \<le> length accounts"
    and "\<And>i. i \<in> {2, 4, 5, 6, 7, 8} \<Longrightarrow> acc_owner (w (ai_key (accounts ! i))) = program_id e"
  using assms by (auto simp: process_close_mutual_def Let_def seq_ok need_accounts_ok assert_signers_ok
      assert_writables_ok assert_owners_ok)

lemma liquidate_transfers:
  assumes b: "settlement_bounds w" and K: "finite K" "ai_key ` set accounts \<subseteq> K"
    and run: "process_liquidate e accounts off w = (Inr u, w')"
  shows "transfers e K 0 w w'"
proof -
  note own = liquidate_owned [OF run]
  from run obtain inst n n' mark where n: "acc_data (w (ai_key (accounts ! 5))) = DNonce n"
    and inst: "acc_data (w (ai_key (accounts ! 3))) = DInstrument inst"
    and settle: "liquidate_settle e inst (accounts ! 3) (accounts ! 4) (accounts ! 6) (accounts ! 7) (accounts ! 8) mark
       (set_data (ai_key (accounts ! 5)) (DNonce n') w) = (Inr u, w')" (is "_ (set_data ?k ?d w) = _")
    by (rule liquidate_checks)
  let ?w1 = "set_data ?k ?d w"
  obtain p where p: "acc_data (?w1 (ai_key (accounts ! 4))) = DPmlc p"
    by (rule liquidate_settle_run [OF settle])
  have "transfers e K 0 w ?w1" using n by (simp add: transfers_set_same)
  moreover have "transfers e K 0 ?w1 w'"
    by (rule liquidate_settle_transfers [OF settle p])
      (use own K nth_key settlement_boundsD [OF b] p inst in \<open>auto split: if_splits\<close>)
  ultimately show ?thesis by (simp add: transfers_def)
qed

lemma resolve_transfers:
  assumes b: "settlement_bounds w" and K: "finite K" "ai_key ` set accounts \<subseteq> K"
    and run: "process_resolve e accounts off w = (Inr u, w')"
  shows "transfers e K 0 w w'"
proof -
  note own = resolve_owned [OF run]
  from run obtain inst n n' outcome where n: "acc_data (w (ai_key (accounts ! 5))) = DNonce n"
    and settle: "resolve_settle e inst (accounts ! 3) (accounts ! 4) (accounts ! 6) (accounts ! 7) outcome
       (set_data (ai_key (accounts ! 5)) (DNonce n') w) = (Inr u, w')" (is "_ (set_data ?k ?d w) = _")
    by (rule resolve_checks)
  let ?w1 = "set_data ?k ?d w"
  from settle obtain p pnl w2 where
    p: "acc_data (?w1 (ai_key (accounts ! 4))) = DPmlc p"
    and s: "settle_sides (accounts ! 6) (accounts ! 7) (collateral_per_side p)
      (two_sided (collateral_per_side p) pnl) ?w1 = (Inr (), w2)"
    and k: "edit_acct load_pmlc DPmlc (accounts ! 4) (close_position e PMLC_STATUS_RESOLVED CLOSE_REASON_RESOLVED) w2
      = (Inr u, w')"
    by (rule resolve_settle_run)
  have "transfers e K 0 w ?w1" using n by (simp add: transfers_set_same)
  moreover have "transfers e K 0 ?w1 w'"
    by (rule settle_and_close_transfers [OF s k])
      (use own K nth_key settlement_boundsD [OF b] p in \<open>auto split: if_splits\<close>)
  ultimately show ?thesis by (simp add: transfers_def)
qed

lemma close_mutual_transfers:
  assumes b: "settlement_bounds w" and K: "finite K" "ai_key ` set accounts \<subseteq> K"
    and run: "process_close_mutual e accounts off w = (Inr u, w')"
  shows "transfers e K 0 w w'"
proof -
  note own = close_mutual_owned [OF run]
  from run obtain inst n n' mark where n: "acc_data (w (ai_key (accounts ! 6))) = DNonce n"
    and settle: "close_mutual_settle e inst accounts mark
       (set_data (ai_key (accounts ! 6)) (DNonce n') w) = (Inr u, w')" (is "_ (set_data ?k ?d w) = _")
    by (rule close_mutual_checks)
  let ?w1 = "set_data ?k ?d w"
  from settle obtain p pnl w2 where
    p: "acc_data (?w1 (ai_key (accounts ! 5))) = DPmlc p"
    and s: "settle_sides (accounts ! 7) (accounts ! 8) (collateral_per_side p)
      (two_sided (collateral_per_side p) pnl) ?w1 = (Inr (), w2)"
    and k: "edit_acct load_pmlc DPmlc (accounts ! 5) (close_position e PMLC_STATUS_CLOSED CLOSE_REASON_MUTUAL) w2
      = (Inr u, w')"
    by (rule close_mutual_settle_run)
  have "transfers e K 0 w ?w1" using n by (simp add: transfers_set_same)
  moreover have "transfers e K 0 ?w1 w'"
    by (rule settle_and_close_transfers [OF s k])
      (use own K nth_key settlement_boundsD [OF b] p in \<open>auto split: if_splits\<close>)
  ultimately show ?thesis by (simp add: transfers_def)
qed

text \<open>Closing the account of a settled position gives it back to the system program.\<close>

lemma close_pmlc_account_data:
  assumes "close_pmlc_account e recipient pmlc_ai w = (Inr u, w')"
  shows "k \<noteq> ai_key pmlc_ai \<Longrightarrow> acc_owner (w' k) = acc_owner (w k) \<and> acc_data (w' k) = acc_data (w k)"
    and "acc_data (w' (ai_key pmlc_ai)) = DRaw (replicate (acct_len pmlc_ai w) 0)"
  using assms by (auto simp: close_pmlc_account_def seq_ok bnd_ok gets_ok modify_ok lift_ok acct_len_def)

lemma close_pmlc_held:
  assumes "process_close_pmlc e accounts w = (Inr u, w')"
  shows "held_by e w' K = held_by e w K"
proof -
  from assms obtain p where p: "acc_data (w (ai_key (accounts ! 1))) = DPmlc p"
    and c: "close_pmlc_account e (accounts ! 0) (accounts ! 1) w = (Inr u, w')"
    by (auto simp: process_close_pmlc_def Let_def seq_ok bnd_ok need_accounts_ok ensure_ok assert_signers_ok
      assert_writables_ok assert_owner_ok read_acct_ok load_oks)
  have "held_at e w' k = held_at e w k" for k
    using p close_pmlc_account_data(1) [OF c, of k] close_pmlc_account_data(2) [OF c]
    by (cases "k = ai_key (accounts ! 1)") (auto simp: held_at_def)
  then show ?thesis by (simp add: held_by_def)
qed

section \<open>The flows across the boundary of the program\<close>

lemma deposit_transfers:
  assumes fr: "owned_frame e" "owners_frame e" and K: "finite K" "ai_key ` set accounts \<subseteq> K"
    and run: "process_deposit e accounts amount w = (Inr u, w')"
  shows "transfers e K (int (unat amount)) w w'"
proof -
  from run obtain m m' v w1 where len: "6 \<le> length accounts"
    and own: "acc_owner (w (ai_key (accounts ! 1))) = program_id e"
    and cpi: "invoke e (TokenTransfer (ai_key (accounts ! 3)) (ai_key (accounts ! 4)) (ai_key (accounts ! 0)) amount)
       [ai_key (accounts ! 3), ai_key (accounts ! 4), ai_key (accounts ! 0), ai_key (accounts ! 5)] []
       w = (Inr (), w1)"
    and m': "acc_data (w1 (ai_key (accounts ! 1))) = DMargin m'"
    and v: "unat v = unat (free_collateral m') + unat amount"
    and w': "w' = set_data (ai_key (accounts ! 1)) (DMargin (m'\<lparr> free_collateral := v \<rparr>)) w1"
    by (rule deposit_run)
  have t1: "transfers e K 0 w w1"
    by (rule conservesD [OF conserves_invoke [OF fr] cpi]) simp
  have "int (margin_total (m'\<lparr> free_collateral := v \<rparr>)) = int (margin_total m') + int (unat amount)"
    by (rule int_shift(1)) (simp add: margin_total_def v)
  then have t2: "transfers e K (int (unat amount)) w1 w'" unfolding w'
    by (intro transfers_set) (use K len nth_key m' transfers_owner [OF t1 own] in auto)
  show ?thesis using transfers_trans [OF t1 t2] by simp
qed

lemma withdraw_transfers:
  assumes fr: "owned_frame e" "owners_frame e" and K: "finite K" "ai_key ` set accounts \<subseteq> K"
    and run: "process_withdraw e accounts amount w = (Inr u, w')"
  shows "transfers e K (- int (unat amount)) w w'"
proof -
  from run have len: "7 \<le> length accounts" by (auto simp: process_withdraw_def seq_ok need_accounts_ok)
  from run obtain m v bump where own: "acc_owner (w (ai_key (accounts ! 1))) = program_id e"
    and m: "acc_data (w (ai_key (accounts ! 1))) = DMargin m"
    and v: "unat (free_collateral m) = unat amount + unat v"
    and cpi: "invoke e (TokenTransfer (ai_key (accounts ! 4)) (ai_key (accounts ! 3)) (ai_key (accounts ! 5)) amount)
       [ai_key (accounts ! 4), ai_key (accounts ! 3), ai_key (accounts ! 5), ai_key (accounts ! 6)]
       [[SEED_VAULT, key_bytes (ai_key (accounts ! 2)), [bump]]]
       (set_data (ai_key (accounts ! 1)) (DMargin (m\<lparr> free_collateral := v \<rparr>)) w) = (Inr (), w')"
      (is "_ ?w1 = _")
    by (rule withdraw_run)
  have "int (margin_total (m\<lparr> free_collateral := v \<rparr>)) = int (margin_total m) - int (unat amount)"
    by (rule int_shift(2)) (simp add: margin_total_def v)
  then have t1: "transfers e K (- int (unat amount)) w (set_data (ai_key (accounts ! 1)) (DMargin (m\<lparr> free_collateral := v \<rparr>)) w)"
    by (intro transfers_set) (use K len nth_key m own in auto)
  have t2: "transfers e K 0 (set_data (ai_key (accounts ! 1)) (DMargin (m\<lparr> free_collateral := v \<rparr>)) w) w'"
    by (rule conservesD [OF conserves_invoke [OF fr] cpi]) simp
  show ?thesis using transfers_trans [OF t1 t2] by simp
qed

lemma sweep_transfers:
  assumes fr: "owned_frame e" "owners_frame e" and K: "finite K" "ai_key ` set accounts \<subseteq> K"
    and run: "process_sweep_fees e accounts amount w = (Inr u, w')"
  shows "transfers e K (- int (unat amount)) w w'"
proof -
  let ?edit = "seq (bnd (gets ft_mint) (\<lambda>m. ensure (m = ai_key (accounts ! 5)) InvalidPda)) (sweep amount)"
  from run obtain w1 ks sds where len: "8 \<le> length accounts"
    and own: "acc_owner (w (ai_key (accounts ! 2))) = program_id e"
    and ed: "edit_acct load_treasury DTreasury (accounts ! 2) ?edit w = (Inr (), w1)"
    and cpi: "invoke e (TokenTransfer (ai_key (accounts ! 3)) (ai_key (accounts ! 4)) (ai_key (accounts ! 6)) amount) ks sds w1
      = (Inr u, w')"
    by (auto simp: process_sweep_fees_def Let_def seq_ok bnd_ok need_accounts_ok ensure_ok assert_signers_ok
        assert_writables_ok assert_owners_ok require_ok pda_ok read_acct_ok require_admin_def)
  have sw: "int (held (DTreasury t')) = int (held (DTreasury t)) - int (unat amount)" if "?edit t = (Inr (), t')" for t t'
    by (rule int_shift(2)) (use that in \<open>auto simp: seq_ok bnd_ok gets_ok ensure_ok sweep_ok\<close>)
  have t1: "transfers e K (- int (unat amount)) w w1"
    by (rule edit_transfers [OF ed]) (use K len nth_key own sw in \<open>auto simp: load_oks simp del: held.simps\<close>)
  have t2: "transfers e K 0 w1 w'"
    by (rule conservesD [OF conserves_invoke [OF fr] cpi]) simp
  show ?thesis using transfers_trans [OF t1 t2] by simp
qed

end
