(* ===== verification/Ledger_Run.thy ===== *)
theory Ledger_Run
  imports Flow_Properties Scenario
begin

text \<open>
  Solvency: every instruction changes what the program holds by its flow, and so does every run of
  instructions, failed or not, interleaved with steps of the world outside.
\<close>

section \<open>Every instruction\<close>

definition flow :: "borsh \<Rightarrow> instruction_tag \<Rightarrow> u8 list \<Rightarrow> int" where
  \<comment> \<open>collateral entering the program, counted in token atoms\<close>
  "flow d t payload =
     (case d_u64 d payload of None \<Rightarrow> 0
      | Some amount \<Rightarrow> if t = Tag_Deposit then int (unat amount)
          else if t = Tag_Withdraw \<or> t = Tag_SweepFees then - int (unat amount) else 0)"

definition no_inline_match :: "borsh \<Rightarrow> instruction_tag \<Rightarrow> u8 list \<Rightarrow> bool" where
  "no_inline_match d t payload \<longleftrightarrow>
     (t = Tag_PostIntent \<or> t = Tag_PostIntentDelegated \<longrightarrow>
       (case d_post_intent d payload of None \<Rightarrow> True | Some args \<Rightarrow> pia_try_match args = 0))"

definition runtime_laws :: "env \<Rightarrow> bool" where
  "runtime_laws e \<longleftrightarrow> owned_frame e \<and> creates_zeroed e \<and> owners_frame e \<and> realloc_extends e"

lemma flow_eqs:
  "d_u64 d payload = Some a \<Longrightarrow> flow d Tag_Deposit payload = int (unat a)"
  "d_u64 d payload = Some a \<Longrightarrow> flow d Tag_Withdraw payload = - int (unat a)"
  "d_u64 d payload = Some a \<Longrightarrow> flow d Tag_SweepFees payload = - int (unat a)"
  "t \<notin> {Tag_Deposit, Tag_Withdraw, Tag_SweepFees} \<Longrightarrow> flow d t payload = 0"
  by (auto simp: flow_def split: option.split)

lemma with_args_run:
  "with_args x k w = (Inr u, w') \<longleftrightarrow> (\<exists>a. x = Some a \<and> k a w = (Inr u, w'))"
  by (auto simp: with_args_def ok_iff split: option.splits)

lemma with_args_transfers:
  assumes "with_args x k w = (Inr (), w')" and "\<And>a. x = Some a \<Longrightarrow> k a w = (Inr (), w') \<Longrightarrow> transfers e K n w w'"
  shows "transfers e K n w w'"
  using assms by (auto simp: with_args_run)

lemma process_run:
  "process e d accounts (tag_byte t # payload) w = (Inr u, w') \<longleftrightarrow>
     run_tag t e d accounts payload w = (Inr u, w')"
  by (auto simp: process_def bnd_ok lift_ok tag_of_byte_tag)

lemma run_tag_conserves:
  assumes "runtime_laws e"
    and "t \<notin> {Tag_Deposit, Tag_Withdraw, Tag_SweepFees, Tag_ClosePmlc, Tag_Liquidate, Tag_Resolve, Tag_CloseMutual,
      Tag_PostIntent, Tag_PostIntentDelegated, Tag_MatchPair, Tag_MatchBestAvailable, Tag_Novate,
      Tag_MatchSubstitute, Tag_MatchSubstituteWithSettle}"
  shows "conserves e K (run_tag t e d accounts payload)"
proof -
  have fr: "owned_frame e" "creates_zeroed e" "owners_frame e" "realloc_extends e"
    using assms(1) by (auto simp: runtime_laws_def)
  note [conserving] = conserves_create [OF fr(1,2)] conserves_admin conserves_propose [OF fr(1,2)]
    conserves_create_session [OF fr(1,2)] conserves_create_instrument [OF fr(1,2)]
    conserves_wusd [OF fr(1-3)] conserves_expand [OF fr(1,3,4)] conserves_cancel conserves_prune
    conserves_claim_reentry
  show ?thesis using assms(2) by (cases t) (simp_all, (intro conserving)+)
qed

lemma run_tag_transfers:
  assumes law: "runtime_laws e" and b: "settlement_bounds w" and K: "finite K" "ai_key ` set accounts \<subseteq> K"
    and off: "no_inline_match d t payload" and t: "t \<noteq> Tag_ClosePmlc"
    and run: "run_tag t e d accounts payload w = (Inr u, w')"
  shows "transfers e K (flow d t payload) w w'"
proof -
  have fr: "owned_frame e" "creates_zeroed e" "owners_frame e"
    using law by (auto simp: runtime_laws_def)
  have run': "run_tag t e d accounts payload w = (Inr (), w')" using run by simp
  consider (conserving) "t \<notin> {Tag_Deposit, Tag_Withdraw, Tag_SweepFees, Tag_ClosePmlc, Tag_Liquidate, Tag_Resolve,
      Tag_CloseMutual, Tag_PostIntent, Tag_PostIntentDelegated, Tag_MatchPair, Tag_MatchBestAvailable, Tag_Novate,
      Tag_MatchSubstitute, Tag_MatchSubstituteWithSettle}"
    | "t = Tag_Deposit" | "t = Tag_Withdraw" | "t = Tag_SweepFees" | "t = Tag_Liquidate" | "t = Tag_Resolve"
    | "t = Tag_CloseMutual" | "t = Tag_PostIntent" | "t = Tag_PostIntentDelegated" | "t = Tag_MatchPair"
    | "t = Tag_MatchBestAvailable" | "t = Tag_Novate" | "t = Tag_MatchSubstitute" | "t = Tag_MatchSubstituteWithSettle"
    using t by blast
  then show ?thesis
  proof cases
    case conserving
    with conservesD [OF run_tag_conserves [OF law conserving] run'] show ?thesis by (simp add: flow_eqs(4))
  next
    case 2
    from run' [unfolded 2 run_tag.simps] show ?thesis unfolding 2
      by (rule with_args_transfers) (simp only: flow_eqs(1), rule deposit_transfers [OF fr(1,3) K])
  next
    case 3
    from run' [unfolded 3 run_tag.simps] show ?thesis unfolding 3
      by (rule with_args_transfers) (simp only: flow_eqs(2), rule withdraw_transfers [OF fr(1,3) K])
  next
    case 4
    from run' [unfolded 4 run_tag.simps] show ?thesis unfolding 4
      by (rule with_args_transfers) (simp only: flow_eqs(3), rule sweep_transfers [OF fr(1,3) K])
  next
    case 5
    from run' [unfolded 5 run_tag.simps] show ?thesis unfolding 5
      by (rule with_args_transfers) (simp add: flow_eqs liquidate_transfers [OF b K])
  next
    case 6
    from run' [unfolded 6 run_tag.simps] show ?thesis unfolding 6
      by (rule with_args_transfers) (simp add: flow_eqs resolve_transfers [OF b K])
  next
    case 7
    from run' [unfolded 7 run_tag.simps] show ?thesis unfolding 7
      by (rule with_args_transfers) (simp add: flow_eqs close_mutual_transfers [OF b K])
  next
    case 8
    from run' [unfolded 8 run_tag.simps] show ?thesis unfolding 8
      by (rule with_args_transfers) (use off in \<open>simp add: 8 no_inline_match_def flow_eqs conserves_post [THEN conservesD]\<close>)
  next
    case 9
    from run' [unfolded 9 run_tag.simps] show ?thesis unfolding 9
      by (rule with_args_transfers) (use off in \<open>simp add: 9 no_inline_match_def flow_eqs conserves_post [THEN conservesD]\<close>)
  next
    case 10
    from run' [unfolded 10 run_tag.simps] show ?thesis unfolding 10
      by (rule with_args_transfers) (simp add: flow_eqs match_pair_conserves [OF fr(1,2) K])
  next
    case 11
    from run' [unfolded 11 run_tag.simps] show ?thesis unfolding 11
      by (rule with_args_transfers) (simp add: flow_eqs match_best_conserves [OF fr(1,2) K])
  next
    case 12
    from run' [unfolded 12 run_tag.simps] show ?thesis unfolding 12
      by (rule with_args_transfers) (simp add: flow_eqs novate_conserves [OF K])
  next
    case 13
    from run' [unfolded 13 run_tag.simps] show ?thesis unfolding 13
      by (rule with_args_transfers) (simp add: flow_eqs process_match_substitute_def substitute_conserves [OF K])
  next
    case 14
    from run' [unfolded 14 run_tag.simps] show ?thesis unfolding 14
      by (rule with_args_transfers) (simp add: flow_eqs process_match_substitute_with_settle_def substitute_conserves [OF K])
  qed
qed

text \<open>The flow of an instruction's data.\<close>

definition data_flow :: "borsh \<Rightarrow> u8 list \<Rightarrow> int" where
  "data_flow d data =
     (case data of [] \<Rightarrow> 0
      | b # payload \<Rightarrow> (case tag_of_byte b of Inl _ \<Rightarrow> 0 | Inr t \<Rightarrow> flow d t payload))"

definition data_without_inline_match :: "borsh \<Rightarrow> u8 list \<Rightarrow> bool" where
  "data_without_inline_match d data =
     (case data of [] \<Rightarrow> True
      | b # payload \<Rightarrow> (case tag_of_byte b of Inl _ \<Rightarrow> True | Inr t \<Rightarrow> no_inline_match d t payload))"

lemma instruction_flow:
  assumes law: "runtime_laws e" and b: "settlement_bounds w" and K: "finite K" "ai_key ` set accounts \<subseteq> K"
    and off: "data_without_inline_match d data"
    and run: "process e d accounts data w = (Inr u, w')"
  shows "int (held_by e w' K) = int (held_by e w K) + data_flow d data"
proof -
  from run obtain v payload t where data: "data = v # payload" "tag_of_byte v = Inr t"
    and run': "run_tag t e d accounts payload w = (Inr u, w')"
    by (auto simp: process_def bnd_ok lift_ok fail_with_def split: list.splits)
  have off': "no_inline_match d t payload" using off data by (simp add: data_without_inline_match_def)
  have "int (held_by e w' K) = int (held_by e w K) + flow d t payload"
  proof (cases "t = Tag_ClosePmlc")
    case True
    with run' show ?thesis by (simp add: flow_eqs(4) close_pmlc_held)
  next
    case False
    from run_tag_transfers [OF law b K off' False run'] show ?thesis by (simp add: transfers_def)
  qed
  with data show ?thesis by (simp add: data_flow_def)
qed

text \<open>
  C10. Instructions account for collateral, under two conditions: the ledger is within the bounds of
  settlement (no position's pot exceeds 64 bits, no instrument's bounty exceeds the pot), and the
  instruction is not a post that asks for an inline match. Then whatever instruction succeeds, over any
  finite set of accounts that contains those it was given, what the program holds (the free,
  reserved and locked collateral of the margin accounts and the fees of the treasuries not yet
  swept) changes by exactly the instruction's flow: the amount of a deposit, minus the amount of a
  withdrawal or of a sweep of fees, and nothing for every other instruction. Neither condition can
  be dropped: a bounty beyond the pot creates collateral, and an inline match whose error is
  swallowed can leave a fee accrued in the treasury that the taker was not charged.
\<close>

theorem process_flows:
  assumes "runtime_laws e" and "settlement_bounds w" and "finite K" "ai_key ` set accounts \<subseteq> K"
    and "data_without_inline_match d data"
    and "process e d accounts data w = (Inr u, w')"
  shows "int (held_by e w' K) = int (held_by e w K) + data_flow d data"
  by (rule instruction_flow [OF assms])

lemma ex_runtime_laws: "runtime_laws ex_env"
  by (simp add: runtime_laws_def ex_owned_frame ex_creates_zeroed ex_owners_frame ex_realloc_extends)

lemma ex_settlement_bounds: "settlement_bounds ex_w_deposit"
  by (auto simp: settlement_bounds_def ex_w_deposit_def owned_by_def ex_empty_def)

definition ex_deposit_data :: "u8 list" where
  "ex_deposit_data = 21 # to_le_bytes (5 :: u64)"

lemma ex_deposit_data_facts:
  "tag_of_byte 21 = Inr Tag_Deposit" "d_u64 ex_borsh (to_le_bytes (5 :: u64)) = Some 5"
  by (simp_all add: tag_of_byte_def ex_borsh_def)

lemma ex_process_deposit:
  "process ex_env ex_borsh ex_deposit_accounts ex_deposit_data = process_deposit ex_env ex_deposit_accounts 5"
  by (rule ext) (simp add: process_def ex_deposit_data_def ex_deposit_data_facts with_args_def bnd_def lift_def)

lemma process_flows_witness:
  "int (held_by ex_env (snd (process ex_env ex_borsh ex_deposit_accounts ex_deposit_data ex_w_deposit))
      (ai_key ` set ex_deposit_accounts))
   = int (held_by ex_env ex_w_deposit (ai_key ` set ex_deposit_accounts)) + 5"
proof -
  let ?r = "process ex_env ex_borsh ex_deposit_accounts ex_deposit_data ex_w_deposit"
  have r: "?r = (Inr (), snd ?r)" using ex_deposit_runs by (metis ex_process_deposit prod.collapse)
  have flow: "data_flow ex_borsh ex_deposit_data = 5"
    "data_without_inline_match ex_borsh ex_deposit_data"
    by (simp_all add: data_flow_def data_without_inline_match_def no_inline_match_def ex_deposit_data_def
      ex_deposit_data_facts flow_eqs)
  from process_flows [OF ex_runtime_laws ex_settlement_bounds _ order_refl flow(2) r] flow(1)
  show ?thesis by simp
qed

section \<open>Runs of the ledger\<close>

text \<open>
  The world outside the program may do anything with accounts the program does not own, and may
  hand it accounts whose data is zeroed; it cannot touch what the program owns.
\<close>

definition outside_step :: "pubkey \<Rightarrow> world \<Rightarrow> world \<Rightarrow> bool" where
  "outside_step p w w' \<longleftrightarrow>
     (\<forall>k. acc_owner (w k) = p \<longrightarrow> acc_owner (w' k) = p \<and> acc_data (w' k) = acc_data (w k)) \<and>
     (\<forall>k. acc_owner (w k) \<noteq> p \<longrightarrow> acc_owner (w' k) = p \<longrightarrow> (\<exists>n. acc_data (w' k) = DRaw (replicate n 0)))"

lemma outside_held:
  "outside_step (program_id e) w w' \<Longrightarrow> held_by e w' K = held_by e w K"
proof -
  assume o: "outside_step (program_id e) w w'"
  have "held_at e w' k = held_at e w k" for k
    using o unfolding outside_step_def held_at_def by (metis held.simps(1))
  then show ?thesis by (simp add: held_by_def)
qed

lemma held_by_env: "program_id e = program_id e' \<Longrightarrow> held_by e = held_by e'"
  by (rule ext)+ (simp add: held_by_def held_at_def)

inductive ledger_run :: "pubkey \<Rightarrow> pubkey set \<Rightarrow> world \<Rightarrow> int \<Rightarrow> world \<Rightarrow> bool" for p K w0 where
  \<comment> \<open>instructions of the program, each in the environment of its slot, between steps of the outside;
    those that succeed meet the two conditions of an instruction's flow\<close>
  start: "ledger_run p K w0 0 w0"
| instruction: "ledger_run p K w0 (n + (case r of Inl x \<Rightarrow> 0 | Inr v \<Rightarrow> data_flow d data)) w'"
    if "ledger_run p K w0 n w" "program_id e = p" "runtime_laws e"
      "ai_key ` set accounts \<subseteq> K" "(\<exists>v. r = Inr v) \<longrightarrow> settlement_bounds w \<and> data_without_inline_match d data"
      "run_instruction (process e d accounts data) w = (r, w')"
| outside: "ledger_run p K w0 n w'" if "ledger_run p K w0 n w" "outside_step p w w'"

text \<open>
  C11. Solvency of the ledger, under two conditions on every instruction that succeeds
  (settlement bounds on the ledger it runs on, no inline match): along every such run of instructions,
  successful or failed, in whatever slots, interleaved with whatever the world outside the program
  does, the collateral and fees the program owes are what it owed at the start plus the deposits
  minus the withdrawals and sweeps of the instructions that succeeded.
\<close>

theorem ledger_run_accounts:
  assumes "finite K" "program_id e = p" "ledger_run p K w n w'"
  shows "int (held_by e w' K) = int (held_by e w K) + n"
  using assms(3)
proof induction
  case (instruction n w1 e' accounts r d data w')
  note h = held_by_env [of e' e]
  show ?case
  proof (cases r)
    case (Inl x)
    with instruction.hyps(6) have "w' = w1" by (auto dest: run_instruction_error)
    with instruction.IH Inl show ?thesis by simp
  next
    case (Inr u)
    with instruction.hyps(6) have "process e' d accounts data w1 = (Inr u, w')"
      by (simp add: run_instruction_ok)
    moreover have "settlement_bounds w1" "data_without_inline_match d data" using instruction.hyps(5) Inr by simp_all
    ultimately have "int (held_by e' w' K) = int (held_by e' w1 K) + data_flow d data"
      by (intro instruction_flow [OF instruction.hyps(3) _ assms(1) instruction.hyps(4)])
    with Inr instruction.IH show ?thesis using h instruction.hyps(2) assms(2) by simp
  qed
next
  case (outside n w1 w')
  then show ?case using outside_held [of e w1 w' K] assms(2) by simp
qed simp

lemma ledger_run_accounts_witness:
  "\<exists>w'. ledger_run (sk 9) (ai_key ` set ex_deposit_accounts) ex_w_deposit 5 w' \<and>
     int (held_by ex_env w' (ai_key ` set ex_deposit_accounts))
      = int (held_by ex_env ex_w_deposit (ai_key ` set ex_deposit_accounts)) + 5"
proof -
  let ?K = "ai_key ` set ex_deposit_accounts"
  let ?r = "process ex_env ex_borsh ex_deposit_accounts ex_deposit_data ex_w_deposit"
  have r: "run_instruction (process ex_env ex_borsh ex_deposit_accounts ex_deposit_data) ex_w_deposit = (Inr (), snd ?r)"
    unfolding run_instruction_ok using ex_deposit_runs by (metis ex_process_deposit prod.collapse)
  have flow: "data_flow ex_borsh ex_deposit_data = 5"
    "data_without_inline_match ex_borsh ex_deposit_data"
    by (simp_all add: data_flow_def data_without_inline_match_def no_inline_match_def ex_deposit_data_def
      ex_deposit_data_facts flow_eqs)
  have p: "program_id ex_env = sk 9" by (simp add: ex_env_def)
  from ledger_run.instruction [OF ledger_run.start p ex_runtime_laws order_refl _ r] flow(2) ex_settlement_bounds
  have run: "ledger_run (sk 9) ?K ex_w_deposit 5 (snd ?r)" by (simp add: flow(1))
  from ledger_run_accounts [OF _ p this] run show ?thesis by auto
qed

end
