(* ===== verification/Component_Properties.thy ===== *)
theory Component_Properties
  imports Dispatch Allocator Scenario
begin

text \<open>
  Properties of the components on their own: the arithmetic of prices, equity, reservations and
  fees, and the rolling volume counter.
\<close>

section \<open>Prices, equity, reservations\<close>

text \<open>
  The midpoint of two price limits is the exact average rounded down: the parity correction
  makes the halves add up without overflow, and the result lies between the two limits.
\<close>

theorem midpoint_exact:
  "unat (price_midpoint a b) = (unat a + unat b) div 2 \<and>
   min (unat a) (unat b) \<le> unat (price_midpoint a b) \<and> unat (price_midpoint a b) \<le> max (unat a) (unat b)"
  unfolding unat_price_midpoint by linarith

lemma saturating_double: "unat c < 2 ^ 63 \<Longrightarrow> unat (saturating_mul c (2 :: u64)) = 2 * unat c"
  by (simp add: saturating_mul_def unat_mul_small)

text \<open>
  The two equities of a position at any profit are the bounded values of the two sides,
  \<open>min 2c (max 0 (c + pnl))\<close> each, with the short side's profit the negative of the long side's, and add up to the
  pot of \<open>2c\<close>, as long as the pot fits 64 bits.
\<close>

theorem two_sided_splits_pot:
  assumes "unat c < 2 ^ 63"
  shows "unat (fst (two_sided c pnl)) = equity_value (unat c) (sint pnl) \<and>
    unat (snd (two_sided c pnl)) = equity_value (unat c) (- sint pnl) \<and>
    unat (fst (two_sided c pnl)) + unat (snd (two_sided c pnl)) = 2 * unat c"
proof -
  have l: "equity_value (unat c) (sint pnl) \<le> 2 * unat c" by (rule equity_value_le)
  with assms have f: "unat (fst (two_sided c pnl)) = equity_value (unat c) (sint pnl)"
    by (simp add: two_sided_def Let_def unat_bounded_equity)
  have s: "unat (snd (two_sided c pnl)) = 2 * unat c - equity_value (unat c) (sint pnl)"
    using f saturating_double [OF assms] l
    by (simp add: two_sided_def Let_def saturating_sub_def word_le_nat_alt unat_sub split: if_splits)
  show ?thesis using f s l equity_value_sum [of "unat c" "sint pnl"] by simp
qed

lemma two_sided_splits_pot_witness:
  "unat (fst (two_sided 100 (-30))) + unat (snd (two_sided 100 (-30))) = 200"
  using two_sided_splits_pot [of 100 "-30"] by simp

lemma unat_ucast_16_64 [simp]: "unat (ucast w :: u64) = unat w" for w :: u16
  by (rule unat_ucast_up) simp

lemma unat_ucast_16_128 [simp]: "unat (ucast w :: u128) = unat w" for w :: u16
  by (rule unat_ucast_up) simp

lemma unat_ucast_128_64_small: "unat v < 2 ^ 64 \<Longrightarrow> unat (ucast v :: u64) = unat v" for v :: u128
  by (simp add: unsigned_ucast_eq take_bit_eq_mod)

lemma fee_buffer_for_ok:
  "fee_buffer_for n bucket bps = Inr f \<longleftrightarrow>
     unat n * unat bucket * unat bps div 10000 < 2 ^ 64 \<and> unat f = unat n * unat bucket * unat bps div 10000"
proof -
  have a: "unat n * unat bucket < 2 ^ 16 * 2 ^ 64"
    using unat_lt2p [of n] unat_lt2p [of bucket] by (intro mult_strict_mono) auto
  have b: "unat n * unat bucket * unat bps < (2 ^ 16 * 2 ^ 64) * 2 ^ 16"
    by (rule mult_strict_mono [OF a]) (use unat_lt2p [of bps] in simp_all)
  have m1: "checked_mul (ucast n) (ucast bucket) = Some (ucast n * ucast bucket :: u128)"
    "unat (ucast n * ucast bucket :: u128) = unat n * unat bucket"
    using a by (simp_all add: checked_mul_def unat_mul_small)
  have m2: "checked_mul (ucast n * ucast bucket) (ucast bps) = Some (ucast n * ucast bucket * ucast bps :: u128)"
    "unat (ucast n * ucast bucket * ucast bps :: u128) = unat n * unat bucket * unat bps"
    using b m1 by (simp_all add: checked_mul_def unat_mul_small)
  have "BPS_DENOM \<noteq> 0" by (simp add: BPS_DENOM_def)
  then have z: "(ucast BPS_DENOM :: u128) \<noteq> 0"
    by (metis unat_ucast_64_128 unat_BPS_DENOM unat_0 zero_neq_numeral)
  let ?v = "ucast n * ucast bucket * ucast bps div ucast BPS_DENOM :: u128"
  have v: "unat ?v = unat n * unat bucket * unat bps div 10000" by (simp only: unat_div m2 unat_ucast_64_128 unat_BPS_DENOM)
  have "fee_buffer_for n bucket bps = ok_or_err (if unat ?v < 2 ^ 64 then Some (ucast ?v) else None) ArithmeticOverflow"
    using z by (simp add: fee_buffer_for_def m1 m2 checked_div_def)
  also have "\<dots> = Inr f \<longleftrightarrow> unat ?v < 2 ^ 64 \<and> f = ucast ?v" by (auto simp: ok_or_err_ok)
  also have "\<dots> \<longleftrightarrow> unat ?v < 2 ^ 64 \<and> unat f = unat ?v"
    by (metis unat_ucast_128_64_small word_unat_eq_iff)
  finally show ?thesis by (simp only: v)
qed

lemma reservation_iff:
  "reservation n bucket bps = Inr (c, f, t) \<longleftrightarrow>
     (let collateral = unat n * unat bucket; fee = collateral * unat bps div 10000
      in collateral + fee < 2 ^ 64 \<and> unat c = collateral \<and> unat f = fee \<and> unat t = collateral + fee)"
proof -
  have "unat t < 2 ^ 64" using unat_lt2p [of t] by simp
  then show ?thesis
    unfolding reservation_def Let_def by (auto simp: ok_iff arith_iff fee_buffer_for_ok)
qed

text \<open>
  C30. The reservation of a posted intent is computed exactly or refused: it succeeds precisely
  when collateral, fee buffer and their sum fit 64 bits, and then the collateral is contracts
  times bucket, the buffer is that times the cached maximal fee in basis points, rounded down.
\<close>

theorem reservation_exact:
  "reservation n bucket bps = Inr (c, f, t) \<longleftrightarrow>
     (let collateral = unat n * unat bucket; fee = collateral * unat bps div 10000
      in collateral + fee < 2 ^ 64 \<and> unat c = collateral \<and> unat f = fee \<and> unat t = collateral + fee)"
  by (rule reservation_iff)

section \<open>The fee buffer over the fills of an intent\<close>

text \<open>The contracts of an intent are filled one at a time; each fill releases a share of the buffer.\<close>

primrec release_all :: "nat \<Rightarrow> u64 \<Rightarrow> u64 list result" where
  "release_all 0 buffer = Inr []"
| "release_all (Suc n) buffer =
     try_res (release_fee_buffer_for_fill buffer (of_nat (Suc n)) 1) (\<lambda>released.
     try_res (release_all n (buffer - released)) (\<lambda>rest. Inr (released # rest)))"

lemma release_one:
  assumes "0 < n" "n < 2 ^ 16"
  shows "\<exists>r. release_fee_buffer_for_fill buffer (of_nat n) 1 = Inr r \<and> unat r = unat buffer div n"
proof (cases "n = 1")
  case True
  then show ?thesis by (simp add: release_fee_buffer_for_fill_def)
next
  case False
  have u: "unat (of_nat n :: u16) = n" using assms by (simp add: unat_of_nat)
  have nz: "(of_nat n :: u16) \<noteq> 0" "(of_nat n :: u16) \<noteq> 1" "\<not> (1 :: u16) > of_nat n"
    using u assms False by (auto simp: word_less_nat_alt dest: arg_cong [of _ _ unat])
  have m: "checked_mul (ucast buffer :: u128) (ucast (1 :: u16)) = Some (ucast buffer)"
    using unat_lt2p [of buffer] by (simp add: checked_mul_def)
  let ?v = "ucast buffer div ucast (of_nat n :: u16) :: u128"
  have v: "unat ?v = unat buffer div n" by (simp add: unat_div u)
  have "unat buffer div n < 2 ^ 64"
    by (rule le_less_trans [OF div_le_dividend]) (use unat_lt2p [of buffer] in simp)
  then show ?thesis
    using nz m v by (simp add: release_fee_buffer_for_fill_def no_panic_def ok_or_def Let_def
        try_res_def unat_ucast_128_64_small)
qed

lemma release_all_sum:
  "n < 2 ^ 16 \<Longrightarrow> 0 < n \<Longrightarrow> \<exists>rs. release_all n buffer = Inr rs \<and> length rs = n \<and>
     sum_list (map unat rs) = unat buffer"
proof (induction n arbitrary: buffer)
  case 0
  then show ?case by simp
next
  case (Suc n)
  obtain r where r: "release_fee_buffer_for_fill buffer (of_nat (Suc n)) 1 = Inr r"
    and rv: "unat r = unat buffer div Suc n"
    using release_one [of "Suc n" buffer] Suc.prems by auto
  have le: "unat r \<le> unat buffer" by (simp add: rv)
  then have sub: "unat (buffer - r) = unat buffer - unat r" by (simp add: unat_sub word_le_nat_alt)
  show ?case
  proof (cases "n = 0")
    case True
    then show ?thesis using r rv by (simp add: try_res_def)
  next
    case False
    with Suc obtain rs where "release_all n (buffer - r) = Inr rs" "length rs = n"
      "sum_list (map unat rs) = unat (buffer - r)" by (metis Suc_lessD gr0I)
    then show ?thesis using r le sub by (auto simp: try_res_def simp del: of_nat_Suc)
  qed
qed

text \<open>
  C31. Filling an intent never fails for its fee buffer and never strands any of it: over all of
  its contracts, filled one at a time, the released shares add up to the buffer exactly, whatever
  the rounding of each.
\<close>

theorem fee_buffer_fully_released:
  assumes "0 < n" "n < 2 ^ 16"
  shows "\<exists>rs. release_all n buffer = Inr rs \<and> length rs = n \<and> sum_list (map unat rs) = unat buffer"
  using release_all_sum assms by blast

lemma fee_buffer_fully_released_witness:
  "\<exists>rs. release_all 3 100 = Inr rs \<and> length rs = 3 \<and> sum_list (map unat rs) = 100"
  using fee_buffer_fully_released [of 3 100] by simp

section \<open>Fees and volumes\<close>

text \<open>
  The fee of a volume is that of the tier with the greatest threshold the volume reaches;
  it is one of the schedule's fees, at most its cached maximum, which is at most ten percent.
\<close>

theorem fee_of_volume:
  assumes "fee_schedule_wf s" "t \<in> set (tiers s)" "volume_threshold t \<le> v"
  shows "(\<exists>t'\<in>set (tiers s). fee_for_volume s v = tier_fee_bps t' \<and> volume_threshold t' \<le> v \<and>
      (\<forall>t''\<in>set (tiers s). volume_threshold t'' \<le> v \<longrightarrow> volume_threshold t'' \<le> volume_threshold t')) \<and>
    fee_for_volume s v \<le> max_tier_fee_bps s \<and> max_tier_fee_bps s \<le> 1000"
proof -
  have "sorted (map volume_threshold (tiers s))"
    using assms(1) by (simp add: fee_schedule_wf_def validate_tiers_ok)
  from fee_for_volume_largest [OF this assms(2,3)] fee_for_volume_le_max [OF assms(1)]
  show ?thesis by simp
qed

definition ex_tiers :: "fee_tier list" where
  "ex_tiers = [\<lparr> volume_threshold = 0, tier_fee_bps = 30 \<rparr>, \<lparr> volume_threshold = 1000, tier_fee_bps = 10 \<rparr>]"

lemma fee_of_volume_witness:
  "fee_for_volume (new_fee_schedule ex_tiers 5 255) 2000 \<le> 1000"
proof -
  have wf: "fee_schedule_wf (new_fee_schedule ex_tiers 5 255)"
    by (simp add: fee_schedule_wf_def new_fee_schedule_def ex_tiers_def validate_tiers_def)
  from fee_of_volume [OF this, of "\<lparr> volume_threshold = 0, tier_fee_bps = 30 \<rparr>" 2000]
  show ?thesis by (auto simp: new_fee_schedule_def ex_tiers_def intro: order_trans)
qed

lemma max_epoch [simp]: "max (6480000 :: u64) 1 = 6480000"
  by (simp add: max_def word_le_nat_alt)

text \<open>The log of a counter's contributions, oldest first, and the counter after them.\<close>

primrec add_volumes :: "(u64 \<times> u64) list \<Rightarrow> (user_volume, unit) prog" where
  "add_volumes [] = ret ()"
| "add_volumes (x # xs) = seq (add_volume (snd x) (fst x)) (add_volumes xs)"

lemma add_volume_start:
  assumes "add_volume a now v = (Inr u, v')" "epoch_start_slot v \<le> now"
  shows "epoch_start_slot v' \<le> now" "epoch_len v' = epoch_len v"
proof -
  obtain r c where r: "maybe_roll_epoch now v = (Inr (), r)" "v' = r\<lparr> volume_current_atoms := c \<rparr>"
    using assms(1) by (auto simp: add_volume_ok)
  have ro: "rolled v (unat now) r" using maybe_roll_epoch_total [of now v] r(1) by auto
  show "epoch_start_slot v' \<le> now" using rolled_window(1) [OF ro] assms(2) r(2) by (simp add: word_le_nat_alt)
  show "epoch_len v' = epoch_len v" using ro r(2) by (simp add: rolled_def epoch_len_def)
qed

lemma add_volumes_refines:
  assumes "counts_log v l" "add_volumes xs v = (Inr u, v')"
    "sorted (map fst xs)" "\<forall>x\<in>set xs. epoch_start_slot v \<le> fst x"
  shows "counts_log v' (l @ map (\<lambda>(t, a). (unat t, unat a)) xs) \<and> epoch_len v' = epoch_len v"
  using assms
proof (induction xs arbitrary: v l)
  case Nil
  then show ?case by (simp add: ret_ok)
next
  case (Cons x xs)
  obtain v1 where a: "add_volume (snd x) (fst x) v = (Inr (), v1)" and r: "add_volumes xs v1 = (Inr u, v')"
    using Cons.prems(2) by (auto simp: seq_ok)
  have s: "epoch_start_slot v \<le> fst x" using Cons.prems(4) by simp
  note st = add_volume_start [OF a s]
  have "\<forall>y\<in>set xs. epoch_start_slot v1 \<le> fst y" using st(1) Cons.prems(3) by (auto intro: order_trans)
  from Cons.IH [OF add_volume_refines [OF Cons.prems(1) a s] r _ this] Cons.prems(3) st(2)
  show ?case by (simp add: split_beta)
qed

text \<open>
  C32. The rolling counter refines the log of its contributions: after any sequence of additions
  at non-decreasing slots, the effective volume at a later slot is the larger of the log's sums
  over two adjacent windows of one epoch, the second of which contains that slot.
\<close>

theorem user_volume_refines_log:
  assumes "add_volumes xs (new_user_volume owner mint start bump) = (Inr u, v)"
    and "sorted (map fst xs)" and "\<forall>x\<in>set xs. start \<le> fst x"
  shows "\<exists>s. unat (effective_30d_volume v now) =
      max (volume_window (map (\<lambda>(t, a). (unat t, unat a)) xs) (s + 6480000) 6480000)
          (volume_window (map (\<lambda>(t, a). (unat t, unat a)) xs) s 6480000) \<and>
    (unat (epoch_start_slot v) \<le> unat now \<longrightarrow> s \<le> unat now \<and> unat now < s + 6480000)"
proof -
  let ?v0 = "new_user_volume owner mint start bump"
  have "counts_log ?v0 []"
    by (simp add: counts_log_def new_user_volume_def volume_window_def)
  from add_volumes_refines [OF this assms(1,2)] assms(3)
  have l: "counts_log v (map (\<lambda>(t, a). (unat t, unat a)) xs)" and e: "epoch_len v = epoch_len ?v0"
    by (simp_all add: new_user_volume_def)
  have n: "epoch_len v = 6480000"
    unfolding e by (simp add: epoch_len_def new_user_volume_def USER_VOLUME_EPOCH_SLOTS_def)
  obtain s m where "m = epoch_len v" "unat (epoch_start_slot v) \<le> unat now \<Longrightarrow> s \<le> unat now \<and> unat now < s + m"
    "unat (effective_30d_volume v now) =
      max (volume_window (map (\<lambda>(t, a). (unat t, unat a)) xs) (s + m) m)
        (volume_window (map (\<lambda>(t, a). (unat t, unat a)) xs) s m)"
    by (rule effective_volume_of_log [OF l, where now = now]) (rule that)
  then show ?thesis unfolding n by blast
qed

lemma user_volume_refines_log_witness:
  "\<exists>v. add_volumes [(10, 7)] (new_user_volume (sk 1) (sk 7) 5 255) = (Inr (), v) \<and>
     (\<exists>s. unat (effective_30d_volume v 20) =
       max (volume_window [(10, 7)] (s + 6480000) 6480000) (volume_window [(10, 7)] s 6480000))"
proof -
  have "\<exists>v. add_volumes [(10, 7)] (new_user_volume (sk 1) (sk 7) 5 255) = (Inr (), v)"
    by (simp add: prog_defs add_volume_def maybe_roll_epoch_def new_user_volume_def Let_def
      USER_VOLUME_EPOCH_SLOTS_def checked_add_def word_less_nat_alt)
  then obtain v where v: "add_volumes [(10, 7)] (new_user_volume (sk 1) (sk 7) 5 255) = (Inr (), v)" by blast
  from user_volume_refines_log [OF this, of 20] v show ?thesis by auto
qed

end
