(* ===== verification/State_Properties.thy ===== *)
theory State_Properties
  imports Dispatch Allocator Scenario
begin

text \<open>
  Properties of the state components over their lifetime: session grants, the administrators'
  multisig, the two registries, the node pool of a book, and the codes and layouts of the
  interface.
\<close>

section \<open>Sessions\<close>

text \<open>
  C33. Whatever a delegate and an owner do to a session between its creation and its next one,
  the charges made through it add up to what is recorded as used and never exceed the cumulative
  cap, none exceeds the cap per intent, and the grant itself (owner, delegate, expiry, caps,
  instruments) does not change.
\<close>

theorem session_budget:
  assumes "session_init own dlg bump ex pim cap al cr = Inr s" and "session_run s xs t"
  shows "sum_list (map unat xs) = unat (cumulative_collateral_used t) \<and>
    sum_list (map unat xs) \<le> unat cap \<and> (\<forall>a\<in>set xs. a \<le> pim) \<and> same_grant s t \<and>
    se_owner t = own \<and> delegate t = dlg \<and> expires_at_slot t = ex"
proof -
  have s: "session_wf s" "cumulative_collateral_used s = 0" "cumulative_collateral_cap s = cap"
    "per_intent_max_collateral_atoms s = pim" "se_owner s = own" "delegate s = dlg" "expires_at_slot s = ex"
    using session_init_wf [OF assms(1)] assms(1) by (simp_all add: session_init_ok)
  from session_run_inv [OF assms(2) s(1)] s show ?thesis
    by (auto simp: session_wf_def same_grant_def word_le_nat_alt)
qed

definition ex_session :: session where
  "ex_session = \<lparr> se_bump = 255, revoked = 0, n_allowed_instruments = 0, se_owner = sk 1,
     delegate = sk 2, expires_at_slot = 200, per_intent_max_collateral_atoms = 50,
     cumulative_collateral_used = 0, cumulative_collateral_cap = 80, created_at_slot = 5,
     se_version = 1, allowed_instruments = replicate 8 default_pubkey \<rparr>"

lemma ex_session_init: "session_init (sk 1) (sk 2) 255 200 50 80 [] 5 = Inr ex_session"
  by (simp add: session_init_ok ex_session_def)

lemma session_budget_witness:
  "\<exists>t. session_run ex_session [30] t \<and> sum_list (map unat [30 :: u64]) = unat (cumulative_collateral_used t)"
proof -
  let ?t = "ex_session\<lparr> cumulative_collateral_used := 30, se_version := saturating_add (se_version ex_session) 1 \<rparr>"
  have "record_intent 30 ex_session = (Inr 30, ?t)"
    by (simp add: record_intent_ok ex_session_def)
  then have "session_run ex_session ([] @ [30]) ?t"
    by (intro session_run.charge [OF session_run.start, of _ 100]) (simp add: is_active_def ex_session_def)
  then have r: "session_run ex_session [30] ?t" by simp
  from session_budget [OF ex_session_init this] r show ?thesis by blast
qed

text \<open>
  Revocation is final: once a session is revoked, no run of it charges anything more and it
  stays revoked.
\<close>

theorem revocation_final:
  assumes "session_run (revoke s) xs t"
  shows "xs = [] \<and> revoked t \<noteq> 0 \<and> \<not> is_active t slot"
  using session_run_revoked [OF assms] by (simp add: revoke_def is_active_def)

lemma revocation_final_witness: "\<not> is_active (revoke (revoke ex_session)) 100"
  using revocation_final [OF session_run.revocation [OF session_run.start]] by simp

section \<open>The administrators' multisig\<close>

text \<open>
  C34. Rotating the multisig needs its own threshold: a successful rotation was approved by at
  least \<open>threshold\<close> distinct members that signed the transaction, however often their accounts
  are listed, and leaves a well-formed configuration whose members are exactly the new signers.
\<close>

theorem rotation_needs_threshold:
  assumes run: "process_rotate_admin_multisig e accounts args w = (Inr u, w')"
    and ms: "acc_data (w (ai_key (accounts ! 1))) = DMultisig ms" and wf: "multisig_wf ms"
  shows "unat (threshold ms) \<le> card {k. is_member ms k \<and> k \<in> signed_by accounts} \<and>
    (\<exists>ms'. acc_data (w' (ai_key (accounts ! 1))) = DMultisig ms' \<and> multisig_wf ms' \<and>
       threshold ms' = ms_args_threshold args \<and>
       (\<forall>k. is_member ms' k \<longleftrightarrow> k \<in> Pubkey ` set (ms_args_signers args)))"
proof -
  from run ms obtain ms' where c: "check_threshold ms accounts = Inr ()"
    and r: "rotate (map Pubkey (ms_args_signers args)) (ms_args_threshold args) ms = (Inr (), ms')"
    and w': "w' = set_data (ai_key (accounts ! 1)) (DMultisig ms') w"
    by (auto simp: process_rotate_admin_multisig_def Let_def seq_ok bnd_ok need_accounts_ok assert_writables_ok
      assert_owners_ok read_acct_ok load_oks lift_ok edit_acct_ok)
  from c rotate_wf [OF r] show ?thesis
    by (simp add: check_threshold_card [OF wf] w' del: acc_data_set) simp
qed

definition ex_multisig :: admin_multisig where
  "ex_multisig = new_admin_multisig (sk 1) [sk 1, sk 2] 2 255"

definition ex_multisig_world :: world where
  "ex_multisig_world = ex_empty(sk 40 := owned_by (sk 9) (DMultisig ex_multisig),
     sk 41 := owned_by (sk 9) (DRaw []))"

definition ex_rotate_accounts :: "account_info list" where
  "ex_rotate_accounts = map ai_of [sk 41, sk 40, sk 1, sk 2, sk 1]"

definition ex_rotate_args :: multisig_args where
  "ex_rotate_args = \<lparr> ms_args_threshold = 1, ms_args_signers = [[3]] \<rparr>"

lemma ex_multisig_wf: "multisig_wf ex_multisig"
  unfolding ex_multisig_def by (rule new_multisig_wf(1)) (simp add: check_multisig_config_ok sk_def)

lemma ex_rotate_runs:
  "fst (process_rotate_admin_multisig ex_env ex_rotate_accounts ex_rotate_args ex_multisig_world) = Inr ()"
proof -
  have "{k. is_member ex_multisig k \<and> k \<in> signed_by ex_rotate_accounts} = {sk 1, sk 2}"
    using new_multisig_wf(2) [of "[sk 1, sk 2]" 2 "sk 1" 255]
    by (auto simp: ex_multisig_def check_multisig_config_ok sk_def signed_by_def ex_rotate_accounts_def ai_of_def)
  then have "check_threshold ex_multisig ex_rotate_accounts = Inr ()"
    by (simp add: check_threshold_card [OF ex_multisig_wf]) (simp add: ex_multisig_def new_admin_multisig_def sk_def)
  moreover have "check_multisig_config [Pubkey [3]] 1 = Inr ()"
    by (simp add: check_multisig_config_ok)
  ultimately show ?thesis
    by (simp add: process_rotate_admin_multisig_def exec_defs load_defs ex_rotate_accounts_def ai_of_def
      ex_multisig_world_def owned_by_def ex_empty_def ex_env_def ex_rotate_args_def rotate_def sk_def)
qed

lemma rotation_needs_threshold_witness:
  "2 \<le> card {k. is_member ex_multisig k \<and> k \<in> signed_by ex_rotate_accounts}"
proof -
  let ?r = "process_rotate_admin_multisig ex_env ex_rotate_accounts ex_rotate_args ex_multisig_world"
  have r: "?r = (Inr (), snd ?r)" using ex_rotate_runs by (metis prod.collapse)
  have d: "acc_data (ex_multisig_world (ai_key (ex_rotate_accounts ! 1))) = DMultisig ex_multisig"
    by (simp add: ex_multisig_world_def ex_rotate_accounts_def ai_of_def owned_by_def sk_def)
  from rotation_needs_threshold [OF r d ex_multisig_wf] show ?thesis
    by (simp add: ex_multisig_def new_admin_multisig_def)
qed

section \<open>Registries\<close>

text \<open>
  What is written to the bucket registry is what it admits: after a successful replacement a
  leverage or a collateral bucket is allowed exactly when it was in the given list, although the
  registry stores fixed arrays with a count.
\<close>

theorem bucket_registry_roundtrip:
  assumes "set_buckets ls bs r = (Inr u, r')"
  shows "(\<forall>l. allows_leverage r' l \<longleftrightarrow> l \<in> set ls) \<and> (\<forall>b. allows_bucket r' b \<longleftrightarrow> b \<in> set bs) \<and>
    ls \<noteq> [] \<and> bs \<noteq> [] \<and> distinct ls \<and> distinct bs \<and> 0 \<notin> set ls \<and> 0 \<notin> set bs"
  using set_buckets_holds [OF assms] assms
  by (auto simp: holds_buckets_def set_buckets_ok validate_inputs_ok)

lemma bucket_registry_roundtrip_witness:
  "\<exists>r'. set_buckets [20000] [5] (new_bucket_registry [10000] [1] 255) = (Inr (), r') \<and>
     allows_leverage r' 20000 \<and> \<not> allows_leverage r' 10000"
proof -
  obtain r' where r: "set_buckets [20000] [5] (new_bucket_registry [10000] [1] 255) = (Inr (), r')"
    by (auto simp: set_buckets_ok validate_inputs_ok)
  from bucket_registry_roundtrip [OF this] r show ?thesis by auto
qed

text \<open>The operations on the registry of stablecoins, and their meaning on sets of mints.\<close>

datatype mint_op = Add_Mint pubkey | Remove_Mint pubkey

primrec run_mint_op :: "mint_op \<Rightarrow> (stablecoin_registry, unit) prog" where
  "run_mint_op (Add_Mint m) = add_mint m"
| "run_mint_op (Remove_Mint m) = remove_mint m"

primrec run_mint_ops :: "mint_op list \<Rightarrow> (stablecoin_registry, unit) prog" where
  "run_mint_ops [] = ret ()"
| "run_mint_ops (x # xs) = seq (run_mint_op x) (run_mint_ops xs)"

primrec mint_op_set :: "mint_op \<Rightarrow> pubkey set \<Rightarrow> pubkey set" where
  "mint_op_set (Add_Mint m) A = insert m A"
| "mint_op_set (Remove_Mint m) A = A - {m}"

lemma run_mint_ops_refine:
  assumes "registry_wf r" "run_mint_ops xs r = (Inr u, r')"
  shows "registry_wf r' \<and> accepted r' = fold mint_op_set xs (accepted r)"
  using assms
proof (induction xs arbitrary: r)
  case Nil
  then show ?case by (simp add: ret_ok)
next
  case (Cons x xs)
  obtain r1 where x: "run_mint_op x r = (Inr (), r1)" and xs: "run_mint_ops xs r1 = (Inr u, r')"
    using Cons.prems(2) by (auto simp: seq_ok)
  have "registry_wf r1 \<and> accepted r1 = mint_op_set x (accepted r)"
    using x add_mint_set [OF Cons.prems(1)] remove_mint_set [OF Cons.prems(1)] by (cases x) auto
  with Cons.IH [OF _ xs] show ?case by simp
qed

text \<open>
  C35. The registry of stablecoins refines a set of mints: after its creation from any admissible
  list and any sequence of additions and removals (by swapping the last entry into the gap) the
  accepted mints are the corresponding insertions into and deletions from the set.
\<close>

theorem stablecoin_registry_refines_set:
  assumes "check_initial_mints ms = Inr ()"
    and "run_mint_ops xs (new_stablecoin_registry wusd dec ms bump) = (Inr u, r)"
  shows "registry_wf r \<and> {m. is_accepted r m} = fold mint_op_set xs (set ms)"
  using run_mint_ops_refine [OF new_registry_wf(1) [OF assms(1)] assms(2)] new_registry_wf(2) [OF assms(1)]
  by (simp add: accepted_def)

lemma ex_mint_ops_run:
  "\<exists>r. run_mint_ops [Add_Mint (sk 3), Remove_Mint (sk 1)] (new_stablecoin_registry (sk 8) 6 [sk 1, sk 2] 255) = (Inr (), r)"
proof -
  have c: "check_initial_mints [sk 1, sk 2] = Inr ()" by (simp add: check_initial_mints_ok)
  let ?r0 = "new_stablecoin_registry (sk 8) 6 [sk 1, sk 2] 255"
  have n: "unat (n_mints ?r0) = 2" by (simp add: new_stablecoin_registry_def)
  have "sk 3 \<notin> accepted ?r0" using new_registry_wf(2) [OF c, of "sk 8" 6 255] by (simp add: sk_def)
  then obtain r1 where r1: "add_mint (sk 3) ?r0 = (Inr (), r1)"
    using n by (auto simp: add_mint_ok accepted_def)
  have wf: "registry_wf r1" and a: "sk 1 \<in> accepted r1"
    using add_mint_set [OF new_registry_wf(1) [OF c] r1] new_registry_wf(2) [OF c, of "sk 8" 6 255] by auto
  then obtain i where "i < unat (n_mints r1)" "mints r1 ! i = sk 1"
    unfolding accepted_prefix [OF wf] by (auto simp: in_set_conv_nth)
  then obtain r2 where "remove_mint (sk 1) r1 = (Inr (), r2)"
    by (auto simp: remove_mint_ok [OF wf])
  with r1 show ?thesis by (auto simp: seq_def bnd_def ret_def)
qed

lemma stablecoin_registry_refines_set_witness:
  "\<exists>r. run_mint_ops [Add_Mint (sk 3), Remove_Mint (sk 1)] (new_stablecoin_registry (sk 8) 6 [sk 1, sk 2] 255) = (Inr (), r) \<and>
     {m. is_accepted r m} = {sk 2, sk 3}"
proof -
  have c: "check_initial_mints [sk 1, sk 2] = Inr ()" by (simp add: check_initial_mints_ok)
  obtain r where r: "run_mint_ops [Add_Mint (sk 3), Remove_Mint (sk 1)] (new_stablecoin_registry (sk 8) 6 [sk 1, sk 2] 255) = (Inr (), r)"
    using ex_mint_ops_run by blast
  have "fold mint_op_set [Add_Mint (sk 3), Remove_Mint (sk 1)] (set [sk 1, sk 2]) = {sk 2, sk 3}" by auto
  with stablecoin_registry_refines_set [OF c r] have "{m. is_accepted r m} = {sk 2, sk 3}"
    by (simp only:)
  with r show ?thesis by blast
qed

section \<open>The node pool of a book\<close>

text \<open>
  C37. The allocator never hands out a slot twice: any run of allocations from a well-formed pool
  yields distinct indices, none of which was live, leaves the contents of every live node alone,
  and the pool stays well-formed; the live nodes afterwards are the old ones and the new ones.
\<close>

theorem allocations_distinct:
  assumes "book_inv b" "\<forall>n\<in>set ns. is_used n" "nodes.claims ns b = (Inr is, b')"
  shows "book_inv b' \<and> distinct is \<and> (\<forall>i\<in>set is. unat i \<notin> live_nodes b) \<and>
    live_nodes b' = live_nodes b \<union> unat ` set is \<and> (\<forall>j\<in>live_nodes b. node_at b' j = node_at b j)"
  using nodes.claims_distinct [OF assms] .

definition ex_seat :: "u8 \<Rightarrow> seat_node" where
  "ex_seat n = \<lparr> sn_color = 0, sn_left = 0, sn_right = 0, sn_parent = 0, trader = sk n, active_intent_count = 0, sn_flags = 0 \<rparr>"

definition ex_pool :: book where
  "ex_pool = new_intent_book (sk 20) 4 255 0"

lemma ex_pool_inv: "book_inv ex_pool"
  using new_book_free [of 4] by (auto simp: book_inv_def ex_pool_def)

lemma allocations_distinct_witness:
  "\<exists>is b'. nodes.claims [NSeat (ex_seat 1), NSeat (ex_seat 2)] ex_pool = (Inr is, b') \<and> distinct is"
proof -
  have "\<exists>is b'. nodes.claims [NSeat (ex_seat 1), NSeat (ex_seat 2)] ex_pool = (Inr is, b')"
    by (simp add: claim_node_def alloc_node_def put_node_def ex_pool_def new_intent_book_def
      prog_defs NULL_IDX_def Let_def checked_add_def word_le_nat_alt)
  then obtain "is" b' where r: "nodes.claims [NSeat (ex_seat 1), NSeat (ex_seat 2)] ex_pool = (Inr is, b')" by blast
  from allocations_distinct [OF ex_pool_inv _ this] r show ?thesis by auto
qed

section \<open>Codes and layouts of the interface\<close>

text \<open>
  Every error the program raises has its own code: the mapping to the numeric code of the
  program error is injective.
\<close>

theorem error_codes_injective: "error_code x = error_code y \<longleftrightarrow> x = y"
  using error_code_inj_aux all_errors_complete by (auto dest: inj_onD)

text \<open>
  C39. Dispatch is a round trip of the tag byte, and everything that is not an instruction is
  refused without touching the ledger: empty data, and an unknown tag.
\<close>

theorem dispatch_roundtrip:
  "process e d accounts (tag_byte t # payload) w = run_tag t e d accounts payload w \<and>
   (tag_of_byte v = Inr t \<longleftrightarrow> v = tag_byte t) \<and>
   process e d accounts [] w = (Inl (Custom InvalidInstructionData), w) \<and>
   (process e d accounts (v # payload) w = (Inl (Custom UnsupportedInstruction), w) \<or> v \<in> range tag_byte)"
proof -
  have r: "tag_of_byte v = Inr t \<longleftrightarrow> v = tag_byte t" for t v
    using tag_of_byte_tag tag_byte_of_byte by blast
  have u: "tag_of_byte v = err UnsupportedInstruction \<or> (\<exists>t. tag_of_byte v = Inr t)" for v
    by (simp add: tag_of_byte_def)
  show ?thesis using u [of v] r [of v]
    by (auto simp: process_def bnd_def lift_def fail_with_def tag_of_byte_tag)
qed

text \<open>
  C40. The attestation layout is a round trip: the bytes of the documented encoding of a message
  parse, and its accessors return the type, market, timestamp, nonce and, by type, the payload
  fields that were encoded.
\<close>

theorem attestation_roundtrip:
  assumes "length pad = 3" "length market = 32" "length rest = 32"
  shows "let bs = encode_attestation ATT_TYPE_PRICE_TWAP pad market ts n (to_le_bytes price @ to_le_bytes window @ rest)
    in parse bs = Inr (Attestation bs) \<and> attestation_type (Attestation bs) = ATT_TYPE_PRICE_TWAP \<and>
       att_market_id (Attestation bs) = market \<and> timestamp (Attestation bs) = ts \<and> nonce (Attestation bs) = n \<and>
       price_fp (Attestation bs) = Inr price \<and> att_twap_window_slots (Attestation bs) = Inr window \<and>
       att_final_outcome_bps (Attestation bs) = err AttestationWrongType \<and>
       breach_mark_fp (Attestation bs) = err AttestationWrongType"
proof -
  let ?pl = "to_le_bytes price @ to_le_bytes window @ rest"
  let ?bs = "encode_attestation ATT_TYPE_PRICE_TWAP pad market ts n ?pl"
  have l: "length ?pl = 48" using assms by simp
  note f = encode_attestation_fields [OF assms(1,2) l refl, of ATT_TYPE_PRICE_TWAP ts n]
  have a: "array_ref ?bs (56 + k) m = array_ref ?pl k m" for k m
    using f(6) by (simp add: array_ref_def ATTESTATION_PAYLOAD_OFFSET_def add.commute flip: drop_drop)
  show ?thesis using f a [of 0 8] a [of 8 8]
    by (simp add: Let_def price_fp_def att_twap_window_slots_def att_final_outcome_bps_def breach_mark_fp_def
      require_type_def try_res_def ATTESTATION_PAYLOAD_OFFSET_def ATT_TYPE_RESOLUTION_def
      ATT_TYPE_PRICE_TWAP_def ATT_TYPE_HISTORICAL_LIQUIDATION_def array_ref_hit array_ref_skip)
qed

lemma attestation_roundtrip_witness:
  "price_fp (Attestation (encode_attestation ATT_TYPE_PRICE_TWAP [0, 0, 0] (replicate 32 7) 999900 5
     (to_le_bytes (123 :: u64) @ to_le_bytes (60 :: u64) @ replicate 32 0))) = Inr 123"
  using attestation_roundtrip [of "[0, 0, 0]" "replicate 32 7" "replicate 32 0" 999900 5 123 60] by (simp add: Let_def)

end
