(* ===== verification/Access_Properties.thy ===== *)
theory Access_Properties
  imports Settlement_Properties
begin

text \<open>
  Who may do what, and when: the proposals of the timelock, the global pause, and the authority to
  cancel an intent.
\<close>

lemmas guard_oks = seq_ok bnd_ok need_accounts_ok ensure_ok assert_signers_ok assert_writables_ok
  assert_owner_ok assert_owners_ok require_ok pda_ok read_acct_ok lift_ok ret_ok check_world_ok

section \<open>The timelock\<close>

lemma propose_run:
  assumes "process_propose_set_attestation_signer e accounts args w = (Inr u, w')"
  shows "\<exists>p. acc_data (w' (ai_key (accounts ! 2))) = DTimelock p \<and>
    tl_status p = TL_STATUS_PENDING \<and> proposer p = ai_key (accounts ! 0) \<and>
    sint (executable_after_unix_ts p) = sint (clock_unix_timestamp e) + sint TIMELOCK_DELAY_SECS \<and>
    new_signer p = take 32 (pr_new_signer args @ replicate 32 0)"
proof -
  from assms obtain after bump w1 where
    after: "checked_add_s (clock_unix_timestamp e) TIMELOCK_DELAY_SECS = Some after"
    and w': "w' = set_data (ai_key (accounts ! 2)) (DTimelock (set_new_signer (pr_new_signer args)
        \<lparr> tl_kind = TL_KIND_SET_ATTESTATION_SIGNER, tl_status = TL_STATUS_PENDING, tl_bump = bump,
          proposal_id = pr_proposal_id args, proposer = ai_key (accounts ! 0), tl_payload = replicate 64 0,
          proposed_slot = clock_slot e, proposed_unix_ts = clock_unix_timestamp e,
          executable_after_unix_ts = after \<rparr>)) w1"
    by (auto simp: process_propose_set_attestation_signer_def Let_def guard_oks write_proposal_def
      ok_or_err_ok modify_ok)
  have "sint after = sint (clock_unix_timestamp e) + sint TIMELOCK_DELAY_SECS"
    using after by (auto simp: checked_add_s_def checked_signed_iff)
  then show ?thesis
    by (simp add: w' set_new_signer_def new_signer_def)
qed

lemma execute_run:
  assumes "process_execute_set_attestation_signer e accounts pid w = (Inr u, w')"
    and "acc_data (w (ai_key (accounts ! 2))) = DTimelock p"
  shows "\<exists>cfg. tl_status p = TL_STATUS_PENDING \<and> \<not> sint (clock_unix_timestamp e) < sint (executable_after_unix_ts p) \<and>
    acc_data (w (ai_key (accounts ! 1))) = DConfig cfg \<and>
    authorize_admin_or_multisig e cfg accounts w = (Inr (), w) \<and>
    w' = set_data (ai_key (accounts ! 2)) (DTimelock (p\<lparr> tl_status := TL_STATUS_EXECUTED \<rparr>))
       (set_data (ai_key (accounts ! 1)) (DConfig (cfg\<lparr> attestation_signer := Pubkey (new_signer p) \<rparr>)) w)"
  using assms
  by (auto simp: process_execute_set_attestation_signer_def Let_def guard_oks load_oks edit_acct_ok modify_ok
    authorize_with_def authorize_admin_or_multisig_def asks_ok split: if_splits)

lemma propose_owned:
  assumes "creates_zeroed e" "process_propose_set_attestation_signer e accounts args w = (Inr u, w')"
  shows "acc_owner (w' (ai_key (accounts ! 2))) = program_id e"
proof -
  from assms(2) obtain bump w1 where
    c: "create_account e (accounts ! 0) (accounts ! 2) (accounts ! 3) TIMELOCK_PROPOSAL_LEN (program_id e)
       (timelock_seeds (pr_proposal_id args) @ [[bump]]) w = (Inr (), w1)"
    and p: "write_proposal e (accounts ! 0) (accounts ! 2) args bump w1 = (Inr u, w')"
    by (auto simp: process_propose_set_attestation_signer_def Let_def guard_oks authorize_with_def
      authorize_admin_or_multisig_def asks_ok split: if_splits)
  have "acc_owner (w' k) = acc_owner (w1 k)" for k using p by (auto simp: write_proposal_def guard_oks modify_ok)
  with create_accountD(1) [OF assms(1) c] show ?thesis by simp
qed

section \<open>The global pause\<close>

lemma unpaused_ok:
  "unpaused_config ai w = (Inr cfg, w') \<longleftrightarrow> acc_data (w (ai_key ai)) = DConfig cfg \<and> global_pause cfg = 0 \<and> w' = w"
  by (auto simp: unpaused_config_def guard_oks load_oks)

definition saw_unpaused :: "env \<Rightarrow> account_info list \<Rightarrow> world \<Rightarrow> bool" where
  "saw_unpaused e accounts w \<longleftrightarrow> (\<exists>ai\<in>set accounts. \<exists>cfg.
     acc_owner (w (ai_key ai)) = program_id e \<and> acc_data (w (ai_key ai)) = DConfig cfg \<and> global_pause cfg = 0)"

lemma saw_unpausedI:
  "i < length accounts \<Longrightarrow> acc_owner (w (ai_key (accounts ! i))) = program_id e \<Longrightarrow>
     acc_data (w (ai_key (accounts ! i))) = DConfig cfg \<Longrightarrow> global_pause cfg = 0 \<Longrightarrow> saw_unpaused e accounts w"
  unfolding saw_unpaused_def by (metis nth_mem)

lemma post_checks_unpaused:
  "post_checks e own cfg_ai ia ba ma args w = (Inr x, w') \<Longrightarrow>
     \<exists>cfg. acc_owner (w (ai_key cfg_ai)) = program_id e \<and> acc_data (w (ai_key cfg_ai)) = DConfig cfg \<and>
       global_pause cfg = 0"
  by (auto simp: post_checks_def guard_oks load_oks)

lemma do_post_unpaused:
  "do_post_intent_inner e own payer cfg_ai ia ba ma sa as off args w = (Inr x, w') \<Longrightarrow>
     \<exists>cfg. acc_owner (w (ai_key cfg_ai)) = program_id e \<and> acc_data (w (ai_key cfg_ai)) = DConfig cfg \<and>
       global_pause cfg = 0"
  by (auto simp: do_post_intent_inner_def bnd_ok dest!: post_checks_unpaused)

lemma check_session_same: "check_session e dlg ia sa w = (Inr k, w') \<Longrightarrow> w' = w"
  by (auto simp: check_session_def guard_oks)

lemma posts_unpaused:
  "process_post_intent e accounts args w = (Inr u, w') \<Longrightarrow> saw_unpaused e accounts w"
  "process_post_intent_delegated e accounts args w = (Inr u, w') \<Longrightarrow> saw_unpaused e accounts w"
  by (auto simp: process_post_intent_def process_post_intent_delegated_def Let_def guard_oks
    dest!: do_post_unpaused check_session_same intro: saw_unpausedI [of 1] saw_unpausedI [of 2])

lemma settlements_unpaused:
  "process_liquidate e accounts n w = (Inr u, w') \<Longrightarrow> saw_unpaused e accounts w"
  "process_resolve e accounts n w = (Inr u, w') \<Longrightarrow> saw_unpaused e accounts w"
  "process_close_mutual e accounts n w = (Inr u, w') \<Longrightarrow> saw_unpaused e accounts w"
  by (auto simp: process_liquidate_def process_resolve_def process_close_mutual_def Let_def guard_oks unpaused_ok
    intro: saw_unpausedI [of 1] saw_unpausedI [of 2])

lemma changes_unpaused:
  "process_novate e accounts side w = (Inr u, w') \<Longrightarrow> saw_unpaused e accounts w"
  "process_claim_reentry e accounts cargs w = (Inr u, w') \<Longrightarrow> saw_unpaused e accounts w"
  "process_create_session e accounts sargs w = (Inr u, w') \<Longrightarrow> saw_unpaused e accounts w"
  by (auto simp: process_novate_def process_claim_reentry_def claim_checks_def process_create_session_def Let_def
    guard_oks unpaused_ok load_oks intro: saw_unpausedI [of 1] saw_unpausedI [of 2])

definition pausable :: "instruction_tag list" where
  "pausable = [Tag_PostIntent, Tag_PostIntentDelegated, Tag_CreateSession, Tag_Novate, Tag_ClaimReentry,
     Tag_Liquidate, Tag_Resolve, Tag_CloseMutual]"

lemma process_tag:
  "process e d accounts (tag_byte t # payload) w = run_tag t e d accounts payload w"
  by (simp add: process_def bnd_def lift_def tag_of_byte_tag)

lemma with_args_ok:
  "with_args x k w = (Inr u, w') \<longleftrightarrow> (\<exists>a. x = Some a \<and> k a w = (Inr u, w'))"
  by (auto simp: with_args_def fail_with_ok split: option.splits)

text \<open>
  C25. The global pause stops the listed instructions: posting intents (directly or through a
  session), creating sessions, novation, re-entry and every settlement succeed only if they were
  given a configuration of the program that is not paused.
\<close>

theorem pause_blocks:
  assumes "t \<in> set pausable" and "process e d accounts (tag_byte t # payload) w = (Inr u, w')"
  shows "\<exists>ai\<in>set accounts. \<exists>cfg. acc_owner (w (ai_key ai)) = program_id e \<and>
    acc_data (w (ai_key ai)) = DConfig cfg \<and> global_pause cfg = 0"
  unfolding saw_unpaused_def [symmetric]
  using assms posts_unpaused settlements_unpaused changes_unpaused
  unfolding process_tag pausable_def by (auto simp: with_args_ok)

section \<open>Cancelling\<close>

lemma release_margin_ok:
  "release_margin own mint b a m = (Inr u, m') \<longleftrightarrow>
     ma_owner m = own \<and> ma_mint m = mint \<and> ma_bump m = b \<and> move_reserved_to_free a m = (Inr u, m')"
  by (auto simp: release_margin_def guard_oks gets_ok)

lemma lookup_ok:
  "lookup_for_cancel b nid = Inr (i, side, n, own) \<longleftrightarrow>
     find_intent_by_id b nid = Inr (i, side) \<and> intent b i = Inr n \<and> seat_trader b (owner_seat n) = Inr own"
  by (auto simp: lookup_for_cancel_def try_res_ok)

text \<open>Removing the intent and paying its reservation back.\<close>

lemma finish_cancel_pays:
  assumes run: "finish_cancel e mint ba ma side i n own w = (Inr u, w')"
    and b: "acc_data (w (ai_key ba)) = DBook b"
  shows "\<exists>m m'. margin_at w (ai_key ma) = Some m \<and> ma_owner m = own \<and> ma_mint m = mint \<and>
    margin_at w' (ai_key ma) = Some m' \<and>
    unat (free_collateral m') = unat (free_collateral m) + (unat (intent_reserved n) + unat (fee_buffer n)) \<and>
    unat (reserved_collateral m) = unat (reserved_collateral m') + (unat (intent_reserved n) + unat (fee_buffer n)) \<and>
    locked_collateral m' = locked_collateral m \<and>
    (\<exists>b'. remove_intent side i (owner_seat n) b = (Inr (), b') \<and> acc_data (w' (ai_key ba)) = DBook b') \<and>
    only_changes e {ai_key ba, ai_key ma} w w'"
proof -
  from run obtain bump w1 amt where
    bk: "edit_acct load_book DBook ba (remove_intent side i (owner_seat n)) w = (Inr (), w1)"
    and amt: "unat amt = unat (intent_reserved n) + unat (fee_buffer n)"
    and mg: "edit_acct load_margin DMargin ma (release_margin own mint bump amt) w1 = (Inr u, w')"
    by (auto simp: finish_cancel_def guard_oks ok_or_err_ok arith_iff)
  from bk b obtain b' where b': "remove_intent side i (owner_seat n) b = (Inr (), b')" "w1 = set_data (ai_key ba) (DBook b') w"
    by (auto simp: edit_acct_ok load_oks)
  from mg obtain m m' where m: "acc_data (w1 (ai_key ma)) = DMargin m" "release_margin own mint bump amt m = (Inr u, m')"
    "w' = set_data (ai_key ma) (DMargin m') w1"
    by (auto simp: edit_acct_ok load_oks)
  have ne: "ai_key ma \<noteq> ai_key ba" using m(1) b' by auto
  have "only_changes e {ai_key ba, ai_key ma} w w'"
    unfolding m(3) b'(2) by (rule only_changes_trans [OF only_changes_set only_changes_set]) simp_all
  moreover have "ma_owner m = own" "ma_mint m = mint" "unat (free_collateral m') = unat (free_collateral m) + unat amt"
    "unat (reserved_collateral m) = unat (reserved_collateral m') + unat amt"
    "locked_collateral m' = locked_collateral m"
    using m(2) by (auto simp: release_margin_ok move_oks)
  ultimately show ?thesis using amt m b' ne by (auto simp: margin_at_def)
qed

text \<open>
  C26. Cancelling: a successful cancellation was asked for by the intent's own trader, who signed,
  or came after its expiration; it returns to the trader's margin account, from reserved to
  free, exactly the collateral and fee buffer the intent still held, and no other account of the
  program than the book and that margin account changes.
\<close>

theorem cancel_returns_reservation:
  assumes "process_cancel_intent e accounts nid w = (Inr u, w')"
    and "acc_data (w (ai_key (accounts ! 2))) = DBook b"
  shows "\<exists>i side n own m m'. find_intent_by_id b nid = Inr (i, side) \<and> intent b i = Inr n \<and>
    seat_trader b (owner_seat n) = Inr own \<and>
    is_signer (accounts ! 0) \<and> (ai_key (accounts ! 0) = own \<or> expiration_slot n \<le> clock_slot e) \<and>
    margin_at w (ai_key (accounts ! 3)) = Some m \<and> ma_owner m = own \<and>
    margin_at w' (ai_key (accounts ! 3)) = Some m' \<and>
    unat (free_collateral m') = unat (free_collateral m) + (unat (intent_reserved n) + unat (fee_buffer n)) \<and>
    unat (reserved_collateral m) = unat (reserved_collateral m') + (unat (intent_reserved n) + unat (fee_buffer n)) \<and>
    locked_collateral m' = locked_collateral m \<and>
    only_changes e {ai_key (accounts ! 2), ai_key (accounts ! 3)} w w'"
proof -
  from assms obtain inst i side n own where i: "acc_data (w (ai_key (accounts ! 1))) = DInstrument inst"
    and f: "lookup_for_cancel b nid = Inr (i, side, n, own)"
    and s: "is_signer (accounts ! 0)" "ai_key (accounts ! 0) = own \<or> expiration_slot n \<le> clock_slot e"
    and r: "finish_cancel e (ic_mint inst) (accounts ! 2) (accounts ! 3) side i n own w = (Inr u, w')"
    by (auto simp: process_cancel_intent_def Let_def guard_oks load_oks)
  from finish_cancel_pays [OF r assms(2)] f s show ?thesis
    unfolding lookup_ok by blast
qed

section \<open>Concrete runs\<close>

definition ex_tl_key :: pubkey where
  "ex_tl_key = Pubkey (SEED_TIMELOCK @ to_le_bytes (7 :: u64))"

definition ex_tl_world :: world where
  "ex_tl_world = ex_empty(sk 30 := owned_by (sk 9) (DConfig (new_program_config (sk 1) (sk 8) (sk 4) 300 255)))"

definition ex_propose_args :: propose_args where
  "ex_propose_args = \<lparr> pr_proposal_id = 7, pr_new_signer = replicate 32 3 \<rparr>"

definition ex_propose_accounts :: "account_info list" where
  "ex_propose_accounts = map ai_of [sk 1, sk 30, ex_tl_key, sk 0]"

definition ex_execute_accounts :: "account_info list" where
  "ex_execute_accounts = map ai_of [sk 1, sk 30, ex_tl_key]"

definition ex_later :: env where
  "ex_later = ex_env\<lparr> clock_unix_timestamp := 1086400 \<rparr>"

lemma ex_tl_key_find: "ex_find (timelock_seeds 7) = (ex_tl_key, 255)"
  by (simp add: ex_find_def timelock_seeds_def ex_tl_key_def)

lemma ex_tl_key_not: "ex_tl_key \<noteq> sk n" "sk n \<noteq> ex_tl_key"
proof -
  have "length (key_bytes ex_tl_key) \<noteq> length (key_bytes (sk n))"
    by (simp add: ex_tl_key_def sk_def)
  then show "ex_tl_key \<noteq> sk n" "sk n \<noteq> ex_tl_key" by auto
qed

definition ex_proposal :: timelock_proposal where
  "ex_proposal = set_new_signer (replicate 32 3)
        \<lparr> tl_kind = TL_KIND_SET_ATTESTATION_SIGNER, tl_status = TL_STATUS_PENDING, tl_bump = 255,
          proposal_id = 7, proposer = sk 1, tl_payload = replicate 64 0,
          proposed_slot = 100, proposed_unix_ts = 1000000,
          executable_after_unix_ts = 1086400 \<rparr>"

lemma ex_propose_runs:
  "process_propose_set_attestation_signer ex_env ex_propose_accounts ex_propose_args ex_tl_world =
     (Inr (), ex_tl_world(ex_tl_key := \<lparr> acc_owner = sk 9, acc_lamports = 1000, acc_data = DTimelock ex_proposal \<rparr>))"
  by (simp add: process_propose_set_attestation_signer_def exec_defs load_defs ex_propose_accounts_def ai_of_def
    ex_tl_world_def owned_by_def ex_empty_def ex_env_def ex_propose_args_def authorize_with_def
    authorize_admin_or_multisig_def ex_tl_key_find ex_tl_key_not new_program_config_def write_proposal_def
    ex_create_def TIMELOCK_PROPOSAL_LEN_def checked_add_s_def checked_signed_def in_signed_range_def
    TIMELOCK_DELAY_SECS_def ex_proposal_def)

definition ex_proposed :: world where
  "ex_proposed = ex_tl_world(ex_tl_key := \<lparr> acc_owner = sk 9, acc_lamports = 1000, acc_data = DTimelock ex_proposal \<rparr>)"

lemma ex_execute_runs:
  "fst (process_execute_set_attestation_signer ex_later ex_execute_accounts 7 ex_proposed) = Inr ()"
  by (simp add: process_execute_set_attestation_signer_def exec_defs load_defs ex_execute_accounts_def ai_of_def
    ex_proposed_def ex_tl_world_def owned_by_def ex_empty_def ex_later_def ex_env_def authorize_with_def
    authorize_admin_or_multisig_def ex_tl_key_find ex_tl_key_not new_program_config_def ex_proposal_def
    set_new_signer_def)

lemma pause_blocks_witness:
  "\<exists>ai\<in>set ex_liquidate_accounts. \<exists>cfg. acc_data (ex_w_settle (ai_key ai)) = DConfig cfg \<and> global_pause cfg = 0"
proof -
  let ?r = "process_liquidate (ex_oracle ex_breach) ex_liquidate_accounts 0 ex_w_settle"
  have "process (ex_oracle ex_breach) ex_borsh ex_liquidate_accounts (tag_byte Tag_Liquidate # [0]) ex_w_settle = ?r"
    unfolding process_tag by (simp add: with_args_def)
  also have "?r = (Inr (), snd ?r)" using ex_liquidate_runs by (metis prod.collapse)
  finally have r: "process (ex_oracle ex_breach) ex_borsh ex_liquidate_accounts (tag_byte Tag_Liquidate # [0]) ex_w_settle
    = (Inr (), snd ?r)" .
  from pause_blocks [OF _ r] show ?thesis by (auto simp: pausable_def)
qed

section \<open>A cancellation\<close>

definition ex_book_key :: pubkey where "ex_book_key = sk 50"

definition ex_resting :: "u8 \<Rightarrow> u64 \<Rightarrow> intent_node" where
  "ex_resting side price = \<lparr> in_side = side, in_color = RB_BLACK, in_flags = 0, in_left = 0, in_right = 0,
     in_parent = 0, price_limit_fp = price, intent_id = 1, owner_seat = 1,
     contracts_total = 2, contracts_remaining = 2, expiration_slot = 500,
     post_seq = 1, intent_reserved = 20, fee_buffer = 3 \<rparr>"

definition ex_seat_of :: "u8 \<Rightarrow> seat_node" where
  "ex_seat_of n = \<lparr> sn_color = RB_BLACK, sn_left = 0, sn_right = 0, sn_parent = 0, trader = sk n,
     active_intent_count = 1, sn_flags = 0 \<rparr>"

definition ex_resting_book :: book where
  "ex_resting_book = (new_intent_book (sk 20) 16 255 0)\<lparr> bk_nodes := [NFree 0, NSeat (ex_seat_of 1),
     NIntent (ex_resting SIDE_LONG 500000000000000000), NFree 0], node_count := 3,
     long_tree_root := 2, seat_tree_root := 1, bk_next_intent_id := 2, bk_next_seq := 2 \<rparr>"

definition ex_cancel_accounts :: "account_info list" where
  "ex_cancel_accounts = map ai_of [sk 1, sk 20, sk 50, ex_margin_key (sk 1)]"

definition ex_w_cancel :: world where
  "ex_w_cancel = ex_empty(sk 20 := owned_by (sk 9) (DInstrument (ex_instrument\<lparr> ic_book := sk 50 \<rparr>)),
     sk 50 := owned_by (sk 9) (DBook ex_resting_book),
     ex_margin_key (sk 1) := owned_by (sk 9) (DMargin (ex_margin (sk 1) 10 23 0)))"

lemma ex_lookup: "lookup_for_cancel ex_resting_book 1 = Inr (2, SIDE_LONG, ex_resting SIDE_LONG 500000000000000000, sk 1)"
  by (simp add: lookup_ok find_intent_by_id_def intent_ok seat_trader_def seat_ok try_res_ok)
   (simp add: ex_resting_book_def ex_resting_def ex_seat_of_def new_intent_book_def)

lemmas tree_eval = itree_remove_def rb_remove_def intent_ops_def tree_root_def itree_left_def itree_right_def
  itree_parent_def itree_color_def itree_set_left_def itree_set_right_def itree_set_parent_def itree_set_color_def
  set_tree_root_def rb_transplant_def rb_splice_def rb_remove_fixup_def pool_fuel_def intent_def seat_def
  free_node_def seat_mut_def intent_mut_def put_node_def NULL_IDX_def RB_BLACK_def RB_RED_def SIDE_LONG_def SIDE_SHORT_def

lemma ex_removes: "\<exists>b. remove_intent SIDE_LONG 2 1 ex_resting_book = (Inr (), b)"
  by (simp add: remove_intent_def tree_eval prog_defs ex_resting_book_def ex_resting_def ex_seat_of_def
    new_intent_book_def Let_def saturating_sub_def)

lemma ex_env_simps [simp]:
  "program_id ex_env = sk 9" "clock_slot ex_env = 100"
  "find_program_address ex_env (margin_seeds (sk n) (sk 7)) = (ex_margin_key (sk n), 255)"
  by (simp_all add: ex_env_def ex_find_def margin_seeds_def ex_margin_key_def)

lemma ex_resting_fields [simp]:
  "intent_reserved (ex_resting s p) = 20" "fee_buffer (ex_resting s p) = 3" "owner_seat (ex_resting s p) = 1"
  "expiration_slot (ex_resting s p) = 500"
  by (simp_all add: ex_resting_def)

lemma ex_cancel_runs: "fst (process_cancel_intent ex_env ex_cancel_accounts 1 ex_w_cancel) = Inr ()"
proof -
  obtain b where b: "remove_intent SIDE_LONG 2 1 ex_resting_book = (Inr (), b)" using ex_removes by blast
  show ?thesis
    by (simp add: process_cancel_intent_def exec_defs load_defs ex_cancel_accounts_def ai_of_def
      ex_w_cancel_def owned_by_def ex_empty_def ex_lookup finish_cancel_def b release_margin_def
      move_reserved_to_free_def ex_margin_def new_margin_account_def update_checked_def checked_add_def checked_sub_def
      debit_reserved_def credit_free_def)
qed

lemma cancel_returns_reservation_witness:
  "\<exists>m'. margin_at (snd (process_cancel_intent ex_env ex_cancel_accounts 1 ex_w_cancel)) (ex_margin_key (sk 1)) = Some m' \<and>
     unat (free_collateral m') = 33"
proof -
  let ?r = "process_cancel_intent ex_env ex_cancel_accounts 1 ex_w_cancel"
  have r: "?r = (Inr (), snd ?r)" using ex_cancel_runs by (metis prod.collapse)
  have b: "acc_data (ex_w_cancel (ai_key (ex_cancel_accounts ! 2))) = DBook ex_resting_book"
    by (simp add: ex_w_cancel_def ex_cancel_accounts_def ai_of_def owned_by_def)
  have f: "find_intent_by_id ex_resting_book 1 = Inr (2, SIDE_LONG)"
    "intent ex_resting_book 2 = Inr (ex_resting SIDE_LONG 500000000000000000)"
    using ex_lookup by (auto simp: lookup_ok)
  have m: "margin_at ex_w_cancel (ex_margin_key (sk 1)) = Some (ex_margin (sk 1) 10 23 0)"
    by (simp add: ex_w_cancel_def margin_at_def owned_by_def)
  from cancel_returns_reservation [OF r b] f m show ?thesis
    by (auto simp: ex_cancel_accounts_def ai_of_def ex_margin_def)
qed

end
