(* ===== verification/Book_Frame.thy ===== *)
theory Book_Frame
  imports Dispatch
begin

text \<open>
  What no operation on a structure changes, also when it fails half-way: \<open>always P m\<close> says that \<open>P\<close>
  holds after \<open>m\<close> whatever its result, if it held before. It composes, so the identity of a margin
  account and of an intent book is preserved by every operation on them, the red-black tree
  algorithms included; the rules are in the collection \<open>always_intros\<close>.
\<close>

named_theorems always_intros \<open>introduction rules for always\<close>

definition always :: "('s \<Rightarrow> bool) \<Rightarrow> ('s, 'e, 'a) sm \<Rightarrow> bool" where
  "always P m \<longleftrightarrow> (\<forall>s. P s \<longrightarrow> P (snd (m s)))"

lemma alwaysD: "always P m \<Longrightarrow> m s = (r, s') \<Longrightarrow> P s \<Longrightarrow> P s'"
  unfolding always_def by (metis snd_conv)

lemma always_reads: "reads_only m \<Longrightarrow> always P m"
  by (simp add: always_def reads_only_def)

lemma always_basic [always_intros]:
  "always P (ret a)" "always P (fail_with x)" "always P (lift r)" "always P (gets f)" "always P (asks g)"
  "always P (require c x)" "always P (ensure c pe)"
  by (auto intro!: always_reads)

lemma always_bnd [always_intros]: "always P m \<Longrightarrow> (\<And>a. always P (f a)) \<Longrightarrow> always P (bnd m f)"
  unfolding always_def bnd_def by (auto split: prod.splits sum.splits)

lemma always_seq [always_intros]: "always P m \<Longrightarrow> always P k \<Longrightarrow> always P (seq m k)"
  unfolding seq_def by (rule always_bnd)

lemma always_when [always_intros]: "always P m \<Longrightarrow> always P (when_do c m)"
  by (simp add: when_do_def always_basic)

lemma always_if [always_intros]: "always P m \<Longrightarrow> always P k \<Longrightarrow> always P (if c then m else k)"
  by simp

lemma always_case_prod [always_intros]:
  "(\<And>a b. always P (f a b)) \<Longrightarrow> always P (case p of (a, b) \<Rightarrow> f a b)"
  by (simp split: prod.split)

lemma always_option [always_intros]:
  "always P m \<Longrightarrow> (\<And>a. always P (f a)) \<Longrightarrow> always P (case x of None \<Rightarrow> m | Some a \<Rightarrow> f a)"
  by (simp split: option.split)

lemma always_modify: "(\<And>s. P s \<Longrightarrow> P (f s)) \<Longrightarrow> always P (modify f)"
  by (simp add: always_def modify_def)

lemma always_update_checked:
  "(\<And>s g. P s \<Longrightarrow> P (upd g s)) \<Longrightarrow> always P (update_checked fld upd h x)"
  unfolding update_checked_def by (intro always_intros always_modify)

section \<open>Margin accounts\<close>

definition holder_of :: "margin_account \<Rightarrow> u8 \<times> pubkey \<times> pubkey" where
  "holder_of m = (ma_bump m, ma_owner m, ma_mint m)"

abbreviation holder_is :: "u8 \<times> pubkey \<times> pubkey \<Rightarrow> margin_account \<Rightarrow> bool" where
  "holder_is h m \<equiv> holder_of m = h"

lemma always_margin [always_intros]:
  "always (holder_is h) (credit_free a)" "always (holder_is h) (debit_free a)"
  "always (holder_is h) (credit_reserved a)" "always (holder_is h) (debit_reserved a)"
  "always (holder_is h) (credit_locked a)" "always (holder_is h) (debit_locked a)"
  "always (holder_is h) (add_pnl d)" "always (holder_is h) (sub_pnl d)"
  by (simp_all add: credit_free_def debit_free_def credit_reserved_def debit_reserved_def credit_locked_def
    debit_locked_def add_pnl_def sub_pnl_def always_update_checked always_modify holder_of_def)

lemma always_moves [always_intros]:
  "always (holder_is h) (move_free_to_reserved a)" "always (holder_is h) (move_reserved_to_free a)"
  "always (holder_is h) (move_reserved_to_locked a)" "always (holder_is h) (move_locked_to_free a)"
  unfolding move_free_to_reserved_def move_reserved_to_free_def move_reserved_to_locked_def move_locked_to_free_def
  by (intro always_intros)+

lemma always_margin_programs [always_intros]:
  "always (holder_is h) (settle_fill b rel tk fee)" "always (holder_is h) (reserve_margin k c bp r t)"
  "always (holder_is h) (release_margin k c bp r)" "always (holder_is h) (check_holder k c)"
  "always (holder_is h) (pay_substitutor q rel d)" "always (holder_is h) (charge_counterparty q rel d)"
  "always (holder_is h) (settle_side q q')"
  unfolding settle_fill_def reserve_margin_def release_margin_def check_holder_def pay_substitutor_def
    charge_counterparty_def settle_side_def Let_def
  by (intro always_intros)+

section \<open>Books\<close>

definition same_book :: "book \<Rightarrow> book \<Rightarrow> bool" where
  \<comment> \<open>the identity of a book, its capacity, and its two counters, which only grow\<close>
  "same_book b b' \<longleftrightarrow> bk_instrument b' = bk_instrument b \<and> bk_bump b' = bk_bump b \<and>
     bk_capacity b' = bk_capacity b \<and> cached_max_fee_bps b' = cached_max_fee_bps b \<and>
     length (bk_nodes b') = length (bk_nodes b) \<and>
     bk_next_intent_id b \<le> bk_next_intent_id b' \<and> bk_next_seq b \<le> bk_next_seq b'"

lemma same_book_refl [simp]: "same_book b b"
  by (simp add: same_book_def)

lemma same_book_trans: "same_book a b \<Longrightarrow> same_book b c \<Longrightarrow> same_book a c"
  by (auto simp: same_book_def)

lemma same_book_updates [simp]:
  "same_book b (c\<lparr> freelist_head := i \<rparr>) = same_book b c" "same_book b (c\<lparr> node_count := i \<rparr>) = same_book b c"
  "same_book b (c\<lparr> long_tree_root := i \<rparr>) = same_book b c" "same_book b (c\<lparr> short_tree_root := i \<rparr>) = same_book b c"
  "same_book b (c\<lparr> seat_tree_root := i \<rparr>) = same_book b c" "same_book b (put_node i n c) = same_book b c"
  "same_book b (c\<lparr> bk_nodes := (bk_nodes c)[j := n] \<rparr>) = same_book b c"
  by (simp_all add: same_book_def put_node_def)

lemma always_pool [always_intros]:
  "always (same_book b) (intent_mut i f)" "always (same_book b) (seat_mut i g)"
  "always (same_book b) (write_intent i n)" "always (same_book b) (write_seat i s)"
  "always (same_book b) alloc_node" "always (same_book b) (free_node i)"
  unfolding intent_mut_def seat_mut_def write_intent_def write_seat_def alloc_node_def free_node_def Let_def
  by ((intro always_intros always_modify)+; simp add: same_book_def put_node_def)+

lemma always_counters [always_intros]:
  "always (same_book b) next_seq" "always (same_book b) next_intent_id"
proof -
  have "same_book b (snd (next_seq c))" if "same_book b c" for c
    using that by (auto simp: next_seq_def prog_defs same_book_def word_le_nat_alt
      split: option.split dest!: checked_add_Some [THEN iffD1])
  then show "always (same_book b) next_seq" by (simp add: always_def)
  have "same_book b (snd (next_intent_id c))" if "same_book b c" for c
    using that by (auto simp: next_intent_id_def prog_defs same_book_def word_le_nat_alt
      split: option.split dest!: checked_add_Some [THEN iffD1])
  then show "always (same_book b) next_intent_id" by (simp add: always_def)
qed

section \<open>The red-black tree algorithms\<close>

definition ops_always :: "('s \<Rightarrow> bool) \<Rightarrow> 's rb_ops \<Rightarrow> bool" where
  "ops_always P t \<longleftrightarrow> always P (op_root t) \<and> (\<forall>i. always P (op_set_root t i)) \<and>
     (\<forall>i. always P (op_left t i)) \<and> (\<forall>i. always P (op_right t i)) \<and>
     (\<forall>i. always P (op_parent t i)) \<and> (\<forall>i. always P (op_color t i)) \<and>
     (\<forall>i v. always P (op_set_left t i v)) \<and> (\<forall>i v. always P (op_set_right t i v)) \<and>
     (\<forall>i v. always P (op_set_parent t i v)) \<and> (\<forall>i v. always P (op_set_color t i v))"

lemma ops_alwaysD:
  assumes "ops_always P t"
  shows "always P (op_root t)" "always P (op_set_root t i)" "always P (op_left t i)" "always P (op_right t i)"
    "always P (op_parent t i)" "always P (op_color t i)" "always P (op_set_left t i v)"
    "always P (op_set_right t i v)" "always P (op_set_parent t i v)" "always P (op_set_color t i c)"
  using assms by (simp_all add: ops_always_def)

lemma always_rotations:
  assumes "ops_always P t"
  shows "always P (rb_rotate_left t x)" "always P (rb_rotate_right t x)" "always P (rb_transplant t u v)"
  unfolding rb_rotate_left_def rb_rotate_right_def rb_transplant_def
  by (intro always_intros ops_alwaysD [OF assms])+

lemma always_link:
  assumes t: "ops_always P t" and c: "\<And>r. always P (cmp r)"
  shows "always P (rb_link t cmp on_equal fuel idx)"
proof -
  note ops = ops_alwaysD [OF t] and rots = always_rotations [OF t]
  have d: "always P (rb_descend t cmp on_equal n r)" for n r
    by (induction n arbitrary: r) (simp_all, (intro always_intros ops c | assumption)+)
  have s: "always P (rb_insert_step t z)" for z
    unfolding rb_insert_step_def rb_fix_recolor_def by (intro always_intros ops rots)
  have rp: "always P (rb_red_parent t z)" for z
    unfolding rb_red_parent_def by (intro always_intros ops)
  have l: "always P (rb_insert_loop t n z)" for n z
    by (induction n arbitrary: z) (simp_all, (intro always_intros s rp | assumption)+)
  show ?thesis
    unfolding rb_link_def rb_insert_fixup_def by (intro always_intros ops d l)
qed

lemma always_remove:
  assumes t: "ops_always P t"
  shows "always P (rb_remove t fuel z)"
proof -
  note ops = ops_alwaysD [OF t] and rots = always_rotations [OF t]
  have m: "always P (rb_minimum t n i)" for n i
    by (induction n arbitrary: i) (simp_all, (intro always_intros ops conjI impI | assumption)+)
  have s: "always P (rb_remove_step_left t x)" "always P (rb_remove_step_right t x)" for x
    unfolding rb_remove_step_left_def rb_remove_step_right_def by (intro always_intros ops rots)+
  have l: "always P (rb_remove_loop t n x y)" for n x y
    by (induction n arbitrary: x y) (simp_all, (intro always_intros ops s | assumption)+)
  show ?thesis
    unfolding rb_remove_def rb_splice_def rb_splice_both_def rb_remove_fixup_def
    by (intro always_intros ops rots m l)
qed

lemma ops_always_trees: "ops_always (same_book b) (intent_ops side)" "ops_always (same_book b) seat_ops"
  unfolding ops_always_def
  by (simp_all add: intent_ops_def seat_ops_def set_tree_root_def itree_set_left_def itree_set_right_def
    itree_set_parent_def itree_set_color_def stree_set_left_def stree_set_right_def stree_set_parent_def
    stree_set_color_def always_intros always_modify)

lemma always_trees [always_intros]:
  "always (same_book b) (itree_insert side i)" "always (same_book b) (itree_remove side i)"
  "always (same_book b) (seat_find_or_create k)"
  unfolding itree_insert_def itree_remove_def seat_find_or_create_def stree_insert_def
  by (intro always_intros always_link always_remove ops_always_trees)+

section \<open>The programs of the handlers over a book\<close>

lemma always_book_programs [always_intros]:
  "always (same_book b) (place_intent k s f p c x cl bf)" "always (same_book b) (remove_intent s i j)"
  "always (same_book b) (match_in_book e ik pk bu l sh)" "always (same_book b) (substitute_in_book e po bu k args)"
proof -
  have r: "always (same_book b) (remove_if_filled s i n)" for s i n
    unfolding remove_if_filled_def by (intro always_intros)
  have c: "always (same_book b) (consume_in_book bu ll sl li si l s)" for bu ll sl li si l s
    unfolding consume_in_book_def by (intro always_intros r)
  show "always (same_book b) (place_intent k s f p c x cl bf)" "always (same_book b) (remove_intent s i j)"
    "always (same_book b) (match_in_book e ik pk bu l sh)" "always (same_book b) (substitute_in_book e po bu k args)"
    unfolding place_intent_def count_new_intent_def remove_intent_def match_in_book_def substitute_in_book_def Let_def
    by (intro always_intros c)+
qed

lemma always_prune_own [always_intros]: "always (same_book b) (prune_own k now)"
proof -
  have "always (same_book b) (prune_each xs r)" for xs r
  proof (induction xs arbitrary: r)
    case (Cons x xs)
    then show ?case by (cases x) (simp, intro always_intros)
  qed (simp add: always_intros)
  then show ?thesis unfolding prune_own_def by (intro always_intros)
qed

end
