(* ===== verification/Account_Machine.thy ===== *)
theory Account_Machine
  imports Book_Frame Ledger_View Conserving_Instructions
begin

text \<open>
  The ledger as an abstract machine. Every account of the program is a state machine of its own:
  \<open>evolves e\<close> lists the steps its data can take, one rule for each kind of change the handlers make,
  and \<open>initial e\<close> the data a blank account is given. The ledger moves (\<open>moves e\<close>) by one such step or
  initialisation of one account, a call of another program, or the growth of a book. No move installs
  another attestation signer: that takes two accounts at once and is a change of its own (\<open>installs e\<close>). \<open>keeps S I m\<close>
  says that the computation \<open>m\<close> preserves the assertion \<open>I\<close> on the ledger; with \<open>S\<close> also when \<open>m\<close> fails
  with an error its caller could swallow. Its instance \<open>traced S e w0 m\<close> says that \<open>m\<close> is made of moves;
  the rules of \<open>traced_intros\<close> compose it.
\<close>

named_theorems traced_intros \<open>introduction rules for keeps and traced\<close>

section \<open>The steps of an account\<close>

inductive evolves :: "env \<Rightarrow> acct_data \<Rightarrow> acct_data \<Rightarrow> bool" for e where
  pause: "evolves e (DConfig c) (DConfig (c\<lparr> global_pause := p \<rparr>))"
| signer: "evolves e (DConfig c) (DConfig (c\<lparr> attestation_signer := s \<rparr>))"
| margin: "holder_of m' = holder_of m \<Longrightarrow> evolves e (DMargin m) (DMargin m')"
| instrument: "evolves e (DInstrument i) (DInstrument (i\<lparr> ic_status := s \<rparr>))"
| book: "same_book b b' \<Longrightarrow> evolves e (DBook b) (DBook b')"
| expand: "expand_book j (b\<lparr> bk_nodes := bk_nodes b @ replicate (unat j) (NFree 0) \<rparr>) = (Inr (), b') \<Longrightarrow>
    evolves e (DBook b) (DBook b')"
| close: "pm_status p = PMLC_STATUS_LIVE \<Longrightarrow>
    (status, reason) \<in> {(PMLC_STATUS_CLOSED, CLOSE_REASON_MUTUAL), (PMLC_STATUS_LIQUIDATED, CLOSE_REASON_LIQUIDATED),
      (PMLC_STATUS_RESOLVED, CLOSE_REASON_RESOLVED)} \<Longrightarrow>
    close_position e status reason p = (Inr (), p') \<Longrightarrow> evolves e (DPmlc p) (DPmlc p')"
| hand: "pm_status p = PMLC_STATUS_LIVE \<Longrightarrow> hand_over e side own p = (Inr (), p') \<Longrightarrow>
    evolves e (DPmlc p) (DPmlc p')"
| flag: "pm_status p \<noteq> PMLC_STATUS_LIVE \<Longrightarrow> clear_flag msk p = (Inr (), p') \<Longrightarrow>
    evolves e (DPmlc p) (DPmlc p')"
| nonce: "last_accepted_cre_nonce n < last_accepted_cre_nonce n' \<Longrightarrow> mn_market_id n' = mn_market_id n \<Longrightarrow>
    is_resolved n' \<in> {is_resolved n, 1} \<Longrightarrow> evolves e (DNonce n) (DNonce n')"
| fees: "validate_tiers (to_raw_tiers ts) = Inr () \<Longrightarrow> compute_max_fee_bps (to_raw_tiers ts) \<le> max_tier_fee_bps s \<Longrightarrow>
    evolves e (DFeeSchedule s) (DFeeSchedule (s\<lparr> tiers := to_raw_tiers ts,
      max_tier_fee_bps := compute_max_fee_bps (to_raw_tiers ts), last_updated_slot := clock_slot e \<rparr>))"
| volume: "add_volume a (clock_slot e) v = (r, v') \<Longrightarrow> evolves e (DUserVolume v) (DUserVolume v')"
| accrual: "accrue a t = (r, t') \<Longrightarrow> evolves e (DTreasury t) (DTreasury t')"
| sweeping: "sweep a t = (Inr (), t') \<Longrightarrow> evolves e (DTreasury t) (DTreasury t')"
| execution: "tl_status t = TL_STATUS_PENDING \<Longrightarrow>
    \<not> sint (clock_unix_timestamp e) < sint (executable_after_unix_ts t) \<Longrightarrow>
    evolves e (DTimelock t) (DTimelock (t\<lparr> tl_status := TL_STATUS_EXECUTED \<rparr>))"
| cancellation: "tl_status t = TL_STATUS_PENDING \<Longrightarrow>
    evolves e (DTimelock t) (DTimelock (t\<lparr> tl_status := TL_STATUS_CANCELLED \<rparr>))"
| rotation: "rotate sgs thr ms = (Inr (), ms') \<Longrightarrow> evolves e (DMultisig ms) (DMultisig ms')"
| buckets: "set_buckets ls bs r = (Inr (), r') \<Longrightarrow> evolves e (DBuckets r) (DBuckets r')"
| add: "add_mint k r = (Inr (), r') \<Longrightarrow> evolves e (DStablecoins r) (DStablecoins r')"
| remove: "remove_mint k r = (Inr (), r') \<Longrightarrow> evolves e (DStablecoins r) (DStablecoins r')"
| charge: "record_intent a s = (Inr v, s') \<Longrightarrow> evolves e (DSession s) (DSession s')"
| revocation: "evolves e (DSession s) (DSession (revoke s))"
| regrant: "\<not> is_active s (clock_slot e) \<Longrightarrow>
    session_init (se_owner s) dlg bump ex pim cap al (clock_slot e) = Inr s' \<Longrightarrow> evolves e (DSession s) (DSession s')"

text \<open>The signer a configuration trusts.\<close>

primrec signer_of :: "acct_data \<Rightarrow> pubkey option" where
  "signer_of (DConfig c) = Some (attestation_signer c)"
| "signer_of (DRaw x) = None" | "signer_of (DMargin x) = None" | "signer_of (DInstrument x) = None"
| "signer_of (DBook x) = None" | "signer_of (DPmlc x) = None" | "signer_of (DNonce x) = None"
| "signer_of (DFeeSchedule x) = None" | "signer_of (DUserVolume x) = None" | "signer_of (DTreasury x) = None"
| "signer_of (DTimelock x) = None" | "signer_of (DMultisig x) = None" | "signer_of (DBuckets x) = None"
| "signer_of (DStablecoins x) = None" | "signer_of (DSession x) = None"

abbreviation evolved :: "env \<Rightarrow> acct_data \<Rightarrow> acct_data \<Rightarrow> bool" where
  "evolved e \<equiv> (evolves e)\<^sup>*\<^sup>*"

section \<open>Computations that keep an account\<close>

definition committed :: "bool \<Rightarrow> 'a result \<Rightarrow> bool" where
  \<comment> \<open>the writes of a computation with this result can reach the ledger\<close>
  "committed S r = (case r of Inl x \<Rightarrow> S \<and> \<not> is_fatal x | Inr a \<Rightarrow> True)"

lemma committed_simps [simp]: "committed S (Inr a)" "committed S (Inl x) \<longleftrightarrow> S \<and> \<not> is_fatal x"
  by (simp_all add: committed_def)

definition keeps :: "bool \<Rightarrow> (world \<Rightarrow> bool) \<Rightarrow> 'a handler \<Rightarrow> bool" where
  "keeps S I m \<longleftrightarrow> (\<forall>w r w'. m w = (r, w') \<longrightarrow> committed S r \<longrightarrow> I w \<longrightarrow> I w')"

lemma keepsD: "keeps S I m \<Longrightarrow> m w = (r, w') \<Longrightarrow> committed S r \<Longrightarrow> I w \<Longrightarrow> I w'"
  by (simp add: keeps_def)

lemma keepsI: "(\<And>w r w'. m w = (r, w') \<Longrightarrow> committed S r \<Longrightarrow> I w \<Longrightarrow> I w') \<Longrightarrow> keeps S I m"
  by (simp add: keeps_def)

lemma traced_reads: "reads_only m \<Longrightarrow> keeps S I m"
  unfolding keeps_def by (metis reads_only_ok)

lemma traced_weaken: "keeps True I m \<Longrightarrow> keeps S I m"
  by (auto simp: keeps_def committed_def split: sum.splits)

lemma traced_bnd [traced_intros]:
  assumes "keeps S I m" "\<And>a. keeps S I (f a)"
  shows "keeps S I (bnd m f)"
proof (rule keepsI)
  fix w r w' assume run: "bnd m f w = (r, w')" and c: "committed S r" and o: "I w"
  obtain x w1 where m: "m w = (x, w1)" by fastforce
  show "I w'"
  proof (cases x)
    case (Inl y)
    with run m have "r = Inl y" "w' = w1" by (simp_all add: bnd_def)
    with c m Inl o show ?thesis by (auto intro: keepsD [OF assms(1)])
  next
    case (Inr a)
    with run m have "f a w1 = (r, w')" by (simp add: bnd_def)
    from keepsD [OF assms(2) this c] keepsD [OF assms(1) m _ o] Inr show ?thesis by simp
  qed
qed

lemma traced_seq [traced_intros]: "keeps S I m \<Longrightarrow> keeps S I n \<Longrightarrow> keeps S I (seq m n)"
  unfolding seq_def by (rule traced_bnd)

lemma traced_basic [traced_intros]:
  "keeps S I (ret a)" "keeps S I (lift r)" "keeps S I (gets g)" "keeps S I (asks h)"
  "keeps S I (require c x)" "keeps S I (fail_with x)" "keeps S I (ensure c pe)"
  by (auto intro!: traced_reads)

lemma reads_checks [intro]:
  "reads_only (need_accounts n as)" "reads_only (assert_signers as)"
  "reads_only (assert_writables as)" "reads_only (assert_owner p ai)" "reads_only (assert_owners p as)"
  "reads_only (check_world P x)" "reads_only (pda e' s ai)" "reads_only (read_acct ld ai)"
proof -
  have l: "reads_only (for_each as f)" if "\<And>a. reads_only (f a)" for as and f :: "account_info \<Rightarrow> unit handler"
    by (induction as) (auto intro: that)
  have cw: "reads_only (check_world P x)" for P and x :: program_error
    unfolding check_world_def by (auto simp: reads_only_def run_defs)
  then have o: "reads_only (assert_owner p ai)" for p ai by (simp add: assert_owner_def)
  show "reads_only (assert_owner p ai)" by (rule o)
  show "reads_only (need_accounts n as)" by (auto simp: need_accounts_def)
  show "reads_only (assert_signers as)" "reads_only (assert_writables as)" "reads_only (assert_owners p as)"
    unfolding assert_signers_def assert_writables_def assert_owners_def
    by (auto intro!: l o cw simp: assert_signer_def assert_writable_def)
  show "reads_only (check_world P x)" "reads_only (pda e' s ai)" "reads_only (read_acct ld ai)"
    unfolding check_world_def pda_def read_acct_def by (auto simp: reads_only_def run_defs)
qed

lemma traced_checks [traced_intros]:
  "keeps S I (need_accounts n as)" "keeps S I (assert_signers as)"
  "keeps S I (assert_writables as)" "keeps S I (assert_owner p ai)" "keeps S I (assert_owners p as)"
  "keeps S I (check_world P x)" "keeps S I (pda e' s ai)" "keeps S I (read_acct ld ai)"
  by (rule traced_reads, blast)+

lemma traced_when [traced_intros]: "keeps S I m \<Longrightarrow> keeps S I (when_do c m)"
  by (simp add: when_do_def traced_basic)

lemma traced_if [traced_intros]:
  "keeps S I m \<Longrightarrow> keeps S I n \<Longrightarrow> keeps S I (if c then m else n)"
  by simp

lemma traced_case_prod [traced_intros]:
  "(\<And>a b. keeps S I (f a b)) \<Longrightarrow> keeps S I (case p of (a, b) \<Rightarrow> f a b)"
  by (simp split: prod.split)

lemma traced_option [traced_intros]:
  "keeps S I m \<Longrightarrow> (\<And>a. keeps S I (f a)) \<Longrightarrow> keeps S I (case x of None \<Rightarrow> m | Some a \<Rightarrow> f a)"
  by (simp split: option.split)

lemma traced_swallow [traced_intros]: "keeps True I m \<Longrightarrow> keeps S I (swallow_errors m)"
  by (rule keepsI) (auto simp: swallow_errors_def committed_def split: prod.splits sum.splits if_splits
    dest: keepsD)

section \<open>The ledger as a machine\<close>

inductive initial :: "env \<Rightarrow> acct_data \<Rightarrow> bool" for e where
  \<comment> \<open>the data a handler writes into an account that is blank\<close>
  config: "initial e (DConfig (new_program_config k1 k2 k3 st bump))"
| margin: "initial e (DMargin (new_margin_account own mint bump))"
| instrument: "instrument_init src mkt ta tb mint bk lev bucket window tick lb bb st rf bump = Inr c \<Longrightarrow>
    initial e (DInstrument c)"
| book: "initial e (DBook (new_intent_book k cap bump fee))"
| pmlc: "initial e (DPmlc (new_pmlc e k inst r nid bump notional sz))"
| nonce: "initial e (DNonce (new_market_nonce mkt bump))"
| fees: "validate_tiers (to_raw_tiers ts) = Inr () \<Longrightarrow>
    initial e (DFeeSchedule (new_fee_schedule (to_raw_tiers ts) (clock_slot e) bump))"
| volume: "initial e (DUserVolume (new_user_volume own mint (clock_slot e) bump))"
| treasury: "initial e (DTreasury (new_fee_treasury mint bump))"
| timelock: "checked_add_s (clock_unix_timestamp e) TIMELOCK_DELAY_SECS = Some after \<Longrightarrow>
    initial e (DTimelock (set_new_signer sg
      \<lparr> tl_kind = TL_KIND_SET_ATTESTATION_SIGNER, tl_status = TL_STATUS_PENDING, tl_bump = bump,
        proposal_id = pid, proposer = k, tl_payload = replicate 64 0,
        proposed_slot = clock_slot e, proposed_unix_ts = clock_unix_timestamp e,
        executable_after_unix_ts = after \<rparr>))"
| multisig: "check_multisig_config sgs thr = Inr () \<Longrightarrow> initial e (DMultisig (new_admin_multisig k sgs thr bump))"
| buckets: "validate_inputs ls bs = Inr () \<Longrightarrow> initial e (DBuckets (new_bucket_registry ls bs bump))"
| stablecoins: "check_initial_mints ms = Inr () \<Longrightarrow>
    initial e (DStablecoins (new_stablecoin_registry wusd dec ms bump))"
| session: "session_init own dlg bump ex pim cap al (clock_slot e) = Inr s \<Longrightarrow> initial e (DSession s)"

inductive moves :: "env \<Rightarrow> world \<Rightarrow> world \<Rightarrow> bool" for e where
  \<comment> \<open>one account takes a step of its machine, a blank account is initialised, another program is called, a book grows\<close>
  step: "evolves e (acc_data (w k)) d \<Longrightarrow> signer_of d = signer_of (acc_data (w k)) \<Longrightarrow> moves e w (set_data k d w)"
| init: "discriminator (acc_data (w k)) = 0 \<Longrightarrow> initial e d \<Longrightarrow> moves e w (set_data k d w)"
| call: "invoke e c ks sds w = (Inr (), w') \<Longrightarrow> moves e w w'"
| grow: "j \<noteq> 0 \<Longrightarrow> realloc e k (data_len (acc_data (w k)) + unat j * NODE_SIZE) w = (Inr (), w1) \<Longrightarrow>
    acc_data (w1 k) = DBook b \<Longrightarrow> expand_book j b = (Inr (), b') \<Longrightarrow> moves e w (set_data k (DBook b') w1)"

definition installs :: "env \<Rightarrow> pubkey \<Rightarrow> pubkey \<Rightarrow> world \<Rightarrow> world \<Rightarrow> bool" where
  \<comment> \<open>the pending proposal at \<open>j\<close> is due: its signer is installed in the configuration at \<open>k\<close>, and it is executed\<close>
  "installs e k j w w' \<longleftrightarrow> (\<exists>c t. acc_data (w k) = DConfig c \<and> acc_data (w j) = DTimelock t \<and>
     acc_owner (w k) = program_id e \<and> acc_owner (w j) = program_id e \<and>
     tl_status t = TL_STATUS_PENDING \<and> \<not> sint (clock_unix_timestamp e) < sint (executable_after_unix_ts t) \<and>
     w' = set_data j (DTimelock (t\<lparr> tl_status := TL_STATUS_EXECUTED \<rparr>))
       (set_data k (DConfig (c\<lparr> attestation_signer := Pubkey (new_signer t) \<rparr>)) w))"

abbreviation reach :: "env \<Rightarrow> world \<Rightarrow> world \<Rightarrow> bool" where
  "reach e \<equiv> (moves e)\<^sup>*\<^sup>*"

abbreviation traced :: "bool \<Rightarrow> env \<Rightarrow> world \<Rightarrow> 'a handler \<Rightarrow> bool" where
  "traced S e w0 \<equiv> keeps S (reach e w0)"

lemma reach_step:
  "reach e w0 w \<Longrightarrow> evolves e (acc_data (w k)) d \<Longrightarrow> signer_of d = signer_of (acc_data (w k)) \<Longrightarrow> reach e w0 (set_data k d w)"
  by (blast intro: rtranclp.rtrancl_into_rtrancl moves.step)

lemma reach_init:
  "reach e w0 w \<Longrightarrow> discriminator (acc_data (w k)) = 0 \<Longrightarrow> initial e d \<Longrightarrow> reach e w0 (set_data k d w)"
  by (blast intro: rtranclp.rtrancl_into_rtrancl moves.init)

lemma reach_call: "reach e w0 w \<Longrightarrow> invoke e c ks sds w = (Inr u, w') \<Longrightarrow> reach e w0 w'"
  by (cases u) (blast intro: rtranclp.rtrancl_into_rtrancl moves.call)

lemma reach_create: "reach e w0 w \<Longrightarrow> create_account e p new sys n own s w = (Inr u, w') \<Longrightarrow> reach e w0 w'"
  unfolding create_account_def by (rule reach_call)

section \<open>The primitive changes\<close>

lemma traced_edit:
  assumes "\<And>d r. ld d = Inr r \<Longrightarrow> d = mk r"
    and "\<And>r a r'. m r = (a, r') \<Longrightarrow> committed S a \<Longrightarrow>
      r' = r \<or> evolves e (mk r) (mk r') \<and> signer_of (mk r') = signer_of (mk r)"
  shows "traced S e w0 (edit_acct ld mk ai m)"
proof (rule keepsI)
  fix w r w' assume run: "edit_acct ld mk ai m w = (r, w')" and c: "committed S r" and o: "reach e w0 w"
  show "reach e w0 w'"
  proof (cases "ld (acc_data (w (ai_key ai)))")
    case (Inl x)
    with run o show ?thesis by (simp add: edit_acct_def zoom_def)
  next
    case (Inr s)
    obtain a s' where m: "m s = (a, s')" by fastforce
    with Inr run have r: "r = a" "w' = set_data (ai_key ai) (mk s') w" by (simp_all add: edit_acct_def zoom_def)
    have d: "acc_data (w (ai_key ai)) = mk s" by (rule assms(1) [OF Inr])
    from assms(2) [OF m] c r(1) consider "s' = s" | "evolves e (mk s) (mk s')" "signer_of (mk s') = signer_of (mk s)" by auto
    then show ?thesis
    proof cases
      case 1
      with d have "w' = w" using r(2) set_data_same [of "ai_key ai" w] by simp
      with o show ?thesis by simp
    next
      case 2
      with d o show ?thesis unfolding r(2) by (intro reach_step) simp_all
    qed
  qed
qed

lemma traced_init:
  assumes "initial e d"
  shows "traced S e w0 (init_acct len ai d)"
proof (rule keepsI)
  fix w r w' assume run: "init_acct len ai d w = (r, w')" and o: "reach e w0 w"
  show "reach e w0 w'"
  proof (cases "blank_check len (acc_data (w (ai_key ai)))")
    case (Inl x)
    with run o show ?thesis by (simp add: init_acct_def seq_def bnd_def asks_def)
  next
    case (Inr u)
    with run have w': "w' = set_data (ai_key ai) d w" by (simp add: init_acct_def seq_def bnd_def asks_def modify_def)
    have "discriminator (acc_data (w (ai_key ai))) = 0" using Inr by (auto simp: blank_check_def ok_iff)
    with o assms show ?thesis unfolding w' by (intro reach_init)
  qed
qed

lemmas traced_inits [traced_intros] = traced_init [OF initial.config] traced_init [OF initial.margin]
  traced_init [OF initial.nonce] traced_init [OF initial.volume] traced_init [OF initial.treasury]

definition failed_calls_abort :: "env \<Rightarrow> bool" where
  \<comment> \<open>a failed call into another program cannot be caught\<close>
  "failed_calls_abort e \<longleftrightarrow>
     (\<forall>c ks sds w x w'. invoke e c ks sds w = (Inl x, w') \<longrightarrow> is_fatal x)"

lemma traced_invoke:
  assumes "failed_calls_abort e"
  shows "traced S e w0 (invoke e c ks sds)"
proof (rule keepsI)
  fix w r w' assume run: "invoke e c ks sds w = (r, w')" and c: "committed S r" and o: "reach e w0 w"
  then obtain u where "r = Inr u"
    using assms unfolding failed_calls_abort_def by (cases r) auto
  with run o show "reach e w0 w'" by (blast intro: reach_call)
qed

lemma traced_create: "failed_calls_abort e \<Longrightarrow> traced S e w0 (create_account e p new sys n own s)"
  unfolding create_account_def by (intro traced_invoke)

section \<open>The changes of the handlers\<close>

lemma traced_margin [traced_intros]:
  assumes "\<And>h. always (holder_is h) m"
  shows "traced S e w0 (edit_acct load_margin DMargin ai m)"
  by (rule traced_edit) (auto simp: load_oks intro!: evolves.margin dest: alwaysD [OF assms])

lemma traced_book [traced_intros]:
  assumes "\<And>b. always (same_book b) m"
  shows "traced S e w0 (edit_acct load_book DBook ai m)"
  by (rule traced_edit) (auto simp: load_oks intro!: evolves.book dest!: alwaysD [OF assms _ same_book_refl])

lemma record_intent_same: "record_intent a s = (Inl x, s') \<Longrightarrow> s' = s"
  by (rule record_intent_error_keeps)

lemma traced_edits [traced_intros]:
  "traced S e w0 (edit_acct load_config DConfig ai (modify (\<lambda>cfg. cfg\<lparr> global_pause := p \<rparr>)))"
  "traced S e w0 (edit_acct load_instrument DInstrument ai (modify (\<lambda>c. c\<lparr> ic_status := st \<rparr>)))"
  "traced S e w0 (edit_acct load_user_volume DUserVolume ai (add_volume a (clock_slot e)))"
  by (rule traced_edit; auto simp: load_oks modify_def intro: evolves.intros)+

lemma accrue_any: "evolves e (DTreasury t) (DTreasury t')" if "accrue a t = (r, t')"
  using that by (rule evolves.accrual)

lemma traced_accrue [traced_intros]: "traced S e w0 (edit_acct load_treasury DTreasury ai (accrue a))"
  by (rule traced_edit) (auto simp: load_oks intro: evolves.accrual)

lemma traced_success_edits [traced_intros]:
  "traced False e w0 (edit_acct load_treasury DTreasury ai
     (seq (bnd (gets ft_mint) (\<lambda>m. ensure (m = mk) InvalidPda)) (sweep a)))"
  "traced False e w0 (edit_acct load_multisig DMultisig ai (rotate sgs thr))"
  "traced False e w0 (edit_acct load_buckets DBuckets ai (set_buckets ls bs))"
  "traced False e w0 (edit_acct load_stablecoins DStablecoins ai (add_mint mt))"
  "traced False e w0 (edit_acct load_stablecoins DStablecoins ai (remove_mint mt))"
  "traced False e w0 (edit_acct load_session DSession ai (record_intent t))"
  "traced False e w0 (edit_acct load_session DSession ai
     (seq (bnd (gets se_owner) (\<lambda>k. ensure (k = own) SessionOwnerMismatch)) (modify revoke)))"
  by (rule traced_edit; auto simp: load_oks committed_def seq_ok bnd_ok gets_ok ensure_ok modify_ok
      split: sum.splits intro: evolves.intros)+

lemma accept_nonce_ok:
  "accept_nonce e att inst n = (Inr u, n') \<longleftrightarrow>
     validate_freshness_and_nonce att (ic_market_id inst) (last_accepted_cre_nonce n) (now_unix e) (max_staleness_secs inst) = Inr () \<and> n' = n"
  by (auto simp: accept_nonce_def bnd_ok gets_ok lift_ok)

lemma traced_nonce_edits [traced_intros]:
  "traced False e w0 (edit_acct load_nonce DNonce ai (accept_breach e att inst))"
  "traced False e w0 (edit_acct load_nonce DNonce ai (accept_resolution e att inst))"
  "traced False e w0 (edit_acct load_nonce DNonce ai (accept_twap e att inst))"
  by (rule traced_edit; auto simp: load_oks committed_def accept_breach_def accept_resolution_def accept_twap_def
      seq_ok bnd_ok modify_ok lift_ok accept_nonce_ok validate_freshness_and_nonce_ok
      split: sum.splits intro!: evolves.nonce)+

lemma traced_fee_edit [traced_intros]:
  assumes "validate_tiers (to_raw_tiers ts) = Inr ()"
  shows "traced False e w0 (edit_acct load_fee_schedule DFeeSchedule ai
     (bnd (gets max_tier_fee_bps) (\<lambda>old_max.
      seq (ensure (\<not> compute_max_fee_bps (to_raw_tiers ts) > old_max) FeeIncreaseBlocked)
      (modify (\<lambda>s. s\<lparr> tiers := to_raw_tiers ts, max_tier_fee_bps := compute_max_fee_bps (to_raw_tiers ts),
                      last_updated_slot := clock_slot e \<rparr>)))))"
  using assms by (intro traced_edit) (auto simp: load_oks committed_def seq_ok bnd_ok gets_ok ensure_ok modify_ok
      split: sum.splits intro!: evolves.fees)

end
