(* ===== verification/Machine_Handlers.thy ===== *)
theory Machine_Handlers
  imports Account_Machine
begin

text \<open>
  Every handler is made of moves of the abstract ledger: the admin, fee, registry, session and
  margin handlers by the composition rules alone, the handlers that change an account under a
  condition they checked earlier with that condition carried from the check to the change.
\<close>

definition machine_laws :: "env \<Rightarrow> bool" where
  "machine_laws e \<longleftrightarrow> owned_frame e \<and> creates_zeroed e \<and> failed_calls_abort e"

lemma machine_lawsD: "machine_laws e \<Longrightarrow> owned_frame e" "machine_laws e \<Longrightarrow> creates_zeroed e" "machine_laws e \<Longrightarrow> failed_calls_abort e"
  by (simp_all add: machine_laws_def)

lemma traced_calls:
  assumes "machine_laws e"
  shows "traced S e w0 (invoke e c ks sds)" "traced S e w0 (create_account e p new sys n own s)"
  using assms by (simp_all add: machine_laws_def traced_invoke traced_create)

lemma traced_with [traced_intros]: "(\<And>a. keeps S I (f a)) \<Longrightarrow> keeps S I (with_args x f)"
  by (simp add: with_args_def traced_basic split: option.split)

lemma traced_authorize [traced_intros]:
  "keeps S I (authorize_admin_or_multisig e cfg accounts)" "keeps S I (authorize_with e ai accounts)"
  "keeps S I (require_admin ai adm)"
  by (auto simp: authorize_admin_or_multisig_def authorize_with_def require_admin_def intro!: traced_intros)

lemma traced_validate [traced_intros]: "keeps S I (validate_margin_pda e ai own mint)"
  unfolding validate_margin_pda_def by (intro traced_intros)

section \<open>Administration, fees, registries, margin accounts\<close>

lemma traced_lift_seq:
  assumes "\<And>u. r = Inr u \<Longrightarrow> keeps S I m"
  shows "keeps S I (seq (lift r) m)"
proof (rule keepsI)
  fix w x w' assume run: "seq (lift r) m w = (x, w')" and c: "committed S x" and o: "I w"
  show "I w'"
  proof (cases r)
    case (Inl y)
    with run o show ?thesis by (simp add: seq_def bnd_def lift_def)
  next
    case (Inr u)
    with run have "m w = (x, w')" by (simp add: seq_def bnd_def lift_def)
    from keepsD [OF assms [OF Inr] this c o] show ?thesis .
  qed
qed

text \<open>The initialisations under a check of the arguments.\<close>

lemma traced_checked_inits:
  assumes "machine_laws e"
  shows "traced False e w0 (seq (lift (validate_tiers (to_raw_tiers ts))) (bnd (pda e sds ai) (\<lambda>bump.
        seq (check_world P x) (seq (create_account e p new sys n own (f bump))
        (init_acct len aj (DFeeSchedule (new_fee_schedule (to_raw_tiers ts) (clock_slot e) bump)))))))"
    and "traced False e w0 (seq (lift (check_multisig_config sgs thr)) (init_acct len aj (DMultisig (new_admin_multisig k sgs thr bump))))"
    and "traced False e w0 (seq (lift (validate_inputs ls bs)) (init_acct len aj (DBuckets (new_bucket_registry ls bs bump))))"
    and "traced False e w0 (seq (lift (check_initial_mints ms)) (init_acct len aj (DStablecoins (new_stablecoin_registry wu dec ms bump))))"
  using assms
  by (intro traced_lift_seq traced_intros traced_calls traced_init initial.intros; simp)+

lemma traced_admin:
  assumes l: "machine_laws e"
  shows "traced False e w0 (process_init_program_config e accounts a1)"
  and "traced False e w0 (process_set_global_pause e accounts a2)"
  and "traced False e w0 (process_init_admin_multisig e accounts a3)"
  and "traced False e w0 (process_rotate_admin_multisig e accounts a3)"
  and "traced False e w0 (process_init_fee_schedule e accounts a6)"
  and "traced False e w0 (process_init_bucket_registry e accounts a7)"
  and "traced False e w0 (process_set_bucket_registry e accounts a7)"
  and "traced False e w0 (process_init_stablecoin_registry e accounts a8)"
  and "traced False e w0 (process_add_stablecoin_mint e accounts)"
  and "traced False e w0 (process_remove_stablecoin_mint e accounts)"
  and "traced False e w0 (process_revoke_session e accounts)"
  and "traced False e w0 (process_create_margin_account e accounts)"
  and "traced False e w0 (process_set_instrument_status e accounts p)"
  and "traced False e w0 (process_wrap_stablecoin e accounts amount)"
  and "traced False e w0 (process_unwrap_stablecoin e accounts amount)"
  and "traced False e w0 (process_deposit e accounts amount)"
  and "traced False e w0 (process_withdraw e accounts amount)"
  and "traced False e w0 (process_sweep_fees e accounts amount)"
  unfolding process_init_program_config_def process_set_global_pause_def process_init_admin_multisig_def
   process_rotate_admin_multisig_def process_init_fee_schedule_def process_init_bucket_registry_def
   process_set_bucket_registry_def process_init_stablecoin_registry_def check_wusd_registry_def create_wusd_mint_def
   process_add_stablecoin_mint_def process_remove_stablecoin_mint_def process_revoke_session_def
   process_create_margin_account_def process_set_instrument_status_def process_wrap_stablecoin_def
   process_unwrap_stablecoin_def process_deposit_def process_withdraw_def process_sweep_fees_def
   create_if_empty_def Let_def
  by (intro traced_checked_inits [OF l] traced_intros always_intros traced_calls [OF l])+

lemma traced_set_fees:
  "traced False e w0 (process_set_fee_schedule e accounts ts)"
  unfolding process_set_fee_schedule_def Let_def
  by (intro traced_lift_seq traced_intros) (assumption | simp)+

section \<open>A change guarded by an earlier check\<close>

definition leads :: "bool \<Rightarrow> (world \<Rightarrow> bool) \<Rightarrow> (world \<Rightarrow> bool) \<Rightarrow> 'a handler \<Rightarrow> bool" where
  "leads S P Q m \<longleftrightarrow> (\<forall>w r w'. m w = (r, w') \<longrightarrow> committed S r \<longrightarrow> P w \<longrightarrow> Q w')"

lemma leadsI: "(\<And>w r w'. m w = (r, w') \<Longrightarrow> committed S r \<Longrightarrow> P w \<Longrightarrow> Q w') \<Longrightarrow> leads S P Q m"
  by (simp add: leads_def)

lemma leadsD: "leads S P Q m \<Longrightarrow> m w = (r, w') \<Longrightarrow> committed S r \<Longrightarrow> P w \<Longrightarrow> Q w'"
  by (simp add: leads_def)

definition guarded :: "env \<Rightarrow> world \<Rightarrow> account_info \<Rightarrow> ('r \<Rightarrow> acct_data) \<Rightarrow> ('r \<Rightarrow> bool) \<Rightarrow> world \<Rightarrow> bool" where
  \<comment> \<open>the ledger has moved here from \<open>w0\<close>, and the account satisfies what was checked\<close>
  "guarded e w0 ai mk C w \<longleftrightarrow> reach e w0 w \<and> (\<exists>r. acc_data (w (ai_key ai)) = mk r \<and> C r)"

abbreviation guards :: "bool \<Rightarrow> env \<Rightarrow> world \<Rightarrow> account_info \<Rightarrow> ('r \<Rightarrow> acct_data) \<Rightarrow> ('r \<Rightarrow> bool) \<Rightarrow> 'a handler \<Rightarrow> bool" where
  "guards S e w0 ai mk C \<equiv> leads S (guarded e w0 ai mk C) (reach e w0)"

lemma guards_bnd:
  assumes "keeps S (guarded e w0 ai mk C) m" "\<And>a. guards S e w0 ai mk C (f a)"
  shows "guards S e w0 ai mk C (bnd m f)"
proof (rule leadsI)
  fix w r w' assume run: "bnd m f w = (r, w')" and c: "committed S r" and g: "guarded e w0 ai mk C w"
  obtain x w1 where m: "m w = (x, w1)" by fastforce
  show "reach e w0 w'"
  proof (cases x)
    case (Inl y)
    with run m have "r = Inl y" "w' = w1" by (simp_all add: bnd_def)
    with keepsD [OF assms(1) m _ g] c Inl show ?thesis by (simp add: guarded_def)
  next
    case (Inr a)
    with run m have "f a w1 = (r, w')" by (simp add: bnd_def)
    from leadsD [OF assms(2) this c] keepsD [OF assms(1) m _ g] Inr show ?thesis by simp
  qed
qed

lemma guards_seq: "keeps S (guarded e w0 ai mk C) m \<Longrightarrow> guards S e w0 ai mk C n \<Longrightarrow> guards S e w0 ai mk C (seq m n)"
  unfolding seq_def by (rule guards_bnd)

lemma guards_case_prod: "(\<And>a b. guards S e w0 ai mk C (f a b)) \<Longrightarrow> guards S e w0 ai mk C (case p of (a, b) \<Rightarrow> f a b)"
  by (simp split: prod.split)

lemma guards_if: "guards S e w0 ai mk C m \<Longrightarrow> guards S e w0 ai mk C n \<Longrightarrow> guards S e w0 ai mk C (if c then m else n)"
  by simp

text \<open>A check that establishes the guard, and the guarded change.\<close>

lemma traced_check:
  assumes "\<And>w a w'. g w = (Inr a, w') \<Longrightarrow> w' = w \<and> (\<exists>r. acc_data (w (ai_key ai)) = mk r \<and> C r)"
    and "\<And>a. guards False e w0 ai mk C (f a)"
  shows "traced False e w0 (bnd g f)"
proof (rule keepsI)
  fix w x w' assume run: "bnd g f w = (x, w')" and c: "committed False x" and o: "reach e w0 w"
  then obtain b where x: "x = Inr b" by (auto simp: committed_def split: sum.splits)
  from run x obtain a w1 where g: "g w = (Inr a, w1)" and f: "f a w1 = (x, w')" by (auto simp: bnd_ok)
  from assms(1) [OF g] o have "guarded e w0 ai mk C w1" by (auto simp: guarded_def)
  from leadsD [OF assms(2) f c this] show "reach e w0 w'" .
qed

lemma traced_read_checked:
  assumes "\<And>d r. ld d = Inr r \<Longrightarrow> d = mk r" and "\<And>r u. chk r = Inr u \<Longrightarrow> C r"
    and "\<And>r. guards False e w0 ai mk C (f r)"
  shows "traced False e w0 (bnd (read_acct ld ai) (\<lambda>r. seq (lift (chk r)) (f r)))"
proof (rule keepsI)
  fix w x w' assume run: "bnd (read_acct ld ai) (\<lambda>r. seq (lift (chk r)) (f r)) w = (x, w')"
    and c: "committed False x" and o: "reach e w0 w"
  then obtain b where x: "x = Inr b" by (auto simp: committed_def split: sum.splits)
  from run x obtain r u where r: "ld (acc_data (w (ai_key ai))) = Inr r" "chk r = Inr u" and f: "f r w = (x, w')"
    by (auto simp: bnd_ok seq_ok read_acct_ok lift_ok)
  from assms(1) [OF r(1)] assms(2) [OF r(2)] o have "guarded e w0 ai mk C w" by (auto simp: guarded_def)
  from leadsD [OF assms(3) f c this] show "reach e w0 w'" .
qed

lemma guards_change:
  assumes "\<And>d r. ld d = Inr r \<Longrightarrow> d = mk r" and "\<And>r s. mk r = mk s \<Longrightarrow> r = s"
    and "\<And>r r' a. C r \<Longrightarrow> m r = (Inr a, r') \<Longrightarrow>
      evolves e (mk r) (mk r') \<and> signer_of (mk r') = signer_of (mk r)"
  shows "guards False e w0 ai mk C (edit_acct ld mk ai m)"
proof (rule leadsI)
  fix w x w' assume run: "edit_acct ld mk ai m w = (x, w')" and c: "committed False x" and g: "guarded e w0 ai mk C w"
  then obtain a where "x = Inr a" by (auto simp: committed_def split: sum.splits)
  with run obtain r r' where r: "ld (acc_data (w (ai_key ai))) = Inr r" "m r = (Inr a, r')"
    and w': "w' = set_data (ai_key ai) (mk r') w" by (auto simp: edit_acct_ok)
  from g assms(1) [OF r(1)] assms(2) have "C r" "reach e w0 w" by (auto simp: guarded_def)
  with assms(1) [OF r(1)] assms(3) [OF _ r(2)] show "reach e w0 w'" unfolding w' by (intro reach_step) simp_all
qed

lemma guards_then: "guards S e w0 ai mk C m \<Longrightarrow> traced S e w0 n \<Longrightarrow> guards S e w0 ai mk C (seq m n)"
  unfolding leads_def keeps_def seq_def bnd_def committed_def by (auto split: prod.splits sum.splits)

text \<open>The guard survives reads, and changes of accounts of another type.\<close>

lemma keeps_guarded:
  assumes "traced S e w0 m" and "keeps S (\<lambda>w. \<exists>r. acc_data (w (ai_key ai)) = mk r \<and> C r) m"
  shows "keeps S (guarded e w0 ai mk C) m"
  using assms unfolding keeps_def guarded_def by meson

lemma keeps_other_type:
  assumes "\<And>d r. ld d = Inr r \<Longrightarrow> d = mk' r" and "\<And>r s. mk' r \<noteq> mk s"
  shows "keeps S (\<lambda>w. \<exists>r. acc_data (w (ai_key ai)) = mk r \<and> C r) (edit_acct ld mk' aj m)"
proof (rule keepsI)
  fix w x w' assume run: "edit_acct ld mk' aj m w = (x, w')" and o: "\<exists>r. acc_data (w (ai_key ai)) = mk r \<and> C r"
  show "\<exists>r. acc_data (w' (ai_key ai)) = mk r \<and> C r"
  proof (cases "ld (acc_data (w (ai_key aj)))")
    case (Inl y)
    with run o show ?thesis by (simp add: edit_acct_def zoom_def)
  next
    case (Inr s)
    then have "ai_key ai \<noteq> ai_key aj" using assms o by metis
    with Inr run o show ?thesis by (auto simp: edit_acct_def zoom_def split: prod.splits)
  qed
qed

lemma keeps_pmlc [traced_intros]:
  "keeps False (\<lambda>w. \<exists>r. acc_data (w (ai_key ai)) = DPmlc r \<and> C r) (edit_acct load_margin DMargin aj m)"
  "keeps False (\<lambda>w. \<exists>r. acc_data (w (ai_key ai)) = DPmlc r \<and> C r) (edit_acct load_book DBook aj n)"
  by (rule keeps_other_type; simp add: load_oks)+

lemma edit_margins_run:
  assumes "edit_margins l s m w = (r, w')" "committed False r"
  obtains a b a' b' where "acc_data (w (ai_key l)) = DMargin a" "acc_data (w (ai_key s)) = DMargin b"
    "ai_key s \<noteq> ai_key l" "m (a, b) = (Inr (), (a', b'))"
    "w' = set_data (ai_key s) (DMargin b') (set_data (ai_key l) (DMargin a') w)"
  using assms
  by (auto simp: edit_margins_def committed_def bnd_ok seq_ok require_ok read_acct_ok zoom_ok try_res_ok load_oks
      split: sum.splits)

lemma keeps_edit_margins [traced_intros]:
  "keeps False (\<lambda>w. \<exists>r. acc_data (w (ai_key ai)) = DPmlc r \<and> C r) (edit_margins l s m)"
proof (rule keepsI)
  fix w x w' assume run: "edit_margins l s m w = (x, w')" "committed False x"
    and o: "\<exists>r. acc_data (w (ai_key ai)) = DPmlc r \<and> C r"
  from run show "\<exists>r. acc_data (w' (ai_key ai)) = DPmlc r \<and> C r" by (rule edit_margins_run) (use o in auto)
qed

text \<open>Both margin accounts of a liquidation are edited together.\<close>

lemma always_zoomed:
  assumes "\<And>h. always (holder_is h) m"
  shows "always (\<lambda>p. holder_is h1 (fst p) \<and> holder_is h2 (snd p)) (on_long m)"
    "always (\<lambda>p. holder_is h1 (fst p) \<and> holder_is h2 (snd p)) (on_short m)"
proof -
  have "holder_of (snd (m s)) = holder_of s" for s using assms [unfolded always_def] by blast
  then show "always (\<lambda>p. holder_is h1 (fst p) \<and> holder_is h2 (snd p)) (on_long m)"
    "always (\<lambda>p. holder_is h1 (fst p) \<and> holder_is h2 (snd p)) (on_short m)"
    by (simp_all add: always_def on_long_def on_short_def zoom_def split_beta)
qed

lemma always_liquidation:
  "always (\<lambda>p. holder_is h1 (fst p) \<and> holder_is h2 (snd p)) (liquidation_transfer lw c bounty)"
  unfolding liquidation_transfer_def Let_def
  by (intro always_intros always_zoomed)

lemma traced_margins [traced_intros]:
  assumes "\<And>h1 h2. always (\<lambda>p. holder_is h1 (fst p) \<and> holder_is h2 (snd p)) m"
  shows "traced False e w0 (edit_margins l s m)"
proof (rule keepsI)
  fix w r w' assume run: "edit_margins l s m w = (r, w')" "committed False r" and o: "reach e w0 w"
  from run show "reach e w0 w'"
  proof (rule edit_margins_run)
    fix a b a' b' assume ab: "acc_data (w (ai_key l)) = DMargin a" "acc_data (w (ai_key s)) = DMargin b" "ai_key s \<noteq> ai_key l"
      and m: "m (a, b) = (Inr (), (a', b'))"
      and w': "w' = set_data (ai_key s) (DMargin b') (set_data (ai_key l) (DMargin a') w)"
    from alwaysD [OF assms [of "holder_of a" "holder_of b"] m]
    have "evolves e (DMargin a) (DMargin a')" "evolves e (DMargin b) (DMargin b')" by (auto intro: evolves.margin)
    with o ab show "reach e w0 w'" unfolding w' by (intro reach_step) simp_all
  qed
qed

lemma keeps_settle_sides [traced_intros]:
  "keeps False (\<lambda>w. \<exists>r. acc_data (w (ai_key ai)) = DPmlc r \<and> C r) (settle_sides l s c q)"
  unfolding settle_sides_def by (intro traced_intros)

lemma traced_settle_sides [traced_intros]: "traced False e w0 (settle_sides l s c q)"
  unfolding settle_sides_def by (intro traced_intros always_intros)

section \<open>The position\<close>

abbreviation live :: "pmlc \<Rightarrow> bool" where "live p \<equiv> pm_status p = PMLC_STATUS_LIVE"

lemma live_pmlc_guard:
  "live_pmlc ai ia inst w = (Inr p, w') \<Longrightarrow> w' = w \<and> (\<exists>r. acc_data (w (ai_key ai)) = DPmlc r \<and> live r)"
  by (auto simp: live_pmlc_def bnd_ok seq_ok read_acct_ok load_oks lift_ok require_live_ok ensure_ok ret_ok)

lemma load_pmlc_DPmlc: "load_pmlc d = Inr p \<Longrightarrow> d = DPmlc p"
  by (simp add: load_oks)

lemma require_live_live: "require_live p = Inr u \<Longrightarrow> live p"
  by (simp add: require_live_ok)

lemma guards_close:
  "(st, r) \<in> {(PMLC_STATUS_CLOSED, CLOSE_REASON_MUTUAL), (PMLC_STATUS_LIQUIDATED, CLOSE_REASON_LIQUIDATED),
      (PMLC_STATUS_RESOLVED, CLOSE_REASON_RESOLVED)} \<Longrightarrow>
     guards False e w0 ai DPmlc live (edit_acct load_pmlc DPmlc ai (close_position e st r))"
  by (rule guards_change) (auto simp: load_oks intro: evolves.close)

lemma guards_hand: "guards False e w0 ai DPmlc live (edit_acct load_pmlc DPmlc ai (hand_over e side own))"
  by (rule guards_change) (auto simp: load_oks intro: evolves.hand)

lemma guards_flag:
  "guards False e w0 ai DPmlc (\<lambda>p. \<not> live p) (edit_acct load_pmlc DPmlc ai (clear_flag msk))"
  by (rule guards_change) (auto simp: load_oks intro: evolves.flag)

lemmas guards_intros = guards_bnd guards_seq guards_case_prod guards_if keeps_guarded

lemma traced_unpaused [traced_intros]: "keeps S I (unpaused_config ai)"
  unfolding unpaused_config_def by (intro traced_intros)

lemma traced_liquidate_settle [traced_intros]:
  "traced False e w0 (liquidate_settle e inst ia pa lm sm km mark)"
  unfolding liquidate_settle_def
  by (rule traced_check [OF live_pmlc_guard], assumption)
   (intro guards_then [OF guards_close] guards_intros traced_intros always_intros always_liquidation, simp)

lemma traced_resolve_settle [traced_intros]: "traced False e w0 (resolve_settle e inst ia pa lm sm oc)"
  unfolding resolve_settle_def
  by (rule traced_bnd, rule traced_basic, rule traced_check [OF live_pmlc_guard], assumption)
   (intro guards_close guards_intros traced_intros, simp)

lemma traced_close_mutual_settle [traced_intros]: "traced False e w0 (close_mutual_settle e inst as mark)"
  unfolding close_mutual_settle_def Let_def
  by (rule traced_check [OF live_pmlc_guard], assumption) (intro guards_close guards_intros traced_intros, simp)

lemma traced_settlements:
  "traced False e w0 (process_liquidate e accounts n)"
  "traced False e w0 (process_resolve e accounts n)"
  "traced False e w0 (process_close_mutual e accounts n)"
  unfolding process_liquidate_def process_resolve_def process_close_mutual_def Let_def
  by (intro traced_intros)+

lemma traced_novate: "traced False e w0 (process_novate e accounts side)"
proof -
  have n: "guards False e w0 (accounts ! 4) DPmlc live (novate_transfer e accounts side p)" for p
    unfolding novate_transfer_def Let_def by (intro guards_hand guards_intros traced_intros always_intros)
  show ?thesis
    unfolding process_novate_def Let_def
    by (intro traced_seq traced_bnd traced_unpaused traced_checks traced_basic
        traced_read_checked [OF load_pmlc_DPmlc require_live_live] n guards_intros | assumption)+
qed

lemma traced_substitute: "traced False e w0 (do_substitute e accounts args ws)"
proof -
  have n: "guards False e w0 (accounts ! 3) DPmlc live (substitute_settle e accounts mint bu su dl)" for mint bu su dl
    unfolding substitute_settle_def Let_def by (intro guards_hand guards_intros traced_intros always_intros)
  show ?thesis
    unfolding do_substitute_def Let_def
    by (intro traced_seq traced_bnd traced_checks traced_basic traced_book always_intros
        traced_read_checked [OF load_pmlc_DPmlc require_live_live] n guards_intros keeps_pmlc | assumption)+
qed

lemma claim_guard:
  "claim_checks e accounts args w = (Inr x, w') \<Longrightarrow>
     w' = w \<and> (\<exists>r. acc_data (w (ai_key (accounts ! 2))) = DPmlc r \<and> \<not> live r)"
  by (auto simp: claim_checks_def Let_def unpaused_config_def bnd_ok seq_ok read_acct_ok load_oks lift_ok ensure_ok ret_ok)

lemma traced_claim: "traced False e w0 (process_claim_reentry e accounts args)"
  unfolding process_claim_reentry_def Let_def
  by (intro traced_seq traced_checks traced_check [OF claim_guard] guards_flag guards_intros
      traced_intros always_intros | assumption)+

section \<open>The timelock\<close>

abbreviation pending :: "timelock_proposal \<Rightarrow> bool" where "pending t \<equiv> tl_status t = TL_STATUS_PENDING"

lemma traced_cancel_timelock: "traced False e w0 (process_cancel_timelock e accounts n)"
proof -
  have g: "w' = w \<and> (\<exists>r. acc_data (w (ai_key ai)) = DTimelock r \<and> pending r)"
    if "bnd (read_acct load_timelock ai) (\<lambda>tl. seq (ensure (proposer tl = p) InvalidAdminSigner)
          (ensure (pending tl) TimelockNotExecutable)) w = (Inr u, w')" for ai p w u w'
    using that by (auto simp: bnd_ok seq_ok read_acct_ok load_oks ensure_ok)
  have f: "guards False e w0 ai DTimelock pending
     (edit_acct load_timelock DTimelock ai (modify (\<lambda>tl. tl\<lparr> tl_status := TL_STATUS_CANCELLED \<rparr>)))" for ai
    by (rule guards_change) (auto simp: load_oks modify_ok intro: evolves.cancellation)
  have c: "traced False e w0 (seq (bnd (read_acct load_timelock ai) (\<lambda>tl. seq (ensure (proposer tl = p) InvalidAdminSigner)
      (ensure (pending tl) TimelockNotExecutable)))
      (edit_acct load_timelock DTimelock ai (modify (\<lambda>tl. tl\<lparr> tl_status := TL_STATUS_CANCELLED \<rparr>))))" for ai p
    unfolding seq_def [of "bnd _ _"] by (rule traced_check [OF g f])
  show ?thesis
    unfolding process_cancel_timelock_def Let_def by (intro traced_seq traced_bnd traced_checks c)
qed

text \<open>An execution is no move: it installs the proposed signer.\<close>

lemma execute_installs:
  assumes "process_execute_set_attestation_signer e accounts n w = (Inr u, w')"
  shows "installs e (ai_key (accounts ! 1)) (ai_key (accounts ! 2)) w w'"
  using assms
  by (auto simp: process_execute_set_attestation_signer_def Let_def seq_ok bnd_ok need_accounts_ok assert_signers_ok
      assert_writables_ok assert_owners_ok pda_ok read_acct_ok load_oks ensure_ok authorize_with_def
      authorize_admin_or_multisig_def asks_ok lift_ok edit_acct_ok modify_ok installs_def split: if_splits)

section \<open>Fresh accounts\<close>

abbreviation blank :: "acct_data \<Rightarrow> bool" where "blank d \<equiv> discriminator d = 0"

lemma create_blank:
  assumes l: "machine_laws e" and run: "create_account e p new sys n own s w = (Inr u, w')" and o: "reach e w0 w"
  shows "guarded e w0 new (\<lambda>d. d) blank w'"
  using create_accountD(2) [OF machine_lawsD(2) [OF l] run] reach_create [OF o run]
  by (cases n) (auto simp: guarded_def first_byte_def)

lemma traced_create_then:
  assumes l: "machine_laws e" and m: "guards S e w0 new (\<lambda>d. d) blank m"
  shows "traced S e w0 (seq (create_account e p new sys n own s) m)"
proof (rule keepsI)
  fix w r w' assume run: "seq (create_account e p new sys n own s) m w = (r, w')" and c: "committed S r"
    and o: "reach e w0 w"
  obtain x w1 where x: "create_account e p new sys n own s w = (x, w1)" by fastforce
  show "reach e w0 w'"
  proof (cases x)
    case (Inl y)
    with run x have "r = Inl y" "w' = w1" by (simp_all add: seq_def bnd_def)
    with keepsD [OF traced_create [OF machine_lawsD(3) [OF l]] x _ o] Inl c show ?thesis by simp
  next
    case (Inr u)
    with run x have "m w1 = (r, w')" by (simp add: seq_def bnd_def)
    from leadsD [OF m this c create_blank [OF l x [unfolded Inr] o]] show ?thesis .
  qed
qed

lemma guards_write: "initial e d \<Longrightarrow> guards S e w0 new (\<lambda>d. d) blank (modify (set_data (ai_key new) d))"
  by (rule leadsI) (auto simp: modify_def guarded_def intro: reach_init)

lemma guards_lift:
  assumes "\<And>a. r = Inr a \<Longrightarrow> guards S e w0 ai mk C (f a)"
  shows "guards S e w0 ai mk C (bnd (lift r) f)"
proof (rule leadsI)
  fix w x w' assume run: "bnd (lift r) f w = (x, w')" and c: "committed S x" and g: "guarded e w0 ai mk C w"
  show "reach e w0 w'"
  proof (cases r)
    case (Inl y)
    with run g show ?thesis by (simp add: bnd_def lift_def guarded_def)
  next
    case (Inr a)
    with run have "f a w = (x, w')" by (simp add: bnd_def lift_def)
    from leadsD [OF assms [OF Inr] this c g] show ?thesis .
  qed
qed

lemma traced_propose:
  assumes l: "machine_laws e"
  shows "traced False e w0 (process_propose_set_attestation_signer e accounts args)"
  unfolding process_propose_set_attestation_signer_def write_proposal_def Let_def
  by (intro traced_create_then [OF l] traced_intros guards_seq guards_lift guards_write initial.timelock)
   (simp add: ok_or_err_ok)

lemma traced_ensure_nonce:
  assumes l: "machine_laws e"
  shows "traced S e w0 (ensure_market_nonce e adm ai sys market)"
  unfolding ensure_market_nonce_def by (intro traced_intros traced_calls [OF l])

lemma traced_init_instrument: "traced S e w0 (init_instrument_account ia mi ba args b)"
proof (rule keepsI)
  fix w r w' assume run: "init_instrument_account ia mi ba args b w = (r, w')" and o: "reach e w0 w"
  show "reach e w0 w'"
  proof (cases "blank_check INSTRUMENT_CONFIG_LEN (acc_data (w (ai_key ia)))")
    case (Inl x)
    with run o show ?thesis by (simp add: init_instrument_account_def seq_def bnd_def asks_def)
  next
    case (Inr u)
    then have "blank (acc_data (w (ai_key ia)))" by (auto simp: blank_check_def ok_iff)
    with run o Inr show ?thesis
      by (auto simp: init_instrument_account_def seq_def bnd_def asks_def lift_def modify_def
        intro: reach_init initial.instrument split: sum.splits)
  qed
qed

text \<open>Both accounts of a new instrument are created before either is written; they are distinct.\<close>

lemma traced_create_instrument:
  assumes l: "machine_laws e"
  shows "traced False e w0 (process_create_instrument e accounts args)"
proof -
  let ?i = "accounts ! 2" and ?b = "accounts ! 3"
  let ?two = "\<lambda>w. reach e w0 w \<and> ai_key ?i \<noteq> ai_key ?b \<and> blank (acc_data (w (ai_key ?b)))"
  have alloc: "reach e w0 w' \<and> data_len (acc_data (w' (ai_key ?i))) = INSTRUMENT_CONFIG_LEN"
    if "allocate_instrument e adm ?i sys args w = (Inr x, w')" "reach e w0 w" for adm sys w x w'
    using that create_accountD(2) [OF machine_lawsD(2) [OF l]]
    by (auto simp: allocate_instrument_def bnd_ok pda_ok seq_ok check_world_ok ret_ok dest: reach_create)
  have two: "?two w'"
    if "allocate_book e adm ?i ?b sys cap w = (Inr x, w')" "reach e w0 w"
      "data_len (acc_data (w (ai_key ?i))) = INSTRUMENT_CONFIG_LEN" for adm sys cap w x w'
  proof -
    from that(1) obtain sd where c: "create_account e adm ?b sys (intent_book_byte_size cap) (program_id e) sd w = (Inr (), w')"
      and z: "acct_len ?b w = 0"
      by (auto simp: allocate_book_def bnd_ok pda_ok seq_ok check_world_ok ret_ok)
    have "ai_key ?i \<noteq> ai_key ?b" using z that(3) by (auto simp: acct_len_def INSTRUMENT_CONFIG_LEN_def)
    with create_blank [OF l c that(2)] show ?thesis by (auto simp: guarded_def)
  qed
  have written: "reach e w0 w'"
    if "seq (init_instrument_account ?i mi ?b args ib) (seq (init_book_account ?i ?b cap bb 0) n) w = (Inr u, w')"
      "?two w" "\<And>w1 v w2. n w1 = (Inr v, w2) \<Longrightarrow> reach e w0 w1 \<Longrightarrow> reach e w0 w2" for mi ib cap bb u w w' and n :: "unit handler"
  proof -
    from that(1) obtain w1 w2 where i: "init_instrument_account ?i mi ?b args ib w = (Inr (), w1)"
      and b: "init_book_account ?i ?b cap bb 0 w1 = (Inr (), w2)" and n: "n w2 = (Inr u, w')"
      by (auto simp: seq_ok)
    from i have "acc_data (w1 (ai_key ?b)) = acc_data (w (ai_key ?b))" using that(2)
      by (auto simp: init_instrument_account_def seq_ok bnd_ok asks_ok lift_ok modify_ok)
    with that(2) have "blank (acc_data (w1 (ai_key ?b)))" by simp
    moreover have "reach e w0 w1" using keepsD [OF traced_init_instrument [of False e w0] i] that(2) by simp
    ultimately have "reach e w0 w2" using b
      by (auto simp: init_book_account_def seq_ok check_world_ok modify_ok intro: reach_init initial.book)
    with that(3) [OF n] show ?thesis by simp
  qed
  show ?thesis
  proof (rule keepsI)
    fix w x w' assume run: "process_create_instrument e accounts args w = (x, w')" and c: "committed False x"
      and o: "reach e w0 w"
    from c obtain u where x: "x = Inr u" by (auto simp: committed_def split: sum.splits)
    from run [unfolded x] obtain w1 ib w2 bb w3 where
      t: "check_trailing_registry e (drop 7 accounts) args w = (Inr (), w1)"
      and ai: "allocate_instrument e (accounts ! 0) ?i (accounts ! 5) args w1 = (Inr ib, w2)"
      and ab: "allocate_book e (accounts ! 0) ?i ?b (accounts ! 5) (cia_initial_book_capacity args) w2 = (Inr bb, w3)"
      and wr: "seq (init_instrument_account ?i (accounts ! 4) ?b args ib)
         (seq (init_book_account ?i ?b (cia_initial_book_capacity args) bb 0)
         (ensure_market_nonce e (accounts ! 0) (accounts ! 6) (accounts ! 5) (cia_market_id args))) w3 = (Inr u, w')"
      by (auto simp: process_create_instrument_def Let_def seq_ok bnd_ok need_accounts_ok assert_signers_ok assert_writables_ok
        require_ok check_world_ok assert_owner_ok require_admin_def read_acct_ok ensure_ok lift_ok)
    have "keeps False (reach e w0) (check_trailing_registry e (drop 7 accounts) args)"
      unfolding check_trailing_registry_def by (cases "drop 7 accounts") (simp_all, (intro traced_intros)+)
    from keepsD [OF this t _ o] have "reach e w0 w1" by simp
    from alloc [OF ai this] two [OF ab] have "?two w3" by blast
    from written [OF wr this] keepsD [OF traced_ensure_nonce [OF l, of False w0]] show "reach e w0 w'" by auto
  qed
qed

section \<open>Matching, posting, cancelling, pruning\<close>

lemma traced_match_core:
  assumes l: "machine_laws e"
  shows "traced True e w0 (match_pair_core e ctx i j n)"
proof -
  have ft: "traced True e w0 (ensure_fee_treasury e p ai m sys)" for p ai m sys
    unfolding ensure_fee_treasury_def by (intro traced_intros traced_calls [OF l])
  have uv: "traced True e w0 (ensure_user_volume e p ai own m sys)" for p ai own m sys
    unfolding ensure_user_volume_def by (intro traced_intros traced_calls [OF l])
  have ch: "traced True e w0 (charge_taker e ctx fc tk mk m c)" for fc tk mk m c
    unfolding charge_taker_def by (intro traced_intros ft uv)
  have op: "traced True e w0 (open_pmlc e ctx inst r nid bump)" for inst r nid bump
    unfolding open_pmlc_def Let_def
    by (intro traced_create_then [OF l] guards_seq guards_lift guards_write initial.pmlc traced_intros)
  have st: "traced True e w0 (settle_match e ctx inst r)" for inst r
    unfolding settle_match_def Let_def by (intro traced_intros always_intros ch)
  show ?thesis
    unfolding match_pair_core_def by (intro traced_intros always_intros st op)
qed

lemma traced_match:
  assumes l: "machine_laws e"
  shows "traced False e w0 (process_match_pair e accounts args)"
    "traced False e w0 (process_match_best_available e accounts)"
proof -
  have u: "traced False e w0 (unpack_accounts e accounts)"
    unfolding unpack_accounts_def Let_def by (intro traced_intros)
  show "traced False e w0 (process_match_pair e accounts args)"
    "traced False e w0 (process_match_best_available e accounts)"
    unfolding process_match_pair_def process_match_best_available_def
    by (intro traced_intros u traced_weaken [OF traced_match_core [OF l]])+
qed

lemma traced_post:
  assumes l: "machine_laws e"
  shows "traced False e w0 (process_post_intent e accounts args)"
    "traced False e w0 (process_post_intent_delegated e accounts args)"
proof -
  have im: "traced False e w0 (inline_match e p i b m as off args nid)" for p i b m as off nid
    unfolding inline_match_def Let_def by (intro traced_intros traced_match_core [OF l])
  have cs: "traced False e w0 (charge_session ai x)" for ai x
    unfolding charge_session_def by (intro traced_intros)
  have pc: "traced False e w0 (post_checks e own c i b m args)" for own c i b m
    unfolding post_checks_def by (intro traced_intros)
  have dp: "traced False e w0 (do_post_intent_inner e own p c i b m sa as off args)" for own p c i b m sa as off
    unfolding do_post_intent_inner_def by (intro traced_intros always_intros im cs pc)
  have se: "traced False e w0 (check_session e dl i sa)" for dl i sa
    unfolding check_session_def by (intro traced_intros)
  show "traced False e w0 (process_post_intent e accounts args)"
    "traced False e w0 (process_post_intent_delegated e accounts args)"
    unfolding process_post_intent_def process_post_intent_delegated_def Let_def
    by (intro traced_intros dp se)+
qed

lemma traced_cancel:
  "traced False e w0 (process_cancel_intent e accounts i)"
  "traced False e w0 (process_cancel_intent_delegated e accounts i)"
  unfolding process_cancel_intent_def process_cancel_intent_delegated_def check_session_def finish_cancel_def Let_def
  by (intro traced_intros always_intros)+

lemma traced_prune: "traced False e w0 (process_prune_expired e accounts)"
proof -
  have p: "traced False e w0 (prune_items e b mint ms items c)" for b mint ms items c
  proof (induction items arbitrary: c)
    case (Cons x xs)
    then show ?case by (cases x) (simp, intro traced_intros always_intros)
  qed (simp add: traced_intros)
  show ?thesis unfolding process_prune_expired_def Let_def by (intro traced_intros p)
qed

section \<open>A session granted, or granted again\<close>

lemma traced_create_session:
  assumes l: "machine_laws e"
  shows "traced False e w0 (process_create_session e accounts args)"
proof (rule keepsI)
  fix w x w' assume run: "process_create_session e accounts args w = (x, w')" and c: "committed False x"
    and o: "reach e w0 w"
  from c obtain u where x: "x = Inr u" by (auto simp: committed_def split: sum.splits)
  from run [unfolded x] obtain bump w1 s where
    a: "alloc_or_check_session e (accounts ! 0) (accounts ! 2) (accounts ! 3) bump w = (Inr (), w1)"
    and s: "session_init (ai_key (accounts ! 0)) (Pubkey (csa_delegate args)) bump
               (csa_expires_at_slot args) (csa_per_intent_max args) (csa_cumulative_cap args)
               (map Pubkey (csa_allowed_instruments args)) (clock_slot e) = Inr s"
    and w': "w' = set_data (ai_key (accounts ! 2)) (DSession s) w1"
    by (auto simp: process_create_session_def Let_def seq_ok bnd_ok need_accounts_ok assert_signers_ok
      assert_writables_ok assert_owner_ok require_ok pda_ok read_acct_ok load_oks ensure_ok modify_ok asks_ok lift_ok)
  show "reach e w0 w'"
  proof (cases "acct_len (accounts ! 2) w = 0")
    case True
    with a have "create_account e (accounts ! 0) (accounts ! 2) (accounts ! 3) SESSION_LEN (program_id e)
         [SEED_SESSION, key_bytes (ai_key (accounts ! 0)), [bump]] w = (Inr (), w1)"
      by (simp add: alloc_or_check_session_def bnd_def gets_def)
    from create_blank [OF l this o] s show ?thesis
      unfolding w' by (auto simp: guarded_def intro: reach_init initial.session)
  next
    case False
    with a obtain old where old: "acc_data (w (ai_key (accounts ! 2))) = DSession old"
      "se_owner old = ai_key (accounts ! 0)" "\<not> is_active old (clock_slot e)" "w1 = w"
      by (auto simp: alloc_or_check_session_def bnd_ok gets_ok seq_ok read_acct_ok load_oks ensure_ok)
    then have "evolves e (DSession old) (DSession s)" using s by (auto intro: evolves.regrant)
    with o old show ?thesis unfolding w' by (intro reach_step) simp_all
  qed
qed

section \<open>Expansion\<close>

lemma traced_expand:
  assumes l: "machine_laws e"
  shows "traced False e w0 (process_expand_intent_book e accounts n)"
proof (rule keepsI)
  fix w x w' assume run: "process_expand_intent_book e accounts n w = (x, w')" and c: "committed False x"
    and o: "reach e w0 w"
  from c obtain u where x: "x = Inr u" by (auto simp: committed_def split: sum.splits)
  let ?b = "ai_key (accounts ! 3)"
  let ?len = "data_len (acc_data (w ?b)) + unat n * NODE_SIZE"
  from run [unfolded x] obtain w1 w2 b b' where n: "n \<noteq> 0"
    and ow: "acc_owner (w ?b) = program_id e"
    and up: "top_up_rent e (accounts ! 0) (accounts ! 3) (accounts ! 4) ?len w = (Inr (), w1)"
    and re: "realloc e ?b ?len w1 = (Inr (), w2)"
    and ed: "acc_data (w2 ?b) = DBook b" "expand_book n b = (Inr (), b')" "w' = set_data ?b (DBook b') w2"
    by (auto simp: process_expand_intent_book_def Let_def seq_ok bnd_ok need_accounts_ok assert_signers_ok
      assert_writables_ok assert_owners_ok require_ok read_acct_ok ensure_ok gets_ok acct_len_def edit_acct_ok load_oks)
  have "keeps False (reach e w0) (top_up_rent e p bk s m)" for p bk s m
    unfolding top_up_rent_def Let_def by (intro traced_intros traced_calls [OF l])
  from keepsD [OF this up _ o] have r1: "reach e w0 w1" by simp
  have "acc_data (w1 ?b) = acc_data (w ?b)"
    using up ow l by (auto simp: top_up_rent_def Let_def bnd_ok gets_ok when_do_ok machine_laws_def split: if_splits
      dest: owned_frameD)
  with re have "realloc e ?b (data_len (acc_data (w1 ?b)) + unat n * NODE_SIZE) w1 = (Inr (), w2)" by simp
  from moves.grow [OF n this ed(1,2)] r1 show "reach e w0 w'"
    unfolding ed(3) by (rule rtranclp.rtrancl_into_rtrancl [rotated])
qed

end
