(* ===== verification/Ledger_Machine.thy ===== *)
theory Ledger_Machine
  imports Machine_Handlers Dispatch
begin

text \<open>
  Every instruction but the closing of a position is made of moves of the abstract ledger, and
  what the moves preserve: an initialised account stays the program's and evolves, and a
  well-formed ledger stays well-formed.
\<close>

section \<open>Every instruction\<close>

lemma traced_substitutes:
  "traced False e w0 (process_match_substitute e accounts args)"
  "traced False e w0 (process_match_substitute_with_settle e accounts args)"
  by (simp_all add: process_match_substitute_def process_match_substitute_with_settle_def traced_substitute)

lemma run_tag_traced:
  assumes l: "machine_laws e" and "t \<noteq> Tag_ClosePmlc" "t \<noteq> Tag_ExecuteSetAttestationSigner"
  shows "traced False e w0 (run_tag t e b accounts payload)"
proof -
  note handlers = traced_admin [OF l] traced_set_fees traced_propose [OF l] traced_create_instrument [OF l]
    traced_match [OF l] traced_post [OF l] traced_cancel traced_prune traced_settlements
    traced_novate traced_substitutes traced_claim traced_cancel_timelock
    traced_create_session [OF l] traced_expand [OF l]
  show ?thesis using assms(2,3) by (cases t) (simp_all, (intro traced_with handlers traced_seq traced_basic)+)
qed

lemma process_run_cases:
  assumes "process e b accounts data w = (Inr u, w')"
  obtains t payload where "data = tag_byte t # payload" "run_tag t e b accounts payload w = (Inr u, w')"
  using assms tag_byte_of_byte
  by (auto simp: process_def bnd_ok lift_ok fail_with_ok split: list.splits)

section \<open>Closing the account of a position\<close>

definition closes :: "env \<Rightarrow> pubkey \<Rightarrow> world \<Rightarrow> world \<Rightarrow> bool" where
  \<comment> \<open>the account of a settled position is zeroed and given to the system program; no other data or owner changes\<close>
  "closes e k w w' \<longleftrightarrow> acc_owner (w k) = program_id e \<and>
     (\<exists>p. acc_data (w k) = DPmlc p \<and> pm_status p \<noteq> PMLC_STATUS_LIVE) \<and>
     (\<exists>n. acc_data (w' k) = DRaw (replicate n 0)) \<and> acc_owner (w' k) = system_program_id e \<and>
     (\<forall>j. j \<noteq> k \<longrightarrow> acc_owner (w' j) = acc_owner (w j) \<and> acc_data (w' j) = acc_data (w j))"

lemma close_pmlc_closes:
  assumes run: "process_close_pmlc e accounts w = (Inr u, w')"
  shows "closes e (ai_key (accounts ! 1)) w w'"
proof -
  from run have st: "\<exists>p. acc_data (w (ai_key (accounts ! 1))) = DPmlc p \<and> \<not> live p"
    and o: "acc_owner (w (ai_key (accounts ! 1))) = program_id e"
    and cl: "close_pmlc_account e (accounts ! 0) (accounts ! 1) w = (Inr u, w')"
    by (auto simp: process_close_pmlc_def Let_def seq_ok bnd_ok need_accounts_ok assert_signers_ok assert_writables_ok
      assert_owner_ok read_acct_ok load_oks ensure_ok PMLC_STATUS_LIVE_def PMLC_STATUS_CLOSED_def
      PMLC_STATUS_LIQUIDATED_def PMLC_STATUS_RESOLVED_def)
  from cl have "\<forall>k. k \<noteq> ai_key (accounts ! 1) \<longrightarrow> acc_owner (w' k) = acc_owner (w k) \<and> acc_data (w' k) = acc_data (w k)"
    "\<exists>n. acc_data (w' (ai_key (accounts ! 1))) = DRaw (replicate n 0)"
    "acc_owner (w' (ai_key (accounts ! 1))) = system_program_id e"
    by (auto simp: close_pmlc_account_def bnd_ok seq_ok gets_ok modify_ok lift_ok)
  with st o show ?thesis by (simp add: closes_def)
qed

lemma run_execute:
  assumes "run_tag Tag_ExecuteSetAttestationSigner e b accounts payload w = (Inr u, w')"
  obtains n where "process_execute_set_attestation_signer e accounts n w = (Inr u, w')"
  using assms by (auto simp: with_args_def fail_with_ok split: option.splits)

lemma process_moves:
  assumes "machine_laws e" "process e b accounts data w = (Inr u, w')"
  shows "reach e w w' \<or> (\<exists>k. closes e k w w') \<or>
    (\<exists>n. process_execute_set_attestation_signer e accounts n w = (Inr u, w') \<and>
      installs e (ai_key (accounts ! 1)) (ai_key (accounts ! 2)) w w')"
proof -
  from assms(2) obtain t payload where r: "run_tag t e b accounts payload w = (Inr u, w')" by (rule process_run_cases)
  consider "t = Tag_ClosePmlc" | "t = Tag_ExecuteSetAttestationSigner"
    | "t \<noteq> Tag_ClosePmlc" "t \<noteq> Tag_ExecuteSetAttestationSigner" by blast
  then show ?thesis
  proof cases
    case 1
    with r have "process_close_pmlc e accounts w = (Inr u, w')" by simp
    from close_pmlc_closes [OF this] show ?thesis by blast
  next
    case 2
    obtain n where "process_execute_set_attestation_signer e accounts n w = (Inr u, w')"
      by (rule run_execute [OF r [unfolded 2]])
    with execute_installs show ?thesis by blast
  next
    case 3
    from keepsD [OF run_tag_traced [OF assms(1) 3, of w] r] show ?thesis by simp
  qed
qed

section \<open>Typed accounts\<close>

definition typed :: "acct_data \<Rightarrow> bool" where
  "typed d \<longleftrightarrow> (\<forall>bs. d \<noteq> DRaw bs)"

lemma evolves_typed: "evolves e d d' \<Longrightarrow> typed d' \<and> discriminator d' = discriminator d"
  by (induction rule: evolves.induct) (simp_all add: typed_def)

lemma evolved_typed: "evolved e d d' \<Longrightarrow> typed d \<Longrightarrow> typed d' \<and> discriminator d' = discriminator d"
  by (induction rule: rtranclp_induct) (auto dest: evolves_typed)

lemma typed_discriminator: "typed d \<Longrightarrow> discriminator d \<noteq> 0"
  by (cases d) (auto simp: typed_def)


section \<open>What an initialised account does\<close>

text \<open>
  Resizing an account by whole nodes appends zeroed nodes to a book: zeroed bytes are a free node
  that is the end of its list. Resizing does not interpret raw bytes.
\<close>

definition realloc_appends :: "env \<Rightarrow> bool" where
  "realloc_appends e \<longleftrightarrow> (\<forall>k b j w u w'. acc_data (w k) = DBook b \<longrightarrow>
     realloc e k (data_len (DBook b) + j * NODE_SIZE) w = (Inr u, w') \<longrightarrow>
     acc_data (w' k) = DBook (b\<lparr> bk_nodes := bk_nodes b @ replicate j (NFree 0) \<rparr>)) \<and>
     (\<forall>k n w u w' bs. acc_data (w k) = DRaw bs \<longrightarrow> realloc e k n w = (Inr u, w') \<longrightarrow>
       (\<exists>bs'. acc_data (w' k) = DRaw bs'))"

definition account_laws :: "env \<Rightarrow> bool" where
  "account_laws e \<longleftrightarrow> machine_laws e \<and> owners_frame e \<and> realloc_extends e \<and> realloc_appends e"

lemma account_lawsD: "account_laws e \<Longrightarrow> machine_laws e" "account_laws e \<Longrightarrow> owners_frame e"
  "account_laws e \<Longrightarrow> realloc_extends e" "account_laws e \<Longrightarrow> realloc_appends e"
  by (simp_all add: account_laws_def)

lemma grow_frame:
  assumes l: "realloc_extends e" and j: "j \<noteq> 0"
    and re: "realloc e k (data_len (acc_data (w k)) + unat j * NODE_SIZE) w = (Inr (), w1)"
  shows "acc_owner (w1 i) = acc_owner (w i)" "i \<noteq> k \<Longrightarrow> acc_data (w1 i) = acc_data (w i)"
    "discriminator (acc_data (w1 k)) = discriminator (acc_data (w k))"
proof -
  have "0 < data_len (acc_data (w k)) + unat j * NODE_SIZE" using j by (simp add: NODE_SIZE_def unat_gt_0)
  from l [unfolded realloc_extends_def, rule_format, OF re this]
  show "acc_owner (w1 i) = acc_owner (w i)" "i \<noteq> k \<Longrightarrow> acc_data (w1 i) = acc_data (w i)"
    "discriminator (acc_data (w1 k)) = discriminator (acc_data (w k))" by auto
qed

lemma grow_evolves:
  assumes l: "account_laws e" and j: "j \<noteq> 0" and t: "typed (acc_data (w k))"
    and re: "realloc e k (data_len (acc_data (w k)) + unat j * NODE_SIZE) w = (Inr (), w1)"
    and b: "acc_data (w1 k) = DBook b" "expand_book j b = (Inr (), b')"
  shows "evolves e (acc_data (w k)) (DBook b')"
proof -
  have "discriminator (acc_data (w k)) = discriminator (DBook b)"
    using grow_frame(3) [OF account_lawsD(3) [OF l] j re] b(1) by simp
  with t obtain c where c: "acc_data (w k) = DBook c" by (cases "acc_data (w k)") (auto simp: typed_def)
  with re account_lawsD(4) [OF l] b(1) have "b = c\<lparr> bk_nodes := bk_nodes c @ replicate (unat j) (NFree 0) \<rparr>"
    unfolding realloc_appends_def by fastforce
  with b(2) c show ?thesis by (auto intro: evolves.expand)
qed

lemma moves_evolve:
  assumes l: "account_laws e" and "moves e w w'" and o: "acc_owner (w k) = program_id e" and t: "typed (acc_data (w k))"
  shows "acc_owner (w' k) = program_id e \<and>
    (acc_data (w' k) = acc_data (w k) \<or> evolves e (acc_data (w k)) (acc_data (w' k)))"
  using assms(2)
proof cases
  case (step j d)
  with o show ?thesis by auto
next
  case (init j d)
  with o t typed_discriminator show ?thesis by auto
next
  case (call c ks sds)
  from owned_frameD [OF machine_lawsD(1) [OF account_lawsD(1) [OF l]] call o] show ?thesis by simp
next
  case (grow n j w1 b b')
  show ?thesis
  proof (cases "k = j")
    case True
    with grow_evolves [OF l grow(2) t [unfolded True] grow(3-5)] grow_frame(1) [OF account_lawsD(3) [OF l] grow(2,3)] o
    show ?thesis by (simp add: grow(1))
  next
    case False
    with grow_frame(1,2) [OF account_lawsD(3) [OF l] grow(2,3)] o show ?thesis by (simp add: grow(1))
  qed
qed

lemma reach_evolves:
  assumes l: "account_laws e" and "reach e w w'" and o: "acc_owner (w k) = program_id e" and t: "typed (acc_data (w k))"
  shows "acc_owner (w' k) = program_id e \<and> evolved e (acc_data (w k)) (acc_data (w' k))"
  using assms(2)
proof (induction rule: rtranclp_induct)
  case (step w1 w2)
  then have "typed (acc_data (w1 k))" using evolved_typed t by blast
  with moves_evolve [OF l step.hyps(2), of k] step.IH show ?case
    by (auto intro: rtranclp.rtrancl_into_rtrancl)
qed (simp add: o)

text \<open>An installation moves each of its two accounts along its own machine.\<close>

lemma installs_evolves:
  assumes "installs e i j w w'" "acc_owner (w k) = program_id e"
  shows "acc_owner (w' k) = program_id e \<and> evolved e (acc_data (w k)) (acc_data (w' k))"
  using assms by (auto simp: installs_def intro: r_into_rtranclp [of "evolves e", OF evolves.signer]
      r_into_rtranclp [of "evolves e", OF evolves.execution])

lemma process_evolves:
  assumes l: "account_laws e" and run: "process e b accounts data w = (Inr u, w')"
    and o: "acc_owner (w k) = program_id e" and t: "typed (acc_data (w k))"
  shows "(acc_owner (w' k) = program_id e \<and> evolved e (acc_data (w k)) (acc_data (w' k))) \<or> closes e k w w'"
  using process_moves [OF account_lawsD(1) [OF l] run]
proof (elim disjE exE conjE)
  assume "reach e w w'"
  from reach_evolves [of e w w' k, OF l this o t] show ?thesis by simp
next
  fix j assume c: "closes e j w w'"
  with o show ?thesis by (cases "k = j") (auto simp: closes_def)
next
  assume "installs e (ai_key (accounts ! 1)) (ai_key (accounts ! 2)) w w'"
  from installs_evolves [OF this o] show ?thesis by simp
qed

section \<open>The trusted signer\<close>

lemma signer_of_Some: "signer_of d = Some s \<Longrightarrow> discriminator d = discriminator (DConfig c)"
  by (cases d) simp_all

lemma moves_signer:
  assumes l: "account_laws e" and "moves e w w'" and o: "acc_owner (w k) = program_id e" and t: "typed (acc_data (w k))"
  shows "signer_of (acc_data (w' k)) = signer_of (acc_data (w k))"
  using assms(2)
proof cases
  case (step j d)
  then show ?thesis by simp
next
  case (init j d)
  with t typed_discriminator show ?thesis by auto
next
  case (call c ks sds)
  from owned_frameD [OF machine_lawsD(1) [OF account_lawsD(1) [OF l]] call o] show ?thesis by simp
next
  case (grow n j w1 b b')
  note fr = grow_frame [OF account_lawsD(3) [OF l] grow(2,3)]
  have "signer_of (acc_data (w j)) = None"
  proof (cases "signer_of (acc_data (w j))")
    case (Some s)
    from signer_of_Some [OF this] fr(3) grow(4) show ?thesis by simp
  qed
  with fr(2) show ?thesis by (cases "k = j") (simp_all add: grow(1))
qed

lemma reach_signer:
  assumes l: "account_laws e" and "reach e w w'" and o: "acc_owner (w k) = program_id e" and t: "typed (acc_data (w k))"
  shows "signer_of (acc_data (w' k)) = signer_of (acc_data (w k))"
  using assms(2)
proof (induction rule: rtranclp_induct)
  case (step w1 w2)
  from reach_evolves [OF l step.hyps(1) o t] evolved_typed t have "acc_owner (w1 k) = program_id e" "typed (acc_data (w1 k))"
    by blast+
  from moves_signer [OF l step.hyps(2) this] step.IH show ?case by simp
qed simp

text \<open>Whatever instruction changes the signer of a configuration is the execution of a proposal.\<close>

lemma process_signer:
  assumes l: "account_laws e" and run: "process e b accounts data w = (Inr u, w')"
    and o: "acc_owner (w k) = program_id e" and t: "typed (acc_data (w k))"
    and s: "signer_of (acc_data (w' k)) \<noteq> signer_of (acc_data (w k))"
  shows "k = ai_key (accounts ! 1) \<and> installs e k (ai_key (accounts ! 2)) w w' \<and>
    (\<exists>n. process_execute_set_attestation_signer e accounts n w = (Inr u, w'))"
  using process_moves [OF account_lawsD(1) [OF l] run]
proof (elim disjE exE conjE)
  assume "reach e w w'"
  from reach_signer [OF l this o t] s show ?thesis by simp
next
  fix j assume "closes e j w w'"
  with s show ?thesis by (cases "k = j") (auto simp: closes_def)
next
  fix n assume "process_execute_set_attestation_signer e accounts n w = (Inr u, w')"
    and i: "installs e (ai_key (accounts ! 1)) (ai_key (accounts ! 2)) w w'"
  moreover have "k = ai_key (accounts ! 1)" using i s by (auto simp: installs_def split: if_splits)
  ultimately show ?thesis by blast
qed

section \<open>A well-formed ledger\<close>

primrec data_wf :: "acct_data \<Rightarrow> bool" where
  "data_wf (DRaw bs) = True"
| "data_wf (DConfig c) = True"
| "data_wf (DMargin m) = True"
| "data_wf (DInstrument i) = (instrument_wf i)"
| "data_wf (DBook b) = (length (bk_nodes b) = unat (bk_capacity b))"
| "data_wf (DPmlc p) = ((pm_status p, close_reason p) \<in> {(PMLC_STATUS_LIVE, CLOSE_REASON_NONE),
     (PMLC_STATUS_CLOSED, CLOSE_REASON_MUTUAL), (PMLC_STATUS_LIQUIDATED, CLOSE_REASON_LIQUIDATED),
     (PMLC_STATUS_RESOLVED, CLOSE_REASON_RESOLVED)})"
| "data_wf (DNonce n) = (is_resolved n \<in> {0, 1})"
| "data_wf (DFeeSchedule s) = (validate_tiers (tiers s) = Inr () \<and> max_tier_fee_bps s = compute_max_fee_bps (tiers s))"
| "data_wf (DUserVolume v) = (epoch_length_slots v = USER_VOLUME_EPOCH_SLOTS)"
| "data_wf (DTreasury t) = True"
| "data_wf (DTimelock t) = (tl_kind t = TL_KIND_SET_ATTESTATION_SIGNER \<and>
     tl_status t \<in> {TL_STATUS_PENDING, TL_STATUS_EXECUTED, TL_STATUS_CANCELLED} \<and>
     sint (executable_after_unix_ts t) = sint (proposed_unix_ts t) + 86400)"
| "data_wf (DMultisig m) = multisig_wf m"
| "data_wf (DBuckets r) = (\<exists>ls bs. validate_inputs ls bs = Inr () \<and> holds_buckets r ls bs)"
| "data_wf (DStablecoins r) = registry_wf r"
| "data_wf (DSession s) = session_wf s"

lemma always_epoch_length: "always (\<lambda>v. epoch_length_slots v = n) (add_volume a now)"
  unfolding add_volume_def maybe_roll_epoch_def Let_def
  by (intro always_intros always_modify | simp)+

lemma link_new_nodes_length:
  "always (\<lambda>b. length (bk_nodes b) = n \<and> bk_capacity b = c) (link_new_nodes xs)"
  by (induction xs) (simp_all, (intro always_intros always_modify | simp)+)

lemma expand_wf:
  assumes "expand_book j b = (Inr (), b')" "length (bk_nodes b) = unat (bk_capacity b) + unat j"
  shows "length (bk_nodes b') = unat (bk_capacity b')"
proof -
  from assms(1) obtain c where c: "unat c = unat (bk_capacity b) + unat j"
    and r: "link_new_nodes [unat (bk_capacity b)..<unat c] (b\<lparr> bk_capacity := c \<rparr>) = (Inr (), b')"
    by (auto simp: expand_book_def bnd_ok gets_ok lift_ok ok_or_err_ok arith_iff seq_ok modify_ok)
  have "length (bk_nodes b') = length (bk_nodes b) \<and> bk_capacity b' = c"
    by (rule alwaysD [OF link_new_nodes_length r]) simp
  with assms(2) c show ?thesis by simp
qed

lemma evolves_wf: "evolves e x y \<Longrightarrow> data_wf x \<Longrightarrow> data_wf y"
proof (induction rule: evolves.induct)
  case (book b b')
  then show ?case by (simp add: same_book_def)
next
  case (expand j b b')
  from expand_wf [OF expand.hyps] expand.prems show ?case by simp
next
  case (volume a v r v')
  from alwaysD [OF always_epoch_length volume.hyps] volume.prems show ?case by simp
next
  case (rotation sgs thr ms ms')
  from rotate_wf [OF rotation.hyps] show ?case by simp
next
  case (buckets ls bs r r')
  then have "validate_inputs ls bs = Inr ()" by (auto simp: set_buckets_ok)
  with set_buckets_holds [OF buckets.hyps] show ?case by auto
next
  case (add k r r')
  with add_mint_set show ?case by simp
next
  case (remove k r r')
  with remove_mint_set show ?case by simp
next
  case (charge a s v s')
  then show ?case by (auto simp: record_intent_ok session_wf_def)
next
  case (regrant s dlg bump ex pim cap al s')
  from session_init_wf [OF regrant.hyps(2)] show ?case by simp
qed (auto simp: close_position_def hand_over_def clear_flag_def modify_ok seq_ok fail_with_ok instrument_wf_def session_wf_def revoke_def
    split: if_splits)

lemma initial_wf: "initial e d \<Longrightarrow> data_wf d"
proof (induction rule: initial.induct)
  case (timelock after sg bump pid k)
  have "sint after = sint (clock_unix_timestamp e) + sint TIMELOCK_DELAY_SECS"
    using timelock by (auto simp: checked_add_s_def checked_signed_iff)
  then show ?case by (simp add: set_new_signer_def TIMELOCK_DELAY_SECS_def)
next
  case (buckets ls bs bump)
  from new_registry_holds [OF buckets] buckets show ?case by auto
qed (auto simp: new_intent_book_def new_pmlc_def CLOSE_REASON_NONE_def new_market_nonce_def new_fee_schedule_def
    new_user_volume_def new_multisig_wf new_registry_wf session_init_wf dest: instrument_init_wf)

definition ledger_wf :: "pubkey \<Rightarrow> world \<Rightarrow> bool" where
  "ledger_wf p w \<longleftrightarrow> (\<forall>k. acc_owner (w k) = p \<longrightarrow> data_wf (acc_data (w k)))"

lemma ledger_wf_set: "ledger_wf p w \<Longrightarrow> (acc_owner (w k) = p \<Longrightarrow> data_wf d) \<Longrightarrow> ledger_wf p (set_data k d w)"
  by (simp add: ledger_wf_def)

lemma grow_wf:
  assumes l: "account_laws e" and j: "j \<noteq> 0" and wf: "data_wf (acc_data (w k))"
    and re: "realloc e k (data_len (acc_data (w k)) + unat j * NODE_SIZE) w = (Inr (), w1)"
    and b: "acc_data (w1 k) = DBook b" "expand_book j b = (Inr (), b')"
  shows "data_wf (DBook b')"
proof (cases "typed (acc_data (w k))")
  case True
  from evolves_wf [OF grow_evolves [OF l j True re b] wf] show ?thesis .
next
  case False
  then obtain bs where "acc_data (w k) = DRaw bs" by (auto simp: typed_def)
  with account_lawsD(4) [OF l] re b(1) show ?thesis unfolding realloc_appends_def by fastforce
qed

lemma moves_wf:
  assumes l: "account_laws e" and "moves e w w'" and wf: "ledger_wf (program_id e) w"
  shows "ledger_wf (program_id e) w'"
  using assms(2)
proof cases
  case (step k d)
  then show ?thesis using wf evolves_wf by (auto intro!: ledger_wf_set simp: ledger_wf_def)
next
  case (init k d)
  then show ?thesis using wf initial_wf by (auto intro!: ledger_wf_set)
next
  case (call c ks sds)
  show ?thesis
    unfolding ledger_wf_def
  proof (intro allI impI)
    fix k assume o: "acc_owner (w' k) = program_id e"
    have same: "data_wf (acc_data (w' k))" if "acc_owner (w k) = program_id e"
      using owned_frameD [OF machine_lawsD(1) [OF account_lawsD(1) [OF l]] call that] wf that by (simp add: ledger_wf_def)
    show "data_wf (acc_data (w' k))"
    proof (cases c)
      case (CreateAccount p j m n own)
      note z = machine_lawsD(2) [OF account_lawsD(1) [OF l], unfolded creates_zeroed_def, rule_format,
        OF call [unfolded CreateAccount]]
      show ?thesis using z o same by (cases "k = j") auto
    qed (use account_lawsD(2) [OF l] call o same in \<open>unfold owners_frame_def, fastforce\<close>)+
  qed
next
  case (grow j k w1 b b')
  have "ledger_wf (program_id e) (set_data k (DBook b') w1)"
    unfolding ledger_wf_def
  proof (intro allI impI)
    fix i assume o: "acc_owner (set_data k (DBook b') w1 i) = program_id e"
    note fr = grow_frame [OF account_lawsD(3) [OF l] grow(2,3)]
    show "data_wf (acc_data (set_data k (DBook b') w1 i))"
    proof (cases "i = k")
      case True
      with o fr(1) wf have "data_wf (acc_data (w k))" by (simp add: ledger_wf_def)
      from grow_wf [OF l grow(2) this grow(3-5)] True show ?thesis by simp
    next
      case False
      with o fr wf show ?thesis by (simp add: ledger_wf_def)
    qed
  qed
  then show ?thesis by (simp add: grow(1))
qed

lemma process_wf:
  assumes l: "account_laws e" and run: "process e b accounts data w = (Inr u, w')"
    and wf: "ledger_wf (program_id e) w"
  shows "ledger_wf (program_id e) w'"
  using process_moves [OF account_lawsD(1) [OF l] run]
proof (elim disjE exE conjE)
  assume "installs e (ai_key (accounts ! 1)) (ai_key (accounts ! 2)) w w'"
  with wf show ?thesis by (fastforce simp: installs_def ledger_wf_def)
next
  assume "reach e w w'"
  then show ?thesis by (induction rule: rtranclp_induct) (use wf moves_wf [OF l] in auto)
next
  fix k assume c: "closes e k w w'"
  show ?thesis
    unfolding ledger_wf_def
  proof (intro allI impI)
    fix j assume "acc_owner (w' j) = program_id e"
    with c wf show "data_wf (acc_data (w' j))" by (cases "j = k") (auto simp: closes_def ledger_wf_def)
  qed
qed

end
