(* ===== verification/Lifecycle_Properties.thy ===== *)
theory Lifecycle_Properties
  imports Ledger_Machine Ledger_Run Access_Properties
begin

text \<open>
  The lifetime of an account: every instruction is made of moves of the abstract ledger, so what
  every step of an account's machine preserves holds along every run of the ledger.
\<close>

section \<open>The refinement\<close>

text \<open>
  C12. The program refines the abstract ledger. An instruction that fails leaves the ledger as it
  was. One that succeeds is a sequence of moves (a step of one account's machine, the
  initialisation of a blank account, a call of another program, the growth of a book), or closes the
  account of a settled position, or installs the signer of a due proposal. So every account the
  program owns and has initialised is still the program's, and its data has moved along the steps
  of its machine, unless it is the one closed. The machine of a margin account leaves its balances
  open; together they are bound: on a ledger within the settlement bounds an instruction without an
  inline match changes what the program owes by exactly its deposit, withdrawal or sweep.
\<close>

theorem process_refines_ledger_machine:
  assumes "account_laws e" and "run_instruction (process e b accounts data) w = (r, w')"
  shows "case r of Inl x \<Rightarrow> w' = w
    | Inr u \<Rightarrow>
       (reach e w w' \<or> (\<exists>k. closes e k w w') \<or> (\<exists>i j. installs e i j w w')) \<and>
       (\<forall>k. acc_owner (w k) = program_id e \<and> typed (acc_data (w k)) \<longrightarrow>
          (acc_owner (w' k) = program_id e \<and> evolved e (acc_data (w k)) (acc_data (w' k))) \<or> closes e k w w') \<and>
       (\<forall>K. settlement_bounds w \<and> data_without_inline_match b data \<and> finite K \<and> ai_key ` set accounts \<subseteq> K \<longrightarrow>
          int (held_by e w' K) = int (held_by e w K) + data_flow b data)"
proof (cases r)
  case (Inl x)
  with assms(2) show ?thesis by (auto dest: run_instruction_error)
next
  case (Inr u)
  with assms(2) have run: "process e b accounts data w = (Inr u, w')" by (simp add: run_instruction_ok)
  have law: "runtime_laws e"
    using assms(1) by (simp add: account_laws_def machine_laws_def runtime_laws_def)
  have "reach e w w' \<or> (\<exists>k. closes e k w w') \<or> (\<exists>i j. installs e i j w w')"
    using process_moves [OF account_lawsD(1) [OF assms(1)] run] by blast
  moreover have "\<forall>K. settlement_bounds w \<and> data_without_inline_match b data \<and> finite K \<and> ai_key ` set accounts \<subseteq> K \<longrightarrow>
      int (held_by e w' K) = int (held_by e w K) + data_flow b data"
    using instruction_flow [OF law _ _ _ _ run] by blast
  ultimately show ?thesis using process_evolves [OF assms(1) run] Inr by simp
qed

lemma ex_account_laws: "account_laws ex_env"
proof -
  have "failed_calls_abort ex_env"
    unfolding failed_calls_abort_def
  proof (intro allI impI)
    fix c ks sds w x w' assume "invoke ex_env c ks sds w = (Inl x, w')"
    then show "is_fatal x"
      by (cases c) (auto simp: ex_env_def ex_create_def run_defs split: if_splits)
  qed
  moreover have "realloc_appends ex_env"
    by (auto simp: realloc_appends_def ex_env_def ex_realloc_def Let_def modify_def NODE_SIZE_def add.commute)
  ultimately show ?thesis
    by (simp add: account_laws_def machine_laws_def ex_owned_frame ex_creates_zeroed ex_owners_frame ex_realloc_extends)
qed

lemma process_refines_ledger_machine_witness:
  "\<exists>w'. run_instruction (process ex_env ex_borsh ex_deposit_accounts ex_deposit_data) ex_w_deposit = (Inr (), w') \<and>
     evolved ex_env (acc_data (ex_w_deposit (ai_key (ex_deposit_accounts ! 1)))) (acc_data (w' (ai_key (ex_deposit_accounts ! 1)))) \<and>
     int (held_by ex_env w' (ai_key ` set ex_deposit_accounts)) =
       int (held_by ex_env ex_w_deposit (ai_key ` set ex_deposit_accounts)) + 5"
proof -
  let ?k = "ai_key (ex_deposit_accounts ! 1)"
  obtain w' where r: "run_instruction (process ex_env ex_borsh ex_deposit_accounts ex_deposit_data) ex_w_deposit = (Inr (), w')"
    unfolding run_instruction_ok using ex_deposit_runs by (metis ex_process_deposit prod.collapse)
  have d: "acc_owner (ex_w_deposit ?k) = program_id ex_env" "typed (acc_data (ex_w_deposit ?k))"
    "\<forall>p. acc_data (ex_w_deposit ?k) \<noteq> DPmlc p"
    by (simp_all add: ex_w_deposit_def ex_deposit_accounts_def ex_defs typed_def)
  have f: "data_flow ex_borsh ex_deposit_data = 5" "data_without_inline_match ex_borsh ex_deposit_data"
    by (simp_all add: data_flow_def data_without_inline_match_def no_inline_match_def ex_deposit_data_def
      ex_deposit_data_facts flow_eqs)
  note th = process_refines_ledger_machine [OF ex_account_laws r, unfolded sum.case]
  have "evolved ex_env (acc_data (ex_w_deposit ?k)) (acc_data (w' ?k))"
    using th d by (auto simp: closes_def)
  moreover have "int (held_by ex_env w' (ai_key ` set ex_deposit_accounts)) =
      int (held_by ex_env ex_w_deposit (ai_key ` set ex_deposit_accounts)) + 5"
    using th f ex_settlement_bounds by auto
  ultimately show ?thesis using r by blast
qed

section \<open>Runs\<close>

text \<open>
  A step of the ledger is an instruction of the program, committed if it succeeds and discarded
  if it fails, or anything the world outside does. Steps that leave account \<open>k\<close> the program's keep
  it open.
\<close>

definition ledger_step :: "pubkey \<Rightarrow> world \<Rightarrow> world \<Rightarrow> bool" where
  "ledger_step p w w' \<longleftrightarrow>
     (\<exists>e b accounts data r. program_id e = p \<and> system_program_id e \<noteq> p \<and> account_laws e \<and>
        run_instruction (process e b accounts data) w = (r, w')) \<or> outside_step p w w'"

definition open_step :: "pubkey \<Rightarrow> pubkey \<Rightarrow> world \<Rightarrow> world \<Rightarrow> bool" where
  "open_step p k w w' \<longleftrightarrow> ledger_step p w w' \<and> acc_owner (w' k) = p"

abbreviation ledger_steps :: "pubkey \<Rightarrow> world \<Rightarrow> world \<Rightarrow> bool" where
  "ledger_steps p \<equiv> (ledger_step p)\<^sup>*\<^sup>*"

abbreviation open_steps :: "pubkey \<Rightarrow> pubkey \<Rightarrow> world \<Rightarrow> world \<Rightarrow> bool" where
  "open_steps p k \<equiv> (open_step p k)\<^sup>*\<^sup>*"

lemma instruction_step:
  "program_id e = p \<Longrightarrow> system_program_id e \<noteq> p \<Longrightarrow> account_laws e \<Longrightarrow>
     process e b accounts data w = (Inr u, w') \<Longrightarrow> ledger_step p w w'"
  unfolding ledger_step_def by (metis run_instruction_ok)

lemma step_machine:
  assumes "ledger_step p w w'" "acc_owner (w k) = p" "typed (acc_data (w k))"
  shows "(acc_owner (w' k) = p \<and>
      (acc_data (w' k) = acc_data (w k) \<or> (\<exists>e. evolved e (acc_data (w k)) (acc_data (w' k))))) \<or>
    ((\<exists>q. acc_data (w k) = DPmlc q) \<and> acc_owner (w' k) \<noteq> p)"
  using assms(1) unfolding ledger_step_def
proof (elim disjE exE conjE)
  fix e b accounts data r
  assume e: "program_id e = p" "system_program_id e \<noteq> p" "account_laws e"
    and run: "run_instruction (process e b accounts data) w = (r, w')"
  show ?thesis
  proof (cases r)
    case (Inl x)
    with run have "w' = w" by (auto dest: run_instruction_error)
    with assms(2) show ?thesis by simp
  next
    case (Inr u)
    with run have "process e b accounts data w = (Inr u, w')" by (simp add: run_instruction_ok)
    from process_evolves [OF e(3) this, of k] assms(2,3) e(1,2) show ?thesis by (auto simp: closes_def)
  qed
next
  assume "outside_step p w w'"
  with assms(2) show ?thesis by (simp add: outside_step_def)
qed

text \<open>What every step of a machine preserves, every run preserves.\<close>

lemma evolved_preserves:
  assumes "evolved e x y" "\<And>e x y. evolves e x y \<Longrightarrow> R x y" "\<And>x. R x x" "\<And>x y z. R x y \<Longrightarrow> R y z \<Longrightarrow> R x z"
  shows "R x y"
  using assms(1) by (induction rule: rtranclp_induct) (auto intro: assms(2-4))

lemma open_steps_preserve:
  assumes run: "open_steps p k w w'" and o: "acc_owner (w k) = p" "typed (acc_data (w k))"
    and R: "\<And>e x y. evolves e x y \<Longrightarrow> R x y" "\<And>x. R x x" "\<And>x y z. R x y \<Longrightarrow> R y z \<Longrightarrow> R x z"
  shows "acc_owner (w' k) = p \<and> typed (acc_data (w' k)) \<and> discriminator (acc_data (w' k)) = discriminator (acc_data (w k)) \<and>
    R (acc_data (w k)) (acc_data (w' k))"
  using run
proof (induction rule: rtranclp_induct)
  case base
  show ?case using o R(2) by simp
next
  case (step w1 w2)
  then have IH: "acc_owner (w1 k) = p" "typed (acc_data (w1 k))" "R (acc_data (w k)) (acc_data (w1 k))"
    "discriminator (acc_data (w1 k)) = discriminator (acc_data (w k))" by simp_all
  from step.hyps(2) have s: "ledger_step p w1 w2" "acc_owner (w2 k) = p" by (simp_all add: open_step_def)
  from step_machine [OF s(1) IH(1,2)] s(2) consider "acc_data (w2 k) = acc_data (w1 k)"
    | e where "evolved e (acc_data (w1 k)) (acc_data (w2 k))" by auto
  then show ?case
  proof cases
    case 1
    with IH s show ?thesis by simp
  next
    case (2 e)
    from evolved_preserves [of e _ _ R, OF 2 R] have r: "R (acc_data (w1 k)) (acc_data (w2 k))" .
    show ?thesis using IH s evolved_typed [OF 2 IH(2)] R(3) [OF IH(3) r] by simp
  qed
qed

lemma ledger_steps_open:
  assumes "ledger_steps p w w'" "acc_owner (w k) = p" "typed (acc_data (w k))" "\<forall>q. acc_data (w k) \<noteq> DPmlc q"
  shows "open_steps p k w w'"
  using assms(1)
proof (induction rule: rtranclp_induct)
  case (step w1 w2)
  have d: "discriminator (acc_data (w k)) \<noteq> discriminator (DPmlc q)" for q
    using assms(3,4) by (cases "acc_data (w k)") (auto simp: typed_def)
  from open_steps_preserve [OF step.IH assms(2,3), of "\<lambda>_ _. True"]
  have 1: "acc_owner (w1 k) = p" "typed (acc_data (w1 k))" "\<forall>q. acc_data (w1 k) \<noteq> DPmlc q"
    using d by auto
  from step_machine [OF step.hyps(2) 1(1,2)] 1(3) have "acc_owner (w2 k) = p" by auto
  with step show ?case by (simp add: open_step_def rtranclp.rtrancl_into_rtrancl)
qed simp

lemma ledger_steps_preserve:
  assumes "ledger_steps p w w'" "acc_owner (w k) = p" "typed (acc_data (w k))" "\<forall>q. acc_data (w k) \<noteq> DPmlc q"
    and "\<And>e x y. evolves e x y \<Longrightarrow> R x y" "\<And>x. R x x" "\<And>x y z. R x y \<Longrightarrow> R y z \<Longrightarrow> R x z"
  shows "acc_owner (w' k) = p \<and> typed (acc_data (w' k)) \<and> R (acc_data (w k)) (acc_data (w' k))"
proof -
  have "acc_owner (w' k) = p \<and> typed (acc_data (w' k)) \<and> discriminator (acc_data (w' k)) = discriminator (acc_data (w k)) \<and>
    R (acc_data (w k)) (acc_data (w' k))"
    by (rule open_steps_preserve [OF ledger_steps_open [OF assms(1-4)] assms(2,3)]) (rule assms(5-7); assumption)+
  then show ?thesis by simp
qed

section \<open>The terms of an account\<close>

text \<open>The data of an account without what its operations change.\<close>

definition blank_session :: session where
  "blank_session = \<lparr> se_bump = 0, revoked = 0, n_allowed_instruments = 0, se_owner = default_pubkey,
     delegate = default_pubkey, expires_at_slot = 0, per_intent_max_collateral_atoms = 0,
     cumulative_collateral_used = 0, cumulative_collateral_cap = 0, created_at_slot = 0, se_version = 0,
     allowed_instruments = [] \<rparr>"

primrec terms_of :: "acct_data \<Rightarrow> acct_data" where
  "terms_of (DRaw bs) = DRaw bs"
| "terms_of (DConfig c) = DConfig (c\<lparr> global_pause := 0, attestation_signer := default_pubkey \<rparr>)"
| "terms_of (DMargin m) = DMargin (new_margin_account (ma_owner m) (ma_mint m) (ma_bump m))"
| "terms_of (DInstrument i) = DInstrument (i\<lparr> ic_status := 0 \<rparr>)"
| "terms_of (DBook b) = DBook ((new_intent_book (bk_instrument b) 0 (bk_bump b) (cached_max_fee_bps b)))"
| "terms_of (DPmlc p) = DPmlc (p\<lparr> pm_status := 0, close_reason := 0, pm_flags := 0, long_owner := default_pubkey,
     short_owner := default_pubkey, last_mark_slot := 0 \<rparr>)"
| "terms_of (DNonce n) = DNonce (new_market_nonce (mn_market_id n) 0)"
| "terms_of (DFeeSchedule s) = DFeeSchedule (s\<lparr> tiers := [], max_tier_fee_bps := 0, last_updated_slot := 0 \<rparr>)"
| "terms_of (DUserVolume v) = DUserVolume (v\<lparr> volume_current_atoms := 0, volume_prev_atoms := 0, epoch_start_slot := 0 \<rparr>)"
| "terms_of (DTreasury t) = DTreasury (t\<lparr> accrued_atoms := 0, total_swept_atoms := 0 \<rparr>)"
| "terms_of (DTimelock t) = DTimelock (t\<lparr> tl_status := 0 \<rparr>)"
| "terms_of (DMultisig m) = DMultisig (m\<lparr> signers := [], n_signers := 0, threshold := 0, ms_version := 0 \<rparr>)"
| "terms_of (DBuckets r) = DBuckets (r\<lparr> br_leverage_bps := [], collateral_buckets := [], n_leverage := 0,
     n_collateral := 0, br_version := 0 \<rparr>)"
| "terms_of (DStablecoins r) = DStablecoins (r\<lparr> mints := [], n_mints := 0, sr_version := 0 \<rparr>)"
| "terms_of (DSession s) = DSession (blank_session\<lparr> se_owner := se_owner s \<rparr>)"

lemma always_terms:
  "always (\<lambda>v. terms_of (DUserVolume v) = t) (add_volume a now)"
  "always (\<lambda>v. terms_of (DTreasury v) = t) (accrue a)"
  "always (\<lambda>r. terms_of (DStablecoins r) = t) (add_mint k)"
  "always (\<lambda>r. terms_of (DStablecoins r) = t) (remove_mint k)"
  "always (\<lambda>v. terms_of (DTreasury v) = t) (sweep a)"
  unfolding add_volume_def maybe_roll_epoch_def accrue_def add_mint_def remove_mint_def sweep_def
    debit_accrued_def credit_swept_def Let_def
  by (intro always_intros always_modify always_update_checked | simp)+

lemma expand_terms:
  "expand_book j b = (Inr (), b') \<Longrightarrow>
     bk_instrument b' = bk_instrument b \<and> bk_bump b' = bk_bump b \<and> cached_max_fee_bps b' = cached_max_fee_bps b"
proof -
  let ?P = "\<lambda>h c. (bk_instrument c, bk_bump c, cached_max_fee_bps c) = h"
  have "always (?P h) (link_new_nodes xs)" for h xs
    by (induction xs) (simp_all, (intro always_intros always_modify | simp)+)
  then have a: "always (?P h) (expand_book j)" for h
    unfolding expand_book_def by (intro always_intros always_modify) simp_all
  assume "expand_book j b = (Inr (), b')"
  from alwaysD [OF a this refl] show ?thesis by simp
qed

lemma evolves_terms: "evolves e x y \<Longrightarrow> terms_of y = terms_of x"
proof (induction rule: evolves.induct)
  case (margin m' m)
  then show ?case by (simp add: holder_of_def)
next
  case (book b b')
  then show ?case by (simp add: same_book_def)
next
  case (charge a s v s')
  then show ?case by (auto simp: record_intent_ok)
next
  case (expand j b b')
  from expand_terms [OF this] show ?case by simp
qed (auto simp: close_position_def hand_over_def clear_flag_def modify_ok seq_ok fail_with_ok rotate_ok set_buckets_ok
    session_init_ok revoke_def split: if_splits
    dest: alwaysD [OF always_terms(1) _ refl] alwaysD [OF always_terms(2) _ refl] alwaysD [OF always_terms(3) _ refl]
      alwaysD [OF always_terms(4) _ refl] alwaysD [OF always_terms(5) _ refl])

text \<open>
  C15. The terms of an account never change: along every run of the ledger an initialised account
  of the program keeps its type and its terms (\<open>terms_of\<close>: whose margin account of which mint it is,
  the parameters of an instrument, the sides' collateral and the entry price of a position, the
  proposed signer of a timelock, the mint and decimals of the wrapped coin, and so on), until, if it
  is a position, it is closed after having been settled.
\<close>

theorem terms_never_change:
  assumes "ledger_steps p w w'" "acc_owner (w k) = p" "typed (acc_data (w k))"
  shows "(acc_owner (w' k) = p \<and> terms_of (acc_data (w' k)) = terms_of (acc_data (w k))) \<or>
    (\<exists>w1 w2 q. open_steps p k w w1 \<and> ledger_step p w1 w2 \<and> ledger_steps p w2 w' \<and> acc_owner (w2 k) \<noteq> p \<and>
       acc_data (w1 k) = DPmlc q \<and> terms_of (DPmlc q) = terms_of (acc_data (w k)))"
proof -
  have keep: "acc_owner (w1 k) = p \<and> typed (acc_data (w1 k)) \<and> terms_of (acc_data (w1 k)) = terms_of (acc_data (w k))"
    if "open_steps p k w w1" for w1
    using open_steps_preserve [OF that assms(2,3), of "\<lambda>x y. terms_of y = terms_of x"] evolves_terms by auto
  have "open_steps p k w w' \<or> (\<exists>w1 w2 q. open_steps p k w w1 \<and> ledger_step p w1 w2 \<and> ledger_steps p w2 w' \<and>
      acc_owner (w2 k) \<noteq> p \<and> acc_data (w1 k) = DPmlc q)"
    using assms(1)
  proof (induction rule: rtranclp_induct)
    case (step u v)
    from step.IH show ?case
    proof (elim disjE exE conjE)
      assume o: "open_steps p k w u"
      show ?thesis
      proof (cases "acc_owner (v k) = p")
        case True
        with step.hyps(2) have "open_step p k u v" by (simp add: open_step_def)
        from rtranclp.rtrancl_into_rtrancl [of "open_step p k", OF o this] show ?thesis by blast
      next
        case False
        with step_machine [OF step.hyps(2), of k] keep [OF o] obtain q where "acc_data (u k) = DPmlc q" by auto
        with o step.hyps(2) False show ?thesis by blast
      qed
    qed (meson step.hyps(2) rtranclp.rtrancl_into_rtrancl)
  qed simp
  with keep show ?thesis by metis
qed

section \<open>A settled position\<close>

definition settled_as :: "pmlc \<Rightarrow> acct_data \<Rightarrow> bool" where
  \<comment> \<open>nothing but re-entry flags was cleared\<close>
  "settled_as q d \<longleftrightarrow> (\<exists>m. d = DPmlc (q\<lparr> pm_flags := pm_flags q AND m \<rparr>))"

lemma settled_as_refl: "settled_as q (DPmlc q)"
  unfolding settled_as_def by (rule exI [of _ "- 1"]) simp

lemma evolves_settled:
  "evolves e x y \<Longrightarrow> \<forall>q. x = DPmlc q \<longrightarrow> pm_status q \<noteq> PMLC_STATUS_LIVE \<longrightarrow> settled_as q y"
  by (induction rule: evolves.induct) (auto simp: settled_as_def clear_flag_def modify_ok)

definition settles_to :: "acct_data \<Rightarrow> acct_data \<Rightarrow> bool" where
  "settles_to x y \<longleftrightarrow> (\<forall>q. x = DPmlc q \<longrightarrow> pm_status q \<noteq> PMLC_STATUS_LIVE \<longrightarrow> settled_as q y)"

lemma settles_to_trans: "settles_to x y \<Longrightarrow> settles_to y z \<Longrightarrow> settles_to x z"
  unfolding settles_to_def
proof (intro allI impI)
  fix q assume a: "\<forall>q. x = DPmlc q \<longrightarrow> pm_status q \<noteq> PMLC_STATUS_LIVE \<longrightarrow> settled_as q y"
    and b: "\<forall>q. y = DPmlc q \<longrightarrow> pm_status q \<noteq> PMLC_STATUS_LIVE \<longrightarrow> settled_as q z"
    and q: "x = DPmlc q" "pm_status q \<noteq> PMLC_STATUS_LIVE"
  from a q obtain m where m: "y = DPmlc (q\<lparr> pm_flags := pm_flags q AND m \<rparr>)" unfolding settled_as_def by blast
  have "settled_as (q\<lparr> pm_flags := pm_flags q AND m \<rparr>) z" by (rule b [rule_format, OF m]) (simp add: q(2))
  then obtain m' where "z = DPmlc (q\<lparr> pm_flags := pm_flags q AND m \<rparr>\<lparr> pm_flags := (pm_flags q AND m) AND m' \<rparr>)"
    unfolding settled_as_def by auto
  then have "z = DPmlc (q\<lparr> pm_flags := pm_flags q AND (m AND m') \<rparr>)" by (simp add: and.assoc)
  then show "settled_as q z" unfolding settled_as_def by blast
qed

lemma settled_stays:
  assumes "open_steps p k w w'" "acc_owner (w k) = p" "acc_data (w k) = DPmlc q" "pm_status q \<noteq> PMLC_STATUS_LIVE"
  shows "settled_as q (acc_data (w' k))"
proof -
  have "typed (acc_data (w k))" using assms(3) by (simp add: typed_def)
  from open_steps_preserve [OF assms(1,2) this, of settles_to] evolves_settled settled_as_refl settles_to_trans
  have "settles_to (acc_data (w k)) (acc_data (w' k))" unfolding settles_to_def by blast
  with assms(3,4) show ?thesis by (simp add: settles_to_def)
qed

definition settlement :: "env \<Rightarrow> account_info list \<Rightarrow> pubkey \<Rightarrow> world \<Rightarrow> world \<Rightarrow> bool" where
  \<comment> \<open>a liquidation, a resolution or a mutual close of the position at \<open>k\<close>\<close>
  "settlement e accounts k w w' \<longleftrightarrow> (\<exists>n u.
     (process_liquidate e accounts n w = (Inr u, w') \<and> k = ai_key (accounts ! 4)) \<or>
     (process_resolve e accounts n w = (Inr u, w') \<and> k = ai_key (accounts ! 4)) \<or>
     (process_close_mutual e accounts n w = (Inr u, w') \<and> k = ai_key (accounts ! 5)))"

definition hand_over_of :: "env \<Rightarrow> account_info list \<Rightarrow> pubkey \<Rightarrow> world \<Rightarrow> world \<Rightarrow> bool" where
  \<comment> \<open>a novation or substitution of a side of the position at \<open>k\<close>\<close>
  "hand_over_of e accounts k w w' \<longleftrightarrow> (\<exists>side args ws u.
     (process_novate e accounts side w = (Inr u, w') \<and> k = ai_key (accounts ! 4)) \<or>
     (do_substitute e accounts args ws w = (Inr u, w') \<and> k = ai_key (accounts ! 3)))"

definition ended :: "env \<Rightarrow> u8 \<Rightarrow> u8 \<Rightarrow> pmlc \<Rightarrow> pmlc" where
  "ended e st r p = p\<lparr> pm_status := st, close_reason := r, last_mark_slot := clock_slot e \<rparr>"

lemma liquidate_ends:
  assumes "liquidate_settle e inst ia pa la sa ka mark w = (Inr u, w')"
  shows "\<exists>p. acc_data (w (ai_key pa)) = DPmlc p \<and> pm_status p = PMLC_STATUS_LIVE \<and>
    acc_data (w' (ai_key pa)) = DPmlc (ended e PMLC_STATUS_LIQUIDATED CLOSE_REASON_LIQUIDATED p)"
  using assms by (rule liquidate_settle_run) (auto simp: when_do_ok edit_acct_ok load_oks ended_def split: if_splits)

lemma settle_and_close_ends:
  assumes "settle_sides la sa c eqs w = (Inr u, w1)" "acc_data (w (ai_key pa)) = DPmlc p"
    and "edit_acct load_pmlc DPmlc pa (close_position e st r) w1 = (Inr u', w')"
  shows "acc_data (w' (ai_key pa)) = DPmlc (ended e st r p)"
  using assms(1) by (rule settle_sides_run)
   (use assms(2,3) in \<open>auto simp: edit_acct_ok load_oks close_position_def modify_ok ended_def split: if_splits\<close>)

lemma resolve_ends:
  assumes "resolve_settle e inst ia pa la sa oc w = (Inr u, w')"
  shows "\<exists>p. acc_data (w (ai_key pa)) = DPmlc p \<and> pm_status p = PMLC_STATUS_LIVE \<and>
    acc_data (w' (ai_key pa)) = DPmlc (ended e PMLC_STATUS_RESOLVED CLOSE_REASON_RESOLVED p)"
  using assms by (rule resolve_settle_run) (blast dest: settle_and_close_ends)

lemma close_mutual_ends:
  assumes "close_mutual_settle e inst accounts mark w = (Inr u, w')"
  shows "\<exists>p. acc_data (w (ai_key (accounts ! 5))) = DPmlc p \<and> pm_status p = PMLC_STATUS_LIVE \<and>
    acc_data (w' (ai_key (accounts ! 5))) = DPmlc (ended e PMLC_STATUS_CLOSED CLOSE_REASON_MUTUAL p)"
  using assms by (rule close_mutual_settle_run) (blast dest: settle_and_close_ends)

lemma settlement_ends:
  assumes "settlement e accounts k w w'"
  shows "\<exists>p st r. acc_data (w k) = DPmlc p \<and> pm_status p = PMLC_STATUS_LIVE \<and>
    acc_data (w' k) = DPmlc (ended e st r p) \<and> st \<noteq> PMLC_STATUS_LIVE"
proof -
  have nz: "PMLC_STATUS_LIQUIDATED \<noteq> PMLC_STATUS_LIVE" "PMLC_STATUS_RESOLVED \<noteq> PMLC_STATUS_LIVE"
    "PMLC_STATUS_CLOSED \<noteq> PMLC_STATUS_LIVE" by (simp_all add: pmlc_consts)
  have put: "acc_data (w j) = DPmlc p" if "acc_data (set_data i (DNonce n) w j) = DPmlc p" for i j n p
    using that by (simp split: if_splits)
  from assms consider (l) n u where "process_liquidate e accounts n w = (Inr u, w')" "k = ai_key (accounts ! 4)"
    | (r) n u where "process_resolve e accounts n w = (Inr u, w')" "k = ai_key (accounts ! 4)"
    | (m) n u where "process_close_mutual e accounts n w = (Inr u, w')" "k = ai_key (accounts ! 5)"
    unfolding settlement_def by blast
  then show ?thesis
  proof cases
    case l
    from l(1) show ?thesis by (rule liquidate_checks) (use l(2) nz in \<open>blast dest: liquidate_ends put\<close>)
  next
    case r
    from r(1) show ?thesis by (rule resolve_checks) (use r(2) nz in \<open>blast dest: resolve_ends put\<close>)
  next
    case m
    from m(1) show ?thesis by (rule close_mutual_checks) (use m(2) nz in \<open>blast dest: close_mutual_ends put\<close>)
  qed
qed

lemma hand_over_live:
  "hand_over_of e accounts k w w' \<Longrightarrow> \<exists>p. acc_data (w k) = DPmlc p \<and> pm_status p = PMLC_STATUS_LIVE"
  by (auto simp: hand_over_of_def process_novate_def do_substitute_def Let_def guard_oks load_oks require_live_ok unpaused_ok)

lemma settlement_owned: "settlement e accounts k w w' \<Longrightarrow> acc_owner (w k) = program_id e"
  by (auto simp: settlement_def process_liquidate_def process_resolve_def process_close_mutual_def Let_def guard_oks)

lemma settlement_step:
  assumes "settlement e accounts k w w'" "account_laws e"
  shows "acc_owner (w' k) = program_id e"
proof -
  obtain p where p: "acc_data (w k) = DPmlc p" using settlement_ends [OF assms(1)] by blast
  have "reach e w w'"
    using assms(1) keepsD [OF traced_settlements(1) [of e w]] keepsD [OF traced_settlements(2) [of e w]]
      keepsD [OF traced_settlements(3) [of e w]]
    unfolding settlement_def by (metis committed_simps(1) rtranclp.rtrancl_refl)
  from reach_evolves [of e w w' k, OF assms(2) this settlement_owned [OF assms(1)]] p show ?thesis by (simp add: typed_def)
qed

text \<open>
  C13. A position is settled once: after a successful liquidation, resolution or mutual close it
  is live no more, and along every run of the ledger that does not close its account nothing of it
  changes but that re-entry flags are cleared; no second settlement, novation or substitution of
  it succeeds.
\<close>

theorem position_settles_once:
  assumes "settlement e accounts k w w1" "account_laws e" "program_id e = p"
    and "open_steps p k w1 w2"
  shows "\<exists>q m. acc_data (w1 k) = DPmlc q \<and> pm_status q \<noteq> PMLC_STATUS_LIVE \<and>
    acc_data (w2 k) = DPmlc (q\<lparr> pm_flags := pm_flags q AND m \<rparr>) \<and>
    (\<forall>e' accounts' w3. \<not> settlement e' accounts' k w2 w3 \<and> \<not> hand_over_of e' accounts' k w2 w3)"
proof -
  from settlement_ends [OF assms(1)] obtain q0 st r where
    q: "acc_data (w1 k) = DPmlc (ended e st r q0)" "st \<noteq> PMLC_STATUS_LIVE" by blast
  have o: "acc_owner (w1 k) = p" using settlement_step [OF assms(1,2)] assms(3) by simp
  have ns: "pm_status (ended e st r q0) \<noteq> PMLC_STATUS_LIVE" using q(2) by (simp add: ended_def)
  from settled_stays [OF assms(4) o q(1) ns] obtain m where
    m: "acc_data (w2 k) = DPmlc ((ended e st r q0)\<lparr> pm_flags := pm_flags (ended e st r q0) AND m \<rparr>)"
    by (auto simp: settled_as_def)
  have "\<not> settlement e' accounts' k w2 w3 \<and> \<not> hand_over_of e' accounts' k w2 w3" for e' accounts' w3
    using settlement_ends [of e' accounts' k w2 w3] hand_over_live [of e' accounts' k w2 w3] m ns by auto
  with q(1) ns m show ?thesis by blast
qed

section \<open>Attestations\<close>

definition consumes :: "env \<Rightarrow> account_info list \<Rightarrow> pubkey \<Rightarrow> attestation \<Rightarrow> world \<Rightarrow> world \<Rightarrow> bool" where
  \<comment> \<open>a settlement that succeeded with this attestation, signed by the configured signer, at this nonce account\<close>
  "consumes e accounts k att w w' \<longleftrightarrow> (\<exists>n u cfg i.
     (process_liquidate e accounts n w = (Inr u, w') \<and> k = ai_key (accounts ! 5) \<and> i = 1 \<or>
      process_resolve e accounts n w = (Inr u, w') \<and> k = ai_key (accounts ! 5) \<and> i = 1 \<or>
      process_close_mutual e accounts n w = (Inr u, w') \<and> k = ai_key (accounts ! 6) \<and> i = 2) \<and>
     acc_data (w (ai_key (accounts ! i))) = DConfig cfg \<and>
     fetch_attestation e (accounts ! Suc i) (attestation_signer cfg) n = Inr att)"

definition nonce_at_least :: "u64 \<Rightarrow> acct_data \<Rightarrow> bool" where
  "nonce_at_least v d \<longleftrightarrow> (\<exists>n. d = DNonce n \<and> v \<le> last_accepted_cre_nonce n)"

lemma evolves_nonce: "evolves e x y \<Longrightarrow> nonce_at_least v x \<longrightarrow> nonce_at_least v y"
  by (induction rule: evolves.induct) (auto simp: nonce_at_least_def intro: order_trans less_imp_le)

lemma evolved_nonce: "evolved e x y \<Longrightarrow> nonce_at_least v x \<Longrightarrow> nonce_at_least v y"
  by (induction rule: rtranclp_induct) (auto dest: evolves_nonce)

lemma accept_oks:
  "accept_breach e att inst n = (Inr u, n') \<Longrightarrow> last_accepted_cre_nonce n < nonce att \<and> last_accepted_cre_nonce n' = nonce att"
  "accept_resolution e att inst n = (Inr u, n') \<Longrightarrow> last_accepted_cre_nonce n < nonce att \<and> last_accepted_cre_nonce n' = nonce att"
  "accept_twap e att inst n = (Inr u, n') \<Longrightarrow> last_accepted_cre_nonce n < nonce att \<and> last_accepted_cre_nonce n' = nonce att"
  by (auto simp: accept_breach_def accept_resolution_def accept_twap_def seq_ok bnd_ok modify_ok lift_ok accept_nonce_ok
    validate_freshness_and_nonce_ok)

lemma settle_keeps_nonce:
  assumes "account_laws e" "\<And>w0. traced False e w0 m" "acc_owner (w k) = program_id e"
    and "m (set_data k (DNonce n') w) = (Inr u, w')"
  shows "acc_owner (w' k) = program_id e \<and> nonce_at_least (last_accepted_cre_nonce n') (acc_data (w' k))"
proof -
  let ?w = "set_data k (DNonce n') w"
  have "reach e ?w w'" using keepsD [OF assms(2) [of ?w] assms(4)] by simp
  from reach_evolves [of e ?w w' k, OF assms(1) this] assms(3)
  have "acc_owner (w' k) = program_id e \<and> evolved e (DNonce n') (acc_data (w' k))" by (simp add: typed_def)
  moreover have "nonce_at_least (last_accepted_cre_nonce n') (DNonce n')" by (simp add: nonce_at_least_def)
  ultimately show ?thesis using evolved_nonce by blast
qed

lemma consumes_nonce:
  assumes "consumes e accounts k att w w'"
  shows "acc_owner (w k) = program_id e \<and>
    (\<exists>n. acc_data (w k) = DNonce n \<and> last_accepted_cre_nonce n < nonce att) \<and>
    (account_laws e \<longrightarrow> acc_owner (w' k) = program_id e \<and> nonce_at_least (nonce att) (acc_data (w' k)))"
proof -
  from assms consider
      (l) n u cfg where "process_liquidate e accounts n w = (Inr u, w')" "k = ai_key (accounts ! 5)"
        "acc_data (w (ai_key (accounts ! 1))) = DConfig cfg" "fetch_attestation e (accounts ! 2) (attestation_signer cfg) n = Inr att"
    | (r) n u cfg where "process_resolve e accounts n w = (Inr u, w')" "k = ai_key (accounts ! 5)"
        "acc_data (w (ai_key (accounts ! 1))) = DConfig cfg" "fetch_attestation e (accounts ! 2) (attestation_signer cfg) n = Inr att"
    | (m) n u cfg where "process_close_mutual e accounts n w = (Inr u, w')" "k = ai_key (accounts ! 6)"
        "acc_data (w (ai_key (accounts ! 2))) = DConfig cfg" "fetch_attestation e (accounts ! 3) (attestation_signer cfg) n = Inr att"
    unfolding consumes_def by (auto simp: numeral_2_eq_2 numeral_3_eq_3)
  then show ?thesis
  proof cases
    case l
    have o: "acc_owner (w k) = program_id e" using l(1,2) by (auto simp: process_liquidate_def Let_def guard_oks)
    from l(1) show ?thesis
    proof (rule liquidate_checks)
      fix cfg' inst att' n1 n' mark
      assume a: "acc_data (w (ai_key (accounts ! 1))) = DConfig cfg'"
        "fetch_attestation e (accounts ! 2) (attestation_signer cfg') n = Inr att'"
        and n: "acc_data (w (ai_key (accounts ! 5))) = DNonce n1" "accept_breach e att' inst n1 = (Inr (), n')"
        and s: "liquidate_settle e inst (accounts ! 3) (accounts ! 4) (accounts ! 6) (accounts ! 7) (accounts ! 8) mark
          (set_data (ai_key (accounts ! 5)) (DNonce n') w) = (Inr u, w')"
      have "att' = att" using a l(3,4) by simp
      with accept_oks(1) [OF n(2)] settle_keeps_nonce [OF _ traced_liquidate_settle _ s] o n(1) l(2) show ?thesis by simp
    qed
  next
    case r
    have o: "acc_owner (w k) = program_id e" using r(1,2) by (auto simp: process_resolve_def Let_def guard_oks)
    from r(1) show ?thesis
    proof (rule resolve_checks)
      fix cfg' inst att' n1 n' oc
      assume a: "acc_data (w (ai_key (accounts ! 1))) = DConfig cfg'"
        "fetch_attestation e (accounts ! 2) (attestation_signer cfg') n = Inr att'"
        and n: "acc_data (w (ai_key (accounts ! 5))) = DNonce n1" "accept_resolution e att' inst n1 = (Inr (), n')"
        and s: "resolve_settle e inst (accounts ! 3) (accounts ! 4) (accounts ! 6) (accounts ! 7) oc
          (set_data (ai_key (accounts ! 5)) (DNonce n') w) = (Inr u, w')"
      have "att' = att" using a r(3,4) by simp
      with accept_oks(2) [OF n(2)] settle_keeps_nonce [OF _ traced_resolve_settle _ s] o n(1) r(2) show ?thesis by simp
    qed
  next
    case m
    have o: "acc_owner (w k) = program_id e" using m(1,2) by (auto simp: process_close_mutual_def Let_def guard_oks)
    from m(1) show ?thesis
    proof (rule close_mutual_checks)
      fix cfg' inst att' n1 n' mark
      assume a: "acc_data (w (ai_key (accounts ! 2))) = DConfig cfg'"
        "fetch_attestation e (accounts ! 3) (attestation_signer cfg') n = Inr att'"
        and n: "acc_data (w (ai_key (accounts ! 6))) = DNonce n1" "accept_twap e att' inst n1 = (Inr (), n')"
        and s: "close_mutual_settle e inst accounts mark (set_data (ai_key (accounts ! 6)) (DNonce n') w) = (Inr u, w')"
      have "att' = att" using a m(3,4) by simp
      with accept_oks(3) [OF n(2)] settle_keeps_nonce [OF _ traced_close_mutual_settle _ s] o n(1) m(2) show ?thesis by simp
    qed
  qed
qed

text \<open>
  C14. No attestation is used twice: after a settlement that succeeded with an attestation, along
  every run of the ledger, no settlement succeeds at the same market's nonce account with that
  attestation, or with any whose nonce is not greater, in any of the three kinds of settlement.
\<close>

theorem attestation_used_once:
  assumes "consumes e1 accounts1 k att1 w0 w1" "account_laws e1" "program_id e1 = p"
  shows "\<forall>w2 e2 accounts2 att2 w3. ledger_steps p w1 w2 \<longrightarrow> consumes e2 accounts2 k att2 w2 w3 \<longrightarrow> nonce att1 < nonce att2"
proof (intro allI impI)
  fix w2 e2 accounts2 att2 w3 assume steps: "ledger_steps p w1 w2" and c2: "consumes e2 accounts2 k att2 w2 w3"
  have c1: "acc_owner (w1 k) = program_id e1" "nonce_at_least (nonce att1) (acc_data (w1 k))"
    using consumes_nonce [OF assms(1)] assms(2) by simp_all
  then obtain n1 where n1: "acc_data (w1 k) = DNonce n1" by (auto simp: nonce_at_least_def)
  let ?R = "\<lambda>x y. nonce_at_least (nonce att1) x \<longrightarrow> nonce_at_least (nonce att1) y"
  have "nonce_at_least (nonce att1) (acc_data (w2 k))"
    using ledger_steps_preserve [OF steps, of k ?R] evolves_nonce c1 assms(3) n1 by (auto simp: typed_def)
  with consumes_nonce [OF c2] show "nonce att1 < nonce att2" by (auto simp: nonce_at_least_def)
qed

lemma ex_settles:
  "settlement (ex_oracle ex_breach) ex_liquidate_accounts ex_pmlc_key ex_w_settle
     (snd (process_liquidate (ex_oracle ex_breach) ex_liquidate_accounts 0 ex_w_settle))"
  "consumes (ex_oracle ex_breach) ex_liquidate_accounts ex_nonce_key (Attestation ex_breach) ex_w_settle
     (snd (process_liquidate (ex_oracle ex_breach) ex_liquidate_accounts 0 ex_w_settle))"
proof -
  let ?r = "process_liquidate (ex_oracle ex_breach) ex_liquidate_accounts 0 ex_w_settle"
  have r: "?r = (Inr (), snd ?r)" using ex_liquidate_runs by (metis prod.collapse)
  have k: "ai_key (ex_liquidate_accounts ! 4) = ex_pmlc_key" "ai_key (ex_liquidate_accounts ! 5) = ex_nonce_key"
    "ai_key (ex_liquidate_accounts ! 1) = sk 20"
    by (simp_all add: ex_liquidate_accounts_def ai_of_def)
  show "settlement (ex_oracle ex_breach) ex_liquidate_accounts ex_pmlc_key ex_w_settle (snd ?r)"
    unfolding settlement_def using r k(1) by metis
  have c: "acc_data (ex_w_settle (ai_key (ex_liquidate_accounts ! 1))) = DConfig ex_config"
    using k(3) by (simp add: owned_by_def)
  have f: "fetch_attestation (ex_oracle ex_breach) (ex_liquidate_accounts ! Suc 1) (attestation_signer ex_config) 0
      = Inr (Attestation ex_breach)"
    using ex_breach_fields by (simp add: ex_config_def new_program_config_def)
  show "consumes (ex_oracle ex_breach) ex_liquidate_accounts ex_nonce_key (Attestation ex_breach) ex_w_settle (snd ?r)"
    unfolding consumes_def
    by (rule exI [of _ 0], rule exI [of _ "()"], rule exI [of _ ex_config], rule exI [of _ 1])
      (use r k(2) c f in \<open>metis\<close>)
qed

lemma ex_oracle_laws: "account_laws (ex_oracle m)"
proof -
  have "owned_frame (ex_oracle m) = owned_frame ex_env" "creates_zeroed (ex_oracle m) = creates_zeroed ex_env"
    "failed_calls_abort (ex_oracle m) = failed_calls_abort ex_env" "realloc_extends (ex_oracle m) = realloc_extends ex_env"
    "realloc_appends (ex_oracle m) = realloc_appends ex_env" "owners_frame (ex_oracle m) = owners_frame ex_env"
    by (simp_all add: owned_frame_def creates_zeroed_def failed_calls_abort_def realloc_extends_def
      realloc_appends_def owners_frame_def ex_oracle_def)
  with ex_account_laws show ?thesis by (simp add: account_laws_def machine_laws_def)
qed

lemma position_settles_once_witness:
  "\<nexists>w3. settlement (ex_oracle ex_breach) ex_liquidate_accounts ex_pmlc_key
     (snd (process_liquidate (ex_oracle ex_breach) ex_liquidate_accounts 0 ex_w_settle)) w3"
  using position_settles_once [OF ex_settles(1) ex_oracle_laws refl rtranclp.rtrancl_refl] by blast

lemma attestation_used_once_witness:
  "\<nexists>w3. consumes (ex_oracle ex_breach) ex_liquidate_accounts ex_nonce_key (Attestation ex_breach)
     (snd (process_liquidate (ex_oracle ex_breach) ex_liquidate_accounts 0 ex_w_settle)) w3"
  using attestation_used_once [OF ex_settles(2) ex_oracle_laws refl] by blast

lemma terms_never_change_witness:
  "\<exists>w'. ledger_steps (sk 9) ex_w_deposit w' \<and>
     terms_of (acc_data (w' (ai_key (ex_deposit_accounts ! 1)))) = terms_of (acc_data (ex_w_deposit (ai_key (ex_deposit_accounts ! 1))))"
proof -
  let ?r = "process ex_env ex_borsh ex_deposit_accounts ex_deposit_data ex_w_deposit"
  let ?k = "ai_key (ex_deposit_accounts ! 1)"
  have r: "?r = (Inr (), snd ?r)" using ex_deposit_runs by (metis ex_process_deposit prod.collapse)
  have e: "program_id ex_env = sk 9" "system_program_id ex_env \<noteq> sk 9" by (simp_all add: ex_env_def sk_def)
  have run: "ledger_steps (sk 9) ex_w_deposit (snd ?r)"
    using instruction_step [OF e ex_account_laws r] by blast
  obtain m where m: "acc_data (ex_w_deposit ?k) = DMargin m"
    by (simp add: ex_w_deposit_def ex_deposit_accounts_def ex_defs)
  have d: "acc_owner (ex_w_deposit ?k) = sk 9"
    by (simp add: ex_w_deposit_def ex_deposit_accounts_def ex_defs)
  from terms_never_change [OF run d] m run show ?thesis by (auto simp: typed_def)
qed

section \<open>Well-formedness\<close>

lemma outside_wf: "outside_step p w w' \<Longrightarrow> ledger_wf p w \<Longrightarrow> ledger_wf p w'"
  unfolding ledger_wf_def outside_step_def by (metis data_wf.simps(1))

lemma steps_wf:
  assumes "ledger_steps p w w'" "ledger_wf p w"
  shows "ledger_wf p w'"
  using assms(1)
proof (induction rule: rtranclp_induct)
  case (step w1 w2)
  from step.hyps(2) show ?case
    unfolding ledger_step_def
  proof (elim disjE exE conjE)
    fix e b accounts data r
    assume e: "program_id e = p" "account_laws e" and run: "run_instruction (process e b accounts data) w1 = (r, w2)"
    show ?thesis
    proof (cases r)
      case (Inl x)
      with run step.IH show ?thesis by (auto dest: run_instruction_error)
    next
      case (Inr u)
      with run have "process e b accounts data w1 = (Inr u, w2)" by (simp add: run_instruction_ok)
      from process_wf [OF e(2) this] step.IH e(1) show ?thesis by simp
    qed
  next
    assume "outside_step p w1 w2"
    with step.IH show ?thesis by (rule outside_wf [rotated])
  qed
qed (rule assms(2))

text \<open>
  C16. Every account of the program stays well-formed: along every run from a well-formed ledger, by any
  instructions and anything the outside does, each account the program owns satisfies the
  invariant of its type (\<open>data_wf\<close>): instruments with an admissible leverage,
  bucket and tick; books with as many slots as their capacity; positions whose status and close
  reason agree; valid fee tables with their true maximum; multisigs whose threshold their distinct
  signers can reach; timelocks with the full delay; registries without duplicates; sessions within
  their caps; volume counters with the fixed epoch. A ledger in which the program owns nothing is
  well-formed, so this holds of every ledger the program can be in.
\<close>

theorem every_account_wf:
  assumes "ledger_wf p w" "ledger_steps p w w'"
  shows "\<forall>k. acc_owner (w' k) = p \<longrightarrow> data_wf (acc_data (w' k))"
  using steps_wf [OF assms(2,1)] by (simp add: ledger_wf_def)

lemma empty_ledger_wf: "\<forall>k. acc_owner (w k) \<noteq> p \<Longrightarrow> ledger_wf p w"
  by (simp add: ledger_wf_def)

definition fees_at_most :: "u16 \<Rightarrow> acct_data \<Rightarrow> bool" where
  "fees_at_most m d \<longleftrightarrow> (\<exists>s. d = DFeeSchedule s \<and> max_tier_fee_bps s \<le> m)"

lemma evolves_fees: "evolves e x y \<Longrightarrow> fees_at_most m x \<longrightarrow> fees_at_most m y"
  by (induction rule: evolves.induct) (auto simp: fees_at_most_def)

text \<open>
  C17. Fees only fall: along every run of the ledger the fee schedule stays one, its cached maximum
  never rises, and no volume is ever charged more than the maximum it started with.
\<close>

theorem fees_only_fall:
  assumes "ledger_steps p w w'" "ledger_wf p w" "acc_owner (w k) = p" "acc_data (w k) = DFeeSchedule s"
  shows "\<exists>s'. acc_data (w' k) = DFeeSchedule s' \<and> max_tier_fee_bps s' \<le> max_tier_fee_bps s \<and>
    (tiers s' \<noteq> [] \<longrightarrow> (\<forall>v. fee_for_volume s' v \<le> max_tier_fee_bps s))"
proof -
  let ?R = "\<lambda>x y. fees_at_most (max_tier_fee_bps s) x \<longrightarrow> fees_at_most (max_tier_fee_bps s) y"
  have "acc_owner (w' k) = p \<and> fees_at_most (max_tier_fee_bps s) (acc_data (w' k))"
    using ledger_steps_preserve [OF assms(1,3), of ?R] evolves_fees assms(4) by (auto simp: typed_def fees_at_most_def)
  then obtain s' where s': "acc_data (w' k) = DFeeSchedule s'" "max_tier_fee_bps s' \<le> max_tier_fee_bps s"
    and o: "acc_owner (w' k) = p" by (auto simp: fees_at_most_def)
  have "data_wf (DFeeSchedule s')" using steps_wf [OF assms(1,2)] o s'(1) unfolding ledger_wf_def by metis
  then have "tiers s' \<noteq> [] \<Longrightarrow> fee_schedule_wf s'" by (simp add: fee_schedule_wf_def)
  then have "tiers s' \<noteq> [] \<longrightarrow> (\<forall>v. fee_for_volume s' v \<le> max_tier_fee_bps s)"
    using fee_for_volume_le_max(1) s'(2) order_trans by blast
  with s' show ?thesis by blast
qed

section \<open>Concrete runs\<close>

definition ex_cfg_key :: pubkey where "ex_cfg_key = Pubkey SEED_CONFIG"
definition ex_ms_key :: pubkey where "ex_ms_key = Pubkey SEED_ADMIN_MULTISIG"

definition ex_deploy_borsh :: borsh where
  "ex_deploy_borsh = ex_borsh\<lparr>
     d_init_program_config := (\<lambda>_. Some \<lparr> ipc_attestation_signer = [4], ipc_default_max_staleness_secs = 300 \<rparr>),
     d_multisig := (\<lambda>_. Some \<lparr> ms_args_threshold = 2, ms_args_signers = [[1], [2]] \<rparr>),
     d_tiers := (\<lambda>_. Some [\<lparr> volume_threshold = 0, tier_fee_bps = 20 \<rparr>]) \<rparr>"

definition ex_config_accounts :: "account_info list" where
  "ex_config_accounts = map ai_of [sk 1, ex_cfg_key, sk 8, sk 0]"

definition ex_ms_accounts :: "account_info list" where
  "ex_ms_accounts = map ai_of [sk 1, ex_cfg_key, ex_ms_key, sk 0]"

definition ex_deployed :: world where
  "ex_deployed = ex_empty(ex_cfg_key := \<lparr> acc_owner = sk 9, acc_lamports = 1000,
     acc_data = DConfig (new_program_config (sk 1) (sk 4) (sk 8) 300 255) \<rparr>)"

lemma ex_deploy_keys: "ex_cfg_key \<noteq> sk n" "ex_ms_key \<noteq> sk n" "ex_ms_key \<noteq> ex_cfg_key"
  "ex_find [SEED_CONFIG] = (ex_cfg_key, 255)" "ex_find [SEED_ADMIN_MULTISIG] = (ex_ms_key, 255)"
proof -
  have l: "length SEED_ADMIN_MULTISIG = 14" by code_simp
  show "ex_ms_key \<noteq> sk n" "ex_ms_key \<noteq> ex_cfg_key" using l by (auto simp: ex_ms_key_def ex_cfg_key_def sk_def dest!: arg_cong [of _ _ length])
qed (simp_all add: ex_cfg_key_def ex_ms_key_def sk_def ex_find_def)

lemma ex_sk_neq: "sk 0 \<noteq> sk 9" by (simp add: sk_def)

lemma first_byte_zeros: "first_byte (replicate n 0) = 0"
  by (cases n) (simp_all add: first_byte_def)

lemma first_byte_Nil: "first_byte [] = 0"
  by (simp add: first_byte_def)

lemma ex_config_runs:
  "process ex_env ex_deploy_borsh ex_config_accounts (tag_byte Tag_InitProgramConfig # []) ex_empty = (Inr (), ex_deployed)"
  unfolding process_tag
  by (simp add: with_args_def ex_deploy_borsh_def process_init_program_config_def exec_defs ex_config_accounts_def ai_of_def
    ex_empty_def owned_by_def ex_env_def ex_deploy_keys create_if_empty_def ex_create_def ex_deployed_def
    first_byte_zeros first_byte_Nil PROGRAM_CONFIG_LEN_def ex_sk_neq sk_def [of 4] del: seed_bytes)

definition ex_governed :: world where
  "ex_governed = ex_deployed(ex_ms_key := \<lparr> acc_owner = sk 9, acc_lamports = 1000,
     acc_data = DMultisig (new_admin_multisig (sk 1) [sk 1, sk 2] 2 255) \<rparr>)"

lemma ex_ms_runs:
  "process ex_env ex_deploy_borsh ex_ms_accounts (tag_byte Tag_InitAdminMultisig # []) ex_deployed = (Inr (), ex_governed)"
proof -
  have c: "check_multisig_config [Pubkey [1], Pubkey [2]] 2 = Inr ()" by (simp add: check_multisig_config_ok)
  show ?thesis
    unfolding process_tag
    by (simp add: with_args_def ex_deploy_borsh_def process_init_admin_multisig_def exec_defs load_defs ex_ms_accounts_def ai_of_def
      ex_empty_def owned_by_def ex_env_def ex_deploy_keys ex_deploy_keys(1-3) [symmetric] create_if_empty_def ex_create_def
      ex_deployed_def ex_governed_def require_admin_def new_program_config_def c
      first_byte_zeros first_byte_Nil ADMIN_MULTISIG_LEN_def MAX_MULTISIG_SIGNERS_def ex_sk_neq sk_def [of 1] sk_def [of 2] del: seed_bytes)
qed

lemma every_account_wf_witness: "data_wf (acc_data (ex_governed ex_ms_key))"
proof -
  have e: "program_id ex_env = sk 9" "system_program_id ex_env \<noteq> sk 9" by (simp_all add: ex_env_def sk_def)
  have "ledger_steps (sk 9) ex_empty ex_governed"
    using instruction_step [OF e ex_account_laws ex_config_runs] instruction_step [OF e ex_account_laws ex_ms_runs]
    by (blast intro: rtranclp.rtrancl_into_rtrancl)
  moreover have "ledger_wf (sk 9) ex_empty"
    by (rule empty_ledger_wf) (simp add: ex_empty_def owned_by_def ex_sk_neq)
  ultimately have "\<forall>k. acc_owner (ex_governed k) = sk 9 \<longrightarrow> data_wf (acc_data (ex_governed k))"
    by (intro every_account_wf)
  then have "acc_owner (ex_governed ex_ms_key) = sk 9 \<longrightarrow> data_wf (acc_data (ex_governed ex_ms_key))" by blast
  moreover have "acc_owner (ex_governed ex_ms_key) = sk 9" by (simp add: ex_governed_def)
  ultimately show ?thesis by blast
qed

definition ex_schedule :: fee_schedule where
  "ex_schedule = new_fee_schedule [\<lparr> volume_threshold = 0, tier_fee_bps = 30 \<rparr>] 5 255"

definition ex_w_fees :: world where
  "ex_w_fees = ex_deployed(sk 31 := owned_by (sk 9) (DFeeSchedule ex_schedule))"

definition ex_w_lower :: world where
  "ex_w_lower = ex_w_fees(sk 31 := owned_by (sk 9) (DFeeSchedule (new_fee_schedule [\<lparr> volume_threshold = 0, tier_fee_bps = 20 \<rparr>] 100 255)))"

definition ex_fee_accounts :: "account_info list" where
  "ex_fee_accounts = map ai_of [sk 1, ex_cfg_key, sk 31]"

lemma ex_fees_run:
  "process ex_env ex_deploy_borsh ex_fee_accounts (tag_byte Tag_SetFeeSchedule # []) ex_w_fees = (Inr (), ex_w_lower)"
proof -
  have m: "compute_max_fee_bps [\<lparr> volume_threshold = 0, tier_fee_bps = 20 \<rparr>] = 20"
    "compute_max_fee_bps [\<lparr> volume_threshold = 0, tier_fee_bps = 30 \<rparr>] = 30"
    by (simp_all add: compute_max_fee_bps_def)
  have v: "validate_tiers [\<lparr> volume_threshold = 0, tier_fee_bps = 20 \<rparr>] = Inr ()" by (simp add: validate_tiers_ok)
  show ?thesis
    unfolding process_tag
    by (simp add: with_args_def ex_deploy_borsh_def process_set_fee_schedule_def to_raw_tiers_def exec_defs load_defs
      ex_fee_accounts_def ai_of_def owned_by_def ex_env_def ex_deploy_keys(1) ex_deploy_keys(1) [symmetric]
      ex_deployed_def ex_w_fees_def ex_w_lower_def ex_schedule_def new_fee_schedule_def require_admin_def
      new_program_config_def m v del: seed_bytes)
qed

lemma fees_only_fall_witness:
  "\<exists>s'. acc_data (ex_w_lower (sk 31)) = DFeeSchedule s' \<and> (\<forall>v. fee_for_volume s' v \<le> 30)"
proof -
  have e: "program_id ex_env = sk 9" "system_program_id ex_env \<noteq> sk 9" by (simp_all add: ex_env_def sk_def)
  have run: "ledger_steps (sk 9) ex_w_fees ex_w_lower"
    using instruction_step [OF e ex_account_laws ex_fees_run] by blast
  have m: "max_tier_fee_bps ex_schedule = 30" by (simp add: ex_schedule_def new_fee_schedule_def compute_max_fee_bps_def)
  have wf: "ledger_wf (sk 9) ex_w_fees"
    by (auto simp: ledger_wf_def ex_w_fees_def ex_deployed_def ex_empty_def owned_by_def ex_sk_neq ex_schedule_def
      new_fee_schedule_def validate_tiers_ok)
  have o: "acc_owner (ex_w_fees (sk 31)) = sk 9" "acc_data (ex_w_fees (sk 31)) = DFeeSchedule ex_schedule"
    by (simp_all add: ex_w_fees_def owned_by_def)
  from fees_only_fall [OF run wf o] m show ?thesis
    by (auto simp: ex_w_lower_def owned_by_def new_fee_schedule_def)
qed

end
