(* ===== verification/Inline_Match.thy ===== *)
theory Inline_Match
  imports Lifecycle_Properties
begin

text \<open>
  The match that a post attempts for its new intent, whose errors it swallows: what it attempts, which
  accounts it can change even when it fails half-way, and that it leaves a session alone.
\<close>

section \<open>The accounts a match can change\<close>

definition match_keys :: "match_ctx \<Rightarrow> pubkey set" where
  "match_keys ctx = {ai_key (mc_book_ai ctx), ai_key (mc_long_margin_ai ctx), ai_key (mc_short_margin_ai ctx), ai_key (mc_pmlc_ai ctx)} \<union>
     (case mc_fee_ctx ctx of None \<Rightarrow> {}
      | Some fc \<Rightarrow> {ai_key (fc_taker_volume_ai fc), ai_key (fc_maker_volume_ai fc), ai_key (fc_fee_treasury_ai fc)})"

lemma frame_set: "k \<in> ks \<Longrightarrow> only_changes e ks w0 w \<Longrightarrow> only_changes e ks w0 (set_data k d w)"
  by (rule only_changes_trans [OF _ only_changes_set])

lemma frame_writes:
  assumes "ai_key ai \<in> ks"
  shows "keeps S (only_changes e ks w0) (edit_acct ld mk ai m)" "keeps S (only_changes e ks w0) (init_acct len ai d)"
    "keeps S (only_changes e ks w0) (modify (set_data (ai_key ai) d))"
  using assms
  by (auto simp: keeps_def edit_acct_def zoom_def init_acct_def seq_def bnd_def asks_def modify_def
    intro: frame_set split: sum.splits prod.splits)

lemma frame_create:
  assumes "machine_laws e"
  shows "keeps S (only_changes e ks w0) (create_account e p new sys n own s)"
proof (rule keepsI)
  fix w r w' assume run: "create_account e p new sys n own s w = (r, w')" and c: "committed S r" and o: "only_changes e ks w0 w"
  then obtain u where "r = Inr u"
    using machine_lawsD(3) [OF assms] unfolding create_account_def failed_calls_abort_def by (cases r) auto
  with run o show "only_changes e ks w0 w'"
    unfolding create_account_def by (blast intro: only_changes_trans only_changes_invoke machine_lawsD(1) [OF assms])
qed

lemma traced_lift_bnd:
  assumes "\<And>a. r = Inr a \<Longrightarrow> keeps S I (f a)"
  shows "keeps S I (bnd (lift r) f)"
proof (rule keepsI)
  fix w x w' assume run: "bnd (lift r) f w = (x, w')" and c: "committed S x" and o: "I w"
  show "I w'"
  proof (cases r)
    case (Inl y)
    with run o show ?thesis by (simp add: bnd_def lift_def)
  next
    case (Inr a)
    with run have "f a w = (x, w')" by (simp add: bnd_def lift_def)
    from keepsD [OF assms [OF Inr] this c o] show ?thesis .
  qed
qed

lemma match_core_frame:
  assumes l: "machine_laws e" and k: "match_keys ctx \<subseteq> ks"
  shows "keeps True (only_changes e ks w0) (match_pair_core e ctx i j n)"
proof -
  let ?I = "only_changes e ks w0"
  have keys: "ai_key (mc_book_ai ctx) \<in> ks" "ai_key (mc_long_margin_ai ctx) \<in> ks" "ai_key (mc_short_margin_ai ctx) \<in> ks" "ai_key (mc_pmlc_ai ctx) \<in> ks"
    using k by (auto simp: match_keys_def)
  have ft: "keeps True ?I (ensure_fee_treasury e p ai m sys)" if "ai_key ai \<in> ks" for p ai m sys
    unfolding ensure_fee_treasury_def by (intro traced_intros frame_create [OF l] frame_writes that)
  have uv: "keeps True ?I (ensure_user_volume e p ai own m sys)" if "ai_key ai \<in> ks" for p ai own m sys
    unfolding ensure_user_volume_def by (intro traced_intros frame_create [OF l] frame_writes that)
  have ch: "keeps True ?I (charge_taker e ctx fc tk mk m c)"
    if "ai_key (fc_taker_volume_ai fc) \<in> ks" "ai_key (fc_maker_volume_ai fc) \<in> ks" "ai_key (fc_fee_treasury_ai fc) \<in> ks" for fc tk mk m c
    unfolding charge_taker_def by (intro traced_intros ft uv frame_writes that)
  have op: "keeps True ?I (open_pmlc e ctx inst r nid bump)" for inst r nid bump
    unfolding open_pmlc_def Let_def by (intro traced_intros frame_create [OF l] frame_writes keys)
  have f: "ai_key (fc_taker_volume_ai fc) \<in> ks" "ai_key (fc_maker_volume_ai fc) \<in> ks" "ai_key (fc_fee_treasury_ai fc) \<in> ks"
    if "ok_or_err (mc_fee_ctx ctx) x = Inr fc" for x fc
    using k that by (auto simp: match_keys_def ok_or_err_ok)
  have st: "keeps True ?I (settle_match e ctx inst r)" for inst r
    unfolding settle_match_def Let_def
    by (intro traced_seq traced_validate traced_lift_bnd traced_bnd ch f frame_writes keys | assumption)+
  show ?thesis unfolding match_pair_core_def by (intro traced_intros st op frame_writes keys)
qed

text \<open>An account the program owns whose type no match writes keeps its data: a session, for one.\<close>

definition holds_data :: "env \<Rightarrow> pubkey \<Rightarrow> acct_data \<Rightarrow> world \<Rightarrow> bool" where
  "holds_data e k d w \<longleftrightarrow> acc_owner (w k) = program_id e \<and> acc_data (w k) = d"

lemma session_edits:
  assumes "\<And>d r. ld d = Inr r \<Longrightarrow> d = mk r" "\<And>r. mk r \<noteq> DSession s"
  shows "keeps S (holds_data e k (DSession s)) (edit_acct ld mk ai m)"
proof (rule keepsI)
  fix w x w' assume run: "edit_acct ld mk ai m w = (x, w')" and o: "holds_data e k (DSession s) w"
  show "holds_data e k (DSession s) w'"
  proof (cases "ld (acc_data (w (ai_key ai)))")
    case (Inl y)
    with run o show ?thesis by (simp add: edit_acct_def zoom_def)
  next
    case (Inr r)
    with assms o have "k \<noteq> ai_key ai" by (metis holds_data_def)
    with Inr run o show ?thesis by (auto simp: edit_acct_def zoom_def holds_data_def split: prod.splits)
  qed
qed

lemma session_create:
  assumes "machine_laws e"
  shows "keeps S (holds_data e k (DSession s)) (create_account e p new sys n own sd)"
proof (rule keepsI)
  fix w r w' assume run: "create_account e p new sys n own sd w = (r, w')" and c: "committed S r" and o: "holds_data e k (DSession s) w"
  then obtain u where "r = Inr u"
    using machine_lawsD(3) [OF assms] unfolding create_account_def failed_calls_abort_def by (cases r) auto
  with run o owned_frameD [OF machine_lawsD(1) [OF assms]] show "holds_data e k (DSession s) w'"
    unfolding create_account_def holds_data_def by metis
qed

lemma session_init: "keeps S (holds_data e k (DSession s)) (init_acct len ai d)"
  by (rule keepsI) (auto simp: init_acct_def seq_def bnd_def asks_def modify_def blank_check_def cast_check_def holds_data_def ok_iff
    split: sum.splits)

lemma session_open:
  assumes l: "machine_laws e"
  shows "keeps S (holds_data e k (DSession s)) (open_pmlc e ctx inst r nid bump)"
proof (rule keepsI)
  fix w x w' assume run: "open_pmlc e ctx inst r nid bump w = (x, w')" and c: "committed S x" and o: "holds_data e k (DSession s) w"
  let ?p = "mc_pmlc_ai ctx"
  let ?rest = "bnd (lift (notional_atoms (collateral_bucket inst) (ic_leverage_bps inst))) (\<lambda>notional.
       bnd (lift (position_size_fp notional (mr_entry_fp r))) (\<lambda>sz.
       seq (check_world (\<lambda>w. PMLC_LEN \<le> acct_len ?p w) Panicked)
       (modify (set_data (ai_key ?p) (DPmlc (new_pmlc e (ai_key (mc_instrument_ai ctx)) inst r nid bump notional sz))))))"
  obtain y w1 where m: "create_account e (mc_payer ctx) ?p (mc_system_program ctx) PMLC_LEN (program_id e)
      (pmlc_seeds (ai_key (mc_instrument_ai ctx)) nid @ [[bump]]) w = (y, w1)" by fastforce
  show "holds_data e k (DSession s) w'"
  proof (cases y)
    case (Inl z)
    with run m have "x = Inl z" "w' = w1" by (simp_all add: open_pmlc_def Let_def seq_def bnd_def)
    with keepsD [OF session_create [OF l] m _ o] c Inl show ?thesis by simp
  next
    case (Inr u)
    with run m have rest: "?rest w1 = (x, w')" by (simp add: open_pmlc_def Let_def seq_def bnd_def)
    have h: "holds_data e k (DSession s) w1" using keepsD [OF session_create [OF l, of True] m _ o] Inr by simp
    moreover have "k \<noteq> ai_key ?p"
      using create_accountD(2) [OF machine_lawsD(2) [OF l] m [unfolded Inr]] h by (auto simp: holds_data_def)
    then have "keeps S (holds_data e k (DSession s)) ?rest"
      by (intro traced_intros) (auto simp: keeps_def modify_def holds_data_def)
    ultimately show ?thesis using keepsD rest c by blast
  qed
qed

lemma match_core_session:
  assumes l: "machine_laws e"
  shows "keeps True (holds_data e k (DSession s)) (match_pair_core e ctx i j n)"
proof -
  let ?I = "holds_data e k (DSession s)"
  have ed: "keeps True ?I (edit_acct load_book DBook ai m1)" "keeps True ?I (edit_acct load_margin DMargin ai m2)"
    "keeps True ?I (edit_acct load_user_volume DUserVolume ai m3)" "keeps True ?I (edit_acct load_treasury DTreasury ai m4)"
    for ai m1 m2 m3 m4
    by (rule session_edits; simp add: load_oks)+
  have ft: "keeps True ?I (ensure_fee_treasury e p ai m sys)" for p ai m sys
    unfolding ensure_fee_treasury_def by (intro traced_intros session_create [OF l] session_init)
  have uv: "keeps True ?I (ensure_user_volume e p ai own m sys)" for p ai own m sys
    unfolding ensure_user_volume_def by (intro traced_intros session_create [OF l] session_init)
  have ch: "keeps True ?I (charge_taker e ctx fc tk mk m c)" for fc tk mk m c
    unfolding charge_taker_def by (intro traced_intros ft uv ed)
  have st: "keeps True ?I (settle_match e ctx inst r)" for inst r
    unfolding settle_match_def Let_def by (intro traced_intros ch ed)
  show ?thesis
    unfolding match_pair_core_def by (intro traced_intros st ed session_open [OF l])
qed

section \<open>What a post attempts\<close>

definition inline_ctx ::
  "account_info \<Rightarrow> account_info \<Rightarrow> account_info \<Rightarrow> account_info \<Rightarrow> account_info list \<Rightarrow> u8 \<Rightarrow> match_ctx" where
  \<comment> \<open>the poster's margin account on his side, the counterparty's and five more accounts from the list\<close>
  "inline_ctx payer ia ba ma extra side =
     \<lparr> mc_payer = payer, mc_instrument_ai = ia, mc_book_ai = ba,
       mc_long_margin_ai = (if side = SIDE_LONG then ma else extra ! 0),
       mc_short_margin_ai = (if side = SIDE_LONG then extra ! 0 else ma),
       mc_pmlc_ai = extra ! 1, mc_system_program = extra ! 2,
       mc_fee_ctx = Some \<lparr> fc_fee_schedule_ai = extra ! 3, fc_taker_volume_ai = extra ! 4,
         fc_maker_volume_ai = extra ! 5, fc_fee_treasury_ai = extra ! 6 \<rparr> \<rparr>"

definition inline_outcome ::
  "env \<Rightarrow> account_info \<Rightarrow> account_info \<Rightarrow> account_info \<Rightarrow> account_info \<Rightarrow> account_info list \<Rightarrow> post_intent_args \<Rightarrow>
   u64 \<Rightarrow> world \<Rightarrow> world \<Rightarrow> bool" where
  \<comment> \<open>nothing without a request, the accounts for it, and an overlapping live intent \<open>cp\<close> of the other
    side; else one contract of the two is matched, and an error that can be caught is forgotten\<close>
  "inline_outcome e payer ia ba ma extra args nid w w' \<longleftrightarrow>
     (if pia_try_match args = 0 \<or> length extra < 7 then w' = w
      else \<exists>b found. acc_data (w (ai_key ba)) = DBook b \<and>
        find_overlap_on_side b (if pia_side args = SIDE_LONG then SIDE_SHORT else SIDE_LONG)
          (pia_price_fp args) (clock_slot e) nid = Inr found \<and>
        (case found of None \<Rightarrow> w' = w
         | Some cp \<Rightarrow> \<exists>r. match_pair_core e (inline_ctx payer ia ba ma extra (pia_side args))
             (if pia_side args = SIDE_LONG then nid else cp) (if pia_side args = SIDE_LONG then cp else nid) 1 w = (r, w') \<and>
             (\<forall>x. r = Inl x \<longrightarrow> \<not> is_fatal x)))"

lemma inline_match_outcome:
  assumes "inline_match e payer ia ba ma accounts off args nid w = (Inr (), w')"
  shows "inline_outcome e payer ia ba ma (drop off accounts) args nid w w'"
proof (cases "pia_try_match args = 0 \<or> length (drop off accounts) < 7")
  case True
  then have "\<not> (pia_try_match args \<noteq> 0 \<and> \<not> length accounts < off + 7)" by auto
  with assms have "w' = w" by (simp add: inline_match_def when_do_ok)
  with True show ?thesis by (simp add: inline_outcome_def)
next
  case False
  then have on: "pia_try_match args \<noteq> 0" "off + 7 \<le> length accounts" by auto
  then have nth: "accounts ! off = drop off accounts ! 0" "accounts ! (off + i) = drop off accounts ! i" for i by simp_all
  let ?x = "drop off accounts"
  from assms on obtain b found where b: "acc_data (w (ai_key ba)) = DBook b"
    "find_overlap_on_side b (if pia_side args = SIDE_LONG then SIDE_SHORT else SIDE_LONG) (pia_price_fp args) (clock_slot e) nid = Inr found"
    and m: "found = None \<longrightarrow> w' = w" "\<And>cp. found = Some cp \<Longrightarrow> swallow_errors (match_pair_core e (inline_ctx payer ia ba ma ?x (pia_side args))
      (if pia_side args = SIDE_LONG then nid else cp) (if pia_side args = SIDE_LONG then cp else nid) 1) w = (Inr (), w')"
    unfolding inline_match_def Let_def nth
    by (auto simp: when_do_def bnd_ok read_acct_ok load_oks lift_ok ret_ok inline_ctx_def split: option.splits if_splits)
  show ?thesis
  proof (cases found)
    case None
    with m b False show ?thesis by (auto simp: inline_outcome_def)
  next
    case (Some cp)
    from m(2) [OF Some] obtain r where "match_pair_core e (inline_ctx payer ia ba ma ?x (pia_side args))
      (if pia_side args = SIDE_LONG then nid else cp) (if pia_side args = SIDE_LONG then cp else nid) 1 w = (r, w')"
      "\<forall>x. r = Inl x \<longrightarrow> \<not> is_fatal x"
      by (auto simp: swallow_errors_def split: prod.splits sum.splits if_splits)
    with b False Some show ?thesis unfolding inline_outcome_def by auto
  qed
qed

text \<open>Whatever becomes of it, the attempt changes no account of the program but those it was given, and no session.\<close>

lemma inline_outcome_frame:
  assumes l: "machine_laws e" and o: "inline_outcome e payer ia ba ma extra args nid w w'"
  shows "only_changes e ({ai_key ba, ai_key ma} \<union> ai_key ` set (take 7 extra)) w w'"
    "holds_data e k (DSession s) w \<Longrightarrow> holds_data e k (DSession s) w'"
proof -
  let ?ks = "{ai_key ba, ai_key ma} \<union> ai_key ` set (take 7 extra)"
  let ?c = "inline_ctx payer ia ba ma extra (pia_side args)"
  from o consider "w' = w" | i j r where "\<not> length extra < 7" "match_pair_core e ?c i j 1 w = (r, w')" "\<forall>x. r = Inl x \<longrightarrow> \<not> is_fatal x"
    by (auto simp: inline_outcome_def split: if_splits option.splits)
  then have "only_changes e ?ks w w' \<and> (holds_data e k (DSession s) w \<longrightarrow> holds_data e k (DSession s) w')"
  proof cases
    case 1
    then show ?thesis by (simp add: only_changes_def)
  next
    case 2
    have nth: "ai_key (extra ! i) \<in> ai_key ` set (take 7 extra)" if "i < 7" for i
      using that 2(1) by (metis image_eqI in_set_conv_nth length_take min.absorb2 not_less nth_take)
    have "match_keys ?c \<subseteq> ?ks"
      using nth [of 0] nth [of 1] nth [of 4] nth [of 5] nth [of 6] by (auto simp: match_keys_def inline_ctx_def)
    moreover have "committed True r" using 2(3) by (cases r) simp_all
    ultimately show ?thesis
      using keepsD [OF match_core_frame [OF l] 2(2), of ?ks w] keepsD [OF match_core_session [OF l] 2(2)]
      by (simp add: only_changes_def)
  qed
  then show "only_changes e ?ks w w'" "holds_data e k (DSession s) w \<Longrightarrow> holds_data e k (DSession s) w'" by simp_all
qed

end
