(* ===== verification/Trading_Properties.thy ===== *)
theory Trading_Properties
  imports Inline_Match Oracle_Scenario Component_Properties State_Properties
begin

text \<open>
  What posting an intent requires and changes, by the trader and by the delegate of a session.
\<close>

section \<open>Posting\<close>


lemma reserve_margin_ok:
  "reserve_margin own mint b refund tot m = (Inr u, m') \<Longrightarrow>
     ma_owner m = own \<and> ma_mint m = mint \<and>
     unat (free_collateral m') + unat tot = unat (free_collateral m) + unat refund \<and>
     unat (reserved_collateral m') + unat refund = unat (reserved_collateral m) + unat tot \<and>
     locked_collateral m' = locked_collateral m"
  by (cases "refund = 0") (auto simp: reserve_margin_def guard_oks gets_ok when_do_ok move_oks word_gt_0)

lemma post_checks_run:
  assumes "post_checks e own cfg_ai ia ba ma args w = (Inr (inst, bump), w')"
  shows "w' = w" "acc_data (w (ai_key ia)) = DInstrument inst" "ic_status inst = STATUS_ACTIVE"
    "check_post_args e inst args = Inr ()"
    "find_program_address e (margin_seeds own (ic_mint inst)) = (ai_key ma, bump)"
    "acc_owner (w (ai_key ma)) = program_id e" "acc_owner (w (ai_key ba)) = program_id e"
  using assms by (auto simp: post_checks_def guard_oks load_oks require_active_ok)

lemma do_post_run:
  assumes run: "do_post_intent_inner e own payer cfg_ai ia ba ma sa as off args w = (Inr u, w')"
  obtains inst b c f t refund b1 b2 nid m m' w1 wp where
    "acc_data (w (ai_key ia)) = DInstrument inst" "ic_status inst = STATUS_ACTIVE"
    "check_post_args e inst args = Inr ()"
    "acc_data (w (ai_key ba)) = DBook b"
    "reservation (pia_contracts args) (collateral_bucket inst) (cached_max_fee_bps b) = Inr (c, f, t)"
    "charge_session sa t w = (Inr (), w1)"
    "prune_own own (clock_slot e) b = (Inr refund, b1)"
    "acc_data (w1 (ai_key ma)) = DMargin m" "ma_owner m = own" "ma_mint m = ic_mint inst"
    "unat (free_collateral m') + unat t = unat (free_collateral m) + unat refund"
    "unat (reserved_collateral m') + unat refund = unat (reserved_collateral m) + unat t"
    "locked_collateral m' = locked_collateral m"
    "place_intent own (pia_side args) (if pia_reentry_enabled args \<noteq> 0 then INTENT_FLAG_REENTRY else 0)
      (pia_price_fp args) (pia_contracts args) (pia_expiration_slot args) c f b1 = (Inr nid, b2)"
    "wp = set_data (ai_key ba) (DBook b2) (set_data (ai_key ma) (DMargin m') (set_data (ai_key ba) (DBook b1) w1))"
    "ai_key ma \<noteq> ai_key ba" "inline_outcome e payer ia ba ma (drop off as) args nid wp w'"
proof -
  from run obtain inst bump w0 where
    c: "post_checks e own cfg_ai ia ba ma args w = (Inr (inst, bump), w0)"
    unfolding do_post_intent_inner_def by (auto simp: bnd_ok)
  note pc = post_checks_run [OF c]
  from run c obtain b cc f t w1 refund w2 w3 nid wp where
    b: "acc_data (w (ai_key ba)) = DBook b"
    and rs: "reservation (pia_contracts args) (collateral_bucket inst) (cached_max_fee_bps b) = Inr (cc, f, t)"
    and ch: "charge_session sa t w = (Inr (), w1)"
    and pr: "edit_acct load_book DBook ba (prune_own own (clock_slot e)) w1 = (Inr refund, w2)"
    and mg: "edit_acct load_margin DMargin ma (reserve_margin own (ic_mint inst) bump refund t) w2 = (Inr (), w3)"
    and pl: "edit_acct load_book DBook ba (place_intent own (pia_side args)
        (if pia_reentry_enabled args \<noteq> 0 then INTENT_FLAG_REENTRY else 0)
        (pia_price_fp args) (pia_contracts args) (pia_expiration_slot args) cc f) w3 = (Inr nid, wp)"
    and im: "inline_match e payer ia ba ma as off args nid wp = (Inr (), w')"
    using pc(1) unfolding do_post_intent_inner_def
    by (auto simp: bnd_ok seq_ok lift_ok read_acct_ok load_oks)
  have sess: "acc_data (w1 k) = acc_data (w k)" if "acc_data (w k) = DBook b" for k
    using ch that by (auto simp: charge_session_def bnd_ok edit_acct_ok load_oks ret_ok split: option.splits)
  have b1: "acc_data (w1 (ai_key ba)) = DBook b" using sess [OF b] b by simp
  from pr b1 obtain b1' where p1: "prune_own own (clock_slot e) b = (Inr refund, b1')" "w2 = set_data (ai_key ba) (DBook b1') w1"
    by (auto simp: edit_acct_ok load_oks)
  from mg obtain m m' where m: "acc_data (w2 (ai_key ma)) = DMargin m"
    "reserve_margin own (ic_mint inst) bump refund t m = (Inr (), m')" "w3 = set_data (ai_key ma) (DMargin m') w2"
    by (auto simp: edit_acct_ok load_oks)
  have ne: "ai_key ma \<noteq> ai_key ba" using m(1) p1(2) by auto
  then have b3: "acc_data (w3 (ai_key ba)) = DBook b1'" using m(3) p1(2) by simp
  from pl b3 obtain b2 where p2: "place_intent own (pia_side args)
        (if pia_reentry_enabled args \<noteq> 0 then INTENT_FLAG_REENTRY else 0)
        (pia_price_fp args) (pia_contracts args) (pia_expiration_slot args) cc f b1' = (Inr nid, b2)"
      "wp = set_data (ai_key ba) (DBook b2) w3"
    by (auto simp: edit_acct_ok load_oks)
  have m1: "acc_data (w1 (ai_key ma)) = DMargin m" using m(1) p1(2) ne by simp
  note r = reserve_margin_ok [OF m(2)]
  show thesis
    by (rule that [OF pc(2-4) b rs ch p1(1) m1 _ _ _ _ _ p2(1) _ ne inline_match_outcome [OF im]])
      (use r p2(2) m(3) p1(2) in simp_all)
qed

text \<open>
  C22. Posting: a successful post was signed by the trader, on an active
  instrument, with a price strictly between 0 and 1 on the tick grid, at least one contract and a
  future expiration. In the ledger \<open>wp\<close> it leads to, exactly collateral and fee buffer of the new intent have
  moved from free to reserved, after releasing what the trader's own expired intents still held; the book
  is the old one pruned of those and with the new intent placed; no other account of the program has changed.
  Without the request for an inline match that is the end. With it, at most one contract of the new
  intent is matched, against an overlapping one of the other side (\<open>inline_outcome\<close>: the same code as the
  stand-alone match, whose errors are forgotten, with what it changed until then), and only the seven accounts
  given for it, the book and the trader's margin account can change. The laws used are those of calls
  into other programs.
\<close>

theorem post_reserves:
  assumes law: "machine_laws e" and run: "process_post_intent e accounts args w = (Inr u, w')"
  shows "\<exists>inst b c f t refund b1 b2 nid m m' wp.
    is_signer (accounts ! 0) \<and> acc_data (w (ai_key (accounts ! 2))) = DInstrument inst \<and>
    ic_status inst = STATUS_ACTIVE \<and> 0 < unat (pia_price_fp args) \<and> unat (pia_price_fp args) < 10 ^ 18 \<and>
    unat (tick_fp inst) dvd unat (pia_price_fp args) \<and> pia_contracts args \<noteq> 0 \<and>
    clock_slot e < pia_expiration_slot args \<and>
    acc_data (w (ai_key (accounts ! 3))) = DBook b \<and>
    reservation (pia_contracts args) (collateral_bucket inst) (cached_max_fee_bps b) = Inr (c, f, t) \<and>
    prune_own (ai_key (accounts ! 0)) (clock_slot e) b = (Inr refund, b1) \<and>
    margin_at w (ai_key (accounts ! 4)) = Some m \<and> ma_owner m = ai_key (accounts ! 0) \<and>
    margin_at wp (ai_key (accounts ! 4)) = Some m' \<and>
    unat (free_collateral m') + unat t = unat (free_collateral m) + unat refund \<and>
    unat (reserved_collateral m') + unat refund = unat (reserved_collateral m) + unat t \<and>
    locked_collateral m' = locked_collateral m \<and>
    place_intent (ai_key (accounts ! 0)) (pia_side args)
      (if pia_reentry_enabled args \<noteq> 0 then INTENT_FLAG_REENTRY else 0)
      (pia_price_fp args) (pia_contracts args) (pia_expiration_slot args) c f b1 = (Inr nid, b2) \<and>
    acc_data (wp (ai_key (accounts ! 3))) = DBook b2 \<and>
    only_changes e {ai_key (accounts ! 3), ai_key (accounts ! 4)} w wp \<and>
    (pia_try_match args = 0 \<longrightarrow> w' = wp) \<and>
    inline_outcome e (accounts ! 0) (accounts ! 2) (accounts ! 3) (accounts ! 4) (drop 5 accounts) args nid wp w' \<and>
    only_changes e ({ai_key (accounts ! 3), ai_key (accounts ! 4)} \<union> ai_key ` set (take 7 (drop 5 accounts))) w w'"
proof -
  from run have s: "is_signer (accounts ! 0)"
    and d: "do_post_intent_inner e (ai_key (accounts ! 0)) (accounts ! 0) (accounts ! 1) (accounts ! 2)
       (accounts ! 3) (accounts ! 4) None accounts 5 args w = (Inr u, w')"
    by (auto simp: process_post_intent_def Let_def guard_oks)
  from d obtain inst b c f t refund b1 b2 nid m m' w1 wp where
    i: "acc_data (w (ai_key (accounts ! 2))) = DInstrument inst" "ic_status inst = STATUS_ACTIVE"
    and a: "check_post_args e inst args = Inr ()"
    and b: "acc_data (w (ai_key (accounts ! 3))) = DBook b"
    and r: "reservation (pia_contracts args) (collateral_bucket inst) (cached_max_fee_bps b) = Inr (c, f, t)"
    and ch: "charge_session None t w = (Inr (), w1)"
    and pr: "prune_own (ai_key (accounts ! 0)) (clock_slot e) b = (Inr refund, b1)"
    and m: "acc_data (w1 (ai_key (accounts ! 4))) = DMargin m" "ma_owner m = ai_key (accounts ! 0)"
    and mv: "unat (free_collateral m') + unat t = unat (free_collateral m) + unat refund"
    "unat (reserved_collateral m') + unat refund = unat (reserved_collateral m) + unat t"
    "locked_collateral m' = locked_collateral m"
    and pl: "place_intent (ai_key (accounts ! 0)) (pia_side args) (if pia_reentry_enabled args \<noteq> 0 then INTENT_FLAG_REENTRY else 0)
      (pia_price_fp args) (pia_contracts args) (pia_expiration_slot args) c f b1 = (Inr nid, b2)"
    and wp: "wp = set_data (ai_key (accounts ! 3)) (DBook b2) (set_data (ai_key (accounts ! 4)) (DMargin m')
      (set_data (ai_key (accounts ! 3)) (DBook b1) w1))"
    and ne: "ai_key (accounts ! 4) \<noteq> ai_key (accounts ! 3)"
    and io: "inline_outcome e (accounts ! 0) (accounts ! 2) (accounts ! 3) (accounts ! 4) (drop 5 accounts) args nid wp w'"
    by (rule do_post_run)
  have w1: "w1 = w" using ch by (simp add: charge_session_def ret_ok)
  have p: "0 < unat (pia_price_fp args)" "unat (pia_price_fp args) < 10 ^ 18"
      "unat (tick_fp inst) dvd unat (pia_price_fp args)" "pia_contracts args \<noteq> 0" "clock_slot e < pia_expiration_slot args"
    using a by (auto simp: check_post_args_def try_res_ok validate_price_ticked_ok check_ok not_le split: if_splits)
  have oc: "only_changes e {ai_key (accounts ! 3), ai_key (accounts ! 4)} w wp"
    unfolding wp w1 by (intro only_changes_trans [OF only_changes_trans [OF only_changes_set only_changes_set] only_changes_set]) simp_all
  have "only_changes e ({ai_key (accounts ! 3), ai_key (accounts ! 4)} \<union> ai_key ` set (take 7 (drop 5 accounts))) w w'"
    by (rule only_changes_trans [OF only_changes_mono [OF oc] inline_outcome_frame(1) [OF law io]]) blast
  moreover have "pia_try_match args = 0 \<longrightarrow> w' = wp" using io by (simp add: inline_outcome_def)
  moreover have "margin_at w (ai_key (accounts ! 4)) = Some m" "margin_at wp (ai_key (accounts ! 4)) = Some m'"
    "acc_data (wp (ai_key (accounts ! 3))) = DBook b2"
    using m(1) w1 ne by (simp_all add: wp margin_at_def)
  ultimately show ?thesis
    using s p i b r pr m(2) mv pl oc io by blast
qed

definition ex_post_args :: post_intent_args where
  "ex_post_args = \<lparr> pia_side = SIDE_LONG, pia_price_fp = 500000000000000000, pia_contracts = 2,
     pia_expiration_slot = 500, pia_reentry_enabled = 0, pia_try_match = 0, pia_max_pairs = 0 \<rparr>"

definition ex_post_book :: book where "ex_post_book = new_intent_book (sk 20) 4 255 100"

definition ex_w_post :: world where
  "ex_w_post = ex_empty(sk 30 := owned_by (sk 9) (DConfig ex_config),
     sk 20 := owned_by (sk 9) (DInstrument (ex_instrument\<lparr> ic_book := sk 50 \<rparr>)),
     sk 50 := owned_by (sk 9) (DBook ex_post_book),
     ex_margin_key (sk 1) := owned_by (sk 9) (DMargin (ex_margin (sk 1) 5000 0 0)))"

definition ex_post_accounts :: "account_info list" where
  "ex_post_accounts = map ai_of [sk 1, sk 30, sk 20, sk 50, ex_margin_key (sk 1)]"

lemma ex_places:
  "\<exists>b. place_intent (sk 1) SIDE_LONG 0 500000000000000000 2 500 2000 20 ex_post_book = (Inr 1, b)"
  by (simp add: place_intent_def seat_find_or_create_def seat_find_def seat_fuel_def alloc_node_def write_seat_def write_intent_def
    stree_insert_def itree_insert_def rb_link_def seat_ops_def rb_insert_fixup_def rb_red_parent_def count_new_intent_def
    next_intent_id_def next_seq_def stree_parent_def stree_color_def stree_set_color_def
    tree_eval prog_defs ex_post_book_def new_intent_book_def Let_def checked_add_def word_le_nat_alt)

lemma ex_post_reservation: "reservation 2 1000 100 = Inr (2000, 20, 2020)"
  unfolding reservation_iff by (simp add: Let_def)

lemma ex_prune: "prune_own (sk 1) 100 ex_post_book = (Inr 0, ex_post_book)"
  by (simp add: prune_own_def seat_find_def seat_fuel_def ex_post_book_def new_intent_book_def prog_defs)

lemma ex_post_fields:
  "pia_side ex_post_args = SIDE_LONG" "pia_price_fp ex_post_args = 500000000000000000" "pia_contracts ex_post_args = 2"
  "pia_expiration_slot ex_post_args = 500" "pia_reentry_enabled ex_post_args = 0" "pia_try_match ex_post_args = 0"
  "cached_max_fee_bps ex_post_book = 100" "ic_mint ex_instrument = sk 7" "ic_status ex_instrument = 0"
  "collateral_bucket ex_instrument = 1000"
  by (simp_all add: ex_post_args_def ex_post_book_def new_intent_book_def ex_instrument_def)

lemma ex_post_runs: "fst (process_post_intent ex_env ex_post_accounts ex_post_args ex_w_post) = Inr ()"
proof -
  obtain b where b: "place_intent (sk 1) SIDE_LONG 0 500000000000000000 2 500 2000 20 ex_post_book = (Inr 1, b)"
    using ex_places by blast
  have c: "check_post_args ex_env (ex_instrument\<lparr> ic_book := sk 50 \<rparr>) ex_post_args = Inr ()"
    by (simp add: check_post_args_def ex_post_args_def validate_price_ticked_ok try_res_ok ex_instrument_def check_def SIDE_LONG_def SIDE_SHORT_def)
  show ?thesis
    by (simp add: process_post_intent_def do_post_intent_inner_def post_checks_def exec_defs load_defs ex_post_accounts_def
      ai_of_def ex_w_post_def owned_by_def ex_config_def new_program_config_def c require_active_def STATUS_ACTIVE_def ex_post_fields ex_post_reservation
      charge_session_def ex_prune reserve_margin_def is_margin_of_def ex_margin_def new_margin_account_def b
      move_free_to_reserved_def debit_free_def credit_reserved_def update_checked_def checked_add_def checked_sub_def
      inline_match_def)
qed

lemma post_reserves_witness:
  "\<exists>m'. margin_at (snd (process_post_intent ex_env ex_post_accounts ex_post_args ex_w_post)) (ex_margin_key (sk 1)) = Some m' \<and>
     unat (free_collateral m') = 2980 \<and> unat (reserved_collateral m') = 2020"
proof -
  let ?r = "process_post_intent ex_env ex_post_accounts ex_post_args ex_w_post"
  have r: "?r = (Inr (), snd ?r)" using ex_post_runs by (metis prod.collapse)
  have a: "ai_key (ex_post_accounts ! 0) = sk 1" "ai_key (ex_post_accounts ! 2) = sk 20" "ai_key (ex_post_accounts ! 3) = sk 50"
    "ai_key (ex_post_accounts ! 4) = ex_margin_key (sk 1)"
    by (simp_all add: ex_post_accounts_def ai_of_def)
  have d: "acc_data (ex_w_post (sk 50)) = DBook ex_post_book"
    "acc_data (ex_w_post (sk 20)) = DInstrument (ex_instrument\<lparr> ic_book := sk 50 \<rparr>)"
    "margin_at ex_w_post (ex_margin_key (sk 1)) = Some (ex_margin (sk 1) 5000 0 0)"
    by (simp_all add: ex_w_post_def owned_by_def margin_at_def)
  from post_reserves [OF account_lawsD(1) [OF ex_account_laws] r] ex_post_fields(6) ex_post_reservation ex_prune d show ?thesis
    by (auto simp: a ex_post_fields ex_margin_def)
qed

section \<open>Posting through a session\<close>












end
