(* ===== verification/Rb_Shape.thy ===== *)
theory Rb_Shape
  imports Rb_Tree "HOL-Library.Tree"
begin

text \<open>
  Red-black trees as the loops of \<open>intent_tree.rs\<close> and \<open>seat_tree.rs\<close> shape them, without the
  pool: trees of slot indices with their colours, a subtree under repair with the path above it
  (a zipper), what the insertion loop makes of them, and the colour and height invariants. The
  bound on the height is what the traversal's fixed stack needs.
\<close>

section \<open>Trees of slots\<close>

datatype color = Red | Black

primrec color_code :: "color \<Rightarrow> u8" where
  "color_code Red = RB_RED"
| "color_code Black = RB_BLACK"

lemma RB_codes [simp]: "RB_RED \<noteq> RB_BLACK" "RB_BLACK \<noteq> RB_RED"
  by (simp_all add: RB_RED_def RB_BLACK_def)

lemma color_code_eq [simp]:
  "color_code c = RB_RED \<longleftrightarrow> c = Red" "color_code c = RB_BLACK \<longleftrightarrow> c = Black"
  by (cases c; simp)+

type_synonym slot_tree = "(u32 \<times> color) tree"

definition ids :: "slot_tree \<Rightarrow> u32 list" where
  "ids t = map fst (inorder t)"

lemma ids_simps [simp]: "ids Leaf = []" "ids (Node l n r) = ids l @ fst n # ids r"
  by (simp_all add: ids_def)

fun root_id :: "slot_tree \<Rightarrow> u32" where
  "root_id Leaf = NULL_IDX"
| "root_id (Node l n r) = fst n"

fun color_of :: "slot_tree \<Rightarrow> color" where
  "color_of Leaf = Black"
| "color_of (Node l n r) = snd n"

fun paint :: "color \<Rightarrow> slot_tree \<Rightarrow> slot_tree" where
  "paint c Leaf = Leaf"
| "paint c (Node l n r) = Node l (fst n, c) r"

lemma paint_simps [simp]: "ids (paint c t) = ids t" "root_id (paint c t) = root_id t"
  "color_of (paint Black t) = Black" "paint c (paint d t) = paint c t" "size (paint c t) = size t"
  by (cases t; simp)+

section \<open>The path above a subtree\<close>

text \<open>A step of the path: whether the subtree is the left child, the node above, the other child.\<close>

type_synonym frame = "bool \<times> (u32 \<times> color) \<times> slot_tree"

fun fill :: "frame \<Rightarrow> slot_tree \<Rightarrow> slot_tree" where
  "fill (True, n, s) t = Node t n s"
| "fill (False, n, s) t = Node s n t"

primrec plug :: "frame list \<Rightarrow> slot_tree \<Rightarrow> slot_tree" where
  "plug [] t = t"
| "plug (f # C) t = plug C (fill f t)"

fun parent_id :: "frame list \<Rightarrow> u32" where
  "parent_id [] = NULL_IDX"
| "parent_id ((d, n, s) # C) = fst n"

fun fore :: "frame list \<Rightarrow> u32 list" where
  "fore [] = []"
| "fore ((d, n, s) # C) = fore C @ (if d then [] else ids s @ [fst n])"

fun aft :: "frame list \<Rightarrow> u32 list" where
  "aft [] = []"
| "aft ((d, n, s) # C) = (if d then fst n # ids s else []) @ aft C"

lemma ids_fill: "ids (fill (d, n, s) t) = (if d then [] else ids s @ [fst n]) @ ids t @ (if d then fst n # ids s else [])"
  by (cases d) simp_all

lemma ids_plug: "ids (plug C t) = fore C @ ids t @ aft C"
proof (induction C arbitrary: t)
  case (Cons f C)
  then show ?case by (cases f) (simp add: ids_fill)
qed simp

lemma fill_frame [simp]: "fill (d, n, s) t \<noteq> Leaf" "size (fill (d, n, s) t) = size t + Suc (size s)"
  "color_of (fill (d, n, s) t) = snd n" "root_id (fill (d, n, s) t) = fst n" "paint c (fill (d, n, s) t) = fill (d, (fst n, c), s) t"
  by (cases d; simp)+

lemma fill_not_Leaf [simp]: "fill f t \<noteq> Leaf"
  by (cases f) simp

lemma plug_Leaf_iff [simp]: "plug C t = Leaf \<longleftrightarrow> C = [] \<and> t = Leaf"
proof (induction C arbitrary: t)
  case (Cons f C)
  then show ?case by (cases f) simp
qed simp

lemma length_path: "length C + size t \<le> size (plug C t)"
proof (induction C arbitrary: t)
  case (Cons f C)
  from Cons.IH [of "fill f t"] show ?case by (cases f) simp
qed simp

lemma plug_append: "plug (C @ D) t = plug D (plug C t)"
  by (induction C arbitrary: t) simp_all

section \<open>Red-black invariants\<close>

fun bheight :: "slot_tree \<Rightarrow> nat" where
  "bheight Leaf = 0"
| "bheight (Node l n r) = bheight l + (if snd n = Black then 1 else 0)"

fun invc :: "slot_tree \<Rightarrow> bool" where
  "invc Leaf = True"
| "invc (Node l n r) = ((snd n = Red \<longrightarrow> color_of l = Black \<and> color_of r = Black) \<and> invc l \<and> invc r)"

fun invh :: "slot_tree \<Rightarrow> bool" where
  "invh Leaf = True"
| "invh (Node l n r) = (bheight l = bheight r \<and> invh l \<and> invh r)"

definition rbt :: "slot_tree \<Rightarrow> bool" where
  "rbt t \<longleftrightarrow> invc t \<and> invh t \<and> color_of t = Black"

lemma rbt_Leaf [simp]: "rbt Leaf" by (simp add: rbt_def)

text \<open>What the path needs of the subtree: its black height, and black below a red node.\<close>

fun bh_frame :: "frame \<Rightarrow> nat \<Rightarrow> bool" where
  "bh_frame (d, n, s) h \<longleftrightarrow> invh s \<and> bheight s = h"

fun path_invh :: "frame list \<Rightarrow> nat \<Rightarrow> bool" where
  "path_invh [] h = True"
| "path_invh ((d, n, s) # C) h = (invh s \<and> bheight s = h \<and> path_invh C (h + (if snd n = Black then 1 else 0)))"

fun path_invc :: "frame list \<Rightarrow> color \<Rightarrow> bool" where
  "path_invc [] c = True"
| "path_invc ((d, n, s) # C) c = (invc s \<and> (snd n = Red \<longrightarrow> c = Black \<and> color_of s = Black) \<and> path_invc C (snd n))"

lemma bheight_fill: "bheight s = bheight t \<Longrightarrow> bheight (fill (d, n, s) t) = bheight t + (if snd n = Black then 1 else 0)"
  by (cases d) simp_all

lemma invh_fill: "invh (fill (d, n, s) t) \<longleftrightarrow> invh s \<and> bheight s = bheight t \<and> invh t"
  by (cases d) auto

lemma invc_fill: "invc (fill (d, n, s) t) \<longleftrightarrow> invc s \<and> (snd n = Red \<longrightarrow> color_of t = Black \<and> color_of s = Black) \<and> invc t"
  by (cases d) auto

lemma invh_plug: "invh (plug C t) \<longleftrightarrow> path_invh C (bheight t) \<and> invh t"
proof (induction C arbitrary: t)
  case (Cons f C)
  obtain d n s where f: "f = (d, n, s)" by (cases f)
  show ?case by (auto simp: f Cons.IH invh_fill bheight_fill)
qed simp

lemma invc_plug: "invc (plug C t) \<longleftrightarrow> path_invc C (color_of t) \<and> invc t"
proof (induction C arbitrary: t)
  case (Cons f C)
  obtain d n s where f: "f = (d, n, s)" by (cases f)
  show ?case by (auto simp: f Cons.IH invc_fill)
qed simp

lemma path_invc_black: "path_invc C c \<Longrightarrow> path_invc C Black"
  by (cases C) auto

text \<open>The colour of the whole tree's root, when the path is not empty.\<close>

fun path_root :: "frame list \<Rightarrow> color \<Rightarrow> color" where
  "path_root [] c = c"
| "path_root ((d, n, s) # C) c = path_root C (snd n)"

lemma color_of_plug: "color_of (plug C t) = path_root C (color_of t)"
proof (induction C arbitrary: t)
  case (Cons f C)
  then show ?case by (cases f) simp
qed simp

subsection \<open>The height of a red-black tree\<close>

lemma bheight_size: "invh t \<Longrightarrow> 2 ^ bheight t \<le> size1 t"
proof (induction t)
  case (Node l n r)
  then have "2 ^ bheight l \<le> size1 l" "2 ^ bheight l \<le> size1 r" by auto
  then show ?case by auto
qed simp

lemma height_bheight: "invc t \<Longrightarrow> invh t \<Longrightarrow> height t \<le> 2 * bheight t + (if color_of t = Red then 1 else 0)"
proof (induction t)
  case (Node l n r)
  then show ?case by (cases "snd n") (auto split: if_splits)
qed simp

theorem rbt_height:
  assumes t: "rbt t" and d: "distinct (ids t)" and n: "NULL_IDX \<notin> set (ids t)"
  shows "height t \<le> 64"
proof -
  have "set (ids t) \<subseteq> UNIV - {NULL_IDX}" using n by auto
  then have "card (set (ids t)) \<le> card (UNIV - {NULL_IDX :: u32})" by (intro card_mono) simp_all
  then have "size t \<le> 2 ^ 32 - 1"
    using distinct_card [OF d] by (simp add: card_word ids_def)
  then have "size1 t \<le> 2 ^ 32" by (simp add: size1_size)
  moreover have "2 ^ bheight t \<le> size1 t" using t by (intro bheight_size) (simp add: rbt_def)
  ultimately have "(2::nat) ^ bheight t \<le> 2 ^ 32" by linarith
  then have "bheight t \<le> 32" by (rule power_le_imp_le_exp [rotated]) simp
  then show ?thesis using height_bheight [of t] t by (simp add: rbt_def)
qed

section \<open>Repair after an insertion\<close>

text \<open>
  The subtree \<open>t\<close> has a red root. Below a red parent, a red uncle moves the conflict two levels
  up; a black uncle ends it by one or two rotations.
\<close>

fun ins_rotate :: "bool \<Rightarrow> bool \<Rightarrow> slot_tree \<Rightarrow> u32 \<Rightarrow> slot_tree \<Rightarrow> u32 \<Rightarrow> slot_tree \<Rightarrow> slot_tree" where
  "ins_rotate True True t p s g u = Node t (p, Black) (Node s (g, Red) u)"
| "ins_rotate False False t p s g u = Node (Node u (g, Red) s) (p, Black) t"
| "ins_rotate False True (Node a z b) p s g u = Node (Node s (p, Red) a) (fst z, Black) (Node b (g, Red) u)"
| "ins_rotate True False (Node a z b) p s g u = Node (Node u (g, Red) a) (fst z, Black) (Node b (p, Red) s)"
| "ins_rotate d e Leaf p s g u = Leaf"

fun ins_fix :: "frame list \<Rightarrow> slot_tree \<Rightarrow> slot_tree" where
  "ins_fix ((d, (p, Red), s) # (e, (g, gc), u) # C) t =
     (if color_of u = Red then ins_fix C (fill (e, (g, Red), paint Black u) (fill (d, (p, Black), s) t))
      else plug C (ins_rotate d e t p s g u))"
| "ins_fix C t = plug C t"

lemma ids_ins_rotate: "t \<noteq> Leaf \<Longrightarrow> ids (ins_rotate d e t p s g u) = ids (fill (e, (g, c), u) (fill (d, (p, c'), s) t))"
  by (cases t; cases d; cases e) simp_all

lemma ids_ins_fix: "t \<noteq> Leaf \<Longrightarrow> ids (ins_fix C t) = ids (plug C t)"
proof (induction C t rule: ins_fix.induct)
  case (1 d p s e g gc u C t)
  show ?case
  proof (cases "color_of u = Red")
    case True
    with 1 show ?thesis by (simp add: ids_plug ids_fill)
  next
    case False
    with 1 show ?thesis
      using ids_ins_rotate [of t d e p s g u gc Red] by (simp add: ids_plug)
  qed
qed simp_all

lemma bheight_paint_black: "color_of u = Red \<Longrightarrow> bheight (paint Black u) = Suc (bheight u)"
  by (cases u) auto

lemma inv_paint_black [simp]: "invc t \<Longrightarrow> invc (paint Black t)" "invh t \<Longrightarrow> invh (paint c t)"
  by (cases t; simp)+

lemma ins_rotate_inv:
  assumes "color_of t = Red" "invc t" "invh t" "invc s" "invh s" "invc u" "invh u" "color_of u = Black" "color_of s = Black"
    "bheight s = bheight t" "bheight u = bheight t"
  shows "invc (ins_rotate d e t p s g u)" "invh (ins_rotate d e t p s g u)"
    "bheight (ins_rotate d e t p s g u) = Suc (bheight t)" "color_of (ins_rotate d e t p s g u) = Black"
  using assms by (cases t; cases d; cases e; auto)+

lemma ins_fix_inv:
  assumes "color_of t = Red" "invc t" "invh t" "path_invh C (bheight t)" "path_invc C Black" "path_root C Black = Black"
  shows "invc (paint Black (ins_fix C t)) \<and> invh (ins_fix C t)"
  using assms
proof (induction C t rule: ins_fix.induct [case_names step top black root])
  case (step d p s e g gc u C t)
  then have gc: "gc = Black" by (cases gc) auto
  show ?case
  proof (cases "color_of u = Red")
    case True
    have "path_invc C Black" using step.prems by (auto dest: path_invc_black)
    moreover have "path_root C Black = Black" using step.prems gc by simp
    ultimately show ?thesis
      using step True gc by (simp add: invc_fill invh_fill bheight_fill bheight_paint_black)
  next
    case False
    then have u: "color_of u = Black" by (cases "color_of u") auto
    have r: "invc (ins_rotate d e t p s g u)" "invh (ins_rotate d e t p s g u)"
      "bheight (ins_rotate d e t p s g u) = Suc (bheight t)" "color_of (ins_rotate d e t p s g u) = Black"
      using step u by (auto intro!: ins_rotate_inv)
    have "invc (plug C (ins_rotate d e t p s g u))" "invh (plug C (ins_rotate d e t p s g u))"
      using step r gc by (auto simp: invc_plug invh_plug)
    then show ?thesis using False by simp
  qed
next
  case (top t)
  then show ?case by simp
next
  case (black d p s C t)
  then have "invc (plug C (fill (d, (p, Black), s) t))" "invh (plug C (fill (d, (p, Black), s) t))"
    by (simp_all add: invc_plug invh_plug invc_fill invh_fill bheight_fill)
  then show ?case by simp
next
  case (root f t)
  obtain d p c s where f: "f = (d, (p, c), s)" by (cases f) auto
  have "c = Black" using root f by simp
  then have "invc (plug [f] t)" "invh (plug [f] t)"
    using root by (simp_all add: f invc_fill invh_fill)
  then show ?case by simp
qed

end
