(* ===== verification/Rb_Store.thy ===== *)
theory Rb_Store
  imports Rb_Shape
begin

text \<open>
  Trees in the pool. \<open>links\<close> is what the tree algorithms see of a book: the root and, for each
  slot, left, right, parent and colour; \<open>link_ops\<close> are the accessors over it. \<open>at v C t\<close> says that
  the links \<open>v\<close> hold the subtree \<open>t\<close> below the path \<open>C\<close>. The lemmas give every accessor and both
  rotations as equations on such trees. The locale \<open>rb_store\<close> is the contract under which a
  program over the links carries over to the state of the code.
\<close>

record links =
  lk_root :: u32
  lk_left :: "u32 \<Rightarrow> u32"
  lk_right :: "u32 \<Rightarrow> u32"
  lk_parent :: "u32 \<Rightarrow> u32"
  lk_color :: "u32 \<Rightarrow> u8"
  lk_nodes :: "u32 set"

section \<open>The accessors\<close>

definition put_root :: "u32 \<Rightarrow> links \<Rightarrow> links" where "put_root i v = v\<lparr> lk_root := i \<rparr>"
definition put_left :: "u32 \<Rightarrow> u32 \<Rightarrow> links \<Rightarrow> links" where "put_left a i v = v\<lparr> lk_left := (lk_left v)(a := i) \<rparr>"
definition put_right :: "u32 \<Rightarrow> u32 \<Rightarrow> links \<Rightarrow> links" where "put_right a i v = v\<lparr> lk_right := (lk_right v)(a := i) \<rparr>"
definition put_parent :: "u32 \<Rightarrow> u32 \<Rightarrow> links \<Rightarrow> links" where "put_parent a i v = v\<lparr> lk_parent := (lk_parent v)(a := i) \<rparr>"
definition put_color :: "u32 \<Rightarrow> u8 \<Rightarrow> links \<Rightarrow> links" where "put_color a c v = v\<lparr> lk_color := (lk_color v)(a := c) \<rparr>"

lemmas put_defs = put_root_def put_left_def put_right_def put_parent_def put_color_def

lemma put_fields [simp]:
  "lk_root (put_root i v) = i" "lk_root (put_left a i v) = lk_root v" "lk_root (put_right a i v) = lk_root v"
  "lk_root (put_parent a i v) = lk_root v" "lk_root (put_color a c v) = lk_root v"
  "lk_left (put_root i v) = lk_left v" "lk_left (put_left a i v) = (lk_left v)(a := i)" "lk_left (put_right a i v) = lk_left v"
  "lk_left (put_parent a i v) = lk_left v" "lk_left (put_color a c v) = lk_left v"
  "lk_right (put_root i v) = lk_right v" "lk_right (put_left a i v) = lk_right v" "lk_right (put_right a i v) = (lk_right v)(a := i)"
  "lk_right (put_parent a i v) = lk_right v" "lk_right (put_color a c v) = lk_right v"
  "lk_parent (put_root i v) = lk_parent v" "lk_parent (put_left a i v) = lk_parent v" "lk_parent (put_right a i v) = lk_parent v"
  "lk_parent (put_parent a i v) = (lk_parent v)(a := i)" "lk_parent (put_color a c v) = lk_parent v"
  "lk_color (put_root i v) = lk_color v" "lk_color (put_left a i v) = lk_color v" "lk_color (put_right a i v) = lk_color v"
  "lk_color (put_parent a i v) = lk_color v" "lk_color (put_color a c v) = (lk_color v)(a := c)"
  "lk_nodes (put_root i v) = lk_nodes v" "lk_nodes (put_left a i v) = lk_nodes v" "lk_nodes (put_right a i v) = lk_nodes v"
  "lk_nodes (put_parent a i v) = lk_nodes v" "lk_nodes (put_color a c v) = lk_nodes v"
  by (simp_all add: put_defs)

definition link_get :: "(links \<Rightarrow> u32 \<Rightarrow> 'a) \<Rightarrow> 'a \<Rightarrow> u32 \<Rightarrow> (links, 'a) prog" where
  "link_get f d i = asks (\<lambda>v. if i = NULL_IDX then Inr d else if i \<in> lk_nodes v then Inr (f v i) else Inl InvalidAccountData)"

definition link_put :: "(links \<Rightarrow> links) \<Rightarrow> u32 \<Rightarrow> (links, unit) prog" where
  "link_put f i = (if i = NULL_IDX then ret () else
     bnd (gets lk_nodes) (\<lambda>N. seq (require (i \<in> N) InvalidAccountData) (modify f)))"

definition link_ops :: "bool \<Rightarrow> links rb_ops" where
  "link_ops k = \<lparr> op_root = gets lk_root, op_set_root = (\<lambda>i. modify (put_root i)),
     op_left = link_get lk_left NULL_IDX, op_right = link_get lk_right NULL_IDX,
     op_parent = link_get lk_parent NULL_IDX, op_color = link_get lk_color RB_BLACK,
     op_set_left = (\<lambda>a i. link_put (put_left a i) a), op_set_right = (\<lambda>a i. link_put (put_right a i) a),
     op_set_parent = (\<lambda>a i. link_put (put_parent a i) a), op_set_color = (\<lambda>a c. link_put (put_color a c) a),
     op_checked = k \<rparr>"

lemma link_runs [simp]:
  "op_root (link_ops k) v = (Inr (lk_root v), v)"
  "op_set_root (link_ops k) i v = (Inr (), put_root i v)"
  "op_left (link_ops k) NULL_IDX v = (Inr NULL_IDX, v)" "op_right (link_ops k) NULL_IDX v = (Inr NULL_IDX, v)"
  "op_parent (link_ops k) NULL_IDX v = (Inr NULL_IDX, v)" "op_color (link_ops k) NULL_IDX v = (Inr RB_BLACK, v)"
  "op_checked (link_ops k) = k"
  by (simp_all add: link_ops_def link_get_def run_defs)

lemma link_node_runs [simp]:
  assumes "a \<noteq> NULL_IDX" "a \<in> lk_nodes v"
  shows "op_left (link_ops k) a v = (Inr (lk_left v a), v)" "op_right (link_ops k) a v = (Inr (lk_right v a), v)"
    "op_parent (link_ops k) a v = (Inr (lk_parent v a), v)" "op_color (link_ops k) a v = (Inr (lk_color v a), v)"
    "op_set_left (link_ops k) a i v = (Inr (), put_left a i v)" "op_set_right (link_ops k) a i v = (Inr (), put_right a i v)"
    "op_set_parent (link_ops k) a i v = (Inr (), put_parent a i v)" "op_set_color (link_ops k) a c v = (Inr (), put_color a c v)"
  using assms by (simp_all add: link_ops_def link_get_def link_put_def run_defs)

section \<open>Trees in the links\<close>

fun holds_node :: "links \<Rightarrow> u32 \<times> color \<Rightarrow> bool" where
  "holds_node v (a, c) \<longleftrightarrow> a \<noteq> NULL_IDX \<and> a \<in> lk_nodes v \<and> lk_color v a = color_code c"

definition hangs :: "links \<Rightarrow> slot_tree \<Rightarrow> u32 \<Rightarrow> bool" where
  \<comment> \<open>the parent link of the root of a subtree\<close>
  "hangs v t p \<longleftrightarrow> t = Leaf \<or> lk_parent v (root_id t) = p"

fun heap :: "links \<Rightarrow> slot_tree \<Rightarrow> bool" where
  "heap v Leaf = True"
| "heap v (Node l n r) = (holds_node v n \<and> lk_left v (fst n) = root_id l \<and> lk_right v (fst n) = root_id r \<and>
     hangs v l (fst n) \<and> hangs v r (fst n) \<and> heap v l \<and> heap v r)"

fun path :: "links \<Rightarrow> frame list \<Rightarrow> u32 \<Rightarrow> bool" where
  "path v [] i = (lk_root v = i)"
| "path v ((d, n, s) # C) i = (holds_node v n \<and> lk_parent v (fst n) = parent_id C \<and>
     lk_left v (fst n) = (if d then i else root_id s) \<and> lk_right v (fst n) = (if d then root_id s else i) \<and>
     hangs v s (fst n) \<and> heap v s \<and> path v C (fst n))"

definition at :: "links \<Rightarrow> frame list \<Rightarrow> slot_tree \<Rightarrow> bool" where
  "at v C t \<longleftrightarrow> heap v t \<and> hangs v t (parent_id C) \<and> path v C (root_id t) \<and> distinct (fore C @ ids t @ aft C)"

lemma hangs_simps [simp]: "hangs v Leaf p" "hangs v (Node l n r) p \<longleftrightarrow> lk_parent v (fst n) = p"
  by (simp_all add: hangs_def)

lemma root_in_ids: "t \<noteq> Leaf \<Longrightarrow> root_id t \<in> set (ids t)"
  by (cases t) auto

lemma heap_ids: "heap v t \<Longrightarrow> a \<in> set (ids t) \<Longrightarrow> a \<noteq> NULL_IDX \<and> a \<in> lk_nodes v"
  by (induction t) auto

lemma heap_root_NULL: "heap v t \<Longrightarrow> root_id t = NULL_IDX \<longleftrightarrow> t = Leaf"
  by (cases t) auto

lemma path_ids: "path v C i \<Longrightarrow> a \<in> set (fore C) \<union> set (aft C) \<Longrightarrow> a \<noteq> NULL_IDX \<and> a \<in> lk_nodes v"
proof (induction C arbitrary: i)
  case (Cons f C)
  then show ?case by (cases f) (auto dest: heap_ids split: if_splits)
qed simp

lemma parent_NULL: "path v C i \<Longrightarrow> parent_id C = NULL_IDX \<longleftrightarrow> C = []"
  by (cases C) auto

lemma parent_in_path: "C \<noteq> [] \<Longrightarrow> parent_id C \<in> set (fore C) \<union> set (aft C)"
  by (cases C) (auto split: if_splits)

text \<open>Moving the focus.\<close>

lemma at_fill: "at v (f # C) t = at v C (fill f t)"
proof -
  obtain d n s where f: "f = (d, n, s)" by (cases f)
  show ?thesis by (cases d) (auto simp: f at_def)
qed

lemma at_plug: "at v (C @ D) t = at v D (plug C t)"
  by (induction C arbitrary: t) (simp_all add: at_fill)

lemma at_whole: "at v C t = at v [] (plug C t)"
  using at_plug [of v C "[]"] by simp

section \<open>Frames\<close>

text \<open>\<open>off D v w\<close>: outside \<open>D\<close> the links \<open>w\<close> are those of \<open>v\<close>.\<close>

definition off :: "u32 set \<Rightarrow> links \<Rightarrow> links \<Rightarrow> bool" where
  "off D v w \<longleftrightarrow> lk_nodes w = lk_nodes v \<and> (\<forall>a. a \<notin> D \<longrightarrow> lk_left w a = lk_left v a \<and> lk_right w a = lk_right v a \<and>
     lk_parent w a = lk_parent v a \<and> lk_color w a = lk_color v a)"

lemma off_refl [simp]: "off D v v" by (simp add: off_def)

lemma off_trans: "off D v w \<Longrightarrow> off D w x \<Longrightarrow> off D v x" by (simp add: off_def)

lemma off_mono: "off D v w \<Longrightarrow> D \<subseteq> E \<Longrightarrow> off E v w" by (auto simp: off_def)

lemma off_put:
  "off D v w \<Longrightarrow> off D v (put_root i w)"
  "off D v w \<Longrightarrow> a \<in> D \<Longrightarrow> off D v (put_left a i w)" "off D v w \<Longrightarrow> a \<in> D \<Longrightarrow> off D v (put_right a i w)"
  "off D v w \<Longrightarrow> a \<in> D \<Longrightarrow> off D v (put_parent a i w)" "off D v w \<Longrightarrow> a \<in> D \<Longrightarrow> off D v (put_color a c w)"
  by (auto simp: off_def)

lemma holds_node_off: "off D v w \<Longrightarrow> fst n \<notin> D \<Longrightarrow> holds_node w n = holds_node v n"
  by (cases n) (simp add: off_def)

lemma hangs_off: "off D v w \<Longrightarrow> set (ids t) \<inter> D = {} \<Longrightarrow> hangs w t p = hangs v t p"
  by (cases t) (auto simp: hangs_def off_def)

lemma heap_off: "off D v w \<Longrightarrow> set (ids t) \<inter> D = {} \<Longrightarrow> heap w t = heap v t"
proof (induction t)
  case (Node l n r)
  moreover from Node.prems have "set (ids l) \<inter> D = {}" "set (ids r) \<inter> D = {}" "fst n \<notin> D" by auto
  ultimately show ?case by (simp add: holds_node_off hangs_off) (simp add: off_def)
qed simp

lemma path_off:
  "off D v w \<Longrightarrow> lk_root w = lk_root v \<Longrightarrow> (set (fore C) \<union> set (aft C)) \<inter> D = {} \<Longrightarrow> path w C i = path v C i"
proof (induction C arbitrary: i)
  case (Cons f C)
  obtain d n s where f: "f = (d, n, s)" by (cases f)
  have ds: "set (ids s) \<inter> D = {}" "fst n \<notin> D" "(set (fore C) \<union> set (aft C)) \<inter> D = {}"
    using Cons.prems(3) by (auto simp: f split: if_splits)
  then show ?case
    using Cons.prems(1,2) Cons.IH [OF Cons.prems(1,2) ds(3)]
    by (simp add: f holds_node_off hangs_off heap_off) (simp add: off_def)
qed simp


text \<open>The single updates, as rewriting rules.\<close>

lemma off_single:
  "off {} v (put_root i v)" "off {a} v (put_left a i v)" "off {a} v (put_right a i v)"
  "off {a} v (put_parent a i v)" "off {a} v (put_color a c v)"
  by (simp_all add: off_put)

lemma heap_put [simp]:
  "heap (put_root i v) t = heap v t"
  "a \<notin> set (ids t) \<Longrightarrow> heap (put_left a i v) t = heap v t"
  "a \<notin> set (ids t) \<Longrightarrow> heap (put_right a i v) t = heap v t"
  "a \<notin> set (ids t) \<Longrightarrow> heap (put_parent a i v) t = heap v t"
  "a \<notin> set (ids t) \<Longrightarrow> heap (put_color a c v) t = heap v t"
  by (auto simp del: put_fields intro!: heap_off [OF off_single(1)] heap_off [OF off_single(2)] heap_off [OF off_single(3)]
      heap_off [OF off_single(4)] heap_off [OF off_single(5)])

lemma hangs_put [simp]:
  "hangs (put_root i v) t p = hangs v t p" "hangs (put_left a i v) t p = hangs v t p"
  "hangs (put_right a i v) t p = hangs v t p" "hangs (put_color a c v) t p = hangs v t p"
  "a \<notin> set (ids t) \<Longrightarrow> hangs (put_parent a i v) t p = hangs v t p"
  using root_in_ids [of t] by (auto simp: hangs_def)

lemma holds_node_put [simp]:
  "holds_node (put_root i v) n = holds_node v n" "holds_node (put_left a i v) n = holds_node v n"
  "holds_node (put_right a i v) n = holds_node v n" "holds_node (put_parent a i v) n = holds_node v n"
  "a \<noteq> fst n \<Longrightarrow> holds_node (put_color a c v) n = holds_node v n"
  by (cases n; simp)+

lemma path_put [simp]:
  "a \<notin> set (fore C) \<Longrightarrow> a \<notin> set (aft C) \<Longrightarrow> path (put_left a j v) C i = path v C i"
  "a \<notin> set (fore C) \<Longrightarrow> a \<notin> set (aft C) \<Longrightarrow> path (put_right a j v) C i = path v C i"
  "a \<notin> set (fore C) \<Longrightarrow> a \<notin> set (aft C) \<Longrightarrow> path (put_parent a j v) C i = path v C i"
  "a \<notin> set (fore C) \<Longrightarrow> a \<notin> set (aft C) \<Longrightarrow> path (put_color a c v) C i = path v C i"
  by (intro path_off [OF off_single(2)] path_off [OF off_single(3)] path_off [OF off_single(4)]
      path_off [OF off_single(5)]; simp)+

text \<open>Hanging a subtree elsewhere, and a node below the path.\<close>

definition reparent :: "u32 \<Rightarrow> u32 \<Rightarrow> links \<Rightarrow> links" where
  "reparent a p v = (if a = NULL_IDX then v else put_parent a p v)"

definition relink :: "u32 \<Rightarrow> u32 \<Rightarrow> u32 \<Rightarrow> links \<Rightarrow> links" where
  "relink p i j v = (if p = NULL_IDX then put_root j v
     else if lk_left v p = i then put_left p j v else put_right p j v)"

lemma reparent_fields [simp]:
  "lk_root (reparent a p v) = lk_root v" "lk_left (reparent a p v) = lk_left v" "lk_right (reparent a p v) = lk_right v"
  "lk_color (reparent a p v) = lk_color v" "lk_nodes (reparent a p v) = lk_nodes v"
  "b \<noteq> a \<Longrightarrow> lk_parent (reparent a p v) b = lk_parent v b" "holds_node (reparent a p v) n = holds_node v n"
  by (simp_all add: reparent_def)

lemma relink_fields [simp]:
  "lk_parent (relink p i j v) = lk_parent v" "lk_color (relink p i j v) = lk_color v" "lk_nodes (relink p i j v) = lk_nodes v"
  "b \<noteq> p \<Longrightarrow> lk_left (relink p i j v) b = lk_left v b" "b \<noteq> p \<Longrightarrow> lk_right (relink p i j v) b = lk_right v b"
  "holds_node (relink p i j v) n = holds_node v n" "hangs (relink p i j v) t q = hangs v t q"
  by (simp_all add: relink_def)

lemma heap_relink [simp]: "p \<notin> set (ids t) \<Longrightarrow> heap (relink p i j v) t = heap v t"
  by (simp add: relink_def)

lemma heap_reparent [simp]: "a \<notin> set (ids t) \<Longrightarrow> heap (reparent a p v) t = heap v t"
  by (simp add: reparent_def)

lemma hangs_reparent [simp]: "a \<notin> set (ids t) \<Longrightarrow> hangs (reparent a p v) t q = hangs v t q"
  by (simp add: reparent_def)

lemma path_reparent [simp]: "a \<notin> set (fore C) \<Longrightarrow> a \<notin> set (aft C) \<Longrightarrow> path (reparent a p v) C i = path v C i"
  by (simp add: reparent_def)

lemma heap_reparent_root [simp]:
  assumes "heap v t" "distinct (ids t)"
  shows "heap (reparent (root_id t) p v) t" "hangs (reparent (root_id t) p v) t p"
  using assms by (cases t; auto simp: reparent_def)+

lemma path_relink:
  assumes "path v C i" "i \<noteq> NULL_IDX" "i \<notin> set (fore C)" "i \<notin> set (aft C)" "distinct (fore C @ aft C)"
  shows "path (relink (parent_id C) i j v) C j"
proof (cases C)
  case (Cons f D)
  obtain d a c s where f: "f = (d, (a, c), s)" by (cases f) auto
  have "root_id s = NULL_IDX \<or> root_id s \<in> set (ids s)" by (cases s) auto
  then have "root_id s \<noteq> i" using assms(2-4) f Cons by (auto split: if_splits)
  then show ?thesis using assms by (cases d) (auto simp: Cons f relink_def)
qed (use assms in \<open>simp add: relink_def\<close>)

lemma path_side:
  assumes "path v C i" "i \<noteq> NULL_IDX" "i \<notin> set (fore C)" "i \<notin> set (aft C)" "parent_id C \<noteq> NULL_IDX"
  shows "lk_right v (parent_id C) = i \<longleftrightarrow> lk_left v (parent_id C) \<noteq> i"
proof (cases C)
  case (Cons f D)
  obtain d a c s where f: "f = (d, (a, c), s)" by (cases f) auto
  have "root_id s = NULL_IDX \<or> root_id s \<in> set (ids s)" by (cases s) auto
  then have "root_id s \<noteq> i" using assms(2-4) f Cons by (auto split: if_splits)
  then show ?thesis using assms(1) by (cases d) (auto simp: Cons f)
qed (use assms in simp)

lemma off_relink: "off D v w \<Longrightarrow> p = NULL_IDX \<or> p \<in> D \<Longrightarrow> off D v (relink p i j w)"
  by (auto simp: relink_def off_put)

lemma off_reparent: "off D v w \<Longrightarrow> a = NULL_IDX \<or> a \<in> D \<Longrightarrow> off D v (reparent a p w)"
  by (auto simp: reparent_def off_put)


section \<open>Running on a tree\<close>

text \<open>
  \<open>in_tree w D v C t\<close>: the links \<open>v\<close> hold \<open>t\<close> below \<open>C\<close>, all of whose slots are in \<open>D\<close>, and are those
  of \<open>w\<close> outside \<open>D\<close>.
\<close>

definition in_tree :: "links \<Rightarrow> u32 set \<Rightarrow> links \<Rightarrow> frame list \<Rightarrow> slot_tree \<Rightarrow> bool" where
  "in_tree w D v C t \<longleftrightarrow> at v C t \<and> off D w v \<and> set (ids (plug C t)) \<subseteq> D"

lemma in_tree_fill: "in_tree w D v (f # C) t = in_tree w D v C (fill f t)"
  by (simp add: in_tree_def at_fill)

lemma in_tree_whole: "in_tree w D v C t = in_tree w D v [] (plug C t)"
  using at_whole [of v C t] by (simp add: in_tree_def)

lemma in_tree_subset: "in_tree w D v C t \<Longrightarrow> set (ids t) \<subseteq> D \<and> set (fore C) \<subseteq> D \<and> set (aft C) \<subseteq> D"
  by (simp add: in_tree_def ids_plug)

lemma in_tree_parent: "in_tree w D v C t \<Longrightarrow> parent_id C = NULL_IDX \<or> parent_id C \<in> D"
  using parent_in_path [of C] in_tree_subset [of w D v C t] by (cases "C = []") auto

lemma in_tree_node:
  assumes "in_tree w D v C (Node l n r)"
  shows "fst n \<noteq> NULL_IDX" "fst n \<in> lk_nodes v" "fst n \<in> D" "lk_left v (fst n) = root_id l" "lk_right v (fst n) = root_id r"
    "lk_parent v (fst n) = parent_id C" "lk_color v (fst n) = color_code (snd n)"
  using assms in_tree_subset [OF assms] by (cases n; auto simp: in_tree_def at_def)+

lemma in_tree_color:
  assumes "in_tree w D v C t"
  shows "op_color (link_ops k) (root_id t) v = (Inr (color_code (color_of t)), v)"
  using assms in_tree_node [of w D v C] by (cases t) simp_all

lemma in_tree_root: "in_tree w D v C t \<Longrightarrow> lk_root v = root_id (plug C t)"
  using at_whole [of v C t] by (simp add: in_tree_def at_def)

lemma set_color_run:
  assumes "in_tree w D v C (Node l n r)"
  shows "\<exists>v'. op_set_color (link_ops k) (fst n) (color_code c) v = (Inr (), v') \<and> in_tree w D v' C (Node l (fst n, c) r)"
  using in_tree_node [OF assms] assms
  by (cases n) (auto simp: in_tree_def at_def off_put ids_plug)

lemma parent_fresh:
  assumes "at v C t" shows "parent_id C \<notin> set (ids t)"
proof (cases "C = []")
  case True
  then show ?thesis using assms heap_ids by (auto simp: at_def)
next
  case False
  then show ?thesis using assms parent_in_path [of C] by (auto simp: at_def)
qed

lemma rotate_left_run:
  assumes "in_tree w D v C (Node A x (Node B y E))"
  shows "\<exists>v'. rb_rotate_left (link_ops k) (fst x) v = (Inr (), v') \<and> in_tree w D v' C (Node (Node A x B) y E)"
proof -
  let ?x = "fst x" and ?y = "fst y" and ?p = "parent_id C"
  let ?v1 = "put_parent ?y ?p (reparent (root_id B) ?x (put_right ?x (root_id B) v))"
  let ?v' = "put_parent ?x ?y (put_left ?y ?x (relink ?p ?x ?y ?v1))"
  have at: "at v C (Node A x (Node B y E))" and D: "off D w v" "set (ids (plug C (Node A x (Node B y E)))) \<subseteq> D"
    using assms by (auto simp: in_tree_def)
  note n = in_tree_node [OF assms]
  have ny: "?y \<noteq> NULL_IDX" "?y \<in> lk_nodes v" "lk_left v ?y = root_id B"
    using at by (cases y; auto simp: at_def)+
  have B: "root_id B \<noteq> NULL_IDX \<Longrightarrow> root_id B \<in> lk_nodes v \<and> root_id B \<in> set (ids B)"
    using at root_in_ids [of B] heap_ids [of v B] by (cases B) (auto simp: at_def)
  have P: "?p \<noteq> NULL_IDX \<Longrightarrow> ?p \<in> lk_nodes v \<and> ?p \<in> set (fore C) \<union> set (aft C)"
    using at parent_in_path [of C] path_ids [of v C ?x] by (cases "C = []") (auto simp: at_def)
  have d: "distinct (fore C @ ids A @ ?x # ids B @ ?y # ids E @ aft C)" using at by (simp add: at_def)
  then have dist: "?x \<noteq> ?y" "?p \<noteq> ?x" "?p \<noteq> ?y" "root_id B \<noteq> ?x" "root_id B \<noteq> ?y"
    using P B n(1) ny(1) by auto
  have "set (ids B) \<inter> (set (fore C) \<union> set (aft C)) = {}" using d by auto
  then have pB: "?p \<noteq> root_id B \<or> ?p = NULL_IDX" using P B by (metis IntI empty_iff)
  have run: "rb_rotate_left (link_ops k) ?x v = (Inr (), ?v')"
    using n ny dist pB B P by (auto simp: rb_rotate_left_def run_defs reparent_def relink_def)
  have pf: "?p \<notin> set (ids A)" "?p \<notin> set (ids B)" "?p \<notin> set (ids E)" using parent_fresh [OF at] by auto
  have rb: "root_id B \<notin> set (ids A)" "root_id B \<notin> set (ids E)" "root_id B \<notin> set (fore C)" "root_id B \<notin> set (aft C)"
    using d B at heap_ids [of v A] heap_ids [of v E] path_ids [of v C ?x] by (cases "root_id B = NULL_IDX"; auto simp: at_def)+
  have "path ?v1 C ?x" using at d rb by (auto simp: at_def)
  then have "path (relink ?p ?x ?y ?v1) C ?y" using d n(1) by (intro path_relink) auto
  then have "at ?v' C (Node (Node A x B) y E)"
    using at d dist pB rb pf n ny by (auto simp: at_def)
  moreover have "off D w ?v'"
    using D in_tree_parent [OF assms] B by (intro off_put off_relink off_reparent) (auto simp: ids_plug)
  ultimately show ?thesis using run D by (auto simp: in_tree_def ids_plug)
qed

lemma rotate_right_run:
  assumes "in_tree w D v C (Node (Node A x B) y E)"
  shows "\<exists>v'. rb_rotate_right (link_ops k) (fst y) v = (Inr (), v') \<and> in_tree w D v' C (Node A x (Node B y E))"
proof -
  let ?x = "fst x" and ?y = "fst y" and ?p = "parent_id C"
  let ?v1 = "put_parent ?x ?p (reparent (root_id B) ?y (put_left ?y (root_id B) v))"
  let ?v' = "put_parent ?y ?x (put_right ?x ?y (relink ?p ?y ?x ?v1))"
  have at: "at v C (Node (Node A x B) y E)" and D: "off D w v" "set (ids (plug C (Node (Node A x B) y E))) \<subseteq> D"
    using assms by (auto simp: in_tree_def)
  note n = in_tree_node [OF assms]
  have nx: "?x \<noteq> NULL_IDX" "?x \<in> lk_nodes v" "lk_right v ?x = root_id B"
    using at by (cases x; auto simp: at_def)+
  have B: "root_id B \<noteq> NULL_IDX \<Longrightarrow> root_id B \<in> lk_nodes v \<and> root_id B \<in> set (ids B)"
    using at root_in_ids [of B] heap_ids [of v B] by (cases B) (auto simp: at_def)
  have P: "?p \<noteq> NULL_IDX \<Longrightarrow> ?p \<in> lk_nodes v \<and> ?p \<in> set (fore C) \<union> set (aft C)"
    using at parent_in_path [of C] path_ids [of v C ?y] by (cases "C = []") (auto simp: at_def)
  have d: "distinct (fore C @ ids A @ ?x # ids B @ ?y # ids E @ aft C)" using at by (simp add: at_def)
  then have dist: "?x \<noteq> ?y" "?p \<noteq> ?x" "?p \<noteq> ?y" "root_id B \<noteq> ?x" "root_id B \<noteq> ?y"
    using P B n(1) nx(1) by auto
  have "set (ids B) \<inter> (set (fore C) \<union> set (aft C)) = {}" using d by auto
  then have pB: "?p \<noteq> root_id B \<or> ?p = NULL_IDX" using P B by (metis IntI empty_iff)
  have side: "?p \<noteq> NULL_IDX \<Longrightarrow> lk_right v ?p = ?y \<longleftrightarrow> lk_left v ?p \<noteq> ?y"
    using path_side [of v C ?y] at n(1) d by (simp add: at_def)
  have run: "rb_rotate_right (link_ops k) ?y v = (Inr (), ?v')"
    using n nx dist pB B P side by (auto simp: rb_rotate_right_def run_defs reparent_def relink_def)
  have pf: "?p \<notin> set (ids A)" "?p \<notin> set (ids B)" "?p \<notin> set (ids E)" using parent_fresh [OF at] by auto
  have rb: "root_id B \<notin> set (ids A)" "root_id B \<notin> set (ids E)" "root_id B \<notin> set (fore C)" "root_id B \<notin> set (aft C)"
    using d B at heap_ids [of v A] heap_ids [of v E] path_ids [of v C ?y] by (cases "root_id B = NULL_IDX"; auto simp: at_def)+
  have "path ?v1 C ?y" using at d rb by (auto simp: at_def)
  then have "path (relink ?p ?y ?x ?v1) C ?x" using d n(1) by (intro path_relink) auto
  then have "at ?v' C (Node A x (Node B y E))"
    using at d dist pB rb pf n nx by (auto simp: at_def)
  moreover have "off D w ?v'"
    using D in_tree_parent [OF assms] B by (intro off_put off_relink off_reparent) (auto simp: ids_plug)
  ultimately show ?thesis using run D by (auto simp: in_tree_def ids_plug)
qed

end
