(* ===== verification/Rb_Insert.thy ===== *)
theory Rb_Insert
  imports Rb_Store
begin

text \<open>
  The insertion of \<open>Rb_Tree\<close> over the links: one pass of the repair loop, the loop, the descent,
  and the whole: the new node stands where its key belongs, and the tree stays red-black.
\<close>

section \<open>What a path says of its links\<close>

lemma fill_flip: "fill (d, n, s) t = fill (\<not> d, n, t) s"
  by (cases d) simp_all

lemma in_tree_flip: "in_tree w D v ((d, n, s) # C) t = in_tree w D v ((\<not> d, n, t) # C) s"
  unfolding in_tree_fill by (subst fill_flip) simp

lemma in_tree_frame:
  assumes "in_tree w D v ((d, n, s) # C) t"
  shows "fst n \<noteq> NULL_IDX" "fst n \<in> lk_nodes v" "lk_parent v (fst n) = parent_id C" "lk_color v (fst n) = color_code (snd n)"
    "lk_left v (fst n) = (if d then root_id t else root_id s)" "lk_right v (fst n) = (if d then root_id s else root_id t)"
  using assms by (cases n; auto simp: in_tree_def at_def)+

lemma in_tree_siblings:
  assumes "in_tree w D v ((d, n, s) # C) t" "t \<noteq> Leaf"
  shows "root_id s \<noteq> root_id t"
proof -
  have "heap v t" "distinct (ids s @ ids t)" "heap v s" using assms(1) by (cases d; auto simp: in_tree_def at_def)+
  then show ?thesis using assms(2) root_in_ids [of t] root_in_ids [of s] heap_root_NULL [of v t]
    by (cases "s = Leaf") auto
qed

lemma paint_run:
  assumes "in_tree w D v C t" "t \<noteq> Leaf"
  shows "\<exists>v'. op_set_color (link_ops k) (root_id t) (color_code c) v = (Inr (), v') \<and> in_tree w D v' C (paint c t)"
  using assms set_color_run by (cases t) auto

lemmas blacken_run = paint_run [where c = Black, simplified]
lemmas redden_run = paint_run [where c = Red, simplified]

lemma red_parent_run:
  assumes "in_tree w D v C t" "t \<noteq> Leaf"
  shows "rb_red_parent (link_ops k) (root_id t) v = (Inr (case C of [] \<Rightarrow> False | (d, n, s) # C' \<Rightarrow> snd n = Red), v)"
proof -
  have t: "op_parent (link_ops k) (root_id t) v = (Inr (parent_id C), v)"
    using assms in_tree_node [of w D v C] by (cases t) simp_all
  show ?thesis
  proof (cases C)
    case (Cons f C')
    obtain d n s where f: "f = (d, n, s)" by (cases f)
    show ?thesis using t in_tree_frame [of w D v d n s C' t] assms(1) by (simp add: rb_red_parent_def run_defs Cons f)
  qed (use t in \<open>simp add: rb_red_parent_def run_defs\<close>)
qed

section \<open>One pass of the repair\<close>

lemma insert_step_recolor:
  assumes i: "in_tree w D v ((d, (p, Red), s) # (e, (g, gc), u) # C) t" "t \<noteq> Leaf" "color_of u = Red"
  shows "\<exists>v'. rb_insert_step (link_ops k) (root_id t) v = (Inr g, v') \<and>
    in_tree w D v' C (fill (e, (g, Red), paint Black u) (fill (d, (p, Black), s) t))"
proof -
  let ?F = "fill (d, (p, Red), s) t"
  have i2: "in_tree w D v ((e, (g, gc), u) # C) ?F" using i(1) by (simp add: in_tree_fill)
  note f1 = in_tree_frame [OF i(1)] and f2 = in_tree_frame [OF i2]
  have t: "op_parent (link_ops k) (root_id t) v = (Inr p, v)"
    using i(1,2) in_tree_node [of w D v] by (cases t) force+
  have u: "u \<noteq> Leaf" using i(3) by auto
  have iu: "in_tree w D v ((\<not> e, (g, gc), ?F) # C) u" using i2 by (subst (asm) in_tree_flip)
  have un: "root_id u \<noteq> NULL_IDX" "op_color (link_ops k) (root_id u) v = (Inr RB_RED, v)"
    using iu u i(3) in_tree_node [of w D v] in_tree_color [OF iu, of k] by (cases u; force)+
  have pu: "root_id u \<noteq> p" using in_tree_siblings [OF i2] by simp
  obtain v1 where v1: "op_set_color (link_ops k) p RB_BLACK v = (Inr (), v1)"
    "in_tree w D v1 ((e, (g, gc), u) # C) (fill (d, (p, Black), s) t)"
    using blacken_run [OF i2, of k] by auto
  then have "in_tree w D v1 ((\<not> e, (g, gc), fill (d, (p, Black), s) t) # C) u" by (subst (asm) in_tree_flip)
  from blacken_run [OF this u, of k] obtain v2 where v2: "op_set_color (link_ops k) (root_id u) RB_BLACK v1 = (Inr (), v2)"
    "in_tree w D v2 ((\<not> e, (g, gc), fill (d, (p, Black), s) t) # C) (paint Black u)" by auto
  then have "in_tree w D v2 C (fill (e, (g, gc), paint Black u) (fill (d, (p, Black), s) t))"
    using in_tree_flip [of w D v2 e] by (simp add: in_tree_fill)
  from redden_run [OF this, of k] obtain v3 where v3: "op_set_color (link_ops k) g RB_RED v2 = (Inr (), v3)"
    "in_tree w D v3 C (fill (e, (g, Red), paint Black u) (fill (d, (p, Black), s) t))" by auto
  have "rb_insert_step (link_ops k) (root_id t) v = (Inr g, v3)"
    using f1 f2 t un pu v1(1) v2(1) v3(1)
    by (cases e) (auto simp: rb_insert_step_def rb_fix_recolor_def bnd_def seq_def ret_def)
  with v3(2) show ?thesis by blast
qed


lemma insert_finish_run:
  assumes i: "in_tree w D v ((e, (p, pc), s) # (e, (g, gc), u) # C) t" "t \<noteq> Leaf"
  shows "\<exists>v1 v2 v'. op_parent (link_ops k) (root_id t) v = (Inr p, v) \<and> op_parent (link_ops k) p v = (Inr g, v) \<and>
    op_set_color (link_ops k) p RB_BLACK v = (Inr (), v1) \<and> op_set_color (link_ops k) g RB_RED v1 = (Inr (), v2) \<and>
    (if e then rb_rotate_right else rb_rotate_left) (link_ops k) g v2 = (Inr (), v') \<and>
    in_tree w D v' ((e, (p, Black), fill (e, (g, Red), u) s) # C) t"
proof -
  have i2: "in_tree w D v ((e, (g, gc), u) # C) (fill (e, (p, pc), s) t)" using i(1) by (simp add: in_tree_fill)
  note f1 = in_tree_frame [OF i(1)]
  have t: "op_parent (link_ops k) (root_id t) v = (Inr p, v)" "op_parent (link_ops k) p v = (Inr g, v)"
    using i(1,2) in_tree_node [of w D v] f1 by (cases t; force)+
  obtain v1 where v1: "op_set_color (link_ops k) p RB_BLACK v = (Inr (), v1)"
    "in_tree w D v1 ((e, (g, gc), u) # C) (fill (e, (p, Black), s) t)"
    using blacken_run [OF i2, of k] by auto
  then have "in_tree w D v1 C (fill (e, (g, gc), u) (fill (e, (p, Black), s) t))" by (simp add: in_tree_fill)
  from redden_run [OF this, of k] obtain v2 where v2: "op_set_color (link_ops k) g RB_RED v1 = (Inr (), v2)"
    "in_tree w D v2 C (fill (e, (g, Red), u) (fill (e, (p, Black), s) t))" by auto
  have "\<exists>v'. (if e then rb_rotate_right else rb_rotate_left) (link_ops k) g v2 = (Inr (), v') \<and>
    in_tree w D v' ((e, (p, Black), fill (e, (g, Red), u) s) # C) t"
    using v2(2) rotate_right_run [of w D v2 C t "(p, Black)" s "(g, Red)" u k] rotate_left_run [of w D v2 C u "(g, Red)" s "(p, Black)" t k]
    by (cases e) (auto simp: in_tree_fill)
  with t v1(1) v2(1) show ?thesis by blast
qed

lemma insert_step_rotate:
  assumes i: "in_tree w D v ((d, (p, Red), s) # (e, (g, gc), u) # C) t" "t \<noteq> Leaf" "color_of u \<noteq> Red"
  shows "\<exists>v' z. rb_insert_step (link_ops k) (root_id t) v = (Inr z, v') \<and>
    in_tree w D v' C (ins_rotate d e t p s g u) \<and> rb_red_parent (link_ops k) z v' = (Inr False, v')"
proof -
  let ?F = "fill (d, (p, Red), s) t"
  have i2: "in_tree w D v ((e, (g, gc), u) # C) ?F" using i(1) by (simp add: in_tree_fill)
  note f1 = in_tree_frame [OF i(1)] and f2 = in_tree_frame [OF i2]
  have t: "op_parent (link_ops k) (root_id t) v = (Inr p, v)"
    using i(1,2) in_tree_node [of w D v] by (cases t) force+
  have iu: "in_tree w D v ((\<not> e, (g, gc), ?F) # C) u" using i2 by (subst (asm) in_tree_flip)
  obtain uc where un: "op_color (link_ops k) (root_id u) v = (Inr uc, v)" "uc \<noteq> RB_RED"
    using i(3) in_tree_color [OF iu, of k] by simp
  have pu: "root_id u \<noteq> p" using in_tree_siblings [OF i2] by simp
  have zs: "root_id s \<noteq> root_id t" using in_tree_siblings [OF i(1,2)] .
  obtain a z zc b where z: "t = Node a (z, zc) b" using i(2) by (cases t) auto
  show ?thesis
  proof (cases "d = e")
    case True
    with insert_finish_run [of w D v e p Red s g gc u C t k] i(1,2) obtain v1 v2 v' where
      r: "op_parent (link_ops k) (root_id t) v = (Inr p, v)" "op_parent (link_ops k) p v = (Inr g, v)"
      "op_set_color (link_ops k) p RB_BLACK v = (Inr (), v1)" "op_set_color (link_ops k) g RB_RED v1 = (Inr (), v2)"
      "(if e then rb_rotate_right else rb_rotate_left) (link_ops k) g v2 = (Inr (), v')"
      and i': "in_tree w D v' ((e, (p, Black), fill (e, (g, Red), u) s) # C) t" by blast
    have "rb_insert_step (link_ops k) (root_id t) v = (Inr (root_id t), v')"
      using f1 f2 un pu zs r True by (cases e) (auto simp: rb_insert_step_def bnd_def seq_def ret_def)
    moreover have "in_tree w D v' C (ins_rotate d e t p s g u)" using i' True by (cases e) (simp_all add: in_tree_fill)
    ultimately show ?thesis using red_parent_run [OF i' i(2), of k] by auto
  next
    case False
    then have de: "d = (\<not> e)" by auto
    define tp b' where "tp = fill (\<not> e, (p, Red), s) (if e then a else b)" and "b' = (if e then b else a)"
    obtain v0 where v0: "(if e then rb_rotate_left else rb_rotate_right) (link_ops k) p v = (Inr (), v0)"
      "in_tree w D v0 ((e, (z, zc), b') # (e, (g, gc), u) # C) tp"
      using i2 rotate_left_run [of w D v "(e, (g, gc), u) # C" s "(p, Red)" a "(z, zc)" b k]
        rotate_right_run [of w D v "(e, (g, gc), u) # C" a "(z, zc)" b "(p, Red)" s k]
      by (cases e) (auto simp: in_tree_fill de z tp_def b'_def)
    have tp: "tp \<noteq> Leaf" "root_id tp = p" by (simp_all add: tp_def)
    from insert_finish_run [OF v0(2) tp(1), of k] obtain v1 v2 v' where
      r: "op_parent (link_ops k) p v0 = (Inr z, v0)" "op_parent (link_ops k) z v0 = (Inr g, v0)"
      "op_set_color (link_ops k) z RB_BLACK v0 = (Inr (), v1)" "op_set_color (link_ops k) g RB_RED v1 = (Inr (), v2)"
      "(if e then rb_rotate_right else rb_rotate_left) (link_ops k) g v2 = (Inr (), v')"
      and i': "in_tree w D v' ((e, (z, Black), fill (e, (g, Red), u) b') # C) tp"
      by (auto simp: tp)
    have "rb_insert_step (link_ops k) (root_id t) v = (Inr p, v')"
      using f1 f2 t un pu zs v0(1) r by (cases e) (auto simp: rb_insert_step_def bnd_def seq_def ret_def de z)
    moreover have "in_tree w D v' C (ins_rotate d e t p s g u)"
      using i' by (cases e) (simp_all add: in_tree_fill de z tp_def b'_def)
    ultimately show ?thesis using red_parent_run [OF i' tp(1), of k] tp(2) by auto
  qed
qed

section \<open>The repair loop\<close>

lemma insert_loop_stop:
  "rb_red_parent (link_ops k) z v = (Inr False, v) \<Longrightarrow> rb_insert_loop (link_ops k) (Suc n) z v = (Inr (), v)"
  by (simp add: bnd_def ret_def)

lemma insert_loop_run:
  assumes "in_tree w D v C t" "t \<noteq> Leaf" "path_root C Black = Black" "length C < fuel"
  shows "\<exists>v'. rb_insert_loop (link_ops k) fuel (root_id t) v = (Inr (), v') \<and> in_tree w D v' [] (ins_fix C t)"
  using assms
proof (induction C t arbitrary: v fuel rule: ins_fix.induct [case_names step top black root])
  case (step d p s e g gc u C t)
  obtain n where n: "fuel = Suc (Suc n)" using step.prems(4) by (cases fuel rule: nat.exhaust; cases "fuel - 1") auto
  have r: "rb_red_parent (link_ops k) (root_id t) v = (Inr True, v)"
    using red_parent_run [OF step.prems(1,2), of k] by simp
  show ?case
  proof (cases "color_of u = Red")
    case True
    obtain v1 where v1: "rb_insert_step (link_ops k) (root_id t) v = (Inr g, v1)"
      "in_tree w D v1 C (fill (e, (g, Red), paint Black u) (fill (d, (p, Black), s) t))"
      using insert_step_recolor [OF step.prems(1,2) True, of k] by blast
    have "path_root C Black = Black" using step.prems(3) by (cases C) auto
    then obtain v' where "rb_insert_loop (link_ops k) (Suc n) g v1 = (Inr (), v')"
      "in_tree w D v' [] (ins_fix C (fill (e, (g, Red), paint Black u) (fill (d, (p, Black), s) t)))"
      using step.IH [OF True v1(2), of "Suc n"] step.prems(4) n by auto
    then show ?thesis using r v1(1) True by (auto simp: n bnd_def)
  next
    case False
    obtain v' z where v': "rb_insert_step (link_ops k) (root_id t) v = (Inr z, v')"
      "in_tree w D v' C (ins_rotate d e t p s g u)" "rb_red_parent (link_ops k) z v' = (Inr False, v')"
      using insert_step_rotate [OF step.prems(1,2) False, of k] by blast
    then show ?thesis using r False in_tree_whole [of w D v' C] by (auto simp: n bnd_def ret_def)
  qed
next
  case (top t)
  then show ?case using red_parent_run [OF top(1,2), of k] by (cases fuel) (auto simp: bnd_def ret_def)
next
  case (black d p s C t)
  then show ?case using red_parent_run [OF black(1,2), of k] in_tree_whole [of w D v "(d, (p, Black), s) # C" t]
    by (cases fuel) (auto simp: bnd_def ret_def)
next
  case (root f t)
  obtain d p c s where f: "f = (d, (p, c), s)" by (cases f) auto
  have c: "c = Black" using root f by simp
  then show ?case using red_parent_run [OF root(1,2), of k] root in_tree_whole [of w D v "[f]" t]
    by (cases fuel) (auto simp: bnd_def ret_def f)
qed


section \<open>Where the new node goes\<close>

fun ins_path :: "(u32 \<Rightarrow> ordering) \<Rightarrow> frame list \<Rightarrow> slot_tree \<Rightarrow> frame list" where
  "ins_path ord C Leaf = C"
| "ins_path ord C (Node l n r) =
     (if ord (fst n) = Less then ins_path ord ((True, n, r) # C) l else ins_path ord ((False, n, l) # C) r)"

definition tree_insert :: "(u32 \<Rightarrow> ordering) \<Rightarrow> u32 \<Rightarrow> slot_tree \<Rightarrow> slot_tree" where
  "tree_insert ord z t = paint Black (ins_fix (ins_path ord [] t) (Node Leaf (z, Red) Leaf))"

lemma plug_ins_path: "plug (ins_path ord C t) Leaf = plug C t"
  by (induction ord C t rule: ins_path.induct) simp_all

lemma ins_path_nonempty: "t \<noteq> Leaf \<or> C \<noteq> [] \<Longrightarrow> ins_path ord C t \<noteq> []"
  by (induction ord C t rule: ins_path.induct) simp_all

lemma takeWhile_split:
  "\<not> P x \<Longrightarrow> takeWhile P (xs @ x # ys) = takeWhile P xs"
  "\<not> P x \<Longrightarrow> dropWhile P (xs @ x # ys) = dropWhile P xs @ x # ys"
  "\<forall>a\<in>set xs. P a \<Longrightarrow> P x \<Longrightarrow> takeWhile P (xs @ x # ys) = xs @ x # takeWhile P ys"
  "\<forall>a\<in>set xs. P a \<Longrightarrow> P x \<Longrightarrow> dropWhile P (xs @ x # ys) = dropWhile P ys"
  by (induction xs) auto

lemma ins_path_sorted:
  "sorted_wrt (\<lambda>a b. ord a = Less \<longrightarrow> ord b = Less) (ids t) \<Longrightarrow>
    fore (ins_path ord C t) = fore C @ takeWhile (\<lambda>a. ord a \<noteq> Less) (ids t) \<and>
    aft (ins_path ord C t) = dropWhile (\<lambda>a. ord a \<noteq> Less) (ids t) @ aft C"
proof (induction t arbitrary: C)
  case (Node l n r)
  let ?P = "\<lambda>a. ord a \<noteq> Less"
  have s: "sorted_wrt (\<lambda>a b. ord a = Less \<longrightarrow> ord b = Less) (ids l)" "sorted_wrt (\<lambda>a b. ord a = Less \<longrightarrow> ord b = Less) (ids r)"
    and n: "\<forall>a\<in>set (ids l). ord a = Less \<longrightarrow> ord (fst n) = Less"
    using Node.prems unfolding ids_simps sorted_wrt_append sorted_wrt.simps list.set by blast+
  show ?case
  proof (cases "?P (fst n)")
    case False
    then show ?thesis using Node.IH(1) [OF s(1), of "(True, n, r) # C"] takeWhile_split(1,2) [of ?P "fst n" "ids l" "ids r"]
      by simp
  next
    case True
    then have "\<forall>a\<in>set (ids l). ?P a" using n by blast
    then show ?thesis using True Node.IH(2) [OF s(2), of "(False, n, l) # C"] takeWhile_split(3,4) [of "ids l" ?P "fst n" "ids r"]
      by simp
  qed
qed simp

lemma ids_tree_insert:
  assumes "sorted_wrt (\<lambda>a b. ord a = Less \<longrightarrow> ord b = Less) (ids t)"
  shows "ids (tree_insert ord z t) = takeWhile (\<lambda>a. ord a \<noteq> Less) (ids t) @ z # dropWhile (\<lambda>a. ord a \<noteq> Less) (ids t)"
  using ins_path_sorted [OF assms, of "[]"] by (simp add: tree_insert_def ids_ins_fix ids_plug)

lemma rbt_path_root: "rbt (plug C t) \<Longrightarrow> path_root C Black = Black"
proof -
  assume "rbt (plug C t)"
  then have "path_root C (color_of t) = Black" by (simp add: rbt_def color_of_plug)
  then show ?thesis by (cases C) auto
qed

lemma rbt_tree_insert: "rbt t \<Longrightarrow> rbt (tree_insert ord z t)"
proof -
  assume t: "rbt t"
  let ?C = "ins_path ord [] t"
  have "plug ?C Leaf = t" by (simp add: plug_ins_path)
  then have p: "rbt (plug ?C Leaf)" using t by simp
  then have "path_invh ?C 0" "path_invc ?C Black" by (simp_all add: rbt_def invc_plug invh_plug)
  then show ?thesis
    using ins_fix_inv [of "Node Leaf (z, Red) Leaf" ?C] rbt_path_root [OF p] by (simp add: tree_insert_def rbt_def)
qed

section \<open>The insertion\<close>

lemma descend_run:
  assumes "in_tree w D v C t" "t \<noteq> Leaf" "\<And>a. a \<in> set (ids t) \<Longrightarrow> cmp a v = (Inr (ord a), v)"
    "oe = None \<or> (\<forall>a\<in>set (ids t). ord a \<noteq> Equal)" "size t \<le> fuel"
  shows "rb_descend (link_ops k) cmp oe fuel (root_id t) v =
    (Inr (parent_id (ins_path ord C t), fst (hd (ins_path ord C t))), v)"
  using assms
proof (induction t arbitrary: C fuel)
  case (Node l n r)
  obtain f where f: "fuel = Suc f" using Node.prems(5) by (cases fuel) auto
  note i = in_tree_node [OF Node.prems(1)]
  have c: "cmp (fst n) v = (Inr (ord (fst n)), v)" using Node.prems(3) by simp
  have e: "oe = None \<or> ord (fst n) \<noteq> Equal" using Node.prems(4) by auto
  have l: "in_tree w D v ((True, n, r) # C) l" and r: "in_tree w D v ((False, n, l) # C) r"
    using Node.prems(1) by (simp_all add: in_tree_fill)
  have nl: "root_id l = NULL_IDX \<longleftrightarrow> l = Leaf" "root_id r = NULL_IDX \<longleftrightarrow> r = Leaf"
    using l r heap_root_NULL by (auto simp: in_tree_def at_def)
  have lf: "fst (hd ((d, n, s) # C)) = d" "parent_id ((d, n, s) # C) = fst n" for d s by simp_all
  show ?case
  proof (cases "ord (fst n) = Less")
    case True
    show ?thesis
    proof (cases "l = Leaf")
      case False
      have "rb_descend (link_ops k) cmp oe f (root_id l) v =
        (Inr (parent_id (ins_path ord ((True, n, r) # C) l), fst (hd (ins_path ord ((True, n, r) # C) l))), v)"
        using Node.prems(3-5) f by (intro Node.IH(1) [OF l False]) auto
      then show ?thesis using f i c True False nl by (simp add: bnd_def)
    qed (use f i c True nl in \<open>simp add: bnd_def ret_def\<close>)
  next
    case ge: False
    show ?thesis
    proof (cases "r = Leaf")
      case False
      have "rb_descend (link_ops k) cmp oe f (root_id r) v =
        (Inr (parent_id (ins_path ord ((False, n, l) # C) r), fst (hd (ins_path ord ((False, n, l) # C) r))), v)"
        using Node.prems(3-5) f by (intro Node.IH(2) [OF r False]) auto
      then show ?thesis using f i c ge e False nl by (auto simp: bnd_def)
    qed (use f i c ge e nl in \<open>auto simp: bnd_def ret_def\<close>)
  qed
qed simp

text \<open>A slot prepared for insertion: linked to nothing, red.\<close>

definition fresh_node :: "links \<Rightarrow> u32 \<Rightarrow> bool" where
  "fresh_node v z \<longleftrightarrow> holds_node v (z, Red) \<and> lk_left v z = NULL_IDX \<and> lk_right v z = NULL_IDX \<and> lk_parent v z = NULL_IDX"

lemma attach_run:
  assumes i: "in_tree w D v C Leaf" and C: "C \<noteq> []" and z: "fresh_node v z" "z \<in> D" "z \<notin> set (fore C) \<union> set (aft C)"
  shows "\<exists>v1 v2. op_set_parent (link_ops k) z (parent_id C) v = (Inr (), v1) \<and>
    (if fst (hd C) then op_set_left (link_ops k) (parent_id C) z else op_set_right (link_ops k) (parent_id C) z) v1 = (Inr (), v2) \<and>
    in_tree w D v2 C (Node Leaf (z, Red) Leaf)"
proof -
  obtain d a c s C' where f: "C = (d, (a, c), s) # C'" using C by (cases C) auto
  have na: "a \<noteq> NULL_IDX" "a \<in> lk_nodes v" "a \<noteq> z" "a \<in> D" and nz: "z \<noteq> NULL_IDX" "z \<in> lk_nodes v"
    using i z in_tree_subset [OF i] by (cases d; auto simp: f in_tree_def at_def fresh_node_def)+
  let ?v1 = "put_parent z a v" and ?v2 = "(if d then put_left a z else put_right a z) (put_parent z a v)"
  have at: "at v C Leaf" and D: "off D w v" "set (ids (plug C Leaf)) \<subseteq> D" using i by (auto simp: in_tree_def)
  have "at ?v2 C (Node Leaf (z, Red) Leaf)"
    using at z na nz by (cases d) (auto simp: f at_def fresh_node_def)
  moreover have "off D w ?v2" using D(1) na z(2) by (cases d) (auto intro!: off_put)
  ultimately have "in_tree w D ?v2 C (Node Leaf (z, Red) Leaf)"
    using D(2) z(2) by (simp add: in_tree_def ids_plug)
  then show ?thesis using na nz by (cases d) (auto simp: f)
qed

lemma link_run:
  assumes i: "in_tree w D v [] t" and t: "rbt t" and z: "fresh_node v z" "z \<in> D" "z \<notin> set (ids t)"
    and c: "\<And>a. a \<in> set (ids t) \<Longrightarrow> cmp a v = (Inr (ord a), v)"
    and oe: "oe = None \<or> (\<forall>a\<in>set (ids t). ord a \<noteq> Equal)" and fuel: "size t < fuel"
  shows "\<exists>v'. rb_link (link_ops k) cmp oe fuel z v = (Inr (), v') \<and> in_tree w D v' [] (tree_insert ord z t)"
proof (cases "t = Leaf")
  case True
  have nz: "z \<noteq> NULL_IDX" "z \<in> lk_nodes v" using z by (auto simp: fresh_node_def)
  let ?v' = "put_root z (put_color z RB_BLACK v)"
  have "in_tree w D ?v' [] (Node Leaf (z, Black) Leaf)"
    using i z by (auto simp: in_tree_def at_def fresh_node_def True off_put)
  then show ?thesis using in_tree_root [OF i] nz True
    by (simp add: rb_link_def bnd_def seq_def tree_insert_def)
next
  case False
  let ?C = "ins_path ord [] t" and ?N = "Node Leaf (z, Red) Leaf"
  have r: "root_id t \<noteq> NULL_IDX" using i False heap_root_NULL [of v t] by (auto simp: in_tree_def at_def)
  have p: "plug ?C Leaf = t" by (simp add: plug_ins_path)
  have nC: "?C \<noteq> []" using False by (simp add: ins_path_nonempty)
  have iC: "in_tree w D v ?C Leaf" using i in_tree_whole [of w D v ?C Leaf] p by simp
  have zC: "z \<notin> set (fore ?C) \<union> set (aft ?C)" using z(3) arg_cong [OF p, of "\<lambda>t. set (ids t)"] by (simp add: ids_plug)
  have lC: "length ?C < fuel" using length_path [of ?C Leaf] p fuel by simp
  have desc: "rb_descend (link_ops k) cmp oe fuel (root_id t) v = (Inr (parent_id ?C, fst (hd ?C)), v)"
    using descend_run [OF i False, of cmp ord oe fuel k] c oe fuel by simp
  obtain v1 v2 where v2: "op_set_parent (link_ops k) z (parent_id ?C) v = (Inr (), v1)"
    "(if fst (hd ?C) then op_set_left (link_ops k) (parent_id ?C) z else op_set_right (link_ops k) (parent_id ?C) z) v1 = (Inr (), v2)"
    "in_tree w D v2 ?C ?N"
    using attach_run [OF iC nC z(1,2) zC, of k] by blast
  have "path_root ?C Black = Black" using t p by (intro rbt_path_root [of _ Leaf]) simp
  then obtain v3 where v3: "rb_insert_loop (link_ops k) fuel z v2 = (Inr (), v3)" "in_tree w D v3 [] (ins_fix ?C ?N)"
    using insert_loop_run [OF v2(3) _ _ lC, of k] by auto
  have nf: "ins_fix ?C ?N \<noteq> Leaf" using ids_ins_fix [of ?N ?C] by (auto simp: ids_plug)
  then have "root_id (ins_fix ?C ?N) \<noteq> NULL_IDX" using v3(2) heap_root_NULL [of v3] by (auto simp: in_tree_def at_def)
  moreover obtain v4 where v4: "op_set_color (link_ops k) (root_id (ins_fix ?C ?N)) RB_BLACK v3 = (Inr (), v4)"
    "in_tree w D v4 [] (tree_insert ord z t)"
    using blacken_run [OF v3(2) nf, of k] by (auto simp: tree_insert_def)
  ultimately have "rb_link (link_ops k) cmp oe fuel z v = (Inr (), v4)"
    using in_tree_root [OF i] in_tree_root [OF v3(2)] r desc v2(1,2) v3(1)
    by (simp add: rb_link_def rb_insert_fixup_def bnd_def seq_def when_do_def split: if_splits)
  with v4(2) show ?thesis by blast
qed

end
