(* ===== verification/Rb_Refine.thy ===== *)
theory Rb_Refine
  imports Rb_Insert
begin

text \<open>
  From the links to the code's state. A program over the state simulates one over the links when
  every successful run of the second is matched by the first, leaving the rest of the state as it
  was. The locale \<open>rb_store\<close> asks this of the accessors and gives it for the algorithms.
\<close>

named_theorems sims_intros \<open>introduction rules for sims\<close>

definition sims :: "('s \<Rightarrow> 'v) \<Rightarrow> ('s \<Rightarrow> 'r) \<Rightarrow> 'r \<Rightarrow> ('s, 'a) prog \<Rightarrow> ('v, 'a) prog \<Rightarrow> bool" where
  "sims view rest \<rho> m n \<longleftrightarrow> (\<forall>s a v'. rest s = \<rho> \<longrightarrow> n (view s) = (Inr a, v') \<longrightarrow>
     (\<exists>s'. m s = (Inr a, s') \<and> view s' = v' \<and> rest s' = \<rho>))"

lemma simsD:
  assumes "sims view rest \<rho> m n" "rest s = \<rho>" "n (view s) = (Inr a, v')"
  obtains s' where "m s = (Inr a, s')" "view s' = v'" "rest s' = \<rho>"
  using assms unfolding sims_def by blast

lemma simsI:
  "(\<And>s a v'. rest s = \<rho> \<Longrightarrow> n (view s) = (Inr a, v') \<Longrightarrow> \<exists>s'. m s = (Inr a, s') \<and> view s' = v' \<and> rest s' = \<rho>) \<Longrightarrow>
    sims view rest \<rho> m n"
  unfolding sims_def by blast

lemma sims_ret [sims_intros]: "sims view rest \<rho> (ret a) (ret a)"
  by (rule simsI) (auto simp: ret_def)

lemma sims_fail [sims_intros]: "sims view rest \<rho> (fail_with x) (fail_with y)"
  by (rule simsI) (auto simp: fail_with_def)

lemma sims_bnd [sims_intros]:
  assumes "sims view rest \<rho> m n" "\<And>a. sims view rest \<rho> (f a) (g a)"
  shows "sims view rest \<rho> (bnd m f) (bnd n g)"
proof (rule simsI)
  fix s b v'
  assume r: "rest s = \<rho>" and "bnd n g (view s) = (Inr b, v')"
  then obtain a v1 where "n (view s) = (Inr a, v1)" "g a v1 = (Inr b, v')" by (auto simp: bnd_ok)
  with simsD [OF assms(1) r] obtain s1 where s1: "m s = (Inr a, s1)" "view s1 = v1" "rest s1 = \<rho>" by metis
  from simsD [OF assms(2) s1(3)] \<open>g a v1 = _\<close> s1(2) obtain s2 where "f a s1 = (Inr b, s2)" "view s2 = v'" "rest s2 = \<rho>" by metis
  then show "\<exists>s'. bnd m f s = (Inr b, s') \<and> view s' = v' \<and> rest s' = \<rho>" using s1(1) by (auto simp: bnd_def)
qed

lemma sims_seq [sims_intros]:
  "sims view rest \<rho> m n \<Longrightarrow> sims view rest \<rho> m' n' \<Longrightarrow> sims view rest \<rho> (seq m m') (seq n n')"
  unfolding seq_def by (rule sims_bnd)

lemma sims_require [sims_intros]: "sims view rest \<rho> (require c x) (require c y)"
  by (cases c; rule simsI) (auto simp: require_def ret_def fail_with_def)

lemma sims_if [sims_intros]:
  "sims view rest \<rho> m n \<Longrightarrow> sims view rest \<rho> m' n' \<Longrightarrow> sims view rest \<rho> (if c then m else m') (if c then n else n')"
  by simp

lemma sims_when [sims_intros]: "sims view rest \<rho> m n \<Longrightarrow> sims view rest \<rho> (when_do c m) (when_do c n)"
  unfolding when_do_def by (intro sims_intros)

lemma sims_case_prod [sims_intros]:
  "(\<And>a b. sims view rest \<rho> (f a b) (g a b)) \<Longrightarrow> sims view rest \<rho> (case p of (a, b) \<Rightarrow> f a b) (case p of (a, b) \<Rightarrow> g a b)"
  by (cases p) simp

lemma sims_case_option [sims_intros]:
  "sims view rest \<rho> m n \<Longrightarrow> (\<And>a. sims view rest \<rho> (f a) (g a)) \<Longrightarrow>
    sims view rest \<rho> (case p of None \<Rightarrow> m | Some a \<Rightarrow> f a) (case p of None \<Rightarrow> n | Some a \<Rightarrow> g a)"
  by (cases p) simp_all

locale rb_store =
  fixes ops :: "'s rb_ops" and view :: "'s \<Rightarrow> links" and rest :: "'s \<Rightarrow> 'r"
  assumes root_sim: "sims view rest \<rho> (op_root ops) (op_root (link_ops k))"
    and set_root_sim: "sims view rest \<rho> (op_set_root ops i) (op_set_root (link_ops k) i)"
    and get_sim: "sims view rest \<rho> (op_left ops i) (op_left (link_ops k) i)"
      "sims view rest \<rho> (op_right ops i) (op_right (link_ops k) i)"
      "sims view rest \<rho> (op_parent ops i) (op_parent (link_ops k) i)"
      "sims view rest \<rho> (op_color ops i) (op_color (link_ops k) i)"
    and put_sim: "sims view rest \<rho> (op_set_left ops i j) (op_set_left (link_ops k) i j)"
      "sims view rest \<rho> (op_set_right ops i j) (op_set_right (link_ops k) i j)"
      "sims view rest \<rho> (op_set_parent ops i j) (op_set_parent (link_ops k) i j)"
      "sims view rest \<rho> (op_set_color ops i c) (op_set_color (link_ops k) i c)"
begin

abbreviation "lops \<equiv> link_ops (op_checked ops)"

lemmas op_sims = root_sim set_root_sim get_sim put_sim

lemma rotations_sim: "sims view rest \<rho> (rb_rotate_left ops i) (rb_rotate_left lops i)"
  "sims view rest \<rho> (rb_rotate_right ops i) (rb_rotate_right lops i)"
  unfolding rb_rotate_left_def rb_rotate_right_def link_runs(7)
  by (intro sims_intros op_sims)+

lemma descend_sim:
  assumes "\<And>a. sims view rest \<rho> (cmp a) (cmpv a)"
  shows "sims view rest \<rho> (rb_descend ops cmp oe fuel i) (rb_descend lops cmpv oe fuel i)"
  by (induction fuel arbitrary: i) (simp_all, (intro sims_intros op_sims assms | assumption)+)

lemma red_parent_sim: "sims view rest \<rho> (rb_red_parent ops i) (rb_red_parent lops i)"
  unfolding rb_red_parent_def by (intro sims_intros op_sims)

lemma insert_step_sim: "sims view rest \<rho> (rb_insert_step ops i) (rb_insert_step lops i)"
  unfolding rb_insert_step_def rb_fix_recolor_def by (intro sims_intros op_sims rotations_sim)

lemma insert_loop_sim: "sims view rest \<rho> (rb_insert_loop ops fuel i) (rb_insert_loop lops fuel i)"
  by (induction fuel arbitrary: i) (simp_all, (intro sims_intros op_sims red_parent_sim insert_step_sim | assumption)+)

lemma link_sim:
  assumes "\<And>a. sims view rest \<rho> (cmp a) (cmpv a)"
  shows "sims view rest \<rho> (rb_link ops cmp oe fuel i) (rb_link lops cmpv oe fuel i)"
  unfolding rb_link_def rb_insert_fixup_def by (intro sims_intros op_sims descend_sim assms insert_loop_sim)

theorem insertion:
  assumes t: "at (view s) [] t" "rbt t" and z: "fresh_node (view s) z" "z \<notin> set (ids t)"
    and c: "\<And>a s'. a \<in> set (ids t) \<Longrightarrow> rest s' = rest s \<Longrightarrow> cmp a s' = (Inr (ord a), s')"
    and oe: "oe = None \<or> (\<forall>a\<in>set (ids t). ord a \<noteq> Equal)" and fuel: "size t < fuel"
  shows "\<exists>s'. rb_link ops cmp oe fuel z s = (Inr (), s') \<and> rest s' = rest s \<and>
    at (view s') [] (tree_insert ord z t) \<and> off (insert z (set (ids t))) (view s) (view s')"
proof -
  define cmpv where "cmpv a = (if a \<in> set (ids t) then ret (ord a) else fail_with Panicked :: (links, ordering) prog)" for a
  have c': "sims view rest (rest s) (cmp a) (cmpv a)" for a
    by (cases "a \<in> set (ids t)"; rule simsI) (auto simp: cmpv_def ret_def fail_with_def c)
  have "in_tree (view s) (insert z (set (ids t))) (view s) [] t" using t(1) by (auto simp: in_tree_def)
  from link_run [OF this t(2) z(1) _ z(2), of cmpv ord oe fuel "op_checked ops"] oe fuel
  obtain v' where v': "rb_link lops cmpv oe fuel z (view s) = (Inr (), v')"
    "in_tree (view s) (insert z (set (ids t))) v' [] (tree_insert ord z t)"
    by (auto simp: cmpv_def ret_def)
  from simsD [OF link_sim [OF c'] refl v'(1)] v'(2) show ?thesis by (auto simp: in_tree_def)
qed

end

end
