(* ===== verification/Book_Trees.thy ===== *)
theory Book_Trees
  imports Rb_Refine Intent_Tree Seat_Tree "HOL-Library.Product_Lexorder"
begin

text \<open>
  The three trees of a book as stores of links: the long and the short intents, which share the
  links of the intent nodes, and the seats. Each interprets \<open>rb_store\<close>. What a tree operation
  leaves is the book with the links and the root of its tree blanked (\<open>intent_rest\<close>, \<open>seat_rest\<close>).
\<close>

section \<open>Intent nodes\<close>

definition intent_link :: "(intent_node \<Rightarrow> 'a) \<Rightarrow> 'a \<Rightarrow> book \<Rightarrow> u32 \<Rightarrow> 'a" where
  "intent_link f d b i = (case intent b i of Inl x \<Rightarrow> d | Inr n \<Rightarrow> f n)"

definition intent_view :: "u8 \<Rightarrow> book \<Rightarrow> links" where
  "intent_view side b = \<lparr> lk_root = (if side = SIDE_LONG then long_tree_root b else short_tree_root b),
     lk_left = intent_link in_left NULL_IDX b, lk_right = intent_link in_right NULL_IDX b,
     lk_parent = intent_link in_parent NULL_IDX b, lk_color = intent_link in_color RB_BLACK b,
     lk_nodes = {i. i \<noteq> NULL_IDX \<and> (\<exists>n. intent b i = Inr n)} \<rparr>"

definition unlinked :: "intent_node \<Rightarrow> intent_node" where
  "unlinked n = n\<lparr> in_left := NULL_IDX, in_right := NULL_IDX, in_parent := NULL_IDX, in_color := RB_RED \<rparr>"

primrec unlink_intent :: "node \<Rightarrow> node" where
  "unlink_intent (NFree i) = NFree i"
| "unlink_intent (NIntent n) = NIntent (unlinked n)"
| "unlink_intent (NSeat s) = NSeat s"

definition intent_rest :: "u8 \<Rightarrow> book \<Rightarrow> book" where
  "intent_rest side b = (if side = SIDE_LONG then b\<lparr> long_tree_root := NULL_IDX \<rparr> else b\<lparr> short_tree_root := NULL_IDX \<rparr>)
     \<lparr> bk_nodes := map unlink_intent (bk_nodes b) \<rparr>"

lemma intent_put_node:
  assumes "intent b i = Inr n"
  shows "intent (put_node i (NIntent n') b) j = (if j = i then Inr n' else intent b j)"
proof -
  have "unat i < length (bk_nodes b)" using assms by (simp add: intent_ok)
  then show ?thesis
    by (auto simp: intent_def put_node_def ok_or_err_def ok_or_def nth_list_update word_unat_eq_iff)
qed

lemma intent_mut_run: "intent b i = Inr n \<Longrightarrow> intent_mut i f b = (Inr (), put_node i (NIntent (f n)) b)"
  by (simp add: intent_mut_def run_defs)

lemma intent_link_put:
  "intent b i = Inr n \<Longrightarrow> intent_link f d (put_node i (NIntent n') b) = (intent_link f d b)(i := f n')"
  by (auto simp: intent_link_def intent_put_node fun_eq_iff)

lemma intent_nodes_put:
  "intent b i = Inr n \<Longrightarrow> {j. j \<noteq> NULL_IDX \<and> (\<exists>n. intent (put_node i (NIntent n') b) j = Inr n)} =
    {j. j \<noteq> NULL_IDX \<and> (\<exists>n. intent b j = Inr n)}"
  by (auto simp: intent_put_node)

lemma intent_rest_put:
  assumes "intent b i = Inr n" "unlinked n' = unlinked n"
  shows "intent_rest side (put_node i (NIntent n') b) = intent_rest side b"
proof -
  have "unat i < length (bk_nodes b)" "bk_nodes b ! unat i = NIntent n" using assms(1) by (auto simp: intent_ok)
  then have "(map unlink_intent (bk_nodes b))[unat i := NIntent (unlinked n')] = map unlink_intent (bk_nodes b)"
    using assms(2) by (intro list_update_same_conv [THEN iffD2]) simp_all
  then show ?thesis by (simp add: intent_rest_def put_node_def map_update)
qed

lemma intent_nodes: "i \<in> lk_nodes (intent_view side b) \<longleftrightarrow> i \<noteq> NULL_IDX \<and> (\<exists>n. intent b i = Inr n)"
  by (simp add: intent_view_def)

lemma intent_view_put:
  assumes "intent b i = Inr n"
  shows "intent_view side (put_node i (NIntent n') b) = (intent_view side b)\<lparr>
    lk_left := (lk_left (intent_view side b))(i := in_left n'), lk_right := (lk_right (intent_view side b))(i := in_right n'),
    lk_parent := (lk_parent (intent_view side b))(i := in_parent n'), lk_color := (lk_color (intent_view side b))(i := in_color n') \<rparr>"
  by (simp add: intent_view_def intent_link_put [OF assms] intent_nodes_put [OF assms]) (simp add: put_node_def)

lemma intent_view_get:
  assumes "intent b i = Inr n"
  shows "lk_left (intent_view side b) i = in_left n" "lk_right (intent_view side b) i = in_right n"
    "lk_parent (intent_view side b) i = in_parent n" "lk_color (intent_view side b) i = in_color n"
  using assms by (simp_all add: intent_view_def intent_link_def)

lemma fun_upd_same: "g i = x \<Longrightarrow> g(i := x) = g"
  by auto

lemma intent_get_sim:
  assumes "\<And>b. g (intent_view side b) = intent_link f d b"
  shows "sims (intent_view side) rest \<rho>
    (asks (\<lambda>b. if i = NULL_IDX then Inr d else try_res (intent b i) (\<lambda>n. Inr (f n)))) (link_get g d i)"
proof (rule simsI)
  fix b a v' assume r: "rest b = \<rho>" and run: "link_get g d i (intent_view side b) = (Inr a, v')"
  have "v' = intent_view side b" using run by (auto simp: link_get_def asks_def)
  moreover have "(if i = NULL_IDX then Inr d else try_res (intent b i) (\<lambda>n. Inr (f n))) = Inr a"
    using run by (auto simp: link_get_def asks_def try_res_def intent_nodes assms intent_link_def split: if_splits)
  ultimately show "\<exists>s'. asks (\<lambda>b. if i = NULL_IDX then Inr d else try_res (intent b i) (\<lambda>n. Inr (f n))) b = (Inr a, s') \<and>
      intent_view side s' = v' \<and> rest s' = \<rho>" using r by (auto simp: asks_def)
qed

lemma intent_put_sim:
  assumes "\<And>b n. intent b i = Inr n \<Longrightarrow> intent_view side (put_node i (NIntent (h n)) b) = F (intent_view side b)"
    and "\<And>n. unlinked (h n) = unlinked n"
  shows "sims (intent_view side) (intent_rest side) \<rho> (if i = NULL_IDX then ret () else intent_mut i h) (link_put F i)"
proof (cases "i = NULL_IDX")
  case False
  show ?thesis
  proof (rule simsI)
    fix b a v' assume r: "intent_rest side b = \<rho>" and run: "link_put F i (intent_view side b) = (Inr a, v')"
    from run False have i: "i \<in> lk_nodes (intent_view side b)" and v': "v' = F (intent_view side b)"
      by (auto simp: link_put_def ok_iff)
    then obtain n where n: "intent b i = Inr n" by (auto simp: intent_view_def)
    show "\<exists>s'. (if i = NULL_IDX then ret () else intent_mut i h) b = (Inr a, s') \<and> intent_view side s' = v' \<and> intent_rest side s' = \<rho>"
      using False intent_mut_run [OF n, of h] assms(1) [OF n] intent_rest_put [OF n assms(2)] v' r by auto
  qed
qed (simp add: link_put_def sims_ret)

lemma intent_store:
  assumes "side = SIDE_LONG \<or> side = SIDE_SHORT"
  shows "rb_store (intent_ops side) (intent_view side) (intent_rest side)"
proof -
  have s: "SIDE_SHORT \<noteq> SIDE_LONG" by (simp add: SIDE_LONG_def SIDE_SHORT_def)
  note defs = intent_ops_def link_ops_def itree_left_def itree_right_def itree_parent_def itree_color_def
    itree_set_left_def itree_set_right_def itree_set_parent_def itree_set_color_def
  show ?thesis
  proof (unfold_locales, goal_cases)
    case (1 \<rho> k)
    show ?case using assms s
      by (intro simsI) (auto simp: intent_ops_def tree_root_def asks_def intent_view_def)
  next
    case (2 \<rho> i k)
    have "intent (b\<lparr> long_tree_root := j \<rparr>) = intent b" "intent (b\<lparr> short_tree_root := j \<rparr>) = intent b" for b j
      by (simp_all add: intent_def fun_eq_iff)
    then show ?case using assms s
      by (intro simsI) (auto simp: intent_ops_def set_tree_root_def modify_def intent_view_def put_root_def intent_rest_def
          intent_link_def fun_eq_iff)
  qed (unfold defs rb_ops.simps, (rule intent_get_sim, simp add: intent_view_def | rule intent_put_sim,
      simp add: intent_view_put put_defs fun_upd_same intent_view_get, simp add: unlinked_def)+)
qed

interpretation long_tree: rb_store "intent_ops SIDE_LONG" "intent_view SIDE_LONG" "intent_rest SIDE_LONG"
  by (rule intent_store) simp

interpretation short_tree: rb_store "intent_ops SIDE_SHORT" "intent_view SIDE_SHORT" "intent_rest SIDE_SHORT"
  by (rule intent_store) simp


lemma intent_rest_iff:
  assumes "intent_rest side b' = intent_rest side b" "intent b i = Inr n"
  obtains n' where "intent b' i = Inr n'" "unlinked n' = unlinked n"
proof -
  have m: "map unlink_intent (bk_nodes b') = map unlink_intent (bk_nodes b)"
    using arg_cong [OF assms(1), of bk_nodes] by (simp add: intent_rest_def split: if_splits)
  have i: "unat i < length (bk_nodes b)" "bk_nodes b ! unat i = NIntent n" using assms(2) by (auto simp: intent_ok)
  have l: "unat i < length (bk_nodes b')" using arg_cong [OF m, of length] i(1) by simp
  have "unlink_intent (bk_nodes b' ! unat i) = NIntent (unlinked n)"
    using arg_cong [OF m, of "\<lambda>xs. xs ! unat i"] i l by simp
  then obtain n' where "bk_nodes b' ! unat i = NIntent n'" "unlinked n' = unlinked n"
    by (cases "bk_nodes b' ! unat i") auto
  then show thesis using that l by (auto simp: intent_ok)
qed

section \<open>Price-time priority\<close>

text \<open>The order of a side: best price first, then the order of posting, then the identifier.\<close>

definition intent_key :: "u8 \<Rightarrow> intent_node \<Rightarrow> int \<times> int \<times> int" where
  "intent_key side n = (if side = SIDE_LONG then - uint (price_limit_fp n) else uint (price_limit_fp n),
     uint (post_seq n), uint (intent_id n))"

lemma cmp_of_words: "cmp_of (uint a) (uint b) = cmp_of a b" "cmp_of (- uint a) (- uint b) = cmp_of b a"
  by (simp_all add: cmp_of_def word_less_def word_uint_eq_iff)

lemma cmp_of_pair: "cmp_of (a, b) (c, d) = (if cmp_of a c = Equal then cmp_of b d else cmp_of a c)"
  by (auto simp: cmp_of_def)

lemma cmp_key_intent_key: "cmp_key side a b = cmp_of (intent_key side a) (intent_key side b)"
  by (auto simp: cmp_key_def intent_key_def cmp_of_pair cmp_of_words Let_def)

lemma intent_key_unlinked: "unlinked n' = unlinked n \<Longrightarrow> intent_key side n' = intent_key side n"
proof -
  assume u: "unlinked n' = unlinked n"
  have "price_limit_fp (unlinked m) = price_limit_fp m" "post_seq (unlinked m) = post_seq m" "intent_id (unlinked m) = intent_id m" for m
    by (simp_all add: unlinked_def)
  then show ?thesis using u by (metis intent_key_def)
qed

definition key_at :: "u8 \<Rightarrow> book \<Rightarrow> u32 \<Rightarrow> int \<times> int \<times> int" where
  "key_at side b = intent_link (intent_key side) (0, 0, 0) b"

lemma key_at_intent: "intent b i = Inr n \<Longrightarrow> key_at side b i = intent_key side n"
  by (simp add: key_at_def intent_link_def)

text \<open>\<open>side_tree side b t\<close>: the book holds \<open>t\<close> as the tree of a side, red-black and in priority order.\<close>

definition side_tree :: "u8 \<Rightarrow> book \<Rightarrow> slot_tree \<Rightarrow> bool" where
  "side_tree side b t \<longleftrightarrow> at (intent_view side b) [] t \<and> rbt t \<and> sorted (map (key_at side b) (ids t))"

lemma at_ids: "at v [] t \<Longrightarrow> distinct (ids t) \<and> set (ids t) \<subseteq> lk_nodes v"
  using heap_ids by (auto simp: at_def)

lemma length_ids: "length (ids t) = size t"
  by (simp add: ids_def)

lemma size_pool:
  assumes "distinct (ids t)" "\<forall>i\<in>set (ids t). unat i < n"
  shows "size t \<le> n"
proof -
  have "card (unat ` set (ids t)) \<le> card {..<n}" using assms(2) by (intro card_mono) auto
  then have "card (set (ids t)) \<le> n" by (subst (asm) card_image) (simp_all add: inj_on_def word_unat_eq_iff)
  then show ?thesis using distinct_card [OF assms(1)] by (simp add: length_ids)
qed

lemma side_tree_size: "side_tree side b t \<Longrightarrow> size t < pool_fuel b"
  using size_pool [of t "length (bk_nodes b)"] at_ids [of "intent_view side b" t]
  by (auto simp: side_tree_def pool_fuel_def intent_nodes intent_ok subset_iff less_Suc_eq_le)

lemma at_off:
  assumes "at v [] t" "off D v w" "lk_root w = lk_root v" "set (ids t) \<inter> D = {}"
  shows "at w [] t"
  using assms heap_off [OF assms(2,4)] hangs_off [OF assms(2,4)] by (simp add: at_def)

section \<open>Insertion of an intent\<close>

lemma put_unlinked:
  assumes t: "side_tree side b t" and z: "intent b z = Inr n" "z \<noteq> NULL_IDX" "z \<notin> set (ids t)"
  defines "b1 \<equiv> put_node z (NIntent (unlinked n)) b"
  shows "side_tree side b1 t" "fresh_node (intent_view side b1) z" "intent_rest side b1 = intent_rest side b"
    "off {z} (intent_view side b) (intent_view side b1)" "intent b1 z = Inr (unlinked n)" "pool_fuel b1 = pool_fuel b"
    "\<And>i. i \<in> set (ids t) \<Longrightarrow> intent b1 i = intent b i"
proof -
  show off: "off {z} (intent_view side b) (intent_view side b1)"
    by (simp add: b1_def intent_view_put [OF z(1)] off_def)
  show i: "intent b1 i = intent b i" if "i \<in> set (ids t)" for i
    using that z(3) by (auto simp: b1_def intent_put_node [OF z(1)])
  have r: "lk_root (intent_view side b1) = lk_root (intent_view side b)"
    by (simp add: b1_def intent_view_put [OF z(1)])
  have k: "map (key_at side b1) (ids t) = map (key_at side b) (ids t)"
    using i by (simp add: key_at_def intent_link_def)
  show "side_tree side b1 t" using t z(3) at_off [OF _ off r] unfolding side_tree_def k by simp
  show "intent b1 z = Inr (unlinked n)" by (simp add: b1_def intent_put_node [OF z(1)])
  then show "fresh_node (intent_view side b1) z"
    using z(2) by (simp add: fresh_node_def intent_nodes intent_view_get) (simp add: unlinked_def)
  show "intent_rest side b1 = intent_rest side b"
    by (simp add: b1_def intent_rest_put [OF z(1)]) (simp add: intent_rest_put [OF z(1)] unlinked_def)
  show "pool_fuel b1 = pool_fuel b" by (simp add: b1_def pool_fuel_def put_node_def)
qed

lemma cmp_of_Less [simp]: "cmp_of x y = Less \<longleftrightarrow> x < y"
  by (simp add: cmp_of_def)

lemma sorted_splits:
  assumes "sorted (map f xs)"
  shows "sorted_wrt (\<lambda>a b. k < f a \<longrightarrow> k < f b) xs"
  using assms unfolding sorted_wrt_map by (rule sorted_wrt_mono_rel [rotated]) auto

lemma takeWhile_bound: "sorted (map f xs) \<Longrightarrow> y \<in> set (dropWhile (\<lambda>a. f a \<le> k) xs) \<Longrightarrow> k < f y"
  by (induction xs) (auto split: if_splits)

lemma sorted_insertion:
  assumes "sorted (map f xs)"
  shows "sorted (map f (takeWhile (\<lambda>a. f a \<le> k) xs) @ k # map f (dropWhile (\<lambda>a. f a \<le> k) xs))"
proof -
  have "sorted (map f (takeWhile (\<lambda>a. f a \<le> k) xs) @ map f (dropWhile (\<lambda>a. f a \<le> k) xs))"
    using assms by (simp flip: map_append)
  moreover have "\<forall>y\<in>set (dropWhile (\<lambda>a. f a \<le> k) xs). k \<le> f y"
    using takeWhile_bound [OF assms] less_imp_le by blast
  ultimately show ?thesis by (auto simp: sorted_append dest: set_takeWhileD)
qed

text \<open>The place of a new intent: after everything that is not worse.\<close>

definition place_in :: "('b \<Rightarrow> 'k::linorder) \<Rightarrow> 'k \<Rightarrow> 'b \<Rightarrow> 'b list \<Rightarrow> 'b list" where
  "place_in f k z xs = takeWhile (\<lambda>a. f a \<le> k) xs @ z # dropWhile (\<lambda>a. f a \<le> k) xs"

lemma set_place_in [simp]: "set (place_in f k z xs) = insert z (set xs)"
proof -
  have "set xs = set (takeWhile (\<lambda>a. f a \<le> k) xs) \<union> set (dropWhile (\<lambda>a. f a \<le> k) xs)"
    by (metis set_append takeWhile_dropWhile_id)
  then show ?thesis by (auto simp: place_in_def)
qed

lemma cmp_intents_run:
  assumes r: "intent_rest side b' = intent_rest side b" and x: "intent b z = Inr x" and y: "intent b a = Inr y"
  shows "asks (\<lambda>b. try_res (intent b z) (\<lambda>x. try_res (intent b a) (\<lambda>y. Inr (cmp_key side x y)))) b' =
    (Inr (cmp_of (intent_key side x) (intent_key side y)), b')"
proof -
  obtain x' where x': "intent b' z = Inr x'" "unlinked x' = unlinked x" by (rule intent_rest_iff [OF r x])
  obtain y' where y': "intent b' a = Inr y'" "unlinked y' = unlinked y" by (rule intent_rest_iff [OF r y])
  show ?thesis using x'(1) y'(1) intent_key_unlinked [OF x'(2), of side] intent_key_unlinked [OF y'(2), of side]
    by (simp add: asks_def try_res_def cmp_key_intent_key)
qed

lemma itree_insert_run:
  assumes side: "side = SIDE_LONG \<or> side = SIDE_SHORT" and t: "side_tree side b t"
    and z: "z \<noteq> NULL_IDX" "intent b z = Inr n" "z \<notin> set (ids t)"
  shows "\<exists>b' t'. itree_insert side z b = (Inr (), b') \<and> side_tree side b' t' \<and>
    ids t' = place_in (key_at side b) (intent_key side n) z (ids t) \<and> intent_rest side b' = intent_rest side b \<and>
    off (insert z (set (ids t))) (intent_view side b) (intent_view side b')"
proof -
  let ?b = "put_node z (NIntent (unlinked n)) b" and ?k = "intent_key side n"
  let ?cmp = "\<lambda>r. asks (\<lambda>b. try_res (intent b z) (\<lambda>x. try_res (intent b r) (\<lambda>y. Inr (cmp_key side x y))))"
  let ?ord = "\<lambda>a. cmp_of ?k (key_at side b a)" and ?t' = "tree_insert (\<lambda>a. cmp_of ?k (key_at side b a)) z t"
  note u = put_unlinked [OF t z(2,1,3)]
  have mem: "\<exists>m. intent ?b a = Inr m \<and> key_at side b a = intent_key side m" if a: "a \<in> set (ids t)" for a
  proof -
    from u(1) have "set (ids t) \<subseteq> lk_nodes (intent_view side ?b)" using at_ids unfolding side_tree_def by blast
    then obtain m where m: "intent ?b a = Inr m" using a intent_nodes by blast
    then show ?thesis using u(7) [OF a] by (auto simp: key_at_intent)
  qed
  have ku: "intent_key side (unlinked n) = ?k" by (rule intent_key_unlinked) (simp add: unlinked_def)
  have cmp: "?cmp a b' = (Inr (?ord a), b')" if "a \<in> set (ids t)" "intent_rest side b' = intent_rest side ?b" for a b'
    using mem [OF that(1)] cmp_intents_run [OF that(2) u(5)] ku by auto
  have st: "at (intent_view side ?b) [] t" "rbt t" "size t < pool_fuel ?b"
    using u(1) side_tree_size [OF u(1)] by (simp_all add: side_tree_def)
  from rb_store.insertion [OF intent_store [OF side] st(1,2) u(2) z(3), of ?cmp ?ord None] cmp st(3)
  obtain b' where b': "rb_link (intent_ops side) ?cmp None (pool_fuel ?b) z ?b = (Inr (), b')"
    "intent_rest side b' = intent_rest side ?b" "at (intent_view side b') [] ?t'"
    "off (insert z (set (ids t))) (intent_view side ?b) (intent_view side b')"
    by blast
  have run: "itree_insert side z b = (Inr (), b')"
    using z(1) intent_mut_run [OF z(2)] b'(1) by (simp add: itree_insert_def run_defs unlinked_def)
  have so: "sorted (map (key_at side b) (ids t))" using t by (simp add: side_tree_def)
  have ids: "ids ?t' = place_in (key_at side b) ?k z (ids t)"
    using ids_tree_insert [of ?ord t z] sorted_splits [OF so] by (simp add: place_in_def not_less)
  have key: "key_at side b' a = key_at side b a" if "a \<in> set (ids t)" for a
    using mem [OF that] intent_rest_iff [OF b'(2)] intent_key_unlinked by (metis key_at_intent)
  have keyz: "key_at side b' z = ?k" using intent_rest_iff [OF b'(2) u(5)] intent_key_unlinked ku by (metis key_at_intent)
  have "map (key_at side b') (ids ?t') = map (key_at side b) (takeWhile (\<lambda>a. key_at side b a \<le> ?k) (ids t)) @
      ?k # map (key_at side b) (dropWhile (\<lambda>a. key_at side b a \<le> ?k) (ids t))"
    using key keyz by (auto simp: ids place_in_def dest: set_takeWhileD set_dropWhileD)
  then have "side_tree side b' ?t'" using b'(3) rbt_tree_insert [OF st(2)] sorted_insertion [OF so] by (simp add: side_tree_def)
  moreover have "off (insert z (set (ids t))) (intent_view side b) (intent_view side b')"
    using off_trans [OF off_mono [OF u(4)] b'(4)] by simp
  ultimately show ?thesis using run ids b'(2) u(3) by metis
qed

end
