(* ===== verification/Seat_Orders.thy ===== *)
theory Seat_Orders
  imports Book_Trees
begin

text \<open>
  The seats of a book as a store of links, and what its operations do: looking a trader up finds
  the seat of that trader, inserting a seat puts it in its place in the order of the trader keys.
\<close>

section \<open>Seat nodes\<close>

definition seat_link :: "(seat_node \<Rightarrow> 'a) \<Rightarrow> 'a \<Rightarrow> book \<Rightarrow> u32 \<Rightarrow> 'a" where
  "seat_link f d b i = (case seat b i of Inl x \<Rightarrow> d | Inr n \<Rightarrow> f n)"

definition seat_view :: "book \<Rightarrow> links" where
  "seat_view b = \<lparr> lk_root = seat_tree_root b,
     lk_left = seat_link sn_left NULL_IDX b, lk_right = seat_link sn_right NULL_IDX b,
     lk_parent = seat_link sn_parent NULL_IDX b, lk_color = seat_link sn_color RB_BLACK b,
     lk_nodes = {i. i \<noteq> NULL_IDX \<and> (\<exists>n. seat b i = Inr n)} \<rparr>"

definition unseated :: "seat_node \<Rightarrow> seat_node" where
  "unseated n = n\<lparr> sn_left := NULL_IDX, sn_right := NULL_IDX, sn_parent := NULL_IDX, sn_color := RB_RED \<rparr>"

primrec unlink_seat :: "node \<Rightarrow> node" where
  "unlink_seat (NFree i) = NFree i"
| "unlink_seat (NIntent n) = NIntent n"
| "unlink_seat (NSeat s) = NSeat (unseated s)"

definition seat_rest :: "book \<Rightarrow> book" where
  "seat_rest b = b\<lparr> seat_tree_root := NULL_IDX, bk_nodes := map unlink_seat (bk_nodes b) \<rparr>"

lemma seat_put_node:
  assumes "seat b i = Inr n"
  shows "seat (put_node i (NSeat n') b) j = (if j = i then Inr n' else seat b j)"
proof -
  have "unat i < length (bk_nodes b)" using assms by (simp add: seat_ok)
  then show ?thesis
    by (auto simp: seat_def put_node_def ok_or_err_def ok_or_def nth_list_update word_unat_eq_iff)
qed

lemma seat_mut_run: "seat b i = Inr n \<Longrightarrow> seat_mut i f b = (Inr (), put_node i (NSeat (f n)) b)"
  by (simp add: seat_mut_def run_defs)

lemma seat_link_put:
  "seat b i = Inr n \<Longrightarrow> seat_link f d (put_node i (NSeat n') b) = (seat_link f d b)(i := f n')"
  by (auto simp: seat_link_def seat_put_node fun_eq_iff)

lemma seat_nodes_put:
  "seat b i = Inr n \<Longrightarrow> {j. j \<noteq> NULL_IDX \<and> (\<exists>n. seat (put_node i (NSeat n') b) j = Inr n)} =
    {j. j \<noteq> NULL_IDX \<and> (\<exists>n. seat b j = Inr n)}"
  by (auto simp: seat_put_node)

lemma seat_rest_put:
  assumes "seat b i = Inr n" "unseated n' = unseated n"
  shows "seat_rest (put_node i (NSeat n') b) = seat_rest b"
proof -
  have "unat i < length (bk_nodes b)" "bk_nodes b ! unat i = NSeat n" using assms(1) by (auto simp: seat_ok)
  then have "(map unlink_seat (bk_nodes b))[unat i := NSeat (unseated n')] = map unlink_seat (bk_nodes b)"
    using assms(2) by (intro list_update_same_conv [THEN iffD2]) simp_all
  then show ?thesis by (simp add: seat_rest_def put_node_def map_update)
qed

lemma seat_nodes: "i \<in> lk_nodes (seat_view b) \<longleftrightarrow> i \<noteq> NULL_IDX \<and> (\<exists>n. seat b i = Inr n)"
  by (simp add: seat_view_def)

lemma seat_view_put:
  assumes "seat b i = Inr n"
  shows "seat_view (put_node i (NSeat n') b) = (seat_view b)\<lparr>
    lk_left := (lk_left (seat_view b))(i := sn_left n'), lk_right := (lk_right (seat_view b))(i := sn_right n'),
    lk_parent := (lk_parent (seat_view b))(i := sn_parent n'), lk_color := (lk_color (seat_view b))(i := sn_color n') \<rparr>"
  by (simp add: seat_view_def seat_link_put [OF assms] seat_nodes_put [OF assms]) (simp add: put_node_def)

lemma seat_view_get:
  assumes "seat b i = Inr n"
  shows "lk_left (seat_view b) i = sn_left n" "lk_right (seat_view b) i = sn_right n"
    "lk_parent (seat_view b) i = sn_parent n" "lk_color (seat_view b) i = sn_color n"
  using assms by (simp_all add: seat_view_def seat_link_def)

lemma seat_get_sim:
  assumes "\<And>b. g (seat_view b) = seat_link f d b"
  shows "sims (seat_view) rest \<rho>
    (asks (\<lambda>b. if i = NULL_IDX then Inr d else try_res (seat b i) (\<lambda>n. Inr (f n)))) (link_get g d i)"
proof (rule simsI)
  fix b a v' assume r: "rest b = \<rho>" and run: "link_get g d i (seat_view b) = (Inr a, v')"
  have "v' = seat_view b" using run by (auto simp: link_get_def asks_def)
  moreover have "(if i = NULL_IDX then Inr d else try_res (seat b i) (\<lambda>n. Inr (f n))) = Inr a"
    using run by (auto simp: link_get_def asks_def try_res_def seat_nodes assms seat_link_def split: if_splits)
  ultimately show "\<exists>s'. asks (\<lambda>b. if i = NULL_IDX then Inr d else try_res (seat b i) (\<lambda>n. Inr (f n))) b = (Inr a, s') \<and>
      seat_view s' = v' \<and> rest s' = \<rho>" using r by (auto simp: asks_def)
qed

lemma seat_put_sim:
  assumes "\<And>b n. seat b i = Inr n \<Longrightarrow> seat_view (put_node i (NSeat (h n)) b) = F (seat_view b)"
    and "\<And>n. unseated (h n) = unseated n"
  shows "sims (seat_view) (seat_rest) \<rho> (if i = NULL_IDX then ret () else seat_mut i h) (link_put F i)"
proof (cases "i = NULL_IDX")
  case False
  show ?thesis
  proof (rule simsI)
    fix b a v' assume r: "seat_rest b = \<rho>" and run: "link_put F i (seat_view b) = (Inr a, v')"
    from run False have i: "i \<in> lk_nodes (seat_view b)" and v': "v' = F (seat_view b)"
      by (auto simp: link_put_def ok_iff)
    then obtain n where n: "seat b i = Inr n" by (auto simp: seat_view_def)
    show "\<exists>s'. (if i = NULL_IDX then ret () else seat_mut i h) b = (Inr a, s') \<and> seat_view s' = v' \<and> seat_rest s' = \<rho>"
      using False seat_mut_run [OF n, of h] assms(1) [OF n] seat_rest_put [OF n assms(2)] v' r by auto
  qed
qed (simp add: link_put_def sims_ret)

lemma seat_store: "rb_store seat_ops seat_view seat_rest"
proof -
  note defs = seat_ops_def link_ops_def stree_left_def stree_right_def stree_parent_def stree_color_def
    stree_set_left_def stree_set_right_def stree_set_parent_def stree_set_color_def
  show ?thesis
  proof (unfold_locales, goal_cases)
    case (1 \<rho> k)
    show ?case by (intro simsI) (auto simp: seat_ops_def gets_def seat_view_def)
  next
    case (2 \<rho> i k)
    have "seat (b\<lparr> seat_tree_root := j \<rparr>) = seat b" for b j by (simp add: seat_def fun_eq_iff)
    then show ?case
      by (intro simsI) (auto simp: seat_ops_def modify_def seat_view_def put_root_def seat_rest_def seat_link_def fun_eq_iff)
  qed (unfold defs rb_ops.simps, (rule seat_get_sim, simp add: seat_view_def | rule seat_put_sim,
      simp add: seat_view_put put_defs fun_upd_same seat_view_get, simp add: unseated_def)+)
qed

interpretation seats: rb_store seat_ops seat_view seat_rest
  by (rule seat_store)

lemma seat_rest_iff:
  assumes "seat_rest b' = seat_rest b" "seat b i = Inr n"
  obtains n' where "seat b' i = Inr n'" "unseated n' = unseated n"
proof -
  have m: "map unlink_seat (bk_nodes b') = map unlink_seat (bk_nodes b)"
    using arg_cong [OF assms(1), of bk_nodes] by (simp add: seat_rest_def)
  have i: "unat i < length (bk_nodes b)" "bk_nodes b ! unat i = NSeat n" using assms(2) by (auto simp: seat_ok)
  have l: "unat i < length (bk_nodes b')" using arg_cong [OF m, of length] i(1) by simp
  have "unlink_seat (bk_nodes b' ! unat i) = NSeat (unseated n)"
    using arg_cong [OF m, of "\<lambda>xs. xs ! unat i"] i l by simp
  then obtain n' where "bk_nodes b' ! unat i = NSeat n'" "unseated n' = unseated n"
    by (cases "bk_nodes b' ! unat i") auto
  then show thesis using that l by (auto simp: seat_ok)
qed


section \<open>The order of the seats\<close>

definition trader_at :: "book \<Rightarrow> u32 \<Rightarrow> pubkey" where
  "trader_at b = seat_link trader default_pubkey b"

lemma trader_at_seat: "seat b i = Inr s \<Longrightarrow> trader_at b i = trader s"
  by (simp add: trader_at_def seat_link_def)

lemma trader_unseated: "unseated n' = unseated n \<Longrightarrow> trader n' = trader n"
proof -
  assume u: "unseated n' = unseated n"
  have "trader (unseated m) = trader m" for m by (simp add: unseated_def)
  then show ?thesis using u by metis
qed

definition seat_tree :: "book \<Rightarrow> slot_tree \<Rightarrow> bool" where
  "seat_tree b t \<longleftrightarrow> at (seat_view b) [] t \<and> rbt t \<and> sorted (map (trader_at b) (ids t)) \<and> distinct (map (trader_at b) (ids t))"

lemma seat_tree_size: "seat_tree b t \<Longrightarrow> size t < seat_fuel b"
  using size_pool [of t "length (bk_nodes b)"] at_ids [of "seat_view b" t]
  by (auto simp: seat_tree_def seat_fuel_def seat_nodes seat_ok subset_iff less_Suc_eq_le)

lemma seat_tree_member: "seat_tree b t \<Longrightarrow> i \<in> set (ids t) \<Longrightarrow> i \<noteq> NULL_IDX \<and> (\<exists>n. seat b i = Inr n)"
  using at_ids [of "seat_view b" t] seat_nodes [of i b] by (auto simp: seat_tree_def)

lemma trader_at_rest:
  assumes "seat_rest b' = seat_rest b" "seat b i = Inr n"
  shows "trader_at b' i = trader_at b i"
proof -
  obtain n' where n': "seat b' i = Inr n'" "unseated n' = unseated n" by (rule seat_rest_iff [OF assms])
  show ?thesis using trader_at_seat [OF n'(1)] trader_at_seat [OF assms(2)] trader_unseated [OF n'(2)] by simp
qed

section \<open>Lookup\<close>

definition find_seat :: "(u32 \<Rightarrow> pubkey) \<Rightarrow> pubkey \<Rightarrow> u32 list \<Rightarrow> u32" where
  "find_seat f k is = (case find (\<lambda>i. f i = k) is of None \<Rightarrow> NULL_IDX | Some i \<Rightarrow> i)"

lemma find_seat_append:
  assumes "sorted (map f (xs @ a # ys))"
  shows "k < f a \<Longrightarrow> find_seat f k (xs @ a # ys) = find_seat f k xs"
    "f a < k \<Longrightarrow> find_seat f k (xs @ a # ys) = find_seat f k ys"
    "f a = k \<Longrightarrow> distinct (map f (xs @ a # ys)) \<Longrightarrow> find_seat f k (xs @ a # ys) = a"
proof -
  have app: "find P (us @ vs) = (case find P us of None \<Rightarrow> find P vs | Some i \<Rightarrow> Some i)" for P and us vs :: "u32 list"
    by (induction us) auto
  have le: "\<forall>y\<in>set ys. f a \<le> f y" "\<forall>x\<in>set xs. f x \<le> f a" using assms by (auto simp: sorted_append)
  show "k < f a \<Longrightarrow> find_seat f k (xs @ a # ys) = find_seat f k xs"
  proof -
    assume "k < f a"
    then have "find (\<lambda>i. f i = k) ys = None" using le(1) by (force simp: find_None_iff)
    then show ?thesis using \<open>k < f a\<close> by (auto simp: find_seat_def app split: option.split)
  qed
  show "f a < k \<Longrightarrow> find_seat f k (xs @ a # ys) = find_seat f k ys"
  proof -
    assume "f a < k"
    then have "find (\<lambda>i. f i = k) xs = None" using le(2) by (force simp: find_None_iff)
    then show ?thesis using \<open>f a < k\<close> by (auto simp: find_seat_def app)
  qed
  assume a: "f a = k" "distinct (map f (xs @ a # ys))"
  then have "k \<notin> f ` set xs" by simp
  then have "find (\<lambda>i. f i = k) xs = None" unfolding find_None_iff by blast
  then show "find_seat f k (xs @ a # ys) = a" using a(1) by (simp add: find_seat_def app)
qed

lemma find_seat_cases:
  assumes "distinct (map f xs)"
  shows "i \<in> set xs \<Longrightarrow> find_seat f (f i) xs = i" "k \<notin> f ` set xs \<Longrightarrow> find_seat f k xs = NULL_IDX"
proof -
  show "k \<notin> f ` set xs \<Longrightarrow> find_seat f k xs = NULL_IDX"
    by (cases "find (\<lambda>i. f i = k) xs") (auto simp: find_seat_def find_Some_iff)
  show "i \<in> set xs \<Longrightarrow> find_seat f (f i) xs = i"
    using assms by (induction xs) (auto simp: find_seat_def)
qed

lemma seat_find_loop_run:
  assumes "heap (seat_view b) t" "sorted (map (trader_at b) (ids t))" "distinct (map (trader_at b) (ids t))" "size t < fuel"
  shows "seat_find_loop fuel b k (root_id t) = Inr (find_seat (trader_at b) k (ids t))"
  using assms
proof (induction t arbitrary: fuel)
  case Leaf
  then show ?case by (cases fuel) (simp_all add: find_seat_def)
next
  case (Node l n r)
  obtain f where f: "fuel = Suc f" using Node.prems(4) by (cases fuel) auto
  obtain a c where n: "n = (a, c)" by (cases n)
  have a: "a \<noteq> NULL_IDX" "a \<in> lk_nodes (seat_view b)" "lk_left (seat_view b) a = root_id l" "lk_right (seat_view b) a = root_id r"
    using Node.prems(1) by (simp_all add: n)
  then obtain m where m: "seat b a = Inr m" using seat_nodes by blast
  have lr: "sn_left m = root_id l" "sn_right m = root_id r" "trader_at b a = trader m"
    using a seat_view_get [OF m] trader_at_seat [OF m] by simp_all
  have s: "sorted (map (trader_at b) (ids l @ a # ids r))" "distinct (map (trader_at b) (ids l @ a # ids r))"
    using Node.prems(2,3) by (simp_all add: n)
  have "seat_find_loop f b k (root_id l) = Inr (find_seat (trader_at b) k (ids l))"
    "seat_find_loop f b k (root_id r) = Inr (find_seat (trader_at b) k (ids r))"
    using Node.prems s by (auto simp: f sorted_append intro!: Node.IH)
  then show ?case
    using a(1) m lr find_seat_append [OF s(1), of k] s(2)
    by (auto simp: f n try_res_def cmp_of_def not_less_iff_gr_or_eq)
qed

lemma seat_find_run: "seat_tree b t \<Longrightarrow> seat_find b k = Inr (find_seat (trader_at b) k (ids t))"
  using seat_find_loop_run [of b t "seat_fuel b" k] seat_tree_size [of b t]
  by (auto simp: seat_find_def seat_tree_def at_def seat_view_def)


section \<open>Insertion of a seat\<close>

lemma asks_run: "h s = r \<Longrightarrow> asks h s = (r, s)"
  by (simp add: asks_def)

lemma cmp_seats_run:
  assumes r: "seat_rest b' = seat_rest b" and y: "seat b a = Inr y"
  shows "asks (\<lambda>b. try_res (seat b a) (\<lambda>y. Inr (cmp_of k (trader y)))) b' = (Inr (cmp_of k (trader_at b a)), b')"
proof -
  obtain y' where y': "seat b' a = Inr y'" "unseated y' = unseated y" by (rule seat_rest_iff [OF r y])
  show ?thesis using y'(1) trader_unseated [OF y'(2)] trader_at_seat [OF y] by (simp add: asks_def try_res_def)
qed

lemma put_unseated:
  assumes t: "seat_tree b t" and z: "seat b z = Inr n" "z \<noteq> NULL_IDX" "z \<notin> set (ids t)"
  defines "b1 \<equiv> put_node z (NSeat (unseated n)) b"
  shows "seat_tree b1 t" "fresh_node (seat_view b1) z" "seat_rest b1 = seat_rest b"
    "off {z} (seat_view b) (seat_view b1)" "seat b1 z = Inr (unseated n)" "seat_fuel b1 = seat_fuel b"
    "\<And>i. i \<in> set (ids t) \<Longrightarrow> seat b1 i = seat b i"
proof -
  show off: "off {z} (seat_view b) (seat_view b1)"
    by (simp add: b1_def seat_view_put [OF z(1)] off_def)
  show i: "seat b1 i = seat b i" if "i \<in> set (ids t)" for i
    using that z(3) by (auto simp: b1_def seat_put_node [OF z(1)])
  have r: "lk_root (seat_view b1) = lk_root (seat_view b)"
    by (simp add: b1_def seat_view_put [OF z(1)])
  have k: "map (trader_at b1) (ids t) = map (trader_at b) (ids t)"
    using i by (simp add: trader_at_def seat_link_def)
  show "seat_tree b1 t" using t z(3) at_off [OF _ off r] unfolding seat_tree_def k by simp
  show "seat b1 z = Inr (unseated n)" by (simp add: b1_def seat_put_node [OF z(1)])
  then show "fresh_node (seat_view b1) z"
    using z(2) by (simp add: fresh_node_def seat_nodes seat_view_get) (simp add: unseated_def)
  show "seat_rest b1 = seat_rest b"
    by (simp add: b1_def seat_rest_put [OF z(1)]) (simp add: seat_rest_put [OF z(1)] unseated_def)
  show "seat_fuel b1 = seat_fuel b" by (simp add: b1_def seat_fuel_def put_node_def)
qed

lemma stree_insert_run:
  assumes t: "seat_tree b t" and z: "z \<noteq> NULL_IDX" "seat b z = Inr n" "z \<notin> set (ids t)"
    and new: "trader n \<notin> trader_at b ` set (ids t)"
  shows "\<exists>b' t'. stree_insert z b = (Inr (), b') \<and> seat_tree b' t' \<and>
    ids t' = place_in (trader_at b) (trader n) z (ids t) \<and> seat_rest b' = seat_rest b \<and>
    off (insert z (set (ids t))) (seat_view b) (seat_view b')"
proof -
  let ?b = "put_node z (NSeat (unseated n)) b" and ?k = "trader n"
  let ?cmp = "\<lambda>r. asks (\<lambda>b. try_res (seat b r) (\<lambda>y. Inr (cmp_of (trader (unseated n)) (trader y))))"
  let ?ord = "\<lambda>a. cmp_of ?k (trader_at b a)" and ?t' = "tree_insert (\<lambda>a. cmp_of ?k (trader_at b a)) z t"
  note u = put_unseated [OF t z(2,1,3)]
  have mem: "\<exists>m. seat ?b a = Inr m \<and> trader_at b a = trader m" if a: "a \<in> set (ids t)" for a
    using seat_tree_member [OF u(1) a] u(7) [OF a] by (auto simp: trader_at_seat)
  have ku: "trader (unseated n) = ?k" by (simp add: unseated_def)
  have cmp: "?cmp a b' = (Inr (?ord a), b')" if a: "a \<in> set (ids t)" "seat_rest b' = seat_rest ?b" for a b'
    using mem [OF a(1)] cmp_seats_run [OF a(2), of a _ ?k] trader_at_seat [of ?b a] by (auto simp: ku)
  have st: "at (seat_view ?b) [] t" "rbt t" "size t < seat_fuel ?b"
    using u(1) seat_tree_size [OF u(1)] by (simp_all add: seat_tree_def)
  have ne: "\<forall>a\<in>set (ids t). ?ord a \<noteq> Equal" using new by (auto simp: cmp_of_def)
  from rb_store.insertion [OF seat_store st(1,2) u(2) z(3), of ?cmp ?ord "Some AlreadyInitialized"] cmp st(3) ne
  obtain b' where b': "rb_link seat_ops ?cmp (Some AlreadyInitialized) (seat_fuel ?b) z ?b = (Inr (), b')"
    "seat_rest b' = seat_rest ?b" "at (seat_view b') [] ?t'"
    "off (insert z (set (ids t))) (seat_view ?b) (seat_view b')"
    by blast
  have run: "stree_insert z b = (Inr (), b')"
  proof -
    have f: "(\<lambda>n. n\<lparr> sn_left := NULL_IDX, sn_right := NULL_IDX, sn_parent := NULL_IDX, sn_color := RB_RED \<rparr>) = unseated"
      by (simp add: unseated_def fun_eq_iff)
    show ?thesis unfolding stree_insert_def f
      using z(1) seat_mut_run [OF z(2), of unseated] u(5) b'(1)
      by (simp add: seq_def bnd_def require_def ret_def asks_run gets_def)
  qed
  have so: "sorted (map (trader_at b) (ids t))" "distinct (map (trader_at b) (ids t))" using t by (simp_all add: seat_tree_def)
  have ids: "ids ?t' = place_in (trader_at b) ?k z (ids t)"
    using ids_tree_insert [of ?ord t z] sorted_splits [OF so(1)] by (simp add: place_in_def not_less)
  have key: "trader_at b' a = trader_at b a" if a: "a \<in> set (ids t)" for a
  proof -
    obtain m where m: "seat ?b a = Inr m" "trader_at b a = trader m" using mem [OF a] by blast
    obtain m' where "seat b' a = Inr m'" "unseated m' = unseated m" by (rule seat_rest_iff [OF b'(2) m(1)])
    then show ?thesis using m(2) trader_unseated [of m' m] by (simp add: trader_at_seat)
  qed
  obtain n' where n': "seat b' z = Inr n'" "unseated n' = unseated (unseated n)" by (rule seat_rest_iff [OF b'(2) u(5)])
  have keyz: "trader_at b' z = ?k" using n'(1) trader_unseated [OF n'(2)] ku by (simp add: trader_at_seat)
  have map: "map (trader_at b') (ids ?t') = map (trader_at b) (takeWhile (\<lambda>a. trader_at b a \<le> ?k) (ids t)) @
      ?k # map (trader_at b) (dropWhile (\<lambda>a. trader_at b a \<le> ?k) (ids t))"
    using key keyz by (auto simp: ids place_in_def dest: set_takeWhileD set_dropWhileD)
  have "distinct (map (trader_at b) (takeWhile (\<lambda>a. trader_at b a \<le> ?k) (ids t)) @
      map (trader_at b) (dropWhile (\<lambda>a. trader_at b a \<le> ?k) (ids t)))"
    using so(2) by (simp flip: map_append)
  then have "distinct (map (trader_at b') (ids ?t'))"
    using new unfolding map by (auto dest: set_takeWhileD set_dropWhileD)
  then have "seat_tree b' ?t'"
    using b'(3) rbt_tree_insert [OF st(2)] sorted_insertion [OF so(1)] map by (simp add: seat_tree_def)
  moreover have "off (insert z (set (ids t))) (seat_view b) (seat_view b')"
    using off_trans [OF off_mono [OF u(4)] b'(4)] by simp
  ultimately show ?thesis using run ids b'(2) u(3) by metis
qed

end
