(* ===== verification/Rb_Delete.thy ===== *)
theory Rb_Delete
  imports Rb_Refine
begin

text \<open>
  The removal of \<open>Rb_Tree\<close> over the links. The node is spliced out, or its successor takes its
  place; then the subtree below the path \<open>C\<close> may lack one black (\<open>deficit\<close>), and the repair loop
  either moves the lack up or ends it by rotations. The result holds the same slots in the same
  order without the one removed, and is red-black again.
\<close>

section \<open>A missing black\<close>

definition deficit :: "frame list \<Rightarrow> slot_tree \<Rightarrow> bool" where
  "deficit C x \<longleftrightarrow> path_invh C (Suc (bheight x)) \<and> invh x \<and> invc (paint Black x) \<and> path_invc C Black \<and>
     path_root C Black = Black"

lemma bheight_paint: "bheight (paint Black t) = (if color_of t = Red then Suc (bheight t) else bheight t)"
  by (cases t) (auto, (metis color.exhaust))

lemma paint_black_id: "color_of t = Black \<Longrightarrow> paint Black t = t"
  by (cases t) (auto simp: prod_eq_iff)

lemma rbt_plug: "rbt (plug C t) \<longleftrightarrow> path_invc C (color_of t) \<and> invc t \<and> path_invh C (bheight t) \<and> invh t \<and>
    path_root C (color_of t) = Black"
  by (auto simp: rbt_def invc_plug invh_plug color_of_plug)

lemma deficit_red: "deficit C x \<Longrightarrow> color_of x = Red \<Longrightarrow> rbt (plug C (paint Black x))"
  by (simp add: rbt_plug deficit_def bheight_paint)

lemma deficit_whole: "deficit [] x \<Longrightarrow> rbt (paint Black x)"
  by (simp add: rbt_def deficit_def)

text \<open>Taking out a node with at most one child.\<close>

lemma splice_inv:
  assumes "rbt (plug C (Node l n r))" "(l = Leaf \<and> x = r) \<or> (r = Leaf \<and> x = l)"
  shows "snd n = Black \<Longrightarrow> deficit C x" "snd n = Red \<Longrightarrow> rbt (plug C x)"
proof -
  assume n: "snd n = Black"
  have "bheight x = bheight l" using assms by (auto simp: rbt_plug)
  then show "deficit C x" using assms n by (auto simp: rbt_plug deficit_def)
next
  assume n: "snd n = Red"
  have "path_root C Black = Black" using assms(1) n by (cases C) (auto simp: rbt_plug)
  moreover have "color_of x = Black" "bheight x = bheight l" using assms n by (auto simp: rbt_plug)
  ultimately show "rbt (plug C x)" using assms n path_invc_black by (auto simp: rbt_plug)
qed

section \<open>The repair step, written once for both sides\<close>

definition near_op :: "bool \<Rightarrow> 's rb_ops \<Rightarrow> u32 \<Rightarrow> ('s, u32) prog" where
  "near_op d t = (if d then op_left t else op_right t)"

definition rotate_to :: "bool \<Rightarrow> 's rb_ops \<Rightarrow> u32 \<Rightarrow> ('s, unit) prog" where
  "rotate_to d = (if d then rb_rotate_left else rb_rotate_right)"

definition repair_end :: "bool \<Rightarrow> 's rb_ops \<Rightarrow> u32 \<Rightarrow> u32 \<Rightarrow> ('s, (u32 \<times> u32) option) prog" where
  "repair_end d t p w = bnd (op_color t p) (\<lambda>pc. seq (op_set_color t w pc) (seq (op_set_color t p RB_BLACK)
     (bnd (near_op (\<not> d) t w) (\<lambda>e. seq (op_set_color t e RB_BLACK) (seq (rotate_to d t p) (ret None))))))"

definition repair_black :: "bool \<Rightarrow> 's rb_ops \<Rightarrow> u32 \<Rightarrow> u32 \<Rightarrow> ('s, (u32 \<times> u32) option) prog" where
  "repair_black d t p w =
     bnd (near_op d t w) (\<lambda>n. bnd (op_color t n) (\<lambda>nc. bnd (near_op (\<not> d) t w) (\<lambda>f. bnd (op_color t f) (\<lambda>fc.
     if nc = RB_BLACK \<and> fc = RB_BLACK then
       seq (op_set_color t w RB_RED) (bnd (op_parent t p) (\<lambda>pp. ret (Some (p, pp))))
     else
       bnd (if fc = RB_BLACK then
              bnd (near_op d t w) (\<lambda>n. seq (op_set_color t n RB_BLACK) (seq (op_set_color t w RB_RED)
                (seq (rotate_to (\<not> d) t w) (near_op (\<not> d) t p))))
            else ret w) (\<lambda>w. repair_end d t p w)))))"

definition repair_step :: "bool \<Rightarrow> 's rb_ops \<Rightarrow> u32 \<Rightarrow> ('s, (u32 \<times> u32) option) prog" where
  "repair_step d t p =
     bnd (near_op (\<not> d) t p) (\<lambda>w. bnd (op_color t w) (\<lambda>wc.
     bnd (if wc = RB_RED then
            seq (op_set_color t w RB_BLACK) (seq (op_set_color t p RB_RED)
              (seq (rotate_to d t p) (near_op (\<not> d) t p)))
          else ret w) (\<lambda>w. repair_black d t p w)))"

lemma repair_step_left: "rb_remove_step_left t p = repair_step True t p"
  unfolding rb_remove_step_left_def repair_step_def  repair_black_def repair_end_def near_op_def rotate_to_def by simp

lemma repair_step_right: "rb_remove_step_right t p = repair_step False t p"
  unfolding rb_remove_step_right_def repair_step_def  repair_black_def repair_end_def near_op_def rotate_to_def by simp

lemma rotate_to_run:
  assumes "in_tree w D v C (fill (d, p, fill (d, q, E) B) A)"
  shows "\<exists>v'. rotate_to d (link_ops k) (fst p) v = (Inr (), v') \<and> in_tree w D v' C (fill (d, q, E) (fill (d, p, B) A))"
  using assms rotate_left_run [of w D v C A p B q E k] rotate_right_run [of w D v C E q B p A k]
  by (cases d) (simp_all add: rotate_to_def)

lemma near_run:
  assumes "in_tree w D v C (fill (d, n, s) t)"
  shows "near_op d (link_ops k) (fst n) v = (Inr (root_id t), v)" "near_op (\<not> d) (link_ops k) (fst n) v = (Inr (root_id s), v)"
  using in_tree_frame [of w D v d n s C t] assms by (cases d; simp add: near_op_def in_tree_fill)+

lemma as_fill: "t \<noteq> Leaf \<Longrightarrow> \<exists>n s u. t = fill (d, n, s) u"
proof -
  assume "t \<noteq> Leaf"
  then obtain l n r where t: "t = Node l n r" by (cases t) auto
  have "t = fill (d, n, if d then r else l) (if d then l else r)" by (cases d) (simp_all add: t)
  then show ?thesis by blast
qed

lemma own_color_run:
  "in_tree w D v C (fill (d, n, s) t) \<Longrightarrow> op_color (link_ops k) (fst n) v = (Inr (color_code (snd n)), v)"
  using in_tree_color [of w D v C "fill (d, n, s) t" k] by simp

lemma own_paint_run:
  "in_tree w D v C (fill (d, n, s) t) \<Longrightarrow>
    \<exists>v'. op_set_color (link_ops k) (fst n) (color_code c) v = (Inr (), v') \<and> in_tree w D v' C (fill (d, (fst n, c), s) t)"
  using paint_run [of w D v C "fill (d, n, s) t" k c] by simp


section \<open>Running the repair\<close>

text \<open>The last phase: the far child of the sibling is red; one rotation supplies the black.\<close>

lemma repair_end_run:
  assumes i: "in_tree w D v C (fill (d, (p, pc), fill (d, (q, qc), E) B) x)" and E: "E \<noteq> Leaf"
  shows "\<exists>v'. repair_end d (link_ops k) p q v = (Inr None, v') \<and>
    in_tree w D v' C (fill (d, (q, pc), paint Black E) (fill (d, (p, Black), B) x))"
proof -
  let ?C = "(\<not> d, (p, pc), x) # C"
  have iq: "in_tree w D v ?C (fill (d, (q, qc), E) B)"
    using i by (simp add: in_tree_fill fill_flip [of d "(p, pc)"])
  have pc: "op_color (link_ops k) p v = (Inr (color_code pc), v)" using own_color_run [OF i, of k] by simp
  obtain v1 where v1: "op_set_color (link_ops k) q (color_code pc) v = (Inr (), v1)"
    "in_tree w D v1 ?C (fill (d, (q, pc), E) B)" using own_paint_run [OF iq, of k pc] by auto
  then have "in_tree w D v1 C (fill (d, (p, pc), fill (d, (q, pc), E) B) x)"
    by (simp add: in_tree_fill fill_flip [of d "(p, pc)"])
  from own_paint_run [OF this, of k Black] obtain v2 where v2: "op_set_color (link_ops k) p RB_BLACK v1 = (Inr (), v2)"
    "in_tree w D v2 C (fill (d, (p, Black), fill (d, (q, pc), E) B) x)" by auto
  then have i2: "in_tree w D v2 ((\<not> d, (p, Black), x) # C) (fill (d, (q, pc), E) B)"
    by (simp add: in_tree_fill fill_flip [of d "(p, Black)"])
  then have "in_tree w D v2 ((\<not> d, (q, pc), B) # (\<not> d, (p, Black), x) # C) E"
    by (simp add: in_tree_fill fill_flip [of d "(q, pc)"])
  from blacken_run [OF this E, of k] obtain v3 where v3: "op_set_color (link_ops k) (root_id E) RB_BLACK v2 = (Inr (), v3)"
    "in_tree w D v3 ((\<not> d, (q, pc), B) # (\<not> d, (p, Black), x) # C) (paint Black E)" by auto
  then have "in_tree w D v3 C (fill (d, (p, Black), fill (d, (q, pc), paint Black E) B) x)"
    by (simp add: in_tree_fill fill_flip [of d])
  from rotate_to_run [OF this, of k] obtain v4 where v4: "rotate_to d (link_ops k) p v3 = (Inr (), v4)"
    "in_tree w D v4 C (fill (d, (q, pc), paint Black E) (fill (d, (p, Black), B) x))" by auto
  have "repair_end d (link_ops k) p q v = (Inr None, v4)"
    using pc v1(1) v2(1) v3(1) v4(1) near_run(2) [OF i2, of k] by (simp add: repair_end_def bnd_def seq_def ret_def)
  with v4(2) show ?thesis by blast
qed

lemma other_black [simp]: "c \<noteq> Red \<longleftrightarrow> c = Black" "c \<noteq> Black \<longleftrightarrow> c = Red"
  by (cases c; simp)+

lemma repair_black_both:
  assumes i: "in_tree w D v C (fill (d, (p, pc), fill (d, (q, qc), E) B) x)" and b: "color_of B = Black" "color_of E = Black"
  shows "\<exists>v'. repair_black d (link_ops k) p q v = (Inr (Some (p, parent_id C)), v') \<and>
    in_tree w D v' C (fill (d, (p, pc), fill (d, (q, Red), E) B) x)"
proof -
  have iq: "in_tree w D v ((\<not> d, (p, pc), x) # C) (fill (d, (q, qc), E) B)"
    using i by (simp add: in_tree_fill fill_flip [of d "(p, pc)"])
  have iE: "in_tree w D v ((\<not> d, (q, qc), B) # (\<not> d, (p, pc), x) # C) E"
    using iq by (simp add: in_tree_fill fill_flip [of d "(q, qc)"])
  have iB: "in_tree w D v ((d, (q, qc), E) # (\<not> d, (p, pc), x) # C) B" using iq by (simp add: in_tree_fill)
  obtain v1 where v1: "op_set_color (link_ops k) q RB_RED v = (Inr (), v1)"
    "in_tree w D v1 ((\<not> d, (p, pc), x) # C) (fill (d, (q, Red), E) B)" using own_paint_run [OF iq, of k Red] by auto
  then have i1: "in_tree w D v1 C (fill (d, (p, pc), fill (d, (q, Red), E) B) x)"
    by (simp add: in_tree_fill fill_flip [of d "(p, pc)"])
  then have "in_tree w D v1 ((d, (p, pc), fill (d, (q, Red), E) B) # C) x" by (simp add: in_tree_fill)
  from in_tree_frame [OF this] have "op_parent (link_ops k) p v1 = (Inr (parent_id C), v1)" by simp
  then have "repair_black d (link_ops k) p q v = (Inr (Some (p, parent_id C)), v1)"
    using near_run [OF iq, of k] in_tree_color [OF iE, of k] in_tree_color [OF iB, of k] b v1(1)
    by (simp add: repair_black_def bnd_def seq_def ret_def)
  with i1 show ?thesis by blast
qed

lemma repair_black_far:
  assumes i: "in_tree w D v C (fill (d, (p, pc), fill (d, (q, qc), E) B) x)" and b: "color_of E = Red"
  shows "\<exists>v'. repair_black d (link_ops k) p q v = (Inr None, v') \<and>
    in_tree w D v' C (fill (d, (q, pc), paint Black E) (fill (d, (p, Black), B) x))"
proof -
  have iq: "in_tree w D v ((\<not> d, (p, pc), x) # C) (fill (d, (q, qc), E) B)"
    using i by (simp add: in_tree_fill fill_flip [of d "(p, pc)"])
  have iE: "in_tree w D v ((\<not> d, (q, qc), B) # (\<not> d, (p, pc), x) # C) E"
    using iq by (simp add: in_tree_fill fill_flip [of d "(q, qc)"])
  have iB: "in_tree w D v ((d, (q, qc), E) # (\<not> d, (p, pc), x) # C) B" using iq by (simp add: in_tree_fill)
  have "E \<noteq> Leaf" using b by auto
  from repair_end_run [OF i this, of k] show ?thesis
    using near_run [OF iq, of k] in_tree_color [OF iE, of k] in_tree_color [OF iB, of k] b
    by (simp add: repair_black_def bnd_def ret_def)
qed

lemma repair_black_near:
  assumes i: "in_tree w D v C (fill (d, (p, pc), fill (d, (q, qc), E) (fill (d, (r, Red), B2) B1)) x)"
    and b: "color_of E = Black"
  shows "\<exists>v'. repair_black d (link_ops k) p q v = (Inr None, v') \<and>
    in_tree w D v' C (fill (d, (r, pc), fill (d, (q, Black), E) B2) (fill (d, (p, Black), B1) x))"
proof -
  let ?B = "fill (d, (r, Red), B2) B1" and ?B' = "fill (d, (r, Black), B2) B1"
  let ?C = "(\<not> d, (p, pc), x) # C"
  have iq: "in_tree w D v ?C (fill (d, (q, qc), E) ?B)"
    using i by (simp add: in_tree_fill fill_flip [of d "(p, pc)"])
  have iE: "in_tree w D v ((\<not> d, (q, qc), ?B) # ?C) E"
    using iq by (simp add: in_tree_fill fill_flip [of d "(q, qc)"])
  have iB: "in_tree w D v ((d, (q, qc), E) # ?C) ?B" using iq by (simp add: in_tree_fill)
  obtain v1 where v1: "op_set_color (link_ops k) r RB_BLACK v = (Inr (), v1)" "in_tree w D v1 ((d, (q, qc), E) # ?C) ?B'"
    using own_paint_run [OF iB, of k Black] by auto
  then have "in_tree w D v1 ?C (fill (d, (q, qc), E) ?B')" by (simp add: in_tree_fill)
  from own_paint_run [OF this, of k Red] obtain v2 where v2: "op_set_color (link_ops k) q RB_RED v1 = (Inr (), v2)"
    "in_tree w D v2 ?C (fill (d, (q, Red), E) ?B')" by auto
  then have "in_tree w D v2 ?C (fill (\<not> d, (q, Red), fill (\<not> d, (r, Black), B1) B2) E)"
    by (simp add: fill_flip [of d])
  from rotate_to_run [OF this, of k] obtain v3 where v3: "rotate_to (\<not> d) (link_ops k) q v2 = (Inr (), v3)"
    "in_tree w D v3 ?C (fill (\<not> d, (r, Black), B1) (fill (\<not> d, (q, Red), B2) E))" by auto
  then have i3: "in_tree w D v3 C (fill (d, (p, pc), fill (d, (r, Black), fill (d, (q, Red), E) B2) B1) x)"
    by (simp add: in_tree_fill fill_flip [of d])
  have far: "near_op (\<not> d) (link_ops k) p v3 = (Inr r, v3)" using near_run(2) [OF i3, of k] by simp
  from repair_end_run [OF i3, of k] obtain v4 where v4: "repair_end d (link_ops k) p r v3 = (Inr None, v4)"
    "in_tree w D v4 C (fill (d, (r, pc), fill (d, (q, Black), E) B2) (fill (d, (p, Black), B1) x))" by auto
  have "repair_black d (link_ops k) p q v = (Inr None, v4)"
    using near_run [OF iq, of k] in_tree_color [OF iE, of k] own_color_run [OF iB, of k] b v1(1) v2(1) v3(1) v4(1) far
    by (simp add: repair_black_def bnd_def seq_def ret_def)
  with v4(2) show ?thesis by blast
qed

text \<open>A red sibling: one rotation gives a black one, below a red parent.\<close>

lemma repair_red_run:
  assumes i: "in_tree w D v C (fill (d, (p, pc), fill (d, (q, Red), E) B) x)"
  shows "\<exists>v'. repair_step d (link_ops k) p v = repair_black d (link_ops k) p (root_id B) v' \<and>
    in_tree w D v' ((d, (q, Black), E) # C) (fill (d, (p, Red), B) x)"
proof -
  have iq: "in_tree w D v ((\<not> d, (p, pc), x) # C) (fill (d, (q, Red), E) B)"
    using i by (simp add: in_tree_fill fill_flip [of d "(p, pc)"])
  obtain v1 where v1: "op_set_color (link_ops k) q RB_BLACK v = (Inr (), v1)"
    "in_tree w D v1 ((\<not> d, (p, pc), x) # C) (fill (d, (q, Black), E) B)" using own_paint_run [OF iq, of k Black] by auto
  then have "in_tree w D v1 C (fill (d, (p, pc), fill (d, (q, Black), E) B) x)"
    by (simp add: in_tree_fill fill_flip [of d "(p, pc)"])
  from own_paint_run [OF this, of k Red] obtain v2 where v2: "op_set_color (link_ops k) p RB_RED v1 = (Inr (), v2)"
    "in_tree w D v2 C (fill (d, (p, Red), fill (d, (q, Black), E) B) x)" by auto
  from rotate_to_run [OF v2(2), of k] obtain v3 where v3: "rotate_to d (link_ops k) p v2 = (Inr (), v3)"
    "in_tree w D v3 C (fill (d, (q, Black), E) (fill (d, (p, Red), B) x))" by auto
  then have i3: "in_tree w D v3 ((d, (q, Black), E) # C) (fill (d, (p, Red), B) x)" by (simp add: in_tree_fill)
  have "repair_step d (link_ops k) p v = repair_black d (link_ops k) p (root_id B) v3"
    using near_run(2) [OF i, of k] own_color_run [OF iq, of k] v1(1) v2(1) v3(1) near_run(2) [OF i3, of k]
    by (simp add: repair_step_def bnd_def seq_def ret_def)
  with i3 show ?thesis by blast
qed

lemma repair_black_start:
  assumes i: "in_tree w D v C (fill (d, (p, pc), fill (d, (q, Black), E) B) x)"
  shows "repair_step d (link_ops k) p v = repair_black d (link_ops k) p q v"
proof -
  have iq: "in_tree w D v ((\<not> d, (p, pc), x) # C) (fill (d, (q, Black), E) B)"
    using i by (simp add: in_tree_fill fill_flip [of d "(p, pc)"])
  show ?thesis using near_run(2) [OF i, of k] own_color_run [OF iq, of k] by (simp add: repair_step_def bnd_def ret_def)
qed


section \<open>What the repair keeps\<close>

lemma invc_black_fill: "invc (fill (d, (q, Black), E) B) \<longleftrightarrow> invc E \<and> invc B"
  by (cases d) auto

lemma invc_paint_red: "color_of E = Black \<Longrightarrow> color_of B = Black \<Longrightarrow> invc (fill (d, (q, Red), E) B) \<longleftrightarrow> invc E \<and> invc B"
  by (cases d) auto

lemmas shape_simps = invc_black_fill invc_fill invh_fill bheight_fill bheight_paint

lemma deficit_sibling:
  assumes "deficit ((d, (p, pc), W) # C) x"
  shows "W \<noteq> Leaf" "bheight W = Suc (bheight x)" "invh W" "invc W" "pc = Red \<Longrightarrow> color_of W = Black"
    "path_invh C (Suc (bheight x) + (if pc = Black then 1 else 0))" "path_invc C pc" "path_invc C Black"
    "path_root C pc = Black" "path_root C Black = Black"
proof -
  show "path_invc C Black" using assms path_invc_black by (auto simp: deficit_def)
  show "path_root C Black = Black" using assms by (cases C) (auto simp: deficit_def)
qed (use assms in \<open>auto simp: deficit_def\<close>)

lemma deficit_both:
  assumes "deficit ((d, (p, pc), fill (d, (q, Black), E) B) # C) x" "color_of x = Black" "color_of B = Black" "color_of E = Black"
  shows "deficit C (fill (d, (p, pc), fill (d, (q, Red), E) B) x)"
  using deficit_sibling [OF assms(1)] assms
  by (cases pc) (auto simp: deficit_def shape_simps paint_black_id)

lemma deficit_far:
  assumes "deficit ((d, (p, pc), fill (d, (q, Black), E) B) # C) x" "color_of x = Black" "color_of E = Red"
  shows "rbt (plug C (fill (d, (q, pc), paint Black E) (fill (d, (p, Black), B) x)))"
  using deficit_sibling [OF assms(1)] assms
  by (cases pc) (auto simp: rbt_plug deficit_def shape_simps paint_black_id)

lemma deficit_near:
  assumes "deficit ((d, (p, pc), fill (d, (q, Black), E) (fill (d, (r, Red), B2) B1)) # C) x" "color_of x = Black" "color_of E = Black"
  shows "rbt (plug C (fill (d, (r, pc), fill (d, (q, Black), E) B2) (fill (d, (p, Black), B1) x)))"
  using deficit_sibling [OF assms(1)] assms
  by (cases pc) (auto simp: rbt_plug deficit_def shape_simps paint_black_id)

lemma deficit_red_sibling:
  assumes "deficit ((d, (p, pc), fill (d, (q, Red), E) B) # C) x" "color_of x = Black"
  shows "deficit ((d, (p, Red), B) # (d, (q, Black), E) # C) x" "color_of B = Black"
  using deficit_sibling [OF assms(1)] assms
  by (cases pc; auto simp: deficit_def shape_simps)+

lemma ids_fill_both: "ids (fill (d, n, fill (d, m, E) B) x) = (if d then ids x @ fst n # ids B @ fst m # ids E else ids E @ fst m # ids B @ fst n # ids x)"
  by (cases d) simp_all

text \<open>\<open>repairs w D P r is\<close>: the run \<open>r\<close> of a step ends the repair, or passes on one at a place with \<open>P\<close>.\<close>

definition repairs :: "links \<Rightarrow> u32 set \<Rightarrow> (frame list \<Rightarrow> slot_tree \<Rightarrow> bool) \<Rightarrow>
    (u32 \<times> u32) option result \<times> links \<Rightarrow> u32 list \<Rightarrow> bool" where
  "repairs w D P r is \<longleftrightarrow>
     (\<exists>v' t. r = (Inr None, v') \<and> in_tree w D v' [] t \<and> rbt t \<and> ids t = is) \<or>
     (\<exists>v' C' x. r = (Inr (Some (root_id x, parent_id C')), v') \<and> in_tree w D v' C' x \<and> deficit C' x \<and>
        ids (plug C' x) = is \<and> P C' x)"

lemma repairs_mono: "repairs w D P r is \<Longrightarrow> (\<And>C x. P C x \<Longrightarrow> Q C x) \<Longrightarrow> repairs w D Q r is"
  unfolding repairs_def by blast

lemma repairs_done:
  "r = (Inr None, v') \<Longrightarrow> in_tree w D v' C t \<Longrightarrow> rbt (plug C t) \<Longrightarrow> ids (plug C t) = is \<Longrightarrow> repairs w D P r is"
  unfolding repairs_def using in_tree_whole by blast

lemma repair_black_step:
  assumes i: "in_tree w D v ((d, (p, pc), fill (d, (q, Black), E) B) # C) x"
    and df: "deficit ((d, (p, pc), fill (d, (q, Black), E) B) # C) x" "color_of x = Black"
  shows "repairs w D (\<lambda>C' x. C' = C \<and> color_of x = pc) (repair_black d (link_ops k) p q v)
    (ids (plug ((d, (p, pc), fill (d, (q, Black), E) B) # C) x))"
proof -
  have i': "in_tree w D v C (fill (d, (p, pc), fill (d, (q, Black), E) B) x)" using i by (simp add: in_tree_fill)
  consider "color_of E = Red" | "color_of E = Black" "color_of B = Black" | "color_of E = Black" "color_of B = Red"
    by (cases "color_of E"; cases "color_of B") auto
  then show ?thesis
  proof cases
    case 1
    then obtain v' where "repair_black d (link_ops k) p q v = (Inr None, v')"
      "in_tree w D v' C (fill (d, (q, pc), paint Black E) (fill (d, (p, Black), B) x))"
      using repair_black_far [OF i', of k] by blast
    from repairs_done [OF this deficit_far [OF df 1]] show ?thesis by (simp add: ids_plug ids_fill)
  next
    case 2
    let ?x = "fill (d, (p, pc), fill (d, (q, Red), E) B) x"
    obtain v' where "repair_black d (link_ops k) p q v = (Inr (Some (p, parent_id C)), v')" "in_tree w D v' C ?x"
      using repair_black_both [OF i' 2(2,1), of k] by blast
    then show ?thesis using deficit_both [OF df 2(2,1)] unfolding repairs_def
      by (intro disjI2 exI [of _ v'] exI [of _ C] exI [of _ ?x] conjI) (simp_all add: ids_plug ids_fill)
  next
    case 3
    then obtain n s u where B0: "B = fill (d, n, s) u" using as_fill [of B d] by (cases B) auto
    then obtain r where B: "B = fill (d, (r, Red), s) u" using 3(2) by (cases n) auto
    obtain v' where "repair_black d (link_ops k) p q v = (Inr None, v')"
      "in_tree w D v' C (fill (d, (r, pc), fill (d, (q, Black), E) s) (fill (d, (p, Black), u) x))"
      using repair_black_near [OF i' [unfolded B] 3(1), of k] by blast
    from repairs_done [OF this deficit_near [OF df(1) [unfolded B] df(2) 3(1)]] show ?thesis
      by (simp add: ids_plug ids_fill B)
  qed
qed


lemma repair_step_run:
  assumes i: "in_tree w D v ((d, (p, pc), W) # C) x" and df: "deficit ((d, (p, pc), W) # C) x" "color_of x = Black"
  shows "repairs w D (\<lambda>C' x. C' = C \<or> color_of x = Red) (repair_step d (link_ops k) p v) (ids (plug ((d, (p, pc), W) # C) x))"
proof -
  note s = deficit_sibling [OF df(1)]
  obtain n E B where W: "W = fill (d, n, E) B" using as_fill [OF s(1), of d] by auto
  obtain q qc where n: "n = (q, qc)" by (cases n)
  show ?thesis
  proof (cases qc)
    case Black
    have "in_tree w D v C (fill (d, (p, pc), fill (d, (q, Black), E) B) x)"
      using i by (simp add: in_tree_fill W n Black)
    from repair_black_start [OF this, of k] repair_black_step [OF i [unfolded W n Black] df [unfolded W n Black], of k]
    show ?thesis by (auto simp: W n Black elim: repairs_mono)
  next
    case Red
    have "in_tree w D v C (fill (d, (p, pc), fill (d, (q, Red), E) B) x)" using i by (simp add: in_tree_fill W n Red)
    from repair_red_run [OF this, of k] obtain v' where
      st: "repair_step d (link_ops k) p v = repair_black d (link_ops k) p (root_id B) v'"
      and i': "in_tree w D v' ((d, (q, Black), E) # C) (fill (d, (p, Red), B) x)" by blast
    note dr = deficit_red_sibling [OF df(1) [unfolded W n Red] df(2)]
    have "B \<noteq> Leaf" using deficit_sibling(1) [OF dr(1)] .
    then obtain m F G where "B = fill (d, m, F) G" using as_fill [of B d] by auto
    then obtain r where B: "B = fill (d, (r, Black), F) G" using dr(2) by (cases m) auto
    have "in_tree w D v' ((d, (p, Red), B) # (d, (q, Black), E) # C) x" using i' by (simp add: in_tree_fill)
    from repair_black_step [OF this [unfolded B] dr(1) [unfolded B] df(2), of k]
    moreover have "repair_step d (link_ops k) p v = repair_black d (link_ops k) p r v'" using st by (simp add: B)
    moreover have "ids (plug ((d, (p, Red), fill (d, (r, Black), F) G) # (d, (q, Black), E) # C) x) = ids (plug ((d, (p, pc), W) # C) x)"
      by (cases d) (simp_all add: B W n Red ids_plug)
    ultimately show ?thesis by (auto elim: repairs_mono)
  qed
qed


section \<open>The repair loop\<close>

lemma root_id_whole:
  assumes i: "in_tree w D v C x"
  shows "root_id x = lk_root v \<longleftrightarrow> C = []"
proof (cases C)
  case Nil
  then show ?thesis using in_tree_root [OF i] by simp
next
  case (Cons f C')
  have "root_id (plug C x) \<noteq> root_id x"
  proof (cases "x = Leaf")
    case True
    then have "plug C x \<noteq> Leaf" using Cons by simp
    moreover have "heap v (plug C x)" using i in_tree_whole [of w D v C x] by (simp add: in_tree_def at_def)
    ultimately show ?thesis using True heap_root_NULL by force
  next
    case False
    have at: "at v [] (plug C x)" using i in_tree_whole [of w D v C x] by (simp add: in_tree_def)
    have "parent_id C \<noteq> NULL_IDX" using i parent_NULL [of v C] Cons by (auto simp: in_tree_def at_def)
    moreover have "lk_parent v (root_id (plug C x)) = NULL_IDX" using at False by (auto simp: at_def hangs_def)
    moreover have "lk_parent v (root_id x) = parent_id C" using i False by (auto simp: in_tree_def at_def hangs_def)
    ultimately show ?thesis by auto
  qed
  then show ?thesis using in_tree_root [OF i] Cons by auto
qed

lemma remove_loop_run:
  assumes "in_tree w D v C x" "deficit C x" "color_of x = Red \<and> 0 < fuel \<or> Suc (length C) < fuel"
  shows "\<exists>v' C' t. rb_remove_loop (link_ops k) fuel (root_id x) (parent_id C) v = (Inr (root_id t), v') \<and>
    in_tree w D v' C' t \<and> rbt (plug C' (paint Black t)) \<and> ids (plug C' t) = ids (plug C x)"
  using assms
proof (induction fuel arbitrary: v C x)
  case (Suc fuel)
  note i = Suc.prems(1)
  have here: ?case if "rbt (plug C (paint Black x))" "C = [] \<or> color_of x = Red"
  proof -
    have "rb_remove_loop (link_ops k) (Suc fuel) (root_id x) (parent_id C) v = (Inr (root_id x), v)"
      using root_id_whole [OF i] in_tree_color [OF i, of k] that(2) by (auto simp: bnd_def ret_def)
    then show ?thesis using i that(1) by blast
  qed
  consider "C = []" | "color_of x = Red" | d p pc W C' where "C = (d, (p, pc), W) # C'" "color_of x = Black"
    by (cases C; cases "color_of x") auto
  then show ?case
  proof cases
    case 1
    then show ?thesis using here deficit_whole [of x] Suc.prems(2) by simp
  next
    case 2
    then show ?thesis using here deficit_red [OF Suc.prems(2)] by simp
  next
    case 3
    note i' = i [unfolded 3(1)] and df = Suc.prems(2) [unfolded 3(1)]
    have sib: "root_id W \<noteq> root_id x"
      using in_tree_siblings [OF i' [unfolded in_tree_flip [of w D v d]] deficit_sibling(1) [OF df]] by auto
    have step: "(if root_id x = lk_left v p then rb_remove_step_left (link_ops k) p v else rb_remove_step_right (link_ops k) p v) =
        repair_step d (link_ops k) p v"
      using in_tree_frame [OF i'] sib by (cases d) (auto simp: repair_step_left repair_step_right)
    have run: "rb_remove_loop (link_ops k) (Suc fuel) (root_id x) (parent_id C) v =
        (case repair_step d (link_ops k) p v of (Inl e, s) \<Rightarrow> (Inl e, s)
         | (Inr None, s) \<Rightarrow> (Inr (lk_root s), s)
         | (Inr (Some (x', p')), s) \<Rightarrow> rb_remove_loop (link_ops k) fuel x' p' s)"
      using root_id_whole [OF i] in_tree_color [OF i, of k] in_tree_frame [OF i'] 3 step
      by (auto simp: bnd_def ret_def split: sum.splits option.splits prod.splits if_splits)
    from repair_step_run [OF i' df 3(2), of k] show ?thesis
      unfolding repairs_def
    proof (elim disjE exE conjE)
      fix v' t assume r: "repair_step d (link_ops k) p v = (Inr None, v')" "in_tree w D v' [] t" "rbt t"
        "ids t = ids (plug ((d, (p, pc), W) # C') x)"
      then show ?thesis using run in_tree_root [OF r(2)] 3(1) paint_black_id [of t]
        by (intro exI [of _ v'] exI [of _ "[]"] exI [of _ t]) (simp add: rbt_def)
    next
      fix v' C2 y assume r: "repair_step d (link_ops k) p v = (Inr (Some (root_id y, parent_id C2)), v')"
        "in_tree w D v' C2 y" "deficit C2 y" "ids (plug C2 y) = ids (plug ((d, (p, pc), W) # C') x)" "C2 = C'"
      then have "color_of y = Red \<and> 0 < fuel \<or> Suc (length C2) < fuel" using Suc.prems(3) 3 by auto
      from Suc.IH [OF r(2,3) this] show ?thesis using run r(1,4) 3(1) by simp
    next
      fix v' C2 y assume r: "repair_step d (link_ops k) p v = (Inr (Some (root_id y, parent_id C2)), v')"
        "in_tree w D v' C2 y" "deficit C2 y" "ids (plug C2 y) = ids (plug ((d, (p, pc), W) # C') x)" "color_of y = Red"
      then have "color_of y = Red \<and> 0 < fuel \<or> Suc (length C2) < fuel" using Suc.prems(3) 3 by auto
      from Suc.IH [OF r(2,3) this] show ?thesis using run r(1,4) 3(1) by simp
    qed
  qed
qed simp

lemma remove_fixup_run:
  assumes "in_tree w D v C x" "deficit C x" "Suc (length C) < fuel"
  shows "\<exists>v' t. rb_remove_fixup (link_ops k) fuel (root_id x) (parent_id C) v = (Inr (), v') \<and>
    in_tree w D v' [] t \<and> rbt t \<and> ids t = ids (plug C x)"
proof -
  from remove_loop_run [OF assms(1,2), of fuel k] assms(3) obtain v1 C' t where
    l: "rb_remove_loop (link_ops k) fuel (root_id x) (parent_id C) v = (Inr (root_id t), v1)"
    and t: "in_tree w D v1 C' t" "rbt (plug C' (paint Black t))" "ids (plug C' t) = ids (plug C x)" by blast
  have null: "root_id t = NULL_IDX \<longleftrightarrow> t = Leaf" using t(1) heap_root_NULL by (auto simp: in_tree_def at_def)
  show ?thesis
  proof (cases "t = Leaf")
    case True
    then show ?thesis using l t null in_tree_whole [of w D v1 C' t]
      by (intro exI [of _ v1] exI [of _ "plug C' t"]) (simp add: rb_remove_fixup_def bnd_def when_do_def ret_def)
  next
    case False
    from blacken_run [OF t(1) this, of k] obtain v2 where v2: "op_set_color (link_ops k) (root_id t) RB_BLACK v1 = (Inr (), v2)"
      "in_tree w D v2 C' (paint Black t)" by auto
    then show ?thesis using l t null False in_tree_whole [of w D v2 C' "paint Black t"]
      by (intro exI [of _ v2] exI [of _ "plug C' (paint Black t)"]) (simp add: rb_remove_fixup_def bnd_def when_do_def ids_plug)
  qed
qed


section \<open>Taking a node out\<close>

lemma transplant_eq:
  assumes "path v C a" "a \<noteq> NULL_IDX" "a \<in> lk_nodes v" "lk_parent v a = parent_id C" "a \<notin> set (fore C)" "a \<notin> set (aft C)"
    "x \<noteq> NULL_IDX \<Longrightarrow> x \<in> lk_nodes v"
  shows "rb_transplant (link_ops k) a x v = (Inr (), reparent x (parent_id C) (relink (parent_id C) a x v))"
proof (cases "C = []")
  case True
  then show ?thesis using assms by (simp add: rb_transplant_def bnd_def seq_def when_do_def ret_def relink_def reparent_def)
next
  case False
  have p: "parent_id C \<noteq> NULL_IDX" "parent_id C \<in> lk_nodes v"
    using False parent_in_path [OF False] path_ids [OF assms(1)] by auto
  then show ?thesis using assms(2-4,7)
    by (auto simp: rb_transplant_def bnd_def seq_def when_do_def ret_def relink_def reparent_def)
qed

lemma transplant_run:
  assumes i: "in_tree w D v C (Node l n r)" and x: "x = l \<or> x = r"
  shows "\<exists>v'. rb_transplant (link_ops k) (fst n) (root_id x) v = (Inr (), v') \<and> in_tree w D v' C x \<and>
    lk_parent v' (fst n) = parent_id C \<and> (x \<noteq> Leaf \<longrightarrow> lk_parent v' (root_id x) = parent_id C) \<and>
    off (set (fore C) \<union> set (aft C) \<union> set (ids x)) v v'"
proof -
  let ?p = "parent_id C" and ?a = "fst n"
  let ?v' = "reparent (root_id x) ?p (relink ?p ?a (root_id x) v)"
  have at: "at v C (Node l n r)" and D: "off D w v" "set (ids (plug C (Node l n r))) \<subseteq> D" using i by (auto simp: in_tree_def)
  note a = in_tree_node [OF i]
  have d: "distinct (fore C @ ids l @ ?a # ids r @ aft C)" using at by (simp add: at_def)
  have hx: "heap v x" "distinct (ids x)" "set (ids x) \<subseteq> set (ids l) \<union> set (ids r)" using at x by (auto simp: at_def)
  have xm: "root_id x \<noteq> NULL_IDX \<Longrightarrow> root_id x \<in> lk_nodes v \<and> root_id x \<in> set (ids x)"
    using root_in_ids [of x] heap_ids [OF hx(1)] by (cases x) auto
  have pm: "?p = NULL_IDX \<or> ?p \<in> set (fore C) \<union> set (aft C)" using parent_in_path [of C] by (cases "C = []") auto
  have px: "?p \<notin> set (ids x)" using parent_fresh [OF at] hx(3) by auto
  have fr: "set (ids x) \<inter> (set (fore C) \<union> set (aft C)) = {}" "?a \<notin> set (ids x)" using d hx(3) by auto
  have run: "rb_transplant (link_ops k) ?a (root_id x) v = (Inr (), ?v')"
    using at d a xm by (intro transplant_eq) (auto simp: at_def)
  have "path (relink ?p ?a (root_id x) v) C (root_id x)" using at d a(1) by (intro path_relink) (auto simp: at_def)
  moreover have "root_id x \<notin> set (fore C)" "root_id x \<notin> set (aft C)"
    using xm fr at path_ids [of v C ?a] by (cases "root_id x = NULL_IDX"; auto simp: at_def)+
  moreover have "heap (relink ?p ?a (root_id x) v) x" using hx(1) px by simp
  moreover have dx: "distinct (fore C @ ids x @ aft C)" using d x by auto
  ultimately have "at ?v' C x" using hx(2) by (simp add: at_def)
  moreover have off: "off (set (fore C) \<union> set (aft C) \<union> set (ids x)) v ?v'"
    using pm xm by (intro off_reparent off_relink) auto
  moreover have "off D w ?v'" using off_trans [OF D(1) off_mono [OF off]] D(2) x by (auto simp: ids_plug)
  ultimately have "in_tree w D ?v' C x" using D(2) x by (auto simp: in_tree_def ids_plug)
  moreover have "lk_parent ?v' ?a = ?p" using a xm fr(2) by (cases "root_id x = ?a") (auto simp: reparent_def)
  moreover have "x \<noteq> Leaf \<longrightarrow> lk_parent ?v' (root_id x) = ?p"
    using \<open>at ?v' C x\<close> by (auto simp: at_def hangs_def)
  ultimately show ?thesis using run off by blast
qed

lemma splice_run:
  assumes i: "in_tree w D v C (Node l n r)" and x: "x = l \<or> x = r"
  shows "\<exists>v'. rb_splice (link_ops k) (fst n) (root_id x) v = (Inr (root_id x, parent_id C), v') \<and> in_tree w D v' C x"
proof -
  note a = in_tree_node [OF i]
  obtain v' where v': "rb_transplant (link_ops k) (fst n) (root_id x) v = (Inr (), v')" "in_tree w D v' C x"
    "x \<noteq> Leaf \<longrightarrow> lk_parent v' (root_id x) = parent_id C" using transplant_run [OF i x, of k] by blast
  have "root_id x \<noteq> NULL_IDX \<Longrightarrow> op_parent (link_ops k) (root_id x) v' = (Inr (parent_id C), v')"
    using v'(2,3) heap_ids [of v' x "root_id x"] root_in_ids [of x] by (cases x) (auto simp: in_tree_def at_def)
  then show ?thesis using v'(1,2) a by (auto simp: rb_splice_def bnd_def seq_def ret_def)
qed

text \<open>The successor: the leftmost node of the right subtree.\<close>

lemma minimum_run:
  assumes "in_tree w D v C t" "t \<noteq> Leaf" "size t \<le> fuel"
  shows "\<exists>P n r. rb_minimum (link_ops k) fuel (root_id t) v = (Inr (fst n), v) \<and> t = plug P (Node Leaf n r) \<and> fore P = []"
  using assms
proof (induction t arbitrary: C fuel)
  case (Node l n r)
  obtain f where f: "fuel = Suc f" using Node.prems(3) by (cases fuel) auto
  note a = in_tree_node [OF Node.prems(1)]
  have il: "in_tree w D v ((True, n, r) # C) l" using Node.prems(1) by (simp add: in_tree_fill)
  have nl: "root_id l = NULL_IDX \<longleftrightarrow> l = Leaf" using il heap_root_NULL by (auto simp: in_tree_def at_def)
  show ?case
  proof (cases "l = Leaf")
    case True
    then show ?thesis using a f by (intro exI [of _ "[]"] exI [of _ n] exI [of _ r]) (simp add: bnd_def ret_def)
  next
    case False
    then obtain P m q where "rb_minimum (link_ops k) f (root_id l) v = (Inr (fst m), v)" "l = plug P (Node Leaf m q)" "fore P = []"
      using Node.IH(1) [OF il, of f] Node.prems(3) f by auto
    moreover have "fore (P @ [(True, n, r)]) = fore P" by (induction P rule: fore.induct) auto
    ultimately show ?thesis using a f False nl
      by (intro exI [of _ "P @ [(True, n, r)]"] exI [of _ m] exI [of _ q]) (simp add: plug_append bnd_def)
  qed
qed simp


text \<open>The successor \<open>y\<close>, with the rest \<open>R\<close> of the right subtree below it, takes the place of \<open>z\<close>.\<close>

lemma replace_run:
  assumes z: "path v C z" "holds_node v (z, zc)" "lk_parent v z = parent_id C"
    and L: "heap v L" "L \<noteq> Leaf" and R: "heap v R" "hangs v R y" "lk_right v y = root_id R"
    and y: "y \<noteq> NULL_IDX" "y \<in> lk_nodes v"
    and d: "distinct (fore C @ ids L @ z # y # ids R @ aft C)"
    and D: "off D w v" "set (fore C) \<union> set (ids L) \<union> {z, y} \<union> set (ids R) \<union> set (aft C) \<subseteq> D"
  shows "\<exists>v'. seq (rb_transplant (link_ops k) z y) (seq (op_set_left (link_ops k) y (root_id L))
      (seq (op_set_parent (link_ops k) (root_id L) y) (bnd (op_color (link_ops k) z) (\<lambda>c.
       seq (op_set_color (link_ops k) y c) (ret a))))) v = (Inr a, v') \<and>
    in_tree w D v' C (Node L (y, zc) R)"
proof -
  let ?p = "parent_id C"
  let ?v1 = "reparent y ?p (relink ?p z y v)"
  let ?v' = "put_color y (color_code zc) (put_parent (root_id L) y (put_left y (root_id L) ?v1))"
  have l: "root_id L \<in> set (ids L)" "root_id L \<noteq> NULL_IDX" "root_id L \<in> lk_nodes v"
    using L root_in_ids heap_ids by blast+
  have pm: "?p = NULL_IDX \<or> ?p \<in> set (fore C) \<union> set (aft C)" using parent_in_path [of C] by (cases "C = []") auto
  have nl: "NULL_IDX \<notin> set (ids L)" "NULL_IDX \<notin> set (ids R)" using L R heap_ids by blast+
  then have pf: "?p \<notin> set (ids L)" "?p \<notin> set (ids R)" using pm d by auto
  have pn: "?p \<noteq> y" "?p \<noteq> z" using pm d y z(2) by auto
  have fr: "y \<notin> set (ids L)" "y \<notin> set (ids R)" "y \<notin> set (fore C)" "y \<notin> set (aft C)" "root_id L \<notin> set (ids R)"
    "root_id L \<notin> set (fore C)" "root_id L \<notin> set (aft C)" "root_id L \<noteq> y" "z \<noteq> y" "root_id L \<noteq> z"
    using d l(1) by auto
  have t: "rb_transplant (link_ops k) z y v = (Inr (), ?v1)"
    using z y d by (intro transplant_eq) auto
  have lv: "heap (relink ?p z y v) L" "hangs (put_parent (root_id L) y v) L y" "distinct (ids L)"
    using L pf d by (auto simp: hangs_def)
  have hL: "heap (put_parent (root_id L) y (put_left y (root_id L) ?v1)) L"
    using heap_reparent_root(1) [of "put_left y (root_id L) ?v1" L y] lv fr l(2) by (simp add: reparent_def y)
  have run: "seq (rb_transplant (link_ops k) z y) (seq (op_set_left (link_ops k) y (root_id L))
      (seq (op_set_parent (link_ops k) (root_id L) y) (bnd (op_color (link_ops k) z) (\<lambda>c.
       seq (op_set_color (link_ops k) y c) (ret a))))) v = (Inr a, ?v')"
    using t y l z(2) fr by (simp add: bnd_def seq_def ret_def)
  have "path (relink ?p z y v) C y" using z d by (intro path_relink) auto
  moreover have "hangs ?v' L y" by (simp add: hangs_def)
  moreover have "lk_parent ?v' y = ?p" using fr y by (simp add: reparent_def)
  ultimately have "at ?v' C (Node L (y, zc) R)"
    using hL R fr pf pn y d l by (auto simp: at_def)
  moreover have "off D w ?v'" using D pm l(1) by (intro off_put off_reparent off_relink) auto
  ultimately have "in_tree w D ?v' C (Node L (y, zc) R)" using D(2) by (auto simp: in_tree_def ids_plug)
  with run show ?thesis by blast
qed

lemma reparent_same: "hangs v t p \<Longrightarrow> t = Leaf \<or> root_id t \<noteq> NULL_IDX \<Longrightarrow> reparent (root_id t) p v = v"
  by (auto simp: reparent_def put_parent_def hangs_def)

lemma splice_both_run:
  assumes i: "in_tree w D v C (Node L (z, zc) R)" and L: "L \<noteq> Leaf" and R: "R \<noteq> Leaf" "size R \<le> fuel"
  shows "\<exists>v' P y yc x. R = plug P (Node Leaf (y, yc) x) \<and> fore P = [] \<and>
    rb_splice_both (link_ops k) fuel z (root_id L) (root_id R) v =
      (Inr (color_code yc, root_id x, parent_id (P @ (False, (y, zc), L) # C)), v') \<and>
    in_tree w D v' (P @ (False, (y, zc), L) # C) x"
proof -
  have iR: "in_tree w D v ((False, (z, zc), L) # C) R" using i by (simp add: in_tree_fill)
  from minimum_run [OF iR R, of k] obtain P y yc x where
    m: "rb_minimum (link_ops k) fuel (root_id R) v = (Inr y, v)" and P: "R = plug P (Node Leaf (y, yc) x)" "fore P = []"
    by auto
  let ?C = "P @ (False, (z, zc), L) # C"
  have iy: "in_tree w D v ?C (Node Leaf (y, yc) x)"
    using iR in_tree_whole [of w D v ?C "Node Leaf (y, yc) x"] in_tree_whole [of w D v "(False, (z, zc), L) # C" R]
    by (simp add: plug_append P(1))
  note y = in_tree_node [OF iy]
  have at: "at v C (Node L (z, zc) R)" and D: "off D w v" "set (ids (plug C (Node L (z, zc) R))) \<subseteq> D"
    using i by (auto simp: in_tree_def)
  have ids: "ids R = y # ids x @ aft P" by (simp add: P ids_plug)
  have d: "distinct (fore C @ ids L @ z # y # ids x @ aft P @ aft C)" using at by (simp add: at_def ids)
  have Rn: "root_id R \<noteq> NULL_IDX" "root_id R \<in> lk_nodes v" using heap_ids [of v R] root_in_ids [OF R(1)] at by (auto simp: at_def)
  show ?thesis
  proof (cases "P = []")
    case True
    have RP: "R = Node Leaf (y, yc) x" "aft P = []" using P True by simp_all
    have hx: "heap v x" "hangs v x y" using at by (auto simp: at_def RP)
    then have same: "when_do (root_id x \<noteq> NULL_IDX) (op_set_parent (link_ops k) (root_id x) y) v = (Inr (), v)"
      using reparent_same [of v x y] heap_root_NULL [OF hx(1)] heap_ids [OF hx(1)] root_in_ids [of x]
      by (auto simp: when_do_def ret_def reparent_def)
    obtain v' where v': "seq (rb_transplant (link_ops k) z y) (seq (op_set_left (link_ops k) y (root_id L))
        (seq (op_set_parent (link_ops k) (root_id L) y) (bnd (op_color (link_ops k) z) (\<lambda>c.
         seq (op_set_color (link_ops k) y c) (ret (color_code yc, root_id x, y)))))) v = (Inr (color_code yc, root_id x, y), v')"
      "in_tree w D v' C (Node L (y, zc) x)"
      using replace_run [of v C z zc L x y D w k "(color_code yc, root_id x, y)"] at L hx y d D
      by (auto simp: at_def RP ids_plug)
    have "rb_splice_both (link_ops k) fuel z (root_id L) (root_id R) v = (Inr (color_code yc, root_id x, y), v')"
      using m y v'(1) same True by (simp add: rb_splice_both_def bnd_def seq_def ret_def)
    moreover have "in_tree w D v' ((False, (y, zc), L) # C) x" using v'(2) by (simp add: in_tree_fill)
    ultimately show ?thesis using P True by (intro exI [of _ v'] exI [of _ "[]"] exI [of _ y] exI [of _ yc] exI [of _ x]) simp
  next
    case False
    let ?R = "plug P x"
    have pP: "parent_id ?C = parent_id P" using False by (cases P) auto
    have rR: "root_id ?R = root_id R" using False P(1) by (cases P rule: rev_cases) (auto simp: plug_append)
    have idR: "ids ?R = ids x @ aft P" by (simp add: P(2) ids_plug)
    obtain v1 where v1: "rb_transplant (link_ops k) y (root_id x) v = (Inr (), v1)" "in_tree w D v1 ?C x"
      "off (set (fore ?C) \<union> set (aft ?C) \<union> set (ids x)) v v1"
      using transplant_run [OF iy, of x k] by auto
    have i1: "in_tree w D v1 C (Node L (z, zc) ?R)"
      using v1(2) in_tree_whole [of w D v1 ?C x] in_tree_whole [of w D v1 C "Node L (z, zc) ?R"] by (simp add: plug_append)
    then have at1: "at v1 C (Node L (z, zc) ?R)" and D1: "off D w v1" by (auto simp: in_tree_def)
    have nR: "?R \<noteq> Leaf" using False by simp
    have rI: "root_id R \<in> set (ids ?R)" using root_in_ids [OF nR] rR by simp
    have yn: "y \<in> lk_nodes v1" using y(2) v1(3) by (simp add: off_def)
    have fr: "y \<notin> set (ids ?R)" "y \<notin> set (ids L)" "y \<notin> set (fore C)" "y \<notin> set (aft C)" "y \<noteq> z" "root_id R \<noteq> y"
      "root_id R \<notin> set (ids L)" "root_id R \<notin> set (fore C)" "root_id R \<notin> set (aft C)" "root_id R \<noteq> z"
      using d rI idR by auto
    let ?v2 = "put_parent (root_id R) y (put_right y (root_id R) v1)"
    have "heap (reparent (root_id ?R) y (put_right y (root_id R) v1)) ?R"
      using at1 fr by (intro heap_reparent_root) (auto simp: at_def)
    then have hR: "heap ?v2 ?R" "hangs ?v2 ?R y" using Rn(1) by (simp_all add: reparent_def rR hangs_def)
    have Rn1: "root_id R \<in> lk_nodes v1" using Rn(2) v1(3) by (simp add: off_def)
    have D2: "off D w ?v2" using D D1 rI P(2) by (auto simp: ids_plug ids idR intro!: off_put)
    let ?tail = "seq (rb_transplant (link_ops k) z y) (seq (op_set_left (link_ops k) y (root_id L))
        (seq (op_set_parent (link_ops k) (root_id L) y) (bnd (op_color (link_ops k) z) (\<lambda>c.
         seq (op_set_color (link_ops k) y c) (ret (color_code yc, root_id x, parent_id P))))))"
    have h2: "path ?v2 C z" "holds_node ?v2 (z, zc)" "lk_parent ?v2 z = parent_id C" "heap ?v2 L" "lk_right ?v2 y = root_id ?R"
      "y \<in> lk_nodes ?v2" "distinct (fore C @ ids L @ z # y # ids ?R @ aft C)"
      using at1 fr yn d by (auto simp: at_def rR idR)
    obtain v' where v': "?tail ?v2 = (Inr (color_code yc, root_id x, parent_id P), v')" "in_tree w D v' C (Node L (y, zc) ?R)"
      using replace_run [OF h2(1,2,3,4) L hR h2(5) y(1) [unfolded fst_conv] h2(6,7) D2, of k "(color_code yc, root_id x, parent_id P)"] D(2)
      by (auto simp: ids_plug ids idR P(2))
    have pz: "parent_id P \<noteq> z"
    proof
      assume "parent_id P = z"
      then have "z \<in> set (fore P) \<union> set (aft P)" using parent_in_path [OF False] by simp
      then show False using d P(2) by auto
    qed
    have "rb_splice_both (link_ops k) fuel z (root_id L) (root_id R) v = ?tail ?v2"
      using m y v1(1) pP pz yn Rn Rn1 by (simp add: rb_splice_both_def bnd_def seq_def ret_def)
    moreover have "in_tree w D v' (P @ (False, (y, zc), L) # C) x"
      using v'(2) in_tree_whole [of w D v' "P @ (False, (y, zc), L) # C" x] in_tree_whole [of w D v' C "Node L (y, zc) ?R"]
      by (simp add: plug_append)
    moreover have "parent_id (P @ (False, (y, zc), L) # C) = parent_id P" using False by (cases P) auto
    ultimately show ?thesis using P v'(1)
      by (intro exI [of _ v'] exI [of _ P] exI [of _ y] exI [of _ yc] exI [of _ x]) simp
  qed
qed


section \<open>The removal\<close>

lemma size_plug: "size (plug C t) = length (fore C) + size t + length (aft C)"
  using arg_cong [OF ids_plug [of C t], of length] by (simp add: ids_def)

lemma mended_run:
  assumes x: "in_tree w D v C x" and d: "c = Black \<Longrightarrow> deficit C x" "c = Red \<Longrightarrow> rbt (plug C x)" and l: "Suc (length C) < fuel"
  shows "\<exists>v' t. when_do (color_code c = RB_BLACK) (rb_remove_fixup (link_ops k) fuel (root_id x) (parent_id C)) v = (Inr (), v') \<and>
    in_tree w D v' [] t \<and> rbt t \<and> ids t = ids (plug C x)"
proof (cases c)
  case Black
  then show ?thesis using remove_fixup_run [OF x d(1) l, of k] by (simp add: when_do_def)
next
  case Red
  then show ?thesis using d(2) x in_tree_whole [of w D v C x]
    by (intro exI [of _ v] exI [of _ "plug C x"]) (simp add: when_do_def ret_def)
qed

lemma remove_run:
  assumes i: "in_tree w D v C (Node L (z, zc) R)" and t: "rbt (plug C (Node L (z, zc) R))"
    and fuel: "size (plug C (Node L (z, zc) R)) < fuel"
  shows "\<exists>v' t'. rb_remove (link_ops k) fuel z v = (Inr (), v') \<and> in_tree w D v' [] t' \<and> rbt t' \<and>
    ids t' = fore C @ ids L @ ids R @ aft C"
proof -
  note a = in_tree_node [OF i, unfolded fst_conv snd_conv]
  have null: "root_id L = NULL_IDX \<longleftrightarrow> L = Leaf" "root_id R = NULL_IDX \<longleftrightarrow> R = Leaf"
    using i heap_root_NULL by (auto simp: in_tree_def at_def)
  have len: "Suc (length C) < fuel" using length_path [of C "Node L (z, zc) R"] fuel by simp
  show ?thesis
  proof (cases "L = Leaf \<or> R = Leaf")
    case True
    define x where "x = (if L = Leaf then R else L)"
    have x: "x = L \<or> x = R" "(L = Leaf \<and> x = R) \<or> (R = Leaf \<and> x = L)" "ids x = ids L @ ids R"
      using True by (auto simp: x_def)
    obtain v1 where v1: "rb_splice (link_ops k) z (root_id x) v = (Inr (root_id x, parent_id C), v1)" "in_tree w D v1 C x"
      using splice_run [OF i x(1), of k] by auto
    obtain v2 t' where v2: "when_do (color_code zc = RB_BLACK) (rb_remove_fixup (link_ops k) fuel (root_id x) (parent_id C)) v1 = (Inr (), v2)"
      "in_tree w D v2 [] t'" "rbt t'" "ids t' = ids (plug C x)"
      using mended_run [OF v1(2) _ _ len, of zc k] splice_inv [OF t x(2)] by auto
    have "rb_remove (link_ops k) fuel z v = (Inr (), v2)"
      using a v1(1) v2(1) null True by (auto simp: rb_remove_def x_def bnd_def seq_def ret_def require_def)
    then show ?thesis using v2 x(3) by (auto simp: ids_plug)
  next
    case False
    then have LR: "L \<noteq> Leaf" "R \<noteq> Leaf" by auto
    have "size R \<le> fuel" using length_path [of C "Node L (z, zc) R"] fuel by simp
    from splice_both_run [OF i LR this, of k] obtain v1 P y yc x where
      P: "R = plug P (Node Leaf (y, yc) x)" "fore P = []"
      and v1: "rb_splice_both (link_ops k) fuel z (root_id L) (root_id R) v =
        (Inr (color_code yc, root_id x, parent_id (P @ (False, (y, zc), L) # C)), v1)"
      "in_tree w D v1 (P @ (False, (y, zc), L) # C) x" by blast
    let ?C = "P @ (False, (y, zc), L) # C"
    have pl: "plug ?C t = plug C (Node L (y, zc) (plug P t))" for t by (simp add: plug_append)
    have "rbt (plug ?C (Node Leaf (y, yc) x))"
      using t by (auto simp: pl P(1) rbt_plug)
    note inv = splice_inv [OF this, of x, simplified]
    have "Suc (length ?C) < fuel"
      using length_path [of ?C "Node Leaf (y, yc) x"] fuel by (simp add: plug_append size_plug P(1))
    then obtain v2 t' where v2: "when_do (color_code yc = RB_BLACK) (rb_remove_fixup (link_ops k) fuel (root_id x) (parent_id ?C)) v1 = (Inr (), v2)"
      "in_tree w D v2 [] t'" "rbt t'" "ids t' = ids (plug ?C x)"
      using mended_run [OF v1(2), of yc fuel k] inv by auto
    have "rb_remove (link_ops k) fuel z v = (Inr (), v2)"
      using a v1(1) v2(1) null LR by (simp add: rb_remove_def bnd_def seq_def ret_def require_def)
    moreover have "ids (plug ?C x) = fore C @ ids L @ ids R @ aft C" by (simp add: pl P ids_plug)
    ultimately show ?thesis using v2 by auto
  qed
qed


section \<open>The removal in the code's state\<close>

context rb_store
begin

lemma remove_step_sim: "sims view rest \<rho> (rb_remove_step_left ops p) (rb_remove_step_left lops p)"
  "sims view rest \<rho> (rb_remove_step_right ops p) (rb_remove_step_right lops p)"
  unfolding rb_remove_step_left_def rb_remove_step_right_def by (intro sims_intros op_sims rotations_sim)+

lemma remove_loop_sim: "sims view rest \<rho> (rb_remove_loop ops fuel x p) (rb_remove_loop lops fuel x p)"
  by (induction fuel arbitrary: x p) (simp_all, (intro sims_intros op_sims remove_step_sim | assumption)+)

lemma minimum_sim: "sims view rest \<rho> (rb_minimum ops fuel i) (rb_minimum lops fuel i)"
  by (induction fuel arbitrary: i) (simp_all, (intro sims_intros op_sims impI conjI | assumption)+)

lemma transplant_sim: "sims view rest \<rho> (rb_transplant ops u i) (rb_transplant lops u i)"
  unfolding rb_transplant_def by (intro sims_intros op_sims)

lemma remove_sim: "sims view rest \<rho> (rb_remove ops fuel z) (rb_remove lops fuel z)"
  unfolding rb_remove_def rb_remove_fixup_def rb_splice_def rb_splice_both_def
  by (intro sims_intros op_sims transplant_sim minimum_sim remove_loop_sim)

theorem removal:
  assumes t: "at (view s) [] (plug C (Node L (z, c) R))" "rbt (plug C (Node L (z, c) R))"
    and fuel: "size (plug C (Node L (z, c) R)) < fuel"
  shows "\<exists>s' t'. rb_remove ops fuel z s = (Inr (), s') \<and> rest s' = rest s \<and> at (view s') [] t' \<and> rbt t' \<and>
    ids t' = fore C @ ids L @ ids R @ aft C \<and> off (set (ids (plug C (Node L (z, c) R)))) (view s) (view s')"
proof -
  let ?t = "plug C (Node L (z, c) R)"
  have "in_tree (view s) (set (ids ?t)) (view s) C (Node L (z, c) R)"
    using t(1) at_whole [of "view s" C "Node L (z, c) R"] by (simp add: in_tree_def)
  from remove_run [OF this t(2) fuel, of "op_checked ops"] obtain v' t' where
    v': "rb_remove lops fuel z (view s) = (Inr (), v')"
    and t': "in_tree (view s) (set (ids ?t)) v' [] t'" "rbt t'" "ids t' = fore C @ ids L @ ids R @ aft C" by blast
  obtain s' where s': "rb_remove ops fuel z s = (Inr (), s')" "view s' = v'" "rest s' = rest s"
    by (rule simsD [OF remove_sim refl v'])
  show ?thesis using s' t' unfolding in_tree_def by (intro exI [of _ s'] exI [of _ t']) simp
qed

end

end
