(* ===== verification/Intent_Removal.thy ===== *)
theory Intent_Removal
  imports Book_Trees Rb_Delete
begin

text \<open>Removing an intent from its side: \<open>itree_remove\<close> takes it out of the order of the side.\<close>

lemma path_to: "z \<in> set (ids t) \<Longrightarrow> \<exists>C L c R. t = plug C (Node L (z, c) R)"
proof (induction t)
  case (Node l n r)
  consider "z = fst n" | "z \<in> set (ids l)" | "z \<in> set (ids r)" using Node.prems by auto
  then show ?case
  proof cases
    case 1
    then show ?thesis by (intro exI [of _ "[]"]) (cases n; auto)
  next
    case 2
    then obtain C L c R where "l = plug C (Node L (z, c) R)" using Node.IH(1) by blast
    then show ?thesis by (intro exI [of _ "C @ [(True, n, r)]"]) (auto simp: plug_append)
  next
    case 3
    then obtain C L c R where "r = plug C (Node L (z, c) R)" using Node.IH(2) by blast
    then show ?thesis by (intro exI [of _ "C @ [(False, n, l)]"]) (auto simp: plug_append)
  qed
qed simp

lemma key_at_rest:
  assumes "intent_rest side b' = intent_rest side b" "intent b i = Inr n"
  shows "key_at side b' i = key_at side b i"
proof -
  obtain n' where "intent b' i = Inr n'" "unlinked n' = unlinked n" by (rule intent_rest_iff [OF assms])
  then show ?thesis using intent_key_unlinked [of n' n side] assms(2) by (simp add: key_at_intent)
qed

lemma side_tree_member: "side_tree side b t \<Longrightarrow> i \<in> set (ids t) \<Longrightarrow> i \<noteq> NULL_IDX \<and> (\<exists>n. intent b i = Inr n)"
  using at_ids [of "intent_view side b" t] intent_nodes [of i side b] by (auto simp: side_tree_def)

lemma side_tree_distinct: "side_tree side b t \<Longrightarrow> distinct (ids t)"
  using at_ids by (auto simp: side_tree_def)

lemma itree_remove_run:
  assumes side: "side = SIDE_LONG \<or> side = SIDE_SHORT" and t: "side_tree side b t" and z: "z \<in> set (ids t)"
  shows "\<exists>b' t'. itree_remove side z b = (Inr (), b') \<and> side_tree side b' t' \<and> ids t' = remove1 z (ids t) \<and>
    intent_rest side b' = intent_rest side b \<and> off (set (ids t)) (intent_view side b) (intent_view side b')"
proof -
  obtain C L c R where T: "t = plug C (Node L (z, c) R)" using path_to [OF z] by blast
  have at: "at (intent_view side b) [] t" "rbt t" "sorted (map (key_at side b) (ids t))" using t by (auto simp: side_tree_def)
  have fuel: "size (plug C (Node L (z, c) R)) < pool_fuel b" using side_tree_size [OF t] unfolding T .
  obtain b' t' where b': "rb_remove (intent_ops side) (pool_fuel b) z b = (Inr (), b')" "intent_rest side b' = intent_rest side b"
    "at (intent_view side b') [] t'" "rbt t'" "ids t' = fore C @ ids L @ ids R @ aft C"
    "off (set (ids t)) (intent_view side b) (intent_view side b')"
    using rb_store.removal [OF intent_store [OF side] at(1,2) [unfolded T] fuel] unfolding T by metis
  have "distinct (ids t)" using side_tree_distinct [OF t] .
  then have ids: "ids t' = remove1 z (ids t)" by (simp add: b'(5) T ids_plug remove1_append)
  have "key_at side b' i = key_at side b i" if "i \<in> set (ids t')" for i
  proof -
    have "i \<in> set (ids t)" using that set_remove1_subset unfolding ids by fast
    then show ?thesis using key_at_rest [OF b'(2)] side_tree_member [OF t] by blast
  qed
  then have "map (key_at side b') (ids t') = map (key_at side b) (remove1 z (ids t))" by (simp add: ids)
  then have "side_tree side b' t'" using b'(3,4) sorted_map_remove1 [OF at(3), of z] by (simp add: side_tree_def)
  moreover have "itree_remove side z b = (Inr (), b')" using b'(1) by (simp add: itree_remove_def bnd_def gets_def)
  ultimately show ?thesis using b'(2,6) ids by blast
qed

end
