(* ===== verification/Book_Order.thy ===== *)
theory Book_Order
  imports Seat_Orders Intent_Removal Allocator Prune_Ix Position_Ix
begin

text \<open>
  The invariant of a whole book: a sound node pool, one red-black tree in priority order for each
  side, holding exactly the intents of that side, one for the seats, with one seat per trader, and
  a seat for every intent. Every operation of the pool and of the trees keeps it.
\<close>

section \<open>The invariant\<close>

definition sides :: "u8 set" where
  "sides = {SIDE_LONG, SIDE_SHORT}"

definition slots :: "u8 \<Rightarrow> book \<Rightarrow> u32 set" where
  "slots side b = {i. \<exists>n. intent b i = Inr n \<and> in_side n = side}"

definition seat_slots :: "book \<Rightarrow> u32 set" where
  "seat_slots b = {i. \<exists>s. seat b i = Inr s}"

text \<open>
  \<open>filed X b T z\<close>: the trees \<open>T side\<close> and \<open>z\<close> stand in the book and hold every node but those of \<open>X\<close>,
  which are in no tree: a node just allocated, or about to be freed.
\<close>

definition filed :: "u32 set \<Rightarrow> book \<Rightarrow> (u8 \<Rightarrow> slot_tree) \<Rightarrow> slot_tree \<Rightarrow> bool" where
  "filed X b T z \<longleftrightarrow> book_inv b \<and>
     (\<forall>side\<in>sides. side_tree side b (T side) \<and> set (ids (T side)) = slots side b - X) \<and>
     (\<forall>i n. intent b i = Inr n \<longrightarrow> in_side n \<in> sides \<and> (\<exists>s. seat b (owner_seat n) = Inr s)) \<and>
     seat_tree b z \<and> set (ids z) = seat_slots b - X"

definition book_ok :: "book \<Rightarrow> bool" where
  "book_ok b \<longleftrightarrow> (\<exists>T z. filed {} b T z)"

lemma filedD:
  assumes "filed X b T z"
  shows "book_inv b" "side \<in> sides \<Longrightarrow> side_tree side b (T side)" "side \<in> sides \<Longrightarrow> set (ids (T side)) = slots side b - X"
    "intent b i = Inr n \<Longrightarrow> in_side n \<in> sides" "intent b i = Inr n \<Longrightarrow> \<exists>s. seat b (owner_seat n) = Inr s"
    "seat_tree b z" "set (ids z) = seat_slots b - X"
  using assms unfolding filed_def by blast+

lemma filedI:
  assumes "book_inv b" "\<And>side. side \<in> sides \<Longrightarrow> side_tree side b (T side)"
    "\<And>side. side \<in> sides \<Longrightarrow> set (ids (T side)) = slots side b - X"
    "\<And>i n. intent b i = Inr n \<Longrightarrow> in_side n \<in> sides" "\<And>i n. intent b i = Inr n \<Longrightarrow> \<exists>s. seat b (owner_seat n) = Inr s"
    "seat_tree b z" "set (ids z) = seat_slots b - X"
  shows "filed X b T z"
  using assms unfolding filed_def by blast

lemma sidesD: "side \<in> sides \<Longrightarrow> side = SIDE_LONG \<or> side = SIDE_SHORT"
  by (simp add: sides_def)

lemma side_ne [simp]: "SIDE_LONG \<noteq> SIDE_SHORT" "SIDE_SHORT \<noteq> SIDE_LONG"
  by (simp_all add: SIDE_LONG_def SIDE_SHORT_def)

section \<open>Frames\<close>

text \<open>A tree depends on the links of its own slots only.\<close>

lemma heap_same:
  assumes "heap v t" "\<And>a. a \<in> set (ids t) \<Longrightarrow> a \<in> lk_nodes w \<and> lk_left w a = lk_left v a \<and> lk_right w a = lk_right v a \<and>
    lk_parent w a = lk_parent v a \<and> lk_color w a = lk_color v a"
  shows "heap w t \<and> (\<forall>p. hangs w t p = hangs v t p)"
  using assms
proof (induction t)
  case (Node l n r)
  have "heap w l \<and> (\<forall>p. hangs w l p = hangs v l p)" "heap w r \<and> (\<forall>p. hangs w r p = hangs v r p)"
    using Node.prems by (intro Node.IH; simp)+
  moreover have "fst n \<in> lk_nodes w \<and> lk_left w (fst n) = lk_left v (fst n) \<and> lk_right w (fst n) = lk_right v (fst n) \<and>
    lk_parent w (fst n) = lk_parent v (fst n) \<and> lk_color w (fst n) = lk_color v (fst n)" by (rule Node.prems(2)) simp
  ultimately show ?case using Node.prems(1) by (cases n) simp
qed simp

lemma at_same:
  assumes "at v [] t" "lk_root w = lk_root v" "\<And>a. a \<in> set (ids t) \<Longrightarrow> a \<in> lk_nodes w \<and> lk_left w a = lk_left v a \<and>
    lk_right w a = lk_right v a \<and> lk_parent w a = lk_parent v a \<and> lk_color w a = lk_color v a"
  shows "at w [] t"
  using assms heap_same [of v t w] by (auto simp: at_def)

text \<open>Two intents, two seats, that the trees cannot tell apart.\<close>

definition same_intent :: "intent_node \<Rightarrow> intent_node \<Rightarrow> bool" where
  "same_intent m n \<longleftrightarrow> in_left m = in_left n \<and> in_right m = in_right n \<and> in_parent m = in_parent n \<and> in_color m = in_color n \<and>
     price_limit_fp m = price_limit_fp n \<and> post_seq m = post_seq n \<and> intent_id m = intent_id n \<and> in_side m = in_side n"

definition same_seat :: "seat_node \<Rightarrow> seat_node \<Rightarrow> bool" where
  "same_seat m n \<longleftrightarrow> sn_left m = sn_left n \<and> sn_right m = sn_right n \<and> sn_parent m = sn_parent n \<and> sn_color m = sn_color n \<and>
     trader m = trader n"

lemma same_refl [simp]: "same_intent n n" "same_seat s s"
  by (simp_all add: same_intent_def same_seat_def)

lemma side_tree_same:
  assumes t: "side_tree side b t" and r: "lk_root (intent_view side b') = lk_root (intent_view side b)"
    and i: "\<And>i n. i \<in> set (ids t) \<Longrightarrow> intent b i = Inr n \<Longrightarrow> \<exists>m. intent b' i = Inr m \<and> same_intent m n"
  shows "side_tree side b' t"
proof -
  have m: "\<exists>n m. intent b a = Inr n \<and> intent b' a = Inr m \<and> same_intent m n \<and> a \<noteq> NULL_IDX" if "a \<in> set (ids t)" for a
    using side_tree_member [OF t that] i [OF that] by blast
  have "at (intent_view side b') [] t"
  proof (rule at_same [OF _ r])
    show "at (intent_view side b) [] t" using t by (simp add: side_tree_def)
    fix a assume "a \<in> set (ids t)"
    from m [OF this] show "a \<in> lk_nodes (intent_view side b') \<and> lk_left (intent_view side b') a = lk_left (intent_view side b) a \<and>
      lk_right (intent_view side b') a = lk_right (intent_view side b) a \<and>
      lk_parent (intent_view side b') a = lk_parent (intent_view side b) a \<and>
      lk_color (intent_view side b') a = lk_color (intent_view side b) a"
      by (auto simp: intent_nodes intent_view_get same_intent_def)
  qed
  moreover have "key_at side b' a = key_at side b a" if "a \<in> set (ids t)" for a
    using m [OF that] by (auto simp: key_at_intent intent_key_def same_intent_def)
  then have "map (key_at side b') (ids t) = map (key_at side b) (ids t)" by simp
  ultimately show ?thesis using t unfolding side_tree_def by metis
qed

lemma seat_tree_same:
  assumes t: "seat_tree b t" and r: "seat_tree_root b' = seat_tree_root b"
    and i: "\<And>i n. i \<in> set (ids t) \<Longrightarrow> seat b i = Inr n \<Longrightarrow> \<exists>m. seat b' i = Inr m \<and> same_seat m n"
  shows "seat_tree b' t"
proof -
  have m: "\<exists>n m. seat b a = Inr n \<and> seat b' a = Inr m \<and> same_seat m n \<and> a \<noteq> NULL_IDX" if "a \<in> set (ids t)" for a
    using seat_tree_member [OF t that] i [OF that] by blast
  have "at (seat_view b') [] t"
  proof (rule at_same)
    show "at (seat_view b) [] t" using t by (simp add: seat_tree_def)
    show "lk_root (seat_view b') = lk_root (seat_view b)" using r by (simp add: seat_view_def)
    fix a assume "a \<in> set (ids t)"
    from m [OF this] show "a \<in> lk_nodes (seat_view b') \<and> lk_left (seat_view b') a = lk_left (seat_view b) a \<and>
      lk_right (seat_view b') a = lk_right (seat_view b) a \<and> lk_parent (seat_view b') a = lk_parent (seat_view b) a \<and>
      lk_color (seat_view b') a = lk_color (seat_view b) a"
      by (auto simp: seat_nodes seat_view_get same_seat_def)
  qed
  moreover have "trader_at b' a = trader_at b a" if "a \<in> set (ids t)" for a
    using m [OF that] by (auto simp: trader_at_seat same_seat_def)
  then have "map (trader_at b') (ids t) = map (trader_at b) (ids t)" by simp
  ultimately show ?thesis using t unfolding seat_tree_def by metis
qed

section \<open>The pool\<close>

text \<open>The allocator looks at which slots are free, and at their links.\<close>

primrec mark :: "node \<Rightarrow> u32 option" where
  "mark (NFree n) = Some n"
| "mark (NIntent n) = None"
| "mark (NSeat s) = None"

lemma is_used_mark: "is_used n \<longleftrightarrow> mark n = None"
  by (cases n) simp_all

lemma free_chain_mark: "map mark ns' = map mark ns \<Longrightarrow> free_chain ns' h xs = free_chain ns h xs"
proof (induction ns h xs rule: free_chain.induct)
  case (2 ns h x xs)
  have l: "length ns' = length ns" using arg_cong [OF 2(2), of length] by simp
  show ?case
  proof (cases "unat x < length ns")
    case True
    then have "mark (ns' ! unat x) = mark (ns ! unat x)" using arg_cong [OF 2(2), of "\<lambda>ms. ms ! unat x"] l by simp
    then show ?thesis using 2 l by (cases "ns ! unat x"; cases "ns' ! unat x") auto
  qed (simp add: l)
qed simp

definition pool :: "book \<Rightarrow> u32 \<times> u32 \<times> u32 \<times> u32 option list" where
  "pool b = (freelist_head b, node_count b, bk_capacity b, map mark (bk_nodes b))"

lemma book_inv_pool:
  assumes "pool b' = pool b" "book_inv b"
  shows "book_inv b'"
proof -
  have p: "freelist_head b' = freelist_head b" "node_count b' = node_count b" "bk_capacity b' = bk_capacity b"
    and m: "map mark (bk_nodes b') = map mark (bk_nodes b)" using assms(1) by (simp_all add: pool_def)
  have l: "length (bk_nodes b') = length (bk_nodes b)" using arg_cong [OF m, of length] by simp
  have u: "is_used (bk_nodes b' ! i) = is_used (bk_nodes b ! i)" if "i < length (bk_nodes b)" for i
    using arg_cong [OF m, of "\<lambda>ms. ms ! i"] l that by (simp add: is_used_mark)
  obtain xs where xs: "book_free b xs" using assms(2) by (auto simp: book_inv_def)
  note d = book_freeD [OF xs]
  have "book_free b' xs"
  proof (rule book_freeI, unfold p l)
    show "free_chain (bk_nodes b') (freelist_head b) xs" using d(1) free_chain_mark [OF m] by simp
    show "\<not> is_used (bk_nodes b' ! 0)" using d(4,5,7) u [of 0] by (cases "bk_nodes b") auto
    show "i < unat (node_count b)" if "i < length (bk_nodes b)" "is_used (bk_nodes b' ! i)" for i
      using that u d(8) by blast
    show "is_used (bk_nodes b' ! i)" if "0 < i" "i < unat (node_count b)" "i \<notin> unat ` set xs" for i
      using that u [of i] d(5) d(9) [of i] by simp
  qed (use d(2-6) in blast)+
  then show ?thesis by (auto simp: book_inv_def)
qed

lemma mark_unlink: "mark (unlink_intent n) = mark n" "mark (unlink_seat n) = mark n"
  by (cases n; simp)+

lemma pool_rest:
  shows "intent_rest side b' = intent_rest side b \<Longrightarrow> pool b' = pool b"
    and "seat_rest b' = seat_rest b \<Longrightarrow> pool b' = pool b"
proof -
  have c: "mark \<circ> unlink_intent = mark" "mark \<circ> unlink_seat = mark" by (auto simp: mark_unlink fun_eq_iff)
  have "map mark (bk_nodes c) = map mark (bk_nodes (intent_rest side c))" "map mark (bk_nodes c) = map mark (bk_nodes (seat_rest c))"
    "freelist_head c = freelist_head (intent_rest side c)" "freelist_head c = freelist_head (seat_rest c)"
    "node_count c = node_count (intent_rest side c)" "node_count c = node_count (seat_rest c)"
    "bk_capacity c = bk_capacity (intent_rest side c)" "bk_capacity c = bk_capacity (seat_rest c)" for c
    by (simp_all add: intent_rest_def seat_rest_def c)
  then show "intent_rest side b' = intent_rest side b \<Longrightarrow> pool b' = pool b" "seat_rest b' = seat_rest b \<Longrightarrow> pool b' = pool b"
    unfolding pool_def by metis+
qed

section \<open>An operation on one tree\<close>

lemma unlinked_fields:
  assumes "unlinked m = unlinked n"
  shows "in_side m = in_side n" "owner_seat m = owner_seat n" "price_limit_fp m = price_limit_fp n"
    "post_seq m = post_seq n" "intent_id m = intent_id n" "contracts_remaining m = contracts_remaining n"
proof -
  have "in_side (unlinked i) = in_side i" "owner_seat (unlinked i) = owner_seat i" "price_limit_fp (unlinked i) = price_limit_fp i"
    "post_seq (unlinked i) = post_seq i" "intent_id (unlinked i) = intent_id i"
    "contracts_remaining (unlinked i) = contracts_remaining i" for i
    by (simp_all add: unlinked_def)
  then show "in_side m = in_side n" "owner_seat m = owner_seat n" "price_limit_fp m = price_limit_fp n"
    "post_seq m = post_seq n" "intent_id m = intent_id n" "contracts_remaining m = contracts_remaining n"
    using assms by metis+
qed

lemma rest_seats:
  assumes "intent_rest side b' = intent_rest side b"
  shows "seat b' i = Inr s \<longleftrightarrow> seat b i = Inr s" "seat_tree_root b' = seat_tree_root b"
proof -
  have *: "seat c i = Inr s \<longleftrightarrow> unat i < length (bk_nodes (intent_rest side c)) \<and> bk_nodes (intent_rest side c) ! unat i = NSeat s" for c
  proof -
    have u: "unlink_intent n = NSeat s \<longleftrightarrow> n = NSeat s" for n by (cases n) simp_all
    have "bk_nodes (intent_rest side c) = map unlink_intent (bk_nodes c)" by (simp add: intent_rest_def)
    then show ?thesis using u by (simp add: seat_ok cong: conj_cong)
  qed
  show "seat b' i = Inr s \<longleftrightarrow> seat b i = Inr s" unfolding * assms ..
  show "seat_tree_root b' = seat_tree_root b"
    using arg_cong [OF assms, of seat_tree_root] by (simp add: intent_rest_def split: if_splits)
qed

lemma rest_intents:
  assumes "seat_rest b' = seat_rest b"
  shows "intent b' i = Inr n \<longleftrightarrow> intent b i = Inr n" "lk_root (intent_view side b') = lk_root (intent_view side b)"
proof -
  have *: "intent c i = Inr n \<longleftrightarrow> unat i < length (bk_nodes (seat_rest c)) \<and> bk_nodes (seat_rest c) ! unat i = NIntent n" for c
  proof -
    have u: "unlink_seat m = NIntent n \<longleftrightarrow> m = NIntent n" for m by (cases m) simp_all
    have "bk_nodes (seat_rest c) = map unlink_seat (bk_nodes c)" by (simp add: seat_rest_def)
    then show ?thesis using u by (simp add: intent_ok cong: conj_cong)
  qed
  show "intent b' i = Inr n \<longleftrightarrow> intent b i = Inr n" unfolding * assms ..
  have "long_tree_root b' = long_tree_root b" "short_tree_root b' = short_tree_root b"
    using arg_cong [OF assms, of long_tree_root] arg_cong [OF assms, of short_tree_root] by (simp_all add: seat_rest_def)
  then show "lk_root (intent_view side b') = lk_root (intent_view side b)" by (simp add: intent_view_def)
qed

lemma rest_slots:
  assumes "intent_rest side b' = intent_rest side b"
  shows "slots s b' = slots s b" "seat_slots b' = seat_slots b"
proof -
  have sub: "slots s c \<subseteq> slots s c'" if r: "intent_rest side c' = intent_rest side c" for c c'
  proof
    fix i assume "i \<in> slots s c"
    then obtain n where n: "intent c i = Inr n" "in_side n = s" unfolding slots_def by blast
    obtain m where m: "intent c' i = Inr m" "unlinked m = unlinked n" by (rule intent_rest_iff [OF r n(1)])
    show "i \<in> slots s c'" using unlinked_fields(1) [OF m(2)] n(2) m(1) unfolding slots_def by blast
  qed
  show "slots s b' = slots s b" using sub [OF assms] sub [OF assms [symmetric]] by blast
  show "seat_slots b' = seat_slots b" by (simp add: seat_slots_def rest_seats [OF assms])
qed

lemma other_root:
  assumes "intent_rest side b' = intent_rest side b" "side \<in> sides" "o' \<in> sides" "o' \<noteq> side"
  shows "lk_root (intent_view o' b') = lk_root (intent_view o' b)"
proof -
  have "lk_root (intent_view o' (intent_rest side c)) = lk_root (intent_view o' c)" for c
    using assms(2-4) by (auto simp: intent_rest_def intent_view_def sides_def)
  from this [of b] this [of b'] show ?thesis unfolding assms(1) by simp
qed

lemma off_same:
  assumes "intent_rest side b' = intent_rest side b" "off D (intent_view side b) (intent_view side b')" "intent b i = Inr n" "i \<notin> D"
  shows "\<exists>m. intent b' i = Inr m \<and> same_intent m n"
proof -
  obtain m where m: "intent b' i = Inr m" "unlinked m = unlinked n" by (rule intent_rest_iff [OF assms(1,3)])
  have "same_intent m n" using assms(2,4) unlinked_fields [OF m(2)] intent_view_get [OF m(1), of side] intent_view_get [OF assms(3), of side]
    unfolding same_intent_def off_def by metis
  then show ?thesis using m(1) by blast
qed

lemma filed_side:
  assumes f: "filed X b T z" and side: "side \<in> sides" and t: "side_tree side b' t'" and r: "intent_rest side b' = intent_rest side b"
    and off: "off D (intent_view side b) (intent_view side b')" "D \<subseteq> slots side b"
    and X: "set (ids t') = slots side b - X'" "\<And>i. i \<notin> slots side b \<Longrightarrow> i \<in> X' \<longleftrightarrow> i \<in> X"
  shows "filed X' b' (T(side := t')) z"
proof (rule filedI)
  note d = filedD [OF f]
  show "book_inv b'" by (rule book_inv_pool [OF pool_rest(1) [OF r] d(1)])
  have disj: "slots s b \<inter> slots side b = {}" if "s \<noteq> side" for s using that by (auto simp: slots_def)
  fix s assume s: "s \<in> sides"
  show "set (ids ((T(side := t')) s)) = slots s b' - X'"
    using X disj [of s] d(3) [OF s] by (cases "s = side") (auto simp: rest_slots [OF r])
  show "side_tree s b' ((T(side := t')) s)"
  proof (cases "s = side")
    case False
    have "side_tree s b' (T s)"
    proof (rule side_tree_same [OF d(2) [OF s] other_root [OF r side s False]])
      fix i n assume i: "i \<in> set (ids (T s))" "intent b i = Inr n"
      then have "i \<notin> D" using off(2) d(3) [OF s] disj [OF False] by blast
      from off_same [OF r off(1) i(2) this] show "\<exists>m. intent b' i = Inr m \<and> same_intent m n" .
    qed
    then show ?thesis using False by simp
  qed (simp add: t)
next
  note d = filedD [OF f]
  fix i n assume "intent b' i = Inr n"
  then obtain m where m: "intent b i = Inr m" "unlinked m = unlinked n" by (rule intent_rest_iff [OF r [symmetric]])
  show "in_side n \<in> sides" using d(4) [OF m(1)] unlinked_fields(1) [OF m(2)] by simp
  show "\<exists>s. seat b' (owner_seat n) = Inr s" using d(5) [OF m(1)] unlinked_fields(2) [OF m(2)] by (simp add: rest_seats [OF r])
next
  note d = filedD [OF f]
  show "seat_tree b' z"
    by (rule seat_tree_same [OF d(6) rest_seats(2) [OF r]]) (auto simp: rest_seats(1) [OF r])
  have "seat_slots b \<inter> slots side b = {}" by (auto simp: seat_slots_def slots_def seat_ok intent_ok)
  then show "set (ids z) = seat_slots b' - X'" using X(2) d(7) by (auto simp: rest_slots [OF r])
qed

lemma filed_insert:
  assumes f: "filed {i} b T z" and n: "intent b i = Inr n" and i: "i \<noteq> NULL_IDX"
  shows "\<exists>b' T'. itree_insert (in_side n) i b = (Inr (), b') \<and> filed {} b' T' z"
proof -
  let ?s = "in_side n"
  note d = filedD [OF f]
  have s: "?s \<in> sides" by (rule d(4) [OF n])
  have m: "i \<in> slots ?s b" using n by (auto simp: slots_def)
  have D: "insert i (set (ids (T ?s))) = slots ?s b" using d(3) [OF s] m by auto
  from itree_insert_run [OF sidesD [OF s] d(2) [OF s] i n] d(3) [OF s]
  obtain b' t' where r: "itree_insert ?s i b = (Inr (), b')" "side_tree ?s b' t'"
    "ids t' = place_in (key_at ?s b) (intent_key ?s n) i (ids (T ?s))" "intent_rest ?s b' = intent_rest ?s b"
    "off (insert i (set (ids (T ?s)))) (intent_view ?s b) (intent_view ?s b')" by auto
  have "filed {} b' (T(?s := t')) z"
    by (rule filed_side [OF f s r(2,4,5)]) (use D m in \<open>auto simp: r(3)\<close>)
  then show ?thesis using r(1) by blast
qed

lemma filed_remove:
  assumes f: "filed {} b T z" and n: "intent b i = Inr n"
  shows "\<exists>b' T'. itree_remove (in_side n) i b = (Inr (), b') \<and> filed {i} b' T' z \<and> intent_rest (in_side n) b' = intent_rest (in_side n) b"
proof -
  let ?s = "in_side n"
  note d = filedD [OF f]
  have s: "?s \<in> sides" by (rule d(4) [OF n])
  have m: "i \<in> set (ids (T ?s))" using n d(3) [OF s] by (auto simp: slots_def)
  from itree_remove_run [OF sidesD [OF s] d(2) [OF s] m]
  obtain b' t' where r: "itree_remove ?s i b = (Inr (), b')" "side_tree ?s b' t'" "ids t' = remove1 i (ids (T ?s))"
    "intent_rest ?s b' = intent_rest ?s b" "off (set (ids (T ?s))) (intent_view ?s b) (intent_view ?s b')" by blast
  have "set (ids t') = slots ?s b - {i}"
    using side_tree_distinct [OF d(2) [OF s]] d(3) [OF s] by (simp add: r(3))
  then have "filed {i} b' (T(?s := t')) z"
    by (intro filed_side [OF f s r(2,4,5)]) (use d(3) [OF s] m in auto)
  then show ?thesis using r(1,4) by blast
qed

lemma trader_same: "same_seat m n \<Longrightarrow> trader m = trader n"
  by (simp add: same_seat_def)

lemma off_same_seat:
  assumes "seat_rest b' = seat_rest b" "off D (seat_view b) (seat_view b')" "seat b i = Inr n" "i \<notin> D"
  shows "\<exists>m. seat b' i = Inr m \<and> same_seat m n"
proof -
  obtain m where m: "seat b' i = Inr m" "unseated m = unseated n" by (rule seat_rest_iff [OF assms(1,3)])
  have "same_seat m n" using assms(2,4) trader_unseated [OF m(2)] seat_view_get [OF m(1)] seat_view_get [OF assms(3)]
    unfolding same_seat_def off_def by metis
  then show ?thesis using m(1) by blast
qed

lemma rest_seat_slots:
  assumes "seat_rest b' = seat_rest b"
  shows "seat_slots b' = seat_slots b" "slots s b' = slots s b"
proof -
  have sub: "seat_slots c \<subseteq> seat_slots c'" if r: "seat_rest c' = seat_rest c" for c c'
    unfolding seat_slots_def using seat_rest_iff [OF r] by blast
  show "seat_slots b' = seat_slots b" using sub [OF assms] sub [OF assms [symmetric]] by blast
  show "slots s b' = slots s b" by (simp add: slots_def rest_intents [OF assms])
qed

lemma filed_seat:
  assumes f: "filed {i} b T z" and n: "seat b i = Inr n" "i \<noteq> NULL_IDX" and new: "trader n \<notin> trader_at b ` set (ids z)"
  shows "\<exists>b' z'. stree_insert i b = (Inr (), b') \<and> filed {} b' T z' \<and> i \<in> seat_slots b'"
proof -
  note d = filedD [OF f]
  have i: "i \<notin> set (ids z)" "i \<in> seat_slots b" using d(7) n(1) by (auto simp: seat_slots_def)
  from stree_insert_run [OF d(6) n(2,1) i(1) new] obtain b' z' where r: "stree_insert i b = (Inr (), b')" "seat_tree b' z'"
    "ids z' = place_in (trader_at b) (trader n) i (ids z)" "seat_rest b' = seat_rest b" by blast
  have "filed {} b' T z'"
  proof (rule filedI)
    show "book_inv b'" by (rule book_inv_pool [OF pool_rest(2) [OF r(4)] d(1)])
    have iv: "i \<notin> slots s b" for s using n(1) by (auto simp: slots_def seat_ok intent_ok)
    fix s assume s: "s \<in> sides"
    show "set (ids (T s)) = slots s b' - {}" using d(3) [OF s] iv [of s] by (simp add: rest_seat_slots [OF r(4)])
    show "side_tree s b' (T s)"
      by (rule side_tree_same [OF d(2) [OF s] rest_intents(2) [OF r(4)]]) (auto simp: rest_intents(1) [OF r(4)])
  next
    fix j m assume "intent b' j = Inr m"
    then have m: "intent b j = Inr m" by (simp add: rest_intents(1) [OF r(4)])
    show "in_side m \<in> sides" by (rule d(4) [OF m])
    obtain s where s: "seat b (owner_seat m) = Inr s" using d(5) [OF m] ..
    show "\<exists>s. seat b' (owner_seat m) = Inr s" by (rule seat_rest_iff [OF r(4) s]) blast
  next
    show "set (ids z') = seat_slots b' - {}" using d(7) i(2) by (auto simp: r(3) rest_seat_slots [OF r(4)])
  qed (rule r(2))
  moreover have "i \<in> seat_slots b'" using i(2) by (simp add: rest_seat_slots [OF r(4)])
  ultimately show ?thesis using r(1) by blast
qed

section \<open>An operation on the pool\<close>

definition same_roots :: "book \<Rightarrow> book \<Rightarrow> bool" where
  "same_roots b b' \<longleftrightarrow> long_tree_root b' = long_tree_root b \<and> short_tree_root b' = short_tree_root b \<and>
     seat_tree_root b' = seat_tree_root b"

lemma filed_touch:
  assumes f: "filed X b T z" and inv: "book_inv b'" and r: "same_roots b b'"
    and i: "\<And>i n. i \<notin> X \<Longrightarrow> intent b i = Inr n \<Longrightarrow> \<exists>m. intent b' i = Inr m \<and> same_intent m n"
    and s: "\<And>i n. i \<notin> X \<Longrightarrow> seat b i = Inr n \<Longrightarrow> \<exists>m. seat b' i = Inr m \<and> same_seat m n"
    and w: "\<And>i m. intent b' i = Inr m \<Longrightarrow> in_side m \<in> sides \<and> (\<exists>s. seat b' (owner_seat m) = Inr s)"
    and X: "\<And>side. slots side b' - X' = slots side b - X" "seat_slots b' - X' = seat_slots b - X"
  shows "filed X' b' T z"
proof (rule filedI)
  note d = filedD [OF f]
  fix side assume side: "side \<in> sides"
  show "set (ids (T side)) = slots side b' - X'" by (simp add: d(3) [OF side] X)
  have root: "lk_root (intent_view side b') = lk_root (intent_view side b)" using r by (simp add: intent_view_def same_roots_def)
  show "side_tree side b' (T side)"
  proof (rule side_tree_same [OF d(2) [OF side] root])
    fix j n assume "j \<in> set (ids (T side))" "intent b j = Inr n"
    then show "\<exists>m. intent b' j = Inr m \<and> same_intent m n" using i d(3) [OF side] by blast
  qed
next
  note d = filedD [OF f]
  show "seat_tree b' z"
  proof (rule seat_tree_same [OF d(6)])
    show "seat_tree_root b' = seat_tree_root b" using r by (simp add: same_roots_def)
    fix j n assume "j \<in> set (ids z)" "seat b j = Inr n"
    then show "\<exists>m. seat b' j = Inr m \<and> same_seat m n" using s d(7) by blast
  qed
  show "set (ids z) = seat_slots b' - X'" by (simp add: d(7) X)
qed (use inv w in blast)+

lemma nodes_updated:
  assumes "bk_nodes b' = (bk_nodes b)[unat i := n]" "unat i < length (bk_nodes b)"
  shows "intent b' j = Inr m \<longleftrightarrow> (if j = i then n = NIntent m else intent b j = Inr m)"
    "seat b' j = Inr s \<longleftrightarrow> (if j = i then n = NSeat s else seat b j = Inr s)"
  using assms by (auto simp: intent_ok seat_ok nth_list_update word_unat_eq_iff)

lemma filed_claim:
  assumes f: "filed {} b T z" and u: "is_used n" and c: "claim_node n b = (Inr i, b')"
    and w: "\<And>m. n = NIntent m \<Longrightarrow> in_side m \<in> sides \<and> (\<exists>s. seat b (owner_seat m) = Inr s)"
  shows "filed {i} b' T z" "i \<noteq> NULL_IDX" "bk_nodes b' = (bk_nodes b)[unat i := n]" "unat i < length (bk_nodes b)"
    "\<not> is_used (bk_nodes b ! unat i)"
proof -
  note d = filedD [OF f] and cl = claim_node_inv [OF filedD(1) [OF f] u c]
  show "bk_nodes b' = (bk_nodes b)[unat i := n]" "unat i < length (bk_nodes b)" "\<not> is_used (bk_nodes b ! unat i)" by (fact cl)+
  note nu = nodes_updated [OF cl(4,3)]
  have fresh: "\<not> (\<exists>m. intent b i = Inr m)" "\<not> (\<exists>s. seat b i = Inr s)" using cl(2) by (auto simp: intent_ok seat_ok)
  obtain xs where "book_free b' xs" using cl(1) by (auto simp: book_inv_def)
  from book_freeD(7) [OF this] cl(3,4) u show "i \<noteq> NULL_IDX" by (cases "i = 0") (auto simp: NULL_IDX_def)
  show "filed {i} b' T z"
  proof (rule filed_touch [OF f cl(1)])
    show "same_roots b b'" using c by (auto simp: same_roots_def claim_node_ok alloc_node_ok put_node_def split: if_splits)
    show "\<exists>m'. intent b' j = Inr m' \<and> same_intent m' m" if "intent b j = Inr m" for j m
      using that fresh by (cases "j = i") (auto simp: nu)
    show "\<exists>m'. seat b' j = Inr m' \<and> same_seat m' m" if "seat b j = Inr m" for j m
      using that fresh by (cases "j = i") (auto simp: nu)
    fix j m assume m: "intent b' j = Inr m"
    have "in_side m \<in> sides \<and> (\<exists>s. seat b (owner_seat m) = Inr s)" using m w d(4,5) by (auto simp: nu split: if_splits)
    then show "in_side m \<in> sides \<and> (\<exists>s. seat b' (owner_seat m) = Inr s)" using fresh(2) by (auto simp: nu)
  next
    show "slots side b' - {i} = slots side b - {}" "seat_slots b' - {i} = seat_slots b - {}" for side
      using fresh by (auto simp: slots_def seat_slots_def nu)
  qed
qed

lemma filed_free:
  assumes f: "filed {i} b T z" and n: "intent b i = Inr n" and i: "i \<noteq> NULL_IDX"
  shows "\<exists>b'. free_node i b = (Inr (), b') \<and> filed {} b' T z \<and> (\<forall>j m. intent b' j = Inr m \<longleftrightarrow> j \<noteq> i \<and> intent b j = Inr m) \<and>
    (\<forall>j s. seat b' j = Inr s \<longleftrightarrow> seat b j = Inr s)"
proof -
  note d = filedD [OF f]
  have len: "unat i < length (bk_nodes b)" "bk_nodes b ! unat i = NIntent n" using n by (simp_all add: intent_ok)
  obtain b' where r: "free_node i b = (Inr (), b')" using i len(1) by (auto simp: free_node_ok NULL_IDX_def)
  have live: "unat i \<in> live_nodes b" using len by (simp add: live_nodes_def)
  note fr = free_node_inv [OF d(1) live r]
  note nu = nodes_updated [OF fr(2) len(1)]
  have ns: "\<not> (\<exists>s. seat b i = Inr s)" using len by (simp add: seat_ok)
  have seats: "seat b' j = Inr s \<longleftrightarrow> seat b j = Inr s" for j s using ns by (auto simp: nu)
  have "filed {} b' T z"
  proof (rule filed_touch [OF f fr(1)])
    show "same_roots b b'" using r by (auto simp: same_roots_def free_node_ok)
    show "in_side m \<in> sides \<and> (\<exists>s. seat b' (owner_seat m) = Inr s)" if "intent b' j = Inr m" for j m
      using that d(4,5) by (auto simp: nu(1) seats split: if_splits)
    show "slots side b' - {} = slots side b - {i}" "seat_slots b' - {} = seat_slots b - {i}" for side
      using ns by (auto simp: slots_def seat_slots_def nu(1) seats)
  qed (auto simp: nu)
  then show ?thesis using r seats by (auto simp: nu(1))
qed

end
