(* ===== verification/Book_Programs.thy ===== *)
theory Book_Programs
  imports Book_Order Book_Frame
begin

text \<open>
  The programs of the handlers over a book keep its invariant: placing an intent, cancelling one,
  pruning the expired ones of a trader, taking one contract of each side of a match or of a
  substitution. Matching and substitution keep it whatever their result, since the inline match
  of a post commits what an error leaves behind.
\<close>

section \<open>Updates in place\<close>

lemma filed_counters [simp]:
  "filed X (b\<lparr> bk_next_intent_id := k \<rparr>) T z = filed X b T z" "filed X (b\<lparr> bk_next_seq := k \<rparr>) T z = filed X b T z"
proof -
  have up: "filed X b' T z" if f: "filed X b T z" and n: "bk_nodes b' = bk_nodes b" "pool b' = pool b" "same_roots b b'" for b b'
  proof (rule filed_touch [OF f book_inv_pool [OF n(2) filedD(1) [OF f]] n(3)])
    have i: "intent b' j = intent b j" "seat b' j = seat b j" for j by (simp_all add: intent_def seat_def n(1))
    show "\<exists>m. intent b' j = Inr m \<and> same_intent m n" if "intent b j = Inr n" for j n using that by (simp add: i)
    show "\<exists>m. seat b' j = Inr m \<and> same_seat m n" if "seat b j = Inr n" for j n using that by (simp add: i)
    show "in_side m \<in> sides \<and> (\<exists>s. seat b' (owner_seat m) = Inr s)" if "intent b' j = Inr m" for j m
      using that filedD(4,5) [OF f] by (simp add: i)
    show "slots side b' - X = slots side b - X" "seat_slots b' - X = seat_slots b - X" for side
      by (simp_all add: slots_def seat_slots_def i)
  qed
  have *: "filed X b' T z = filed X b T z" if "bk_nodes b' = bk_nodes b" "pool b' = pool b" "same_roots b b'" for b'
    using up [of b b'] up [of b' b] that by (auto simp: same_roots_def)
  show "filed X (b\<lparr> bk_next_intent_id := k \<rparr>) T z = filed X b T z" "filed X (b\<lparr> bk_next_seq := k \<rparr>) T z = filed X b T z"
    by (rule *; simp add: pool_def same_roots_def)+
qed

lemma filed_put_seat:
  assumes f: "filed {} b T z" and s: "seat b i = Inr s" and e: "same_seat s' s"
  shows "filed {} (put_node i (NSeat s') b) T z"
proof -
  let ?b = "put_node i (NSeat s') b"
  have len: "unat i < length (bk_nodes b)" "bk_nodes b ! unat i = NSeat s" using s by (simp_all add: seat_ok)
  have n: "bk_nodes ?b = (bk_nodes b)[unat i := NSeat s']" by (simp add: put_node_def)
  have "(map mark (bk_nodes b))[unat i := None] = map mark (bk_nodes b)" using len by (intro list_update_same_conv [THEN iffD2]) simp_all
  then have p: "pool ?b = pool b" by (simp add: pool_def put_node_def map_update)
  note nu = nodes_updated [OF n len(1)]
  have ni: "intent b i \<noteq> Inr m" for m using len by (simp add: intent_ok)
  have seats: "(\<exists>t. seat ?b j = Inr t) \<longleftrightarrow> (\<exists>t. seat b j = Inr t)" for j using s by (auto simp: nu)
  show ?thesis
  proof (rule filed_touch [OF f book_inv_pool [OF p filedD(1) [OF f]]])
    show "same_roots b ?b" by (simp add: same_roots_def put_node_def)
    show "\<exists>m. intent ?b j = Inr m \<and> same_intent m n" if "intent b j = Inr n" for j n using that ni by (auto simp: nu)
    show "\<exists>m. seat ?b j = Inr m \<and> same_seat m n" if "seat b j = Inr n" for j n using that e s by (cases "j = i") (auto simp: nu)
    show "in_side m \<in> sides \<and> (\<exists>s. seat ?b (owner_seat m) = Inr s)" if "intent ?b j = Inr m" for j m
      using that filedD(4,5) [OF f] seats by (auto simp: nu(1) split: if_splits)
    show "slots side ?b - {} = slots side b - {}" for side using ni by (auto simp: slots_def nu)
    show "seat_slots ?b - {} = seat_slots b - {}" using seats by (simp add: seat_slots_def)
  qed
qed

lemma filed_put_intent:
  assumes f: "filed {} b T z" and n: "intent b i = Inr n" and e: "same_intent n' n" "owner_seat n' = owner_seat n"
  shows "filed {} (put_node i (NIntent n') b) T z"
proof -
  let ?b = "put_node i (NIntent n') b"
  have len: "unat i < length (bk_nodes b)" "bk_nodes b ! unat i = NIntent n" using n by (simp_all add: intent_ok)
  have u: "bk_nodes ?b = (bk_nodes b)[unat i := NIntent n']" by (simp add: put_node_def)
  have "(map mark (bk_nodes b))[unat i := None] = map mark (bk_nodes b)" using len by (intro list_update_same_conv [THEN iffD2]) simp_all
  then have p: "pool ?b = pool b" by (simp add: pool_def put_node_def map_update)
  note nu = nodes_updated [OF u len(1)]
  have ns: "seat b i \<noteq> Inr m" for m using len by (simp add: seat_ok)
  have side: "in_side n' = in_side n" using e by (simp add: same_intent_def)
  have seats: "seat ?b j = Inr t \<longleftrightarrow> seat b j = Inr t" for j t using ns by (auto simp: nu)
  show ?thesis
  proof (rule filed_touch [OF f book_inv_pool [OF p filedD(1) [OF f]]])
    show "same_roots b ?b" by (simp add: same_roots_def put_node_def)
    show "\<exists>m. intent ?b j = Inr m \<and> same_intent m k" if "intent b j = Inr k" for j k using that e n by (cases "j = i") (auto simp: nu)
    show "\<exists>m. seat ?b j = Inr m \<and> same_seat m k" if "seat b j = Inr k" for j k using that by (simp add: seats)
    show "in_side m \<in> sides \<and> (\<exists>s. seat ?b (owner_seat m) = Inr s)" if "intent ?b j = Inr m" for j m
      using that filedD(4,5) [OF f] n side e(2) by (auto simp: nu(1) seats split: if_splits)
    have "(\<exists>m. intent ?b j = Inr m \<and> in_side m = s) \<longleftrightarrow> (\<exists>m. intent b j = Inr m \<and> in_side m = s)" for j s
      using n side by (cases "j = i") (auto simp: nu)
    then show "slots s ?b - {} = slots s b - {}" for s by (simp add: slots_def)
    show "seat_slots ?b - {} = seat_slots b - {}" by (simp add: seat_slots_def seats)
  qed
qed

lemma book_okI: "filed {} b T z \<Longrightarrow> book_ok b"
  by (auto simp: book_ok_def)

section \<open>Placing an intent\<close>

lemma seat_find_or_create_filed:
  assumes f: "filed {} b T z" and run: "seat_find_or_create k b = (Inr i, b')"
  shows "\<exists>z'. filed {} b' T z' \<and> (\<exists>s. seat b' i = Inr s)"
proof (cases "find_seat (trader_at b) k (ids z) = NULL_IDX")
  case False
  note d = filedD [OF f]
  have "k \<in> trader_at b ` set (ids z)"
    using False find_seat_cases(2) [of "trader_at b" "ids z" k] d(6) by (auto simp: seat_tree_def)
  then obtain j where j: "j \<in> set (ids z)" "find_seat (trader_at b) k (ids z) = j"
    using find_seat_cases(1) [of "trader_at b" "ids z"] d(6) by (auto simp: seat_tree_def)
  have "i = j" "b' = b" using run False j(2) seat_find_run [OF d(6), of k]
    by (auto simp: seat_find_or_create_def bnd_ok asks_ok ret_ok)
  with f j(1) seat_tree_member [OF d(6)] show ?thesis by blast
next
  case True
  note d = filedD [OF f]
  let ?n = "\<lparr> sn_color = RB_RED, sn_left = NULL_IDX, sn_right = NULL_IDX, sn_parent = NULL_IDX,
    trader = k, active_intent_count = 0, sn_flags = 0 \<rparr>"
  have new: "k \<notin> trader_at b ` set (ids z)"
  proof
    assume "k \<in> trader_at b ` set (ids z)"
    then obtain j where j: "j \<in> set (ids z)" "trader_at b j = k" by auto
    then have "find_seat (trader_at b) k (ids z) = j" using find_seat_cases(1) [of "trader_at b" "ids z" j] d(6) by (simp add: seat_tree_def)
    with True seat_tree_member [OF d(6) j(1)] show False by simp
  qed
  from run True seat_find_run [OF d(6), of k] obtain c where c: "claim_node (NSeat ?n) b = (Inr i, c)" and ins: "stree_insert i c = (Inr (), b')"
    by (auto simp: seat_find_or_create_def bnd_ok asks_ok ret_ok seq_ok write_seat_ok claim_node_ok)
  note cl = filed_claim [OF f _ c, simplified]
  note nu = nodes_updated [OF cl(3,4)]
  have n: "seat c i = Inr ?n" by (simp add: nu)
  have "trader_at c j = trader_at b j" if j: "j \<in> set (ids z)" for j
  proof -
    obtain s where s: "seat b j = Inr s" using seat_tree_member [OF d(6) j] by blast
    then have "j \<noteq> i" using cl(5) by (auto simp: seat_ok)
    then show ?thesis using s nu(2) [of j s] by (simp add: trader_at_seat)
  qed
  then have "trader ?n \<notin> trader_at c ` set (ids z)" using new by force
  from filed_seat [OF cl(1) n cl(2) this] ins show ?thesis by (auto simp: seat_slots_def)
qed

lemma place_intent_ok:
  assumes ok: "book_ok b" and side: "side \<in> sides"
    and run: "place_intent k side flags price n x collateral buffer b = (Inr nid, b')"
  shows "book_ok b'"
proof -
  obtain T z where f: "filed {} b T z" using ok by (auto simp: book_ok_def)
  from run obtain i b1 b2 b3 b4 j b5 sq where
    r: "seat_find_or_create k b = (Inr i, b1)" "count_new_intent i b1 = (Inr (), b2)" "next_intent_id b2 = (Inr nid, b3)"
      "next_seq b3 = (Inr sq, b4)"
      "claim_node (NIntent (new_intent side flags price nid i n x sq collateral buffer)) b4 = (Inr j, b5)"
      "itree_insert side j b5 = (Inr (), b')"
    by (auto simp: place_intent_def bnd_ok seq_ok ret_ok write_intent_ok claim_node_ok)
  let ?n = "new_intent side flags price nid i n x sq collateral buffer"
  obtain z1 s where f1: "filed {} b1 T z1" "seat b1 i = Inr s" using seat_find_or_create_filed [OF f r(1)] by blast
  from r(2) f1(2) obtain m where b2: "b2 = put_node i (NSeat (s\<lparr> active_intent_count := m \<rparr>)) b1"
    by (auto simp: count_new_intent_def bnd_ok asks_ok lift_ok seat_mut_ok)
  have f2: "filed {} b2 T z1" unfolding b2 by (rule filed_put_seat [OF f1]) (simp add: same_seat_def)
  have s2: "\<exists>s. seat b2 i = Inr s" using f1(2) seat_put_node [OF f1(2)] by (simp add: b2)
  have f4: "filed {} b4 T z1" using f2 r(3,4) by (auto simp: next_intent_id_ok next_seq_ok)
  have s4: "\<exists>s. seat b4 i = Inr s" using s2 r(3,4) by (auto simp: next_intent_id_ok next_seq_ok seat_ok)
  have "in_side ?n = side" "owner_seat ?n = i" by (simp_all add: new_intent_def)
  then have w: "in_side m \<in> sides \<and> (\<exists>s. seat b4 (owner_seat m) = Inr s)" if "NIntent ?n = NIntent m" for m
    using that side s4 by auto
  note cl = filed_claim [OF f4 _ r(5) w, simplified]
  have "intent b5 j = Inr ?n" using cl(4) by (simp add: intent_ok cl(3))
  from filed_insert [OF cl(1) this cl(2)] r(6) show ?thesis by (auto simp: \<open>in_side ?n = side\<close> intro: book_okI)
qed

section \<open>Removing intents\<close>

lemma remove_and_free:
  assumes f: "filed {} b T z" and n: "intent b i = Inr n"
  shows "\<exists>b' T'. seq (itree_remove (in_side n) i) (free_node i) b = (Inr (), b') \<and> filed {} b' T' z \<and>
    (\<forall>j m. j \<noteq> i \<longrightarrow> intent b j = Inr m \<longrightarrow> (\<exists>m'. intent b' j = Inr m' \<and> unlinked m' = unlinked m)) \<and>
    (\<forall>j m. intent b' j = Inr m \<longrightarrow> j \<noteq> i \<and> (\<exists>m'. intent b j = Inr m')) \<and>
    (\<forall>j s. seat b' j = Inr s \<longleftrightarrow> seat b j = Inr s)"
proof -
  have i: "i \<noteq> NULL_IDX" using filedD(2,3,4) [OF f] n side_tree_member [of "in_side n" b "T (in_side n)" i]
    by (auto simp: slots_def)
  from filed_remove [OF f n] obtain c T' where r: "itree_remove (in_side n) i b = (Inr (), c)" "filed {i} c T' z"
    "intent_rest (in_side n) c = intent_rest (in_side n) b" by blast
  obtain n' where n': "intent c i = Inr n'" by (rule intent_rest_iff [OF r(3) n])
  from filed_free [OF r(2) n' i] obtain b' where b': "free_node i c = (Inr (), b')" "filed {} b' T' z"
    "\<forall>j m. intent b' j = Inr m \<longleftrightarrow> j \<noteq> i \<and> intent c j = Inr m" "\<forall>j s. seat b' j = Inr s \<longleftrightarrow> seat c j = Inr s" by blast
  have run: "seq (itree_remove (in_side n) i) (free_node i) b = (Inr (), b')" using r(1) b'(1) by (simp add: seq_def bnd_def)
  have "\<exists>m'. intent b' j = Inr m' \<and> unlinked m' = unlinked m" if "j \<noteq> i" "intent b j = Inr m" for j m
    using that(1) b'(3) by (rule_tac intent_rest_iff [OF r(3) that(2)]) blast
  moreover have "j \<noteq> i \<and> (\<exists>m'. intent b j = Inr m')" if "intent b' j = Inr m" for j m
    using that b'(3) by (blast elim: intent_rest_iff [OF r(3) [symmetric]])
  moreover have "seat b' j = Inr s \<longleftrightarrow> seat b j = Inr s" for j s using b'(4) rest_seats(1) [OF r(3)] by simp
  ultimately show ?thesis using run b'(2) by blast
qed

lemma remove_intent_ok:
  assumes ok: "book_ok b" and n: "intent b i = Inr n"
  shows "\<exists>b'. remove_intent (in_side n) i (owner_seat n) b = (Inr (), b') \<and> book_ok b' \<and>
    (\<forall>j m. j \<noteq> i \<longrightarrow> intent b j = Inr m \<longrightarrow> (\<exists>m'. intent b' j = Inr m' \<and> unlinked m' = unlinked m))"
proof -
  obtain T z where f: "filed {} b T z" using ok by (auto simp: book_ok_def)
  from remove_and_free [OF f n] obtain b' T' where r: "seq (itree_remove (in_side n) i) (free_node i) b = (Inr (), b')"
    "filed {} b' T' z" "\<forall>j s. seat b' j = Inr s \<longleftrightarrow> seat b j = Inr s"
    "\<forall>j m. j \<noteq> i \<longrightarrow> intent b j = Inr m \<longrightarrow> (\<exists>m'. intent b' j = Inr m' \<and> unlinked m' = unlinked m)" by blast
  obtain s where s: "seat b' (owner_seat n) = Inr s" using filedD(5) [OF f n] r(3) by blast
  obtain c where c: "itree_remove (in_side n) i b = (Inr (), c)" "free_node i c = (Inr (), b')" using r(1) by (auto simp: seq_ok)
  let ?f = "\<lambda>s. s\<lparr> active_intent_count := saturating_sub (active_intent_count s) 1 \<rparr>"
  have "remove_intent (in_side n) i (owner_seat n) b = (Inr (), put_node (owner_seat n) (NSeat (?f s)) b')"
    using c seat_mut_run [OF s, of ?f] by (simp add: remove_intent_def seq_def bnd_def)
  moreover have "filed {} (put_node (owner_seat n) (NSeat (?f s)) b') T' z"
    by (rule filed_put_seat [OF r(2) s]) (simp add: same_seat_def)
  moreover have "intent (put_node (owner_seat n) (NSeat (?f s)) b') j = Inr m" if "intent b' j = Inr m" for j m
    using that s by (auto simp: put_node_def intent_ok seat_ok nth_list_update word_unat_eq_iff)
  ultimately show ?thesis using book_okI r(4) by blast
qed

lemma always_seat_mut: "(\<And>s. same_seat (f s) s) \<Longrightarrow> always book_ok (seat_mut i f)"
  unfolding always_def
proof (intro allI impI)
  fix b assume e: "\<And>s. same_seat (f s) s" and ok: "book_ok b"
  obtain T z where f: "filed {} b T z" using ok by (auto simp: book_ok_def)
  show "book_ok (snd (seat_mut i f b))"
  proof (cases "seat b i")
    case (Inl x)
    with ok show ?thesis by (simp add: seat_mut_def run_defs)
  next
    case (Inr s)
    with filed_put_seat [OF f Inr e] show ?thesis by (simp add: seat_mut_run book_okI)
  qed
qed

lemma always_asks:
  assumes "\<And>s a. P s \<Longrightarrow> h s = Inr a \<Longrightarrow> P (snd (f a s))"
  shows "always P (bnd (asks h) f)"
  using assms by (auto simp: always_def bnd_def asks_def split: sum.split)

lemma snd_bnd:
  assumes "P (snd (m s))" "\<And>a. always P (f a)"
  shows "P (snd (bnd m f s))"
  using assms by (auto simp: always_def bnd_def split: prod.splits sum.splits)

section \<open>Pruning\<close>

definition prunable :: "book \<Rightarrow> (u8 \<times> u32) list \<Rightarrow> bool" where
  \<comment> \<open>distinct intents with their sides\<close>
  "prunable b xs \<longleftrightarrow> distinct (map snd xs) \<and> (\<forall>(side, i)\<in>set xs. \<exists>n. intent b i = Inr n \<and> in_side n = side)"

lemma prunable_rest:
  assumes "prunable b ((side, i) # xs)"
    and "\<forall>j m. j \<noteq> i \<longrightarrow> intent b j = Inr m \<longrightarrow> (\<exists>m'. intent b' j = Inr m' \<and> unlinked m' = unlinked m)"
  shows "prunable b' xs"
  unfolding prunable_def
proof (intro conjI ballI)
  show "distinct (map snd xs)" using assms(1) by (simp add: prunable_def)
  fix x assume x: "x \<in> set xs"
  obtain s j where sj: "x = (s, j)" by (cases x)
  have "j \<noteq> i" "\<exists>m. intent b j = Inr m \<and> in_side m = s" using assms(1) x by (force simp: prunable_def sj)+
  then obtain m m' where m: "intent b' j = Inr m'" "unlinked m' = unlinked m" "in_side m = s" using assms(2) by blast
  then show "case x of (side, i) \<Rightarrow> \<exists>n. intent b' i = Inr n \<and> in_side n = side"
    using unlinked_fields(1) [OF m(2)] by (simp add: sj)
qed

lemma prune_each_ok:
  assumes "book_ok b" "prunable b (map (\<lambda>(side, i, amt). (side, i)) xs)"
  shows "book_ok (snd (prune_each xs r b))"
  using assms
proof (induction xs arbitrary: b r)
  case Nil
  then show ?case by (simp add: ret_def)
next
  case (Cons x xs)
  obtain side i amt where x: "x = (side, i, amt)" by (cases x)
  obtain T z where f: "filed {} b T z" using Cons.prems(1) by (auto simp: book_ok_def)
  obtain n where n: "intent b i = Inr n" "in_side n = side" using Cons.prems(2) by (auto simp: prunable_def x)
  from remove_and_free [OF f n(1)] obtain b' T' where r: "seq (itree_remove side i) (free_node i) b = (Inr (), b')"
    "filed {} b' T' z" "\<forall>j m. j \<noteq> i \<longrightarrow> intent b j = Inr m \<longrightarrow> (\<exists>m'. intent b' j = Inr m' \<and> unlinked m' = unlinked m)"
    unfolding n(2) by blast
  obtain c where c: "itree_remove side i b = (Inr (), c)" "free_node i c = (Inr (), b')" using r(1) by (auto simp: seq_ok)
  have p: "prunable b' (map (\<lambda>(side, i, amt). (side, i)) xs)"
    using prunable_rest [OF _ r(3)] Cons.prems(2) by (simp add: x)
  show ?case
  proof (cases "checked_add r amt")
    case None
    then show ?thesis using c book_okI [OF r(2)] by (simp add: x seq_def bnd_def lift_def ok_or_err_def ok_or_def)
  next
    case (Some t)
    with Cons.IH [OF book_okI [OF r(2)] p, of t] c show ?thesis
      by (simp add: x seq_def bnd_def lift_def ok_or_err_def ok_or_def)
  qed
qed

text \<open>What a scan of the pool has collected: intents of slots it has passed, in increasing order.\<close>

definition scanned :: "book \<Rightarrow> nat \<Rightarrow> (u8 \<times> u32) list \<Rightarrow> bool" where
  "scanned b i xs \<longleftrightarrow> prunable b xs \<and> (\<forall>x\<in>set xs. unat (snd x) < i)"

lemma scanned_simps: "scanned b i []" "scanned b i xs \<Longrightarrow> prunable b xs" "scanned b i xs \<Longrightarrow> scanned b (Suc i) xs"
  by (auto simp: scanned_def prunable_def)

lemma drop_step: "drop i xs = y # ys \<Longrightarrow> i < length xs \<and> xs ! i = y \<and> drop (Suc i) xs = ys"
  by (metis drop_all drop_Suc list.distinct(1) list.sel(3) not_less nth_via_drop tl_drop)

lemma slot_intent:
  assumes "i < length (bk_nodes b)" "bk_nodes b ! i = NIntent n" "length (bk_nodes b) \<le> 2 ^ 32"
  shows "unat (of_nat i :: u32) = i" "intent b (of_nat i) = Inr n"
proof -
  show u: "unat (of_nat i :: u32) = i" using assms(1,3) by (simp add: unat_of_nat)
  show "intent b (of_nat i) = Inr n" using assms(1,2) by (simp add: intent_ok u)
qed

lemma scanned_add:
  assumes "scanned b i xs" "i < length (bk_nodes b)" "bk_nodes b ! i = NIntent n" "length (bk_nodes b) \<le> 2 ^ 32"
  shows "scanned b (Suc i) (xs @ [(in_side n, of_nat i)])"
proof -
  note s = slot_intent [OF assms(2-4)]
  have "(side, of_nat i) \<notin> set xs" for side using assms(1) s(1) by (auto simp: scanned_def)
  then show ?thesis using assms(1) s by (auto simp: scanned_def prunable_def less_SucI)
qed

lemma collect_own_prunable:
  assumes "collect_own_expired k now i ns buf = Inr xs" "drop i (bk_nodes b) = ns" "length (bk_nodes b) \<le> 2 ^ 32"
    "scanned b i (map (\<lambda>(side, i, amt). (side, i)) buf)"
  shows "prunable b (map (\<lambda>(side, i, amt). (side, i)) xs)"
  using assms
proof (induction ns arbitrary: i buf)
  case (Cons slot rest)
  note at = drop_step [OF Cons.prems(2)]
  note IH = Cons.IH [OF _ at [THEN conjunct2, THEN conjunct2] Cons.prems(3)]
  note skip = IH [OF _ scanned_simps(3) [OF Cons.prems(4)]]
  show ?case
  proof (cases "length buf \<ge> MAX_PRUNES_PER_POST")
    case False
    show ?thesis
    proof (cases slot)
      case (NIntent node)
      with at have n: "i < length (bk_nodes b)" "bk_nodes b ! i = NIntent node" by simp_all
      show ?thesis
        using Cons.prems(1) False skip IH scanned_add [OF Cons.prems(4) n Cons.prems(3)]
        by (auto simp: NIntent try_res_ok split: if_splits)
    qed (use Cons.prems(1) False skip in auto)
  qed (use Cons.prems(1,4) in \<open>simp add: scanned_simps(2)\<close>)
qed (simp add: scanned_simps(2))

lemma collect_expired_prunable:
  assumes "collect_expired b now limit i ns work = Inr xs" "drop i (bk_nodes b) = ns" "length (bk_nodes b) \<le> 2 ^ 32"
    "scanned b i (map (\<lambda>(side, i, owner, amt). (side, i)) work)"
  shows "prunable b (map (\<lambda>(side, i, owner, amt). (side, i)) xs)"
  using assms
proof (induction ns arbitrary: i work)
  case (Cons slot rest)
  note at = drop_step [OF Cons.prems(2)]
  note IH = Cons.IH [OF _ at [THEN conjunct2, THEN conjunct2] Cons.prems(3)]
  note skip = IH [OF _ scanned_simps(3) [OF Cons.prems(4)]]
  show ?case
  proof (cases slot)
    case (NIntent node)
    with at have n: "i < length (bk_nodes b)" "bk_nodes b ! i = NIntent node" by simp_all
    show ?thesis
      using Cons.prems(1) skip IH scanned_add [OF Cons.prems(4) n Cons.prems(3)] scanned_simps(2) [OF Cons.prems(4)]
      by (auto simp: NIntent try_res_ok split: if_splits)
  qed (use Cons.prems(1) skip in auto)
qed (simp add: scanned_simps(2))

lemma pool_length: "book_inv b \<Longrightarrow> length (bk_nodes b) \<le> 2 ^ 32"
proof -
  assume "book_inv b"
  then have "length (bk_nodes b) = unat (bk_capacity b)" using book_freeD(6) by (auto simp: book_inv_def)
  then show ?thesis using unat_lt2p [of "bk_capacity b"] by simp
qed

lemma book_ok_inv: "book_ok b \<Longrightarrow> book_inv b"
  using filedD(1) by (auto simp: book_ok_def)

lemma always_prune_own_ok: "always book_ok (prune_own k now)"
  unfolding prune_own_def
proof (rule always_asks)
  fix b i assume "book_ok b"
  have "always book_ok (bnd (asks (\<lambda>b. collect_own_expired i now 0 (bk_nodes b) [])) (\<lambda>buf.
       bnd (prune_each buf 0) (\<lambda>refund.
       seq (when_do (length buf > 0)
              (seat_mut i (\<lambda>s. s\<lparr> active_intent_count :=
                 saturating_sub (active_intent_count s) (of_nat (length buf)) \<rparr>)))
       (ret refund))))"
  proof (rule always_asks)
    fix b xs assume ok: "book_ok b" and c: "collect_own_expired i now 0 (bk_nodes b) [] = Inr xs"
    have "prunable b (map (\<lambda>(side, i, amt). (side, i)) xs)"
      by (rule collect_own_prunable [OF c _ pool_length [OF book_ok_inv [OF ok]]]) (simp_all add: scanned_simps)
    from prune_each_ok [OF ok this]
    show "book_ok (snd (bnd (prune_each xs 0) (\<lambda>refund.
       seq (when_do (length xs > 0)
              (seat_mut i (\<lambda>s. s\<lparr> active_intent_count :=
                 saturating_sub (active_intent_count s) (of_nat (length xs)) \<rparr>)))
       (ret refund)) b))"
      by (rule snd_bnd) (intro always_intros always_seat_mut, simp add: same_seat_def)
  qed
  then show "book_ok (snd ((if i = NULL_IDX then ret 0 else bnd (asks (\<lambda>b. collect_own_expired i now 0 (bk_nodes b) [])) (\<lambda>buf.
       bnd (prune_each buf 0) (\<lambda>refund.
       seq (when_do (length buf > 0)
              (seat_mut i (\<lambda>s. s\<lparr> active_intent_count :=
                 saturating_sub (active_intent_count s) (of_nat (length buf)) \<rparr>)))
       (ret refund)))) b))"
    using \<open>book_ok b\<close> by (simp add: always_def ret_def)
qed

section \<open>Matching and substitution\<close>

lemma find_intent_loop_at:
  assumes "find_intent_loop k i ns = Inr (j, side)" "drop i (bk_nodes b) = ns" "length (bk_nodes b) \<le> 2 ^ 32"
  shows "\<exists>n. intent b j = Inr n \<and> in_side n = side \<and> intent_id n = k"
  using assms
proof (induction ns arbitrary: i)
  case (Cons slot rest)
  note at = drop_step [OF Cons.prems(2)]
  note IH = Cons.IH [OF _ at [THEN conjunct2, THEN conjunct2] Cons.prems(3)]
  show ?case
  proof (cases slot)
    case (NIntent node)
    with at have n: "i < length (bk_nodes b)" "bk_nodes b ! i = NIntent node" by simp_all
    show ?thesis using Cons.prems(1) IH slot_intent [OF n Cons.prems(3)] by (auto simp: NIntent split: if_splits)
  qed (use Cons.prems(1) IH in auto)
qed simp

lemma resolve_pair_sides:
  assumes ok: "book_ok b" and r: "resolve_pair e b l s = Inr (i, j, m, n)"
  shows "intent b i = Inr m" "in_side m = SIDE_LONG" "intent b j = Inr n" "in_side n = SIDE_SHORT"
    and "intent_id m = l" "intent_id n = s"
proof -
  note len = pool_length [OF book_ok_inv [OF ok]]
  from r have f: "find_intent_by_id b l = Inr (i, SIDE_LONG)" "find_intent_by_id b s = Inr (j, SIDE_SHORT)"
    and n: "intent b i = Inr m" "intent b j = Inr n"
    unfolding resolve_pair_def by (auto simp: try_res_ok check_def split: prod.splits if_splits)
  show "intent b i = Inr m" "intent b j = Inr n" by (fact n)+
  from find_intent_loop_at [OF f(1) [unfolded find_intent_by_id_def] _ len] n(1) show "in_side m = SIDE_LONG" "intent_id m = l" by auto
  from find_intent_loop_at [OF f(2) [unfolded find_intent_by_id_def] _ len] n(2) show "in_side n = SIDE_SHORT" "intent_id n = s" by auto
qed

text \<open>
  What is left of an intent after a fill: its slot is free when no contract remains, and otherwise
  holds the intent, up to its links in the tree. No other intent and no seat changes.
\<close>

definition slot_after :: "book \<Rightarrow> u32 \<Rightarrow> intent_node \<Rightarrow> bool" where
  "slot_after b i n \<longleftrightarrow> (if contracts_remaining n = 0 then \<forall>k. intent b i \<noteq> Inr k
     else \<exists>k. intent b i = Inr k \<and> unlinked k = unlinked n)"

definition rest_same :: "u32 set \<Rightarrow> book \<Rightarrow> book \<Rightarrow> bool" where
  "rest_same X b b' \<longleftrightarrow>
     (\<forall>j m. j \<notin> X \<longrightarrow> intent b j = Inr m \<longrightarrow> (\<exists>m'. intent b' j = Inr m' \<and> unlinked m' = unlinked m)) \<and>
     (\<forall>j m. intent b' j = Inr m \<longrightarrow> (\<exists>m'. intent b j = Inr m')) \<and>
     (\<forall>j s. seat b' j = Inr s \<longleftrightarrow> seat b j = Inr s)"

lemma rest_sameD:
  assumes "rest_same X b b'"
  shows "j \<notin> X \<Longrightarrow> intent b j = Inr m \<Longrightarrow> \<exists>m'. intent b' j = Inr m' \<and> unlinked m' = unlinked m"
    and "intent b' j = Inr m \<Longrightarrow> \<exists>m'. intent b j = Inr m'" and "seat b' j = Inr s \<longleftrightarrow> seat b j = Inr s"
  using assms unfolding rest_same_def by blast+

lemma rest_same_trans:
  assumes "rest_same X a b" "rest_same Y b c" "X \<subseteq> Z" "Y \<subseteq> Z"
  shows "rest_same Z a c"
  unfolding rest_same_def
proof (intro conjI allI impI)
  fix j m assume "j \<notin> Z" "intent a j = Inr m"
  then obtain m1 m2 where "intent c j = Inr m2" "unlinked m2 = unlinked m1" "unlinked m1 = unlinked m"
    using rest_sameD(1) [OF assms(1), of j m] rest_sameD(1) [OF assms(2), of j] assms(3,4) by blast
  then show "\<exists>m'. intent c j = Inr m' \<and> unlinked m' = unlinked m" by simp
qed (use rest_sameD(2,3) [OF assms(1)] rest_sameD(2,3) [OF assms(2)] in blast)+

lemma rest_same_put: "intent b i = Inr n \<Longrightarrow> i \<in> X \<Longrightarrow> rest_same X b (put_node i (NIntent m) b)"
  unfolding rest_same_def by (auto simp: intent_put_node) (auto simp: put_node_def intent_ok seat_ok nth_list_update split: if_splits)

lemma slot_after_keep: "slot_after b i n \<Longrightarrow> rest_same X b b' \<Longrightarrow> i \<notin> X \<Longrightarrow> slot_after b' i n"
  unfolding slot_after_def using rest_sameD(1,2) [of X b b' i] by (fastforce split: if_splits)

lemma remove_if_filled_ok:
  assumes f: "filed {} b T z" and n: "intent b i = Inr n" "in_side n = side" "unlinked n = unlinked m"
  shows "\<exists>b' T'. remove_if_filled side i m b = (Inr (), b') \<and> filed {} b' T' z \<and>
    rest_same {i} b b' \<and> slot_after b' i m"
proof (cases "contracts_remaining m = 0")
  case True
  from remove_and_free [OF f n(1)] obtain b' T' where "seq (itree_remove (in_side n) i) (free_node i) b = (Inr (), b')"
    "filed {} b' T' z" "rest_same {i} b b'" "\<forall>m. intent b' i \<noteq> Inr m" unfolding rest_same_def by blast
  then show ?thesis using n(2) True by (auto simp: remove_if_filled_def when_do_def slot_after_def)
next
  case False
  then show ?thesis using f n(1,3) by (auto simp: remove_if_filled_def when_do_def ret_def rest_same_def slot_after_def)
qed

lemma same_consumed: "same_intent (n\<lparr> contracts_remaining := c, intent_reserved := r, fee_buffer := x \<rparr>) n"
  by (simp add: same_intent_def)

lemma consume_in_book_run:
  assumes ok: "book_ok b" and m: "intent b i = Inr m" "in_side m = SIDE_LONG" and n: "intent b j = Inr n" "in_side n = SIDE_SHORT"
    and pair: "consume_pair bucket ll sl m n = Inr (m', n', rl, rs)"
  shows "\<exists>b'. consume_in_book bucket ll sl i j m n b = (Inr (m', n', rl, rs), b') \<and> book_ok b' \<and>
    rest_same {i, j} b b' \<and> slot_after b' i m' \<and> slot_after b' j n'"
proof -
  obtain T z where f: "filed {} b T z" using ok by (auto simp: book_ok_def)
  have same: "same_intent m' m" "same_intent n' n" "owner_seat m' = owner_seat m" "owner_seat n' = owner_seat n"
    "in_side m' = SIDE_LONG" "in_side n' = SIDE_SHORT"
    using pair m(2) n(2) by (auto simp: consume_pair_def try_res_ok same_consumed)
  let ?b1 = "put_node i (NIntent m') b" and ?b2 = "put_node j (NIntent n') (put_node i (NIntent m') b)"
  have ij: "i \<noteq> j" using m n by auto
  have f1: "filed {} ?b1 T z" by (rule filed_put_intent [OF f m(1) same(1,3)])
  have n1: "intent ?b1 j = Inr n" using n(1) ij by (simp add: intent_put_node [OF m(1)])
  have f2: "filed {} ?b2 T z" by (rule filed_put_intent [OF f1 n1 same(2,4)])
  have i2: "intent ?b2 i = Inr m'" "intent ?b2 j = Inr n'" using ij by (simp_all add: intent_put_node [OF n1] intent_put_node [OF m(1)])
  have r2: "rest_same {i, j} b ?b2"
    by (rule rest_same_trans [OF rest_same_put [OF m(1)] rest_same_put [OF n1]]) auto
  from remove_if_filled_ok [OF f2 i2(1) same(5) refl] obtain b3 T3 where r3: "remove_if_filled SIDE_LONG i m' ?b2 = (Inr (), b3)"
    "filed {} b3 T3 z" "rest_same {i} ?b2 b3" "slot_after b3 i m'" by blast
  from rest_sameD(1) [OF r3(3) _ i2(2)] ij obtain k where k: "intent b3 j = Inr k" "unlinked k = unlinked n'" by blast
  have "in_side k = SIDE_SHORT" using unlinked_fields(1) [OF k(2)] same(6) by simp
  from remove_if_filled_ok [OF r3(2) k(1) this k(2)] obtain b4 T4 where r4: "remove_if_filled SIDE_SHORT j n' b3 = (Inr (), b4)"
    "filed {} b4 T4 z" "rest_same {j} b3 b4" "slot_after b4 j n'" by blast
  have "consume_in_book bucket ll sl i j m n b = (Inr (m', n', rl, rs), b4)"
    using pair intent_mut_run [OF m(1), of "\<lambda>_. m'"] intent_mut_run [OF n1, of "\<lambda>_. n'"] r3(1) r4(1)
    by (simp add: consume_in_book_def bnd_def seq_def lift_def ret_def)
  moreover have "rest_same {i, j} b b3" by (rule rest_same_trans [OF r2 r3(3)]) auto
  then have "rest_same {i, j} b b4" by (rule rest_same_trans [OF _ r4(3)]) auto
  moreover have "slot_after b4 i m'" by (rule slot_after_keep [OF r3(4) r4(3)]) (use ij in simp)
  ultimately show ?thesis using book_okI [OF r4(2)] r4(4) by blast
qed

lemma consume_in_book_ok:
  assumes "book_ok b" "intent b i = Inr m" "in_side m = SIDE_LONG" "intent b j = Inr n" "in_side n = SIDE_SHORT"
  shows "book_ok (snd (consume_in_book bucket ll sl i j m n b))"
proof (cases "consume_pair bucket ll sl m n")
  case (Inl x)
  with assms(1) show ?thesis by (simp add: consume_in_book_def bnd_def lift_def)
next
  case (Inr r)
  obtain m' n' rl rs where "r = (m', n', rl, rs)" by (cases r)
  with consume_in_book_run [OF assms Inr [unfolded this]] show ?thesis by auto
qed

lemma always_counter: "always book_ok next_intent_id"
  unfolding next_intent_id_def by (intro always_intros always_modify) (auto simp: book_ok_def)

lemma snd_lift: "P s \<Longrightarrow> (\<And>a. r = Inr a \<Longrightarrow> P (snd (f a s))) \<Longrightarrow> P (snd (bnd (lift r) f s))"
  by (auto simp: bnd_def lift_def split: sum.split)

lemma snd_asks: "P s \<Longrightarrow> (\<And>a. h s = Inr a \<Longrightarrow> P (snd (f a s))) \<Longrightarrow> P (snd (bnd (asks h) f s))"
  by (auto simp: bnd_def asks_def split: sum.split)

lemma snd_ensure: "P s \<Longrightarrow> P (snd (m s)) \<Longrightarrow> P (snd (seq (ensure c x) m s))"
  by (simp add: seq_def bnd_def ensure_def require_def fail_with_def ret_def)

lemmas snd_intros = snd_lift [where P = book_ok] snd_asks [where P = book_ok] snd_ensure [where P = book_ok]

lemma consume_then_ok:
  assumes "book_ok b" "resolve_pair e b l s = Inr (i, j, m, n)" "\<And>r. always book_ok (f r)"
  shows "book_ok (snd (bnd (consume_in_book bucket ll sl i j m n) f b))"
  using consume_in_book_ok [OF assms(1) resolve_pair_sides(1-4) [OF assms(1,2)]] assms(3) by (rule snd_bnd [where P = book_ok])

lemma match_in_book_ok: "always book_ok (match_in_book e ik pk bucket l s)"
  unfolding match_in_book_def
  apply (rule always_asks)
  subgoal for b x
    apply (cases x)
    apply (simp only: prod.case)
    apply (intro snd_intros consume_then_ok [where b = b]; assumption?)
    apply (intro always_intros always_counter)
    done
  done

lemma substitute_in_book_ok: "always book_ok (substitute_in_book e p bucket k args)"
  unfolding substitute_in_book_def Let_def
  apply (rule always_asks)
  subgoal for b x
    apply (cases x)
    apply (simp only: prod.case)
    apply (intro snd_intros consume_then_ok [where b = b]; assumption?)
    apply (intro always_intros)
    done
  done

lemma new_book_ok:
  assumes "0 < unat cap"
  shows "book_ok (new_intent_book k cap bump fee)"
proof -
  let ?b = "new_intent_book k cap bump fee"
  have n: "intent ?b i \<noteq> Inr n" "seat ?b i \<noteq> Inr s" for i n s
    by (auto simp: intent_ok seat_ok new_intent_book_def)
  have "filed {} ?b (\<lambda>_. Leaf) Leaf"
  proof (rule filedI)
    show "book_inv ?b" using new_book_free [OF assms] by (auto simp: book_inv_def)
    show "side_tree side ?b Leaf" for side
      by (simp add: side_tree_def at_def hangs_def rbt_def intent_view_def new_intent_book_def)
    show "seat_tree ?b Leaf"
      by (simp add: seat_tree_def at_def hangs_def rbt_def seat_view_def new_intent_book_def)
  qed (use n in \<open>simp_all add: slots_def seat_slots_def\<close>)
  then show ?thesis by (rule book_okI)
qed

end
