(* ===== verification/Book_Ledger.thy ===== *)
theory Book_Ledger
  imports Book_Programs Lifecycle_Properties
begin

text \<open>
  Every instruction but the expansion of a book keeps the invariant of every book the program
  owns: the handlers that do not touch a book by composition alone, cancelling and pruning
  because what they remove they found in the same book.
\<close>

section \<open>The books of a ledger\<close>

definition books_ok :: "env \<Rightarrow> world \<Rightarrow> bool" where
  "books_ok e w \<longleftrightarrow> (\<forall>k b. acc_owner (w k) = program_id e \<longrightarrow> acc_data (w k) = DBook b \<longrightarrow> book_ok b)"

named_theorems book_rules \<open>what keeps the books of the ledger\<close>

lemma books_ok_set: "books_ok e w \<Longrightarrow> (\<And>b. d = DBook b \<Longrightarrow> acc_owner (w k) = program_id e \<Longrightarrow> book_ok b) \<Longrightarrow> books_ok e (set_data k d w)"
  by (auto simp: books_ok_def)

lemma books_ok_at: "books_ok e w \<Longrightarrow> acc_owner (w k) = program_id e \<Longrightarrow> acc_data (w k) = DBook b \<Longrightarrow> book_ok b"
  by (simp add: books_ok_def)

lemma keeps_edit_other:
  assumes "\<And>r b. mk r \<noteq> DBook b"
  shows "keeps S (books_ok e) (edit_acct ld mk ai m)"
proof (rule keepsI)
  fix w r w' assume run: "edit_acct ld mk ai m w = (r, w')" and o: "books_ok e w"
  show "books_ok e w'"
  proof (cases "ld (acc_data (w (ai_key ai)))")
    case (Inl x)
    with run o show ?thesis by (simp add: edit_acct_def zoom_def)
  next
    case (Inr s)
    with run o assms show ?thesis by (auto simp: edit_acct_def zoom_def intro!: books_ok_set split: prod.splits)
  qed
qed

lemma keeps_edits [book_rules]:
  "keeps S (books_ok e) (edit_acct l1 DConfig ai m1)" "keeps S (books_ok e) (edit_acct l2 DMargin ai m2)"
  "keeps S (books_ok e) (edit_acct l3 DInstrument ai m3)" "keeps S (books_ok e) (edit_acct l4 DPmlc ai m4)"
  "keeps S (books_ok e) (edit_acct l5 DNonce ai m5)" "keeps S (books_ok e) (edit_acct l6 DFeeSchedule ai m6)"
  "keeps S (books_ok e) (edit_acct l7 DUserVolume ai m7)" "keeps S (books_ok e) (edit_acct l8 DTreasury ai m8)"
  "keeps S (books_ok e) (edit_acct l9 DTimelock ai m9)" "keeps S (books_ok e) (edit_acct l10 DMultisig ai m10)"
  "keeps S (books_ok e) (edit_acct l11 DBuckets ai m11)" "keeps S (books_ok e) (edit_acct l12 DStablecoins ai m12)"
  "keeps S (books_ok e) (edit_acct l13 DSession ai m13)"
  by (rule keeps_edit_other, simp)+

lemma keeps_edit_book:
  assumes "\<And>b r b'. book_ok b \<Longrightarrow> m b = (r, b') \<Longrightarrow> committed S r \<Longrightarrow> book_ok b'"
  shows "keeps S (books_ok e) (edit_acct load_book DBook ai m)"
proof (rule keepsI)
  fix w r w' assume run: "edit_acct load_book DBook ai m w = (r, w')" and c: "committed S r" and o: "books_ok e w"
  show "books_ok e w'"
  proof (cases "load_book (acc_data (w (ai_key ai)))")
    case (Inl x)
    with run o show ?thesis by (simp add: edit_acct_def zoom_def)
  next
    case (Inr b)
    then have d: "acc_data (w (ai_key ai)) = DBook b" by (simp add: load_oks)
    obtain a b' where m: "m b = (a, b')" by fastforce
    with Inr run have r: "r = a" "w' = set_data (ai_key ai) (DBook b') w" by (simp_all add: edit_acct_def zoom_def)
    have "book_ok b'" if "acc_owner (w (ai_key ai)) = program_id e"
      using assms [OF books_ok_at [OF o that d] m] c r(1) by simp
    with o show ?thesis unfolding r(2) by (intro books_ok_set) auto
  qed
qed

lemma keeps_book_programs [book_rules]:
  "keeps S (books_ok e) (edit_acct load_book DBook ai (match_in_book e' ik pk bucket l s))"
  "keeps S (books_ok e) (edit_acct load_book DBook ai (substitute_in_book e' p bucket k args))"
  "keeps S (books_ok e) (edit_acct load_book DBook ai (prune_own k now))"
  by (rule keeps_edit_book, erule (1) alwaysD [OF match_in_book_ok, rotated] alwaysD [OF substitute_in_book_ok, rotated]
    alwaysD [OF always_prune_own_ok, rotated])+

lemma keeps_place:
  "side \<in> sides \<Longrightarrow> keeps False (books_ok e) (edit_acct load_book DBook ai (place_intent k side f pr n x c bf))"
  by (rule keeps_edit_book) (auto simp: committed_def split: sum.splits intro: place_intent_ok)

lemma keeps_write [book_rules]:
  "keeps S (books_ok e) (modify (set_data k (DInstrument i)))" "keeps S (books_ok e) (modify (set_data k (DTimelock t)))"
  "keeps S (books_ok e) (modify (set_data k (DPmlc p)))" "keeps S (books_ok e) (modify (set_data k (DSession s)))"
  "keeps S (books_ok e) (modify (set_data k (DMargin m)))"
  by (auto intro!: keepsI books_ok_set simp: modify_def)

lemma keeps_init:
  assumes "\<And>b. d \<noteq> DBook b"
  shows "keeps S (books_ok e) (init_acct len ai d)"
  unfolding init_acct_def
  by (intro traced_intros keepsI) (use assms in \<open>auto simp: modify_def intro!: books_ok_set\<close>)

lemma keeps_inits [book_rules]:
  "keeps S (books_ok e) (init_acct len ai (DConfig c1))" "keeps S (books_ok e) (init_acct len ai (DMargin c2))"
  "keeps S (books_ok e) (init_acct len ai (DNonce c5))" "keeps S (books_ok e) (init_acct len ai (DFeeSchedule c6))"
  "keeps S (books_ok e) (init_acct len ai (DUserVolume c7))" "keeps S (books_ok e) (init_acct len ai (DTreasury c8))"
  "keeps S (books_ok e) (init_acct len ai (DMultisig c10))" "keeps S (books_ok e) (init_acct len ai (DBuckets c11))"
  "keeps S (books_ok e) (init_acct len ai (DStablecoins c12))" "keeps S (books_ok e) (init_acct len ai (DSession c13))"
  by (rule keeps_init, simp)+

lemma keeps_call:
  assumes l: "account_laws e"
  shows "keeps S (books_ok e) (invoke e c ks sds)"
proof (rule keepsI)
  fix w r w' assume run: "invoke e c ks sds w = (r, w')" and c: "committed S r" and o: "books_ok e w"
  note m = account_lawsD(1) [OF l]
  have "is_fatal x" if "r = Inl x" for x using run machine_lawsD(3) [OF m] that unfolding failed_calls_abort_def by blast
  with c obtain u where u: "r = Inr u" by (cases r) auto
  note call = run [unfolded u]
  show "books_ok e w'"
    unfolding books_ok_def
  proof (intro allI impI)
    fix k b assume k: "acc_owner (w' k) = program_id e" "acc_data (w' k) = DBook b"
    have same: "book_ok b" if "acc_owner (w k) = program_id e"
      using owned_frameD [OF machine_lawsD(1) [OF m] call that] books_ok_at [OF o that] k(2) by simp
    show "book_ok b"
    proof (cases c)
      case (CreateAccount p j n len own)
      note z = machine_lawsD(2) [OF m, unfolded creates_zeroed_def, rule_format, OF call [unfolded CreateAccount]]
      show ?thesis using z k same by (cases "k = j") auto
    qed (use account_lawsD(2) [OF l] call k same in \<open>unfold owners_frame_def, fastforce\<close>)+
  qed
qed

lemma keeps_calls:
  assumes "account_laws e"
  shows "keeps S (books_ok e) (invoke e c ks sds)" "keeps S (books_ok e) (create_account e p new sys n own s)"
  using keeps_call [OF assms] by (simp_all add: create_account_def)

lemma keeps_margins [book_rules]: "keeps False (books_ok e) (edit_margins l s m)"
proof (rule keepsI)
  fix w r w' assume "edit_margins l s m w = (r, w')" "committed False r" "books_ok e w"
  then show "books_ok e w'" by (elim edit_margins_run) (auto intro!: books_ok_set)
qed

section \<open>Handlers\<close>

lemma keeps_inits_checked [book_rules]: "keeps S (books_ok e) (init_instrument_account ia mi ba args b)"
  unfolding init_instrument_account_def by (intro traced_intros book_rules)

lemma keeps_init_book: "0 < unat cap \<Longrightarrow> keeps S (books_ok e) (init_book_account ia ba cap bump fee)"
  unfolding init_book_account_def
  by (intro traced_intros keepsI) (auto simp: modify_def intro!: books_ok_set new_book_ok)

lemma books_admin:
  assumes l: "account_laws e"
  shows "keeps False (books_ok e) (process_init_program_config e accounts a1)"
  and "keeps False (books_ok e) (process_set_global_pause e accounts a2)"
  and "keeps False (books_ok e) (process_init_admin_multisig e accounts a3)"
  and "keeps False (books_ok e) (process_rotate_admin_multisig e accounts a3)"
  and "keeps False (books_ok e) (process_init_fee_schedule e accounts a6)"
  and "keeps False (books_ok e) (process_set_fee_schedule e accounts a6)"
  and "keeps False (books_ok e) (process_init_bucket_registry e accounts a7)"
  and "keeps False (books_ok e) (process_set_bucket_registry e accounts a7)"
  and "keeps False (books_ok e) (process_init_stablecoin_registry e accounts a8)"
  and "keeps False (books_ok e) (process_add_stablecoin_mint e accounts)"
  and "keeps False (books_ok e) (process_remove_stablecoin_mint e accounts)"
  and "keeps False (books_ok e) (process_create_session e accounts a9)"
  and "keeps False (books_ok e) (process_revoke_session e accounts)"
  and "keeps False (books_ok e) (process_create_margin_account e accounts)"
  and "keeps False (books_ok e) (process_set_instrument_status e accounts p)"
  and "keeps False (books_ok e) (process_wrap_stablecoin e accounts amount)"
  and "keeps False (books_ok e) (process_unwrap_stablecoin e accounts amount)"
  and "keeps False (books_ok e) (process_deposit e accounts amount)"
  and "keeps False (books_ok e) (process_withdraw e accounts amount)"
  and "keeps False (books_ok e) (process_sweep_fees e accounts amount)"
  and "keeps False (books_ok e) (process_propose_set_attestation_signer e accounts a10)"
  unfolding process_init_program_config_def process_set_global_pause_def process_init_admin_multisig_def
   process_rotate_admin_multisig_def process_init_fee_schedule_def process_set_fee_schedule_def process_init_bucket_registry_def
   process_set_bucket_registry_def process_init_stablecoin_registry_def check_wusd_registry_def create_wusd_mint_def
   process_add_stablecoin_mint_def process_remove_stablecoin_mint_def process_create_session_def alloc_or_check_session_def
   process_revoke_session_def process_create_margin_account_def process_set_instrument_status_def process_wrap_stablecoin_def
   process_unwrap_stablecoin_def process_deposit_def process_withdraw_def process_sweep_fees_def
   process_propose_set_attestation_signer_def write_proposal_def create_if_empty_def Let_def
  by (intro traced_intros book_rules keeps_calls [OF l])+

lemma keeps_live_pmlc [book_rules]: "keeps S I (live_pmlc ai ia inst)"
  unfolding live_pmlc_def by (intro traced_intros)

lemma books_positions:
  "keeps False (books_ok e) (process_liquidate e accounts n)"
  "keeps False (books_ok e) (process_resolve e accounts n)"
  "keeps False (books_ok e) (process_close_mutual e accounts n)"
  "keeps False (books_ok e) (process_novate e accounts side)"
  "keeps False (books_ok e) (process_match_substitute e accounts margs)"
  "keeps False (books_ok e) (process_match_substitute_with_settle e accounts margs)"
  "keeps False (books_ok e) (process_cancel_timelock e accounts pid)"
  "keeps False (books_ok e) (process_execute_set_attestation_signer e accounts pid)"
  unfolding process_liquidate_def process_resolve_def process_close_mutual_def process_novate_def novate_transfer_def
    process_match_substitute_def process_match_substitute_with_settle_def do_substitute_def substitute_settle_def
    liquidate_settle_def resolve_settle_def close_mutual_settle_def settle_sides_def
    process_cancel_timelock_def process_execute_set_attestation_signer_def Let_def
  by (intro traced_intros book_rules)+

section \<open>Matching and posting\<close>

lemma books_match_core:
  assumes l: "account_laws e"
  shows "keeps True (books_ok e) (match_pair_core e ctx i j n)"
  unfolding match_pair_core_def settle_match_def charge_taker_def ensure_fee_treasury_def ensure_user_volume_def
    open_pmlc_def Let_def
  by (intro traced_intros book_rules keeps_calls [OF l])

lemma books_match:
  assumes l: "account_laws e"
  shows "keeps False (books_ok e) (process_match_pair e accounts args)"
    "keeps False (books_ok e) (process_match_best_available e accounts)"
  unfolding process_match_pair_def process_match_best_available_def unpack_accounts_def Let_def
  by (intro traced_intros book_rules traced_weaken [OF books_match_core [OF l]])+

lemma keeps_after_check:
  assumes "\<And>w a w'. g w = (Inr a, w') \<Longrightarrow> P" "keeps S I g" "\<And>a. P \<Longrightarrow> keeps S I (f a)"
  shows "keeps S I (bnd g f)"
proof (rule keepsI)
  fix w r w' assume run: "bnd g f w = (r, w')" and c: "committed S r" and o: "I w"
  obtain x w1 where g: "g w = (x, w1)" by fastforce
  show "I w'"
  proof (cases x)
    case (Inl y)
    with run g have "r = Inl y" "w' = w1" by (simp_all add: bnd_def)
    with keepsD [OF assms(2) g _ o] Inl c show ?thesis by simp
  next
    case (Inr a)
    with run g have f: "f a w1 = (r, w')" by (simp add: bnd_def)
    from keepsD [OF assms(3) [OF assms(1) [OF g [unfolded Inr]]] f c] keepsD [OF assms(2) g _ o] Inr show ?thesis by simp
  qed
qed

lemma books_post:
  assumes l: "account_laws e"
  shows "keeps False (books_ok e) (process_post_intent e accounts args)"
    "keeps False (books_ok e) (process_post_intent_delegated e accounts args)"
proof -
  have im: "keeps False (books_ok e) (inline_match e p i b m as off args nid)" for p i b m as off nid
    unfolding inline_match_def Let_def by (intro traced_intros books_match_core [OF l])
  have cs: "keeps False (books_ok e) (charge_session ai x)" for ai x
    unfolding charge_session_def by (intro traced_intros book_rules)
  have pc: "keeps False (books_ok e) (post_checks e own c i b m args)" for own c i b m
    unfolding post_checks_def by (intro traced_intros)
  have side: "pia_side args \<in> sides" if "post_checks e own c i b m args w = (Inr x, w')" for own c i b m w x w'
    using that by (auto simp: post_checks_def bnd_ok seq_ok lift_ok check_post_args_def sides_def split: if_splits)
  have dp: "keeps False (books_ok e) (do_post_intent_inner e own p c i b m sa as off args)" for own p c i b m sa as off
    unfolding do_post_intent_inner_def
    by (rule keeps_after_check [OF side pc], assumption) (intro traced_intros book_rules keeps_place im cs)
  show "keeps False (books_ok e) (process_post_intent e accounts args)"
    "keeps False (books_ok e) (process_post_intent_delegated e accounts args)"
    unfolding process_post_intent_def process_post_intent_delegated_def check_session_def Let_def
    by (intro traced_intros dp)+
qed

lemma books_claim: "keeps False (books_ok e) (process_claim_reentry e accounts args)"
proof -
  have c: "keeps False (books_ok e) (claim_checks e accounts args)"
    unfolding claim_checks_def Let_def by (intro traced_intros)
  have side: "cra_side args \<in> sides" if "claim_checks e accounts args w = (Inr x, w')" for w x w'
    using that by (auto simp: claim_checks_def Let_def bnd_ok seq_ok ensure_ok sides_def)
  show ?thesis
    unfolding process_claim_reentry_def Let_def
    by (intro traced_seq traced_checks keeps_after_check [OF side c]) (assumption | intro traced_intros book_rules keeps_place)+
qed

section \<open>Cancelling\<close>

lemma books_finish_cancel:
  assumes run: "finish_cancel e mint b_ai m_ai side i n owner w = (Inr u, w')"
    and b: "acc_data (w (ai_key b_ai)) = DBook b" "intent b i = Inr n" "in_side n = side" and ok: "books_ok e w"
  shows "books_ok e w'"
proof -
  from run b(1) obtain b' m' where r: "remove_intent side i (owner_seat n) b = (Inr (), b')"
    and w': "w' = set_data (ai_key m_ai) (DMargin m') (set_data (ai_key b_ai) (DBook b') w)"
    by (auto simp: finish_cancel_def bnd_ok pda_ok seq_ok edit_acct_ok load_oks lift_ok)
  have "book_ok b'" if "acc_owner (w (ai_key b_ai)) = program_id e"
    using remove_intent_ok [OF books_ok_at [OF ok that b(1)] b(2)] r b(3) by auto
  with ok show ?thesis unfolding w' by (auto intro!: books_ok_set)
qed

lemma lookup_for_cancel_at:
  assumes "lookup_for_cancel b k = Inr (i, side, n, owner)" "book_inv b"
  shows "intent b i = Inr n \<and> in_side n = side"
proof -
  from assms(1) have f: "find_intent_loop k 0 (bk_nodes b) = Inr (i, side)" and n: "intent b i = Inr n"
    by (auto simp: lookup_for_cancel_def try_res_ok find_intent_by_id_def)
  from find_intent_loop_at [OF f _ pool_length [OF assms(2)]] n show ?thesis by auto
qed

lemma books_cancel:
  "keeps False (books_ok e) (process_cancel_intent e accounts i)"
  "keeps False (books_ok e) (process_cancel_intent_delegated e accounts i)"
proof (safe intro!: keepsI)
  fix w r w' assume run: "process_cancel_intent e accounts i w = (r, w')" and c: "committed False r" and o: "books_ok e w"
  from c obtain u where r: "r = Inr u" by (cases r) auto
  from run [unfolded r] obtain b j side n owner mint where
    b: "acc_data (w (ai_key (accounts ! 2))) = DBook b" "acc_owner (w (ai_key (accounts ! 2))) = program_id e"
      "lookup_for_cancel b i = Inr (j, side, n, owner)"
    and f: "finish_cancel e mint (accounts ! 2) (accounts ! 3) side j n owner w = (Inr u, w')"
    by (auto simp: process_cancel_intent_def Let_def seq_ok bnd_ok need_accounts_ok assert_signers_ok assert_writables_ok
      assert_owners_ok read_acct_ok load_oks ensure_ok lift_ok)
  from lookup_for_cancel_at [OF b(3) book_ok_inv [OF books_ok_at [OF o b(2,1)]]] books_finish_cancel [OF f b(1) _ _ o]
  show "books_ok e w'" by simp
next
  fix w r w' assume run: "process_cancel_intent_delegated e accounts i w = (r, w')" and c: "committed False r" and o: "books_ok e w"
  from c obtain u where r: "r = Inr u" by (cases r) auto
  from run [unfolded r] obtain b j side n owner mint where
    b: "acc_data (w (ai_key (accounts ! 3))) = DBook b" "acc_owner (w (ai_key (accounts ! 3))) = program_id e"
      "lookup_for_cancel b i = Inr (j, side, n, owner)"
    and f: "finish_cancel e mint (accounts ! 3) (accounts ! 4) side j n owner w = (Inr u, w')"
    by (auto simp: process_cancel_intent_delegated_def check_session_def Let_def seq_ok bnd_ok need_accounts_ok assert_signers_ok
      assert_writables_ok assert_owners_ok read_acct_ok load_oks ensure_ok lift_ok pda_ok ret_ok)
  from lookup_for_cancel_at [OF b(3) book_ok_inv [OF books_ok_at [OF o b(2,1)]]] books_finish_cancel [OF f b(1) _ _ o]
  show "books_ok e w'" by simp
qed

section \<open>Pruning\<close>

lemma books_prune_items:
  assumes "prune_items e b_ai mint ms items c w = (Inr u, w')"
    and "acc_data (w (ai_key b_ai)) = DBook b" "acc_owner (w (ai_key b_ai)) = program_id e"
    and "prunable b (map (\<lambda>(side, i, owner, amt). (side, i)) items)" "books_ok e w"
  shows "books_ok e w'"
  using assms
proof (induction items arbitrary: w b c)
  case Nil
  then show ?case by (simp add: ret_ok)
next
  case (Cons x xs)
  obtain side i owner amt where x: "x = (side, i, owner, amt)" by (cases x) auto
  obtain n where n: "intent b i = Inr n" "in_side n = side" using Cons.prems(4) by (auto simp: prunable_def x)
  have ok: "book_ok b" by (rule books_ok_at [OF Cons.prems(5,3,2)])
  from remove_intent_ok [OF ok n(1)] obtain b' where b': "remove_intent side i (owner_seat n) b = (Inr (), b')" "book_ok b'"
    "\<forall>j m. j \<noteq> i \<longrightarrow> intent b j = Inr m \<longrightarrow> (\<exists>m'. intent b' j = Inr m' \<and> unlinked m' = unlinked m)"
    unfolding n(2) by blast
  from Cons.prems(1,2) n(1) b'(1) obtain m_ai :: account_info and m m' c' where ne: "acc_data (w (ai_key m_ai)) = DMargin m"
    and rest: "prune_items e b_ai mint ms xs c' (set_data (ai_key b_ai) (DBook b') (set_data (ai_key m_ai) (DMargin m') w)) = (Inr u, w')"
    by (auto simp: x bnd_ok seq_ok asks_ok edit_acct_ok load_oks split: if_splits)
  let ?w = "set_data (ai_key b_ai) (DBook b') (set_data (ai_key m_ai) (DMargin m') w)"
  have o: "books_ok e ?w" using Cons.prems(5) b'(2) by (auto intro!: books_ok_set)
  have p: "prunable b' (map (\<lambda>(side, i, owner, amt). (side, i)) xs)"
    by (rule prunable_rest [OF Cons.prems(4) [unfolded x list.map prod.case] b'(3)])
  show ?case by (rule Cons.IH [OF rest _ _ p o]) (simp_all add: Cons.prems(3))
qed

lemma books_prune: "keeps False (books_ok e) (process_prune_expired e accounts)"
proof (rule keepsI)
  fix w r w' assume run: "process_prune_expired e accounts w = (r, w')" and c: "committed False r" and o: "books_ok e w"
  from c obtain u where r: "r = Inr u" by (cases r) auto
  from run [unfolded r] obtain b mint items where
    b: "acc_data (w (ai_key (accounts ! 2))) = DBook b" "acc_owner (w (ai_key (accounts ! 2))) = program_id e"
      "collect_expired b (clock_slot e) (length (drop 3 accounts)) 0 (bk_nodes b) [] = Inr items"
    and f: "prune_items e (accounts ! 2) mint (drop 3 accounts) items 0 w = (Inr u, w')"
    by (auto simp: process_prune_expired_def Let_def seq_ok bnd_ok need_accounts_ok assert_signers_ok assert_writables_ok
      assert_owners_ok read_acct_ok load_oks ensure_ok lift_ok)
  have "prunable b (map (\<lambda>(side, i, owner, amt). (side, i)) items)"
    by (rule collect_expired_prunable [OF b(3) _ pool_length [OF book_ok_inv [OF books_ok_at [OF o b(2,1)]]]]) (simp_all add: scanned_simps)
  from books_prune_items [OF f b(1,2) this o] show "books_ok e w'" .
qed

section \<open>Instruments\<close>

lemma books_create_instrument:
  assumes l: "account_laws e"
  shows "keeps False (books_ok e) (process_create_instrument e accounts args)"
proof -
  have t: "keeps False (books_ok e) (check_trailing_registry e rest args)" for rest
    unfolding check_trailing_registry_def by (cases rest) (simp_all, (intro traced_intros)+)
  have rest: "keeps False (books_ok e)
      (seq (check_trailing_registry e (drop 7 accounts) args)
      (bnd (allocate_instrument e (accounts ! 0) (accounts ! 2) (accounts ! 5) args) (\<lambda>ib.
       bnd (allocate_book e (accounts ! 0) (accounts ! 2) (accounts ! 3) (accounts ! 5) (cia_initial_book_capacity args)) (\<lambda>bb.
       seq (init_instrument_account (accounts ! 2) (accounts ! 4) (accounts ! 3) args ib)
       (seq (init_book_account (accounts ! 2) (accounts ! 3) (cia_initial_book_capacity args) bb 0)
       (ensure_market_nonce e (accounts ! 0) (accounts ! 6) (accounts ! 5) (cia_market_id args)))))))"
    if c: "check_instrument_args args = Inr u" for u
  proof -
    have "0 < unat (cia_initial_book_capacity args)"
      using c by (auto simp: check_instrument_args_def word_less_nat_alt split: if_splits)
    then show ?thesis
      unfolding allocate_instrument_def allocate_book_def ensure_market_nonce_def
      by (intro traced_intros t book_rules keeps_calls [OF l] keeps_init_book)
  qed
  show ?thesis
    unfolding process_create_instrument_def Let_def
    by (intro traced_seq traced_bnd traced_checks traced_lift_seq rest traced_intros) assumption?
qed

lemma books_close: "process_close_pmlc e accounts w = (Inr u, w') \<Longrightarrow> books_ok e w \<Longrightarrow> books_ok e w'"
  using close_pmlc_closes [of e accounts w u w'] unfolding closes_def books_ok_def by (metis acct_data.distinct(7))

section \<open>Every instruction\<close>

lemma run_tag_books:
  assumes l: "account_laws e" and t: "t \<noteq> Tag_ExpandIntentBook" and run: "run_tag t e b accounts payload w = (Inr u, w')"
    and o: "books_ok e w"
  shows "books_ok e w'"
proof (cases "t = Tag_ClosePmlc")
  case True
  then show ?thesis using run o books_close by simp
next
  case False
  note handlers = books_admin [OF l] books_positions books_match [OF l] books_post [OF l] books_claim books_cancel books_prune
    books_create_instrument [OF l]
  have "keeps False (books_ok e) (run_tag t e b accounts payload)"
    using t False by (cases t) (simp_all, (intro traced_with handlers traced_seq traced_basic)+)
  from keepsD [OF this run _ o] show ?thesis by simp
qed

section \<open>Runs\<close>

definition expands :: "u8 list \<Rightarrow> bool" where
  "expands data \<longleftrightarrow> (\<exists>payload. data = tag_byte Tag_ExpandIntentBook # payload)"

text \<open>A step of the ledger as in \<open>ledger_step\<close>, but no successful expansion of a book.\<close>

definition plain_step :: "pubkey \<Rightarrow> world \<Rightarrow> world \<Rightarrow> bool" where
  "plain_step p w w' \<longleftrightarrow>
     (\<exists>e b accounts data r. program_id e = p \<and> system_program_id e \<noteq> p \<and> account_laws e \<and>
        run_instruction (process e b accounts data) w = (r, w') \<and> (expands data \<longrightarrow> r \<noteq> Inr ())) \<or> outside_step p w w'"

lemma plain_books:
  assumes s: "plain_step p w w'" and o: "\<forall>k b. acc_owner (w k) = p \<longrightarrow> acc_data (w k) = DBook b \<longrightarrow> book_ok b"
  shows "\<forall>k b. acc_owner (w' k) = p \<longrightarrow> acc_data (w' k) = DBook b \<longrightarrow> book_ok b"
  using s unfolding plain_step_def
proof (elim disjE exE conjE)
  fix e b accounts data r
  assume e: "program_id e = p" "account_laws e" and run: "run_instruction (process e b accounts data) w = (r, w')"
    and x: "expands data \<longrightarrow> r \<noteq> Inr ()"
  have o': "books_ok e w" using o by (simp add: books_ok_def e(1))
  have "books_ok e w'"
  proof (cases r)
    case (Inl y)
    with run o' show ?thesis by (auto dest: run_instruction_error)
  next
    case (Inr u)
    with run have "process e b accounts data w = (Inr u, w')" by (simp add: run_instruction_ok)
    then obtain t payload where t: "data = tag_byte t # payload" "run_tag t e b accounts payload w = (Inr u, w')"
      by (rule process_run_cases)
    have "t \<noteq> Tag_ExpandIntentBook" using x Inr t(1) by (auto simp: expands_def)
    from run_tag_books [OF e(2) this t(2) o'] show ?thesis .
  qed
  then show ?thesis by (simp add: books_ok_def e(1))
next
  assume out: "outside_step p w w'"
  show ?thesis using o out unfolding outside_step_def by (metis acct_data.distinct(7))
qed

abbreviation plain_steps :: "pubkey \<Rightarrow> world \<Rightarrow> world \<Rightarrow> bool" where
  "plain_steps p \<equiv> (plain_step p)\<^sup>*\<^sup>*"

lemma plain_steps_books:
  assumes "plain_steps p w w'" "\<forall>k b. acc_owner (w k) = p \<longrightarrow> acc_data (w k) = DBook b \<longrightarrow> book_ok b"
  shows "\<forall>k b. acc_owner (w' k) = p \<longrightarrow> acc_data (w' k) = DBook b \<longrightarrow> book_ok b"
  using assms(1) by (induction rule: rtranclp_induct) (use assms(2) plain_books in blast)+

end
