(* ===== verification/Best_First.thy ===== *)
theory Best_First
  imports Book_Trees Match_Ix
begin

text \<open>
  The best-first traversal (\<open>for_each_best_first\<close>): its explicit stack never overflows, its loops
  end, and it visits the intents of a side in priority order until the visitor stops it. From it:
  the first live intent is the best, and the scan for a pair finds one exactly when two live
  intents cross.
\<close>

section \<open>The order of the visits\<close>

text \<open>The entries of a side, best first, and a visitor run over them.\<close>

definition entries :: "book \<Rightarrow> u32 list \<Rightarrow> (u32 \<times> intent_node) list" where
  "entries b is = List.map_filter (\<lambda>i. case intent b i of Inl x \<Rightarrow> None | Inr n \<Rightarrow> Some (i, n)) is"

primrec visit_list :: "(u32 \<Rightarrow> intent_node \<Rightarrow> 'a \<Rightarrow> bool \<times> 'a) \<Rightarrow> (u32 \<times> intent_node) list \<Rightarrow> 'a \<Rightarrow> 'a" where
  "visit_list f [] acc = acc"
| "visit_list f (e # es) acc =
     (case f (fst e) (snd e) acc of (continue, acc) \<Rightarrow> if continue then visit_list f es acc else acc)"

lemma entries_simps [simp]: "entries b [] = []" "entries b (is @ js) = entries b is @ entries b js"
  "intent b i = Inr n \<Longrightarrow> entries b (i # is) = (i, n) # entries b is"
  by (simp_all add: entries_def map_filter_def)

lemma in_entries: "(i, n) \<in> set (entries b is) \<longleftrightarrow> i \<in> set is \<and> intent b i = Inr n"
  by (force simp: entries_def map_filter_def split: sum.splits)

lemma map_fst_entries: "(\<And>i. i \<in> set is \<Longrightarrow> \<exists>n. intent b i = Inr n) \<Longrightarrow> map fst (entries b is) = is"
proof (induction "is")
  case (Cons i "is")
  then obtain n where "intent b i = Inr n" by auto
  with Cons show ?case by simp
qed simp

section \<open>The stack\<close>

text \<open>A stack entry is a slot and the right subtree still to visit after it.\<close>

fun spine :: "slot_tree \<Rightarrow> (u32 \<times> slot_tree) list" where
  "spine Leaf = []"
| "spine (Node l n r) = spine l @ [(fst n, r)]"

fun todo :: "(u32 \<times> slot_tree) list \<Rightarrow> u32 list" where
  "todo [] = []"
| "todo ((i, r) # S) = i # ids r @ todo S"

fun fits :: "nat \<Rightarrow> (u32 \<times> slot_tree) list \<Rightarrow> bool" where
  "fits h [] = True"
| "fits h ((i, r) # S) = (length S + height r \<le> h \<and> fits h S)"

lemma todo_append: "todo (S @ T) = todo S @ todo T"
  by (induction S rule: todo.induct) simp_all

lemma todo_spine: "todo (spine t) = ids t"
  by (induction t) (simp_all add: todo_append)

lemma length_spine: "length (spine t) \<le> height t"
  by (induction t) auto

lemma fits_spine: "length S + height t \<le> h \<Longrightarrow> fits h S \<Longrightarrow> fits h (spine t @ S)"
  by (induction t arbitrary: S) auto

definition stack_ok :: "links \<Rightarrow> (u32 \<times> slot_tree) list \<Rightarrow> bool" where
  "stack_ok v S \<longleftrightarrow> (\<forall>(i, r)\<in>set S. i \<noteq> NULL_IDX \<and> i \<in> lk_nodes v \<and> lk_right v i = root_id r \<and> heap v r)"

lemma stack_ok_simps [simp]: "stack_ok v []"
  "stack_ok v ((i, r) # S) \<longleftrightarrow> i \<noteq> NULL_IDX \<and> i \<in> lk_nodes v \<and> lk_right v i = root_id r \<and> heap v r \<and> stack_ok v S"
  "stack_ok v (S @ T) \<longleftrightarrow> stack_ok v S \<and> stack_ok v T"
  by (auto simp: stack_ok_def)

lemma stack_ok_spine: "heap v t \<Longrightarrow> stack_ok v (spine t)"
  by (induction t) auto

lemma push_left_spine_run:
  assumes "heap (intent_view side b) t" "length S + height t \<le> STACK_CAP" "height t < fuel"
  shows "push_left_spine fuel b S (root_id t) = Inr (map fst (spine t) @ S)"
  using assms
proof (induction t arbitrary: S fuel)
  case Leaf
  then show ?case by (cases fuel) simp_all
next
  case (Node l n r)
  obtain f where f: "fuel = Suc f" using Node.prems(3) by (cases fuel) auto
  obtain a c where n: "n = (a, c)" by (cases n)
  have a: "a \<noteq> NULL_IDX" "a \<in> lk_nodes (intent_view side b)" "lk_left (intent_view side b) a = root_id l"
    using Node.prems(1) by (simp_all add: n)
  then obtain m where m: "intent b a = Inr m" using intent_nodes by blast
  have "itree_left b a = Inr (root_id l)" using a m intent_view_get [OF m, of side] by (simp add: itree_left_def try_res_def)
  moreover have "push_left_spine f b (a # S) (root_id l) = Inr (map fst (spine l) @ a # S)"
    using Node.prems f by (intro Node.IH(1)) auto
  ultimately show ?case using a(1) Node.prems(2) by (simp add: f n try_res_def)
qed

lemma visit_run:
  assumes "heap (intent_view side b) t" "stack_ok (intent_view side b) S" "fits STACK_CAP S" "length S + height t \<le> STACK_CAP"
    "length (ids t @ todo S) < fuel" "\<forall>(i, r)\<in>set S. height r < pool_fuel b" "height t < pool_fuel b"
  shows "visit_best_first fuel b f (map fst S) (root_id t) acc = Inr (visit_list f (entries b (ids t @ todo S)) acc)"
  using assms
proof (induction fuel arbitrary: t S acc)
  case (Suc fuel)
  let ?v = "intent_view side b"
  have p: "push_left_spine (pool_fuel b) b (map fst S) (root_id t) = Inr (map fst (spine t @ S))"
    using push_left_spine_run [of side b t "map fst S" "pool_fuel b"] Suc.prems by simp
  have e: "ids t @ todo S = todo (spine t @ S)" by (simp add: todo_append todo_spine)
  have ok: "stack_ok ?v (spine t @ S)" using Suc.prems(1,2) stack_ok_spine by simp
  have fit: "fits STACK_CAP (spine t @ S)" using Suc.prems(3,4) by (rule fits_spine [rotated])
  have hs: "\<forall>(i, r)\<in>set (spine t). height r < pool_fuel b" using Suc.prems(7) by (induction t) auto
  show ?case
  proof (cases "spine t @ S")
    case Nil
    then show ?thesis using p e by (simp add: try_res_def)
  next
    case (Cons x R)
    obtain i r where x: "x = (i, r)" by (cases x)
    have i: "i \<in> lk_nodes ?v" "lk_right ?v i = root_id r" "heap ?v r" "stack_ok ?v R" using ok by (simp_all add: Cons x)
    then obtain n where n: "intent b i = Inr n" using intent_nodes by blast
    have nr: "in_right n = root_id r" using i(2) intent_view_get [OF n, of side] by simp
    have hr: "height r < pool_fuel b" "\<forall>(i, r)\<in>set R. height r < pool_fuel b"
      using hs Suc.prems(6) arg_cong [OF Cons, of set] by (auto simp: x)
    have "visit_best_first fuel b f (map fst R) (root_id r) acc' = Inr (visit_list f (entries b (ids r @ todo R)) acc')" for acc'
      using i fit hr Suc.prems(5) e by (intro Suc.IH) (auto simp: Cons x)
    then show ?thesis
      using p n nr e by (simp add: Cons x try_res_def split: prod.splits)
  qed
qed simp

lemma height_size: "height t \<le> size t" for t :: slot_tree
  by (induction t) auto

lemma best_first_run:
  assumes "side = SIDE_LONG \<or> side = SIDE_SHORT" and t: "side_tree side b t"
  shows "for_each_best_first b side f acc = Inr (visit_list f (entries b (ids t)) acc)"
proof -
  have s: "SIDE_SHORT \<noteq> SIDE_LONG" by (simp add: SIDE_LONG_def SIDE_SHORT_def)
  have at: "at (intent_view side b) [] t" "rbt t" using t by (simp_all add: side_tree_def)
  have root: "tree_root b side = Inr (root_id t)" using at(1) assms(1) s
    by (auto simp: at_def tree_root_def intent_view_def)
  have "NULL_IDX \<notin> set (ids t)" using at(1) heap_ids by (auto simp: at_def)
  then have "height t \<le> STACK_CAP" using rbt_height [OF at(2)] at_ids [OF at(1)] by (simp add: STACK_CAP_def)
  then have "visit_best_first (pool_fuel b) b f [] (root_id t) acc = Inr (visit_list f (entries b (ids t)) acc)"
    using visit_run [of side b t "[]" "pool_fuel b" f acc] at(1) side_tree_size [OF t] height_size [of t]
    by (simp add: at_def length_ids)
  moreover have "root_id t = NULL_IDX \<longleftrightarrow> t = Leaf" using at(1) heap_root_NULL by (auto simp: at_def)
  ultimately show ?thesis by (auto simp: for_each_best_first_def root try_res_def)
qed


section \<open>The best live intent\<close>

lemma sorted_entries:
  assumes "sorted (map (key_at side b) is)"
  shows "sorted (map (\<lambda>e. intent_key side (snd e)) (entries b is))"
  using assms
proof (induction "is")
  case (Cons i "is")
  then show ?case
    by (cases "intent b i") (auto simp: entries_def map_filter_def key_at_intent split: sum.splits)
qed simp

lemma visit_find:
  "visit_list (\<lambda>i n found. if P n then (False, Some (i, n)) else (True, found)) es None = find (\<lambda>e. P (snd e)) es"
  by (induction es) auto

lemma find_sorted:
  assumes "find P es = Some e" "sorted (map k es)"
  shows "e \<in> set es \<and> P e \<and> (\<forall>f\<in>set es. P f \<longrightarrow> k e \<le> k f)"
  using assms by (induction es) (auto split: if_splits)

definition best_live :: "u8 \<Rightarrow> book \<Rightarrow> slot_tree \<Rightarrow> (intent_node \<Rightarrow> bool) \<Rightarrow> u32 \<times> intent_node \<Rightarrow> bool" where
  "best_live side b t P e \<longleftrightarrow> fst e \<in> set (ids t) \<and> intent b (fst e) = Inr (snd e) \<and> P (snd e) \<and>
     (\<forall>i\<in>set (ids t). \<forall>n. intent b i = Inr n \<longrightarrow> P n \<longrightarrow> intent_key side (snd e) \<le> intent_key side n)"

definition no_live :: "book \<Rightarrow> slot_tree \<Rightarrow> (intent_node \<Rightarrow> bool) \<Rightarrow> bool" where
  "no_live b t P \<longleftrightarrow> (\<forall>i\<in>set (ids t). \<forall>n. intent b i = Inr n \<longrightarrow> \<not> P n)"

lemma find_best:
  assumes "side_tree side b t"
  shows "case find (\<lambda>e. P (snd e)) (entries b (ids t)) of None \<Rightarrow> no_live b t P | Some e \<Rightarrow> best_live side b t P e"
proof (cases "find (\<lambda>e. P (snd e)) (entries b (ids t))")
  case None
  then have "no_live b t P" by (auto simp: find_None_iff no_live_def in_entries)
  with None show ?thesis by simp
next
  case (Some e)
  have "sorted (map (\<lambda>e. intent_key side (snd e)) (entries b (ids t)))"
    using assms by (intro sorted_entries) (simp add: side_tree_def)
  note f = find_sorted [OF Some this]
  have "intent_key side (snd e) \<le> intent_key side n" if "i \<in> set (ids t)" "intent b i = Inr n" "P n" for i n
  proof -
    have "(i, n) \<in> set (entries b (ids t))" using that by (simp add: in_entries)
    then show ?thesis using f that(3) by force
  qed
  then have "best_live side b t P e" using f by (cases e) (auto simp: best_live_def in_entries)
  with Some show ?thesis by simp
qed

lemma first_live_run:
  assumes "side = SIDE_LONG \<or> side = SIDE_SHORT" "side_tree side b t"
  shows "\<exists>x. first_live b side now = Inr x \<and>
    (case x of None \<Rightarrow> no_live b t (is_live_intent now) | Some e \<Rightarrow> best_live side b t (is_live_intent now) e)"
  using find_best [OF assms(2)] by (simp add: first_live_def best_first_run [OF assms] visit_find)

text \<open>Of two sides, the best intents cross when any two live ones do.\<close>

definition crossing :: "book \<Rightarrow> u64 \<Rightarrow> slot_tree \<Rightarrow> slot_tree \<Rightarrow> bool" where
  "crossing b now tL tS \<longleftrightarrow> (\<exists>i\<in>set (ids tL). \<exists>j\<in>set (ids tS). \<exists>l s. intent b i = Inr l \<and> intent b j = Inr s \<and>
     is_live_intent now l \<and> is_live_intent now s \<and> price_limit_fp s \<le> price_limit_fp l)"

lemma key_price: "intent_key SIDE_LONG m \<le> intent_key SIDE_LONG n \<Longrightarrow> price_limit_fp n \<le> price_limit_fp m"
  "intent_key SIDE_SHORT m \<le> intent_key SIDE_SHORT n \<Longrightarrow> price_limit_fp m \<le> price_limit_fp n"
  by (auto simp: intent_key_def word_le_def SIDE_LONG_def SIDE_SHORT_def)

lemma best_cross:
  assumes "best_live SIDE_LONG b tL (is_live_intent now) (i, l)" "best_live SIDE_SHORT b tS (is_live_intent now) (j, s)"
  shows "crossing b now tL tS \<longleftrightarrow> price_limit_fp s \<le> price_limit_fp l"
proof
  assume "price_limit_fp s \<le> price_limit_fp l"
  then show "crossing b now tL tS" using assms unfolding crossing_def best_live_def by auto
next
  assume "crossing b now tL tS"
  then obtain i' j' l' s' where c: "i' \<in> set (ids tL)" "j' \<in> set (ids tS)" "intent b i' = Inr l'" "intent b j' = Inr s'"
    "is_live_intent now l'" "is_live_intent now s'" "price_limit_fp s' \<le> price_limit_fp l'" unfolding crossing_def by blast
  have "price_limit_fp l' \<le> price_limit_fp l" "price_limit_fp s \<le> price_limit_fp s'"
    using assms c key_price unfolding best_live_def fst_conv snd_conv by blast+
  with c(7) show "price_limit_fp s \<le> price_limit_fp l" by (meson order_trans)
qed

lemma scan_run:
  assumes l: "side_tree SIDE_LONG b tL" and s: "side_tree SIDE_SHORT b tS"
  shows "\<exists>r. scan_for_first_valid_pair b now = Inr r \<and> (r = None \<longleftrightarrow> \<not> crossing b now tL tS) \<and>
    (\<forall>x y. r = Some (x, y) \<longrightarrow> (\<exists>i m j n. best_live SIDE_LONG b tL (is_live_intent now) (i, m) \<and>
       best_live SIDE_SHORT b tS (is_live_intent now) (j, n) \<and> x = intent_id m \<and> y = intent_id n))"
proof -
  from first_live_run [OF _ l] obtain x where x: "first_live b SIDE_LONG now = Inr x"
    "case x of None \<Rightarrow> no_live b tL (is_live_intent now) | Some e \<Rightarrow> best_live SIDE_LONG b tL (is_live_intent now) e" by auto
  from first_live_run [OF _ s] obtain y where y: "first_live b SIDE_SHORT now = Inr y"
    "case y of None \<Rightarrow> no_live b tS (is_live_intent now) | Some e \<Rightarrow> best_live SIDE_SHORT b tS (is_live_intent now) e" by auto
  show ?thesis
  proof (cases "x = None \<or> y = None")
    case True
    then have "\<not> crossing b now tL tS" using x(2) y(2) unfolding crossing_def no_live_def by (auto split: option.splits)
    then show ?thesis using x y True by (auto simp: scan_for_first_valid_pair_def try_res_def split: option.splits)
  next
    case False
    then obtain i m j n where "x = Some (i, m)" "y = Some (j, n)" by auto
    then show ?thesis using x y best_cross [of b tL now i m tS j n]
      by (auto simp: scan_for_first_valid_pair_def try_res_def)
  qed
qed

text \<open>The counterparty of a new intent: the first live one of the other side, when it crosses.\<close>

definition counterparty :: "u64 \<Rightarrow> u64 \<Rightarrow> intent_node \<Rightarrow> bool" where
  "counterparty now skip n \<longleftrightarrow> is_live_intent now n \<and> intent_id n \<noteq> skip"

lemma visit_overlap:
  "visit_list (\<lambda>i n found. if Q n then (True, found) else (False, if c n then Some (intent_id n) else found)) es None =
    (case find (\<lambda>e. \<not> Q (snd e)) es of None \<Rightarrow> None | Some e \<Rightarrow> if c (snd e) then Some (intent_id (snd e)) else None)"
  by (induction es) auto

lemma overlap_run:
  assumes side: "side = SIDE_LONG \<or> side = SIDE_SHORT" and t: "side_tree side b t"
  shows "\<exists>r. find_overlap_on_side b side p now skip = Inr r \<and>
    (r = None \<longleftrightarrow> no_live b t (\<lambda>n. counterparty now skip n \<and>
       (if side = SIDE_SHORT then price_limit_fp n \<le> p else p \<le> price_limit_fp n))) \<and>
    (\<forall>x. r = Some x \<longrightarrow> (\<exists>e. best_live side b t (counterparty now skip) e \<and> x = intent_id (snd e)))"
proof -
  let ?C = "\<lambda>n. if side = SIDE_SHORT then price_limit_fp n \<le> p else p \<le> price_limit_fp n"
  have q: "(contracts_remaining n = 0 \<or> expiration_slot n \<le> now \<or> intent_id n = skip) \<longleftrightarrow> \<not> counterparty now skip n" for n
    by (auto simp: counterparty_def is_live_intent_def word_gt_0 not_le)
  have run: "find_overlap_on_side b side p now skip = Inr (case find (\<lambda>e. counterparty now skip (snd e)) (entries b (ids t)) of
      None \<Rightarrow> None | Some e \<Rightarrow> if ?C (snd e) then Some (intent_id (snd e)) else None)"
    using visit_overlap [of "\<lambda>n. \<not> counterparty now skip n" ?C "entries b (ids t)"]
    unfolding find_overlap_on_side_def Let_def best_first_run [OF side t] q by simp
  show ?thesis
  proof (cases "find (\<lambda>e. counterparty now skip (snd e)) (entries b (ids t))")
    case None
    then show ?thesis using run find_best [OF t, of "counterparty now skip"] by (auto simp: no_live_def)
  next
    case (Some e)
    then have e: "best_live side b t (counterparty now skip) e" using find_best [OF t, of "counterparty now skip"] by simp
    have "?C (snd e)" if "i \<in> set (ids t)" "intent b i = Inr n" "counterparty now skip n" "?C n" for i n
    proof -
      have "intent_key side (snd e) \<le> intent_key side n" using e that unfolding best_live_def by blast
      then show ?thesis using side that(4) key_price [of "snd e" n] by (auto split: if_splits dest: order_trans)
    qed
    then have "no_live b t (\<lambda>n. counterparty now skip n \<and> ?C n) \<longleftrightarrow> \<not> ?C (snd e)"
      using e unfolding no_live_def best_live_def by blast
    then show ?thesis using run Some e by (cases e) (auto split: if_splits)
  qed
qed

end
