(* ===== verification/Order_Properties.thy ===== *)
theory Order_Properties
  imports Book_Ledger Best_First Trading_Properties
begin

text \<open>
  The properties of the intent books. Every book the program owns stays well-ordered along every run
  without an expansion: each side a red-black tree of exactly its intents in price-time priority.
  On such a book the traversal ends and visits a side best first, the scan for a pair agrees with
  a search of the whole pool, insertion and removal refine those of a sorted list, and the trader
  index maps a trader to its one seat.
\<close>

section \<open>A concrete book\<close>

text \<open>Two resting long intents, one short one, two more long ones that no tree holds, and two seats.\<close>

definition ex_node :: "u8 \<Rightarrow> u64 \<Rightarrow> u64 \<Rightarrow> u8 \<Rightarrow> u32 \<Rightarrow> u32 \<Rightarrow> intent_node" where
  "ex_node side price k c r p = \<lparr> in_side = side, in_color = c, in_flags = 0, in_left = 0, in_right = r,
     in_parent = p, price_limit_fp = price, intent_id = k, owner_seat = 6, contracts_total = 2, contracts_remaining = 2,
     expiration_slot = 500, post_seq = k, intent_reserved = 2000, fee_buffer = 0 \<rparr>"

definition ex_trader :: "pubkey \<Rightarrow> u8 \<Rightarrow> seat_node" where
  "ex_trader k c = \<lparr> sn_color = c, sn_left = 0, sn_right = 0, sn_parent = 0, trader = k,
     active_intent_count = 2, sn_flags = 0 \<rparr>"

definition ex_orders :: book where
  "ex_orders = (new_intent_book default_pubkey 8 255 0)\<lparr> long_tree_root := 1, short_tree_root := 3, seat_tree_root := 6,
     node_count := 8, bk_next_intent_id := 5, bk_next_seq := 5,
     bk_nodes := [NFree 0, NIntent (ex_node SIDE_LONG 50 1 RB_BLACK 2 0), NIntent (ex_node SIDE_LONG 40 2 RB_RED 0 1),
       NIntent (ex_node SIDE_SHORT 45 3 RB_BLACK 0 0), NIntent (ex_node SIDE_LONG 45 4 RB_RED 0 0),
       NIntent (ex_node SIDE_LONG 60 5 RB_RED 0 0), NSeat (ex_trader (Pubkey [2]) RB_BLACK), NSeat (ex_trader (Pubkey [1]) RB_RED)] \<rparr>"

definition ex_longs :: slot_tree where "ex_longs = Node Leaf (1, Black) (Node Leaf (2, Red) Leaf)"
definition ex_shorts :: slot_tree where "ex_shorts = Node Leaf (3, Black) Leaf"
definition ex_seats :: slot_tree where "ex_seats = Node Leaf (6, Black) Leaf"

lemma ex_intents:
  "intent ex_orders 1 = Inr (ex_node SIDE_LONG 50 1 RB_BLACK 2 0)" "intent ex_orders 2 = Inr (ex_node SIDE_LONG 40 2 RB_RED 0 1)"
  "intent ex_orders 3 = Inr (ex_node SIDE_SHORT 45 3 RB_BLACK 0 0)" "intent ex_orders 4 = Inr (ex_node SIDE_LONG 45 4 RB_RED 0 0)"
  "seat ex_orders 6 = Inr (ex_trader (Pubkey [2]) RB_BLACK)" "seat ex_orders 7 = Inr (ex_trader (Pubkey [1]) RB_RED)"
  by (simp_all add: intent_ok seat_ok ex_orders_def)

lemma ex_ids: "ids ex_longs = [1, 2]" "ids ex_shorts = [3]" "ids ex_seats = [6]"
  by (simp_all add: ex_longs_def ex_shorts_def ex_seats_def)

lemma ex_trees:
  assumes n: "intent b 1 = Inr (ex_node SIDE_LONG 50 1 RB_BLACK 2 0)" "intent b 2 = Inr (ex_node SIDE_LONG 40 2 RB_RED 0 1)"
    "intent b 3 = Inr (ex_node SIDE_SHORT 45 3 RB_BLACK 0 0)" "seat b 6 = Inr (ex_trader (Pubkey [2]) RB_BLACK)"
    and r: "long_tree_root b = 1" "short_tree_root b = 3" "seat_tree_root b = 6"
  shows "side_tree SIDE_LONG b ex_longs" "side_tree SIDE_SHORT b ex_shorts" "seat_tree b ex_seats"
proof -
  note view = intent_view_get [OF n(1)] intent_view_get [OF n(2)] intent_view_get [OF n(3)] seat_view_get [OF n(4)]
  have root: "lk_root (intent_view SIDE_LONG b) = 1" "lk_root (intent_view SIDE_SHORT b) = 3" "lk_root (seat_view b) = 6"
    by (simp_all add: intent_view_def seat_view_def r)
  have nodes: "1 \<in> lk_nodes (intent_view s b)" "2 \<in> lk_nodes (intent_view s b)" "3 \<in> lk_nodes (intent_view s b)"
    "6 \<in> lk_nodes (seat_view b)" for s
    by (simp_all add: intent_nodes seat_nodes n NULL_IDX_def)
  show "side_tree SIDE_LONG b ex_longs" "side_tree SIDE_SHORT b ex_shorts" "seat_tree b ex_seats"
    by (simp_all add: side_tree_def seat_tree_def at_def hangs_def rbt_def ex_longs_def ex_shorts_def ex_seats_def nodes view root
      key_at_intent [OF n(1)] key_at_intent [OF n(2)] ex_node_def ex_trader_def NULL_IDX_def intent_key_def)
qed

lemma ex_sides:
  "side_tree SIDE_LONG ex_orders ex_longs" "side_tree SIDE_SHORT ex_orders ex_shorts" "seat_tree ex_orders ex_seats"
  by (rule ex_trees [OF ex_intents(1-3,5)]; simp add: ex_orders_def)+

text \<open>The same book without the nodes that are in no tree.\<close>

definition ex_resting_orders :: book where
  "ex_resting_orders = ex_orders\<lparr> freelist_head := 7,
     bk_nodes := [NFree 0, NIntent (ex_node SIDE_LONG 50 1 RB_BLACK 2 0), NIntent (ex_node SIDE_LONG 40 2 RB_RED 0 1),
       NIntent (ex_node SIDE_SHORT 45 3 RB_BLACK 0 0), NFree 0, NFree 4, NSeat (ex_trader (Pubkey [2]) RB_BLACK), NFree 5] \<rparr>"

lemma ex_cells:
  assumes "bk_nodes ex_resting_orders ! unat i = n" "unat (i :: u32) < 8" "is_used n"
  shows "i = 1 \<and> n = NIntent (ex_node SIDE_LONG 50 1 RB_BLACK 2 0) \<or> i = 2 \<and> n = NIntent (ex_node SIDE_LONG 40 2 RB_RED 0 1) \<or>
    i = 3 \<and> n = NIntent (ex_node SIDE_SHORT 45 3 RB_BLACK 0 0) \<or> i = 6 \<and> n = NSeat (ex_trader (Pubkey [2]) RB_BLACK)"
proof -
  have "unat i \<in> {0, 1, 2, 3, 4, 5, 6, 7}" using assms(2) by auto
  then have "i \<in> {0, 1, 2, 3, 4, 5, 6, 7}"
    by (auto simp: word_unat_eq_iff)
  then show ?thesis using assms(1,3) by (auto simp: ex_resting_orders_def)
qed

lemma ex_resting_orders_pool:
  "intent ex_resting_orders i = Inr n \<longleftrightarrow> (i = 1 \<and> n = ex_node SIDE_LONG 50 1 RB_BLACK 2 0 \<or> i = 2 \<and> n = ex_node SIDE_LONG 40 2 RB_RED 0 1 \<or>
     i = 3 \<and> n = ex_node SIDE_SHORT 45 3 RB_BLACK 0 0)"
  "seat ex_resting_orders i = Inr s \<longleftrightarrow> i = 6 \<and> s = ex_trader (Pubkey [2]) RB_BLACK"
proof -
  have l: "length (bk_nodes ex_resting_orders) = 8" by (simp add: ex_resting_orders_def)
  show "intent ex_resting_orders i = Inr n \<longleftrightarrow> (i = 1 \<and> n = ex_node SIDE_LONG 50 1 RB_BLACK 2 0 \<or> i = 2 \<and> n = ex_node SIDE_LONG 40 2 RB_RED 0 1 \<or>
     i = 3 \<and> n = ex_node SIDE_SHORT 45 3 RB_BLACK 0 0)"
    unfolding intent_ok l using ex_cells [of i "NIntent n"] by (auto simp: ex_resting_orders_def)
  show "seat ex_resting_orders i = Inr s \<longleftrightarrow> i = 6 \<and> s = ex_trader (Pubkey [2]) RB_BLACK"
    unfolding seat_ok l using ex_cells [of i "NSeat s"] by (auto simp: ex_resting_orders_def)
qed

lemma ex_resting_orders_ok: "book_ok ex_resting_orders"
proof (rule book_okI)
  let ?T = "\<lambda>side. if side = SIDE_LONG then ex_longs else ex_shorts"
  have "book_free ex_resting_orders [7, 5, 4]"
  proof (rule book_freeI)
    show "is_used (bk_nodes ex_resting_orders ! i)" if "0 < i" "i < unat (node_count ex_resting_orders)" "i \<notin> unat ` set [7, 5, 4 :: u32]" for i
    proof -
      have "i \<in> {1, 2, 3, 6}" using that by (auto simp: ex_resting_orders_def ex_orders_def)
      then show ?thesis by (auto simp: ex_resting_orders_def)
    qed
  qed (auto simp: ex_resting_orders_def ex_orders_def new_intent_book_def)
  then have inv: "book_inv ex_resting_orders" by (auto simp: book_inv_def)
  have t: "side_tree SIDE_LONG ex_resting_orders ex_longs" "side_tree SIDE_SHORT ex_resting_orders ex_shorts" "seat_tree ex_resting_orders ex_seats"
    by (rule ex_trees; (simp add: ex_resting_orders_pool | simp add: ex_resting_orders_def ex_orders_def))+
  have T: "side_tree side ex_resting_orders (?T side)" if "side \<in> sides" for side
    using that t by (auto simp: sides_def)
  have fields: "in_side (ex_node s p k c r q) = s" "owner_seat (ex_node s p k c r q) = 6" for s p k c r q
    by (simp_all add: ex_node_def)
  have "set (ids (?T side)) = slots side ex_resting_orders - {}" if "side \<in> sides" for side
    using that by (auto simp: sides_def slots_def ex_resting_orders_pool fields ex_ids)
  moreover have "seat_tree ex_resting_orders ex_seats" by (rule t)
  moreover have "set (ids ex_seats) = seat_slots ex_resting_orders - {}" by (auto simp: seat_slots_def ex_resting_orders_pool ex_ids)
  ultimately show "filed {} ex_resting_orders ?T ex_seats"
    using inv T by (intro filedI) (auto simp: ex_resting_orders_pool fields sides_def)
qed

section \<open>Books stay ordered\<close>

text \<open>
  C3. Every book of the program stays well-ordered: along every run of the ledger in which no book is
  expanded (any other instructions, failed ones discarded, and anything the outside does), each
  book it owns has a sound node pool, one red-black tree in price-time priority for each side that
  holds exactly the intents of that side, one tree of seats with one seat per trader, and a seat
  for the owner of every intent (\<open>book_ok\<close>), if every book it owned at the start has.
\<close>

theorem books_stay_ordered:
  assumes "plain_steps p w w'" "\<forall>k b. acc_owner (w k) = p \<longrightarrow> acc_data (w k) = DBook b \<longrightarrow> book_ok b"
    and "acc_owner (w' k) = p" "acc_data (w' k) = DBook b"
  shows "book_ok b"
  using plain_steps_books [OF assms(1,2)] assms(3,4) by blast

definition ex_post_borsh :: borsh where
  "ex_post_borsh = ex_borsh\<lparr> d_post_intent := (\<lambda>_. Some ex_post_args) \<rparr>"

lemma ex_post_step:
  "process ex_env ex_post_borsh ex_post_accounts [30] ex_w_post = process_post_intent ex_env ex_post_accounts ex_post_args ex_w_post"
  by (simp add: process_def tag_of_byte_def bnd_def lift_def with_args_def ex_post_borsh_def seq_def)

lemma books_stay_ordered_witness:
  "\<exists>b. acc_data (snd (process ex_env ex_post_borsh ex_post_accounts [30] ex_w_post) (sk 50)) = DBook b \<and> book_ok b"
proof -
  let ?r = "process ex_env ex_post_borsh ex_post_accounts [30] ex_w_post"
  have r: "?r = (Inr (), snd ?r)" using ex_post_runs by (metis ex_post_step prod.collapse)
  have e: "program_id ex_env = sk 9" "system_program_id ex_env \<noteq> sk 9" by (simp_all add: ex_env_def sk_def)
  have x: "\<not> expands [30]" by (simp add: expands_def)
  have "run_instruction (process ex_env ex_post_borsh ex_post_accounts [30]) ex_w_post = (Inr (), snd ?r)"
    unfolding run_instruction_ok by (rule r)
  then have "plain_step (sk 9) ex_w_post (snd ?r)"
    unfolding plain_step_def using e x ex_account_laws by blast
  then have s: "plain_steps (sk 9) ex_w_post (snd ?r)" by blast
  have i: "\<forall>k b. acc_owner (ex_w_post k) = sk 9 \<longrightarrow> acc_data (ex_w_post k) = DBook b \<longrightarrow> book_ok b"
    by (auto simp: ex_w_post_def owned_by_def ex_post_book_def ex_empty_def new_book_ok split: if_splits)
  have d: "acc_owner (ex_w_post (sk 50)) = program_id ex_env" "typed (acc_data (ex_w_post (sk 50)))"
    "discriminator (acc_data (ex_w_post (sk 50))) = 4" by (simp_all add: ex_w_post_def owned_by_def ex_env_def typed_def)
  have "\<not> closes ex_env (sk 50) ex_w_post (snd ?r)" by (auto simp: closes_def ex_w_post_def owned_by_def)
  with process_evolves [OF ex_account_laws r d(1,2)] evolved_typed [OF _ d(2)] d(3)
  have o: "acc_owner (snd ?r (sk 50)) = sk 9" "discriminator (acc_data (snd ?r (sk 50))) = 4" "typed (acc_data (snd ?r (sk 50)))"
    using e(1) by auto
  then obtain b where b: "acc_data (snd ?r (sk 50)) = DBook b" by (cases "acc_data (snd ?r (sk 50))") (auto simp: typed_def)
  from books_stay_ordered [OF s i o(1) b] b show ?thesis by blast
qed

section \<open>The traversal\<close>

text \<open>
  C19. The best-first traversal of a side of a well-ordered book ends without error: its two loops run
  out of nodes before their budget and its stack of 64 entries never overflows. The visitor sees
  exactly the intents of that side, each once, in price-time priority, until it stops.
\<close>

theorem traversal_ends:
  assumes "book_ok b" "side = SIDE_LONG \<or> side = SIDE_SHORT"
  shows "\<exists>is. distinct is \<and> set is = slots side b \<and> sorted (map (key_at side b) is) \<and> map fst (entries b is) = is \<and>
    (\<forall>f acc. for_each_best_first b side f acc = Inr (visit_list f (entries b is) acc))"
proof -
  obtain T z where f: "filed {} b T z" using assms(1) by (auto simp: book_ok_def)
  have side: "side \<in> sides" using assms(2) by (simp add: sides_def)
  note t = filedD(2,3) [OF f side]
  have "map fst (entries b (ids (T side))) = ids (T side)"
    by (rule map_fst_entries) (use side_tree_member [OF t(1)] in blast)
  moreover have "sorted (map (key_at side b) (ids (T side)))" using t(1) by (simp add: side_tree_def)
  moreover have "distinct (ids (T side))" by (rule side_tree_distinct [OF t(1)])
  ultimately show ?thesis using t(2) best_first_run [OF assms(2) t(1)] by auto
qed

lemma traversal_ends_witness:
  "for_each_best_first ex_resting_orders SIDE_LONG (\<lambda>i n is. (True, is @ [i])) [] = Inr [1, 2]"
proof -
  have k: "key_at SIDE_LONG ex_resting_orders 1 = (- 50, 1, 1)" "key_at SIDE_LONG ex_resting_orders 2 = (- 40, 2, 2)"
    by (simp_all add: key_at_def intent_link_def ex_resting_orders_pool [THEN iffD2] intent_key_def ex_node_def)
  from traversal_ends [OF ex_resting_orders_ok, of SIDE_LONG] obtain "is" where i: "distinct is" "set is = slots SIDE_LONG ex_resting_orders"
    "sorted (map (key_at SIDE_LONG ex_resting_orders) is)" "map fst (entries ex_resting_orders is) = is"
    "\<forall>f acc. for_each_best_first ex_resting_orders SIDE_LONG f acc = Inr (visit_list f (entries ex_resting_orders is) (acc :: u32 list))" by auto
  have fields: "in_side (ex_node s p k c r q) = s" for s p k c r q by (simp add: ex_node_def)
  have s: "slots SIDE_LONG ex_resting_orders = {1, 2}" by (auto simp: slots_def ex_resting_orders_pool fields)
  have "length is = 2" using distinct_card [OF i(1)] i(2) s by simp
  then obtain x y where xy: "is = [x, y]" by (auto simp: numeral_2_eq_2 length_Suc_conv)
  have "x = 1 \<and> y = 2" using i(1-3) by (auto simp: s xy k doubleton_eq_iff)
  moreover have "visit_list (\<lambda>i n is. (True, is @ [i])) es acc = acc @ map fst es" for es :: "(u32 \<times> intent_node) list" and acc
    by (induction es arbitrary: acc) simp_all
  ultimately show ?thesis using i(4,5) xy by simp
qed

section \<open>Insertion and removal\<close>

text \<open>
  C20. Inserting an intent into the tree of its side succeeds and refines insertion into the sorted
  list: the new intent comes after every intent that is at least as good, the others keep their
  order, the tree stays red-black, and nothing but links and colours changed.
\<close>

theorem insertion_refines:
  assumes "side = SIDE_LONG \<or> side = SIDE_SHORT" "side_tree side b t"
    and "z \<noteq> NULL_IDX" "intent b z = Inr n" "z \<notin> set (ids t)"
  shows "\<exists>b' t'. itree_insert side z b = (Inr (), b') \<and> side_tree side b' t' \<and>
    ids t' = place_in (key_at side b) (intent_key side n) z (ids t) \<and> intent_rest side b' = intent_rest side b"
  using itree_insert_run [OF assms] by blast

lemma insertion_refines_witness:
  "\<exists>b' t'. itree_insert SIDE_LONG 4 ex_orders = (Inr (), b') \<and> side_tree SIDE_LONG b' t' \<and> ids t' = [1, 4, 2]"
proof -
  have k: "key_at SIDE_LONG ex_orders 1 = (- 50, 1, 1)" "key_at SIDE_LONG ex_orders 2 = (- 40, 2, 2)"
    by (simp_all add: key_at_intent [OF ex_intents(1)] key_at_intent [OF ex_intents(2)] intent_key_def ex_node_def)
  have "place_in (key_at SIDE_LONG ex_orders) (intent_key SIDE_LONG (ex_node SIDE_LONG 45 4 RB_RED 0 0)) 4 (ids ex_longs) = [1, 4, 2]"
    by (simp add: place_in_def ex_ids k) (simp add: intent_key_def ex_node_def)
  then show ?thesis using insertion_refines [OF _ ex_sides(1) _ ex_intents(4)] by (auto simp: ex_ids NULL_IDX_def)
qed

text \<open>
  C21. Removing an intent from the tree of its side succeeds and refines removal from the sorted list:
  the others keep their order, the tree stays red-black, and nothing but links and colours changed.
\<close>

theorem removal_refines:
  assumes "side = SIDE_LONG \<or> side = SIDE_SHORT" "side_tree side b t" "z \<in> set (ids t)"
  shows "\<exists>b' t'. itree_remove side z b = (Inr (), b') \<and> side_tree side b' t' \<and> ids t' = remove1 z (ids t) \<and>
    intent_rest side b' = intent_rest side b"
  using itree_remove_run [OF assms] by blast

lemma removal_refines_witness:
  "\<exists>b' t'. itree_remove SIDE_LONG 1 ex_orders = (Inr (), b') \<and> side_tree SIDE_LONG b' t' \<and> ids t' = [2]"
  using removal_refines [OF _ ex_sides(1), of 1] by (auto simp: ex_ids)

section \<open>Discovery\<close>

text \<open>The reference: a search of the whole pool, without the trees.\<close>

definition lives_in :: "book \<Rightarrow> u8 \<Rightarrow> u64 \<Rightarrow> u32 \<Rightarrow> intent_node \<Rightarrow> bool" where
  "lives_in b side now i n \<longleftrightarrow> intent b i = Inr n \<and> in_side n = side \<and> is_live_intent now n"

definition some_pair_crosses :: "book \<Rightarrow> u64 \<Rightarrow> bool" where
  "some_pair_crosses b now \<longleftrightarrow> (\<exists>i l j s. lives_in b SIDE_LONG now i l \<and> lives_in b SIDE_SHORT now j s \<and>
     price_limit_fp s \<le> price_limit_fp l)"

definition best_on :: "book \<Rightarrow> u8 \<Rightarrow> u64 \<Rightarrow> intent_node \<Rightarrow> bool" where
  "best_on b side now n \<longleftrightarrow> (\<exists>i. lives_in b side now i n) \<and>
     (\<forall>j m. lives_in b side now j m \<longrightarrow> intent_key side n \<le> intent_key side m)"

lemma filed_lives:
  assumes "filed {} b T z" "side \<in> sides"
  shows "lives_in b side now i n \<longleftrightarrow> i \<in> set (ids (T side)) \<and> intent b i = Inr n \<and> is_live_intent now n"
  using filedD(3) [OF assms] by (auto simp: lives_in_def slots_def)

text \<open>
  C18. The scan for a pair (\<open>match_best_available\<close>) of a well-ordered book always returns, and agrees
  with a search of the whole pool: it finds a pair exactly when some live long intent bids at least
  what some live short intent asks, and then the pair of the best live intents of the two sides in
  price-time priority.
\<close>

theorem scan_finds_best_pair:
  assumes "book_ok b"
  shows "\<exists>r. scan_for_first_valid_pair b now = Inr r \<and> (r = None \<longleftrightarrow> \<not> some_pair_crosses b now) \<and>
    (\<forall>x y. r = Some (x, y) \<longrightarrow>
       (\<exists>l s. best_on b SIDE_LONG now l \<and> best_on b SIDE_SHORT now s \<and> x = intent_id l \<and> y = intent_id s))"
proof -
  obtain T z where f: "filed {} b T z" using assms by (auto simp: book_ok_def)
  have side: "SIDE_LONG \<in> sides" "SIDE_SHORT \<in> sides" by (simp_all add: sides_def)
  note lives = filed_lives [OF f side(1)] filed_lives [OF f side(2)]
  have c: "crossing b now (T SIDE_LONG) (T SIDE_SHORT) \<longleftrightarrow> some_pair_crosses b now"
    unfolding crossing_def some_pair_crosses_def lives by blast
  have b: "best_on b SIDE_LONG now m" if "best_live SIDE_LONG b (T SIDE_LONG) (is_live_intent now) (i, m)" for i m
    using that unfolding best_live_def best_on_def lives fst_conv snd_conv by blast
  have b': "best_on b SIDE_SHORT now m" if "best_live SIDE_SHORT b (T SIDE_SHORT) (is_live_intent now) (i, m)" for i m
    using that unfolding best_live_def best_on_def lives fst_conv snd_conv by blast
  from scan_run [OF filedD(2) [OF f side(1)] filedD(2) [OF f side(2)], of now] obtain r where
    r: "scan_for_first_valid_pair b now = Inr r" "r = None \<longleftrightarrow> \<not> crossing b now (T SIDE_LONG) (T SIDE_SHORT)"
    and best: "\<And>x y. r = Some (x, y) \<Longrightarrow> \<exists>i m j n. best_live SIDE_LONG b (T SIDE_LONG) (is_live_intent now) (i, m) \<and>
       best_live SIDE_SHORT b (T SIDE_SHORT) (is_live_intent now) (j, n) \<and> x = intent_id m \<and> y = intent_id n" by blast
  have "\<exists>l s. best_on b SIDE_LONG now l \<and> best_on b SIDE_SHORT now s \<and> x = intent_id l \<and> y = intent_id s" if "r = Some (x, y)" for x y
    using best [OF that] b b' by blast
  then show ?thesis using r c by simp
qed

lemma scan_finds_best_pair_witness: "scan_for_first_valid_pair ex_resting_orders 100 = Inr (Some (1, 3))"
proof -
  have live: "is_live_intent 100 (ex_node s p k c r q)" for s p k c r q by (simp add: is_live_intent_def ex_node_def)
  have fields: "in_side (ex_node s p k c r q) = s" "intent_id (ex_node s p k c r q) = k" "price_limit_fp (ex_node s p k c r q) = p"
    for s p k c r q by (simp_all add: ex_node_def)
  have k: "intent_key SIDE_LONG (ex_node SIDE_LONG 50 1 RB_BLACK 2 0) < intent_key SIDE_LONG (ex_node SIDE_LONG 40 2 RB_RED 0 1)"
    by (simp add: intent_key_def ex_node_def)
  have lives: "lives_in ex_resting_orders side 100 i n \<longleftrightarrow> intent ex_resting_orders i = Inr n \<and> in_side n = side" for side i n
    by (auto simp: lives_in_def ex_resting_orders_pool live)
  have l: "lives_in ex_resting_orders SIDE_LONG 100 1 (ex_node SIDE_LONG 50 1 RB_BLACK 2 0)"
    "lives_in ex_resting_orders SIDE_SHORT 100 3 (ex_node SIDE_SHORT 45 3 RB_BLACK 0 0)"
    by (simp_all add: lives ex_resting_orders_pool fields)
  have "price_limit_fp (ex_node SIDE_SHORT 45 3 RB_BLACK 0 0) \<le> price_limit_fp (ex_node SIDE_LONG 50 1 RB_BLACK 2 0)"
    by (simp add: fields)
  with l have c: "some_pair_crosses ex_resting_orders 100" unfolding some_pair_crosses_def by blast
  have "intent_id n = 1" if "best_on ex_resting_orders SIDE_LONG 100 n" for n
  proof -
    from that obtain i where i: "lives_in ex_resting_orders SIDE_LONG 100 i n" by (auto simp: best_on_def)
    have "n \<noteq> ex_node SIDE_LONG 40 2 RB_RED 0 1" using that l(1) k unfolding best_on_def by (meson not_le)
    then show ?thesis using i by (auto simp: lives ex_resting_orders_pool fields)
  qed
  moreover have "intent_id n = 3" if "best_on ex_resting_orders SIDE_SHORT 100 n" for n
    using that by (auto simp: best_on_def lives ex_resting_orders_pool fields)
  ultimately show ?thesis using scan_finds_best_pair [OF ex_resting_orders_ok, of 100] c
    by (metis option.exhaust surj_pair)
qed

section \<open>Seats\<close>

text \<open>
  C36. The trader index: a lookup always returns; inserting the seat of a trader it does not have
  succeeds, keeps it a red-black tree ordered by trader with one seat each, and afterwards the lookup
  finds that trader at that seat and every other trader where it was.
\<close>

theorem seat_index_insert:
  assumes "seat_tree b t" "z \<noteq> NULL_IDX" "seat b z = Inr n" "z \<notin> set (ids t)" "seat_find b (trader n) = Inr NULL_IDX"
  shows "\<exists>b' t'. stree_insert z b = (Inr (), b') \<and> seat_tree b' t' \<and> seat_rest b' = seat_rest b \<and>
    set (ids t') = insert z (set (ids t)) \<and> (\<forall>k. seat_find b' k = (if k = trader n then Inr z else seat_find b k))"
proof -
  have d: "distinct (map (trader_at b) (ids t))" using assms(1) by (simp add: seat_tree_def)
  have new: "trader n \<notin> trader_at b ` set (ids t)"
  proof
    assume "trader n \<in> trader_at b ` set (ids t)"
    then obtain i where i: "i \<in> set (ids t)" "trader_at b i = trader n" by auto
    then have "seat_find b (trader n) = Inr i" using seat_find_run [OF assms(1)] find_seat_cases(1) [OF d i(1)] by simp
    with assms(5) seat_tree_member [OF assms(1) i(1)] show False by simp
  qed
  from stree_insert_run [OF assms(1-4) new] obtain b' t' where b': "stree_insert z b = (Inr (), b')" "seat_tree b' t'"
    "ids t' = place_in (trader_at b) (trader n) z (ids t)" "seat_rest b' = seat_rest b" by blast
  have key: "trader_at b' i = trader_at b i" if "i \<in> insert z (set (ids t))" for i
    using trader_at_rest [OF b'(4)] that seat_tree_member [OF assms(1)] assms(3) by blast
  have s: "set (ids t') = insert z (set (ids t))" by (simp add: b'(3))
  have d': "distinct (map (trader_at b') (ids t'))" using b'(2) by (simp add: seat_tree_def)
  have z: "trader_at b' z = trader n" using key [of z] trader_at_seat [OF assms(3)] by simp
  have "seat_find b' k = (if k = trader n then Inr z else seat_find b k)" for k
  proof -
    consider "k = trader n" | i where "k \<noteq> trader n" "i \<in> set (ids t)" "trader_at b i = k" | "k \<noteq> trader n" "k \<notin> trader_at b ` set (ids t)"
      by blast
    then show ?thesis
    proof cases
      case 1
      with z find_seat_cases(1) [OF d', of z] s show ?thesis by (simp add: seat_find_run [OF b'(2)])
    next
      case 2
      with find_seat_cases(1) [OF d', of i] find_seat_cases(1) [OF d, of i] s key [of i] show ?thesis
        by (simp add: seat_find_run [OF b'(2)] seat_find_run [OF assms(1)])
    next
      case 3
      then have "k \<notin> trader_at b' ` set (ids t')" using s key z by auto
      with 3 find_seat_cases(2) [OF d', of k] find_seat_cases(2) [OF d, of k] show ?thesis
        by (simp add: seat_find_run [OF b'(2)] seat_find_run [OF assms(1)])
    qed
  qed
  then show ?thesis using b' s by blast
qed

lemma seat_index_insert_witness:
  "\<exists>b'. stree_insert 7 ex_orders = (Inr (), b') \<and> seat_find b' (Pubkey [1]) = Inr 7 \<and> seat_find b' (Pubkey [2]) = Inr 6 \<and>
    seat_find b' (Pubkey [3]) = Inr NULL_IDX"
proof -
  have "trader_at ex_orders 6 = Pubkey [2]" "trader (ex_trader (Pubkey [1]) RB_RED) = Pubkey [1]"
    by (simp_all add: trader_at_seat [OF ex_intents(5)] ex_trader_def)
  moreover from this have "seat_find ex_orders k = Inr (if k = Pubkey [2] then 6 else NULL_IDX)" for k
    by (simp add: seat_find_run [OF ex_sides(3)] ex_ids find_seat_def)
  ultimately show ?thesis
    using seat_index_insert [OF ex_sides(3) _ ex_intents(6)] by (auto simp: ex_ids NULL_IDX_def)
qed

end
