(* ===== verification/Match_Facts.thy ===== *)
theory Match_Facts
  imports Order_Properties
begin

text \<open>
  The stages of a match: what the fee is, what a fill does to a margin account, what one contract
  taken out of an intent leaves in the book, and the position that is opened. An account of the
  program that a stage is not about keeps its data (\<open>holds\<close>).
\<close>

section \<open>An account of the program that no step is about\<close>

definition holds :: "env \<Rightarrow> pubkey \<Rightarrow> acct_data \<Rightarrow> world \<Rightarrow> bool" where
  "holds e k d w \<longleftrightarrow> acc_owner (w k) = program_id e \<and> acc_data (w k) = d"

lemma holds_edit:
  assumes "\<And>r. ld d \<noteq> Inr r"
  shows "keeps S (holds e k d) (edit_acct ld mk ai m)"
proof (rule keepsI)
  fix w r w' assume run: "edit_acct ld mk ai m w = (r, w')" and o: "holds e k d w"
  show "holds e k d w'"
  proof (cases "ld (acc_data (w (ai_key ai)))")
    case (Inl x)
    with run o show ?thesis by (simp add: edit_acct_def zoom_def)
  next
    case (Inr s)
    with o assms have "k \<noteq> ai_key ai" by (auto simp: holds_def)
    with Inr run o show ?thesis by (auto simp: edit_acct_def zoom_def holds_def split: prod.splits)
  qed
qed

lemma holds_init: "discriminator d \<noteq> 0 \<Longrightarrow> keeps False (holds e k d) (init_acct n ai x)"
  by (rule keepsI) (auto simp: committed_def holds_def init_acct_ok split: sum.splits)

lemma holds_create: "owned_frame e \<Longrightarrow> keeps False (holds e k d) (create_account e p new sys n own s)"
  by (rule keepsI) (auto simp: committed_def holds_def create_account_def dest: owned_frameD split: sum.splits)

lemma holds_ensure:
  assumes "owned_frame e" "discriminator d \<noteq> 0"
  shows "keeps False (holds e k d) (ensure_fee_treasury e p ai mint sys)"
    "keeps False (holds e k d) (ensure_user_volume e p ai own mint sys)"
  unfolding ensure_fee_treasury_def ensure_user_volume_def
  by (intro traced_intros holds_create holds_init assms)+

lemma holds_charge:
  assumes "owned_frame e" "discriminator d \<notin> {0, 11, 12}"
  shows "keeps False (holds e k d) (charge_taker e ctx fc tk mk mint c)"
proof -
  have "load_user_volume d \<noteq> Inr v" "load_treasury d \<noteq> Inr t" for v t using assms(2) by (auto simp: load_oks)
  then show ?thesis unfolding charge_taker_def
    by (intro traced_intros holds_ensure holds_edit) (use assms in auto)
qed

section \<open>The fee\<close>

text \<open>The volume an account stands for: none before it is created.\<close>

definition volume_of :: "env \<Rightarrow> acct_data \<Rightarrow> u64" where
  "volume_of e d = (case d of DUserVolume v \<Rightarrow> effective_30d_volume v (clock_slot e) | _ \<Rightarrow> 0)"

lemma effective_new: "effective_30d_volume (new_user_volume own mint now bump) now = 0"
  by (simp add: effective_30d_volume_def maybe_roll_epoch_def new_user_volume_def prog_defs Let_def
    USER_VOLUME_EPOCH_SLOTS_def max_def word_le_nat_alt word_less_nat_alt)

lemma ensure_run:
  shows "ensure_fee_treasury e p ai mint sys w = (Inr u, w') \<Longrightarrow> w' = w \<or>
      (\<exists>n sd w1 t. create_account e p ai sys n (program_id e) sd w = (Inr (), w1) \<and> w' = set_data (ai_key ai) (DTreasury t) w1)"
    and "ensure_user_volume e p ai own mint sys w = (Inr u, w') \<Longrightarrow>
      w' = w \<and> acct_len ai w \<noteq> 0 \<or> acct_len ai w = 0 \<and>
      (\<exists>n sd w1 b. create_account e p ai sys n (program_id e) sd w = (Inr (), w1) \<and>
         w' = set_data (ai_key ai) (DUserVolume (new_user_volume own mint (clock_slot e) b)) w1)"
  unfolding ensure_fee_treasury_def ensure_user_volume_def
  by (auto simp: bnd_ok seq_ok gets_ok pda_ok assert_owner_ok read_acct_ok ensure_ok init_acct_ok split: if_splits; blast)+

lemma treasury_back:
  assumes c: "creates_zeroed e" and run: "ensure_fee_treasury e p ai mint sys w = (Inr u, w')"
    and d: "discriminator (acc_data (w' k)) \<noteq> 12"
  shows "acc_data (w k) = acc_data (w' k)"
  using ensure_run(1) [OF run]
proof (elim disjE exE conjE)
  fix n sd w1 t
  assume cr: "create_account e p ai sys n (program_id e) sd w = (Inr (), w1)" and w': "w' = set_data (ai_key ai) (DTreasury t) w1"
  have "k \<noteq> ai_key ai" using d w' by auto
  with create_accountD(4) [OF c cr] show ?thesis by (simp add: w')
qed simp

lemma volume_back:
  assumes c: "creates_zeroed e" and run: "ensure_user_volume e p ai own mint sys w = (Inr u, w')"
  shows "discriminator (acc_data (w' k)) \<noteq> 11 \<or> k \<noteq> ai_key ai \<Longrightarrow> acc_data (w k) = acc_data (w' k)"
    and "acc_data (w' k) = DUserVolume v \<Longrightarrow>
      acct_len ai w = 0 \<and> k = ai_key ai \<and> volume_of e (acc_data (w' k)) = 0 \<or> acc_data (w k) = acc_data (w' k)"
proof -
  have *: "acc_data (w k) = acc_data (w' k) \<or> acct_len ai w = 0 \<and> k = ai_key ai \<and>
    (\<exists>b. acc_data (w' k) = DUserVolume (new_user_volume own mint (clock_slot e) b))"
    using ensure_run(2) [OF run]
  proof (elim disjE exE conjE)
    fix n sd w1 b
    assume "acct_len ai w = 0" "create_account e p ai sys n (program_id e) sd w = (Inr (), w1)"
      "w' = set_data (ai_key ai) (DUserVolume (new_user_volume own mint (clock_slot e) b)) w1"
    with create_accountD(4) [OF c this(2)] show ?thesis by (cases "k = ai_key ai") auto
  qed simp
  show "discriminator (acc_data (w' k)) \<noteq> 11 \<or> k \<noteq> ai_key ai \<Longrightarrow> acc_data (w k) = acc_data (w' k)"
    using * by auto
  show "acc_data (w' k) = DUserVolume v \<Longrightarrow>
      acct_len ai w = 0 \<and> k = ai_key ai \<and> volume_of e (acc_data (w' k)) = 0 \<or> acc_data (w k) = acc_data (w' k)"
    using * by (auto simp: volume_of_def effective_new)
qed

lemma fee_atoms_share: "fee_atoms_of c bps = bps_share c bps"
  by (simp add: fee_atoms_of_def bps_share_def)

lemma data_len_0: "data_len d = 0 \<longleftrightarrow> d = DRaw []"
  by (cases d) (auto simp: PROGRAM_CONFIG_LEN_def MARGIN_ACCOUNT_LEN_def INSTRUMENT_CONFIG_LEN_def INTENT_BOOK_HEADER_LEN_def
    PMLC_LEN_def MARKET_NONCE_LEN_def FEE_SCHEDULE_LEN_def USER_VOLUME_LEN_def FEE_TREASURY_LEN_def TIMELOCK_PROPOSAL_LEN_def
    ADMIN_MULTISIG_LEN_def BUCKET_REGISTRY_LEN_def STABLECOIN_REGISTRY_LEN_def SESSION_LEN_def)

lemma empty_data: "acct_len ai w = 0 \<Longrightarrow> discriminator (acc_data (w (ai_key ai))) = 0 \<and> volume_of e (acc_data (w (ai_key ai))) = 0"
  by (auto simp: acct_len_def data_len_0 volume_of_def first_byte_def)

lemma charge_taker_fee:
  assumes c: "creates_zeroed e" and run: "charge_taker e ctx fc tk mk mint q w = (Inr fee, w')"
  shows "\<exists>sched. acc_data (w (ai_key (fc_fee_schedule_ai fc))) = DFeeSchedule sched \<and>
    fee = word_of_nat (unat q * unat (fee_for_volume sched (volume_of e (acc_data (w (ai_key (fc_taker_volume_ai fc)))))) div 10000)"
proof -
  let ?k = "ai_key (fc_taker_volume_ai fc)" and ?s = "ai_key (fc_fee_schedule_ai fc)"
  from run obtain w1 v1 v2 sched vol where
    r: "ensure_fee_treasury e (mc_payer ctx) (fc_fee_treasury_ai fc) mint (mc_system_program ctx) w = (Inr (), w1)"
      "ensure_user_volume e (mc_payer ctx) (fc_taker_volume_ai fc) tk mint (mc_system_program ctx) w1 = (Inr (), v1)"
      "ensure_user_volume e (mc_payer ctx) (fc_maker_volume_ai fc) mk mint (mc_system_program ctx) v1 = (Inr (), v2)"
    and d: "acc_data (v2 ?s) = DFeeSchedule sched" "acc_data (v2 ?k) = DUserVolume vol"
    and fee: "fee_atoms_of q (fee_for_volume sched (effective_30d_volume vol (clock_slot e))) = Inr fee"
    unfolding charge_taker_def by (auto simp: bnd_ok seq_ok ret_ok lift_ok read_acct_ok load_oks)
  have s: "acc_data (v1 ?s) = DFeeSchedule sched" using volume_back(1) [OF c r(3), of ?s] d(1) by simp
  then have s: "acc_data (w1 ?s) = DFeeSchedule sched" using volume_back(1) [OF c r(2), of ?s] by simp
  then have s: "acc_data (w ?s) = DFeeSchedule sched" using treasury_back [OF c r(1), of ?s] by simp
  have "acct_len (fc_taker_volume_ai fc) v1 \<noteq> 0"
    using ensure_run(2) [OF r(2)] by (auto simp: acct_len_def USER_VOLUME_LEN_def)
  then have v: "acc_data (v1 ?k) = DUserVolume vol"
    using volume_back(2) [OF c r(3) d(2)] d(2) by (auto simp: acct_len_def)
  have "volume_of e (acc_data (w ?k)) = effective_30d_volume vol (clock_slot e)"
    using volume_back(2) [OF c r(2) v]
  proof
    assume z: "acct_len (fc_taker_volume_ai fc) w1 = 0 \<and> ?k = ?k \<and> volume_of e (acc_data (v1 ?k)) = 0"
    then have "discriminator (acc_data (w1 ?k)) = 0" "volume_of e (acc_data (w1 ?k)) = 0" using empty_data by blast+
    then show ?thesis using treasury_back [OF c r(1), of ?k] z v by (simp add: volume_of_def)
  next
    assume "acc_data (w1 ?k) = acc_data (v1 ?k)"
    then show ?thesis using treasury_back [OF c r(1), of ?k] v by (simp add: volume_of_def)
  qed
  then show ?thesis using fee s by (auto simp: fee_atoms_share bps_share_ok)
qed

section \<open>One side\<close>

text \<open>What a fill does to a margin account: it locks the bucket, returns the released part of the fee
  buffer, and pays the fee.\<close>

definition side_filled :: "world \<Rightarrow> world \<Rightarrow> pubkey \<Rightarrow> pubkey \<Rightarrow> nat \<Rightarrow> nat \<Rightarrow> nat \<Rightarrow> bool" where
  "side_filled w w' k own c released fee \<longleftrightarrow> (\<exists>m m'. margin_at w k = Some m \<and> margin_at w' k = Some m' \<and>
     ma_owner m = own \<and> ma_owner m' = own \<and>
     unat (locked_collateral m') = unat (locked_collateral m) + c \<and>
     unat (reserved_collateral m) = unat (reserved_collateral m') + c + released \<and>
     unat (free_collateral m') + fee = unat (free_collateral m) + released)"

lemma settle_fill_effect:
  assumes "settle_fill c rel taker fee m = (Inr u, m')"
  shows "ma_owner m' = ma_owner m" "unat (locked_collateral m') = unat (locked_collateral m) + unat c"
    "unat (reserved_collateral m) = unat (reserved_collateral m') + unat c + unat rel"
    "unat (free_collateral m') + (if taker then unat fee else 0) = unat (free_collateral m) + unat rel"
  using assms by (cases taker; cases "rel = 0"; cases "fee = 0";
    auto simp: settle_fill_def seq_ok when_do_ok move_oks debit_free_ok word_gt_0)+

lemma settle_match_run:
  assumes fr: "owned_frame e" "creates_zeroed e" and fc: "mc_fee_ctx ctx = Some fc"
    and keys: "ai_key (mc_long_margin_ai ctx) \<noteq> ai_key (mc_short_margin_ai ctx)"
    and own: "acc_owner (w (ai_key (mc_long_margin_ai ctx))) = program_id e" "acc_owner (w (ai_key (mc_short_margin_ai ctx))) = program_id e"
    and run: "settle_match e ctx inst r w = (Inr u, w')"
  obtains fee sched where "acc_data (w (ai_key (fc_fee_schedule_ai fc))) = DFeeSchedule sched"
    "fee = (word_of_nat (unat (collateral_bucket inst) * unat (fee_for_volume sched (volume_of e (acc_data (w (ai_key (fc_taker_volume_ai fc)))))) div 10000) :: u64)"
    "side_filled w w' (ai_key (mc_long_margin_ai ctx)) (mr_long_trader r) (unat (collateral_bucket inst))
       (unat (mr_release_long r)) (if mr_taker_is_long r then unat fee else 0)"
    "side_filled w w' (ai_key (mc_short_margin_ai ctx)) (mr_short_trader r) (unat (collateral_bucket inst))
       (unat (mr_release_short r)) (if mr_taker_is_long r then 0 else unat fee)"
proof -
  let ?l = "ai_key (mc_long_margin_ai ctx)" and ?s = "ai_key (mc_short_margin_ai ctx)"
  from run fc obtain l s fee w1 w2 where m: "acc_data (w ?l) = DMargin l" "ma_owner l = mr_long_trader r"
      "acc_data (w ?s) = DMargin s" "ma_owner s = mr_short_trader r"
    and ch: "charge_taker e ctx fc (if mr_taker_is_long r then mr_long_trader r else mr_short_trader r)
              (if mr_taker_is_long r then mr_short_trader r else mr_long_trader r) (ic_mint inst)
              (collateral_bucket inst) w = (Inr fee, w1)"
    and r2: "edit_acct load_margin DMargin (mc_long_margin_ai ctx)
              (settle_fill (collateral_bucket inst) (mr_release_long r) (mr_taker_is_long r) fee) w1 = (Inr (), w2)"
    and r3: "edit_acct load_margin DMargin (mc_short_margin_ai ctx)
              (settle_fill (collateral_bucket inst) (mr_release_short r) (\<not> mr_taker_is_long r) fee) w2 = (Inr u, w')"
    unfolding settle_match_def Let_def
    by (auto simp: bnd_ok seq_ok lift_ok validate_margin_pda_ok ok_or_err_ok)
  have h: "acc_data (w1 ?l) = DMargin l" "acc_data (w1 ?s) = DMargin s"
    using keepsD [OF holds_charge [OF fr(1)] ch, of "DMargin l" ?l] keepsD [OF holds_charge [OF fr(1)] ch, of "DMargin s" ?s] m own
    by (simp_all add: holds_def)
  from r2 h(1) obtain l' where l: "settle_fill (collateral_bucket inst) (mr_release_long r) (mr_taker_is_long r) fee l = (Inr (), l')"
    "w2 = set_data ?l (DMargin l') w1" by (auto simp: edit_acct_ok load_oks)
  from r3 h(2) l(2) keys obtain s' where s: "settle_fill (collateral_bucket inst) (mr_release_short r) (\<not> mr_taker_is_long r) fee s = (Inr u, s')"
    "w' = set_data ?s (DMargin s') w2" by (auto simp: edit_acct_ok load_oks)
  from charge_taker_fee [OF fr(2) ch] obtain sched where "acc_data (w (ai_key (fc_fee_schedule_ai fc))) = DFeeSchedule sched"
    "fee = word_of_nat (unat (collateral_bucket inst) * unat (fee_for_volume sched (volume_of e (acc_data (w (ai_key (fc_taker_volume_ai fc)))))) div 10000)"
    by blast
  moreover have "side_filled w w' ?l (mr_long_trader r) (unat (collateral_bucket inst)) (unat (mr_release_long r)) (if mr_taker_is_long r then unat fee else 0)"
    using settle_fill_effect [OF l(1)] m keys by (simp add: side_filled_def margin_at_def s(2) l(2))
  moreover have "side_filled w w' ?s (mr_short_trader r) (unat (collateral_bucket inst)) (unat (mr_release_short r)) (if mr_taker_is_long r then 0 else unat fee)"
    using settle_fill_effect [OF s(1)] m keys by (simp add: side_filled_def margin_at_def s(2) l(2) split: if_splits)
  ultimately show thesis by (rule that)
qed

section \<open>The book\<close>

text \<open>
  One contract of an intent is taken: with it go the bucket and its share of the fee buffer. The
  slot is freed with the last contract.
\<close>

definition contract_taken :: "book \<Rightarrow> book \<Rightarrow> u32 \<Rightarrow> intent_node \<Rightarrow> u64 \<Rightarrow> u64 \<Rightarrow> bool" where
  "contract_taken b b' i n c rel \<longleftrightarrow> intent b i = Inr n \<and> contracts_remaining n \<noteq> 0 \<and> c \<le> intent_reserved n \<and>
     unat rel = unat (fee_buffer n) div unat (contracts_remaining n) \<and>
     (if contracts_remaining n = 1 then \<forall>k. intent b' i \<noteq> Inr k
      else \<exists>k. intent b' i = Inr k \<and> unlinked k = unlinked (n\<lparr> contracts_remaining := contracts_remaining n - 1,
        intent_reserved := intent_reserved n - c, fee_buffer := fee_buffer n - rel \<rparr>))"

lemma fee_release_share:
  assumes "fee_release_of n = Inr rel" "contracts_remaining n \<noteq> 0"
  shows "unat rel = unat (fee_buffer n) div unat (contracts_remaining n)"
proof (cases "contracts_remaining n = 1")
  case True
  then show ?thesis using assms(1) by (simp add: fee_release_of_def)
next
  case False
  have "0 < unat (contracts_remaining n)" "unat (contracts_remaining n) < 2 ^ 16"
    using assms(2) unat_lt2p [of "contracts_remaining n"] by (simp_all add: unat_gt_0)
  from release_one [OF this, of "fee_buffer n"] show ?thesis using assms(1) False by (auto simp: fee_release_of_def)
qed

lemma taken_slot:
  assumes "intent b i = Inr n" "contracts_remaining n \<noteq> 0" "fee_release_of n = Inr rel"
    "checked_sub (intent_reserved n) c = Some lr" "checked_sub (fee_buffer n) rel = Some lb"
    and "slot_after b' i (n\<lparr> contracts_remaining := contracts_remaining n - 1, intent_reserved := lr, fee_buffer := lb \<rparr>)"
  shows "contract_taken b b' i n c rel"
proof -
  have sub: "c \<le> intent_reserved n" "lr = intent_reserved n - c" "lb = fee_buffer n - rel"
    using assms(4,5) by (auto simp: checked_sub_def word_le_nat_alt split: if_splits)
  show ?thesis using assms(1,2,6) fee_release_share [OF assms(3,2)] sub
    by (auto simp: contract_taken_def slot_after_def split: if_splits)
qed

lemma consume_taken:
  assumes ok: "book_ok b" and n: "intent b li = Inr long" "in_side long = SIDE_LONG" "intent b si = Inr short" "in_side short = SIDE_SHORT"
    and left: "contracts_remaining long \<noteq> 0" "contracts_remaining short \<noteq> 0"
    and run: "consume_in_book c (contracts_remaining long - 1) (contracts_remaining short - 1) li si long short b = (Inr (m, n', rl, rs), b')"
  shows "book_ok b' \<and> rest_same {li, si} b b' \<and> contract_taken b b' li long c rl \<and> contract_taken b b' si short c rs"
    and "owner_seat m = owner_seat long" "owner_seat n' = owner_seat short"
    "price_limit_fp m = price_limit_fp long" "price_limit_fp n' = price_limit_fp short"
    "post_seq m = post_seq long" "post_seq n' = post_seq short"
proof -
  from run obtain lr lb sr sb where p: "consume_pair c (contracts_remaining long - 1) (contracts_remaining short - 1) long short = Inr (m, n', rl, rs)"
    "m = long\<lparr> contracts_remaining := contracts_remaining long - 1, intent_reserved := lr, fee_buffer := lb \<rparr>"
    "n' = short\<lparr> contracts_remaining := contracts_remaining short - 1, intent_reserved := sr, fee_buffer := sb \<rparr>"
    "fee_release_of long = Inr rl" "fee_release_of short = Inr rs"
    "checked_sub (intent_reserved long) c = Some lr" "checked_sub (intent_reserved short) c = Some sr"
    "checked_sub (fee_buffer long) rl = Some lb" "checked_sub (fee_buffer short) rs = Some sb"
    unfolding consume_in_book_def consume_pair_def by (auto simp: bnd_ok lift_ok seq_ok ret_ok try_res_ok ok_or_err_ok)
  from consume_in_book_run [OF ok n p(1)] run have "book_ok b'" "rest_same {li, si} b b'" "slot_after b' li m" "slot_after b' si n'"
    by auto
  then show "book_ok b' \<and> rest_same {li, si} b b' \<and> contract_taken b b' li long c rl \<and> contract_taken b b' si short c rs"
    using n left p by (intro conjI taken_slot) simp_all
  show "owner_seat m = owner_seat long" "owner_seat n' = owner_seat short"
    "price_limit_fp m = price_limit_fp long" "price_limit_fp n' = price_limit_fp short"
    "post_seq m = post_seq long" "post_seq n' = post_seq short"
    by (simp_all add: p(2,3))
qed

lemma match_in_book_run:
  assumes ok: "book_ok b" and run: "match_in_book e ik pk c l s b = (Inr (r, nid, bump), b')"
  obtains li si long short where "intent_id long = l" "in_side long = SIDE_LONG" "intent_id short = s" "in_side short = SIDE_SHORT"
    "clock_slot e < expiration_slot long" "clock_slot e < expiration_slot short" "price_limit_fp short \<le> price_limit_fp long"
    "book_ok b'" "rest_same {li, si} b b'"
    "contract_taken b b' li long c (mr_release_long r)" "contract_taken b b' si short c (mr_release_short r)"
    "seat_trader b (owner_seat long) = Inr (mr_long_trader r)" "seat_trader b (owner_seat short) = Inr (mr_short_trader r)"
    "unat (mr_entry_fp r) = (unat (price_limit_fp long) + unat (price_limit_fp short)) div 2"
    "mr_taker_is_long r = (post_seq short < post_seq long)"
proof -
  from run obtain li si long short m n rl rs b1 where
    res: "resolve_pair e b l s = Inr (li, si, long, short)"
    and cons: "consume_in_book c (contracts_remaining long - 1) (contracts_remaining short - 1) li si long short b = (Inr (m, n, rl, rs), b1)"
    and nid: "next_intent_id b1 = (Inr nid, b')"
    and tr: "seat_trader b' (owner_seat m) = Inr (mr_long_trader r)" "seat_trader b' (owner_seat n) = Inr (mr_short_trader r)"
    and r: "mr_entry_fp r = price_midpoint (price_limit_fp m) (price_limit_fp n)" "mr_release_long r = rl" "mr_release_short r = rs"
      "mr_taker_is_long r = (post_seq m > post_seq n)"
    unfolding match_in_book_def by (auto simp: bnd_ok asks_ok lift_ok ret_ok checked_sub_def no_panic_def ok_or_def split: if_splits)
  have res': "clock_slot e < expiration_slot long" "clock_slot e < expiration_slot short"
    "contracts_remaining long \<noteq> 0" "contracts_remaining short \<noteq> 0" "price_limit_fp short \<le> price_limit_fp long"
    using res by (auto simp: resolve_pair_def try_res_ok check_ok not_le not_less split: prod.splits)
  note sides = resolve_pair_sides [OF ok res]
  note taken = consume_taken [OF ok sides(1-4) res'(3,4) cons]
  have b': "intent b' j = intent b1 j" "seat b' j = seat b1 j" for j
    using nid by (auto simp: next_intent_id_ok intent_def seat_def)
  have "book_ok b'" using alwaysD [OF always_counter nid] taken(1) by blast
  moreover have "rest_same {li, si} b b'" "contract_taken b b' li long c rl" "contract_taken b b' si short c rs"
    using taken(1) by (simp_all add: rest_same_def contract_taken_def b')
  moreover have "seat_trader b i = Inr k" if "seat_trader b' i = Inr k" for i k
    using that rest_sameD(3) [OF taken(1) [THEN conjunct2, THEN conjunct1]] by (auto simp: seat_trader_def try_res_ok b')
  ultimately show thesis using sides res' taken(2-) tr r
    by (intro that [of long short li si]) (simp_all add: unat_price_midpoint)
qed

section \<open>Opening a position\<close>

lemma holds_settle:
  assumes fr: "owned_frame e" and d: "discriminator d \<notin> {0, 2, 11, 12}"
  shows "keeps False (holds e k d) (settle_match e ctx inst r)"
proof -
  have m: "load_margin d \<noteq> Inr m" for m using d by (auto simp: load_oks)
  show ?thesis unfolding settle_match_def validate_margin_pda_def Let_def
    by (intro traced_intros holds_charge holds_edit fr) (use d m in auto)
qed

lemma open_pmlc_run:
  assumes fr: "owned_frame e" "creates_zeroed e" and run: "open_pmlc e ctx inst r nid bump w = (Inr u, w')"
  obtains p where "acc_data (w' (ai_key (mc_pmlc_ai ctx))) = DPmlc p" "acc_owner (w' (ai_key (mc_pmlc_ai ctx))) = program_id e"
    "pm_status p = PMLC_STATUS_LIVE" "pm_instrument p = ai_key (mc_instrument_ai ctx)" "pm_id p = nid"
    "long_owner p = mr_long_trader r" "short_owner p = mr_short_trader r" "collateral_per_side p = collateral_bucket inst"
    "entry_price_fp p = mr_entry_fp r"
    "unat (size_fp p) = unat (collateral_bucket inst) * unat (ic_leverage_bps inst) div 10000 * 10 ^ 18 div unat (mr_entry_fp r)"
    "\<forall>k d. holds e k d w \<longrightarrow> discriminator d \<noteq> 0 \<longrightarrow> holds e k d w'"
proof -
  let ?k = "ai_key (mc_pmlc_ai ctx)"
  from run obtain sd w1 n sz where c: "create_account e (mc_payer ctx) (mc_pmlc_ai ctx) (mc_system_program ctx) PMLC_LEN (program_id e) sd w = (Inr (), w1)"
    and n: "notional_atoms (collateral_bucket inst) (ic_leverage_bps inst) = Inr n" "position_size_fp n (mr_entry_fp r) = Inr sz"
    and w': "w' = set_data ?k (DPmlc (new_pmlc e (ai_key (mc_instrument_ai ctx)) inst r nid bump n sz)) w1"
    unfolding open_pmlc_def Let_def by (auto simp: bnd_ok seq_ok lift_ok check_world_ok modify_ok)
  let ?p = "new_pmlc e (ai_key (mc_instrument_ai ctx)) inst r nid bump n sz"
  have "size_fp ?p = sz"
    using size_fp_set [of sz ?p] by (simp add: size_fp_def set_size_fp_def new_pmlc_def)
  moreover have "unat n = unat (collateral_bucket inst) * unat (ic_leverage_bps inst) div 10000"
    using notional_atoms_total [of "collateral_bucket inst" "ic_leverage_bps inst"] n(1) by auto
  ultimately have sz: "unat (size_fp ?p) = unat (collateral_bucket inst) * unat (ic_leverage_bps inst) div 10000 * 10 ^ 18 div unat (mr_entry_fp r)"
    using n(2) by (simp add: position_size_fp_ok)
  have keep: "holds e k d w'" if "holds e k d w" "discriminator d \<noteq> 0" for k d
  proof -
    have h: "holds e k d w1" using keepsD [OF holds_create [OF fr(1)] c _ that(1)] by simp
    then have "k \<noteq> ?k" using create_accountD(2) [OF fr(2) c] that(2) by (auto simp: holds_def first_byte_zeros)
    with h show ?thesis by (simp add: w' holds_def)
  qed
  show thesis
    by (rule that [of ?p]) (use create_accountD(1) [OF fr(2) c] sz keep in \<open>simp_all add: w' new_pmlc_def\<close>)
qed

end
