(* ===== verification/Match_Scenario.thy ===== *)
theory Match_Scenario
  imports Match_Facts
begin

text \<open>
  A concrete match: a well-ordered book with one intent on each side, of two traders, the accounts
  around it, and the run of \<open>process_match_pair\<close> on them.
\<close>

section \<open>A concrete match\<close>

text \<open>One resting intent of two contracts on each side, of two traders.\<close>

definition ex_order :: "u8 \<Rightarrow> u64 \<Rightarrow> u64 \<Rightarrow> u32 \<Rightarrow> intent_node" where
  "ex_order side price k own = (ex_node side price k RB_BLACK 0 0)\<lparr> owner_seat := own, intent_reserved := 2000, fee_buffer := 20 \<rparr>"

definition ex_pair_book :: book where
  "ex_pair_book = (new_intent_book (sk 20) 5 255 100)\<lparr> long_tree_root := 1, short_tree_root := 2, seat_tree_root := 3,
     node_count := 5, bk_next_intent_id := 9, bk_next_seq := 9,
     bk_nodes := [NFree 0, NIntent (ex_order SIDE_LONG 500000000000000000 1 3), NIntent (ex_order SIDE_SHORT 400000000000000000 2 4),
       NSeat ((ex_trader (sk 1) RB_BLACK)\<lparr> sn_right := 4 \<rparr>), NSeat ((ex_trader (sk 2) RB_RED)\<lparr> sn_parent := 3 \<rparr>)] \<rparr>"

lemma ex_order_fields [simp]:
  "in_side (ex_order s p k r) = s" "price_limit_fp (ex_order s p k r) = p" "intent_id (ex_order s p k r) = k"
  "owner_seat (ex_order s p k r) = r" "contracts_remaining (ex_order s p k r) = 2" "expiration_slot (ex_order s p k r) = 500"
  "post_seq (ex_order s p k r) = k" "intent_reserved (ex_order s p k r) = 2000" "fee_buffer (ex_order s p k r) = 20"
  "in_left (ex_order s p k r) = 0" "in_right (ex_order s p k r) = 0" "in_parent (ex_order s p k r) = 0" "in_color (ex_order s p k r) = RB_BLACK"
  "in_flags (ex_order s p k r) = 0"
  by (simp_all add: ex_order_def ex_node_def)

lemma ex_pair_nodes:
  "intent ex_pair_book 1 = Inr (ex_order SIDE_LONG 500000000000000000 1 3)"
  "intent ex_pair_book 2 = Inr (ex_order SIDE_SHORT 400000000000000000 2 4)"
  "seat ex_pair_book 3 = Inr ((ex_trader (sk 1) RB_BLACK)\<lparr> sn_right := 4 \<rparr>)"
  "seat ex_pair_book 4 = Inr ((ex_trader (sk 2) RB_RED)\<lparr> sn_parent := 3 \<rparr>)"
  by (simp_all add: intent_ok seat_ok ex_pair_book_def)

lemma ex_pair_cells:
  "intent ex_pair_book i = Inr n \<longleftrightarrow> i = 1 \<and> n = ex_order SIDE_LONG 500000000000000000 1 3 \<or>
     i = 2 \<and> n = ex_order SIDE_SHORT 400000000000000000 2 4"
  "seat ex_pair_book i = Inr s \<longleftrightarrow> i = 3 \<and> s = (ex_trader (sk 1) RB_BLACK)\<lparr> sn_right := 4 \<rparr> \<or>
     i = 4 \<and> s = (ex_trader (sk 2) RB_RED)\<lparr> sn_parent := 3 \<rparr>"
proof -
  have l: "length (bk_nodes ex_pair_book) = 5" by (simp add: ex_pair_book_def)
  have "i \<in> {0, 1, 2, 3, 4}" if "unat i < 5"
  proof -
    have "unat i \<in> {0, 1, 2, 3, 4}" using that by auto
    then show ?thesis by (auto simp: word_unat_eq_iff)
  qed
  moreover have "bk_nodes ex_pair_book ! unat (0 :: u32) = NFree 0" by (simp add: ex_pair_book_def)
  ultimately show "intent ex_pair_book i = Inr n \<longleftrightarrow> i = 1 \<and> n = ex_order SIDE_LONG 500000000000000000 1 3 \<or>
     i = 2 \<and> n = ex_order SIDE_SHORT 400000000000000000 2 4"
   "seat ex_pair_book i = Inr s \<longleftrightarrow> i = 3 \<and> s = (ex_trader (sk 1) RB_BLACK)\<lparr> sn_right := 4 \<rparr> \<or>
     i = 4 \<and> s = (ex_trader (sk 2) RB_RED)\<lparr> sn_parent := 3 \<rparr>"
    unfolding intent_ok seat_ok l by (auto simp: ex_pair_book_def)
qed

definition ex_pair_longs :: slot_tree where "ex_pair_longs = Node Leaf (1, Black) Leaf"
definition ex_pair_shorts :: slot_tree where "ex_pair_shorts = Node Leaf (2, Black) Leaf"
definition ex_pair_seats :: slot_tree where "ex_pair_seats = Node Leaf (3, Black) (Node Leaf (4, Red) Leaf)"

lemma ex_pair_trees:
  "side_tree SIDE_LONG ex_pair_book ex_pair_longs" "side_tree SIDE_SHORT ex_pair_book ex_pair_shorts" "seat_tree ex_pair_book ex_pair_seats"
proof -
  note view = intent_view_get [OF ex_pair_nodes(1)] intent_view_get [OF ex_pair_nodes(2)] seat_view_get [OF ex_pair_nodes(3)] seat_view_get [OF ex_pair_nodes(4)]
  have root: "lk_root (intent_view SIDE_LONG ex_pair_book) = 1" "lk_root (intent_view SIDE_SHORT ex_pair_book) = 2" "lk_root (seat_view ex_pair_book) = 3"
    by (simp_all add: intent_view_def seat_view_def ex_pair_book_def)
  have nodes: "1 \<in> lk_nodes (intent_view s ex_pair_book)" "2 \<in> lk_nodes (intent_view s ex_pair_book)"
    "3 \<in> lk_nodes (seat_view ex_pair_book)" "4 \<in> lk_nodes (seat_view ex_pair_book)" for s
    by (simp_all add: intent_nodes seat_nodes ex_pair_nodes NULL_IDX_def)
  show "side_tree SIDE_LONG ex_pair_book ex_pair_longs" "side_tree SIDE_SHORT ex_pair_book ex_pair_shorts" "seat_tree ex_pair_book ex_pair_seats"
    by (simp_all add: side_tree_def seat_tree_def at_def hangs_def rbt_def ex_pair_longs_def ex_pair_shorts_def ex_pair_seats_def nodes view root
      ex_trader_def NULL_IDX_def trader_at_seat [OF ex_pair_nodes(3)] trader_at_seat [OF ex_pair_nodes(4)] sk_def less_eq_pubkey_def)
qed

lemma ex_pair_book_ok: "book_ok ex_pair_book"
proof (rule book_okI)
  let ?T = "\<lambda>side. if side = SIDE_LONG then ex_pair_longs else ex_pair_shorts"
  have "book_free ex_pair_book []"
  proof (rule book_freeI)
    show "is_used (bk_nodes ex_pair_book ! i)" if "0 < i" "i < unat (node_count ex_pair_book)" "i \<notin> unat ` set ([] :: u32 list)" for i
    proof -
      have "i \<in> {1, 2, 3, 4}" using that by (auto simp: ex_pair_book_def)
      then show ?thesis by (auto simp: ex_pair_book_def)
    qed
  qed (auto simp: ex_pair_book_def new_intent_book_def NULL_IDX_def)
  then have inv: "book_inv ex_pair_book" by (auto simp: book_inv_def)
  have T: "side_tree side ex_pair_book (?T side)" if "side \<in> sides" for side
    using that ex_pair_trees by (auto simp: sides_def)
  have ids: "ids ex_pair_longs = [1]" "ids ex_pair_shorts = [2]" "ids ex_pair_seats = [3, 4]"
    by (simp_all add: ex_pair_longs_def ex_pair_shorts_def ex_pair_seats_def)
  have "set (ids (?T side)) = slots side ex_pair_book - {}" if "side \<in> sides" for side
    using that by (auto simp: sides_def slots_def ex_pair_cells ids)
  moreover have "set (ids ex_pair_seats) = seat_slots ex_pair_book - {}" by (auto simp: seat_slots_def ex_pair_cells ids)
  ultimately show "filed {} ex_pair_book ?T ex_pair_seats"
    using inv T ex_pair_trees(3) by (intro filedI) (auto simp: ex_pair_cells sides_def)
qed

text \<open>The accounts of the match: the schedule charges 30 basis points, the position account is still blank.\<close>

definition ex_volume_key :: "pubkey \<Rightarrow> pubkey" where
  "ex_volume_key k = fst (ex_find [SEED_USER_VOLUME, key_bytes k, key_bytes (sk 7)])"

definition ex_schedule_key :: pubkey where "ex_schedule_key = fst (ex_find [SEED_FEE_SCHEDULE])"
definition ex_treasury_key :: pubkey where "ex_treasury_key = fst (ex_find [SEED_TREASURY, key_bytes (sk 7)])"
definition ex_new_pmlc_key :: pubkey where "ex_new_pmlc_key = fst (ex_find (pmlc_seeds (sk 20) 9))"

definition ex_w_match :: world where
  "ex_w_match = ex_empty(sk 20 := owned_by (sk 9) (DInstrument (ex_instrument\<lparr> ic_book := sk 50 \<rparr>)),
     sk 50 := owned_by (sk 9) (DBook ex_pair_book),
     ex_margin_key (sk 1) := owned_by (sk 9) (DMargin (ex_margin (sk 1) 500 2020 0)),
     ex_margin_key (sk 2) := owned_by (sk 9) (DMargin (ex_margin (sk 2) 700 2020 0)),
     ex_schedule_key := owned_by (sk 9) (DFeeSchedule (new_fee_schedule ex_tiers 5 255)),
     ex_volume_key (sk 2) := owned_by (sk 9) (DUserVolume (new_user_volume (sk 2) (sk 7) 100 255)),
     ex_volume_key (sk 1) := owned_by (sk 9) (DUserVolume (new_user_volume (sk 1) (sk 7) 100 255)),
     ex_treasury_key := owned_by (sk 9) (DTreasury (new_fee_treasury (sk 7) 255)))"

definition ex_match_accounts :: "account_info list" where
  "ex_match_accounts = map ai_of [sk 3, sk 20, sk 50, ex_margin_key (sk 1), ex_margin_key (sk 2), ex_new_pmlc_key, sk 0,
     ex_schedule_key, ex_volume_key (sk 2), ex_volume_key (sk 1), ex_treasury_key]"

lemma more_seed_bytes:
  "SEED_PMLC = [112, 109, 108, 99]" "SEED_FEE_SCHEDULE = [102, 101, 101, 95, 115, 99, 104, 101, 100, 117, 108, 101]"
  "SEED_USER_VOLUME = [118, 111, 108, 117, 109, 101]" "SEED_TREASURY = [116, 114, 101, 97, 115, 117, 114, 121]"
  by code_simp+

lemmas match_keys = ex_volume_key_def ex_schedule_key_def ex_treasury_key_def ex_new_pmlc_key_def ex_margin_key_def ex_find_def sk_def
  more_seed_bytes pmlc_seeds_def

lemma ex_match_keys_distinct:
  "distinct [sk 20, sk 50, ex_margin_key (sk 1), ex_margin_key (sk 2), ex_new_pmlc_key, ex_schedule_key, ex_volume_key (sk 2),
     ex_volume_key (sk 1), ex_treasury_key]"
  by (simp add: match_keys)

definition ex_match_args :: match_pair_args where
  "ex_match_args = \<lparr> mpa_long_intent_id = 1, mpa_short_intent_id = 2, mpa_max_contracts = 1 \<rparr>"


lemma ex_w_match_at:
  "ex_w_match (sk 20) = owned_by (sk 9) (DInstrument (ex_instrument\<lparr> ic_book := sk 50 \<rparr>))"
  "ex_w_match (sk 50) = owned_by (sk 9) (DBook ex_pair_book)"
  "ex_w_match (ex_margin_key (sk 1)) = owned_by (sk 9) (DMargin (ex_margin (sk 1) 500 2020 0))"
  "ex_w_match (ex_margin_key (sk 2)) = owned_by (sk 9) (DMargin (ex_margin (sk 2) 700 2020 0))"
  "ex_w_match ex_schedule_key = owned_by (sk 9) (DFeeSchedule (new_fee_schedule ex_tiers 5 255))"
  "ex_w_match (ex_volume_key (sk 2)) = owned_by (sk 9) (DUserVolume (new_user_volume (sk 2) (sk 7) 100 255))"
  "ex_w_match (ex_volume_key (sk 1)) = owned_by (sk 9) (DUserVolume (new_user_volume (sk 1) (sk 7) 100 255))"
  "ex_w_match ex_treasury_key = owned_by (sk 9) (DTreasury (new_fee_treasury (sk 7) 255))"
  "ex_w_match ex_new_pmlc_key = owned_by (sk 0) (DRaw [])"
  by (simp_all add: ex_w_match_def ex_empty_def match_keys)

abbreviation "ex_long \<equiv> ex_order SIDE_LONG 500000000000000000 1 3"
abbreviation "ex_short \<equiv> ex_order SIDE_SHORT 400000000000000000 2 4"
abbreviation "ex_long_left \<equiv> ex_long\<lparr> contracts_remaining := 1, intent_reserved := 1000, fee_buffer := 10 \<rparr>"
abbreviation "ex_short_left \<equiv> ex_short\<lparr> contracts_remaining := 1, intent_reserved := 1000, fee_buffer := 10 \<rparr>"

definition ex_taken_book :: book where
  "ex_taken_book = put_node 2 (NIntent ex_short_left) (put_node 1 (NIntent ex_long_left) ex_pair_book)"

lemma ex_pair_resolve: "resolve_pair ex_env ex_pair_book 1 2 = Inr (1, 2, ex_long, ex_short)"
proof -
  have "find_intent_by_id ex_pair_book 1 = Inr (1, SIDE_LONG)" "find_intent_by_id ex_pair_book 2 = Inr (2, SIDE_SHORT)"
    by (simp_all add: find_intent_by_id_def ex_pair_book_def)
  then show ?thesis by (simp add: resolve_pair_def ex_pair_nodes try_res_def check_def ex_env_def)
qed

lemma ex_pair_consume:
  "consume_in_book 1000 1 1 1 2 ex_long ex_short ex_pair_book = (Inr (ex_long_left, ex_short_left, 10, 10), ex_taken_book)"
proof -
  have "fee_release_of ex_long = Inr 10" "fee_release_of ex_short = Inr 10"
    by (simp_all add: fee_release_of_def release_fee_buffer_for_fill_def checked_mul_def no_panic_def ok_or_def try_res_def Let_def)
  then have cons: "consume_pair 1000 1 1 ex_long ex_short = Inr (ex_long_left, ex_short_left, 10, 10)"
    by (simp add: consume_pair_def try_res_def checked_sub_def ok_or_err_def ok_or_def)
  have "intent (put_node 1 (NIntent ex_long_left) ex_pair_book) 2 = Inr ex_short"
    by (simp add: intent_put_node [OF ex_pair_nodes(1)] ex_pair_nodes)
  then show ?thesis
    by (simp add: consume_in_book_def cons intent_mut_run [OF ex_pair_nodes(1)] intent_mut_run remove_if_filled_def prog_defs ex_taken_book_def)
qed

lemma ex_pair_midpoint: "price_midpoint 500000000000000000 400000000000000000 = 450000000000000000"
  by (simp add: price_midpoint_def)

lemma ex_match_book_run:
  "\<exists>b'. match_in_book ex_env (sk 20) ex_new_pmlc_key 1000 1 2 ex_pair_book =
    (Inr (\<lparr> mr_long_trader = sk 1, mr_short_trader = sk 2, mr_entry_fp = 450000000000000000,
            mr_release_long = 10, mr_release_short = 10, mr_taker_is_long = False, mr_long_reentry = False, mr_short_reentry = False,
            mr_long_price = 500000000000000000, mr_short_price = 400000000000000000 \<rparr>, 9, 255), b')"
proof -
  let ?b = "ex_taken_book\<lparr> bk_next_intent_id := 10 \<rparr>"
  have n: "next_intent_id ex_taken_book = (Inr 9, ?b)"
    by (simp add: next_intent_id_def prog_defs checked_add_def put_node_def ex_taken_book_def) (simp add: ex_pair_book_def)
  have t: "seat_trader ?b 3 = Inr (sk 1)" "seat_trader ?b 4 = Inr (sk 2)"
    by (simp_all add: seat_trader_def seat_def try_res_def ok_or_err_def ok_or_def put_node_def ex_taken_book_def ex_pair_book_def ex_trader_def)
  have "assert_pda ex_env (pmlc_seeds (sk 20) 9) ex_new_pmlc_key = Inr 255"
    by (simp add: assert_pda_def ex_env_def ex_new_pmlc_key_def ex_find_def)
  then show ?thesis
    by (simp add: match_in_book_def ex_pair_resolve prog_defs checked_sub_def ex_pair_consume n t ex_pair_midpoint)
qed

lemma ex_volume_effective: "effective_30d_volume (new_user_volume k (sk 7) 100 255) 100 = 0"
  by (rule effective_new)

lemma ex_volume_added: "\<exists>v. add_volume 1000 100 (new_user_volume k (sk 7) 100 255) = (Inr (), v)"
  by (simp add: add_volume_def maybe_roll_epoch_def new_user_volume_def prog_defs Let_def checked_add_def
    USER_VOLUME_EPOCH_SLOTS_def max_def word_le_nat_alt word_less_nat_alt)


lemma ex_match_keys_distinct':
  "distinct (rev [sk 20, sk 50, ex_margin_key (sk 1), ex_margin_key (sk 2), ex_new_pmlc_key, ex_schedule_key, ex_volume_key (sk 2),
     ex_volume_key (sk 1), ex_treasury_key])"
  by (simp only: distinct_rev ex_match_keys_distinct)

lemmas ex_match_neq = ex_match_keys_distinct [simplified] ex_match_keys_distinct' [simplified]

definition ex_match_ctx :: match_ctx where
  "ex_match_ctx = \<lparr> mc_payer = ai_of (sk 3), mc_instrument_ai = ai_of (sk 20), mc_book_ai = ai_of (sk 50),
     mc_long_margin_ai = ai_of (ex_margin_key (sk 1)), mc_short_margin_ai = ai_of (ex_margin_key (sk 2)),
     mc_pmlc_ai = ai_of ex_new_pmlc_key, mc_system_program = ai_of (sk 0),
     mc_fee_ctx = Some \<lparr> fc_fee_schedule_ai = ai_of ex_schedule_key, fc_taker_volume_ai = ai_of (ex_volume_key (sk 2)),
       fc_maker_volume_ai = ai_of (ex_volume_key (sk 1)), fc_fee_treasury_ai = ai_of ex_treasury_key \<rparr> \<rparr>"

lemma ex_match_finds:
  "ex_find [SEED_FEE_SCHEDULE] = (ex_schedule_key, 255)" "ex_find [SEED_TREASURY, key_bytes (sk 7)] = (ex_treasury_key, 255)"
  "ex_find [SEED_USER_VOLUME, key_bytes k, key_bytes (sk 7)] = (ex_volume_key k, 255)"
  "ex_find (margin_seeds k (sk 7)) = (ex_margin_key k, 255)"
  by (simp_all add: ex_schedule_key_def ex_treasury_key_def ex_volume_key_def ex_margin_key_def ex_find_def margin_seeds_def)

lemma ex_match_unpack: "unpack_accounts ex_env ex_match_accounts ex_w_match = (Inr ex_match_ctx, ex_w_match)"
proof -
  have e: "program_id ex_env = sk 9" "system_program_id ex_env = sk 0" "find_program_address ex_env = ex_find" by (simp_all add: ex_env_def)
  show ?thesis
    by (simp add: unpack_accounts_def exec_defs ex_match_accounts_def ai_of_def ex_w_match_at owned_by_def e ex_match_finds ex_match_ctx_def)
qed

lemma ex_charge_runs:
  assumes "acc_data (w ex_treasury_key) = DTreasury (new_fee_treasury (sk 7) 255)" "acc_owner (w ex_treasury_key) = sk 9"
    "acc_data (w (ex_volume_key (sk 1))) = DUserVolume (new_user_volume (sk 1) (sk 7) 100 255)" "acc_owner (w (ex_volume_key (sk 1))) = sk 9"
    "acc_data (w (ex_volume_key (sk 2))) = DUserVolume (new_user_volume (sk 2) (sk 7) 100 255)" "acc_owner (w (ex_volume_key (sk 2))) = sk 9"
    "acc_data (w ex_schedule_key) = DFeeSchedule (new_fee_schedule ex_tiers 5 255)"
  shows "\<exists>v1 v2 t. charge_taker ex_env ex_match_ctx (the (mc_fee_ctx ex_match_ctx)) (sk 2) (sk 1) (sk 7) 1000 w =
    (Inr 3, set_data ex_treasury_key t (set_data (ex_volume_key (sk 1)) v1 (set_data (ex_volume_key (sk 2)) v2 w)))"
proof -
  have e: "program_id ex_env = sk 9" "find_program_address ex_env = ex_find" "clock_slot ex_env = 100" by (simp_all add: ex_env_def)
  obtain v1 v2 where v: "add_volume 1000 100 (new_user_volume (sk 1) (sk 7) 100 255) = (Inr (), v1)"
    "add_volume 1000 100 (new_user_volume (sk 2) (sk 7) 100 255) = (Inr (), v2)" using ex_volume_added by blast
  have f: "fee_atoms_of 1000 (fee_for_volume (new_fee_schedule ex_tiers 5 255) 0) = Inr 3"
    by (simp add: new_fee_schedule_def ex_tiers_def fee_for_volume_def fee_atoms_of_def checked_mul_def no_panic_def ok_or_def try_res_def BPS_DENOM_def)
  have u: "ensure_fee_treasury ex_env p (ai_of ex_treasury_key) (sk 7) q w = (Inr (), w)" for p q
    by (simp add: ensure_fee_treasury_def exec_defs e ex_match_finds ai_of_def assms load_defs FEE_TREASURY_LEN_def) (simp add: new_fee_treasury_def)
  have uv: "ensure_user_volume ex_env p (ai_of (ex_volume_key (sk 1))) (sk 1) (sk 7) q w = (Inr (), w)"
    "ensure_user_volume ex_env p (ai_of (ex_volume_key (sk 2))) (sk 2) (sk 7) q w = (Inr (), w)" for p q
    by (simp_all add: ensure_user_volume_def exec_defs e ex_match_finds ai_of_def assms load_defs USER_VOLUME_LEN_def) (simp_all add: new_user_volume_def)
  obtain t where t: "accrue 3 (new_fee_treasury (sk 7) 255) = (Inr (), t)"
    by (simp add: accrue_def new_fee_treasury_def update_checked_def prog_defs checked_add_def)
  have "charge_taker ex_env ex_match_ctx (the (mc_fee_ctx ex_match_ctx)) (sk 2) (sk 1) (sk 7) 1000 w =
    (Inr 3, set_data ex_treasury_key (DTreasury t) (set_data (ex_volume_key (sk 1)) (DUserVolume v1) (set_data (ex_volume_key (sk 2)) (DUserVolume v2) w)))"
    by (simp add: charge_taker_def seq_def bnd_def ex_match_ctx_def u uv)
      (simp add: ai_of_def read_acct_def edit_acct_def asks_def zoom_def lift_def assms load_defs cast_check_def check_def try_res_def ret_def f v t
       ex_volume_effective ex_match_neq when_do_def set_data_def)
  then show ?thesis by blast
qed

lemma ex_match_runs: "fst (process_match_pair ex_env ex_match_accounts ex_match_args ex_w_match) = Inr ()"
proof -
  have e: "find_program_address ex_env = ex_find" by (simp add: ex_env_def)
  obtain b' where b': "match_in_book ex_env (sk 20) ex_new_pmlc_key 1000 1 2 ex_pair_book =
    (Inr (\<lparr> mr_long_trader = sk 1, mr_short_trader = sk 2, mr_entry_fp = 450000000000000000,
            mr_release_long = 10, mr_release_short = 10, mr_taker_is_long = False, mr_long_reentry = False, mr_short_reentry = False,
            mr_long_price = 500000000000000000, mr_short_price = 400000000000000000 \<rparr>, 9, 255), b')" (is "_ = (Inr (?r, _, _), _)")
    using ex_match_book_run by blast
  let ?inst = "ex_instrument\<lparr> ic_book := sk 50 \<rparr>" and ?w1 = "set_data (sk 50) (DBook b') ex_w_match"
  from ex_charge_runs [of ?w1] obtain v1 v2 t where ch: "charge_taker ex_env ex_match_ctx (the (mc_fee_ctx ex_match_ctx)) (sk 2) (sk 1) (sk 7) 1000 ?w1 =
    (Inr 3, set_data ex_treasury_key t (set_data (ex_volume_key (sk 1)) v1 (set_data (ex_volume_key (sk 2)) v2 ?w1)))" (is "_ = (_, ?w2)")
    by (auto simp: ex_w_match_at ex_match_neq owned_by_def)
  obtain l s where fill: "settle_fill 1000 10 False 3 (ex_margin (sk 1) 500 2020 0) = (Inr (), l)" "settle_fill 1000 10 True 3 (ex_margin (sk 2) 700 2020 0) = (Inr (), s)"
    by (simp add: settle_fill_def ex_margin_def new_margin_account_def prog_defs move_reserved_to_locked_def move_reserved_to_free_def when_do_def
     debit_reserved_def credit_locked_def credit_free_def debit_free_def update_checked_def checked_add_def checked_sub_def)
  have w2: "acc_data (?w2 (ex_margin_key (sk 1))) = DMargin (ex_margin (sk 1) 500 2020 0)"
    "acc_data (?w2 (ex_margin_key (sk 2))) = DMargin (ex_margin (sk 2) 700 2020 0)" "?w2 ex_new_pmlc_key = owned_by (sk 0) (DRaw [])"
    by (simp_all add: ex_w_match_at ex_match_neq) (simp_all add: ex_w_match_at ex_match_neq owned_by_def set_data_def)
  have m: "validate_margin_pda ex_env (ai_of (ex_margin_key (sk 1))) (sk 1) (sk 7) ?w1 = (Inr (), ?w1)"
    "validate_margin_pda ex_env (ai_of (ex_margin_key (sk 2))) (sk 2) (sk 7) ?w1 = (Inr (), ?w1)"
    by (auto simp: validate_margin_pda_ok e ex_match_finds ai_of_def ex_w_match_at ex_match_neq owned_by_def ex_margin_def new_margin_account_def)
  have fc: "ok_or_err (mc_fee_ctx ex_match_ctx) FeeAccountsRequired = Inr (the (mc_fee_ctx ex_match_ctx))"
    by (simp add: ex_match_ctx_def ok_or_err_def ok_or_def)
  have i: "ic_mint ?inst = sk 7" "collateral_bucket ?inst = 1000" "ic_leverage_bps ?inst = 100000" by (simp_all add: ex_instrument_def)
  have k: "mc_long_margin_ai ex_match_ctx = ai_of (ex_margin_key (sk 1))" "mc_short_margin_ai ex_match_ctx = ai_of (ex_margin_key (sk 2))"
    "mc_pmlc_ai ex_match_ctx = ai_of ex_new_pmlc_key" "mc_instrument_ai ex_match_ctx = ai_of (sk 20)" "mc_book_ai ex_match_ctx = ai_of (sk 50)"
    "ai_key (ai_of j) = j" for j
    by (simp_all add: ex_match_ctx_def ai_of_def)
  have fill1: "edit_acct load_margin DMargin (ai_of (ex_margin_key (sk 1))) (settle_fill 1000 10 False 3) ?w2 = (Inr (), set_data (ex_margin_key (sk 1)) (DMargin l) ?w2)" (is "_ = (_, ?w3)")
    unfolding edit_acct_ok using w2(1) fill(1) by (simp add: load_oks k)
  have fill2: "edit_acct load_margin DMargin (ai_of (ex_margin_key (sk 2))) (settle_fill 1000 10 True 3) ?w3 = (Inr (), set_data (ex_margin_key (sk 2)) (DMargin s) ?w3)" (is "_ = (_, ?w4)")
    unfolding edit_acct_ok using w2(2) fill(2) by (simp add: load_oks k)
  have st: "settle_match ex_env ex_match_ctx ?inst ?r ?w1 = (Inr (), ?w4)"
    unfolding settle_match_def Let_def i k fc lift_def seq_def bnd_def
    using m ch fill1 fill2 by simp
  have blank: "?w4 ex_new_pmlc_key = owned_by (sk 0) (DRaw [])"
    using w2(3) ex_match_neq by (simp add: set_data_def)
  obtain n sz where n: "notional_atoms 1000 100000 = Inr n" "position_size_fp n 450000000000000000 = Inr sz"
    by (simp add: notional_atoms_def position_size_fp_def checked_mul_def checked_div_def BPS_DENOM_def PRICE_ONE_U128_def PRICE_ONE_def run_defs
      ok_or_err_def no_panic_def Let_def)
  have e': "program_id ex_env = sk 9" "invoke ex_env = ex_invoke" by (simp_all add: ex_env_def)
  have op: "fst (open_pmlc ex_env ex_match_ctx ?inst ?r 9 255 ?w4) = Inr ()"
    unfolding open_pmlc_def Let_def i k
    by (simp add: create_account_def e' ex_create_def blank owned_by_def n check_world_def acct_len_def prog_defs k)
  have rd: "read_acct load_instrument (ai_of (sk 20)) ex_w_match = (Inr ?inst, ex_w_match)"
    by (simp add: read_acct_ok load_oks k ex_w_match_at owned_by_def)
  have bk: "edit_acct load_book DBook (ai_of (sk 50)) (match_in_book ex_env (sk 20) ex_new_pmlc_key 1000 1 2) ex_w_match = (Inr (?r, 9, 255), ?w1)"
    unfolding edit_acct_ok using b' by (simp add: load_oks k ex_w_match_at owned_by_def)
  have "fst (match_pair_core ex_env ex_match_ctx 1 2 1 ex_w_match) = Inr ()"
    unfolding match_pair_core_def k seq_def bnd_def rd
    using bk st op by (simp add: lift_def require_active_def ex_instrument_def STATUS_ACTIVE_def ensure_def require_def ret_def)
  then show ?thesis
    by (simp add: process_match_pair_def bnd_def ex_match_unpack ex_match_args_def)
qed

end
