(* ===== verification/Match_Properties.thy ===== *)
theory Match_Properties
  imports Match_Scenario
begin

text \<open>
  What a match requires and leaves behind: the two intents give up one contract each, both margin
  accounts lock the bucket and get the released fee buffer back, the taker pays the fee of his
  volume, and a live position is opened at the midpoint of the two limits.
\<close>

section \<open>Opening a position\<close>

text \<open>
  C8. Matching: a successful match of a well-ordered book pairs a live long and a live short intent
  whose limits cross, on an active instrument. Each gives up one contract, with its share of the fee
  buffer; no other intent changes and the book stays well-ordered. Both traders' margin accounts lock
  one bucket out of what was reserved and get the released buffer back, and the trader whose intent
  is the later one pays the fee of his volume. A live position of the two traders is opened at the
  midpoint of the limits, with the size the bucket and the leverage give at that price.
\<close>

theorem match_opens_position:
  assumes laws: "owned_frame e" "creates_zeroed e"
    and run: "process_match_pair e accounts args w = (Inr u, w')"
    and keys: "ai_key (accounts ! 3) \<noteq> ai_key (accounts ! 4)"
    and book: "acc_data (w (ai_key (accounts ! 2))) = DBook b" "book_ok b"
  shows "\<exists>inst sched b' li si long short rl rs c (fee :: u64) p.
    acc_data (w (ai_key (accounts ! 1))) = DInstrument inst \<and> ic_status inst = STATUS_ACTIVE \<and>
    acc_data (w (ai_key (accounts ! 7))) = DFeeSchedule sched \<and> c = collateral_bucket inst \<and>
    intent_id long = mpa_long_intent_id args \<and> in_side long = SIDE_LONG \<and> clock_slot e < expiration_slot long \<and>
    intent_id short = mpa_short_intent_id args \<and> in_side short = SIDE_SHORT \<and> clock_slot e < expiration_slot short \<and>
    price_limit_fp short \<le> price_limit_fp long \<and>
    acc_data (w' (ai_key (accounts ! 2))) = DBook b' \<and> book_ok b' \<and> rest_same {li, si} b b' \<and>
    contract_taken b b' li long c rl \<and> contract_taken b b' si short c rs \<and>
    fee = word_of_nat (unat c * unat (fee_for_volume sched (volume_of e (acc_data (w (ai_key (accounts ! 8)))))) div 10000) \<and>
    side_filled w w' (ai_key (accounts ! 3)) (long_owner p) (unat c) (unat rl) (if post_seq short < post_seq long then unat fee else 0) \<and>
    side_filled w w' (ai_key (accounts ! 4)) (short_owner p) (unat c) (unat rs) (if post_seq short < post_seq long then 0 else unat fee) \<and>
    acc_data (w' (ai_key (accounts ! 5))) = DPmlc p \<and> pm_status p = PMLC_STATUS_LIVE \<and>
    pm_instrument p = ai_key (accounts ! 1) \<and> collateral_per_side p = c \<and>
    seat_trader b (owner_seat long) = Inr (long_owner p) \<and> seat_trader b (owner_seat short) = Inr (short_owner p) \<and>
    unat (entry_price_fp p) = (unat (price_limit_fp long) + unat (price_limit_fp short)) div 2 \<and>
    unat (size_fp p) = unat c * unat (ic_leverage_bps inst) div 10000 * 10 ^ 18 div unat (entry_price_fp p)"
proof -
  from run obtain ctx where u: "unpack_accounts e accounts w = (Inr ctx, w)"
    and core: "match_pair_core e ctx (mpa_long_intent_id args) (mpa_short_intent_id args) (mpa_max_contracts args) w = (Inr u, w')"
    using unpack_accounts_run(1) by (fastforce simp: process_match_pair_def bnd_ok)
  note ctx = unpack_accounts_run [OF u]
  have kb: "acc_owner (w (ai_key (accounts ! 2))) = program_id e"
    using u by (auto simp: unpack_accounts_def Let_def ok_iff)
  let ?kb = "ai_key (accounts ! 2)" and ?kl = "ai_key (accounts ! 3)" and ?ks = "ai_key (accounts ! 4)"
  from core book(1) obtain inst r nid bump b' w2 where i: "acc_data (w (ai_key (accounts ! 1))) = DInstrument inst" "ic_status inst = STATUS_ACTIVE"
    and bk: "match_in_book e (ai_key (accounts ! 1)) (ai_key (accounts ! 5)) (collateral_bucket inst)
      (mpa_long_intent_id args) (mpa_short_intent_id args) b = (Inr (r, nid, bump), b')"
    and st: "settle_match e ctx inst r (set_data ?kb (DBook b') w) = (Inr (), w2)"
    and op: "open_pmlc e ctx inst r nid bump w2 = (Inr u, w')"
    unfolding match_pair_core_def
    by (auto simp: bnd_ok seq_ok lift_ok ensure_ok read_acct_ok load_oks require_active_ok edit_acct_ok ctx(3-7))
  let ?w1 = "set_data ?kb (DBook b') w"
  have own: "acc_owner (?w1 (ai_key (mc_long_margin_ai ctx))) = program_id e" "acc_owner (?w1 (ai_key (mc_short_margin_ai ctx))) = program_id e"
    using ctx(9,10) by (simp_all add: ctx(3,4))
  from settle_match_run [OF laws ctx(8) _ own st, unfolded ctx(3,4) fee_ctx.select_convs, OF keys] obtain fee sched where
    fee: "acc_data (?w1 (ai_key (accounts ! 7))) = DFeeSchedule sched"
      "fee = (word_of_nat (unat (collateral_bucket inst) * unat (fee_for_volume sched (volume_of e (acc_data (?w1 (ai_key (accounts ! 8)))))) div 10000) :: u64)"
    and sides: "side_filled ?w1 w2 ?kl (mr_long_trader r) (unat (collateral_bucket inst)) (unat (mr_release_long r)) (if mr_taker_is_long r then unat fee else 0)"
      "side_filled ?w1 w2 ?ks (mr_short_trader r) (unat (collateral_bucket inst)) (unat (mr_release_short r)) (if mr_taker_is_long r then 0 else unat fee)"
    by blast
  have "volume_of e (acc_data (?w1 k)) = volume_of e (acc_data (w k))" for k
    using book(1) by (simp add: volume_of_def)
  note fee' = fee(2) [unfolded this]
  have sched: "acc_data (w (ai_key (accounts ! 7))) = DFeeSchedule sched" using fee(1) book(1) by (auto split: if_splits)
  obtain p where p: "acc_data (w' (ai_key (accounts ! 5))) = DPmlc p" "acc_owner (w' (ai_key (accounts ! 5))) = program_id e"
      "pm_status p = PMLC_STATUS_LIVE" "pm_instrument p = ai_key (accounts ! 1)" "pm_id p = nid"
      "long_owner p = mr_long_trader r" "short_owner p = mr_short_trader r" "collateral_per_side p = collateral_bucket inst"
      "entry_price_fp p = mr_entry_fp r"
      "unat (size_fp p) = unat (collateral_bucket inst) * unat (ic_leverage_bps inst) div 10000 * 10 ^ 18 div unat (mr_entry_fp r)"
    and keep: "\<forall>k d. holds e k d w2 \<longrightarrow> discriminator d \<noteq> 0 \<longrightarrow> holds e k d w'"
    by (rule open_pmlc_run [OF laws op, unfolded ctx(6,7)])
  have "holds e ?kb (DBook b') w2"
    using keepsD [OF holds_settle [OF laws(1)] st, of "DBook b'" ?kb] kb by (simp add: holds_def)
  then have b': "acc_data (w' ?kb) = DBook b'" using keep [rule_format, of ?kb "DBook b'"] by (simp add: holds_def)
  have own2: "acc_owner (w2 k) = program_id e" if "acc_owner (w k) = program_id e" for k
    by (rule transfers_owner [OF settle_match_conserves [OF laws _ _ _ _ own st, of "{?kl, ?ks, ai_key (accounts ! 10)}"]])
      (use that in \<open>simp_all add: ctx(3,4,8)\<close>)
  have side: "side_filled w w' k q c rel f" if "side_filled ?w1 w2 k q c rel f" "acc_owner (w k) = program_id e" for k q c rel f
  proof -
    from that(1) obtain m m' where m: "margin_at ?w1 k = Some m" "margin_at w2 k = Some m'" by (auto simp: side_filled_def)
    have "margin_at w k = Some m" using m(1) book(1) by (auto simp: margin_at_def split: if_splits)
    moreover have "holds e k (DMargin m') w2" using m(2) own2 [OF that(2)] by (simp add: holds_def margin_at_def)
    then have "margin_at w' k = Some m'" using keep [rule_format, of k "DMargin m'"] by (simp add: holds_def margin_at_def)
    ultimately show ?thesis using that(1) m by (auto simp: side_filled_def)
  qed
  obtain li si long short where
    b: "intent_id long = mpa_long_intent_id args" "in_side long = SIDE_LONG" "intent_id short = mpa_short_intent_id args" "in_side short = SIDE_SHORT"
      "clock_slot e < expiration_slot long" "clock_slot e < expiration_slot short" "price_limit_fp short \<le> price_limit_fp long"
      "book_ok b'" "rest_same {li, si} b b'"
      "contract_taken b b' li long (collateral_bucket inst) (mr_release_long r)"
      "contract_taken b b' si short (collateral_bucket inst) (mr_release_short r)"
      "seat_trader b (owner_seat long) = Inr (mr_long_trader r)" "seat_trader b (owner_seat short) = Inr (mr_short_trader r)"
      "unat (mr_entry_fp r) = (unat (price_limit_fp long) + unat (price_limit_fp short)) div 2"
      "mr_taker_is_long r = (post_seq short < post_seq long)"
    by (rule match_in_book_run [OF book(2) bk])
  have filled: "side_filled w w' ?kl (long_owner p) (unat (collateral_bucket inst)) (unat (mr_release_long r))
      (if post_seq short < post_seq long then unat fee else 0)"
    "side_filled w w' ?ks (short_owner p) (unat (collateral_bucket inst)) (unat (mr_release_short r))
      (if post_seq short < post_seq long then 0 else unat fee)"
    using side [OF sides(1) ctx(9)] side [OF sides(2) ctx(10)] by (simp_all only: p b(15))
  have "unat (entry_price_fp p) = (unat (price_limit_fp long) + unat (price_limit_fp short)) div 2"
    "unat (size_fp p) = unat (collateral_bucket inst) * unat (ic_leverage_bps inst) div 10000 * 10 ^ 18 div unat (entry_price_fp p)"
    "seat_trader b (owner_seat long) = Inr (long_owner p)" "seat_trader b (owner_seat short) = Inr (short_owner p)"
    by (simp_all only: p b)
  with i sched b(1-11) fee' b' p(1,3,4,8) filled show ?thesis by blast
qed

lemma match_opens_position_witness:
  "\<exists>w' p. process_match_pair ex_env ex_match_accounts ex_match_args ex_w_match = (Inr (), w') \<and>
     acc_data (w' ex_new_pmlc_key) = DPmlc p \<and> pm_status p = PMLC_STATUS_LIVE \<and> unat (entry_price_fp p) = 45 * 10 ^ 16 \<and>
     side_filled ex_w_match w' (ex_margin_key (sk 1)) (sk 1) 1000 10 0 \<and>
     side_filled ex_w_match w' (ex_margin_key (sk 2)) (sk 2) 1000 10 3"
proof -
  obtain w' where run: "process_match_pair ex_env ex_match_accounts ex_match_args ex_w_match = (Inr (), w')"
    using ex_match_runs by (metis prod.collapse)
  have a: "ai_key (ex_match_accounts ! 1) = sk 20" "ai_key (ex_match_accounts ! 2) = sk 50" "ai_key (ex_match_accounts ! 3) = ex_margin_key (sk 1)"
    "ai_key (ex_match_accounts ! 4) = ex_margin_key (sk 2)" "ai_key (ex_match_accounts ! 5) = ex_new_pmlc_key"
    "ai_key (ex_match_accounts ! 7) = ex_schedule_key" "ai_key (ex_match_accounts ! 8) = ex_volume_key (sk 2)"
    by (simp_all add: ex_match_accounts_def ai_of_def)
  have k: "ai_key (ex_match_accounts ! 3) \<noteq> ai_key (ex_match_accounts ! 4)" by (simp add: a ex_match_neq)
  have b: "acc_data (ex_w_match (ai_key (ex_match_accounts ! 2))) = DBook ex_pair_book" by (simp add: a ex_w_match_at owned_by_def)
  have d: "acc_data (ex_w_match (sk 20)) = DInstrument (ex_instrument\<lparr> ic_book := sk 50 \<rparr>)"
    "acc_data (ex_w_match ex_schedule_key) = DFeeSchedule (new_fee_schedule ex_tiers 5 255)"
    "volume_of ex_env (acc_data (ex_w_match (ex_volume_key (sk 2)))) = 0"
    by (simp_all add: ex_w_match_at owned_by_def volume_of_def) (simp add: ex_env_def effective_new)
  have thirty: "fee_for_volume (new_fee_schedule ex_tiers 5 255) 0 = 30"
    by (simp add: new_fee_schedule_def ex_tiers_def fee_for_volume_def)
  have t: "seat_trader ex_pair_book 3 = Inr (sk 1)" "seat_trader ex_pair_book 4 = Inr (sk 2)"
    by (simp_all add: seat_trader_def ex_pair_nodes try_res_def ex_trader_def)
  from match_opens_position [OF ex_owned_frame ex_creates_zeroed run k b ex_pair_book_ok]
  have "\<exists>p. acc_data (w' ex_new_pmlc_key) = DPmlc p \<and> pm_status p = PMLC_STATUS_LIVE \<and> unat (entry_price_fp p) = 45 * 10 ^ 16 \<and>
     side_filled ex_w_match w' (ex_margin_key (sk 1)) (sk 1) 1000 10 0 \<and>
     side_filled ex_w_match w' (ex_margin_key (sk 2)) (sk 2) 1000 10 3"
    unfolding a d ex_match_args_def match_pair_args.select_convs acct_data.inject
  proof (elim exE conjE)
    fix inst sched b' li si long short rl rs c p and fee :: u64
    assume c: "ex_instrument\<lparr> ic_book := sk 50 \<rparr> = inst" "new_fee_schedule ex_tiers 5 255 = sched" "c = collateral_bucket inst"
      and i: "intent_id long = 1" "intent_id short = 2"
      and taken: "contract_taken ex_pair_book b' li long c rl" "contract_taken ex_pair_book b' si short c rs"
      and fee: "fee = word_of_nat (unat c * unat (fee_for_volume sched 0) div 10000)"
      and sides: "side_filled ex_w_match w' (ex_margin_key (sk 1)) (long_owner p) (unat c) (unat rl) (if post_seq short < post_seq long then unat fee else 0)"
      "side_filled ex_w_match w' (ex_margin_key (sk 2)) (short_owner p) (unat c) (unat rs) (if post_seq short < post_seq long then 0 else unat fee)"
      and p: "acc_data (w' ex_new_pmlc_key) = DPmlc p" "pm_status p = PMLC_STATUS_LIVE"
      "unat (entry_price_fp p) = (unat (price_limit_fp long) + unat (price_limit_fp short)) div 2"
      and own: "seat_trader ex_pair_book (owner_seat long) = Inr (long_owner p)" "seat_trader ex_pair_book (owner_seat short) = Inr (short_owner p)"
    have "intent ex_pair_book li = Inr long" "intent ex_pair_book si = Inr short" using taken unfolding contract_taken_def by blast+
    then have n: "long = ex_order SIDE_LONG 500000000000000000 1 3" "short = ex_order SIDE_SHORT 400000000000000000 2 4"
      using i unfolding ex_pair_cells by auto
    have "unat rl = unat (fee_buffer long) div unat (contracts_remaining long)" "unat rs = unat (fee_buffer short) div unat (contracts_remaining short)"
      using taken unfolding contract_taken_def by blast+
    then have rel: "unat rl = 10" "unat rs = 10" by (simp_all add: n)
    have c': "unat c = 1000" "fee = 3" using c(3) fee by (simp_all add: c(1,2) [symmetric] thirty ex_instrument_def)
    have ow: "long_owner p = sk 1" "short_owner p = sk 2" using own t by (simp_all add: n)
    show ?thesis using sides p by (intro exI [of _ p]) (simp add: n rel c' ow)
  qed
  with run show ?thesis by blast
qed

end
