(* ===== verification/Position_Properties.thy ===== *)
theory Position_Properties
  imports Match_Scenario
begin

text \<open>
  What the operations on one side of a position require and change: novation hands a side over to a
  new owner who locks the collateral the old one gets back; substitution does it through a match,
  with or without settling the profit of the side; re-entry reserves for as many contracts as the
  free collateral affords.
\<close>

section \<open>Moving collateral between two holders\<close>

text \<open>The change of the three balances of a holder's margin account, in atoms.\<close>

definition balances_move :: "world \<Rightarrow> world \<Rightarrow> pubkey \<Rightarrow> pubkey \<Rightarrow> int \<Rightarrow> int \<Rightarrow> int \<Rightarrow> bool" where
  "balances_move w w' k own free reserved locked \<longleftrightarrow> (\<exists>m m'. margin_at w k = Some m \<and> margin_at w' k = Some m' \<and>
     ma_owner m = own \<and> ma_owner m' = own \<and>
     uint (free_collateral m') = uint (free_collateral m) + free \<and>
     uint (reserved_collateral m') = uint (reserved_collateral m) + reserved \<and>
     uint (locked_collateral m') = uint (locked_collateral m) + locked)"

lemma uint_shift:
  fixes m :: "'a::len word" and k :: "'b::len word"
  shows "unat n = unat m + unat k \<Longrightarrow> uint (n :: 'a word) = uint m + uint k"
    and "unat m = unat k + unat n \<Longrightarrow> uint n = uint m - uint k"
  by (simp_all only: uint_nat of_nat_add add_diff_cancel_left')

definition handed_over :: "env \<Rightarrow> u8 \<Rightarrow> pubkey \<Rightarrow> pmlc \<Rightarrow> pmlc" where
  "handed_over e side new_owner p =
     (if side = SIDE_LONG then p\<lparr> long_owner := new_owner, last_mark_slot := clock_slot e \<rparr>
      else p\<lparr> short_owner := new_owner, last_mark_slot := clock_slot e \<rparr>)"

lemma hand_over_ok: "hand_over e side k p = (Inr u, p') \<Longrightarrow> (side = SIDE_LONG \<or> side = SIDE_SHORT) \<and> p' = handed_over e side k p"
  by (auto simp: hand_over_def handed_over_def seq_ok modify_ok fail_with_def split: if_splits)

lemma check_holder_ok [ok_iff]: "check_holder k mint m = (Inr u, m') \<longleftrightarrow> ma_owner m = k \<and> ma_mint m = mint \<and> m' = m"
  by (auto simp: check_holder_def ok_iff)

lemma edit_two_margins:
  assumes "edit_acct load_margin DMargin ai f w = (Inr u, w1)" "edit_acct load_margin DMargin aj g w1 = (Inr u', w2)"
    "edit_acct load_pmlc DPmlc pa h w2 = (Inr u'', w')" "ai_key ai \<noteq> ai_key aj" "acc_data (w (ai_key pa)) = DPmlc p"
  obtains m m' n n' p' where "margin_at w (ai_key ai) = Some m" "f m = (Inr u, m')" "margin_at w' (ai_key ai) = Some m'"
    "margin_at w (ai_key aj) = Some n" "g n = (Inr u', n')" "margin_at w' (ai_key aj) = Some n'"
    "h p = (Inr u'', p')" "acc_data (w' (ai_key pa)) = DPmlc p'"
    "only_changes e {ai_key pa, ai_key ai, ai_key aj} w w'"
proof -
  from assms obtain m m' where m: "acc_data (w (ai_key ai)) = DMargin m" "f m = (Inr u, m')" "w1 = set_data (ai_key ai) (DMargin m') w"
    by (auto simp: edit_acct_ok load_oks)
  from assms(2,4) m(3) obtain n n' where n: "acc_data (w (ai_key aj)) = DMargin n" "g n = (Inr u', n')" "w2 = set_data (ai_key aj) (DMargin n') w1"
    by (auto simp: edit_acct_ok load_oks)
  have ne: "ai_key pa \<noteq> ai_key ai" "ai_key pa \<noteq> ai_key aj" using assms(5) m(1) n(1) by auto
  from assms(3,5) n(3) m(3) ne obtain p' where p: "h p = (Inr u'', p')" "w' = set_data (ai_key pa) (DPmlc p') w2"
    by (auto simp: edit_acct_ok load_oks)
  have "only_changes e {ai_key pa, ai_key ai, ai_key aj} w w'"
    unfolding p(2) n(3) m(3) by (intro only_changes_trans [OF only_changes_trans [OF only_changes_set only_changes_set] only_changes_set]) simp_all
  then show thesis using m n p ne assms(4) by (intro that [of m m' n n' p']) (simp_all add: margin_at_def)
qed

section \<open>Novation\<close>

text \<open>
  C27. Novation: a successful novation was signed by the current owner of the side and by the new one, of
  a live position and with the program unpaused. The old owner's lock becomes free collateral, the new
  owner locks the same amount of his free collateral, exactly that side of the position changes its
  owner, and no other account of the program changes.
\<close>

theorem novation_hands_over:
  assumes run: "process_novate e accounts side w = (Inr u, w')"
    and p: "acc_data (w (ai_key (accounts ! 4))) = DPmlc p"
    and keys: "ai_key (accounts ! 5) \<noteq> ai_key (accounts ! 6)"
  shows "is_signer (accounts ! 0) \<and> is_signer (accounts ! 1) \<and> pm_status p = PMLC_STATUS_LIVE \<and>
    side_owner side p = Inr (ai_key (accounts ! 0)) \<and>
    (\<exists>cfg. acc_data (w (ai_key (accounts ! 2))) = DConfig cfg \<and> global_pause cfg = 0) \<and>
    (let c = uint (collateral_per_side p) in
       balances_move w w' (ai_key (accounts ! 5)) (ai_key (accounts ! 0)) c 0 (- c) \<and>
       balances_move w w' (ai_key (accounts ! 6)) (ai_key (accounts ! 1)) (- c) 0 c) \<and>
    acc_data (w' (ai_key (accounts ! 4))) = DPmlc (handed_over e side (ai_key (accounts ! 1)) p) \<and>
    only_changes e {ai_key (accounts ! 4), ai_key (accounts ! 5), ai_key (accounts ! 6)} w w'"
proof -
  from run p obtain cfg where s: "is_signer (accounts ! 0)" "is_signer (accounts ! 1)" "pm_status p = PMLC_STATUS_LIVE"
      "side_owner side p = Inr (ai_key (accounts ! 0))" "acc_data (w (ai_key (accounts ! 2))) = DConfig cfg" "global_pause cfg = 0"
    and tr: "novate_transfer e accounts side p w = (Inr u, w')"
    by (auto simp: process_novate_def Let_def guard_oks load_oks unpaused_config_ok require_live_ok)
  let ?c = "collateral_per_side p"
  from tr obtain w1 w2 where
    r1: "edit_acct load_margin DMargin (accounts ! 5)
             (seq (check_holder (ai_key (accounts ! 0)) (pm_mint p)) (move_locked_to_free ?c)) w = (Inr (), w1)"
    and r2: "edit_acct load_margin DMargin (accounts ! 6)
             (seq (check_holder (ai_key (accounts ! 1)) (pm_mint p)) (seq (debit_free ?c) (credit_locked ?c))) w1 = (Inr (), w2)"
    and r3: "edit_acct load_pmlc DPmlc (accounts ! 4) (hand_over e side (ai_key (accounts ! 1))) w2 = (Inr u, w')"
    unfolding novate_transfer_def Let_def by (auto simp: bnd_ok seq_ok pda_ok)
  obtain m m' n n' p' where m: "margin_at w (ai_key (accounts ! 5)) = Some m"
      "seq (check_holder (ai_key (accounts ! 0)) (pm_mint p)) (move_locked_to_free ?c) m = (Inr (), m')" "margin_at w' (ai_key (accounts ! 5)) = Some m'"
    and n: "margin_at w (ai_key (accounts ! 6)) = Some n"
      "seq (check_holder (ai_key (accounts ! 1)) (pm_mint p)) (seq (debit_free ?c) (credit_locked ?c)) n = (Inr (), n')" "margin_at w' (ai_key (accounts ! 6)) = Some n'"
    and p': "hand_over e side (ai_key (accounts ! 1)) p = (Inr u, p')" "acc_data (w' (ai_key (accounts ! 4))) = DPmlc p'"
    and f: "only_changes e {ai_key (accounts ! 4), ai_key (accounts ! 5), ai_key (accounts ! 6)} w w'"
    by (rule edit_two_margins [OF r1 r2 r3 keys p])
  have "balances_move w w' (ai_key (accounts ! 5)) (ai_key (accounts ! 0)) (uint ?c) 0 (- uint ?c)"
    using m by (auto simp: balances_move_def seq_ok check_holder_ok move_oks dest: uint_shift)
  moreover have "balances_move w w' (ai_key (accounts ! 6)) (ai_key (accounts ! 1)) (- uint ?c) 0 (uint ?c)"
    using n by (auto simp: balances_move_def seq_ok check_holder_ok debit_free_ok credit_locked_ok dest: uint_shift)
  ultimately show ?thesis using s p' f hand_over_ok [OF p'(1)] by (auto simp: Let_def)
qed

definition ex_w_novate :: world where
  "ex_w_novate = ex_w_settle(ex_margin_key (sk 3) := owned_by (sk 9) (DMargin (ex_margin (sk 3) 5000 0 0)))"

definition ex_novate_accounts :: "account_info list" where
  "ex_novate_accounts = map ai_of [sk 1, sk 3, sk 20, sk 21, ex_pmlc_key, ex_margin_key (sk 1), ex_margin_key (sk 3)]"

lemma ex_novate_runs: "fst (process_novate ex_env ex_novate_accounts SIDE_LONG ex_w_novate) = Inr ()"
proof -
  have e: "program_id ex_env = sk 9" "find_program_address ex_env = ex_find" by (simp_all add: ex_env_def)
  have live: "require_live ex_pmlc = Inr ()" by (simp add: require_live_ok PMLC_STATUS_LIVE_def)
  show ?thesis
    by (simp add: process_novate_def novate_transfer_def exec_defs load_defs ex_novate_accounts_def ai_of_def e ex_match_finds
     unpaused_config_def owned_by_def ex_config_def new_program_config_def live side_owner_def SIDE_LONG_def ex_w_novate_def
     check_holder_def ex_margin_def new_margin_account_def move_locked_to_free_def debit_locked_def credit_locked_def debit_free_def
     credit_free_def update_checked_def checked_sub_def checked_add_def hand_over_def)
qed

lemma novation_hands_over_witness:
  "\<exists>w'. process_novate ex_env ex_novate_accounts SIDE_LONG ex_w_novate = (Inr (), w') \<and>
     balances_move ex_w_novate w' (ex_margin_key (sk 1)) (sk 1) 1000 0 (- 1000) \<and>
     balances_move ex_w_novate w' (ex_margin_key (sk 3)) (sk 3) (- 1000) 0 1000 \<and>
     acc_data (w' ex_pmlc_key) = DPmlc (handed_over ex_env SIDE_LONG (sk 3) ex_pmlc)"
proof -
  obtain w' where run: "process_novate ex_env ex_novate_accounts SIDE_LONG ex_w_novate = (Inr (), w')"
    using ex_novate_runs by (metis prod.collapse)
  have a: "ai_key (ex_novate_accounts ! 0) = sk 1" "ai_key (ex_novate_accounts ! 1) = sk 3" "ai_key (ex_novate_accounts ! 4) = ex_pmlc_key"
    "ai_key (ex_novate_accounts ! 5) = ex_margin_key (sk 1)" "ai_key (ex_novate_accounts ! 6) = ex_margin_key (sk 3)"
    by (simp_all add: ex_novate_accounts_def ai_of_def)
  have p: "acc_data (ex_w_novate (ai_key (ex_novate_accounts ! 4))) = DPmlc ex_pmlc" by (simp add: a ex_w_novate_def owned_by_def)
  have k: "ai_key (ex_novate_accounts ! 5) \<noteq> ai_key (ex_novate_accounts ! 6)" by (simp add: a)
  show ?thesis using novation_hands_over [OF run p k] run unfolding a by (simp add: Let_def)
qed

section \<open>Substitution\<close>

lemma delta_words:
  fixes d :: i128
  assumes "nat \<bar>sint d\<bar> \<le> unat (b :: u64)"
  shows "0 < sint d \<Longrightarrow> uint (ucast d :: u64) = sint d"
    and "sint d < 0 \<Longrightarrow> checked_neg_s d = Some n \<Longrightarrow> uint (ucast n :: u64) = - sint d"
  using sint_to_u64 [OF _ assms] neg_to_u64 [OF _ assms] by (simp_all only: uint_nat)

lemma pay_substitutor_effect:
  assumes run: "pay_substitutor c rel d m = (Inr u, m')" and b: "nat \<bar>sint d\<bar> \<le> unat (b :: u64)"
  shows "ma_owner m' = ma_owner m" "uint (free_collateral m') = uint (free_collateral m) + 2 * uint c + uint rel + sint d"
    "uint (reserved_collateral m') = uint (reserved_collateral m) - uint c - uint rel"
    "uint (locked_collateral m') = uint (locked_collateral m) - uint c"
proof -
  from run obtain m1 m2 m3 where mv: "move_reserved_to_free c m = (Inr (), m1)"
    "when_do (rel > 0) (move_reserved_to_free rel) m1 = (Inr (), m2)" "move_locked_to_free c m2 = (Inr (), m3)"
    and x: "(if sint d > 0 then seq (credit_free (ucast d)) (add_pnl (ucast d))
      else if sint d < 0 then bnd (lift (no_panic (checked_neg_s d))) (\<lambda>neg. seq (debit_free (ucast neg)) (sub_pnl (ucast neg)))
      else ret ()) m3 = (Inr u, m')"
    unfolding pay_substitutor_def by (auto simp: seq_ok)
  have m3: "ma_owner m3 = ma_owner m" "uint (free_collateral m3) = uint (free_collateral m) + 2 * uint c + uint rel"
    "uint (reserved_collateral m3) = uint (reserved_collateral m) - uint c - uint rel"
    "uint (locked_collateral m3) = uint (locked_collateral m) - uint c"
    using mv by (cases "rel = 0"; auto simp: move_oks when_do_ok word_gt_0 dest!: uint_shift)+
  consider "sint d > 0" | "sint d < 0" | "sint d = 0" by linarith
  then have "ma_owner m' = ma_owner m3 \<and> uint (free_collateral m') = uint (free_collateral m3) + sint d \<and>
    reserved_collateral m' = reserved_collateral m3 \<and> locked_collateral m' = locked_collateral m3"
  proof cases
    case 1
    with x delta_words(1) [OF b 1] show ?thesis by (auto simp: seq_ok add_pnl_ok credit_free_ok dest!: uint_shift)
  next
    case 2
    with x delta_words(2) [OF b 2] show ?thesis
      by (auto simp: seq_ok bnd_ok lift_ok no_panic_ok sub_pnl_ok debit_free_ok dest!: uint_shift)
  next
    case 3
    then show ?thesis using x by (simp add: ret_ok)
  qed
  with m3 show "ma_owner m' = ma_owner m" "uint (free_collateral m') = uint (free_collateral m) + 2 * uint c + uint rel + sint d"
    "uint (reserved_collateral m') = uint (reserved_collateral m) - uint c - uint rel"
    "uint (locked_collateral m') = uint (locked_collateral m) - uint c" by simp_all
qed

lemma charge_counterparty_effect:
  assumes run: "charge_counterparty c rel d m = (Inr u, m')" and b: "nat \<bar>sint d\<bar> \<le> unat (b :: u64)"
  shows "ma_owner m' = ma_owner m" "uint (free_collateral m') = uint (free_collateral m) + uint rel - sint d"
    "uint (reserved_collateral m') = uint (reserved_collateral m) - uint c - uint rel"
    "uint (locked_collateral m') = uint (locked_collateral m) + uint c"
proof -
  from run obtain m1 m2 where mv: "move_reserved_to_locked c m = (Inr (), m1)"
    "when_do (rel > 0) (move_reserved_to_free rel) m1 = (Inr (), m2)"
    and x: "(if sint d > 0 then debit_free (ucast d)
      else if sint d < 0 then bnd (lift (no_panic (checked_neg_s d))) (\<lambda>neg. credit_free (ucast neg))
      else ret ()) m2 = (Inr u, m')"
    unfolding charge_counterparty_def by (auto simp: seq_ok)
  have m2: "ma_owner m2 = ma_owner m" "uint (free_collateral m2) = uint (free_collateral m) + uint rel"
    "uint (reserved_collateral m2) = uint (reserved_collateral m) - uint c - uint rel"
    "uint (locked_collateral m2) = uint (locked_collateral m) + uint c"
    using mv by (cases "rel = 0"; auto simp: move_oks when_do_ok word_gt_0 dest!: uint_shift)+
  consider "sint d > 0" | "sint d < 0" | "sint d = 0" by linarith
  then have "ma_owner m' = ma_owner m2 \<and> uint (free_collateral m') = uint (free_collateral m2) - sint d \<and>
    reserved_collateral m' = reserved_collateral m2 \<and> locked_collateral m' = locked_collateral m2"
  proof cases
    case 1
    with x delta_words(1) [OF b 1] show ?thesis by (auto simp: debit_free_ok dest!: uint_shift)
  next
    case 2
    with x delta_words(2) [OF b 2] show ?thesis by (auto simp: bnd_ok lift_ok no_panic_ok credit_free_ok dest!: uint_shift)
  next
    case 3
    then show ?thesis using x by (simp add: ret_ok)
  qed
  with m2 show "ma_owner m' = ma_owner m" "uint (free_collateral m') = uint (free_collateral m) + uint rel - sint d"
    "uint (reserved_collateral m') = uint (reserved_collateral m) - uint c - uint rel"
    "uint (locked_collateral m') = uint (locked_collateral m) + uint c" by simp_all
qed

lemma substitute_in_book_run:
  assumes ok: "book_ok b" and run: "substitute_in_book e p c k args b = (Inr su, b')"
  obtains li si long short where
    "intent_id long = mpa_long_intent_id args" "in_side long = SIDE_LONG" "intent_id short = mpa_short_intent_id args" "in_side short = SIDE_SHORT"
    "clock_slot e < expiration_slot long" "clock_slot e < expiration_slot short" "price_limit_fp short \<le> price_limit_fp long"
    "price_limit_fp short \<le> entry_price_fp p" "entry_price_fp p \<le> price_limit_fp long"
    "book_ok b'" "rest_same {li, si} b b'"
    "contract_taken b b' li long c (su_release_long su)" "contract_taken b b' si short c (su_release_short su)"
    "seat_trader b (owner_seat (if su_substitutor_is_long su then long else short)) = Inr k"
    "seat_trader b (owner_seat (if su_substitutor_is_long su then short else long)) = Inr (su_new_owner su)"
    "side_owner (su_pmlc_side su) p = Inr k"
    "su_match_midpoint su = price_midpoint (price_limit_fp long) (price_limit_fp short)"
proof -
  have sat: "saturating_sub x 1 = x - 1" if "x \<noteq> 0" for x :: u16
    using that by (simp add: saturating_sub_def word_le_nat_alt unat_gt_0 Suc_le_eq)
  from run obtain li si long short lt st m n rl rs where
    res: "resolve_pair e b (mpa_long_intent_id args) (mpa_short_intent_id args) = Inr (li, si, long, short)"
    and range: "price_limit_fp short \<le> entry_price_fp p" "entry_price_fp p \<le> price_limit_fp long"
    and cons: "consume_in_book c (saturating_sub (contracts_remaining long) 1) (saturating_sub (contracts_remaining short) 1) li si long short b = (Inr (m, n, rl, rs), b')"
    and tr: "seat_trader b (owner_seat long) = Inr lt" "seat_trader b (owner_seat short) = Inr st" "lt = k \<or> st = k"
    and side: "side_owner (if st = k then SIDE_LONG else SIDE_SHORT) p = Inr k"
    and su: "su = \<lparr> su_pmlc_side = (if st = k then SIDE_LONG else SIDE_SHORT), su_new_owner = (if lt = k then st else lt),
              su_release_long = rl, su_release_short = rs, su_substitutor_is_long = (lt = k),
              su_match_midpoint = price_midpoint (price_limit_fp long) (price_limit_fp short) \<rparr>"
    unfolding substitute_in_book_def Let_def by (auto simp: bnd_ok asks_ok lift_ok seq_ok ensure_ok ret_ok not_less)
  have res': "clock_slot e < expiration_slot long" "clock_slot e < expiration_slot short"
    "contracts_remaining long \<noteq> 0" "contracts_remaining short \<noteq> 0" "price_limit_fp short \<le> price_limit_fp long"
    using res by (auto simp: resolve_pair_def try_res_ok check_ok not_le not_less split: prod.splits)
  note sides = resolve_pair_sides [OF ok res]
  note cons' = cons [unfolded sat [OF res'(3)] sat [OF res'(4)]]
  from consume_taken [OF ok sides(1-4) res'(3,4) cons'] have
    "book_ok b'" "rest_same {li, si} b b'" "contract_taken b b' li long c rl" "contract_taken b b' si short c rs" by blast+
  then show thesis using sides res' range tr side
    by (intro that [of long short li si]) (auto simp: su)
qed

text \<open>The profit a side settles at the midpoint of the two limits; nothing without settlement.\<close>

definition settled_profit :: "bool \<Rightarrow> u8 \<Rightarrow> pmlc \<Rightarrow> u64 \<Rightarrow> int" where
  "settled_profit with_settle side p mid =
     (if \<not> with_settle then 0
      else (if side = SIDE_LONG then 1 else - 1) *
        tdiv ((int (unat mid) - int (unat (entry_price_fp p))) * sint (size_fp p)) (10 ^ 18))"

lemma substitution_delta_profit:
  assumes "substitution_delta ws p su = Inr d"
  shows "sint d = settled_profit ws (su_pmlc_side su) p (su_match_midpoint su)"
proof (cases ws)
  case False
  then show ?thesis using assms by (simp add: substitution_delta_def settled_profit_def)
next
  case True
  with assms obtain x where x: "pnl_long_atoms (entry_price_fp p) (su_match_midpoint su) (size_fp p) = Inr x"
    "su_pmlc_side su = SIDE_LONG \<and> d = x \<or> su_pmlc_side su \<noteq> SIDE_LONG \<and> checked_neg_s x = Some d"
    by (auto simp: substitution_delta_def try_res_ok no_panic_ok split: if_splits)
  have "sint x = tdiv ((int (unat (su_match_midpoint su)) - int (unat (entry_price_fp p))) * sint (size_fp p)) (10 ^ 18)"
    using x(1) by (simp only: pnl_long_atoms_ok)
  moreover have "sint d = - sint x" if "checked_neg_s x = Some d"
    using that by (simp add: checked_neg_s_def checked_signed_SomeD)
  ultimately show ?thesis using x(2) True by (auto simp: settled_profit_def)
qed

text \<open>
  C28. Substitution: on a well-ordered book, a successful substitution was signed by the owner of a
  side of the live position, who has a live intent on the other side of a crossing pair that the
  position's entry price lies between. Each intent gives up one contract. The old owner's lock and
  the reservation of his contract become free, with his fee buffer and, with settlement, the profit
  \<open>d\<close> of the side at the midpoint; the counterparty locks the reservation of his contract, pays that
  profit and becomes the owner of the side. \<open>d\<close> is never beyond the bucket.
\<close>

theorem substitution_hands_over:
  assumes run: "do_substitute e accounts args ws w = (Inr u, w')"
    and p: "acc_data (w (ai_key (accounts ! 3))) = DPmlc p"
    and book: "acc_data (w (ai_key (accounts ! 2))) = DBook b" "book_ok b"
    and keys: "ai_key (accounts ! 4) \<noteq> ai_key (accounts ! 5)"
  shows "\<exists>inst b' li si long short rl rs side new own_long c d.
    is_signer (accounts ! 0) \<and> pm_status p = PMLC_STATUS_LIVE \<and> pm_instrument p = ai_key (accounts ! 1) \<and>
    acc_data (w (ai_key (accounts ! 1))) = DInstrument inst \<and> ic_status inst = STATUS_ACTIVE \<and>
    intent_id long = mpa_long_intent_id args \<and> in_side long = SIDE_LONG \<and> clock_slot e < expiration_slot long \<and>
    intent_id short = mpa_short_intent_id args \<and> in_side short = SIDE_SHORT \<and> clock_slot e < expiration_slot short \<and>
    price_limit_fp short \<le> entry_price_fp p \<and> entry_price_fp p \<le> price_limit_fp long \<and>
    acc_data (w' (ai_key (accounts ! 2))) = DBook b' \<and> book_ok b' \<and> rest_same {li, si} b b' \<and>
    contract_taken b b' li long (collateral_per_side p) rl \<and> contract_taken b b' si short (collateral_per_side p) rs \<and>
    seat_trader b (owner_seat (if own_long then long else short)) = Inr (ai_key (accounts ! 0)) \<and>
    seat_trader b (owner_seat (if own_long then short else long)) = Inr new \<and>
    side_owner side p = Inr (ai_key (accounts ! 0)) \<and>
    c = uint (collateral_per_side p) \<and>
    d = settled_profit ws side p (price_midpoint (price_limit_fp long) (price_limit_fp short)) \<and> \<bar>d\<bar> \<le> c \<and>
    balances_move w w' (ai_key (accounts ! 4)) (ai_key (accounts ! 0))
      (2 * c + uint (if own_long then rl else rs) + d) (- c - uint (if own_long then rl else rs)) (- c) \<and>
    balances_move w w' (ai_key (accounts ! 5)) new
      (uint (if own_long then rs else rl) - d) (- c - uint (if own_long then rs else rl)) c \<and>
    acc_data (w' (ai_key (accounts ! 3))) = DPmlc (handed_over e side new p)"
proof -
  let ?kb = "ai_key (accounts ! 2)" and ?k = "ai_key (accounts ! 0)" and ?c = "collateral_per_side p"
  from run p book(1) obtain inst su d b' where s: "is_signer (accounts ! 0)" "pm_status p = PMLC_STATUS_LIVE" "pm_instrument p = ai_key (accounts ! 1)"
      "acc_data (w (ai_key (accounts ! 1))) = DInstrument inst" "ic_status inst = STATUS_ACTIVE" "collateral_bucket inst = ?c"
      "acc_owner (w ?kb) = program_id e"
    and bk: "substitute_in_book e p ?c ?k args b = (Inr su, b')"
    and d: "substitution_delta ws p su = Inr d" "check_delta ws d ?c = Inr ()"
    and st: "substitute_settle e accounts (ic_mint inst) ?c su d (set_data ?kb (DBook b') w) = (Inr u, w')"
    by (auto simp: do_substitute_def Let_def guard_oks load_oks require_live_ok require_active_ok edit_acct_ok)
  let ?w0 = "set_data ?kb (DBook b') w"
  have small: "nat \<bar>sint d\<bar> \<le> unat ?c"
    using d by (cases ws) (auto simp: substitution_delta_def check_delta_def check_ok)
  from st obtain own other w1 w2 where
    rel: "own = (if su_substitutor_is_long su then su_release_long su else su_release_short su)"
      "other = (if su_substitutor_is_long su then su_release_short su else su_release_long su)"
    and r: "edit_acct load_margin DMargin (accounts ! 4) (seq (check_holder ?k (ic_mint inst)) (pay_substitutor ?c own d)) ?w0 = (Inr (), w1)"
      "edit_acct load_margin DMargin (accounts ! 5) (seq (check_holder (su_new_owner su) (ic_mint inst)) (charge_counterparty ?c other d)) w1 = (Inr (), w2)"
      "edit_acct load_pmlc DPmlc (accounts ! 3) (hand_over e (su_pmlc_side su) (su_new_owner su)) w2 = (Inr u, w')"
    by (rule substitute_settle_run)
  have p0: "acc_data (?w0 (ai_key (accounts ! 3))) = DPmlc p" using p book(1) by auto
  obtain m m' n n' p' where m: "margin_at ?w0 (ai_key (accounts ! 4)) = Some m"
      "seq (check_holder ?k (ic_mint inst)) (pay_substitutor ?c own d) m = (Inr (), m')" "margin_at w' (ai_key (accounts ! 4)) = Some m'"
    and n: "margin_at ?w0 (ai_key (accounts ! 5)) = Some n"
      "seq (check_holder (su_new_owner su) (ic_mint inst)) (charge_counterparty ?c other d) n = (Inr (), n')" "margin_at w' (ai_key (accounts ! 5)) = Some n'"
    and p': "hand_over e (su_pmlc_side su) (su_new_owner su) p = (Inr u, p')" "acc_data (w' (ai_key (accounts ! 3))) = DPmlc p'"
    and f: "only_changes e {ai_key (accounts ! 3), ai_key (accounts ! 4), ai_key (accounts ! 5)} ?w0 w'"
    by (rule edit_two_margins [OF r keys p0])
  have same: "margin_at w k = Some x" if "margin_at ?w0 k = Some x" for k x
    using that book(1) by (auto simp: margin_at_def split: if_splits)
  have "?kb \<notin> {ai_key (accounts ! 3), ai_key (accounts ! 4), ai_key (accounts ! 5)}"
    using m(1) n(1) p0 by (auto simp: margin_at_def)
  then have b': "acc_data (w' ?kb) = DBook b'" using f s(7) by (simp add: only_changes_def)
  have mv1: "balances_move w w' (ai_key (accounts ! 4)) ?k (2 * uint ?c + uint own + sint d) (- uint ?c - uint own) (- uint ?c)"
    using m(2,3) same [OF m(1)] pay_substitutor_effect [OF _ small]
    by (auto simp: balances_move_def seq_ok check_holder_ok)
  have mv2: "balances_move w w' (ai_key (accounts ! 5)) (su_new_owner su) (uint other - sint d) (- uint ?c - uint other) (uint ?c)"
    using n(2,3) same [OF n(1)] charge_counterparty_effect [OF _ small]
    by (auto simp: balances_move_def seq_ok check_holder_ok)
  obtain li si long short where
    i: "intent_id long = mpa_long_intent_id args" "in_side long = SIDE_LONG" "intent_id short = mpa_short_intent_id args" "in_side short = SIDE_SHORT"
    "clock_slot e < expiration_slot long" "clock_slot e < expiration_slot short" "price_limit_fp short \<le> price_limit_fp long"
    "price_limit_fp short \<le> entry_price_fp p" "entry_price_fp p \<le> price_limit_fp long"
    "book_ok b'" "rest_same {li, si} b b'"
    "contract_taken b b' li long ?c (su_release_long su)" "contract_taken b b' si short ?c (su_release_short su)"
    "seat_trader b (owner_seat (if su_substitutor_is_long su then long else short)) = Inr ?k"
    "seat_trader b (owner_seat (if su_substitutor_is_long su then short else long)) = Inr (su_new_owner su)"
    "side_owner (su_pmlc_side su) p = Inr ?k"
    "su_match_midpoint su = price_midpoint (price_limit_fp long) (price_limit_fp short)"
    by (rule substitute_in_book_run [OF book(2) bk])
  have d': "sint d = settled_profit ws (su_pmlc_side su) p (price_midpoint (price_limit_fp long) (price_limit_fp short))"
    by (simp only: substitution_delta_profit [OF d(1)] i(17))
  have le: "\<bar>sint d\<bar> \<le> uint ?c" using small by (simp only: uint_nat nat_le_iff)
  have ho: "acc_data (w' (ai_key (accounts ! 3))) = DPmlc (handed_over e (su_pmlc_side su) (su_new_owner su) p)"
    using hand_over_ok [OF p'(1)] p'(2) by simp
  show ?thesis
    by (rule exI [of _ inst], rule exI [of _ b'], rule exI [of _ li], rule exI [of _ si], rule exI [of _ long], rule exI [of _ short],
        rule exI [of _ "su_release_long su"], rule exI [of _ "su_release_short su"], rule exI [of _ "su_pmlc_side su"],
        rule exI [of _ "su_new_owner su"], rule exI [of _ "su_substitutor_is_long su"], rule exI [of _ "uint ?c"], rule exI [of _ "sint d"])
      (use s(1-5) i(1-6,8-16) d' le mv1 mv2 ho b' rel in \<open>simp only: simp_thms\<close>)
qed

text \<open>The owner of the long side has the short intent of the pair; the owner of the long intent takes over.\<close>

definition ex_held :: pmlc where
  "ex_held = ex_pmlc\<lparr> pm_instrument := sk 20, long_owner := sk 2, short_owner := sk 3, entry_price_fp := 430000000000000000 \<rparr>"

definition ex_w_substitute :: world where
  "ex_w_substitute = ex_w_match(ex_pmlc_key := owned_by (sk 9) (DPmlc ex_held),
     ex_margin_key (sk 2) := owned_by (sk 9) (DMargin (ex_margin (sk 2) 700 2020 1000)))"

definition ex_substitute_accounts :: "account_info list" where
  "ex_substitute_accounts = map ai_of [sk 2, sk 20, sk 50, ex_pmlc_key, ex_margin_key (sk 2), ex_margin_key (sk 1)]"

lemma ex_held_fields:
  "pm_status ex_held = PMLC_STATUS_LIVE" "pm_instrument ex_held = sk 20" "long_owner ex_held = sk 2" "short_owner ex_held = sk 3"
  "entry_price_fp ex_held = 430000000000000000" "collateral_per_side ex_held = 1000" "size_fp ex_held = 20000"
  by (simp_all add: ex_held_def ex_pmlc_def size_fp_def pmlc_consts)

lemma ex_w_substitute_at:
  "ex_w_substitute (sk 20) = owned_by (sk 9) (DInstrument (ex_instrument\<lparr> ic_book := sk 50 \<rparr>))"
  "ex_w_substitute (sk 50) = owned_by (sk 9) (DBook ex_pair_book)" "ex_w_substitute ex_pmlc_key = owned_by (sk 9) (DPmlc ex_held)"
  "ex_w_substitute (ex_margin_key (sk 1)) = owned_by (sk 9) (DMargin (ex_margin (sk 1) 500 2020 0))"
  "ex_w_substitute (ex_margin_key (sk 2)) = owned_by (sk 9) (DMargin (ex_margin (sk 2) 700 2020 1000))"
  by (simp_all add: ex_w_substitute_def ex_w_match_at)

lemma ex_seat_traders: "seat_trader ex_pair_book 3 = Inr (sk 1)" "seat_trader ex_pair_book 4 = Inr (sk 2)"
  by (simp_all add: seat_trader_def ex_pair_nodes try_res_def ex_trader_def)

lemma ex_substitute_runs: "fst (do_substitute ex_env ex_substitute_accounts ex_match_args True ex_w_substitute) = Inr ()"
proof -
  have e: "program_id ex_env = sk 9" "find_program_address ex_env = ex_find" by (simp_all add: ex_env_def)
  have i: "ic_mint (ex_instrument\<lparr> ic_book := sk 50 \<rparr>) = sk 7" "collateral_bucket (ex_instrument\<lparr> ic_book := sk 50 \<rparr>) = 1000"
    "require_active (ex_instrument\<lparr> ic_book := sk 50 \<rparr>) = Inr ()" "ic_book (ex_instrument\<lparr> ic_book := sk 50 \<rparr>) = sk 50"
    by (simp_all add: ex_instrument_def require_active_ok STATUS_ACTIVE_def)
  let ?su = "\<lparr> su_pmlc_side = SIDE_LONG, su_new_owner = sk 1, su_release_long = 10, su_release_short = 10,
    su_substitutor_is_long = False, su_match_midpoint = 450000000000000000 \<rparr>"
  have sat: "saturating_sub (2 :: u16) 1 = 1" by (simp add: saturating_sub_def)
  have bk: "substitute_in_book ex_env ex_held 1000 (sk 2) ex_match_args ex_pair_book = (Inr ?su, ex_taken_book)"
    by (simp add: substitute_in_book_def ex_match_args_def ex_pair_resolve ex_held_fields ex_seat_traders prog_defs side_owner_def sat
      ex_pair_consume ex_pair_midpoint Let_def)
  have pnl: "pnl_long_atoms 430000000000000000 450000000000000000 20000 = Inr 400"
    by (simp add: pnl_long_atoms_def checked_mul_s_def checked_div_s_def checked_signed_def
      in_signed_range_def tdiv_def PRICE_ONE_U128_def PRICE_ONE_def Let_def run_defs ok_or_err_def)
  have d: "substitution_delta True ex_held ?su = Inr 400" "check_delta True 400 1000 = Inr ()"
    by (simp_all add: substitution_delta_def ex_held_fields pnl try_res_def check_delta_def check_def)
  have live: "require_live ex_held = Inr ()" by (simp add: require_live_ok ex_held_fields)
  obtain m n where m: "pay_substitutor 1000 10 400 (ex_margin (sk 2) 700 2020 1000) = (Inr (), m)"
    and n: "charge_counterparty 1000 10 400 (ex_margin (sk 1) 500 2020 0) = (Inr (), n)"
    by (simp add: pay_substitutor_def charge_counterparty_def prog_defs ex_margin_def new_margin_account_def move_reserved_to_free_def
      move_reserved_to_locked_def move_locked_to_free_def debit_reserved_def debit_locked_def debit_free_def credit_free_def credit_locked_def
      update_checked_def checked_add_def checked_sub_def add_pnl_def when_do_def)
  have h: "check_holder (sk 2) (sk 7) (ex_margin (sk 2) 700 2020 1000) = (Inr (), ex_margin (sk 2) 700 2020 1000)"
    "check_holder (sk 1) (sk 7) (ex_margin (sk 1) 500 2020 0) = (Inr (), ex_margin (sk 1) 500 2020 0)"
    by (auto simp: check_holder_ok ex_margin_def new_margin_account_def)
  show ?thesis
    by (simp add: do_substitute_def substitute_settle_def exec_defs load_defs ex_substitute_accounts_def ai_of_def e ex_match_finds
      ex_w_substitute_at owned_by_def i bk d live m n h ex_held_fields hand_over_def)
qed

lemma substitution_hands_over_witness:
  "\<exists>w'. do_substitute ex_env ex_substitute_accounts ex_match_args True ex_w_substitute = (Inr (), w') \<and>
     balances_move ex_w_substitute w' (ex_margin_key (sk 2)) (sk 2) 2410 (- 1010) (- 1000) \<and>
     balances_move ex_w_substitute w' (ex_margin_key (sk 1)) (sk 1) (- 390) (- 1010) 1000 \<and>
     acc_data (w' ex_pmlc_key) = DPmlc (handed_over ex_env SIDE_LONG (sk 1) ex_held)"
proof -
  obtain w' where run: "do_substitute ex_env ex_substitute_accounts ex_match_args True ex_w_substitute = (Inr (), w')"
    using ex_substitute_runs by (metis prod.collapse)
  have a: "ai_key (ex_substitute_accounts ! 0) = sk 2" "ai_key (ex_substitute_accounts ! 1) = sk 20" "ai_key (ex_substitute_accounts ! 2) = sk 50"
    "ai_key (ex_substitute_accounts ! 3) = ex_pmlc_key" "ai_key (ex_substitute_accounts ! 4) = ex_margin_key (sk 2)"
    "ai_key (ex_substitute_accounts ! 5) = ex_margin_key (sk 1)"
    by (simp_all add: ex_substitute_accounts_def ai_of_def)
  have p: "acc_data (ex_w_substitute (ai_key (ex_substitute_accounts ! 3))) = DPmlc ex_held" by (simp add: a ex_w_substitute_at owned_by_def)
  have b: "acc_data (ex_w_substitute (ai_key (ex_substitute_accounts ! 2))) = DBook ex_pair_book" by (simp add: a ex_w_substitute_at owned_by_def)
  have k: "ai_key (ex_substitute_accounts ! 4) \<noteq> ai_key (ex_substitute_accounts ! 5)" by (simp add: a)
  from substitution_hands_over [OF run p b ex_pair_book_ok k]
  have "balances_move ex_w_substitute w' (ex_margin_key (sk 2)) (sk 2) 2410 (- 1010) (- 1000) \<and>
     balances_move ex_w_substitute w' (ex_margin_key (sk 1)) (sk 1) (- 390) (- 1010) 1000 \<and>
     acc_data (w' ex_pmlc_key) = DPmlc (handed_over ex_env SIDE_LONG (sk 1) ex_held)"
    unfolding a ex_match_args_def match_pair_args.select_convs ex_held_fields
  proof (elim exE conjE)
    fix inst b' li si long short rl rs side new own_long c and d :: int
    assume i: "intent_id long = 1" "intent_id short = 2"
      and taken: "contract_taken ex_pair_book b' li long 1000 rl" "contract_taken ex_pair_book b' si short 1000 rs"
      and own: "seat_trader ex_pair_book (owner_seat (if own_long then long else short)) = Inr (sk 2)"
        "seat_trader ex_pair_book (owner_seat (if own_long then short else long)) = Inr new" "side_owner side ex_held = Inr (sk 2)"
      and c: "c = uint (1000 :: u64)"
      and d: "d = settled_profit True side ex_held (price_midpoint (price_limit_fp long) (price_limit_fp short))"
      and mv: "balances_move ex_w_substitute w' (ex_margin_key (sk 2)) (sk 2)
          (2 * c + uint (if own_long then rl else rs) + d) (- c - uint (if own_long then rl else rs)) (- c)"
        "balances_move ex_w_substitute w' (ex_margin_key (sk 1)) new
          (uint (if own_long then rs else rl) - d) (- c - uint (if own_long then rs else rl)) c"
      and q: "acc_data (w' ex_pmlc_key) = DPmlc (handed_over ex_env side new ex_held)"
    have "intent ex_pair_book li = Inr long" "intent ex_pair_book si = Inr short" using taken unfolding contract_taken_def by blast+
    then have n: "long = ex_long" "short = ex_short" using i unfolding ex_pair_cells by auto
    have "unat rl = unat (fee_buffer long) div unat (contracts_remaining long)" "unat rs = unat (fee_buffer short) div unat (contracts_remaining short)"
      using taken unfolding contract_taken_def by blast+
    then have "unat rl = unat (10 :: u64)" "unat rs = unat (10 :: u64)" by (simp_all add: n)
    then have rel: "rl = 10" "rs = 10" by (simp_all only: word_unat_eq_iff)
    have ol: "\<not> own_long" using own(1) by (auto simp: n ex_seat_traders)
    then have new: "new = sk 1" using own(2) by (simp add: n ex_seat_traders)
    have side: "side = SIDE_LONG" using own(3) by (auto simp: side_owner_def ex_held_fields split: if_splits)
    have d': "d = 400" by (simp add: d settled_profit_def side n ex_pair_midpoint ex_held_fields tdiv_def)
    show ?thesis using mv q by (simp add: rel ol new side d' c)
  qed
  with run show ?thesis by blast
qed

section \<open>Re-entry\<close>

text \<open>What a reservation of \<open>k\<close> contracts costs, over the natural numbers.\<close>

definition reservation_cost :: "u64 \<Rightarrow> u16 \<Rightarrow> nat \<Rightarrow> nat" where
  "reservation_cost bucket bps k = k * unat bucket + k * unat bucket * unat bps div 10000"

lemma reservation_cost_iff:
  "reservation n bucket bps = Inr (c, f, t) \<longleftrightarrow> reservation_cost bucket bps (unat n) < 2 ^ 64 \<and> unat c = unat n * unat bucket \<and>
     unat f = unat n * unat bucket * unat bps div 10000 \<and> unat t = reservation_cost bucket bps (unat n)"
  by (simp add: reservation_iff Let_def reservation_cost_def)

lemma reservation_cost_mono: "j \<le> k \<Longrightarrow> reservation_cost bucket bps j \<le> reservation_cost bucket bps k"
  unfolding reservation_cost_def by (intro add_mono div_le_mono mult_le_mono) simp_all

lemma reservation_fits:
  assumes "reservation_cost bucket bps (unat n) < 2 ^ 64"
  obtains c f t where "reservation n bucket bps = Inr (c, f, t)" "unat t = reservation_cost bucket bps (unat n)"
proof -
  let ?a = "unat n * unat bucket" and ?f = "unat n * unat bucket * unat bps div 10000"
  have "?a < 2 ^ 64" "?f < 2 ^ 64" using assms by (simp_all add: reservation_cost_def)
  then have "unat (of_nat ?a :: u64) = ?a" "unat (of_nat ?f :: u64) = ?f" "unat (of_nat (reservation_cost bucket bps (unat n)) :: u64) = reservation_cost bucket bps (unat n)"
    using assms by (simp_all only: unat_of_nat) simp_all
  then show thesis using assms by (intro that) (simp_all only: reservation_cost_iff)
qed

lemma trim_contracts_run:
  assumes "m < 2 ^ 16" "reservation_cost bucket bps m < 2 ^ 64"
  shows "\<exists>k. trim_contracts m free bucket bps = Inr k \<and> k \<le> m \<and> (k \<noteq> 0 \<longrightarrow> reservation_cost bucket bps k \<le> unat free) \<and>
    (\<forall>j. k < j \<longrightarrow> j \<le> m \<longrightarrow> unat free < reservation_cost bucket bps j)"
  using assms
proof (induction m)
  case (Suc m)
  have u: "unat (of_nat (Suc m) :: u16) = Suc m" "unat (of_nat (Suc m) :: u64) = Suc m"
    using Suc.prems(1) by (simp_all only: unat_of_nat) simp_all
  obtain c f t where r: "reservation (of_nat (Suc m)) bucket bps = Inr (c, f, t)" "unat t = reservation_cost bucket bps (Suc m)"
    by (rule reservation_fits [of bucket bps "of_nat (Suc m)"]) (use Suc.prems(2) u in simp_all)
  have "ucast (of_nat (Suc m) :: u16) = (of_nat (Suc m) :: u64)"
    using u by (simp add: word_unat_eq_iff unat_ucast_up)
  with r(1) have s: "checked_mul (of_nat (Suc m)) bucket = Some c" "fee_buffer_for (of_nat (Suc m)) bucket bps = Inr f" "checked_add c f = Some t"
    by (auto simp: reservation_def try_res_ok ok_or_err_ok)
  have step: "trim_contracts (Suc m) free bucket bps = (if free \<ge> t then Inr (Suc m) else trim_contracts m free bucket bps)"
    by (simp only: trim_contracts.simps s try_res_def no_panic_def ok_or_def sum.case option.case)
  show ?case
  proof (cases "free \<ge> t")
    case True
    then show ?thesis using r(2) by (intro exI [of _ "Suc m"]) (simp add: step word_le_nat_alt del: trim_contracts.simps)
  next
    case False
    have "reservation_cost bucket bps m < 2 ^ 64"
      using reservation_cost_mono [of m "Suc m" bucket bps] Suc.prems(2) by simp
    with Suc.IH Suc.prems(1) obtain k where k: "trim_contracts m free bucket bps = Inr k" "k \<le> m"
      "k \<noteq> 0 \<longrightarrow> reservation_cost bucket bps k \<le> unat free"
      "\<forall>j. k < j \<longrightarrow> j \<le> m \<longrightarrow> unat free < reservation_cost bucket bps j" by auto
    have "unat free < reservation_cost bucket bps (Suc m)" using False r(2) by (simp add: word_le_nat_alt)
    then have "\<forall>j. k < j \<longrightarrow> j \<le> Suc m \<longrightarrow> unat free < reservation_cost bucket bps j" using k(4) by (simp add: le_Suc_eq)
    then show ?thesis using k False by (intro exI [of _ k]) (simp add: step del: trim_contracts.simps)
  qed
qed simp

lemma affordable_run:
  fixes n64 free bucket :: u64
  assumes "reservation_cost bucket bps (min (unat n64) 65535) < 2 ^ 64"
  shows "\<exists>n c f t. affordable n64 free bucket bps = Inr (n, c, f, t) \<and> unat n \<le> min (unat n64) 65535 \<and>
    (n \<noteq> 0 \<longrightarrow> reservation n bucket bps = Inr (c, f, t) \<and> t \<le> free) \<and>
    (\<forall>j. unat n < j \<longrightarrow> j \<le> min (unat n64) 65535 \<longrightarrow> unat free < reservation_cost bucket bps j)"
proof -
  let ?N = "min (unat n64) 65535" and ?n = "ucast (min n64 65535) :: u16"
  have min: "unat (min n64 65535) = ?N" by (simp add: min_def word_le_nat_alt)
  then have n: "unat ?n = ?N" by (simp add: unsigned_ucast_eq take_bit_eq_mod)
  obtain c f t where r: "reservation ?n bucket bps = Inr (c, f, t)" "unat t = reservation_cost bucket bps ?N"
    by (rule reservation_fits [of bucket bps ?n]) (use assms n in simp_all)
  show ?thesis
  proof (cases "free < t")
    case False
    then show ?thesis using r n by (intro exI [of _ ?n] exI [of _ c] exI [of _ f] exI [of _ t]) (auto simp: affordable_def Let_def try_res_def not_less)
  next
    case True
    have "?N < 2 ^ 16" by simp
    from trim_contracts_run [OF this assms] obtain k where k: "trim_contracts ?N free bucket bps = Inr k" "k \<le> ?N"
      "k \<noteq> 0 \<longrightarrow> reservation_cost bucket bps k \<le> unat free" "\<forall>j. k < j \<longrightarrow> j \<le> ?N \<longrightarrow> unat free < reservation_cost bucket bps j" by blast
    have k16: "unat (of_nat k :: u16) = k" using k(2) by (simp add: unat_of_nat)
    show ?thesis
    proof (cases "k = 0")
      case True': True
      have "affordable n64 free bucket bps = Inr (0, 0, 0, 0)" using r k(1) True True' by (simp add: affordable_def Let_def try_res_def n)
      then show ?thesis using k(4) True' by auto
    next
      case False
      have "reservation_cost bucket bps k < 2 ^ 64" using reservation_cost_mono [OF k(2), of bucket bps] assms by simp
      then obtain c' f' t' where r': "reservation (of_nat k) bucket bps = Inr (c', f', t')" "unat t' = reservation_cost bucket bps k"
        by (rule_tac reservation_fits [of bucket bps "of_nat k"]) (simp_all add: k16)
      have "affordable n64 free bucket bps = Inr (of_nat k, c', f', t')"
        using r k(1) True False r' by (simp add: affordable_def Let_def try_res_def n)
      moreover have "t' \<le> free" using k(3) False r'(2) by (simp add: word_le_nat_alt)
      ultimately show ?thesis using k r' k16 by auto
    qed
  qed
qed

text \<open>
  C29. Re-entry reserves for the largest number of contracts that the free collateral pays for, fee
  buffer included, up to 65535: the count-down of the code ends with it, and with no contract exactly
  when not even one is affordable. The condition is that the free collateral plus the largest fee on
  it fits 64 bits, which rules out the overflows of the arithmetic.
\<close>

theorem reentry_affords_most:
  fixes bucket free :: u64
  assumes "bucket \<noteq> 0" "unat free + unat free * unat bps div 10000 < 2 ^ 64"
  shows "\<exists>n c f t. affordable (free div bucket) free bucket bps = Inr (n, c, f, t) \<and>
    (n \<noteq> 0 \<longrightarrow> reservation n bucket bps = Inr (c, f, t) \<and> t \<le> free) \<and>
    (\<forall>k c' f' t'. n < k \<longrightarrow> reservation k bucket bps = Inr (c', f', t') \<longrightarrow> free < t')"
proof -
  let ?N = "min (unat (free div bucket)) 65535"
  have B: "0 < unat bucket" using assms(1) by (simp add: unat_gt_0)
  have d: "unat (free div bucket) = unat free div unat bucket" by (rule unat_div)
  have "?N * unat bucket \<le> unat free div unat bucket * unat bucket" unfolding d by (intro mult_le_mono1) simp
  then have "?N * unat bucket \<le> unat free" by (meson div_times_less_eq_dividend order_trans)
  then have "reservation_cost bucket bps ?N \<le> unat free + unat free * unat bps div 10000"
    unfolding reservation_cost_def by (intro add_mono div_le_mono mult_le_mono1)
  then have "reservation_cost bucket bps ?N < 2 ^ 64" using assms(2) by simp
  from affordable_run [OF this, of free] obtain n c f t where a: "affordable (free div bucket) free bucket bps = Inr (n, c, f, t)"
    "n \<noteq> 0 \<longrightarrow> reservation n bucket bps = Inr (c, f, t) \<and> t \<le> free"
    "\<forall>j. unat n < j \<longrightarrow> j \<le> ?N \<longrightarrow> unat free < reservation_cost bucket bps j" by blast
  have "free < t'" if k: "n < k" "reservation k bucket bps = Inr (c', f', t')" for k c' f' t'
  proof -
    have t': "unat t' = reservation_cost bucket bps (unat k)" using k(2) by (simp add: reservation_cost_iff)
    show ?thesis
    proof (cases "unat k \<le> ?N")
      case True
      then show ?thesis using a(3) k(1) t' by (simp add: word_less_nat_alt)
    next
      case False
      have "unat k \<le> 65535" using unat_lt2p [of k] by simp
      with False have "unat free div unat bucket < unat k" by (simp add: d)
      then have "unat free < unat k * unat bucket" using B by (simp add: div_less_iff_less_mult)
      then show ?thesis using t' by (simp add: word_less_nat_alt reservation_cost_def)
    qed
  qed
  then show ?thesis using a(1,2) by blast
qed

lemma reentry_affords_most_witness:
  "\<exists>c f t. affordable 3 3010 1000 100 = Inr (2, c, f, t) \<and> reservation 2 1000 100 = Inr (c, f, t) \<and> t \<le> 3010"
proof -
  from reentry_affords_most [of 1000 3010 100] obtain n c f t where a: "affordable 3 3010 1000 100 = Inr (n, c, f, t)"
    "n \<noteq> 0 \<longrightarrow> reservation n 1000 100 = Inr (c, f, t) \<and> t \<le> 3010"
    "\<forall>k c' f' t'. n < k \<longrightarrow> reservation k 1000 100 = Inr (c', f', t') \<longrightarrow> (3010 :: u64) < t'" by auto
  have r: "reservation 2 1000 100 = Inr (2000, 20, 2020)" by (simp add: reservation_iff)
  have "\<not> n < 2" using a(3) [rule_format, OF _ r] by (auto simp: word_less_nat_alt)
  moreover have "\<not> 2 < n"
  proof
    assume n2: "2 < n"
    then have "unat t = reservation_cost 1000 100 (unat n)" "t \<le> 3010" using a(2) by (auto simp: reservation_cost_iff)
    moreover have "reservation_cost 1000 100 3 \<le> reservation_cost 1000 100 (unat n)"
      using n2 by (intro reservation_cost_mono) (simp add: word_less_nat_alt)
    ultimately show False by (simp add: reservation_cost_def word_le_nat_alt)
  qed
  ultimately have "n = 2" by simp
  then show ?thesis using a(1,2) by auto
qed

end
