(* ===== verification/Timelock_Properties.thy ===== *)
theory Timelock_Properties
  imports Lifecycle_Properties
begin

text \<open>
  The timelock along the runs of the ledger: the signer of attestations changes only by executing a
  proposal that is due, and a proposal is executed once. What a proposal says and when it is due
  never changes, and one that is not pending stays so, because every step of its machine keeps it.
\<close>

section \<open>A proposal along a run\<close>

definition same_proposal :: "acct_data \<Rightarrow> acct_data \<Rightarrow> bool" where
  "same_proposal x y \<longleftrightarrow> (\<forall>t. x = DTimelock t \<longrightarrow> (\<exists>s. y = DTimelock (t\<lparr> tl_status := s \<rparr>) \<and>
     (tl_status t \<noteq> TL_STATUS_PENDING \<longrightarrow> s = tl_status t)))"

lemma same_proposal_refl: "same_proposal x x"
  unfolding same_proposal_def by (metis timelock_proposal.surjective timelock_proposal.update_convs(2))

lemma same_proposal_trans: "same_proposal x y \<Longrightarrow> same_proposal y z \<Longrightarrow> same_proposal x z"
  unfolding same_proposal_def by fastforce

lemma evolves_proposal: "evolves e x y \<Longrightarrow> same_proposal x y"
  by (induction rule: evolves.induct) (auto simp: same_proposal_def)

lemma proposal_kept:
  assumes "ledger_steps p w w'" "acc_owner (w k) = p" "acc_data (w k) = DTimelock t"
  obtains s where "acc_data (w' k) = DTimelock (t\<lparr> tl_status := s \<rparr>)" "tl_status t \<noteq> TL_STATUS_PENDING \<longrightarrow> s = tl_status t"
proof -
  have "acc_owner (w' k) = p \<and> typed (acc_data (w' k)) \<and> same_proposal (acc_data (w k)) (acc_data (w' k))"
    by (rule ledger_steps_preserve [OF assms(1,2)])
      (use assms(3) evolves_proposal same_proposal_refl same_proposal_trans in \<open>auto simp: typed_def\<close>)
  with assms(3) that show thesis by (auto simp: same_proposal_def)
qed

section \<open>The steps that change the signer\<close>

lemma step_signer:
  assumes step: "ledger_step p w w'" and o: "acc_owner (w k) = p" "typed (acc_data (w k))"
    and s: "signer_of (acc_data (w' k)) \<noteq> signer_of (acc_data (w k))"
  obtains e accounts n where "program_id e = p" "k = ai_key (accounts ! 1)"
    "installs e k (ai_key (accounts ! 2)) w w'" "process_execute_set_attestation_signer e accounts n w = (Inr (), w')"
  using step unfolding ledger_step_def
proof (elim disjE exE conjE)
  fix e b accounts data r
  assume e: "program_id e = p" "account_laws e" and run: "run_instruction (process e b accounts data) w = (r, w')"
  have "r \<noteq> Inl x" for x using run s by (auto dest: run_instruction_error)
  then have "process e b accounts data w = (Inr (), w')" using run by (cases r) (auto simp: run_instruction_ok)
  from process_signer [OF e(2) this _ o(2) s] o(1) e(1) obtain n where "k = ai_key (accounts ! 1)"
    "installs e k (ai_key (accounts ! 2)) w w'" "process_execute_set_attestation_signer e accounts n w = (Inr (), w')" by auto
  with e(1) that show thesis by blast
next
  assume "outside_step p w w'"
  with o(1) s show thesis by (simp add: outside_step_def)
qed

text \<open>
  C24. The attestation signer changes only through the timelock. Whatever step of the ledger leaves a
  configuration of the program with another signer is the execution of a pending proposal that is
  due, under the administrators' authority, and installs exactly the signer it names. That is at
  least 24 hours (86400 seconds) after the proposal, and what was proposed: both for the instruction
  that made the proposal, however the ledger ran in between, and by the proposal's own record on a
  well-formed ledger. And however the ledger runs on, the proposal is never executed again.
\<close>

theorem timelock_delay:
  assumes step: "ledger_step p w w'"
    and cfg: "acc_owner (w k) = p" "acc_data (w k) = DConfig c" "acc_data (w' k) = DConfig c'"
    and change: "attestation_signer c' \<noteq> attestation_signer c"
  shows "\<exists>e accounts n t. program_id e = p \<and> k = ai_key (accounts ! 1) \<and>
    process_execute_set_attestation_signer e accounts n w = (Inr (), w') \<and>
    authorize_admin_or_multisig e c accounts w = (Inr (), w) \<and>
    acc_data (w (ai_key (accounts ! 2))) = DTimelock t \<and> tl_status t = TL_STATUS_PENDING \<and>
    c' = c\<lparr> attestation_signer := Pubkey (new_signer t) \<rparr> \<and>
    (ledger_wf p w \<longrightarrow> sint (proposed_unix_ts t) + 86400 \<le> sint (clock_unix_timestamp e)) \<and>
    (\<forall>e0 accounts0 args w0 w1. process_propose_set_attestation_signer e0 accounts0 args w0 = (Inr (), w1) \<and>
       ai_key (accounts0 ! 2) = ai_key (accounts ! 2) \<and> program_id e0 = p \<and> account_laws e0 \<and>
       length (pr_new_signer args) = 32 \<and> ledger_steps p w1 w \<longrightarrow>
       sint (clock_unix_timestamp e0) + 86400 \<le> sint (clock_unix_timestamp e) \<and> new_signer t = pr_new_signer args) \<and>
    (\<forall>e2 accounts2 n2 w2 w3. ledger_steps p w' w2 \<and> ai_key (accounts2 ! 2) = ai_key (accounts ! 2) \<longrightarrow>
       process_execute_set_attestation_signer e2 accounts2 n2 w2 \<noteq> (Inr (), w3))"
proof -
  have "signer_of (acc_data (w' k)) \<noteq> signer_of (acc_data (w k))" "typed (acc_data (w k))"
    using cfg change by (simp_all add: typed_def)
  then obtain e accounts n where e: "program_id e = p" and k: "k = ai_key (accounts ! 1)"
    and inst: "installs e k (ai_key (accounts ! 2)) w w'"
    and run: "process_execute_set_attestation_signer e accounts n w = (Inr (), w')"
    using step_signer [OF step cfg(1)] by metis
  let ?j = "ai_key (accounts ! 2)"
  from inst cfg(2) obtain t where t: "acc_data (w ?j) = DTimelock t" "tl_status t = TL_STATUS_PENDING"
      "\<not> sint (clock_unix_timestamp e) < sint (executable_after_unix_ts t)" "acc_owner (w ?j) = p"
    and w': "w' = set_data ?j (DTimelock (t\<lparr> tl_status := TL_STATUS_EXECUTED \<rparr>))
       (set_data k (DConfig (c\<lparr> attestation_signer := Pubkey (new_signer t) \<rparr>)) w)"
    by (auto simp: installs_def e)
  have ne: "k \<noteq> ?j" using t(1) cfg(2) by auto
  have auth: "authorize_admin_or_multisig e c accounts w = (Inr (), w)"
    using execute_run [OF run t(1)] cfg(2) k by auto
  have c': "c' = c\<lparr> attestation_signer := Pubkey (new_signer t) \<rparr>" using cfg(3) ne by (simp add: w')
  have wf: "sint (proposed_unix_ts t) + 86400 \<le> sint (clock_unix_timestamp e)" if "ledger_wf p w"
  proof -
    have "data_wf (DTimelock t)" using that t(1,4) by (metis ledger_wf_def)
    with t(3) show ?thesis by simp
  qed
  have since: "sint (clock_unix_timestamp e0) + 86400 \<le> sint (clock_unix_timestamp e) \<and> new_signer t = pr_new_signer args"
    if made: "process_propose_set_attestation_signer e0 accounts0 args w0 = (Inr (), w1)" "ai_key (accounts0 ! 2) = ?j"
      "program_id e0 = p" "account_laws e0" "length (pr_new_signer args) = 32" "ledger_steps p w1 w" for e0 accounts0 args w0 w1
  proof -
    obtain q where q: "acc_data (w1 ?j) = DTimelock q" "new_signer q = pr_new_signer args"
      "sint (executable_after_unix_ts q) = sint (clock_unix_timestamp e0) + 86400"
      using propose_run [OF made(1)] made(2,5) by (auto simp: TIMELOCK_DELAY_SECS_def)
    have "acc_owner (w1 ?j) = p"
      using propose_owned [OF machine_lawsD(2) [OF account_lawsD(1) [OF made(4)]] made(1)] made(2,3) by simp
    from proposal_kept [OF made(6) this q(1)] t(1) obtain s where "t = q\<lparr> tl_status := s \<rparr>" by auto
    with t(3) q show ?thesis by (simp add: new_signer_def)
  qed
  have once: "process_execute_set_attestation_signer e2 accounts2 n2 w2 \<noteq> (Inr (), w3)"
    if "ledger_steps p w' w2" "ai_key (accounts2 ! 2) = ?j" for e2 accounts2 n2 w2 w3
  proof
    assume again: "process_execute_set_attestation_signer e2 accounts2 n2 w2 = (Inr (), w3)"
    have "acc_owner (w' ?j) = p" "acc_data (w' ?j) = DTimelock (t\<lparr> tl_status := TL_STATUS_EXECUTED \<rparr>)"
      using t(4) by (simp_all add: w')
    from proposal_kept [OF that(1) this] obtain s where
      "acc_data (w2 ?j) = DTimelock (t\<lparr> tl_status := s \<rparr>)" "s = TL_STATUS_EXECUTED" by (auto simp: tl_consts)
    with execute_run [OF again, of "t\<lparr> tl_status := s \<rparr>"] that(2) show False by (auto simp: tl_consts)
  qed
  show ?thesis using e k run auth t(1,2) c' wf since once by blast
qed

lemma ex_later_laws: "account_laws ex_later"
proof -
  have "owned_frame ex_later = owned_frame ex_env" "creates_zeroed ex_later = creates_zeroed ex_env"
    "failed_calls_abort ex_later = failed_calls_abort ex_env" "realloc_extends ex_later = realloc_extends ex_env"
    "realloc_appends ex_later = realloc_appends ex_env" "owners_frame ex_later = owners_frame ex_env"
    by (simp_all add: owned_frame_def creates_zeroed_def failed_calls_abort_def realloc_extends_def
      realloc_appends_def owners_frame_def ex_later_def)
  with ex_account_laws show ?thesis by (simp add: account_laws_def machine_laws_def)
qed

definition ex_execute_borsh :: borsh where "ex_execute_borsh = ex_borsh\<lparr> d_u64 := (\<lambda>_. Some 7) \<rparr>"

definition ex_executed :: world where
  "ex_executed = snd (process_execute_set_attestation_signer ex_later ex_execute_accounts 7 ex_proposed)"

lemma ex_executes: "process_execute_set_attestation_signer ex_later ex_execute_accounts 7 ex_proposed = (Inr (), ex_executed)"
  unfolding ex_executed_def using ex_execute_runs by (metis prod.collapse)

lemma ex_execute_step: "ledger_step (sk 9) ex_proposed ex_executed"
proof (rule instruction_step)
  show "program_id ex_later = sk 9" "system_program_id ex_later \<noteq> sk 9" by (simp_all add: ex_later_def ex_env_def sk_def)
  show "account_laws ex_later" by (rule ex_later_laws)
  show "process ex_later ex_execute_borsh ex_execute_accounts (tag_byte Tag_ExecuteSetAttestationSigner # []) ex_proposed = (Inr (), ex_executed)"
    unfolding process_tag by (simp add: with_args_def ex_execute_borsh_def ex_executes)
qed

lemma ex_executed_data:
  "acc_owner (ex_proposed (sk 30)) = sk 9" "acc_data (ex_proposed (sk 30)) = DConfig (new_program_config (sk 1) (sk 8) (sk 4) 300 255)"
  "acc_data (ex_executed (sk 30)) = DConfig ((new_program_config (sk 1) (sk 8) (sk 4) 300 255)\<lparr> attestation_signer := Pubkey (replicate 32 3) \<rparr>)"
proof -
  let ?a = ex_execute_accounts
  have k: "ai_key (?a ! 1) = sk 30" "ai_key (?a ! 2) = ex_tl_key" by (simp_all add: ex_execute_accounts_def ai_of_def)
  show c: "acc_owner (ex_proposed (sk 30)) = sk 9" "acc_data (ex_proposed (sk 30)) = DConfig (new_program_config (sk 1) (sk 8) (sk 4) 300 255)"
    by (simp_all add: ex_proposed_def ex_tl_key_not ex_tl_world_def owned_by_def)
  have t: "acc_data (ex_proposed ex_tl_key) = DTimelock ex_proposal" by (simp add: ex_proposed_def)
  have n: "new_signer ex_proposal = replicate 32 3" by (simp add: ex_proposal_def new_signer_def set_new_signer_def)
  from execute_run [OF ex_executes, unfolded k, OF t] c(2) have
    x: "ex_executed = set_data ex_tl_key (DTimelock (ex_proposal\<lparr> tl_status := TL_STATUS_EXECUTED \<rparr>))
       (set_data (sk 30) (DConfig ((new_program_config (sk 1) (sk 8) (sk 4) 300 255)\<lparr> attestation_signer := Pubkey (replicate 32 3) \<rparr>)) ex_proposed)"
    by (auto simp: n)
  show "acc_data (ex_executed (sk 30)) = DConfig ((new_program_config (sk 1) (sk 8) (sk 4) 300 255)\<lparr> attestation_signer := Pubkey (replicate 32 3) \<rparr>)"
    unfolding x by (simp add: ex_tl_key_not)
qed

lemma timelock_delay_witness:
  "\<exists>e accounts n t. process_execute_set_attestation_signer e accounts n ex_proposed = (Inr (), ex_executed) \<and>
     acc_data (ex_proposed (ai_key (accounts ! 2))) = DTimelock t \<and> Pubkey (new_signer t) = Pubkey (replicate 32 3) \<and>
     (\<forall>e2 w2 w3. ledger_steps (sk 9) ex_executed w2 \<longrightarrow>
        process_execute_set_attestation_signer e2 accounts n w2 \<noteq> (Inr (), w3))"
proof -
  let ?c = "new_program_config (sk 1) (sk 8) (sk 4) 300 255"
  have ne: "attestation_signer (?c\<lparr> attestation_signer := Pubkey (replicate 32 3) \<rparr>) \<noteq> attestation_signer ?c"
    by (auto simp: new_program_config_def sk_def dest!: arg_cong [of _ _ length])
  obtain e accounts n t where "process_execute_set_attestation_signer e accounts n ex_proposed = (Inr (), ex_executed)"
      "acc_data (ex_proposed (ai_key (accounts ! 2))) = DTimelock t"
      "?c\<lparr> attestation_signer := Pubkey (replicate 32 3) \<rparr> = ?c\<lparr> attestation_signer := Pubkey (new_signer t) \<rparr>"
      "\<forall>e2 accounts2 n2 w2 w3. ledger_steps (sk 9) ex_executed w2 \<and> ai_key (accounts2 ! 2) = ai_key (accounts ! 2) \<longrightarrow>
         process_execute_set_attestation_signer e2 accounts2 n2 w2 \<noteq> (Inr (), w3)"
    using timelock_delay [OF ex_execute_step ex_executed_data ne] by blast
  then show ?thesis by (intro exI [of _ e] exI [of _ accounts] exI [of _ n] exI [of _ t]) (auto simp: new_program_config_def)
qed

end
