(* ===== verification/Expansion_Properties.thy ===== *)
theory Expansion_Properties
  imports State_Properties
begin

text \<open>
  What the expansion of a book does to its allocator. The new slots go on the freelist, and the capacity
  that the allocator counts up to is raised over them as well: each can be handed out once from the list
  and once more by counting.
\<close>

section \<open>The new slots on the freelist\<close>

lemma new_index: "k < 2 ^ 32 \<Longrightarrow> unat (of_nat k :: u32) = k"
  by (simp add: unat_of_nat)

lemma link_new_nodes_chain:
  assumes "free_chain (bk_nodes b) (freelist_head b) xs" "distinct ks" "\<forall>k\<in>set ks. 0 < k \<and> k < 2 ^ 32 \<and> k \<notin> unat ` set xs"
    and "link_new_nodes ks b = (Inr (), b')"
  shows "free_chain (bk_nodes b') (freelist_head b') (rev (map of_nat ks) @ xs) \<and>
    length (bk_nodes b') = length (bk_nodes b) \<and> node_count b' = node_count b \<and> bk_capacity b' = bk_capacity b"
  using assms
proof (induction ks arbitrary: b xs)
  case Nil
  then show ?case by (simp add: ret_ok)
next
  case (Cons k ks)
  let ?k = "of_nat k :: u32"
  let ?c = "b\<lparr> bk_nodes := (bk_nodes b)[k := NFree (freelist_head b)], freelist_head := ?k \<rparr>"
  have k: "unat ?k = k" "?k \<noteq> 0" using Cons.prems(3) new_index [of k] by auto
  from Cons.prems(4) have len: "k < length (bk_nodes b)" and r: "link_new_nodes ks ?c = (Inr (), b')"
    by (auto simp: seq_ok bnd_ok gets_ok require_ok modify_ok)
  have nk: "unat ?k \<notin> unat ` set xs" using Cons.prems(3) k(1) by simp
  have "free_chain (bk_nodes ?c) (freelist_head ?c) (?k # xs)"
    using free_chain_update [OF nk, of "bk_nodes b"] Cons.prems(1) k len by simp
  moreover have "\<forall>j\<in>set ks. 0 < j \<and> j < 2 ^ 32 \<and> j \<notin> unat ` set (?k # xs)"
    using Cons.prems(2,3) k(1) by auto
  ultimately show ?case using Cons.IH [of ?c "?k # xs"] Cons.prems(2) r by simp
qed

definition reallocated :: "u32 \<Rightarrow> book \<Rightarrow> book" where
  \<comment> \<open>the book in its account after the reallocation, before the new slots are linked\<close>
  "reallocated j b = b\<lparr> bk_nodes := bk_nodes b @ replicate (unat j) (NFree 0) \<rparr>"

lemma free_chain_append: "free_chain ns h xs \<Longrightarrow> free_chain (ns @ ms) h xs"
  by (induction ns h xs rule: free_chain.induct) (auto simp: nth_append split: node.splits)

lemma expand_book_chain:
  assumes f: "book_free b xs" and run: "expand_book j (reallocated j b) = (Inr (), b')"
  shows "unat (bk_capacity b') = unat (bk_capacity b) + unat j" "node_count b' = node_count b"
    "length (bk_nodes b') = unat (bk_capacity b')"
    "free_chain (bk_nodes b') (freelist_head b') (rev (map of_nat [unat (bk_capacity b)..<unat (bk_capacity b')]) @ xs)"
proof -
  let ?n = "unat (bk_capacity b)"
  note d = book_freeD [OF f]
  from run obtain c where c: "unat c = ?n + unat j"
    and r: "link_new_nodes [?n..<unat c] ((reallocated j b)\<lparr> bk_capacity := c \<rparr>) = (Inr (), b')"
    by (auto simp: expand_book_def reallocated_def bnd_ok gets_ok lift_ok ok_or_err_ok arith_iff seq_ok modify_ok)
  have lim: "unat c < 2 ^ 32" using unat_lt2p [of c] by simp
  have ks: "\<forall>k\<in>set [?n..<unat c]. 0 < k \<and> k < 2 ^ 32 \<and> k \<notin> unat ` set xs"
    using d(3-6) lim by fastforce
  have "free_chain (bk_nodes ((reallocated j b)\<lparr> bk_capacity := c \<rparr>)) (freelist_head ((reallocated j b)\<lparr> bk_capacity := c \<rparr>)) xs"
    using free_chain_append [OF d(1)] by (simp add: reallocated_def)
  from link_new_nodes_chain [OF this distinct_upt ks r] c d(6)
  show "unat (bk_capacity b') = ?n + unat j" "node_count b' = node_count b" "length (bk_nodes b') = unat (bk_capacity b')"
    "free_chain (bk_nodes b') (freelist_head b') (rev (map of_nat [?n..<unat (bk_capacity b')]) @ xs)"
    by (simp_all add: reallocated_def)
qed

section \<open>Allocating from the expanded book\<close>

lemma claims_append:
  assumes "nodes.claims ns b = (Inr is, c)" "nodes.claims ms c = (Inr js, d)"
  shows "nodes.claims (ns @ ms) b = (Inr (is @ js), d)"
  using assms by (induction ns arbitrary: b "is") (auto simp: bnd_ok ret_ok)

lemma claims_listed:
  assumes "free_chain (bk_nodes b) (freelist_head b) xs" "distinct xs" "length ns = length xs"
  shows "\<exists>b'. nodes.claims ns b = (Inr xs, b') \<and> freelist_head b' = 0 \<and> node_count b' = node_count b \<and>
    bk_capacity b' = bk_capacity b \<and> length (bk_nodes b') = length (bk_nodes b)"
  using assms
proof (induction xs arbitrary: b ns)
  case Nil
  then show ?case by (simp add: ret_ok)
next
  case (Cons x xs)
  then obtain n ms where ns: "ns = n # ms" "length ms = length xs" by (cases ns) auto
  from Cons.prems(1) obtain h where h: "freelist_head b = x" "x \<noteq> 0" "unat x < length (bk_nodes b)"
    "bk_nodes b ! unat x = NFree h" "free_chain (bk_nodes b) h xs" by (auto split: node.splits)
  let ?c = "put_node x n (b\<lparr> freelist_head := h \<rparr>)"
  have claim: "claim_node n b = (Inr x, ?c)" using h by (auto simp: claim_node_ok alloc_node_ok)
  have nx: "unat x \<notin> unat ` set xs" using Cons.prems(2) by simp
  have "free_chain (bk_nodes ?c) (freelist_head ?c) xs"
    using free_chain_update [OF nx, of "bk_nodes b"] h(5) by (simp add: put_node_def)
  from Cons.IH [OF this _ ns(2)] Cons.prems(2) obtain b' where
    "nodes.claims ms ?c = (Inr xs, b')" "freelist_head b' = 0" "node_count b' = node_count ?c" "bk_capacity b' = bk_capacity ?c"
    "length (bk_nodes b') = length (bk_nodes ?c)" by auto
  then show ?case using claim by (auto simp: ns(1) bnd_ok ret_ok put_node_def)
qed

lemma claims_counted:
  assumes "freelist_head b = 0" "unat (node_count b) + length ns \<le> unat (bk_capacity b)"
  shows "\<exists>b'. nodes.claims ns b = (Inr (map of_nat [unat (node_count b)..<unat (node_count b) + length ns]), b')"
  using assms
proof (induction ns arbitrary: b)
  case Nil
  then show ?case by (simp add: ret_ok)
next
  case (Cons n ns)
  let ?m = "node_count b"
  have lt: "?m < bk_capacity b" using Cons.prems(2) by (simp add: word_less_nat_alt)
  then have "unat ?m + 1 < 2 ^ 32" using unat_lt2p [of "bk_capacity b"] by (simp add: word_less_nat_alt)
  then have s: "unat (?m + 1) = Suc (unat ?m)" by (simp add: unat_word_ariths)
  let ?c = "put_node ?m n (b\<lparr> node_count := ?m + 1 \<rparr>)"
  have claim: "claim_node n b = (Inr ?m, ?c)" using Cons.prems(1) lt s by (auto simp: claim_node_ok alloc_node_ok)
  have "freelist_head ?c = 0" "unat (node_count ?c) + length ns \<le> unat (bk_capacity ?c)" "node_count ?c = ?m + 1"
    using Cons.prems s by (simp_all add: put_node_def)
  with Cons.IH [of ?c] s obtain b' where
    "nodes.claims ns ?c = (Inr (map of_nat [Suc (unat ?m)..<Suc (unat ?m) + length ns]), b')" by auto
  moreover have "[unat ?m..<unat ?m + length (n # ns)] = unat ?m # [Suc (unat ?m)..<Suc (unat ?m) + length ns]"
    by (simp add: upt_conv_Cons del: upt_Suc)
  ultimately show ?case using claim by (auto simp: bnd_ok ret_ok)
qed

lemma word_unat_inj: "inj (unat :: u32 \<Rightarrow> nat)"
  by (rule injI) (simp add: word_unat_eq_iff)

lemma count_distinct: "distinct xs \<Longrightarrow> x \<in> set xs \<Longrightarrow> count_list xs x = 1"
  by (induction xs) auto

lemma count_twice: "count_list xs x = 2 \<Longrightarrow> \<not> distinct xs"
  by (cases "x \<in> set xs") (auto dest: count_distinct simp: count_list_0_iff)

text \<open>A sound pool has as many free slots as are neither the sentinel nor live.\<close>

lemma free_slots:
  assumes "book_free b xs"
  shows "card (live_nodes b) + length xs + 1 = unat (node_count b)"
proof -
  note d = book_freeD [OF assms]
  have "{1..<unat (node_count b)} = live_nodes b \<union> unat ` set xs"
  proof (intro set_eqI iffI)
    fix i assume "i \<in> live_nodes b \<union> unat ` set xs"
    then show "i \<in> {1..<unat (node_count b)}"
      using d(3,7,8) free_chain_not_used [OF d(1)]
      by (fastforce simp: live_nodes_def Suc_le_eq word_neq_0_conv [symmetric] unat_gt_0 intro!: gr0I)
  qed (use d(5,9) in \<open>auto simp: live_nodes_def\<close>)
  moreover have "live_nodes b \<inter> unat ` set xs = {}"
    using free_chain_not_used [OF d(1)] by (auto simp: live_nodes_def)
  moreover have "finite (live_nodes b)" by (simp add: live_nodes_def)
  moreover have "card (unat ` set xs) = length xs"
    using d(2) card_image [OF inj_on_subset [OF word_unat_inj]] by (simp add: distinct_card)
  ultimately have "unat (node_count b) - 1 = card (live_nodes b) + length xs"
    by (metis card_Un_disjoint card_atLeastLessThan finite_imageI finite_set)
  with d(4) show ?thesis by simp
qed

text \<open>
  C38. Expanding a book breaks its allocator, whatever the book: take any sound pool, expanded by any
  number of slots. The free slots of the expanded pool are those neither live before nor the sentinel;
  one allocation more than there are such slots still succeeds, every one of them, and the first
  of the new slots has then been handed out twice, without having been released.
\<close>

theorem expansion_allocates_twice:
  assumes "book_inv b" "j \<noteq> 0" "expand_book j (reallocated j b) = (Inr (), b')"
    and "length ns = unat (bk_capacity b') - card (live_nodes b)"
  shows "\<exists>is b2. nodes.claims ns b' = (Inr is, b2) \<and> count_list is (bk_capacity b) = 2"
proof -
  from assms(1) obtain xs where f: "book_free b xs" by (auto simp: book_inv_def)
  note d = book_freeD [OF f] and x = expand_book_chain [OF f assms(3)]
  let ?cap = "unat (bk_capacity b)" and ?cap' = "unat (bk_capacity b')" and ?m = "unat (node_count b)"
  let ?new = "rev (map of_nat [?cap..<?cap']) @ xs" and ?old = "map of_nat [?m..<Suc ?cap] :: u32 list"
  have lim: "?cap' < 2 ^ 32" and j: "0 < unat j" using unat_lt2p [of "bk_capacity b'"] assms(2) by (simp_all add: unat_gt_0)
  have u: "unat (of_nat k :: u32) = k" if "k < ?cap'" for k using that lim by (intro new_index) simp
  have inj: "inj_on (of_nat :: nat \<Rightarrow> u32) {..<?cap'}" by (rule inj_on_inverseI [of _ unat]) (simp add: u)
  have "distinct ?new"
  proof -
    have "distinct (map of_nat [?cap..<?cap'] :: u32 list)"
      by (simp add: distinct_map inj_on_subset [OF inj] subset_iff)
    moreover have "of_nat k \<notin> set xs" if "?cap \<le> k" "k < ?cap'" for k
      using d(3) [of "of_nat k"] d(5,6) u [OF that(2)] that by auto
    ultimately show ?thesis using d(2) by auto
  qed
  have len: "length ns = length ?new + length ?old"
    using assms(4) free_slots [OF f] d(5,6) x(1) by simp
  define ns1 ns2 where n: "ns1 = take (length ?new) ns" "ns2 = drop (length ?new) ns"
  have l: "length ns1 = length ?new" "length ns2 = length ?old" "ns = ns1 @ ns2" using len by (simp_all add: n)
  from claims_listed [OF x(4) \<open>distinct ?new\<close> l(1)] obtain c where
    c: "nodes.claims ns1 b' = (Inr ?new, c)" "freelist_head c = 0" "node_count c = node_count b" "bk_capacity c = bk_capacity b'"
    by (auto simp: x(2))
  have "?m + length ns2 \<le> ?cap'" using l(2) d(5,6) x(1) j by simp
  from claims_counted [of c ns2] c(2-4) this l(2) d(5,6) obtain b2 where "nodes.claims ns2 c = (Inr ?old, b2)" by auto
  with c(1) have "nodes.claims ns b' = (Inr (?new @ ?old), b2)" unfolding l(3) by (intro claims_append)
  moreover have "count_list (?new @ ?old) (bk_capacity b) = 2"
  proof -
    have "bk_capacity b = of_nat ?cap" by simp
    moreover have "?cap \<in> set [?cap..<?cap']" "?cap \<in> set [?m..<Suc ?cap]" using x(1) j d(5,6) by auto
    ultimately have "bk_capacity b \<in> set ?new" "bk_capacity b \<in> set ?old" unfolding set_append set_rev set_map by blast+
    moreover have "distinct ?old"
      using x(1) j by (simp add: distinct_map inj_on_subset [OF inj] subset_iff del: upt_Suc)
    ultimately show ?thesis using \<open>distinct ?new\<close> count_distinct by (metis count_list_append one_add_one)
  qed
  ultimately show ?thesis by blast
qed

definition ex_small_pool :: book where
  "ex_small_pool = new_intent_book (sk 20) 2 255 0"

definition ex_expanded_pool :: book where
  "ex_expanded_pool = (reallocated 1 ex_small_pool)\<lparr> bk_capacity := 3, freelist_head := 2 \<rparr>"

lemma ex_expands: "expand_book 1 (reallocated 1 ex_small_pool) = (Inr (), ex_expanded_pool)"
proof -
  have u: "[2..<3] = [2 :: nat]" by (simp add: upt_rec)
  have two: "replicate 2 x = [x, x]" for x :: node by (simp add: numeral_2_eq_2)
  have n: "reallocated 1 ex_small_pool = ex_small_pool\<lparr> bk_nodes := [NFree 0, NFree 0, NFree 0] \<rparr>"
    by (simp add: reallocated_def ex_small_pool_def new_intent_book_def NULL_IDX_def two)
  show ?thesis unfolding ex_expanded_pool_def n
    by (simp add: expand_book_def ex_small_pool_def new_intent_book_def prog_defs NULL_IDX_def checked_add_def u)
qed

lemma expansion_allocates_twice_witness:
  "\<exists>is b. nodes.claims [NSeat (ex_seat 1), NSeat (ex_seat 2), NSeat (ex_seat 3)] ex_expanded_pool = (Inr is, b) \<and> \<not> distinct is"
proof -
  have inv: "book_inv ex_small_pool" using new_book_free [of 2] by (auto simp: book_inv_def ex_small_pool_def)
  have "live_nodes ex_small_pool = {}"
    by (auto simp: live_nodes_def ex_small_pool_def new_intent_book_def NULL_IDX_def less_Suc_eq numeral_2_eq_2)
  then have len: "length [NSeat (ex_seat 1), NSeat (ex_seat 2), NSeat (ex_seat 3)]
      = unat (bk_capacity ex_expanded_pool) - card (live_nodes ex_small_pool)"
    by (simp add: ex_expanded_pool_def)
  from expansion_allocates_twice [OF inv _ ex_expands len] count_twice show ?thesis by fastforce
qed

end
