(* ===== verification/Spec2Isabelle.thy ===== *)
theory Spec2Isabelle
  imports Dispatch Allocator Ledger_Properties Settlement_Properties Conserving_Instructions Ledger_Run
    Component_Properties State_Properties Access_Properties Lifecycle_Properties Trading_Properties Order_Properties
    Match_Properties Position_Properties Timelock_Properties Expansion_Properties
begin

text \<open>
  A verification of polyleverage, a Solana program for pairwise matched leverage contracts on the
  prices of prediction markets. Traders deposit collateral into margin accounts, post intents
  (limit orders for contracts of a fixed collateral bucket) into the order book of an
  instrument, and crossing intents are matched one contract at a time into positions, whose
  collateral a signed attestation of an oracle later splits between the two sides.

  \<^bold>\<open>The model.\<close> A handler of the program is a computation in a state-and-error monad (\<open>Prelude\<close>)
  over the ledger: a map from keys to accounts with owner, lamports and data (\<open>Runtime\<close>). A Rust
  structure is a record, an enum a datatype, an integer a word of its width, an array of fixed
  length a list with its fill, and the account data one constructor per structure. Errors
  are values (\<open>Errors\<close>): those of the program with their codes, those of the runtime, and a panic.
  An error keeps the state it was raised in, because the inline match of a post swallows errors;
  \<open>run_instruction\<close> discards the writes of a failed instruction, as the runtime does. What the
  program does not contain is a parameter, the record \<open>env\<close>: clock, rent, the addresses of
  programs, the derivation of addresses, calls into other programs, reallocation, the instructions of
  the transaction, the unpacking of token accounts; and the record \<open>borsh\<close>, the generated argument decoders.
  What the theorems use of them is named: \<open>owned_frame\<close>, \<open>creates_zeroed\<close>, \<open>owners_frame\<close>,
  \<open>realloc_extends\<close>, \<open>realloc_appends\<close> and \<open>failed_calls_abort\<close> are rules of the runtime,
  grouped as \<open>runtime_laws\<close>, \<open>machine_laws\<close> and \<open>account_laws\<close>; \<open>Scenario\<close> has an environment that
  satisfies them all and evaluates, on which the witnesses run.

  \<^bold>\<open>Parts of the program.\<close> (paths under \<open>src/src\<close>)
  \<^item> Base: \<open>Errors\<close> (\<open>error.rs\<close>), \<open>Fixed_Math\<close> (\<open>math/fixed.rs\<close>), \<open>Account_Info\<close> and \<open>Runtime\<close> (\<open>utils.rs\<close>,
    \<open>seeds.rs\<close>, \<open>pod.rs\<close>, \<open>state/mod.rs\<close>), \<open>Attestation\<close> (\<open>attestation.rs\<close>).
  \<^item> State (\<open>state/\<close>): \<open>Margin_Account\<close>, \<open>Fee_Schedule\<close>, \<open>Fee_Treasury\<close>, \<open>User_Volume\<close>, \<open>Session_State\<close>,
    \<open>Bucket_Registry\<close>, \<open>Stablecoin_Registry\<close>, \<open>Admin_Multisig\<close>, \<open>Instrument_Config\<close>, \<open>Pmlc_State\<close>, and
    \<open>Config_State\<close> (program configuration, market nonce, timelock). The balances share the locales of
    \<open>Balance\<close>, the fixed arrays of keys and numbers those of \<open>Prefix_Array\<close>.
  \<^item> The order book: \<open>Intent_Book\<close> (\<open>intent_book.rs\<close>: node pool and allocator), \<open>Rb_Tree\<close> (the red-black
    algorithms, which the code has twice), \<open>Intent_Tree\<close> (\<open>intent_tree.rs\<close>) and \<open>Seat_Tree\<close>
    (\<open>seat_tree.rs\<close>), which instantiate \<open>Rb_Tree\<close> by a record of accessors.
  \<^item> Handlers (\<open>processor/\<close>): \<open>Admin_Ix\<close> (admin, multisig, timelock), \<open>Fees_Ix\<close>, \<open>Margin_Ix\<close>, \<open>Match_Ix\<close>,
    \<open>Intent_Ix\<close>, \<open>Prune_Ix\<close> and \<open>Settlement_Ix\<close> (\<open>settlement.rs\<close>, \<open>close_prune.rs\<close>, \<open>close_pmlc.rs\<close>),
    \<open>Position_Ix\<close> (novation, substitution, re-entry), \<open>Registries_Ix\<close>, \<open>Session_Ix\<close>, \<open>Instrument_Ix\<close>, \<open>Wusd_Ix\<close>;
    \<open>Dispatch\<close> (\<open>instruction.rs\<close>, \<open>processor/mod.rs\<close>) maps the tag byte to them, and \<open>process\<close> is the
    whole program.

  \<^bold>\<open>What is shown.\<close>
  \<^item> \<open>Component_Properties\<close>, \<open>State_Properties\<close>: each component on its own. Equity, reservations, fees
    and buffers; the rolling volume refines a log; registries refine sets; sessions stay in their
    budget; the multisig needs its threshold; round trips of tags and attestations; the allocator
    (\<open>Allocator\<close>, an interpretation of the locale \<open>allocator\<close>) hands out no live slot twice, but
    any expansion of a book breaks it (\<open>Expansion_Properties\<close>).
  \<^item> \<open>Ledger_Properties\<close>, \<open>Settlement_Properties\<close>, \<open>Trading_Properties\<close>, \<open>Access_Properties\<close>: the
    instructions. What a success requires and exactly what it changes, over \<open>Ledger_View\<close>; who may do
    what and when. \<open>Inline_Match\<close> describes the match a post attempts and bounds what it can change.
  \<^item> \<open>Conservation\<close>, \<open>Conserving_Handlers\<close>, \<open>Conserving_Instructions\<close>, \<open>Settlement_Facts\<close>,
    \<open>Flow_Properties\<close>, \<open>Ledger_Run\<close>: the collateral and fees the program owes change by exactly what is
    deposited, withdrawn and swept, over every instruction and every run of instructions and steps of the
    outside, within the bounds of settlement and without inline matches.
  \<^item> \<open>Book_Frame\<close>, \<open>Account_Machine\<close>, \<open>Machine_Handlers\<close>, \<open>Ledger_Machine\<close>, \<open>Lifecycle_Properties\<close>: the
    program refines an abstract ledger in which every account is a state machine of its own
    (\<open>evolves\<close>, \<open>moves\<close>). From it, along every run: accounts keep kind and terms, stay
    well-formed, positions settle once, attestations are used once, fees only fall; and the trusted
    signer changes only by a due proposal, executed once (\<open>Timelock_Properties\<close>).
  \<^item> \<open>Rb_Shape\<close>, \<open>Rb_Store\<close>, \<open>Rb_Insert\<close>, \<open>Rb_Delete\<close>, \<open>Rb_Refine\<close>: the pointer algorithms are correct. A
    tree and the path above it stand in the links of the nodes (\<open>at\<close>); insertion and removal run to
    the end and leave a red-black tree whose inorder list has the node put in or taken out. The
    locale \<open>rb_store\<close> carries this to any state with accessors, and \<open>Book_Trees\<close> and \<open>Seat_Orders\<close>
    interpret it for the three trees of a book.
  \<^item> \<open>Best_First\<close>, \<open>Intent_Removal\<close>, \<open>Book_Order\<close>, \<open>Book_Programs\<close>, \<open>Book_Ledger\<close>, \<open>Order_Properties\<close>: the order
    book. Its invariant \<open>book_ok\<close> (sound pool, both sides and the seats in order, every intent filed in
    its tree and owned by a seat) holds along every run without an expansion, and on such a book the
    traversal ends and discovery finds the best crossing pair.
  \<^item> \<open>Match_Facts\<close>, \<open>Match_Scenario\<close>, \<open>Match_Properties\<close>, \<open>Position_Properties\<close>: what follows a crossing. On a
    well-ordered book a match takes one contract from each intent, locks a bucket on both sides and
    opens the position at the midpoint; novation and substitution hand a side over with its collateral;
    a re-entry takes the most contracts that the free collateral pays for.

  \<^bold>\<open>Loops and fuel.\<close> The loops over slices and ranges are structural recursion. Those over tree links
  and the descent take fuel: the number of slots plus one (\<open>pool_fuel\<close>, \<open>seat_fuel\<close>), which is
  enough since a tree in the pool has fewer nodes (\<open>side_tree_size\<close>, \<open>seat_tree_size\<close>); running
  out is the value \<open>ComputeBudgetExceeded\<close>, which the theorems on well-ordered books exclude. The
  traversal's stack has the 64 entries of the code: a red-black tree of 32-bit indices is no
  higher (\<open>rbt_height\<close>). The trimming of a re-entry counts down from its 16-bit start.

  \<^bold>\<open>Not modelled.\<close> The entrypoint macro and the module declarations; the derived Borsh decoders and
  the unsafe reinterpretation of bytes as structures (the model has one constructor per structure,
  and checks length and first byte as the casts do); log messages; the \<open>Display\<close> of errors;
  \<open>read_token_amount\<close>, which nothing calls; the cryptography of the Ed25519 precompile and of address
  derivation; the runtime's checks after an instruction, which can only turn a success into a
  failure; the tests. The conservation theorems exclude a post with an inline match: an error of
  the match that the post swallows leaves what was written until then, which can be collateral
  reserved for intents that no longer exist, or a fee accrued that nobody was charged.
\<close>

end
